(* ===== verification/Prelude.thy ===== *)
theory Prelude
  imports Complex_Main "HOL-Library.Multiset"
begin

text \<open>
  What every component of the development shares: the types that stand for identifiers
  and instants, the errors a request ends with, the database tables the services read and
  write through Prisma, the audit sink they all report to, and the locales that state once
  how an invariant of one operation becomes an invariant of every run.

  \<^item> An instant (\<open>Date\<close>, \<open>Date.now()\<close>) is its number of milliseconds, an \<open>int\<close>. A request
    that reads the clock several times takes its readings as a function \<open>clk\<close>: \<open>clk k\<close> is
    the \<open>k\<close>-th reading, in the order the code makes them.
  \<^item> A Prisma table is the list of its rows, in the order the database returns them.
    \<open>findUnique\<close> and \<open>findFirst\<close> are \<open>find_row\<close>, \<open>update\<close> and \<open>updateMany\<close> are
    \<open>update_where\<close>, \<open>create\<close> appends. Generated ids (cuid, a library) are arguments.
  \<^item> A thrown error is a value: an operation returns \<open>Inl e\<close> or \<open>Inr x\<close>, with the state
    it leaves behind.
\<close>

named_theorems row_simps \<open>equations of the table operations\<close>

section \<open>Identifiers, instants, errors\<close>

type_synonym ident = string
type_synonym time = int
type_synonym clock = "nat \<Rightarrow> time"

datatype error_code = BAD_REQUEST | UNAUTHORIZED | FORBIDDEN | NOT_FOUND | CONFLICT | PAYLOAD_TOO_LARGE | RATE_LIMIT_EXCEEDED | API_KEY_RATE_LIMIT_EXCEEDED
  | AI_SERVICE_UNAVAILABLE | AI_SERVICE_TIMEOUT | AI_INVALID_RESPONSE | AI_VERIFICATION_FAILED | EVIDENCE_MISSING_FILE

text \<open>
  \<open>AppException code status message\<close> is the exception every service of the backend throws;
  \<open>PlainError message\<close> is a bare \<open>new Error(message)\<close>.
\<close>

datatype app_error = AppException error_code nat string | PlainError string

fun error_message :: "app_error \<Rightarrow> string" where
  "error_message (AppException c n m) = m"
| "error_message (PlainError m) = m"

text \<open>An optional string is truthy when it is there and not empty.\<close>

definition truthy :: "string option \<Rightarrow> bool" where
  "truthy x \<longleftrightarrow> x \<noteq> None \<and> x \<noteq> Some []"

section \<open>Strings\<close>

text \<open>\<open>String.includes\<close>, and \<open>toLowerCase\<close> on the ASCII letters (the only ones compared with).\<close>

fun str_includes :: "string \<Rightarrow> string \<Rightarrow> bool" where
  "str_includes [] needle \<longleftrightarrow> needle = []"
| "str_includes (c # cs) needle \<longleftrightarrow> take (length needle) (c # cs) = needle \<or> str_includes cs needle"

definition lower_char :: "char \<Rightarrow> char" where
  "lower_char c = (if 65 \<le> (of_char c :: nat) \<and> (of_char c :: nat) \<le> 90
     then char_of ((of_char c :: nat) + 32) else c)"

definition toLowerCase :: "string \<Rightarrow> string" where
  "toLowerCase = map lower_char"

lemma includes_iff: "str_includes s needle \<longleftrightarrow> (\<exists>us vs. s = us @ needle @ vs)"
proof (induction s)
  case (Cons c cs)
  have "take (length needle) (c # cs) = needle \<longleftrightarrow> (\<exists>vs. c # cs = needle @ vs)"
    by (metis append_eq_conv_conj append_take_drop_id)
  then show ?case unfolding str_includes.simps Cons.IH
    by (metis append_Cons append_Nil list.exhaust list.inject)
qed auto

abbreviation DQUOTE :: char where "DQUOTE \<equiv> CHR 0x22"
abbreviation CR :: char where "CR \<equiv> CHR 0x0D"
abbreviation LF :: char where "LF \<equiv> CHR 0x0A"

text \<open>\<open>Array.join\<close>\<close>

fun join :: "string \<Rightarrow> string list \<Rightarrow> string" where
  "join sep [] = []"
| "join sep [x] = x"
| "join sep (x # y # xs) = x @ sep @ join sep (y # xs)"

lemma join_set: "set (join sep xs) \<subseteq> set sep \<union> (\<Union>x \<in> set xs. set x)"
  by (induction xs rule: join.induct) (auto simp: insert_absorb)

text \<open>\<open>String.trim\<close>, on the white space of Latin-1.\<close>

definition js_space :: "char \<Rightarrow> bool" where
  "js_space c \<longleftrightarrow> c \<in> {CHR '' '', CHR 0x09, CHR 0x0A, CHR 0x0B, CHR 0x0C, CHR 0x0D, CHR 0xA0}"

definition trim :: "string \<Rightarrow> string" where
  "trim s = rev (dropWhile js_space (rev (dropWhile js_space s)))"

lemma trim_Nil_iff: "trim s = [] \<longleftrightarrow> (\<forall>c \<in> set s. js_space c)"
proof
  assume "trim s = []"
  then have "\<forall>c \<in> set (dropWhile js_space s). js_space c"
    unfolding trim_def by (simp only: rev_is_Nil_conv dropWhile_eq_Nil_conv set_rev)
  moreover have "\<not> js_space (hd (dropWhile js_space s)) \<and> hd (dropWhile js_space s) \<in> set (dropWhile js_space s)"
    if "dropWhile js_space s \<noteq> []" using that by (simp add: hd_dropWhile del: dropWhile_eq_Nil_conv)
  ultimately have "dropWhile js_space s = []" by blast
  then show "\<forall>c \<in> set s. js_space c" by (simp add: dropWhile_eq_Nil_conv)
next
  assume "\<forall>c \<in> set s. js_space c"
  then have "dropWhile js_space s = []" by simp
  then show "trim s = []" unfolding trim_def by (simp only: rev.simps dropWhile.simps)
qed

text \<open>A hexadecimal digit, as \<open>toString(16)\<close> writes it.\<close>

definition hex_digit :: "nat \<Rightarrow> char" where
  "hex_digit n = (if n < 10 then char_of (48 + n) else char_of (87 + n))"

definition hex_digit_value :: "char \<Rightarrow> nat option" where
  "hex_digit_value c =
     (let n = (of_char c :: nat)
      in if 48 \<le> n \<and> n \<le> 57 then Some (n - 48)
         else if 97 \<le> n \<and> n \<le> 102 then Some (n - 87)
         else if 65 \<le> n \<and> n \<le> 70 then Some (n - 55)
         else None)"

lemma hex_digit_back: "n < 16 \<Longrightarrow> hex_digit_value (hex_digit n) = Some n"
  by (simp add: hex_digit_value_def hex_digit_def Let_def)

text \<open>Decimal digits, and \<open>parseInt(text, 10)\<close>: blanks, a sign, the digits that follow.\<close>

definition is_digit :: "char \<Rightarrow> bool" where
  "is_digit c \<longleftrightarrow> 48 \<le> (of_char c :: nat) \<and> (of_char c :: nat) \<le> 57"

definition digits_value :: "string \<Rightarrow> int" where
  "digits_value s = foldl (\<lambda>n c. 10 * n + (of_char c - 48)) 0 s"

definition parse_int :: "string \<Rightarrow> int option" where
  "parse_int s =
     (let t = dropWhile js_space s;
          neg = (t \<noteq> [] \<and> hd t = CHR ''-'');
          u = (if t \<noteq> [] \<and> (hd t = CHR ''-'' \<or> hd t = CHR ''+'') then tl t else t);
          ds = takeWhile is_digit u
      in if ds = [] then None else Some (if neg then - digits_value ds else digits_value ds))"

text \<open>The decimal rendering of a whole number, as template strings and \<open>toString\<close> give it.\<close>

fun show_nat :: "nat \<Rightarrow> string" where
  "show_nat n = (if n < 10 then [char_of (48 + n)] else show_nat (n div 10) @ [char_of (48 + n mod 10)])"

declare show_nat.simps [simp del]

definition show_int :: "int \<Rightarrow> string" where
  "show_int i = (if i < 0 then ''-'' @ show_nat (nat (- i)) else show_nat (nat i))"

text \<open>
  \<open>Date.prototype.toISOString\<close>: the date of the proleptic Gregorian calendar, counted from the
  eras of 400 years, and the time of the day; a year of more than four digits is signed and has six.
\<close>

definition civil_from_days :: "int \<Rightarrow> int \<times> int \<times> int" where
  "civil_from_days d =
     (let z = d + 719468;
          era = z div 146097;
          doe = z mod 146097;
          yoe = (doe - doe div 1460 + doe div 36524 - doe div 146096) div 365;
          doy = doe - (365 * yoe + yoe div 4 - yoe div 100);
          mp = (5 * doy + 2) div 153;
          day = doy - (153 * mp + 2) div 5 + 1;
          month = (if mp < 10 then mp + 3 else mp - 9)
      in (yoe + era * 400 + (if month \<le> 2 then 1 else 0), month, day))"

definition pad_int :: "nat \<Rightarrow> int \<Rightarrow> string" where
  "pad_int w i = replicate (w - length (show_int i)) (CHR ''0'') @ show_int i"

definition toISOString :: "time \<Rightarrow> string" where
  "toISOString t =
     (let (year, month, day) = civil_from_days (t div 86400000);
          ms = t mod 86400000
      in (if 0 \<le> year \<and> year \<le> 9999 then pad_int 4 year
          else (if year < 0 then ''-'' else ''+'') @ pad_int 6 \<bar>year\<bar>)
         @ ''-'' @ pad_int 2 month @ ''-'' @ pad_int 2 day @ ''T'' @ pad_int 2 (ms div 3600000)
         @ '':'' @ pad_int 2 (ms div 60000 mod 60) @ '':'' @ pad_int 2 (ms div 1000 mod 60)
         @ ''.'' @ pad_int 3 (ms mod 1000) @ ''Z'')"

section \<open>Tables\<close>

definition find_row :: "('r \<Rightarrow> bool) \<Rightarrow> 'r list \<Rightarrow> 'r option" where
  "find_row p rows = find p rows"

definition update_where :: "('r \<Rightarrow> bool) \<Rightarrow> ('r \<Rightarrow> 'r) \<Rightarrow> 'r list \<Rightarrow> 'r list" where
  "update_where p f rows = map (\<lambda>r. if p r then f r else r) rows"

definition count_where :: "('r \<Rightarrow> bool) \<Rightarrow> 'r list \<Rightarrow> nat" where
  "count_where p rows = length (filter p rows)"

lemma find_row_Nil [simp]: "find_row p [] = None"
  by (simp add: find_row_def)

lemma find_row_Cons: "find_row p (r # rs) = (if p r then Some r else find_row p rs)"
  by (simp add: find_row_def)

lemma find_row_SomeD:
  assumes "find_row p rows = Some r"
  shows "r \<in> set rows" and "p r"
  using assms by (auto simp: find_row_def find_Some_iff)

lemma find_row_None_iff: "find_row p rows = None \<longleftrightarrow> (\<forall>r \<in> set rows. \<not> p r)"
  by (auto simp: find_row_def find_None_iff)

lemma find_row_exists: "r \<in> set rows \<Longrightarrow> p r \<Longrightarrow> \<exists>r'. find_row p rows = Some r'"
  using find_row_None_iff by fastforce

lemma find_row_append:
  "find_row p (xs @ ys) = (case find_row p xs of None \<Rightarrow> find_row p ys | Some r \<Rightarrow> Some r)"
  by (induction xs) (auto simp: find_row_Cons)

lemma find_row_cong: "(\<And>r. r \<in> set rows \<Longrightarrow> p r = q r) \<Longrightarrow> find_row p rows = find_row q rows"
  by (induction rows) (auto simp: find_row_Cons)

text \<open>In a table whose rows have distinct keys, the row with a key is the one found.\<close>

lemma find_row_key:
  assumes "distinct (map key rows)" and "r \<in> set rows"
  shows "find_row (\<lambda>x. key x = key r) rows = Some r"
  using assms by (induction rows) (auto simp: find_row_Cons rev_image_eqI)

lemma key_unique:
  assumes "distinct (map key rows)" "r \<in> set rows" "r' \<in> set rows" "key r = key r'"
  shows "r = r'"
  using assms by (metis find_row_key option.inject)

lemma filter_key_single:
  assumes "distinct (map key rows)" and "r \<in> set rows" and "key r = k"
  shows "filter (\<lambda>x. key x = k) rows = [r]"
  using assms by (induction rows) (auto simp: filter_empty_conv rev_image_eqI)

lemma update_where_Nil [simp]: "update_where p f [] = []"
  by (simp add: update_where_def)

lemma update_where_Cons [simp]:
  "update_where p f (r # rs) = (if p r then f r else r) # update_where p f rs"
  by (simp add: update_where_def)

lemma update_where_append [simp]:
  "update_where p f (xs @ ys) = update_where p f xs @ update_where p f ys"
  by (simp add: update_where_def)

lemma length_update_where [simp]: "length (update_where p f rows) = length rows"
  by (simp add: update_where_def)

lemma set_update_where: "set (update_where p f rows) = (\<lambda>r. if p r then f r else r) ` set rows"
  by (simp add: update_where_def)

lemma in_update_whereE:
  assumes "x \<in> set (update_where p f rows)"
  obtains (kept) "x \<in> set rows" "\<not> p x" | (changed) r where "r \<in> set rows" "p r" "x = f r"
  using assms by (auto simp: set_update_where split: if_splits)

lemma in_update_where_kept: "r \<in> set rows \<Longrightarrow> \<not> p r \<Longrightarrow> r \<in> set (update_where p f rows)"
  by (force simp: set_update_where)

lemma in_update_where_changed: "r \<in> set rows \<Longrightarrow> p r \<Longrightarrow> f r \<in> set (update_where p f rows)"
  by (force simp: set_update_where)

text \<open>Updating by key a table with distinct keys exchanges one row.\<close>

lemma in_update_key:
  assumes "distinct (map key rows)" and "r \<in> set rows"
  shows "y \<in> set (update_where (\<lambda>x. key x = key r) f rows) \<longleftrightarrow> y = f r \<or> y \<in> set rows \<and> key y \<noteq> key r"
proof -
  have "x = r" if "x \<in> set rows" "key x = key r" for x
    using assms that by (induction rows) (auto simp: rev_image_eqI)
  then show ?thesis using assms(2) by (auto simp: set_update_where image_iff split: if_splits)
qed

lemma update_where_ident: "(\<And>r. r \<in> set rows \<Longrightarrow> \<not> p r) \<Longrightarrow> update_where p f rows = rows"
  by (induction rows) auto

lemma map_update_where:
  "(\<And>r. g (f r) = g r) \<Longrightarrow> map g (update_where p f rows) = map g rows"
  by (induction rows) auto

lemma find_row_update_where:
  assumes "\<And>r. q (f r) = q r"
  shows "find_row q (update_where p f rows) =
    map_option (\<lambda>r. if p r then f r else r) (find_row q rows)"
  using assms by (induction rows) (auto simp: find_row_Cons)

lemma find_row_update_where_None:
  assumes "\<And>r. r \<in> set rows \<Longrightarrow> p r \<Longrightarrow> \<not> q (f r) \<and> \<not> q r"
  shows "find_row q (update_where p f rows) = find_row q rows"
  using assms by (induction rows) (auto simp: find_row_Cons)

lemma update_where_twice:
  "(\<And>r. p r \<Longrightarrow> p (g r)) \<Longrightarrow> update_where p f (update_where p g rows) = update_where p (\<lambda>r. f (g r)) rows"
  by (induction rows) auto

lemma sum_list_update_where:
  fixes g :: "'r \<Rightarrow> 'a :: comm_monoid_add"
  assumes "\<And>r. r \<in> set rows \<Longrightarrow> p r \<Longrightarrow> g (f r) = g r"
  shows "sum_list (map g (update_where p f rows)) = sum_list (map g rows)"
  using assms by (induction rows) auto

text \<open>
  Updating the one row with a key changes a sum over the table by that row's difference.
\<close>

lemma sum_list_update_key:
  fixes g :: "'r \<Rightarrow> 'a :: ab_group_add"
  assumes "distinct (map key rows)" and "r \<in> set rows"
  shows "sum_list (map g (update_where (\<lambda>x. key x = key r) f rows)) =
    sum_list (map g rows) - g r + g (f r)"
  using assms
proof (induction rows)
  case Nil
  then show ?case by simp
next
  case (Cons x rows)
  show ?case
  proof (cases "key x = key r")
    case True
    with Cons.prems have "x = r" and "\<forall>y \<in> set rows. key y \<noteq> key r"
      by (auto simp: rev_image_eqI)
    then show ?thesis by (simp add: update_where_ident algebra_simps)
  next
    case False
    with Cons.prems have "distinct (map key rows)" "r \<in> set rows" by auto
    with Cons.IH False show ?thesis by (simp add: algebra_simps)
  qed
qed

lemma count_where_append [simp]: "count_where p (xs @ ys) = count_where p xs + count_where p ys"
  by (simp add: count_where_def)

lemma count_where_0_iff: "count_where p rows = 0 \<longleftrightarrow> (\<forall>r \<in> set rows. \<not> p r)"
  by (auto simp: count_where_def filter_empty_conv)

lemmas [row_simps] = find_row_append find_row_Cons set_update_where map_update_where

section \<open>The audit sink\<close>

text \<open>
  \<open>AuditService.record\<close> as its callers use it: one more entry at the end of the log. A
  \<open>Date\<close> inside the metadata is sent as its ISO rendering, kept here as the instant. How
  the entry is linked into the hash chain is the theory \<open>AuditChain\<close>.
\<close>

datatype meta_value =
  MStr string | MBool bool | MInt int | MNum rat | MTime time | MNull | MObj "(string \<times> meta_value) list"

record audit_params =
  au_actorId :: ident
  au_entity :: string
  au_entityId :: ident
  au_action :: string
  au_metadata :: "(string \<times> meta_value) list"

definition record_audit :: "audit_params \<Rightarrow> audit_params list \<Rightarrow> audit_params list" where
  "record_audit a entries = entries @ [a]"

section \<open>Systems of steps and their invariants\<close>

text \<open>
  A service is a relation \<open>step\<close> between states, one step per request it answers. What its
  locale assumes of one step holds along every run \<open>step\<^sup>*\<^sup>*\<close>.
\<close>

locale inv_system =
  fixes step :: "'s \<Rightarrow> 's \<Rightarrow> bool"
    and inv :: "'s \<Rightarrow> bool"
  assumes step_keeps: "step s t \<Longrightarrow> inv s \<Longrightarrow> inv t"
begin

lemma run_keeps: "step\<^sup>*\<^sup>* s t \<Longrightarrow> inv s \<Longrightarrow> inv t"
  by (induction rule: rtranclp_induct) (auto intro: step_keeps)

end

text \<open>
  A preorder every step climbs, under the invariant: what a run can never undo (a row that
  has reached a final status, an entry that has been logged).
\<close>

locale mono_system = inv_system +
  fixes le :: "'s \<Rightarrow> 's \<Rightarrow> bool"
  assumes le_refl: "le s s"
    and le_trans: "le s t \<Longrightarrow> le t u \<Longrightarrow> le s u"
    and step_le: "step s t \<Longrightarrow> inv s \<Longrightarrow> le s t"
begin

lemma run_le:
  assumes "step\<^sup>*\<^sup>* s t" and "inv s"
  shows "le s t"
  using assms
proof (induction rule: rtranclp_induct)
  case base
  show ?case by (rule le_refl)
next
  case (step t u)
  from step.hyps(1) step.prems have "inv t" by (rule run_keeps)
  with step.hyps(2) have "le t u" by (rule step_le)
  with step.IH step.prems show ?case by (auto intro: le_trans)
qed

end

end
