(* ===== verification/ReviewLock.thy ===== *)
theory ReviewLock
  imports Prelude
begin

text \<open>
  The review locks of \<open>verification/review-lock.service.ts\<close>: a reviewer acquires a lease on
  an entity before deciding on it, refreshes it, releases it, and a scheduled job expires
  what was left behind. The state is the \<open>ReviewLock\<close> table and the audit log.

  First the data and the operations, in the order of the service; then what each operation
  does; then the steps of the service as a relation and what its runs keep: the locks'
  identities and the finality of a released lock in every run, and at most one live lock
  per entity in the runs that refresh only locks that are still live. The last section
  shows by two runs that the service itself gives no such guarantee.
\<close>

section \<open>Data\<close>

datatype lock_entity_type = VERIFICATION | CLAIM

datatype lock_code =
  L_ACQUIRED | L_ALREADY_LOCKED | L_NOT_LOCKED | L_EXPIRED | L_RELEASED | L_CONFLICT | L_NOT_OWNER

datatype lock_status = L_active | L_released | L_expired | L_force_expired

record review_lock =
  lk_id :: ident
  lk_entityType :: lock_entity_type
  lk_entityId :: ident
  lk_lockedBy :: ident
  lk_lockedAt :: time
  lk_expiresAt :: time
  lk_status :: lock_status
  lk_releasedAt :: "time option"
  lk_releaseReason :: "string option"
  lk_version :: nat

record lock_state =
  locks :: "review_lock list"
  lock_audit :: "audit_params list"

datatype suggested_action = Refresh_page | Try_again_later | Force_refresh

record lock_info =
  li_lockId :: ident
  li_entityType :: lock_entity_type
  li_entityId :: ident
  li_lockedBy :: ident
  li_lockedAt :: time
  li_expiresAt :: time
  li_code :: lock_code
  li_message :: string
  li_remainingSeconds :: int

record lock_conflict =
  lc_code :: lock_code
  lc_message :: string
  lc_lockedBy :: ident
  lc_lockedAt :: time
  lc_expiresAt :: time
  lc_remainingSeconds :: int
  lc_suggestedAction :: suggested_action

record lock_result =
  lr_success :: bool
  lr_lockId :: "ident option"
  lr_code :: lock_code
  lr_message :: string
  lr_conflict :: "lock_conflict option"
  lr_lockInfo :: "lock_info option"

definition STALE_LOCK_THRESHOLD_MS :: int where
  "STALE_LOCK_THRESHOLD_MS = 2 * 60 * 1000"

section \<open>Helpers of the service\<close>

text \<open>The \<open>where\<close> clause of every lookup: an active lock of the entity that has not run out.\<close>

definition live_on :: "lock_entity_type \<Rightarrow> ident \<Rightarrow> time \<Rightarrow> review_lock \<Rightarrow> bool" where
  "live_on ty eid now l \<longleftrightarrow> lk_entityType l = ty \<and> lk_entityId l = eid \<and>
     lk_status l = L_active \<and> now < lk_expiresAt l"

definition remaining_seconds :: "time \<Rightarrow> time \<Rightarrow> int" where
  "remaining_seconds now expiresAt = max 0 ((expiresAt - now) div 1000)"

definition buildLockInfo :: "time \<Rightarrow> review_lock \<Rightarrow> lock_info" where
  "buildLockInfo now l =
     \<lparr>li_lockId = lk_id l, li_entityType = lk_entityType l, li_entityId = lk_entityId l,
      li_lockedBy = lk_lockedBy l, li_lockedAt = lk_lockedAt l, li_expiresAt = lk_expiresAt l,
      li_code = L_ACQUIRED, li_message = ''Lock is active'',
      li_remainingSeconds = remaining_seconds now (lk_expiresAt l)\<rparr>"

definition buildConflictResponse :: "time \<Rightarrow> review_lock \<Rightarrow> lock_conflict" where
  "buildConflictResponse now l =
     (let remaining = remaining_seconds now (lk_expiresAt l)
      in \<lparr>lc_code = L_ALREADY_LOCKED,
          lc_message = ''Entity is currently locked by another reviewer'',
          lc_lockedBy = lk_lockedBy l, lc_lockedAt = lk_lockedAt l,
          lc_expiresAt = lk_expiresAt l, lc_remainingSeconds = remaining,
          lc_suggestedAction =
            (if remaining > 60 then Try_again_later
             else if remaining > 10 then Refresh_page
             else Force_refresh)\<rparr>)"

definition extend_lock :: "time \<Rightarrow> int option \<Rightarrow> review_lock \<Rightarrow> review_lock" where
  "extend_lock now dur l =
     l\<lparr>lk_expiresAt := now + (case dur of None \<Rightarrow> 300 | Some d \<Rightarrow> d) * 1000,
       lk_version := Suc (lk_version l)\<rparr>"

text \<open>
  \<open>update\<close> of the row with that id; Prisma returns the updated row, and throws when there is
  none (\<open>None\<close> here).
\<close>

definition refreshExistingLock ::
  "time \<Rightarrow> ident \<Rightarrow> int option \<Rightarrow> lock_state \<Rightarrow> review_lock option \<times> lock_state" where
  "refreshExistingLock now lockId dur s =
     (let rows = update_where (\<lambda>l. lk_id l = lockId) (extend_lock now dur) (locks s)
      in (find_row (\<lambda>l. lk_id l = lockId) rows, s\<lparr>locks := rows\<rparr>))"

definition force_expire :: "time \<Rightarrow> string \<Rightarrow> review_lock \<Rightarrow> review_lock" where
  "force_expire now reason l =
     l\<lparr>lk_status := L_force_expired, lk_releasedAt := Some now, lk_releaseReason := Some reason\<rparr>"

definition cleanupStaleLocks ::
  "time \<Rightarrow> lock_entity_type \<Rightarrow> ident \<Rightarrow> lock_state \<Rightarrow> lock_state" where
  "cleanupStaleLocks now ty eid s =
     (let staleThreshold = now - STALE_LOCK_THRESHOLD_MS
      in s\<lparr>locks := update_where
           (\<lambda>l. lk_entityType l = ty \<and> lk_entityId l = eid \<and> lk_status l = L_active \<and>
                lk_expiresAt l < staleThreshold)
           (force_expire now ''stale_cleanup'') (locks s)\<rparr>)"

definition entity_type_name :: "lock_entity_type \<Rightarrow> string" where
  "entity_type_name ty = (case ty of VERIFICATION \<Rightarrow> ''verification'' | CLAIM \<Rightarrow> ''claim'')"

definition lock_audit_entry ::
  "ident \<Rightarrow> ident \<Rightarrow> string \<Rightarrow> (string \<times> meta_value) list \<Rightarrow> audit_params" where
  "lock_audit_entry actor lockId act meta =
     \<lparr>au_actorId = actor, au_entity = ''ReviewLock'', au_entityId = lockId, au_action = act,
      au_metadata = meta\<rparr>"

section \<open>Operations\<close>

text \<open>
  \<open>acquireLock\<close>, after its lookup has found no live lock: clean up, insert the new row, log.
\<close>

definition new_lock ::
  "time \<Rightarrow> ident \<Rightarrow> lock_entity_type \<Rightarrow> ident \<Rightarrow> int option \<Rightarrow> ident \<Rightarrow> review_lock" where
  "new_lock now newId ty eid dur reviewer =
     \<lparr>lk_id = newId, lk_entityType = ty, lk_entityId = eid, lk_lockedBy = reviewer,
      lk_lockedAt = now, lk_expiresAt = now + (case dur of None \<Rightarrow> 300 | Some d \<Rightarrow> d) * 1000,
      lk_status = L_active, lk_releasedAt = None, lk_releaseReason = None, lk_version = 1\<rparr>"

definition insertLock ::
  "clock \<Rightarrow> ident \<Rightarrow> lock_entity_type \<Rightarrow> ident \<Rightarrow> int option \<Rightarrow> ident \<Rightarrow> lock_state
   \<Rightarrow> (app_error + lock_result) \<times> lock_state" where
  "insertLock clk newId ty eid dur reviewer s =
     (let s1 = cleanupStaleLocks (clk 1) ty eid s;
          lock = new_lock (clk 0) newId ty eid dur reviewer;
          s2 = s1\<lparr>locks := locks s1 @ [lock],
                  lock_audit := record_audit
                    (lock_audit_entry reviewer newId ''lock_acquired''
                      [(''entityType'', MStr (entity_type_name ty)), (''entityId'', MStr eid),
                       (''expiresAt'', MTime (lk_expiresAt lock))]) (lock_audit s1)\<rparr>
      in (Inr \<lparr>lr_success = True, lr_lockId = Some newId, lr_code = L_ACQUIRED,
               lr_message = ''Lock acquired successfully'', lr_conflict = None,
               lr_lockInfo = Some (buildLockInfo (clk 2) lock)\<rparr>, s2))"

text \<open>The lookup \<open>acquireLock\<close> starts with.\<close>

definition lookup_lock :: "time \<Rightarrow> lock_entity_type \<Rightarrow> ident \<Rightarrow> lock_state \<Rightarrow> review_lock option" where
  "lookup_lock now ty eid s = find_row (live_on ty eid now) (locks s)"

definition acquireLock ::
  "clock \<Rightarrow> ident \<Rightarrow> lock_entity_type \<Rightarrow> ident \<Rightarrow> int option \<Rightarrow> ident \<Rightarrow> lock_state
   \<Rightarrow> (app_error + lock_result) \<times> lock_state" where
  "acquireLock clk newId ty eid dur reviewer s =
     (case lookup_lock (clk 0) ty eid s of
        Some existing \<Rightarrow>
          if lk_lockedBy existing = reviewer then
            (case refreshExistingLock (clk 1) (lk_id existing) dur s of
               (None, s') \<Rightarrow> (Inl (PlainError ''Record to update not found''), s')
             | (Some l, s') \<Rightarrow>
                 (Inr \<lparr>lr_success = True, lr_lockId = Some (lk_id l), lr_code = L_ACQUIRED,
                       lr_message = ''Lock refreshed successfully'', lr_conflict = None,
                       lr_lockInfo = Some (buildLockInfo (clk 2) l)\<rparr>, s'))
          else
            (Inr \<lparr>lr_success = False, lr_lockId = None, lr_code = L_ALREADY_LOCKED,
                  lr_message = ''Entity is currently locked by another reviewer'',
                  lr_conflict = Some (buildConflictResponse (clk 1) existing),
                  lr_lockInfo = None\<rparr>, s)
      | None \<Rightarrow> insertLock clk newId ty eid dur reviewer s)"

definition refused :: "lock_code \<Rightarrow> string \<Rightarrow> lock_conflict option \<Rightarrow> app_error + lock_result" where
  "refused code msg c = Inr \<lparr>lr_success = False, lr_lockId = None, lr_code = code,
     lr_message = msg, lr_conflict = c, lr_lockInfo = None\<rparr>"

definition release_row :: "time \<Rightarrow> string \<Rightarrow> review_lock \<Rightarrow> review_lock" where
  "release_row now reason l =
     l\<lparr>lk_status := L_released, lk_releasedAt := Some now, lk_releaseReason := Some reason\<rparr>"

definition releaseLock ::
  "clock \<Rightarrow> ident \<Rightarrow> ident \<Rightarrow> lock_state \<Rightarrow> (app_error + lock_result) \<times> lock_state" where
  "releaseLock clk lockId reviewer s =
     (case find_row (\<lambda>l. lk_id l = lockId) (locks s) of
        None \<Rightarrow> (refused L_NOT_LOCKED ''Lock not found'' None, s)
      | Some l \<Rightarrow>
          if lk_status l \<noteq> L_active then (refused L_NOT_LOCKED ''Lock is not active'' None, s)
          else if lk_lockedBy l \<noteq> reviewer then
            (refused L_NOT_OWNER ''You do not own this lock''
               (Some (buildConflictResponse (clk 0) l)), s)
          else
            (Inr \<lparr>lr_success = True, lr_lockId = Some (lk_id l), lr_code = L_RELEASED,
                  lr_message = ''Lock released successfully'', lr_conflict = None,
                  lr_lockInfo = None\<rparr>,
             s\<lparr>locks := update_where (\<lambda>x. lk_id x = lockId) (release_row (clk 0) ''manual'') (locks s),
               lock_audit := record_audit
                 (lock_audit_entry reviewer (lk_id l) ''lock_released''
                   [(''entityType'', MStr (entity_type_name (lk_entityType l))),
                    (''entityId'', MStr (lk_entityId l)),
                    (''durationMs'', MInt (clk 1 - lk_lockedAt l))]) (lock_audit s)\<rparr>))"

definition refreshLock ::
  "clock \<Rightarrow> ident \<Rightarrow> int option \<Rightarrow> ident \<Rightarrow> lock_state \<Rightarrow> (app_error + lock_result) \<times> lock_state" where
  "refreshLock clk lockId dur reviewer s =
     (case find_row (\<lambda>l. lk_id l = lockId) (locks s) of
        None \<Rightarrow> (refused L_NOT_LOCKED ''Lock not found'' None, s)
      | Some l \<Rightarrow>
          if lk_status l \<noteq> L_active then (refused L_EXPIRED ''Lock is no longer active'' None, s)
          else if lk_lockedBy l \<noteq> reviewer then
            (refused L_NOT_OWNER ''You do not own this lock''
               (Some (buildConflictResponse (clk 0) l)), s)
          else
            (case refreshExistingLock (clk 0) (lk_id l) dur s of
               (None, s') \<Rightarrow> (Inl (PlainError ''Record to update not found''), s')
             | (Some r, s') \<Rightarrow>
                 (Inr \<lparr>lr_success = True, lr_lockId = Some (lk_id r), lr_code = L_ACQUIRED,
                       lr_message = ''Lock refreshed successfully'', lr_conflict = None,
                       lr_lockInfo = Some (buildLockInfo (clk 1) r)\<rparr>,
                  s'\<lparr>lock_audit := record_audit
                      (lock_audit_entry reviewer (lk_id l) ''lock_refreshed''
                        [(''entityType'', MStr (entity_type_name (lk_entityType l))),
                         (''entityId'', MStr (lk_entityId l)),
                         (''newExpiresAt'', MTime (lk_expiresAt r))]) (lock_audit s')\<rparr>)))"

definition getLockStatus ::
  "clock \<Rightarrow> lock_entity_type \<Rightarrow> ident \<Rightarrow> lock_state \<Rightarrow> lock_info option \<times> lock_state" where
  "getLockStatus clk ty eid s =
     (let s1 = cleanupStaleLocks (clk 1) ty eid s
      in (map_option (buildLockInfo (clk 2)) (find_row (live_on ty eid (clk 0)) (locks s1)), s1))"

definition verifyLockOwnership ::
  "clock \<Rightarrow> lock_entity_type \<Rightarrow> ident \<Rightarrow> ident \<Rightarrow> lock_state \<Rightarrow> lock_result" where
  "verifyLockOwnership clk ty eid reviewer s =
     (case find_row (live_on ty eid (clk 0)) (locks s) of
        None \<Rightarrow> \<lparr>lr_success = False, lr_lockId = None, lr_code = L_NOT_LOCKED,
                 lr_message = ''No active lock found on this entity'', lr_conflict = None,
                 lr_lockInfo = None\<rparr>
      | Some l \<Rightarrow>
          if lk_lockedBy l \<noteq> reviewer then
            \<lparr>lr_success = False, lr_lockId = None, lr_code = L_CONFLICT,
             lr_message = ''Lock is held by another reviewer'',
             lr_conflict = Some (buildConflictResponse (clk 1) l), lr_lockInfo = None\<rparr>
          else
            \<lparr>lr_success = True, lr_lockId = Some (lk_id l), lr_code = L_ACQUIRED,
             lr_message = ''Lock verified'', lr_conflict = None,
             lr_lockInfo = Some (buildLockInfo (clk 1) l)\<rparr>)"

definition releaseLockForReview ::
  "clock \<Rightarrow> lock_entity_type \<Rightarrow> ident \<Rightarrow> ident \<Rightarrow> lock_state \<Rightarrow> lock_state" where
  "releaseLockForReview clk ty eid reviewer s =
     (case find_row (\<lambda>l. live_on ty eid (clk 0) l \<and> lk_lockedBy l = reviewer) (locks s) of
        None \<Rightarrow> s
      | Some l \<Rightarrow>
          s\<lparr>locks := update_where (\<lambda>x. lk_id x = lk_id l)
                      (release_row (clk 1) ''review_completed'') (locks s),
            lock_audit := record_audit
              (lock_audit_entry reviewer (lk_id l) ''lock_released_review_complete''
                [(''entityType'', MStr (entity_type_name ty)), (''entityId'', MStr eid)])
              (lock_audit s)\<rparr>)"

definition recoverStaleLocks :: "clock \<Rightarrow> lock_state \<Rightarrow> nat \<times> lock_state" where
  "recoverStaleLocks clk s =
     (let now = clk 0;
          staleThreshold = now - STALE_LOCK_THRESHOLD_MS;
          stale = (\<lambda>l. lk_status l = L_active \<and> lk_expiresAt l < staleThreshold \<and>
                       0 < lk_expiresAt l);
          count = count_where stale (locks s);
          s1 = s\<lparr>locks := update_where stale (force_expire now ''stale_lock_recovery'') (locks s)\<rparr>
      in (count,
          if count > 0 then
            s1\<lparr>lock_audit := record_audit
                (lock_audit_entry ''system'' ''batch_recovery'' ''stale_locks_recovered''
                  [(''recoveredCount'', MInt (int count)), (''staleThreshold'', MTime staleThreshold)])
                (lock_audit s1)\<rparr>
          else s1))"

definition getLocksByReviewer :: "clock \<Rightarrow> ident \<Rightarrow> lock_state \<Rightarrow> lock_info list" where
  "getLocksByReviewer clk reviewer s =
     map (\<lambda>l. buildLockInfo (clk 1) l)
       (sort_key (\<lambda>l. - lk_lockedAt l)
         (filter (\<lambda>l. lk_lockedBy l = reviewer \<and> lk_status l = L_active \<and> clk 0 < lk_expiresAt l)
           (locks s)))"

record lock_stats =
  ls_activeLocks :: nat
  ls_staleLocks :: nat
  ls_totalLocks :: nat
  ls_locksByEntityType :: "(lock_entity_type \<times> nat) list"

text \<open>\<open>groupBy\<close> returns one group per entity type that has a row.\<close>

definition getLockStats :: "clock \<Rightarrow> lock_state \<Rightarrow> lock_stats" where
  "getLockStats clk s =
     (let now = clk 0;
          staleThreshold = now - STALE_LOCK_THRESHOLD_MS;
          active = (\<lambda>l. lk_status l = L_active \<and> now < lk_expiresAt l)
      in \<lparr>ls_activeLocks = count_where active (locks s),
          ls_staleLocks = count_where
            (\<lambda>l. lk_status l = L_active \<and> lk_expiresAt l < staleThreshold) (locks s),
          ls_totalLocks = length (locks s),
          ls_locksByEntityType =
            filter (\<lambda>(ty, n). 0 < n)
              (map (\<lambda>ty. (ty, count_where (\<lambda>l. active l \<and> lk_entityType l = ty) (locks s)))
                 [VERIFICATION, CLAIM])\<rparr>)"

section \<open>Lemmas on locks\<close>

lemmas row_fields = extend_lock_def force_expire_def release_row_def

definition ids_distinct :: "lock_state \<Rightarrow> bool" where
  "ids_distinct s \<longleftrightarrow> distinct (map lk_id (locks s))"

text \<open>\<open>exclusive t s\<close>: no entity has two locks that are live at \<open>t\<close>.\<close>

definition exclusive :: "time \<Rightarrow> lock_state \<Rightarrow> bool" where
  "exclusive t s \<longleftrightarrow> (\<forall>ty eid. \<forall>l \<in> set (locks s). \<forall>l' \<in> set (locks s).
     live_on ty eid t l \<longrightarrow> live_on ty eid t l' \<longrightarrow> lk_id l = lk_id l')"

lemma live_on_earlier: "live_on ty eid t' l \<Longrightarrow> t \<le> t' \<Longrightarrow> live_on ty eid t l"
  by (simp add: live_on_def)

lemma exclusiveD:
  "exclusive t s \<Longrightarrow> l \<in> set (locks s) \<Longrightarrow> l' \<in> set (locks s) \<Longrightarrow>
   live_on ty eid t l \<Longrightarrow> live_on ty eid t l' \<Longrightarrow> lk_id l = lk_id l'"
  unfolding exclusive_def by blast

text \<open>
  A change under which every live lock was already live, with the same identity, keeps
  exclusivity; so does the passing of time.
\<close>

lemma exclusive_if_no_new:
  assumes "exclusive t s"
    and "\<And>ty eid l'. l' \<in> set (locks s') \<Longrightarrow> live_on ty eid t' l' \<Longrightarrow>
           \<exists>l \<in> set (locks s). live_on ty eid t l \<and> lk_id l = lk_id l'"
  shows "exclusive t' s'"
  unfolding exclusive_def
proof (intro allI ballI impI)
  fix ty eid l l'
  assume in': "l \<in> set (locks s')" "l' \<in> set (locks s')"
    and live: "live_on ty eid t' l" "live_on ty eid t' l'"
  from assms(2) [OF in'(1) live(1)] obtain m where
    m: "m \<in> set (locks s)" "live_on ty eid t m" "lk_id m = lk_id l" by blast
  from assms(2) [OF in'(2) live(2)] obtain m' where
    m': "m' \<in> set (locks s)" "live_on ty eid t m'" "lk_id m' = lk_id l'" by blast
  from exclusiveD [OF assms(1) m(1) m'(1) m(2) m'(2)] m(3) m'(3) show "lk_id l = lk_id l'"
    by simp
qed

lemma exclusive_later:
  assumes "exclusive t s" and "t \<le> t'"
  shows "exclusive t' s"
  using assms(1)
  by (rule exclusive_if_no_new) (blast intro: live_on_earlier [OF _ assms(2)])

text \<open>An update that ends locks, or leaves them alone, revives none.\<close>

lemma exclusive_end_rows:
  assumes "exclusive t s" and "t \<le> t'"
    and "locks s' = update_where p f (locks s)"
    and "\<And>l. lk_status (f l) \<noteq> L_active"
  shows "exclusive t' s'"
proof (rule exclusive_if_no_new [OF assms(1)])
  fix ty eid l'
  assume "l' \<in> set (locks s')" and live: "live_on ty eid t' l'"
  with assms(3) have "l' \<in> set (update_where p f (locks s))" by simp
  then have "l' \<in> set (locks s)"
    using live assms(4) by (auto elim!: in_update_whereE simp: live_on_def)
  with live assms(2) show "\<exists>l \<in> set (locks s). live_on ty eid t l \<and> lk_id l = lk_id l'"
    by (auto intro: live_on_earlier)
qed

lemma ended_status [simp]:
  "lk_status (force_expire now why l) \<noteq> L_active" "lk_status (release_row now why l) \<noteq> L_active"
  by (simp_all add: row_fields)

lemma row_keys [simp]:
  "lk_id (extend_lock now dur l) = lk_id l" "lk_id (force_expire now why l) = lk_id l"
  "lk_id (release_row now why l) = lk_id l"
  by (simp_all add: row_fields)

lemma row_entities [simp]:
  "lk_entityType (extend_lock now dur l) = lk_entityType l"
  "lk_entityId (extend_lock now dur l) = lk_entityId l"
  "lk_lockedBy (extend_lock now dur l) = lk_lockedBy l"
  "lk_status (extend_lock now dur l) = lk_status l"
  "lk_expiresAt (extend_lock now dur l) = now + (case dur of None \<Rightarrow> 300 | Some d \<Rightarrow> d) * 1000"
  by (simp_all add: row_fields)

lemma ids_update [simp]:
  assumes "\<And>l. lk_id (f l) = lk_id l"
  shows "map lk_id (update_where p f rows) = map lk_id rows"
  using assms by (rule map_update_where)

text \<open>Cleaning up never touches a lock that is live when it runs.\<close>

lemma locks_cleanup:
  "locks (cleanupStaleLocks now ty eid s) = update_where
     (\<lambda>l. lk_entityType l = ty \<and> lk_entityId l = eid \<and> lk_status l = L_active \<and>
          lk_expiresAt l < now - STALE_LOCK_THRESHOLD_MS)
     (force_expire now ''stale_cleanup'') (locks s)"
  "lock_audit (cleanupStaleLocks now ty eid s) = lock_audit s"
  by (simp_all add: cleanupStaleLocks_def Let_def)

lemma find_live_cleanup:
  assumes "t \<le> now"
  shows "find_row (live_on ty eid t) (locks (cleanupStaleLocks now ty' eid' s)) =
    find_row (live_on ty eid t) (filter (\<lambda>l. \<not> (lk_entityType l = ty' \<and> lk_entityId l = eid' \<and>
       lk_status l = L_active \<and> lk_expiresAt l < now - STALE_LOCK_THRESHOLD_MS)) (locks s))"
proof -
  have *: "find_row (live_on ty eid t) (update_where p (force_expire now why) rows) =
      find_row (live_on ty eid t) (filter (\<lambda>l. \<not> p l) rows)" for p why rows
    by (induction rows) (auto simp: find_row_Cons live_on_def)
  show ?thesis by (simp add: locks_cleanup *)
qed

lemma locks_insert:
  "locks (snd (insertLock clk newId ty eid dur reviewer s)) =
     locks (cleanupStaleLocks (clk 1) ty eid s) @ [new_lock (clk 0) newId ty eid dur reviewer]"
  by (simp add: insertLock_def Let_def)

lemma new_lock_fields [simp]:
  "lk_id (new_lock now i ty eid dur r) = i" "lk_entityType (new_lock now i ty eid dur r) = ty"
  "lk_entityId (new_lock now i ty eid dur r) = eid" "lk_lockedBy (new_lock now i ty eid dur r) = r"
  "lk_status (new_lock now i ty eid dur r) = L_active"
  "lk_expiresAt (new_lock now i ty eid dur r) = now + (case dur of None \<Rightarrow> 300 | Some d \<Rightarrow> d) * 1000"
  by (simp_all add: new_lock_def)

lemma acquire_cases:
  obtains
    (own) ex where "find_row (live_on ty eid (clk 0)) (locks s) = Some ex" "lk_lockedBy ex = reviewer"
      "locks (snd (acquireLock clk newId ty eid dur reviewer s)) =
         update_where (\<lambda>l. lk_id l = lk_id ex) (extend_lock (clk 1) dur) (locks s)"
      "lock_audit (snd (acquireLock clk newId ty eid dur reviewer s)) = lock_audit s"
  | (other) ex where "find_row (live_on ty eid (clk 0)) (locks s) = Some ex" "lk_lockedBy ex \<noteq> reviewer"
      "snd (acquireLock clk newId ty eid dur reviewer s) = s"
  | (free) "find_row (live_on ty eid (clk 0)) (locks s) = None"
      "acquireLock clk newId ty eid dur reviewer s = insertLock clk newId ty eid dur reviewer s"
proof (cases "find_row (live_on ty eid (clk 0)) (locks s)")
  case None
  then show ?thesis by (intro free) (auto simp: acquireLock_def lookup_lock_def)
next
  case (Some ex)
  show ?thesis
  proof (cases "lk_lockedBy ex = reviewer")
    case True
    with Some show ?thesis
      by (intro own) (auto simp: acquireLock_def lookup_lock_def refreshExistingLock_def Let_def split: option.split)
  next
    case False
    with Some show ?thesis by (intro other) (auto simp: acquireLock_def lookup_lock_def)
  qed
qed

section \<open>The service as a step relation\<close>

text \<open>
  One step per request, at a state paired with the last reading of the clock. With \<open>lax\<close> the
  relation is the service; without it \<open>refreshLock\<close> only runs on a lock that has not expired.
\<close>

inductive lock_step :: "bool \<Rightarrow> time \<times> lock_state \<Rightarrow> time \<times> lock_state \<Rightarrow> bool" for lax where
  acquire: "mono clk \<Longrightarrow> t \<le> clk 0 \<Longrightarrow> newId \<notin> lk_id ` set (locks s) \<Longrightarrow>
    lock_step lax (t, s) (clk 2, snd (acquireLock clk newId ty eid dur reviewer s))"
| release: "mono clk \<Longrightarrow> t \<le> clk 0 \<Longrightarrow>
    lock_step lax (t, s) (clk 1, snd (releaseLock clk lockId reviewer s))"
| refresh: "mono clk \<Longrightarrow> t \<le> clk 0 \<Longrightarrow>
    lax \<or> (\<forall>l \<in> set (locks s). lk_id l = lockId \<longrightarrow> clk 0 < lk_expiresAt l) \<Longrightarrow>
    lock_step lax (t, s) (clk 1, snd (refreshLock clk lockId dur reviewer s))"
| status: "mono clk \<Longrightarrow> t \<le> clk 0 \<Longrightarrow>
    lock_step lax (t, s) (clk 2, snd (getLockStatus clk ty eid s))"
| review: "mono clk \<Longrightarrow> t \<le> clk 0 \<Longrightarrow>
    lock_step lax (t, s) (clk 1, releaseLockForReview clk ty eid reviewer s)"
| recover: "mono clk \<Longrightarrow> t \<le> clk 0 \<Longrightarrow>
    lock_step lax (t, s) (clk 0, snd (recoverStaleLocks clk s))"

definition no_locks :: lock_state where
  "no_locks = \<lparr>locks = [], lock_audit = []\<rparr>"

text \<open>What \<open>releaseLock\<close>, \<open>releaseLockForReview\<close>, \<open>recoverStaleLocks\<close> and \<open>getLockStatus\<close>
  share: they end some locks and leave the others as they are.\<close>

definition ends_rows :: "lock_state \<Rightarrow> lock_state \<Rightarrow> bool" where
  "ends_rows s s' \<longleftrightarrow> (\<exists>p f. locks s' = update_where p f (locks s) \<and>
     (\<forall>l. lk_status (f l) \<noteq> L_active) \<and> (\<forall>l. lk_id (f l) = lk_id l) \<and>
     (\<forall>l. lk_entityType (f l) = lk_entityType l \<and> lk_entityId (f l) = lk_entityId l \<and>
          lk_lockedBy (f l) = lk_lockedBy l) \<and>
     (\<forall>l \<in> set (locks s). p l \<longrightarrow> lk_status l = L_active))"

lemma ends_rowsI:
  assumes "locks s' = update_where p f (locks s)"
    and "f = force_expire now why \<or> f = release_row now why"
    and "\<And>l. l \<in> set (locks s) \<Longrightarrow> p l \<Longrightarrow> lk_status l = L_active"
  shows "ends_rows s s'"
  unfolding ends_rows_def
  by (rule exI [of _ p], rule exI [of _ f]) (use assms in \<open>auto simp: row_fields\<close>)

lemma ends_rows_refl: "ends_rows s s"
  by (rule ends_rowsI [where p = "\<lambda>_. False" and f = "force_expire 0 []" and now = 0 and why = "[]"])
    (auto simp: update_where_ident)

lemma ends_rows_exclusive: "ends_rows s s' \<Longrightarrow> exclusive t s \<Longrightarrow> t \<le> t' \<Longrightarrow> exclusive t' s'"
  unfolding ends_rows_def by (blast intro: exclusive_end_rows)

lemma ends_rows_ids: "ends_rows s s' \<Longrightarrow> ids_distinct s \<Longrightarrow> ids_distinct s'"
  by (auto simp: ends_rows_def ids_distinct_def map_update_where)

lemma cleanup_ends: "ends_rows s (cleanupStaleLocks now ty eid s)"
  by (rule ends_rowsI [OF locks_cleanup(1)]) auto

lemma found_active:
  assumes "ids_distinct s" "find_row (\<lambda>l. lk_id l = i) (locks s) = Some l" "lk_status l = L_active"
    and "x \<in> set (locks s)" "lk_id x = i"
  shows "lk_status x = L_active" and "x = l"
proof -
  from assms(2) have "l \<in> set (locks s)" "lk_id l = i" by (auto dest: find_row_SomeD)
  with assms show "x = l" by (auto simp: ids_distinct_def dest: key_unique)
  with assms(3) show "lk_status x = L_active" by simp
qed

lemma release_ends:
  assumes "ids_distinct s"
  shows "ends_rows s (snd (releaseLock clk lockId reviewer s))"
proof (cases "find_row (\<lambda>l. lk_id l = lockId) (locks s)")
  case None
  then show ?thesis by (simp add: releaseLock_def ends_rows_refl)
next
  case (Some l)
  show ?thesis
  proof (cases "lk_status l = L_active \<and> lk_lockedBy l = reviewer")
    case True
    with Some assms show ?thesis
      by (intro ends_rowsI [where p = "\<lambda>x. lk_id x = lockId"]) (auto simp: releaseLock_def dest: found_active)
  next
    case False
    with Some show ?thesis by (auto simp: releaseLock_def ends_rows_refl)
  qed
qed

lemma review_ends:
  assumes "ids_distinct s"
  shows "ends_rows s (releaseLockForReview clk ty eid reviewer s)"
proof (cases "find_row (\<lambda>l. live_on ty eid (clk 0) l \<and> lk_lockedBy l = reviewer) (locks s)")
  case None
  then show ?thesis by (simp add: releaseLockForReview_def ends_rows_refl)
next
  case (Some l)
  then have l: "l \<in> set (locks s)" "lk_status l = L_active"
    by (auto dest: find_row_SomeD simp: live_on_def)
  have "lk_status x = L_active" if "x \<in> set (locks s)" "lk_id x = lk_id l" for x
    using assms l that key_unique [of lk_id "locks s" x l] by (auto simp: ids_distinct_def)
  with Some show ?thesis
    by (intro ends_rowsI [where p = "\<lambda>x. lk_id x = lk_id l"]) (auto simp: releaseLockForReview_def)
qed

definition recoverable :: "time \<Rightarrow> review_lock \<Rightarrow> bool" where
  "recoverable now l \<longleftrightarrow> lk_status l = L_active \<and>
     lk_expiresAt l < now - STALE_LOCK_THRESHOLD_MS \<and> 0 < lk_expiresAt l"

lemma locks_recover:
  "locks (snd (recoverStaleLocks clk s)) =
     update_where (recoverable (clk 0)) (force_expire (clk 0) ''stale_lock_recovery'') (locks s)"
  "fst (recoverStaleLocks clk s) = count_where (recoverable (clk 0)) (locks s)"
  by (simp_all add: recoverStaleLocks_def Let_def recoverable_def [abs_def])

lemma recover_ends: "ends_rows s (snd (recoverStaleLocks clk s))"
  by (rule ends_rowsI [OF locks_recover(1)]) (auto simp: recoverable_def)

lemma status_ends: "ends_rows s (snd (getLockStatus clk ty eid s))"
  by (simp add: getLockStatus_def Let_def cleanup_ends)

text \<open>\<open>refreshLock\<close> either changes no lock or extends one active lock of its owner.\<close>

lemma refresh_cases:
  obtains
    (refused) "snd (refreshLock clk lockId dur reviewer s) = s"
  | (extended) l where "find_row (\<lambda>l. lk_id l = lockId) (locks s) = Some l"
      "lk_status l = L_active" "lk_lockedBy l = reviewer"
      "locks (snd (refreshLock clk lockId dur reviewer s)) =
         update_where (\<lambda>l. lk_id l = lockId) (extend_lock (clk 0) dur) (locks s)"
proof (cases "find_row (\<lambda>l. lk_id l = lockId) (locks s)")
  case None
  then show ?thesis by (intro refused) (simp add: refreshLock_def)
next
  case (Some l)
  then have id: "lk_id l = lockId" by (auto dest: find_row_SomeD)
  show ?thesis
  proof (cases "lk_status l = L_active \<and> lk_lockedBy l = reviewer")
    case True
    with Some id show ?thesis
      by (intro extended [of l])
        (auto simp: refreshLock_def refreshExistingLock_def Let_def split: option.split)
  next
    case False
    with Some show ?thesis by (intro refused) (auto simp: refreshLock_def)
  qed
qed

section \<open>What the steps keep\<close>

lemma exclusive_append:
  assumes "exclusive t s" and "locks s' = locks s @ [n]"
    and "\<forall>l \<in> set (locks s). \<not> live_on (lk_entityType n) (lk_entityId n) t l"
  shows "exclusive t s'"
  unfolding exclusive_def
proof (intro allI ballI impI)
  fix ty eid l l'
  assume in': "l \<in> set (locks s')" "l' \<in> set (locks s')"
    and live: "live_on ty eid t l" "live_on ty eid t l'"
  have old: "x \<in> set (locks s)" if "x \<in> set (locks s')" "x \<noteq> n" for x
    using that assms(2) by simp
  have only: "y = n" if "live_on ty eid t n" "y \<in> set (locks s')" "live_on ty eid t y" for y
  proof (rule ccontr)
    assume "y \<noteq> n"
    with that(2) have "y \<in> set (locks s)" by (rule old)
    moreover from that(1) have "ty = lk_entityType n" "eid = lk_entityId n"
      by (simp_all add: live_on_def)
    ultimately show False using that(3) assms(3) by simp
  qed
  consider "l = n" | "l' = n" | "l \<noteq> n" "l' \<noteq> n" by argo
  then show "lk_id l = lk_id l'"
  proof cases
    case 1
    with only [OF _ in'(2) live(2)] live(1) show ?thesis by simp
  next
    case 2
    with only [OF _ in'(1) live(1)] live(2) show ?thesis by simp
  next
    case 3
    from exclusiveD [OF assms(1) old [OF in'(1) 3(1)] old [OF in'(2) 3(2)] live]
    show ?thesis .
  qed
qed

lemma insert_exclusive:
  assumes "find_row (live_on ty eid (clk 0)) (locks s) = None" and "exclusive t s"
    and "t \<le> clk 0"
  shows "exclusive (clk 0) (snd (insertLock clk newId ty eid dur reviewer s))"
proof (rule exclusive_append [OF ends_rows_exclusive [OF cleanup_ends assms(2,3)] locks_insert], rule ballI)
  fix l
  assume "l \<in> set (locks (cleanupStaleLocks (clk 1) ty eid s))"
  then have "l \<in> set (locks s) \<or> lk_status l \<noteq> L_active"
    unfolding locks_cleanup by (cases rule: in_update_whereE) simp_all
  moreover from assms(1) have "\<not> live_on ty eid (clk 0) l" if "l \<in> set (locks s)"
    using that by (simp add: find_row_None_iff)
  ultimately have "\<not> live_on ty eid (clk 0) l" by (auto simp: live_on_def)
  then show "\<not> live_on (lk_entityType (new_lock (clk 0) newId ty eid dur reviewer))
      (lk_entityId (new_lock (clk 0) newId ty eid dur reviewer)) (clk 0) l" by simp
qed

lemma insert_ids:
  assumes "ids_distinct s" and "newId \<notin> lk_id ` set (locks s)"
  shows "ids_distinct (snd (insertLock clk newId ty eid dur reviewer s))"
proof -
  have "map lk_id (locks (cleanupStaleLocks (clk 1) ty eid s)) = map lk_id (locks s)"
    by (simp add: locks_cleanup)
  then have "lk_id ` set (locks (cleanupStaleLocks (clk 1) ty eid s)) = lk_id ` set (locks s)"
    by (metis set_map)
  with assms show ?thesis by (simp add: ids_distinct_def locks_insert locks_cleanup)
qed

text \<open>Extending the one row with an id: exclusive when that row was live.\<close>

lemma extend_exclusive:
  assumes "exclusive t s" and "t \<le> t'"
    and "\<And>l. l \<in> set (locks s) \<Longrightarrow> lk_id l = i \<Longrightarrow> lk_status l = L_active \<Longrightarrow> t < lk_expiresAt l"
    and "locks s' = update_where (\<lambda>l. lk_id l = i) (extend_lock now dur) (locks s)"
  shows "exclusive t' s'"
proof (rule exclusive_if_no_new [OF assms(1)])
  fix ty eid l'
  assume "l' \<in> set (locks s')" and live: "live_on ty eid t' l'"
  with assms(4) have "l' \<in> set (update_where (\<lambda>l. lk_id l = i) (extend_lock now dur) (locks s))"
    by simp
  then show "\<exists>l \<in> set (locks s). live_on ty eid t l \<and> lk_id l = lk_id l'"
  proof (cases rule: in_update_whereE)
    case kept
    with live assms(2) show ?thesis by (auto intro: live_on_earlier)
  next
    case (changed l)
    with live assms(3) have "live_on ty eid t l" by (auto simp: live_on_def)
    with changed show ?thesis by auto
  qed
qed

lemma acquire_exclusive:
  assumes "exclusive t s" and "ids_distinct s" and "mono clk" and "t \<le> clk 0"
    and "newId \<notin> lk_id ` set (locks s)"
  shows "exclusive (clk 2) (snd (acquireLock clk newId ty eid dur reviewer s))"
proof -
  have t: "clk 0 \<le> clk 2" using assms(3) by (simp add: monoD)
  show ?thesis
  proof (cases rule: acquire_cases
      [where clk = clk and s = s and ty = ty and eid = eid and reviewer = reviewer and newId = newId and dur = dur])
    case (own ex)
    then have ex: "ex \<in> set (locks s)" "live_on ty eid (clk 0) ex"
      by (auto dest: find_row_SomeD)
    show ?thesis
    proof (rule extend_exclusive [OF exclusive_later [OF assms(1,4)] t _ own(3)])
      fix l assume "l \<in> set (locks s)" "lk_id l = lk_id ex"
      with ex assms(2) have "l = ex" by (auto simp: ids_distinct_def dest: key_unique)
      with ex show "clk 0 < lk_expiresAt l" by (simp add: live_on_def)
    qed
  next
    case (other ex)
    with assms(1,4) t show ?thesis by (auto intro: exclusive_later)
  next
    case free
    with insert_exclusive [where clk = clk, OF free(1) assms(1,4)] t show ?thesis by (auto intro: exclusive_later)
  qed
qed

lemma acquire_ids:
  assumes "ids_distinct s" and "newId \<notin> lk_id ` set (locks s)"
  shows "ids_distinct (snd (acquireLock clk newId ty eid dur reviewer s))"
  by (cases rule: acquire_cases
      [where clk = clk and s = s and ty = ty and eid = eid and reviewer = reviewer and newId = newId and dur = dur])
    (use assms in \<open>auto simp: ids_distinct_def insert_ids [unfolded ids_distinct_def]\<close>)

lemma refresh_ids:
  "ids_distinct s \<Longrightarrow> ids_distinct (snd (refreshLock clk lockId dur reviewer s))"
  by (cases rule: refresh_cases [where clk = clk and lockId = lockId and dur = dur and reviewer = reviewer and s = s])
    (auto simp: ids_distinct_def)

lemma refresh_exclusive:
  assumes "exclusive t s" and "ids_distinct s" and "mono clk" and "t \<le> clk 0"
    and "\<forall>l \<in> set (locks s). lk_id l = lockId \<longrightarrow> clk 0 < lk_expiresAt l"
  shows "exclusive (clk 1) (snd (refreshLock clk lockId dur reviewer s))"
proof -
  have t: "clk 0 \<le> clk 1" using assms(3) by (simp add: monoD)
  show ?thesis
  proof (cases rule: refresh_cases [where clk = clk and lockId = lockId and dur = dur and reviewer = reviewer and s = s])
    case refused
    with assms(1,4) t show ?thesis by (auto intro: exclusive_later)
  next
    case (extended l)
    show ?thesis
      by (rule extend_exclusive [OF exclusive_later [OF assms(1,4)] t _ extended(4)])
        (use assms(5) in auto)
  qed
qed

lemma step_ids: "lock_step lax p q \<Longrightarrow> ids_distinct (snd p) \<Longrightarrow> ids_distinct (snd q)"
  by (induction rule: lock_step.induct)
    (auto intro: acquire_ids refresh_ids ends_rows_ids release_ends review_ends recover_ends status_ends)

lemma step_time: "lock_step lax p q \<Longrightarrow> fst p \<le> fst q"
proof (induction rule: lock_step.induct)
  case (acquire clk t)
  moreover have "clk 0 \<le> clk 2" using acquire(1) by (simp add: monoD)
  ultimately show ?case by simp
next
  case (status clk t)
  moreover have "clk 0 \<le> clk 2" using status(1) by (simp add: monoD)
  ultimately show ?case by simp
qed (auto dest: monoD [of _ 0 1])

definition lock_inv :: "time \<times> lock_state \<Rightarrow> bool" where
  "lock_inv p \<longleftrightarrow> ids_distinct (snd p) \<and> exclusive (fst p) (snd p)"

lemma step_inv:
  assumes "lock_step False p q" and "lock_inv p"
  shows "lock_inv q"
proof -
  have ids: "ids_distinct (snd q)" using assms step_ids by (auto simp: lock_inv_def)
  have t: "clk 0 \<le> clk (k::nat)" if "mono clk" for clk :: clock and k
    using that by (simp add: monoD)
  from assms have "exclusive (fst q) (snd q)"
  proof (induction rule: lock_step.induct)
    case (acquire clk t newId s ty eid dur reviewer)
    then show ?case by (auto simp: lock_inv_def intro: acquire_exclusive)
  next
    case (release clk t s lockId reviewer)
    then show ?case using order_trans [OF release(2) t [OF release(1)]]
      by (auto simp: lock_inv_def intro: ends_rows_exclusive [OF release_ends])
  next
    case (refresh clk t s lockId dur reviewer)
    then have "exclusive (clk 1) (snd (refreshLock clk lockId dur reviewer s))"
      by (intro refresh_exclusive) (auto simp: lock_inv_def)
    then show ?case by simp
  next
    case (status clk t s ty eid)
    then show ?case using order_trans [OF status(2) t [OF status(1)]]
      by (auto simp: lock_inv_def intro: ends_rows_exclusive [OF status_ends])
  next
    case (review clk t s ty eid reviewer)
    then show ?case using order_trans [OF review(2) t [OF review(1)]]
      by (auto simp: lock_inv_def intro: ends_rows_exclusive [OF review_ends])
  next
    case (recover clk t s)
    then show ?case by (auto simp: lock_inv_def intro: ends_rows_exclusive [OF recover_ends])
  qed
  with ids show ?thesis by (simp add: lock_inv_def)
qed

interpretation strict_locks: inv_system "lock_step False" lock_inv
  by unfold_locales (rule step_inv)

lemma no_locks_inv: "lock_inv (t, no_locks)"
  by (simp add: lock_inv_def ids_distinct_def exclusive_def no_locks_def)

text \<open>
  What no step of the service undoes: a lock keeps its identity, its entity and its owner,
  and a lock that has ended stays exactly as it ended.
\<close>

definition lock_le :: "time \<times> lock_state \<Rightarrow> time \<times> lock_state \<Rightarrow> bool" where
  "lock_le p q \<longleftrightarrow> fst p \<le> fst q \<and> (\<forall>l \<in> set (locks (snd p)). \<exists>l' \<in> set (locks (snd q)).
     lk_id l' = lk_id l \<and> lk_entityType l' = lk_entityType l \<and> lk_entityId l' = lk_entityId l \<and>
     lk_lockedBy l' = lk_lockedBy l \<and> (lk_status l \<noteq> L_active \<longrightarrow> l' = l))"

lemma rows_le_update:
  assumes "\<And>l. lk_id (f l) = lk_id l \<and> lk_entityType (f l) = lk_entityType l \<and>
      lk_entityId (f l) = lk_entityId l \<and> lk_lockedBy (f l) = lk_lockedBy l"
    and "\<And>l. l \<in> set rows \<Longrightarrow> p l \<Longrightarrow> lk_status l = L_active"
    and "l \<in> set rows"
  shows "\<exists>l' \<in> set (update_where p f rows). lk_id l' = lk_id l \<and>
     lk_entityType l' = lk_entityType l \<and> lk_entityId l' = lk_entityId l \<and>
     lk_lockedBy l' = lk_lockedBy l \<and> (lk_status l \<noteq> L_active \<longrightarrow> l' = l)"
proof (cases "p l")
  case True
  with assms have "f l \<in> set (update_where p f rows)" "lk_status l = L_active"
    by (auto intro: in_update_where_changed)
  with assms(1) show ?thesis by (intro bexI [of _ "f l"]) auto
next
  case False
  with assms(3) show ?thesis by (auto intro: bexI [of _ l] in_update_where_kept)
qed

lemma ends_rows_le: "ends_rows s s' \<Longrightarrow> t \<le> t' \<Longrightarrow> lock_le (t, s) (t', s')"
  by (auto simp: lock_le_def ends_rows_def intro!: rows_le_update)

lemma extend_le:
  assumes "ids_distinct s" and "ex \<in> set (locks s)" and "lk_status ex = L_active"
    and "locks s' = update_where (\<lambda>l. lk_id l = lk_id ex) (extend_lock now dur) (locks s)" and "t \<le> t'"
  shows "lock_le (t, s) (t', s')"
proof -
  have "lk_status l = L_active" if "l \<in> set (locks s)" "lk_id l = lk_id ex" for l
    using assms(1-3) that key_unique [of lk_id "locks s" l ex] by (auto simp: ids_distinct_def)
  with assms show ?thesis by (auto simp: lock_le_def intro!: rows_le_update)
qed

lemma step_lock_le:
  assumes "lock_step lax p q" and "ids_distinct (snd p)"
  shows "lock_le p q"
  using assms
proof (induction rule: lock_step.induct)
  case (acquire clk t newId s ty eid dur reviewer)
  have t: "t \<le> clk 2" using acquire(1,2) monoD [OF acquire(1), of 0 2] by simp
  show ?case
  proof (cases rule: acquire_cases
      [where clk = clk and s = s and ty = ty and eid = eid and reviewer = reviewer and newId = newId and dur = dur])
    case (own ex)
    then have "ex \<in> set (locks s)" "lk_status ex = L_active"
      by (auto dest: find_row_SomeD simp: live_on_def)
    with acquire.prems own(3) t show ?thesis by (auto intro: extend_le)
  next
    case (other ex)
    with t show ?thesis by (simp add: ends_rows_le ends_rows_refl)
  next
    case free
    have "lock_le (t, s) (clk 2, cleanupStaleLocks (clk 1) ty eid s)"
      using t by (simp add: ends_rows_le cleanup_ends)
    then show ?thesis by (simp add: free(2) lock_le_def locks_insert bex_Un)
  qed
next
  case (refresh clk t s lockId dur reviewer)
  have t: "t \<le> clk 1" using refresh(1,2) monoD [OF refresh(1), of 0 1] by simp
  show ?case
  proof (cases rule: refresh_cases [where clk = clk and lockId = lockId and dur = dur and reviewer = reviewer and s = s])
    case refused
    with t show ?thesis by (simp add: ends_rows_le ends_rows_refl)
  next
    case (extended l)
    then have "l \<in> set (locks s)" "lk_id l = lockId" by (auto dest: find_row_SomeD)
    with refresh.prems extended t show ?thesis by (intro extend_le [of _ l]) auto
  qed
qed (auto intro!: ends_rows_le release_ends review_ends recover_ends status_ends
       dest: monoD [of _ 0 1] monoD [of _ 0 2])

lemma lock_le_trans: "lock_le p q \<Longrightarrow> lock_le q r \<Longrightarrow> lock_le p r"
  unfolding lock_le_def by (metis order_trans)

interpretation any_locks: mono_system "lock_step lax" "\<lambda>p. ids_distinct (snd p)" lock_le for lax
proof
  show "ids_distinct (snd q)" if "lock_step lax p q" "ids_distinct (snd p)" for p q
    using that by (rule step_ids)
  show "lock_le p p" for p
    by (auto simp: lock_le_def)
  show "lock_le p r" if "lock_le p q" "lock_le q r" for p q r
    using that by (rule lock_le_trans)
  show "lock_le p q" if "lock_step lax p q" "ids_distinct (snd p)" for p q
    using that by (rule step_lock_le)
qed

text \<open>A live lock of a state with the invariant is the one every later lookup finds.\<close>

lemma live_found:
  assumes "ids_distinct s" "exclusive t s" "t \<le> now"
    and "l \<in> set (locks s)" "live_on ty eid now l"
  shows "find_row (live_on ty eid now) (locks s) = Some l"
proof -
  obtain m where m: "find_row (live_on ty eid now) (locks s) = Some m"
    using find_row_exists assms(4,5) by metis
  then have in': "m \<in> set (locks s)" "live_on ty eid now m" by (auto dest: find_row_SomeD)
  from exclusiveD [OF exclusive_later [OF assms(2,3)] in'(1) assms(4) in'(2) assms(5)]
  have "lk_id m = lk_id l" .
  with assms(1,4) in'(1) have "m = l" by (auto simp: ids_distinct_def dest: key_unique)
  with m show ?thesis by simp
qed

section \<open>The gate a review passes\<close>

text \<open>
  What the review handlers rely on: who passes the gate is decided by who holds it, a release
  lets go of it, holding is exclusive, and what was held later was held before (a lease is
  never granted by the passing of time). \<open>inv t s\<close> is the invariant at the instant \<open>t\<close>.
\<close>

locale review_gate =
  fixes inv :: "time \<Rightarrow> 's \<Rightarrow> bool"
    and holds :: "ident \<Rightarrow> ident \<Rightarrow> time \<Rightarrow> 's \<Rightarrow> bool"
    and verify :: "clock \<Rightarrow> ident \<Rightarrow> ident \<Rightarrow> 's \<Rightarrow> lock_result"
    and release :: "clock \<Rightarrow> ident \<Rightarrow> ident \<Rightarrow> 's \<Rightarrow> 's"
  assumes verify_iff: "inv t s \<Longrightarrow> t \<le> clk 0 \<Longrightarrow> lr_success (verify clk eid who s) \<longleftrightarrow> holds who eid (clk 0) s"
    and holds_unique: "inv t s \<Longrightarrow> t \<le> t' \<Longrightarrow> holds who eid t' s \<Longrightarrow> holds who' eid t' s \<Longrightarrow> who' = who"
    and holds_earlier: "holds who eid t' s \<Longrightarrow> t \<le> t' \<Longrightarrow> holds who eid t s"
    and release_frees: "inv t s \<Longrightarrow> t \<le> clk 0 \<Longrightarrow> mono clk \<Longrightarrow> \<not> holds who eid (clk 1) (release clk eid who s)"
    and release_grants_none: "inv t s \<Longrightarrow> holds who' eid' t' (release clk eid who s) \<Longrightarrow> holds who' eid' t' s"
    and release_inv: "inv t s \<Longrightarrow> t \<le> t' \<Longrightarrow> inv t' (release clk eid who s)"
begin

text \<open>After its holder has released it, nobody holds the gate.\<close>

lemma released_free:
  assumes "inv t s" and "t \<le> t0" and "t0 \<le> clk 0" and "mono clk" and "holds who eid t0 s"
  shows "\<not> holds anyone eid (clk 1) (release clk eid who s)"
proof
  assume held: "holds anyone eid (clk 1) (release clk eid who s)"
  have "clk 0 \<le> clk 1" using assms(4) by (simp add: monoD)
  with assms(3) have "t0 \<le> clk 1" by simp
  with held release_grants_none [OF assms(1)] have "holds anyone eid t0 s" by (blast intro: holds_earlier)
  with holds_unique [OF assms(1,2,5)] have "anyone = who" by blast
  moreover from assms(2,3) have "t \<le> clk 0" by simp
  ultimately show False using held release_frees [OF assms(1)] assms(4) by blast
qed

end

definition holds_lock :: "lock_entity_type \<Rightarrow> ident \<Rightarrow> ident \<Rightarrow> time \<Rightarrow> lock_state \<Rightarrow> bool" where
  "holds_lock ty who eid t s \<longleftrightarrow> (\<exists>l \<in> set (locks s). live_on ty eid t l \<and> lk_lockedBy l = who)"

lemma holds_lockE:
  assumes "holds_lock ty who eid t s"
  obtains l where "l \<in> set (locks s)" "live_on ty eid t l" "lk_lockedBy l = who"
  using assms by (auto simp: holds_lock_def)

lemma review_rows:
  assumes "find_row (\<lambda>l. live_on ty eid (clk 0) l \<and> lk_lockedBy l = who) (locks s) = Some l"
  shows "locks (releaseLockForReview clk ty eid who s) =
    update_where (\<lambda>x. lk_id x = lk_id l) (release_row (clk 1) ''review_completed'') (locks s)"
  using assms by (simp add: releaseLockForReview_def)

lemma lock_invD: "lock_inv (t, s) \<Longrightarrow> ids_distinct s" "lock_inv (t, s) \<Longrightarrow> t \<le> t' \<Longrightarrow> exclusive t' s"
  by (auto simp: lock_inv_def intro: exclusive_later)

lemma verify_holds:
  assumes "lock_inv (t, s)" and "t \<le> clk 0"
  shows "lr_success (verifyLockOwnership clk ty eid who s) \<longleftrightarrow> holds_lock ty who eid (clk 0) s"
proof
  assume "lr_success (verifyLockOwnership clk ty eid who s)"
  then show "holds_lock ty who eid (clk 0) s"
    by (auto simp: verifyLockOwnership_def holds_lock_def split: option.splits if_splits dest: find_row_SomeD)
next
  assume "holds_lock ty who eid (clk 0) s"
  then obtain l where l: "l \<in> set (locks s)" "live_on ty eid (clk 0) l" "lk_lockedBy l = who"
    by (rule holds_lockE)
  from live_found [OF lock_invD(1) [OF assms(1)] lock_invD(2) [OF assms] order_refl l(1,2)] l(3)
  show "lr_success (verifyLockOwnership clk ty eid who s)" by (simp add: verifyLockOwnership_def)
qed

lemma holds_unique:
  assumes "lock_inv (t, s)" "t \<le> t'" "holds_lock ty who eid t' s" "holds_lock ty who' eid t' s"
  shows "who' = who"
proof -
  obtain l l' where l: "l \<in> set (locks s)" "live_on ty eid t' l" "lk_lockedBy l = who"
    and l': "l' \<in> set (locks s)" "live_on ty eid t' l'" "lk_lockedBy l' = who'"
    using assms(3,4) by (auto elim!: holds_lockE)
  from live_found [OF lock_invD(1) [OF assms(1)] lock_invD(2) [OF assms(1,2)] order_refl l(1,2)]
    live_found [OF lock_invD(1) [OF assms(1)] lock_invD(2) [OF assms(1,2)] order_refl l'(1,2)]
  show ?thesis using l(3) l'(3) by simp
qed

lemma review_grants_none:
  assumes "lock_inv (t, s)" and "holds_lock ty who' eid' t' (releaseLockForReview clk ty eid who s)"
  shows "holds_lock ty who' eid' t' s"
proof -
  obtain l' where l': "l' \<in> set (locks (releaseLockForReview clk ty eid who s))"
      "live_on ty eid' t' l'" "lk_lockedBy l' = who'"
    using assms(2) by (rule holds_lockE)
  obtain p f where "locks (releaseLockForReview clk ty eid who s) = update_where p f (locks s)"
    "\<forall>l. lk_status (f l) \<noteq> L_active"
    using review_ends [OF lock_invD(1) [OF assms(1)]] unfolding ends_rows_def by blast
  with l' have "l' \<in> set (locks s)"
    by (auto elim!: in_update_whereE simp: live_on_def)
  with l' show ?thesis by (auto simp: holds_lock_def)
qed

lemma review_frees:
  assumes "lock_inv (t, s)" and "t \<le> clk 0" and "mono clk"
  shows "\<not> holds_lock ty who eid (clk 1) (releaseLockForReview clk ty eid who s)"
proof
  assume held: "holds_lock ty who eid (clk 1) (releaseLockForReview clk ty eid who s)"
  then obtain l' where l': "l' \<in> set (locks (releaseLockForReview clk ty eid who s))"
      "live_on ty eid (clk 1) l'" "lk_lockedBy l' = who" by (rule holds_lockE)
  have t: "clk 0 \<le> clk 1" using assms(3) by (simp add: monoD)
  from review_grants_none [OF assms(1) held] obtain m where
    m: "m \<in> set (locks s)" "live_on ty eid (clk 1) m" "lk_lockedBy m = who" by (rule holds_lockE)
  have "live_on ty eid (clk 0) m \<and> lk_lockedBy m = who" using live_on_earlier [OF m(2) t] m(3) by simp
  from find_row_exists [where p = "\<lambda>l. live_on ty eid (clk 0) l \<and> lk_lockedBy l = who", OF m(1) this]
  obtain l where l: "find_row (\<lambda>l. live_on ty eid (clk 0) l \<and> lk_lockedBy l = who) (locks s) = Some l" ..
  then have found: "l \<in> set (locks s)" "live_on ty eid (clk 0) l" by (auto dest: find_row_SomeD)
  have "lk_status l' = L_active" using l'(2) by (simp add: live_on_def)
  with l'(1) have kept: "l' \<in> set (locks s)" "lk_id l' \<noteq> lk_id l"
    unfolding review_rows [where clk = clk, OF l] by (auto elim!: in_update_whereE)
  have "live_on ty eid (clk 0) l'" using l'(2) t by (rule live_on_earlier)
  from exclusiveD [OF lock_invD(2) [OF assms(1,2)] kept(1) found(1) this found(2)] kept(2)
  show False by simp
qed

interpretation lock_gate: review_gate "\<lambda>t s. lock_inv (t, s)" "holds_lock ty"
  "\<lambda>clk. verifyLockOwnership clk ty" "\<lambda>clk. releaseLockForReview clk ty" for ty
proof
  show "lock_inv (t', releaseLockForReview clk ty eid who s)"
    if "lock_inv (t, s)" "t \<le> t'" for t s t' clk eid who
    using that ends_rows_exclusive [OF review_ends, of s t t'] ends_rows_ids [OF review_ends, of s]
    by (simp add: lock_inv_def)
  show "holds_lock ty who eid t s" if "holds_lock ty who eid t' s" "t \<le> t'" for who eid t' t s
    using that by (auto simp: holds_lock_def intro: live_on_earlier)
qed (fact verify_holds holds_unique review_frees review_grants_none)+

section \<open>Properties\<close>

lemma exclusive_count:
  assumes "distinct (map lk_id rows)"
    and "\<And>l l'. l \<in> set rows \<Longrightarrow> l' \<in> set rows \<Longrightarrow> p l \<Longrightarrow> p l' \<Longrightarrow> lk_id l = lk_id l'"
  shows "count_where p rows \<le> 1"
proof (rule ccontr)
  assume "\<not> count_where p rows \<le> 1"
  then have "2 \<le> length (filter p rows)" by (simp add: count_where_def)
  then obtain x y zs where two: "filter p rows = x # y # zs"
    by (auto simp: Suc_le_length_iff numeral_2_eq_2)
  then have "x \<in> set (filter p rows)" "y \<in> set (filter p rows)" by simp_all
  then have "lk_id x = lk_id y" by (intro assms(2)) simp_all
  moreover have "distinct (map lk_id (x # y # zs))"
    using assms(1) two by (metis distinct_map_filter)
  ultimately show False by simp
qed

text \<open>
  Mutual exclusion of requests that run one after the other, each as one step: in every run of the service from
  the empty table in which \<open>refreshLock\<close> is called on locks that have not run out, an entity has at most one live
  lock. The theory \<open>LockOverlap\<close> says what is left of it when requests overlap.
\<close>

theorem serial_exclusion:
  assumes "(lock_step False)\<^sup>*\<^sup>* (t0, no_locks) (t, s)"
  shows "count_where (live_on ty eid t) (locks s) \<le> 1"
proof -
  from strict_locks.run_keeps [OF assms no_locks_inv] have
    "ids_distinct s" "exclusive t s" by (simp_all add: lock_inv_def)
  then show ?thesis
    by (intro exclusive_count) (auto simp: ids_distinct_def dest: exclusiveD)
qed

definition ada_lock :: lock_state where
  "ada_lock = snd (acquireLock (\<lambda>_. 0) ''L1'' CLAIM ''c'' None ''ada'' no_locks)"

lemma ada_step: "lock_step lax (0, no_locks) (0, ada_lock)"
  using lock_step.acquire [where clk = "\<lambda>_. 0" and t = 0 and s = no_locks and newId = "''L1''"]
  by (simp add: ada_lock_def no_locks_def mono_def)

lemma ada_run: "(lock_step lax)\<^sup>*\<^sup>* (0, no_locks) (0, ada_lock)"
  by (intro r_into_rtranclp ada_step)

lemma ada_locks:
  "locks ada_lock = [new_lock 0 ''L1'' CLAIM ''c'' None ''ada'']"
  by (simp add: ada_lock_def no_locks_def acquireLock_def lookup_lock_def locks_insert locks_cleanup)

theorem serial_exclusion_witness:
  "locks ada_lock \<noteq> [] \<and> count_where (live_on CLAIM ''c'' 0) (locks ada_lock) \<le> 1"
  using serial_exclusion [OF ada_run, of CLAIM "''c''"]
  by (simp add: ada_locks)

text \<open>
  A lock that has ended never comes back: in every run of the service, from any state
  with distinct lock ids, the row of a released or expired lock stays in the table as it is,
  and an active row keeps its owner and its entity.
\<close>

theorem ended_lock_final:
  assumes "(lock_step lax)\<^sup>*\<^sup>* (t, s) (t', s')" and "ids_distinct s" and "l \<in> set (locks s)"
  shows "if lk_status l \<noteq> L_active then l \<in> set (locks s')
    else \<exists>l' \<in> set (locks s'). lk_id l' = lk_id l \<and> lk_lockedBy l' = lk_lockedBy l \<and>
           lk_entityType l' = lk_entityType l \<and> lk_entityId l' = lk_entityId l"
proof -
  from any_locks.run_le [OF assms(1)] assms(2) have "lock_le (t, s) (t', s')" by simp
  with assms(3) obtain l' where "l' \<in> set (locks s')" "lk_id l' = lk_id l"
    "lk_entityType l' = lk_entityType l" "lk_entityId l' = lk_entityId l"
    "lk_lockedBy l' = lk_lockedBy l" "lk_status l \<noteq> L_active \<longrightarrow> l' = l"
    unfolding lock_le_def by auto
  then show ?thesis by auto
qed

definition ada_released :: lock_state where
  "ada_released = snd (releaseLock (\<lambda>_. 1) ''L1'' ''ada'' ada_lock)"

lemma ada_release_step: "lock_step lax (0, ada_lock) (1, ada_released)"
  using lock_step.release [where clk = "\<lambda>_. 1" and t = 0 and s = ada_lock]
  by (simp add: ada_released_def mono_def)

theorem ended_lock_final_witness:
  "hd (locks ada_released) \<in> set (locks (snd (acquireLock (\<lambda>_. 2) ''L2'' CLAIM ''c'' None ''bob'' ada_released)))"
proof -
  have rows: "locks ada_released = [release_row 1 ''manual'' (new_lock 0 ''L1'' CLAIM ''c'' None ''ada'')]"
    by (simp add: ada_released_def releaseLock_def ada_locks find_row_Cons)
  have "lock_step True (1, ada_released)
      (2, snd (acquireLock (\<lambda>_. 2) ''L2'' CLAIM ''c'' None ''bob'' ada_released))"
    using lock_step.acquire [where clk = "\<lambda>_. 2" and t = 1 and s = ada_released and newId = "''L2''"]
    by (simp add: rows mono_def)
  then have "(lock_step True)\<^sup>*\<^sup>* (1, ada_released)
      (2, snd (acquireLock (\<lambda>_. 2) ''L2'' CLAIM ''c'' None ''bob'' ada_released))"
    by (rule r_into_rtranclp)
  from ended_lock_final [OF this, of "hd (locks ada_released)"] show ?thesis
    by (simp add: rows ids_distinct_def)
qed

lemma acquired_row:
  assumes "ids_distinct s" and "fst (acquireLock clk newId ty eid dur reviewer s) = Inr r"
    and "lr_success r"
  obtains l where "l \<in> set (locks (snd (acquireLock clk newId ty eid dur reviewer s)))"
    "lk_entityType l = ty" "lk_entityId l = eid" "lk_lockedBy l = reviewer" "lk_status l = L_active"
    "map_option li_expiresAt (lr_lockInfo r) = Some (lk_expiresAt l)"
proof (cases "find_row (live_on ty eid (clk 0)) (locks s)")
  case None
  show ?thesis
    by (rule that [of "new_lock (clk 0) newId ty eid dur reviewer"])
      (use None assms in \<open>auto simp: acquireLock_def lookup_lock_def locks_insert insertLock_def Let_def buildLockInfo_def\<close>)
next
  case (Some ex)
  then have ex: "ex \<in> set (locks s)" "live_on ty eid (clk 0) ex" by (auto dest: find_row_SomeD)
  have by_reviewer: "lk_lockedBy ex = reviewer"
    using Some assms(2,3) by (auto simp: acquireLock_def lookup_lock_def split: if_splits)
  have found: "find_row (\<lambda>l. lk_id l = lk_id ex)
      (update_where (\<lambda>l. lk_id l = lk_id ex) (extend_lock (clk 1) dur) (locks s)) =
      Some (extend_lock (clk 1) dur ex)"
    using assms(1) ex(1) find_row_key [of lk_id "locks s" ex]
    by (simp add: find_row_update_where ids_distinct_def)
  show ?thesis
    by (rule that [of "extend_lock (clk 1) dur ex"])
      (use Some by_reviewer ex found assms in
        \<open>auto simp: acquireLock_def lookup_lock_def refreshExistingLock_def Let_def buildLockInfo_def live_on_def
           intro: in_update_where_changed\<close>)
qed

text \<open>
  What a successful \<open>acquireLock\<close> promises: until the lease it returned runs out, and as
  long as nothing else happens, \<open>verifyLockOwnership\<close> accepts the reviewer who acquired the lock
  and nobody else.
\<close>

theorem acquire_then_verify:
  assumes "lock_inv (t, s)" and "mono clk" and "t \<le> clk 0" and "newId \<notin> lk_id ` set (locks s)"
    and "acquireLock clk newId ty eid dur reviewer s = (Inr r, s')" and "lr_success r"
    and "lr_lockInfo r = Some info" and "clk 2 \<le> now 0" and "now 0 < li_expiresAt info"
  shows "lr_success (verifyLockOwnership now ty eid who s') \<longleftrightarrow> who = reviewer"
proof -
  have s': "s' = snd (acquireLock clk newId ty eid dur reviewer s)"
    and r: "fst (acquireLock clk newId ty eid dur reviewer s) = Inr r" using assms(5) by simp_all
  have inv: "ids_distinct s" "exclusive t s" using assms(1) by (simp_all add: lock_inv_def)
  have inv': "ids_distinct s'" "exclusive (clk 2) s'"
    unfolding s' using acquire_ids [OF inv(1) assms(4)] acquire_exclusive [OF inv(2,1) assms(2,3,4)]
    by simp_all
  obtain l where l: "l \<in> set (locks s')" "lk_entityType l = ty" "lk_entityId l = eid"
    "lk_lockedBy l = reviewer" "lk_status l = L_active" "li_expiresAt info = lk_expiresAt l"
    using acquired_row [OF inv(1) r assms(6)] assms(7) unfolding s' by auto
  with assms(9) have "live_on ty eid (now 0) l" by (simp add: live_on_def)
  from live_found [OF inv' assms(8) l(1) this]
  have "find_row (live_on ty eid (now 0)) (locks s') = Some l" .
  then show ?thesis using l(4) by (auto simp: verifyLockOwnership_def)
qed

theorem acquire_then_verify_witness:
  "lr_success (verifyLockOwnership (\<lambda>_. 299999) CLAIM ''c'' ''ada'' ada_lock) \<and>
   \<not> lr_success (verifyLockOwnership (\<lambda>_. 299999) CLAIM ''c'' ''bob'' ada_lock)"
proof -
  have "lr_success (verifyLockOwnership (\<lambda>_. 299999) CLAIM ''c'' who ada_lock) \<longleftrightarrow> who = ''ada''" for who
    unfolding ada_lock_def
    by (rule acquire_then_verify [where t = 0 and clk = "\<lambda>_. 0" and s = no_locks and newId = "''L1''"
          and dur = None and r = "projr (fst (acquireLock (\<lambda>_. 0) ''L1'' CLAIM ''c'' None ''ada'' no_locks))"
          and info = "buildLockInfo 0 (new_lock 0 ''L1'' CLAIM ''c'' None ''ada'')"])
      (use no_locks_inv [of 0] in \<open>simp_all add: mono_def no_locks_def acquireLock_def lookup_lock_def insertLock_def Let_def
         buildLockInfo_def locks_cleanup\<close>)
  then show ?thesis by simp
qed

text \<open>
  \<open>acquireLock\<close> is a lookup followed by an insertion, and nothing makes the two one step:
  when two reviewers both look before either inserts, both are told they acquired the lock and
  the entity has two live locks. (No unique index of the table forbids the second row.)
\<close>

theorem acquire_race:
  assumes "mono clk1" and "mono clk2" and "ada \<noteq> bob" and "0 \<le> dur"
    and "find_row (live_on ty eid (clk1 0)) (locks s) = None"
    and "find_row (live_on ty eid (clk2 0)) (locks s) = None"
    and "t < clk1 0 + dur * 1000" and "t < clk2 0 + dur * 1000"
    and "clk2 1 \<le> clk1 0 + dur * 1000"
  shows "let (r1, s1) = insertLock clk1 id1 ty eid (Some dur) ada s;
             (r2, s2) = insertLock clk2 id2 ty eid (Some dur) bob s1
         in acquireLock clk1 id1 ty eid (Some dur) ada s = (r1, s1) \<and>
            acquireLock clk2 id2 ty eid (Some dur) bob s = insertLock clk2 id2 ty eid (Some dur) bob s \<and>
            map_sum id lr_success r1 = Inr True \<and> map_sum id lr_success r2 = Inr True \<and>
            count_where (live_on ty eid t) (locks s2) \<ge> 2"
proof -
  let ?n1 = "new_lock (clk1 0) id1 ty eid (Some dur) ada"
  have stale: "\<not> lk_expiresAt ?n1 < clk2 1 - STALE_LOCK_THRESHOLD_MS"
    using assms(9) by (simp add: STALE_LOCK_THRESHOLD_MS_def)
  have "locks (snd (insertLock clk2 id2 ty eid (Some dur) bob (snd (insertLock clk1 id1 ty eid (Some dur) ada s)))) =
     locks (cleanupStaleLocks (clk2 1) ty eid (cleanupStaleLocks (clk1 1) ty eid s)) @
       [?n1, new_lock (clk2 0) id2 ty eid (Some dur) bob]"
    using stale by (simp add: locks_insert locks_cleanup)
  then have "count_where (live_on ty eid t)
      (locks (snd (insertLock clk2 id2 ty eid (Some dur) bob (snd (insertLock clk1 id1 ty eid (Some dur) ada s))))) \<ge> 2"
    using assms(7,8) by (simp add: count_where_def live_on_def)
  then show ?thesis
    using assms(5,6) by (simp add: case_prod_unfold Let_def acquireLock_def lookup_lock_def insertLock_def)
qed

theorem acquire_race_witness:
  "2 \<le> count_where (live_on CLAIM ''c'' 5)
     (locks (snd (insertLock (\<lambda>_. 0) ''L2'' CLAIM ''c'' (Some 30) ''bob''
       (snd (insertLock (\<lambda>_. 0) ''L1'' CLAIM ''c'' (Some 30) ''ada'' no_locks)))))"
  using acquire_race [of "\<lambda>_. 0" "\<lambda>_. 0" "''ada''" "''bob''" 30 CLAIM "''c''" no_locks 5 "''L1''" "''L2''"]
  by (simp add: case_prod_unfold Let_def mono_def no_locks_def)

text \<open>
  The guard that \<open>serial_exclusion\<close> needs is not one the service has: \<open>refreshLock\<close> accepts a lock that ran out
  less than two minutes ago, so a reviewer whose lease lapsed, and was taken over by another,
  gets it back, and the service itself reaches a state with two live locks on one claim.
\<close>

theorem refresh_revives_lapsed_lock:
  "\<exists>s. (lock_step True)\<^sup>*\<^sup>* (0, no_locks) (300001, s) \<and>
     count_where (live_on CLAIM ''c'' 300001) (locks s) = 2"
proof -
  define s2 where "s2 = snd (acquireLock (\<lambda>_. 300000) ''L2'' CLAIM ''c'' None ''bob'' ada_lock)"
  define s3 where "s3 = snd (refreshLock (\<lambda>_. 300001) ''L1'' None ''ada'' s2)"
  have rows2: "locks s2 = [new_lock 0 ''L1'' CLAIM ''c'' None ''ada'', new_lock 300000 ''L2'' CLAIM ''c'' None ''bob'']"
    by (simp add: s2_def acquireLock_def lookup_lock_def ada_locks find_row_Cons live_on_def locks_insert locks_cleanup
        STALE_LOCK_THRESHOLD_MS_def)
  have "lock_step True (0, ada_lock) (300000, s2)"
    using lock_step.acquire [where clk = "\<lambda>_. 300000" and t = 0 and s = ada_lock and newId = "''L2''"]
    by (simp add: ada_locks s2_def mono_def)
  moreover have "lock_step True (300000, s2) (300001, s3)"
    using lock_step.refresh [where clk = "\<lambda>_. 300001" and t = 300000 and s = s2 and lax = True]
    by (simp add: s3_def mono_def)
  ultimately have "(lock_step True)\<^sup>*\<^sup>* (0, no_locks) (300001, s3)"
    using ada_run [of True] by (meson rtranclp.rtrancl_into_rtrancl)
  moreover have "locks s3 = [extend_lock 300001 None (new_lock 0 ''L1'' CLAIM ''c'' None ''ada''),
      new_lock 300000 ''L2'' CLAIM ''c'' None ''bob'']"
    by (simp add: s3_def refreshLock_def refreshExistingLock_def rows2 find_row_Cons Let_def)
  ultimately show ?thesis
    by (intro exI [of _ s3]) (simp add: count_where_def live_on_def)
qed

end
