(* ===== verification/LockOverlap.thy ===== *)
theory LockOverlap
  imports ReviewLock
begin

text \<open>
  Review locks when requests overlap. Every read and every write of the service on the table of locks is a step of
  its own here: \<open>acquireLock\<close> looks for a live lock, and inserts its row later, when other requests may have run in
  between; a release, a refresh and the two clean-ups are their writes, at any time. The state is the last reading
  of the clock, the tables, and the acquisitions between their lookup and their insertion. \<open>overlap\<close> bounds how many
  of them there are for one entity at a time; nothing in the service does.
\<close>

section \<open>Steps\<close>

record pending =
  pd_type :: lock_entity_type
  pd_entity :: ident
  pd_dur :: "int option"
  pd_reviewer :: ident
  pd_now :: time

type_synonym lock_config = "time \<times> lock_state \<times> pending list"

definition in_flight :: "lock_entity_type \<Rightarrow> ident \<Rightarrow> pending list \<Rightarrow> nat" where
  "in_flight ty eid ps = count_where (\<lambda>p. pd_type p = ty \<and> pd_entity p = eid) ps"

definition live_locks :: "lock_entity_type \<Rightarrow> ident \<Rightarrow> time \<Rightarrow> lock_state \<Rightarrow> nat" where
  "live_locks ty eid t s = count_where (live_on ty eid t) (locks s)"

text \<open>
  \<open>extends\<close> is the write of both ways to refresh a lock; it is the only step with a condition the service does not
  check at that instant, that the lock is still live.
\<close>

inductive micro_step :: "nat \<Rightarrow> lock_config \<Rightarrow> lock_config \<Rightarrow> bool" for overlap where
  looks_up: "t \<le> pd_now p \<Longrightarrow> lookup_lock (pd_now p) (pd_type p) (pd_entity p) s = None \<Longrightarrow>
    in_flight (pd_type p) (pd_entity p) ps < overlap \<Longrightarrow> micro_step overlap (t, s, ps) (pd_now p, s, ps @ [p])"
| inserts: "p \<in> set ps \<Longrightarrow> clk 0 = pd_now p \<Longrightarrow> t \<le> clk 1 \<Longrightarrow> clk 1 \<le> clk 2 \<Longrightarrow> newId \<notin> lk_id ` set (locks s) \<Longrightarrow>
    micro_step overlap (t, s, ps)
      (clk 2, snd (insertLock clk newId (pd_type p) (pd_entity p) (pd_dur p) (pd_reviewer p) s), remove1 p ps)"
| gives_up: "micro_step overlap (t, s, ps) (t, s, remove1 p ps)"
| extends: "t \<le> now \<Longrightarrow> \<forall>l \<in> set (locks s). lk_id l = lockId \<longrightarrow> lk_status l = L_active \<and> now < lk_expiresAt l \<Longrightarrow>
    micro_step overlap (t, s, ps) (now, snd (refreshExistingLock now lockId dur s), ps)"
| releases: "t \<le> now \<Longrightarrow> micro_step overlap (t, s, ps)
    (now, s\<lparr>locks := update_where (\<lambda>l. lk_id l = lockId) (release_row now reason) (locks s)\<rparr>, ps)"
| cleans: "t \<le> now \<Longrightarrow> micro_step overlap (t, s, ps) (now, cleanupStaleLocks now ty eid s, ps)"
| recovers: "t \<le> clk 0 \<Longrightarrow> micro_step overlap (t, s, ps) (clk 0, snd (recoverStaleLocks clk s), ps)"
| logs: "micro_step overlap (t, s, ps) (t, s\<lparr>lock_audit := entries\<rparr>, ps)"
| waits: "t \<le> now \<Longrightarrow> micro_step overlap (t, s, ps) (now, s, ps)"

section \<open>The requests are runs of these steps\<close>

abbreviation micro_run :: "nat \<Rightarrow> lock_config \<Rightarrow> lock_config \<Rightarrow> bool" where
  "micro_run overlap \<equiv> (micro_step overlap)\<^sup>*\<^sup>*"

lemma run_by: "micro_step n x y \<Longrightarrow> micro_run n y z \<Longrightarrow> micro_run n x z"
  by (rule converse_rtranclp_into_rtranclp)

lemma run_waits: "t \<le> now \<Longrightarrow> micro_run n (t, s, ps) (now, s, ps)"
  by (intro r_into_rtranclp waits)

lemma run_logs: "locks s' = locks s \<Longrightarrow> t \<le> now \<Longrightarrow> micro_run n (t, s, ps) (now, s', ps)"
  using logs [of n t s ps "lock_audit s'"] run_waits [of t now n s' ps] by (cases s; cases s') (auto intro: run_by)

lemma acquire_is_micro:
  assumes "mono clk" and "t \<le> clk 0" and "newId \<notin> lk_id ` set (locks s)" and "ids_distinct s" and "0 < n"
    and "\<And>l. lookup_lock (clk 0) ty eid s = Some l \<Longrightarrow> clk 1 < lk_expiresAt l"
  shows "micro_run n (t, s, []) (clk 2, snd (acquireLock clk newId ty eid dur reviewer s), [])"
proof -
  have clk: "clk 0 \<le> clk 1" "clk 1 \<le> clk 2" using assms(1) by (simp_all add: monoD)
  show ?thesis
  proof (cases rule: acquire_cases
      [where clk = clk and s = s and ty = ty and eid = eid and reviewer = reviewer and newId = newId and dur = dur])
    case free
    define p where "p = \<lparr>pd_type = ty, pd_entity = eid, pd_dur = dur, pd_reviewer = reviewer, pd_now = clk 0\<rparr>"
    have p: "pd_type p = ty" "pd_entity p = eid" "pd_dur p = dur" "pd_reviewer p = reviewer" "pd_now p = clk 0"
      by (simp_all add: p_def)
    have "micro_step n (t, s, []) (pd_now p, s, [] @ [p])"
      by (rule looks_up) (use assms(2,5) free(1) in \<open>simp_all add: p in_flight_def count_where_def lookup_lock_def\<close>)
    then have "micro_step n (t, s, []) (clk 0, s, [p])" by (simp add: p)
    moreover have "micro_step n (clk 0, s, [p])
        (clk 2, snd (insertLock clk newId (pd_type p) (pd_entity p) (pd_dur p) (pd_reviewer p) s), remove1 p [p])"
      by (rule inserts) (use assms(3) clk in \<open>simp_all add: p(5)\<close>)
    then have "micro_step n (clk 0, s, [p]) (clk 2, snd (insertLock clk newId ty eid dur reviewer s), [])" by (simp add: p)
    ultimately show ?thesis unfolding free(2) by (rule run_by [OF _ r_into_rtranclp])
  next
    case (other ex)
    with assms(2) clk show ?thesis by (simp add: run_waits)
  next
    case (own ex)
    then have ex: "ex \<in> set (locks s)" "lk_status ex = L_active" "clk 1 < lk_expiresAt ex"
      using assms(6) by (auto simp: lookup_lock_def live_on_def dest: find_row_SomeD)
    have "l = ex" if "l \<in> set (locks s)" "lk_id l = lk_id ex" for l
      using assms(4) ex(1) that by (auto simp: ids_distinct_def dest: key_unique)
    then have "micro_step n (t, s, []) (clk 1, snd (refreshExistingLock (clk 1) (lk_id ex) dur s), [])"
      using ex assms(2) clk by (intro extends) auto
    moreover have "locks (snd (refreshExistingLock (clk 1) (lk_id ex) dur s)) = locks (snd (acquireLock clk newId ty eid dur reviewer s))"
      by (simp add: own(3) refreshExistingLock_def Let_def)
    ultimately show ?thesis using run_logs [OF _ clk(2)] by (metis run_by)
  qed
qed

text \<open>The other requests are a write of theirs, or none, and an entry of the log.\<close>

lemma write_is_micro:
  assumes "micro_step n (t, s, []) (now, s1, [])" and "locks s2 = locks s1" and "now \<le> t2"
  shows "micro_run n (t, s, []) (t2, s2, [])"
  using assms run_logs by (blast intro: run_by)

lemma release_is_micro:
  assumes "mono clk" and "t \<le> clk 0"
  shows "micro_run n (t, s, []) (clk 1, snd (releaseLock clk lockId reviewer s), [])"
proof -
  have clk: "clk 0 \<le> clk 1" using assms(1) by (simp add: monoD)
  show ?thesis
  proof (cases "locks (snd (releaseLock clk lockId reviewer s)) = locks s")
    case True
    with assms(2) clk show ?thesis by (intro run_logs) simp_all
  next
    case False
    then have "locks (snd (releaseLock clk lockId reviewer s)) =
        update_where (\<lambda>x. lk_id x = lockId) (release_row (clk 0) ''manual'') (locks s)"
      by (auto simp: releaseLock_def split: option.splits if_splits)
    with clk show ?thesis by (intro write_is_micro [OF releases [OF assms(2)]]) simp_all
  qed
qed

lemma review_is_micro:
  assumes "mono clk" and "t \<le> clk 0"
  shows "micro_run n (t, s, []) (clk 1, releaseLockForReview clk ty eid reviewer s, [])"
proof -
  have clk: "t \<le> clk 1" using assms monoD [OF assms(1), of 0 1] by simp
  show ?thesis
  proof (cases "find_row (\<lambda>l. live_on ty eid (clk 0) l \<and> lk_lockedBy l = reviewer) (locks s)")
    case None
    with clk show ?thesis by (intro run_logs) (simp_all add: releaseLockForReview_def)
  next
    case (Some l)
    then show ?thesis by (intro write_is_micro [OF releases [OF clk]]) (simp_all add: review_rows)
  qed
qed

lemma refresh_is_micro:
  assumes "mono clk" and "t \<le> clk 0" and "\<forall>l \<in> set (locks s). lk_id l = lockId \<longrightarrow> clk 0 < lk_expiresAt l" and "ids_distinct s"
  shows "micro_run n (t, s, []) (clk 1, snd (refreshLock clk lockId dur reviewer s), [])"
proof -
  have clk: "t \<le> clk 1" "clk 0 \<le> clk 1" using assms(1,2) monoD [OF assms(1), of 0 1] by simp_all
  show ?thesis
  proof (cases rule: refresh_cases [where clk = clk and lockId = lockId and dur = dur and reviewer = reviewer and s = s])
    case refused
    with clk show ?thesis by (simp add: run_waits)
  next
    case (extended l)
    then have l: "l \<in> set (locks s)" "lk_id l = lockId" by (auto dest: find_row_SomeD)
    have "x = l" if "x \<in> set (locks s)" "lk_id x = lockId" for x
      using assms(4) l that by (auto simp: ids_distinct_def dest: key_unique)
    then have "micro_step n (t, s, []) (clk 0, snd (refreshExistingLock (clk 0) lockId dur s), [])"
      using extended assms(2,3) by (intro extends) auto
    from write_is_micro [OF this _ clk(2)] extended show ?thesis by (simp add: refreshExistingLock_def Let_def)
  qed
qed

section \<open>How many live locks there can be\<close>

definition overlap_inv :: "nat \<Rightarrow> lock_config \<Rightarrow> bool" where
  "overlap_inv n c = (case c of (t, s, ps) \<Rightarrow> \<forall>ty eid. live_locks ty eid t s + in_flight ty eid ps \<le> n)"

lemma count_where_mono: "(\<And>r. r \<in> set rows \<Longrightarrow> p r \<Longrightarrow> q r) \<Longrightarrow> count_where p rows \<le> count_where q rows"
  by (induction rows) (auto simp: count_where_def le_SucI)

lemma count_where_update:
  assumes "\<And>r. r \<in> set rows \<Longrightarrow> q' (if p r then f r else r) \<Longrightarrow> q r"
  shows "count_where q' (update_where p f rows) \<le> count_where q rows"
  using assms by (induction rows) (auto simp: count_where_def update_where_def le_SucI)

lemma live_locks_update:
  assumes "t \<le> now" and "\<And>l. l \<in> set (locks s) \<Longrightarrow> p l \<Longrightarrow> live_on ty eid now (f l) \<Longrightarrow> live_on ty eid now l"
    and "locks s' = update_where p f (locks s)"
  shows "live_locks ty eid now s' \<le> live_locks ty eid t s"
  unfolding live_locks_def assms(3)
  by (rule count_where_update) (use assms(1,2) in \<open>auto intro: live_on_earlier split: if_splits\<close>)

lemma live_locks_later: "t \<le> now \<Longrightarrow> live_locks ty eid now s \<le> live_locks ty eid t s"
  unfolding live_locks_def by (rule count_where_mono) (auto intro: live_on_earlier)

lemma in_flight_remove: "in_flight ty eid (remove1 p ps) \<le> in_flight ty eid ps"
  by (induction ps) (auto simp: in_flight_def count_where_def)

lemma in_flight_done:
  "p \<in> set ps \<Longrightarrow> in_flight ty eid (remove1 p ps) + (if pd_type p = ty \<and> pd_entity p = eid then 1 else 0) = in_flight ty eid ps"
  by (induction ps) (auto simp: in_flight_def count_where_def)

lemma overlap_keeps:
  assumes "overlap_inv n (t, s, ps)" and "\<And>ty eid. live_locks ty eid t' s' \<le> live_locks ty eid t s"
    and "\<And>ty eid. in_flight ty eid ps' \<le> in_flight ty eid ps"
  shows "overlap_inv n (t', s', ps')"
proof -
  have "live_locks ty eid t' s' + in_flight ty eid ps' \<le> n" for ty eid
  proof -
    have "live_locks ty eid t s + in_flight ty eid ps \<le> n" using assms(1) by (simp add: overlap_inv_def)
    with assms(2) [of ty eid] assms(3) [of ty eid] show ?thesis by linarith
  qed
  then show ?thesis by (simp add: overlap_inv_def)
qed

lemma overlap_step:
  assumes "micro_step n c c'" and "overlap_inv n c"
  shows "overlap_inv n c'"
  using assms(1)
proof cases
  case (looks_up t p s ps)
  have "live_locks (pd_type p) (pd_entity p) (pd_now p) s = 0"
    using looks_up(4) by (simp add: lookup_lock_def live_locks_def count_where_0_iff find_row_None_iff)
  moreover have "overlap_inv n (pd_now p, s, ps)"
    using assms(2) unfolding looks_up(1) by (rule overlap_keeps) (simp_all add: live_locks_later [OF looks_up(3)])
  then have "live_locks ty eid (pd_now p) s + in_flight ty eid ps \<le> n" for ty eid by (simp add: overlap_inv_def)
  ultimately show ?thesis using looks_up(5)
    by (auto simp: overlap_inv_def looks_up(2) in_flight_def count_where_def)
next
  case (inserts p ps clk t newId s)
  let ?here = "\<lambda>ty eid. if pd_type p = ty \<and> pd_entity p = eid then 1 else (0 :: nat)"
  let ?s1 = "cleanupStaleLocks (clk 1) (pd_type p) (pd_entity p) s"
  let ?s2 = "snd (insertLock clk newId (pd_type p) (pd_entity p) (pd_dur p) (pd_reviewer p) s)"
  have bound: "live_locks ty eid (clk 2) ?s2 + in_flight ty eid (remove1 p ps) \<le> n" for ty eid
  proof -
    have "live_locks ty eid (clk 2) ?s1 \<le> live_locks ty eid t s"
      by (rule live_locks_update [OF _ _ locks_cleanup(1)]) (use inserts(5,6) in \<open>auto simp: live_on_def\<close>)
    moreover have "live_locks ty eid (clk 2) ?s2 \<le> live_locks ty eid (clk 2) ?s1 + ?here ty eid"
      by (simp add: live_locks_def locks_insert) (simp add: count_where_def live_on_def)
    moreover have "live_locks ty eid t s + in_flight ty eid ps \<le> n"
      using assms(2) by (simp add: overlap_inv_def inserts(1))
    moreover have "in_flight ty eid (remove1 p ps) + ?here ty eid = in_flight ty eid ps"
      by (rule in_flight_done [OF inserts(3)])
    ultimately show ?thesis by linarith
  qed
  show ?thesis unfolding overlap_inv_def inserts(2) using bound by simp
next
  case (gives_up t s ps p)
  show ?thesis using assms(2) unfolding gives_up by (rule overlap_keeps) (simp_all add: in_flight_remove)
next
  case (extends t now s lockId ps dur)
  have "live_locks ty eid now (snd (refreshExistingLock now lockId dur s)) \<le> live_locks ty eid t s" for ty eid
    by (rule live_locks_update [OF extends(3), where p = "\<lambda>l. lk_id l = lockId" and f = "extend_lock now dur"])
      (use extends(4) in \<open>auto simp: live_on_def refreshExistingLock_def Let_def\<close>)
  from overlap_keeps [OF assms(2) [unfolded extends(1)] this order_refl] show ?thesis unfolding extends(2) .
next
  case (releases t now s ps lockId reason)
  have "live_locks ty eid now (s\<lparr>locks := update_where (\<lambda>l. lk_id l = lockId) (release_row now reason) (locks s)\<rparr>) \<le> live_locks ty eid t s" for ty eid
    by (rule live_locks_update [OF releases(3)]) (auto simp: live_on_def)
  from overlap_keeps [OF assms(2) [unfolded releases(1)] this order_refl] show ?thesis unfolding releases(2) .
next
  case (cleans t now s ps ty eid)
  have "live_locks ty' eid' now (cleanupStaleLocks now ty eid s) \<le> live_locks ty' eid' t s" for ty' eid'
    by (rule live_locks_update [OF cleans(3) _ locks_cleanup(1)]) (auto simp: live_on_def)
  from overlap_keeps [OF assms(2) [unfolded cleans(1)] this order_refl] show ?thesis unfolding cleans(2) .
next
  case (recovers t clk s ps)
  have "live_locks ty eid (clk 0) (snd (recoverStaleLocks clk s)) \<le> live_locks ty eid t s" for ty eid
    by (rule live_locks_update [OF recovers(3), where f = "force_expire (clk 0) ''stale_lock_recovery''"])
      (auto simp: live_on_def recoverStaleLocks_def Let_def)
  from overlap_keeps [OF assms(2) [unfolded recovers(1)] this order_refl] show ?thesis unfolding recovers(2) .
next
  case (logs t s ps entries)
  with assms(2) show ?thesis by (simp add: overlap_inv_def live_locks_def)
next
  case (waits t now s ps)
  from overlap_keeps [OF assms(2) [unfolded waits(1)] live_locks_later [OF waits(3)] order_refl] show ?thesis unfolding waits(2) .
qed

interpretation overlapping: inv_system "micro_step n" "overlap_inv n" for n
  by unfold_locales (rule overlap_step)

text \<open>
  C3. Mutual exclusion, and what it costs. Let requests overlap as they like, every read and write of theirs a step of
  its own, and let refreshes write only to locks that are still live. If at most \<open>n\<close> acquisitions of an entity are
  between their lookup and their insertion at a time, the entity never has more than \<open>n\<close> live locks. With \<open>n = 1\<close>, no
  two acquisitions of an entity overlapping, that is mutual exclusion; the service itself bounds \<open>n\<close> by nothing.
\<close>

theorem mutual_exclusion:
  assumes "(micro_step n)\<^sup>*\<^sup>* (t0, no_locks, []) (t, s, ps)"
  shows "count_where (live_on ty eid t) (locks s) \<le> n"
proof -
  have "overlap_inv n (t0, no_locks, [])"
    by (simp add: overlap_inv_def live_locks_def in_flight_def no_locks_def count_where_def)
  with assms have "overlap_inv n (t, s, ps)" by (rule overlapping.run_keeps)
  then have "live_locks ty eid t s + in_flight ty eid ps \<le> n" by (simp add: overlap_inv_def)
  then show ?thesis by (simp add: live_locks_def)
qed

text \<open>The bound is attained: two acquisitions that overlap, of one claim, leave two live locks on it.\<close>

definition ada_pending :: pending where
  "ada_pending = \<lparr>pd_type = CLAIM, pd_entity = ''c'', pd_dur = None, pd_reviewer = ''ada'', pd_now = 0\<rparr>"

definition bob_pending :: pending where
  "bob_pending = \<lparr>pd_type = CLAIM, pd_entity = ''c'', pd_dur = None, pd_reviewer = ''bob'', pd_now = 0\<rparr>"

definition both_locks :: lock_state where
  "both_locks = snd (insertLock (\<lambda>_. 0) ''L2'' CLAIM ''c'' None ''bob'' ada_lock)"

lemma both_rows:
  "locks both_locks = [new_lock 0 ''L1'' CLAIM ''c'' None ''ada'', new_lock 0 ''L2'' CLAIM ''c'' None ''bob'']"
  by (simp add: both_locks_def locks_insert locks_cleanup ada_locks STALE_LOCK_THRESHOLD_MS_def)

lemma race_run: "micro_run 2 (0, no_locks, []) (0, both_locks, [])"
proof -
  have ada: "ada_lock = snd (insertLock (\<lambda>_. 0) ''L1'' CLAIM ''c'' None ''ada'' no_locks)"
    by (simp add: ada_lock_def acquireLock_def lookup_lock_def no_locks_def)
  have "micro_step 2 (0, no_locks, []) (0, no_locks, [ada_pending])"
    using looks_up [of 0 ada_pending no_locks "[]" 2]
    by (simp add: ada_pending_def lookup_lock_def no_locks_def in_flight_def count_where_def)
  moreover have "micro_step 2 (0, no_locks, [ada_pending]) (0, no_locks, [ada_pending, bob_pending])"
    using looks_up [of 0 bob_pending no_locks "[ada_pending]" 2]
    by (simp add: ada_pending_def bob_pending_def lookup_lock_def no_locks_def in_flight_def count_where_def)
  moreover have "micro_step 2 (0, no_locks, [ada_pending, bob_pending]) (0, ada_lock, [bob_pending])"
    using inserts [of ada_pending "[ada_pending, bob_pending]" "\<lambda>_. 0" 0 "''L1''" no_locks 2]
    by (simp add: ada_pending_def no_locks_def ada)
  moreover have "micro_step 2 (0, ada_lock, [bob_pending]) (0, both_locks, [])"
    using inserts [of bob_pending "[bob_pending]" "\<lambda>_. 0" 0 "''L2''" ada_lock 2]
    by (simp add: bob_pending_def both_locks_def ada_locks)
  ultimately show ?thesis by (meson run_by r_into_rtranclp)
qed

lemma ada_micro_run: "micro_run 1 (0, no_locks, []) (0, ada_lock, [])"
  using acquire_is_micro [of "\<lambda>_. 0" 0 "''L1''" no_locks 1 CLAIM "''c''" None "''ada''"]
  by (simp add: ada_lock_def mono_def no_locks_def ids_distinct_def lookup_lock_def)

theorem mutual_exclusion_witness:
  "count_where (live_on CLAIM ''c'' 0) (locks both_locks) = 2 \<and>
   count_where (live_on CLAIM ''c'' 0) (locks both_locks) \<le> 2 \<and>
   locks ada_lock \<noteq> [] \<and> count_where (live_on CLAIM ''c'' 0) (locks ada_lock) \<le> 1"
proof (intro conjI)
  show "count_where (live_on CLAIM ''c'' 0) (locks both_locks) = 2"
    by (simp add: both_rows count_where_def live_on_def)
  show "count_where (live_on CLAIM ''c'' 0) (locks both_locks) \<le> 2" by (rule mutual_exclusion [OF race_run])
  show "locks ada_lock \<noteq> []" by (simp add: ada_locks)
  show "count_where (live_on CLAIM ''c'' 0) (locks ada_lock) \<le> 1" by (rule mutual_exclusion [OF ada_micro_run])
qed

end
