(* ===== verification/InboxEvents.thy ===== *)
theory InboxEvents
  imports Prelude
begin

text \<open>
  The fan-out hub of the review inbox, \<open>verification/verification-inbox-events.service.ts\<close>:
  numbered events, a buffer of the last 200 of them, and the replay a reconnecting client gets
  before the live feed. A subscription is the function from the events published later to the
  events the client receives; the RxJS subject and the heartbeat of the stream are not modelled.
\<close>

section \<open>Data and operations\<close>

datatype inbox_event_type = Inbox_queue_changed | Inbox_item_updated

record inbox_payload =
  ip_verificationId :: ident
  ip_status :: string
  ip_previousStatus :: "string option"
  ip_reviewedBy :: "ident option"
  ip_reviewedAt :: "time option"
  ip_deepLink :: string

record inbox_event =
  ie_id :: nat
  ie_type :: inbox_event_type
  ie_emittedAt :: time
  ie_payload :: inbox_payload

record event_hub =
  eh_sequence :: nat
  eh_recent :: "inbox_event list"

definition REPLAY_BUFFER_LIMIT :: nat where
  "REPLAY_BUFFER_LIMIT = 200"

definition new_hub :: event_hub where
  "new_hub = \<lparr>eh_sequence = 0, eh_recent = []\<rparr>"

definition publish ::
  "time \<Rightarrow> inbox_event_type \<Rightarrow> inbox_payload \<Rightarrow> event_hub \<Rightarrow> inbox_event \<times> event_hub" where
  "publish now ty p h =
     (let sequence = eh_sequence h + 1;
          event = \<lparr>ie_id = sequence, ie_type = ty, ie_emittedAt = now, ie_payload = p\<rparr>;
          pushed = eh_recent h @ [event];
          recent = (if length pushed > REPLAY_BUFFER_LIMIT
                    then drop (length pushed - REPLAY_BUFFER_LIMIT) pushed else pushed)
      in (event, \<lparr>eh_sequence = sequence, eh_recent = recent\<rparr>))"

text \<open>\<open>None\<close> is a missing list of statuses.\<close>

definition isInScope :: "string list option \<Rightarrow> inbox_event \<Rightarrow> bool" where
  "isInScope statuses e =
     (case statuses of
        None \<Rightarrow> True
      | Some st \<Rightarrow> if st = [] then True else ip_status (ie_payload e) \<in> set st)"

definition replay :: "nat option \<Rightarrow> string list option \<Rightarrow> event_hub \<Rightarrow> inbox_event list" where
  "replay lastEventId statuses h =
     (let last_id = (case lastEventId of None \<Rightarrow> 0 | Some k \<Rightarrow> k)
      in filter (\<lambda>e. last_id < ie_id e \<and> isInScope statuses e) (eh_recent h))"

definition subscribe ::
  "nat option \<Rightarrow> string list option \<Rightarrow> event_hub \<Rightarrow> inbox_event list \<Rightarrow> inbox_event list" where
  "subscribe lastEventId statuses h later =
     (let live = filter (isInScope statuses) later;
          missed = replay lastEventId statuses h
      in if missed = [] then live else missed @ live)"

text \<open>The hub after a series of publications, with the events they returned.\<close>

fun publish_all ::
  "(time \<times> inbox_event_type \<times> inbox_payload) list \<Rightarrow> event_hub \<Rightarrow> inbox_event list \<times> event_hub" where
  "publish_all [] h = ([], h)"
| "publish_all ((now, ty, p) # ps) h =
     (let (e, h1) = publish now ty p h; (es, h2) = publish_all ps h1 in (e # es, h2))"

section \<open>Lemmas\<close>

lemma publish_event:
  "ie_id (fst (publish now ty p h)) = Suc (eh_sequence h)"
  "eh_sequence (snd (publish now ty p h)) = Suc (eh_sequence h)"
  by (simp_all add: publish_def Let_def)

text \<open>Numbered consecutively from \<open>k + 1\<close>.\<close>

definition numbered :: "nat \<Rightarrow> inbox_event list \<Rightarrow> bool" where
  "numbered k es \<longleftrightarrow> map ie_id es = [Suc k..<Suc k + length es]"

lemma publish_all_Cons [simp]:
  "publish_all ((now, ty, p) # ps) h =
     (fst (publish now ty p h) # fst (publish_all ps (snd (publish now ty p h))),
      snd (publish_all ps (snd (publish now ty p h))))"
  by (simp add: case_prod_unfold Let_def)

lemma publish_all_events:
  "numbered (eh_sequence h) (fst (publish_all ps h)) \<and>
   length (fst (publish_all ps h)) = length ps \<and>
   eh_sequence (snd (publish_all ps h)) = eh_sequence h + length ps"
proof (induction ps arbitrary: h)
  case (Cons a ps)
  obtain now ty p where a: "a = (now, ty, p)" by (cases a)
  from Cons [of "snd (publish now ty p h)"] show ?case
    by (simp add: a numbered_def publish_event upt_conv_Cons del: publish_all.simps upt_Suc)
qed (simp add: numbered_def)

lemma numbered_nth: "numbered k es \<Longrightarrow> i < length es \<Longrightarrow> ie_id (es ! i) = Suc (k + i)"
  unfolding numbered_def by (drule arg_cong [where f = "\<lambda>xs. xs ! i"]) (simp del: upt_Suc)

text \<open>The buffer holds the end of the log.\<close>

definition buffers :: "inbox_event list \<Rightarrow> event_hub \<Rightarrow> bool" where
  "buffers es h \<longleftrightarrow> eh_recent h = drop (length es - REPLAY_BUFFER_LIMIT) es"

lemma publish_buffers:
  assumes "buffers es h"
  shows "buffers (es @ [fst (publish now ty p h)]) (snd (publish now ty p h))"
proof (cases "length es < REPLAY_BUFFER_LIMIT")
  case True
  with assms show ?thesis by (simp add: buffers_def publish_def Let_def)
next
  case False
  then have "Suc (length es) - REPLAY_BUFFER_LIMIT = Suc (length es - REPLAY_BUFFER_LIMIT)" by simp
  with assms False show ?thesis by (simp add: buffers_def publish_def Let_def)
qed

lemma publish_all_buffers: "buffers es h \<Longrightarrow> buffers (es @ fst (publish_all ps h)) (snd (publish_all ps h))"
proof (induction ps arbitrary: es h)
  case (Cons a ps)
  obtain now ty p where a: "a = (now, ty, p)" by (cases a)
  from Cons.IH [OF publish_buffers [OF Cons.prems], of now ty p] show ?case
    by (simp add: a del: publish_all.simps)
qed simp

lemma numbered_drop:
  assumes "numbered k es"
  shows "filter (\<lambda>e. k + n < ie_id e \<and> P e) es = filter P (drop n es)"
proof -
  note ids = numbered_nth [OF assms]
  have early: "filter (\<lambda>e. k + n < ie_id e \<and> P e) (take n es) = []"
    by (auto simp: filter_empty_conv in_set_conv_nth ids)
  have late: "filter (\<lambda>e. k + n < ie_id e \<and> P e) (drop n es) = filter P (drop n es)"
    by (rule filter_cong) (auto simp: in_set_conv_nth ids)
  have "filter (\<lambda>e. k + n < ie_id e \<and> P e) (take n es @ drop n es) = filter P (drop n es)"
    by (simp only: filter_append early late append_Nil)
  then show ?thesis by simp
qed

section \<open>Properties\<close>

text \<open>
  C38. No gap and no duplicate over a reconnection. A client that saw every event up to \<open>k\<close>,
  with at most 200 published since, and that subscribes again with \<open>k\<close> as its last event id,
  receives exactly the events in its scope that were published after \<open>k\<close>, before or after it
  reconnected, in the order of their publication.
\<close>

theorem reconnect_exact:
  assumes "publish_all past new_hub = (es, h)" and "publish_all future h = (es', h')"
    and "k \<le> length past" and "length past \<le> k + REPLAY_BUFFER_LIMIT"
  shows "subscribe (Some k) statuses h es' =
    filter (\<lambda>e. k < ie_id e \<and> isInScope statuses e) (es @ es')"
proof -
  have es: "es = fst (publish_all past new_hub)" "h = snd (publish_all past new_hub)"
    "es' = fst (publish_all future h)" using assms(1,2) by simp_all
  have len: "length es = length past" "numbered 0 es" "eh_sequence h = length past"
    using publish_all_events [of new_hub past] by (simp_all add: es(1,2) new_hub_def)
  have "numbered (length past) es'"
    using publish_all_events [of h future] by (simp add: es(3) len(3))
  then have after: "filter (\<lambda>e. k < ie_id e \<and> isInScope statuses e) es' = filter (isInScope statuses) es'"
    using assms(3) by (intro filter_cong) (auto simp: in_set_conv_nth dest: numbered_nth)
  have "buffers ([] @ fst (publish_all past new_hub)) (snd (publish_all past new_hub))"
    by (rule publish_all_buffers) (simp add: buffers_def new_hub_def)
  then have recent: "eh_recent h = drop (length past - REPLAY_BUFFER_LIMIT) es"
    by (simp add: buffers_def es(1,2) [symmetric] len(1))
  have "filter (\<lambda>e. 0 + (length past - REPLAY_BUFFER_LIMIT) < ie_id e \<and> k < ie_id e \<and> isInScope statuses e) es =
      filter (\<lambda>e. k < ie_id e \<and> isInScope statuses e) es"
    using assms(4) by (intro filter_cong) auto
  with numbered_drop [OF len(2), of "length past - REPLAY_BUFFER_LIMIT" "\<lambda>e. k < ie_id e \<and> isInScope statuses e"]
  have "replay (Some k) statuses h = filter (\<lambda>e. k < ie_id e \<and> isInScope statuses e) es"
    by (simp add: replay_def recent)
  with after show ?thesis by (simp add: subscribe_def Let_def)
qed

definition review_payload :: "ident \<Rightarrow> inbox_payload" where
  "review_payload i = \<lparr>ip_verificationId = i, ip_status = ''approved'', ip_previousStatus = None,
     ip_reviewedBy = None, ip_reviewedAt = None, ip_deepLink = i\<rparr>"

theorem reconnect_exact_witness:
  "let (es, h) = publish_all [(1, Inbox_item_updated, review_payload ''v1''),
                              (2, Inbox_item_updated, review_payload ''v2'')] new_hub;
       (es', h') = publish_all [(3, Inbox_item_updated, review_payload ''v3'')] h
   in map ie_id (subscribe (Some 1) None h es') = [2, 3]"
proof -
  let ?past = "[(1, Inbox_item_updated, review_payload ''v1''), (2, Inbox_item_updated, review_payload ''v2'')]"
  let ?es = "fst (publish_all ?past new_hub)" and ?h = "snd (publish_all ?past new_hub)"
  let ?es' = "fst (publish_all [(3, Inbox_item_updated, review_payload ''v3'')] ?h)"
  have "subscribe (Some 1) None ?h ?es' = filter (\<lambda>e. 1 < ie_id e \<and> isInScope None e) (?es @ ?es')"
    by (rule reconnect_exact [OF prod.collapse [symmetric] prod.collapse [symmetric]])
      (simp_all add: REPLAY_BUFFER_LIMIT_def)
  then show ?thesis
    by (simp add: case_prod_unfold Let_def publish_def new_hub_def isInScope_def REPLAY_BUFFER_LIMIT_def)
qed

text \<open>
  A first subscription, without a last event id, is not only the live feed: it starts with
  every buffered event of its scope.
\<close>

theorem fresh_subscription_replays:
  "subscribe None statuses (snd (publish_all past new_hub)) later =
     filter (isInScope statuses)
       (drop (length past - REPLAY_BUFFER_LIMIT) (fst (publish_all past new_hub)) @ later)"
proof -
  let ?es = "fst (publish_all past new_hub)"
  have len: "length ?es = length past" "numbered 0 ?es"
    using publish_all_events [of new_hub past] by (simp_all add: new_hub_def)
  have "buffers ([] @ ?es) (snd (publish_all past new_hub))"
    by (rule publish_all_buffers) (simp add: buffers_def new_hub_def)
  then have recent: "eh_recent (snd (publish_all past new_hub)) = drop (length past - REPLAY_BUFFER_LIMIT) ?es"
    by (simp add: buffers_def len(1))
  have "0 < ie_id e" if "e \<in> set (drop (length past - REPLAY_BUFFER_LIMIT) ?es)" for e
    using in_set_dropD [OF that] numbered_nth [OF len(2)] by (auto simp: in_set_conv_nth)
  then have "filter (\<lambda>e. 0 < ie_id e \<and> isInScope statuses e) (drop (length past - REPLAY_BUFFER_LIMIT) ?es) =
      filter (isInScope statuses) (drop (length past - REPLAY_BUFFER_LIMIT) ?es)"
    by (intro filter_cong) auto
  then show ?thesis by (simp add: subscribe_def replay_def Let_def recent)
qed

end
