(* ===== verification/ReviewInbox.thy ===== *)
theory ReviewInbox
  imports ReviewLock InboxEvents "HOL-Library.Sublist"
begin

text \<open>
  The review inbox, \<open>verification/verification-inbox.service.ts\<close>, and the handlers of
  \<open>verification/verification-inbox.controller.ts\<close> that a reviewer's decision goes through.
  The state is the table of verification requests, the internal notes, the review locks (with
  the audit log both services write) and the event hub. The decision handlers share one body,
  \<open>guarded_review\<close>: verify the lock, decide, release the lock. Its laws are proved in the
  locale \<open>review_desk\<close>, over any gate with the contract of the review locks.
\<close>

section \<open>Data\<close>

datatype verification_status =
  V_pending | V_pending_review | V_approved | V_rejected | V_needs_resubmission

fun verification_status_name :: "verification_status \<Rightarrow> string" where
  "verification_status_name V_pending = ''pending''"
| "verification_status_name V_pending_review = ''pending_review''"
| "verification_status_name V_approved = ''approved''"
| "verification_status_name V_rejected = ''rejected''"
| "verification_status_name V_needs_resubmission = ''needs_resubmission''"

record verification_request =
  vr_id :: ident
  vr_createdAt :: time
  vr_deletedAt :: "time option"
  vr_status :: verification_status
  vr_reviewedAt :: "time option"
  vr_reviewedBy :: "ident option"
  vr_rejectionReason :: "string option"
  vr_nextStepMessage :: "string option"

record internal_note =
  in_id :: ident
  in_entityType :: string
  in_entityId :: ident
  in_content :: string
  in_authorId :: ident
  in_category :: "string option"
  in_createdAt :: time

record inbox_state =
  ib_requests :: "verification_request list"
  ib_notes :: "internal_note list"
  ib_locks :: lock_state
  ib_hub :: event_hub

definition deep_link :: "ident \<Rightarrow> string" where
  "deep_link i = ''/verification/'' @ i"

section \<open>Reading the inbox\<close>

record lock_summary =
  sm_lockedBy :: ident
  sm_lockedAt :: time
  sm_expiresAt :: time
  sm_remainingSeconds :: int

record inbox_item =
  it_id :: ident
  it_status :: verification_status
  it_createdAt :: time
  it_reviewedAt :: "time option"
  it_reviewedBy :: "ident option"
  it_rejectionReason :: "string option"
  it_nextStepMessage :: "string option"
  it_deepLink :: string
  it_lock :: "lock_summary option"

definition lock_summary_of :: "time \<Rightarrow> review_lock \<Rightarrow> lock_summary" where
  "lock_summary_of now l =
     \<lparr>sm_lockedBy = lk_lockedBy l, sm_lockedAt = lk_lockedAt l, sm_expiresAt = lk_expiresAt l,
      sm_remainingSeconds = max 0 ((lk_expiresAt l - now) div 1000)\<rparr>"

definition inbox_item_of :: "time \<Rightarrow> review_lock option \<Rightarrow> verification_request \<Rightarrow> inbox_item" where
  "inbox_item_of now lock r =
     \<lparr>it_id = vr_id r, it_status = vr_status r, it_createdAt = vr_createdAt r,
      it_reviewedAt = vr_reviewedAt r, it_reviewedBy = vr_reviewedBy r,
      it_rejectionReason = vr_rejectionReason r, it_nextStepMessage = vr_nextStepMessage r,
      it_deepLink = deep_link (vr_id r), it_lock = map_option (lock_summary_of now) lock\<rparr>"

definition in_inbox :: "verification_status option \<Rightarrow> verification_request \<Rightarrow> bool" where
  "in_inbox st r \<longleftrightarrow> vr_deletedAt r = None \<and> (case st of None \<Rightarrow> True | Some v \<Rightarrow> vr_status r = v)"

record inbox_response =
  ir_items :: "inbox_item list"
  ir_total :: nat
  ir_page :: nat
  ir_limit :: nat
  ir_totalPages :: "nat option"

text \<open>
  \<open>page\<close> and \<open>limit\<close> are what \<open>parseInt\<close> gave. Prisma refuses a negative \<open>skip\<close>; with a limit
  of zero the quotient \<open>totalPages\<close> is not a number (\<open>None\<close>). Of two live locks of an item the
  \<open>Map\<close> keeps the later one.
\<close>

definition getInbox ::
  "time \<Rightarrow> verification_status option \<Rightarrow> nat \<Rightarrow> nat \<Rightarrow> inbox_state \<Rightarrow> app_error + inbox_response" where
  "getInbox now status page limit s =
     (if page < 1 \<and> 0 < limit then Inl (PlainError ''Invalid value for skip argument'')
      else
        let skip = (page - 1) * limit;
            matching = sort_key (\<lambda>r. - vr_createdAt r) (filter (in_inbox status) (ib_requests s));
            items = take limit (drop skip matching);
            itemIds = map vr_id items;
            activeLocks = filter (\<lambda>l. lk_entityType l = VERIFICATION \<and> lk_entityId l \<in> set itemIds \<and>
                lk_status l = L_active \<and> now < lk_expiresAt l) (locks (ib_locks s));
            lockMap = map_of (rev (map (\<lambda>l. (lk_entityId l, l)) activeLocks));
            total = length (filter (in_inbox status) (ib_requests s))
        in Inr \<lparr>ir_items = map (\<lambda>r. inbox_item_of now (lockMap (vr_id r)) r) items,
                ir_total = total, ir_page = page, ir_limit = limit,
                ir_totalPages = (if limit = 0 then None else Some ((total + limit - 1) div limit))\<rparr>)"

record inbox_stats =
  st_pending :: "nat option"
  st_pending_review :: nat
  st_approved :: nat
  st_rejected :: nat
  st_needs_resubmission :: nat
  st_total :: nat

text \<open>One group of the \<open>groupBy\<close> stored under its status: the status \<open>pending\<close> makes a new key.\<close>

fun add_stat :: "verification_status \<times> nat \<Rightarrow> inbox_stats \<Rightarrow> inbox_stats" where
  "add_stat (st, n) r =
     (case st of
        V_pending \<Rightarrow> r\<lparr>st_pending := Some n\<rparr>
      | V_pending_review \<Rightarrow> r\<lparr>st_pending_review := n\<rparr>
      | V_approved \<Rightarrow> r\<lparr>st_approved := n\<rparr>
      | V_rejected \<Rightarrow> r\<lparr>st_rejected := n\<rparr>
      | V_needs_resubmission \<Rightarrow> r\<lparr>st_needs_resubmission := n\<rparr>)\<lparr>st_total := st_total r + n\<rparr>"

definition group_by_status :: "verification_request list \<Rightarrow> (verification_status \<times> nat) list" where
  "group_by_status rows = map (\<lambda>st. (st, count_where (\<lambda>r. vr_status r = st) rows))
     (remdups (map vr_status rows))"

definition inbox_getStats :: "inbox_state \<Rightarrow> inbox_stats" where
  "inbox_getStats s = fold add_stat
     (group_by_status (filter (\<lambda>r. vr_deletedAt r = None) (ib_requests s)))
     \<lparr>st_pending = None, st_pending_review = 0, st_approved = 0, st_rejected = 0,
      st_needs_resubmission = 0, st_total = 0\<rparr>"

section \<open>Deciding\<close>

definition review_error :: "error_code \<Rightarrow> nat \<Rightarrow> string \<Rightarrow> app_error + 'r" where
  "review_error c n m = Inl (AppException c n m)"

record review_body =
  rb_nextStepMessage :: "string option"
  rb_rejectionReason :: "string option"
  rb_internalNote :: "string option"

definition decide_row ::
  "time \<Rightarrow> verification_status \<Rightarrow> ident \<Rightarrow> review_body \<Rightarrow> verification_request \<Rightarrow> verification_request" where
  "decide_row now status reviewer b r =
     (let r1 = r\<lparr>vr_status := status, vr_reviewedAt := Some now, vr_reviewedBy := Some reviewer\<rparr>;
          r2 = (if truthy (rb_nextStepMessage b)
                then r1\<lparr>vr_nextStepMessage := rb_nextStepMessage b\<rparr> else r1)
      in if truthy (rb_rejectionReason b) then r2\<lparr>vr_rejectionReason := rb_rejectionReason b\<rparr> else r2)"

definition opt_meta :: "string option \<Rightarrow> meta_value" where
  "opt_meta x = (case x of None \<Rightarrow> MNull | Some v \<Rightarrow> MStr v)"

text \<open>
  \<open>updateStatus\<close>: \<open>clk 0\<close> is the time of the review, \<open>clk 1\<close> that of the note's row, \<open>clk 2\<close>
  that of the event; \<open>noteId\<close> is the id of a note it creates.
\<close>

definition updateStatus ::
  "clock \<Rightarrow> ident \<Rightarrow> ident \<Rightarrow> verification_status \<Rightarrow> ident \<Rightarrow> review_body \<Rightarrow> inbox_state
   \<Rightarrow> (app_error + verification_request) \<times> inbox_state" where
  "updateStatus clk noteId i status reviewer b s =
     (case find_row (\<lambda>r. vr_id r = i \<and> vr_deletedAt r = None) (ib_requests s) of
        None \<Rightarrow> (review_error NOT_FOUND 404 ''Verification request not found'', s)
      | Some v \<Rightarrow>
          if vr_status v = V_approved \<or> vr_status v = V_rejected then
            (review_error BAD_REQUEST 400 ''Verification already processed'', s)
          else
            let updated = decide_row (clk 0) status reviewer b v;
                s1 = s\<lparr>ib_requests := update_where (\<lambda>r. vr_id r = i)
                         (decide_row (clk 0) status reviewer b) (ib_requests s)\<rparr>;
                s2 = s1\<lparr>ib_locks := (ib_locks s1)\<lparr>lock_audit := record_audit
                      \<lparr>au_actorId = reviewer, au_entity = ''VerificationRequest'', au_entityId = i,
                       au_action = ''review_'' @ verification_status_name status,
                       au_metadata =
                         [(''previousStatus'', MStr (verification_status_name (vr_status v))),
                          (''newStatus'', MStr (verification_status_name status)),
                          (''rejectionReason'', opt_meta (rb_rejectionReason b)),
                          (''nextStepMessage'', opt_meta (rb_nextStepMessage b)),
                          (''reviewedAt'', MTime (clk 0))]\<rparr> (lock_audit (ib_locks s1))\<rparr>\<rparr>;
                s3 = (case rb_internalNote b of
                        None \<Rightarrow> s2
                      | Some note \<Rightarrow>
                          if note = [] then s2
                          else s2\<lparr>ib_notes := ib_notes s2 @
                            [\<lparr>in_id = noteId, in_entityType = ''verification'', in_entityId = i,
                              in_content = note, in_authorId = reviewer,
                              in_category = Some (''review_'' @ verification_status_name status),
                              in_createdAt = clk 1\<rparr>]\<rparr>);
                s4 = s3\<lparr>ib_hub := snd (publish (clk 2) Inbox_item_updated
                      \<lparr>ip_verificationId = vr_id updated,
                       ip_status = verification_status_name (vr_status updated),
                       ip_previousStatus = Some (verification_status_name (vr_status v)),
                       ip_reviewedBy = vr_reviewedBy updated, ip_reviewedAt = vr_reviewedAt updated,
                       ip_deepLink = deep_link (vr_id updated)\<rparr> (ib_hub s3))\<rparr>
            in (Inr updated, s4))"

record inbox_details =
  id_item :: inbox_item
  id_lockId :: "ident option"

definition getDetails :: "time \<Rightarrow> ident \<Rightarrow> inbox_state \<Rightarrow> app_error + inbox_details" where
  "getDetails now i s =
     (case find_row (\<lambda>r. vr_id r = i \<and> vr_deletedAt r = None) (ib_requests s) of
        None \<Rightarrow> review_error NOT_FOUND 404 ''Verification request not found''
      | Some v \<Rightarrow>
          let activeLock = find_row (live_on VERIFICATION i now) (locks (ib_locks s))
          in Inr \<lparr>id_item = inbox_item_of now activeLock v, id_lockId = map_option lk_id activeLock\<rparr>)"

definition addInternalNote ::
  "time \<Rightarrow> ident \<Rightarrow> ident \<Rightarrow> string \<Rightarrow> ident \<Rightarrow> string option \<Rightarrow> inbox_state
   \<Rightarrow> (app_error + internal_note) \<times> inbox_state" where
  "addInternalNote now noteId i content author category s =
     (case find_row (\<lambda>r. vr_id r = i \<and> vr_deletedAt r = None) (ib_requests s) of
        None \<Rightarrow> (review_error NOT_FOUND 404 ''Verification request not found'', s)
      | Some v \<Rightarrow>
          let note = \<lparr>in_id = noteId, in_entityType = ''verification'', in_entityId = i,
                      in_content = content, in_authorId = author, in_category = category,
                      in_createdAt = now\<rparr>;
              s1 = s\<lparr>ib_notes := ib_notes s @ [note]\<rparr>
          in (Inr note,
              s1\<lparr>ib_locks := (ib_locks s1)\<lparr>lock_audit := record_audit
                \<lparr>au_actorId = author, au_entity = ''VerificationRequest'', au_entityId = i,
                 au_action = ''internal_note_added'',
                 au_metadata = [(''noteId'', MStr (in_id note)), (''category'', opt_meta category)]\<rparr>
                (lock_audit (ib_locks s1))\<rparr>\<rparr>))"

definition getInternalNotes :: "ident \<Rightarrow> inbox_state \<Rightarrow> app_error + internal_note list" where
  "getInternalNotes i s =
     (case find_row (\<lambda>r. vr_id r = i \<and> vr_deletedAt r = None) (ib_requests s) of
        None \<Rightarrow> review_error NOT_FOUND 404 ''Verification request not found''
      | Some v \<Rightarrow> Inr (sort_key in_createdAt
          (filter (\<lambda>n. in_entityType n = ''verification'' \<and> in_entityId n = i) (ib_notes s))))"

datatype bulk_action = Bulk_approve | Bulk_reject | Bulk_requeue

definition bulk_status :: "bulk_action \<Rightarrow> verification_status" where
  "bulk_status a = (if a = Bulk_approve then V_approved
     else if a = Bulk_reject then V_rejected else V_needs_resubmission)"

text \<open>The loop over the ids; the \<open>k\<close>-th update has the clock \<open>clks k\<close> and the note id \<open>noteIds k\<close>.\<close>

fun bulk_loop ::
  "(nat \<Rightarrow> clock) \<Rightarrow> (nat \<Rightarrow> ident) \<Rightarrow> nat \<Rightarrow> verification_status \<Rightarrow> ident list \<Rightarrow> ident \<Rightarrow> review_body
   \<Rightarrow> inbox_state \<Rightarrow> ((ident \<times> verification_status) list \<times> (ident \<times> string) list) \<times> inbox_state" where
  "bulk_loop clks noteIds k status [] reviewer b s = (([], []), s)"
| "bulk_loop clks noteIds k status (i # ids) reviewer b s =
     (case updateStatus (clks k) (noteIds k) i status reviewer b s of
        (Inr updated, s1) \<Rightarrow>
          (case bulk_loop clks noteIds (Suc k) status ids reviewer b s1 of
             ((succeeded, failed), s2) \<Rightarrow> (((vr_id updated, vr_status updated) # succeeded, failed), s2))
      | (Inl e, s1) \<Rightarrow>
          (case bulk_loop clks noteIds (Suc k) status ids reviewer b s1 of
             ((succeeded, failed), s2) \<Rightarrow> ((succeeded, (i, error_message e) # failed), s2)))"

definition bulkUpdateStatus ::
  "(nat \<Rightarrow> clock) \<Rightarrow> (nat \<Rightarrow> ident) \<Rightarrow> bulk_action \<Rightarrow> ident list \<Rightarrow> ident \<Rightarrow> review_body
   \<Rightarrow> inbox_state \<Rightarrow> ((ident \<times> verification_status) list \<times> (ident \<times> string) list) \<times> inbox_state" where
  "bulkUpdateStatus clks noteIds act ids reviewer b s =
     bulk_loop clks noteIds 0 (bulk_status act) ids reviewer b s"

section \<open>The handlers\<close>

datatype 'r review_response =
  Requires_lock lock_code string "lock_conflict option"
| Lock_released 'r

text \<open>
  The body the handlers of approve, reject and request-resubmission share: the first three
  arguments are the calls of the lock service and of the inbox service.
\<close>

definition guarded_review ::
  "('s \<Rightarrow> lock_result) \<Rightarrow> ('s \<Rightarrow> (app_error + 'r) \<times> 's) \<Rightarrow> ('s \<Rightarrow> 's) \<Rightarrow> 's
   \<Rightarrow> (app_error + 'r review_response) \<times> 's" where
  "guarded_review verify update release s =
     (let lockResult = verify s
      in if \<not> lr_success lockResult then
           (Inr (Requires_lock (lr_code lockResult) (lr_message lockResult) (lr_conflict lockResult)), s)
         else
           (case update s of
              (Inl e, s1) \<Rightarrow> (Inl e, s1)
            | (Inr result, s1) \<Rightarrow> (Inr (Lock_released result), release s1)))"

definition inbox_verify :: "clock \<Rightarrow> ident \<Rightarrow> ident \<Rightarrow> inbox_state \<Rightarrow> lock_result" where
  "inbox_verify clk i reviewer s = verifyLockOwnership clk VERIFICATION i reviewer (ib_locks s)"

definition inbox_release :: "clock \<Rightarrow> ident \<Rightarrow> ident \<Rightarrow> inbox_state \<Rightarrow> inbox_state" where
  "inbox_release clk i reviewer s =
     s\<lparr>ib_locks := releaseLockForReview clk VERIFICATION i reviewer (ib_locks s)\<rparr>"

text \<open>Readings 0 and 1 are those of the verification, 2 to 4 of the update, 5 and 6 of the release.\<close>

definition approve ::
  "clock \<Rightarrow> ident \<Rightarrow> ident \<Rightarrow> string option \<Rightarrow> string option \<Rightarrow> ident \<Rightarrow> inbox_state
   \<Rightarrow> (app_error + verification_request review_response) \<times> inbox_state" where
  "approve clk noteId i nextStepMessage internalNote reviewer =
     guarded_review (inbox_verify clk i reviewer)
       (updateStatus (\<lambda>k. clk (k + 2)) noteId i V_approved reviewer
          \<lparr>rb_nextStepMessage = nextStepMessage, rb_rejectionReason = None,
           rb_internalNote = internalNote\<rparr>)
       (inbox_release (\<lambda>k. clk (k + 5)) i reviewer)"

definition reject ::
  "clock \<Rightarrow> ident \<Rightarrow> ident \<Rightarrow> string \<Rightarrow> string option \<Rightarrow> string option \<Rightarrow> ident \<Rightarrow> inbox_state
   \<Rightarrow> (app_error + verification_request review_response) \<times> inbox_state" where
  "reject clk noteId i rejectionReason nextStepMessage internalNote reviewer =
     guarded_review (inbox_verify clk i reviewer)
       (updateStatus (\<lambda>k. clk (k + 2)) noteId i V_rejected reviewer
          \<lparr>rb_nextStepMessage = nextStepMessage, rb_rejectionReason = Some rejectionReason,
           rb_internalNote = internalNote\<rparr>)
       (inbox_release (\<lambda>k. clk (k + 5)) i reviewer)"

definition requestResubmission ::
  "clock \<Rightarrow> ident \<Rightarrow> ident \<Rightarrow> string \<Rightarrow> string \<Rightarrow> string option \<Rightarrow> ident \<Rightarrow> inbox_state
   \<Rightarrow> (app_error + verification_request review_response) \<times> inbox_state" where
  "requestResubmission clk noteId i rejectionReason nextStepMessage internalNote reviewer =
     guarded_review (inbox_verify clk i reviewer)
       (updateStatus (\<lambda>k. clk (k + 2)) noteId i V_needs_resubmission reviewer
          \<lparr>rb_nextStepMessage = Some nextStepMessage, rb_rejectionReason = Some rejectionReason,
           rb_internalNote = internalNote\<rparr>)
       (inbox_release (\<lambda>k. clk (k + 5)) i reviewer)"

text \<open>The endpoint that acquires a lock: the request has to exist.\<close>

definition acquireInboxLock ::
  "clock \<Rightarrow> ident \<Rightarrow> ident \<Rightarrow> int option \<Rightarrow> ident \<Rightarrow> inbox_state
   \<Rightarrow> (app_error + lock_result) \<times> inbox_state" where
  "acquireInboxLock clk newId i dur reviewer s =
     (case getDetails (clk 0) i s of
        Inl e \<Rightarrow> (Inl e, s)
      | Inr d \<Rightarrow>
          (case acquireLock (\<lambda>k. clk (k + 1)) newId VERIFICATION i dur reviewer (ib_locks s) of
             (r, l) \<Rightarrow> (r, s\<lparr>ib_locks := l\<rparr>)))"

section \<open>The shared body, over any gate\<close>

locale review_desk = review_gate +
  fixes decide :: "'a \<Rightarrow> 's \<Rightarrow> (app_error + 'r) \<times> 's"
  assumes decide_holds: "holds who eid t (snd (decide a s)) \<longleftrightarrow> holds who eid t s"
    and decide_inv: "inv t (snd (decide a s)) \<longleftrightarrow> inv t s"
begin

lemma guarded_cases:
  assumes "inv t s" and "t \<le> clk 0"
  obtains
    (refused) "\<not> holds who eid (clk 0) s"
      "guarded_review (verify clk eid who) (decide a) (release clk' eid who) s =
         (Inr (Requires_lock (lr_code (verify clk eid who s)) (lr_message (verify clk eid who s))
            (lr_conflict (verify clk eid who s))), s)"
  | (failed) e where "holds who eid (clk 0) s" "fst (decide a s) = Inl e"
      "guarded_review (verify clk eid who) (decide a) (release clk' eid who) s = (Inl e, snd (decide a s))"
  | (decided) r where "holds who eid (clk 0) s" "fst (decide a s) = Inr r"
      "guarded_review (verify clk eid who) (decide a) (release clk' eid who) s =
         (Inr (Lock_released r), release clk' eid who (snd (decide a s)))"
proof (cases "lr_success (verify clk eid who s)")
  case False
  then show ?thesis using verify_iff [where clk = clk, OF assms] by (intro refused) (auto simp: guarded_review_def Let_def)
next
  case True
  then have held: "holds who eid (clk 0) s" using verify_iff [where clk = clk, OF assms] by blast
  obtain x s1 where d: "decide a s = (x, s1)" by (cases "decide a s")
  show ?thesis
  proof (cases x)
    case (Inl e)
    show ?thesis by (rule failed [of e]) (use held True d Inl in \<open>simp_all add: guarded_review_def\<close>)
  next
    case (Inr r)
    show ?thesis by (rule decided [of r]) (use held True d Inr in \<open>simp_all add: guarded_review_def\<close>)
  qed
qed

lemma decided_frees:
  assumes "inv t s" and "t \<le> clk 0" and "clk 0 \<le> clk' 0" and "mono clk'"
    and "fst (guarded_review (verify clk eid who) (decide a) (release clk' eid who) s) = Inr (Lock_released r)"
  shows "holds who eid (clk 0) s"
    and "\<not> holds anyone eid (clk' 1)
           (snd (guarded_review (verify clk eid who) (decide a) (release clk' eid who) s))"
proof -
  have "holds who eid (clk 0) s \<and> \<not> holds anyone eid (clk' 1)
      (snd (guarded_review (verify clk eid who) (decide a) (release clk' eid who) s))"
    using assms(1,2)
  proof (cases rule: guarded_cases [where clk = clk and who = who and eid = eid and a = a and clk' = clk'])
    case (decided r')
    have "inv t (snd (decide a s))" using assms(1) decide_inv by blast
    moreover have "holds who eid (clk 0) (snd (decide a s))" using decided(1) decide_holds by blast
    ultimately show ?thesis using released_free [OF _ assms(2,3,4)] decided by simp
  qed (use assms(5) in simp_all)
  then show "holds who eid (clk 0) s"
    and "\<not> holds anyone eid (clk' 1)
           (snd (guarded_review (verify clk eid who) (decide a) (release clk' eid who) s))" by blast+
qed

end

subsection \<open>The inbox as such a desk\<close>

lemma updateStatus_cases:
  obtains
    (missing) "find_row (\<lambda>r. vr_id r = i \<and> vr_deletedAt r = None) (ib_requests s) = None"
      "updateStatus clk noteId i status reviewer b s =
         (Inl (AppException NOT_FOUND 404 ''Verification request not found''), s)"
  | (processed) v where "find_row (\<lambda>r. vr_id r = i \<and> vr_deletedAt r = None) (ib_requests s) = Some v"
      "vr_status v = V_approved \<or> vr_status v = V_rejected"
      "updateStatus clk noteId i status reviewer b s =
         (Inl (AppException BAD_REQUEST 400 ''Verification already processed''), s)"
  | (updated) v where "find_row (\<lambda>r. vr_id r = i \<and> vr_deletedAt r = None) (ib_requests s) = Some v"
      "vr_status v \<noteq> V_approved" "vr_status v \<noteq> V_rejected"
      "fst (updateStatus clk noteId i status reviewer b s) = Inr (decide_row (clk 0) status reviewer b v)"
      "ib_requests (snd (updateStatus clk noteId i status reviewer b s)) =
         update_where (\<lambda>r. vr_id r = i) (decide_row (clk 0) status reviewer b) (ib_requests s)"
proof (cases "find_row (\<lambda>r. vr_id r = i \<and> vr_deletedAt r = None) (ib_requests s)")
  case None
  then show ?thesis by (intro missing) (simp_all add: updateStatus_def review_error_def)
next
  case (Some v)
  show ?thesis
  proof (cases "vr_status v = V_approved \<or> vr_status v = V_rejected")
    case True
    with Some show ?thesis by (intro processed [of v]) (simp_all add: updateStatus_def review_error_def)
  next
    case False
    with Some show ?thesis
      by (intro updated [of v]) (simp_all add: updateStatus_def Let_def split: option.split)
  qed
qed

lemma updateStatus_locks [simp]:
  "locks (ib_locks (snd (updateStatus clk noteId i status reviewer b s))) = locks (ib_locks s)"
  by (simp add: updateStatus_def Let_def split: option.split)

lemma lock_inv_cong: "locks s = locks s' \<Longrightarrow> lock_inv (t, s) = lock_inv (t, s')"
  by (simp add: lock_inv_def ids_distinct_def exclusive_def)

lemma holds_lock_cong: "locks s = locks s' \<Longrightarrow> holds_lock ty who eid t s = holds_lock ty who eid t s'"
  by (simp add: holds_lock_def)

definition inbox_holds :: "ident \<Rightarrow> ident \<Rightarrow> time \<Rightarrow> inbox_state \<Rightarrow> bool" where
  "inbox_holds who i t s = holds_lock VERIFICATION who i t (ib_locks s)"

definition inbox_lock_inv :: "time \<Rightarrow> inbox_state \<Rightarrow> bool" where
  "inbox_lock_inv t s = lock_inv (t, ib_locks s)"

definition inbox_decide ::
  "clock \<times> ident \<times> ident \<times> verification_status \<times> ident \<times> review_body \<Rightarrow> inbox_state
   \<Rightarrow> (app_error + verification_request) \<times> inbox_state" where
  "inbox_decide = (\<lambda>(clk, noteId, i, status, reviewer, b). updateStatus clk noteId i status reviewer b)"

interpretation desk: review_desk inbox_lock_inv inbox_holds inbox_verify inbox_release inbox_decide
proof
  show "inbox_holds who eid t (snd (inbox_decide a s)) \<longleftrightarrow> inbox_holds who eid t s" for who eid t a s
    unfolding inbox_holds_def by (rule holds_lock_cong) (simp add: inbox_decide_def case_prod_unfold)
  show "inbox_lock_inv t (snd (inbox_decide a s)) \<longleftrightarrow> inbox_lock_inv t s" for t a s
    unfolding inbox_lock_inv_def by (rule lock_inv_cong) (simp add: inbox_decide_def case_prod_unfold)
qed (auto simp: inbox_lock_inv_def inbox_holds_def inbox_verify_def inbox_release_def
    lock_gate.verify_iff
    intro: lock_gate.holds_unique lock_gate.holds_earlier lock_gate.release_inv
      lock_gate.release_grants_none
    dest: lock_gate.release_frees)

lemma decide_failed: "fst (inbox_decide a s) = Inl e \<Longrightarrow> snd (inbox_decide a s) = s"
  by (auto simp: inbox_decide_def updateStatus_def review_error_def Let_def split: prod.splits option.splits)

lemma decide_row_fields [simp]:
  "vr_id (decide_row now st who b r) = vr_id r"
  "vr_createdAt (decide_row now st who b r) = vr_createdAt r"
  "vr_deletedAt (decide_row now st who b r) = vr_deletedAt r"
  "vr_status (decide_row now st who b r) = st"
  "vr_reviewedBy (decide_row now st who b r) = Some who"
  by (simp_all add: decide_row_def Let_def)

lemma decide_stored:
  assumes "fst (updateStatus clk noteId i st who b s) = Inr r"
  shows "r \<in> set (ib_requests (snd (updateStatus clk noteId i st who b s)))"
    and "vr_id r = i" and "vr_status r = st" and "vr_reviewedBy r = Some who"
proof -
  have "r \<in> set (ib_requests (snd (updateStatus clk noteId i st who b s))) \<and>
    vr_id r = i \<and> vr_status r = st \<and> vr_reviewedBy r = Some who"
  proof (cases rule: updateStatus_cases [where clk = clk and noteId = noteId and i = i and status = st
        and reviewer = who and b = b and s = s])
    case (updated v)
    then have "v \<in> set (ib_requests s)" "vr_id v = i" by (auto dest: find_row_SomeD)
    then show ?thesis
      using assms updated(4) in_update_where_changed [of v "ib_requests s" "\<lambda>r. vr_id r = i"]
      by (auto simp: updated(5))
  qed (use assms in simp_all)
  then show "r \<in> set (ib_requests (snd (updateStatus clk noteId i st who b s)))"
    and "vr_id r = i" and "vr_status r = st" and "vr_reviewedBy r = Some who" by blast+
qed

lemma release_requests [simp]: "ib_requests (inbox_release clk i who s) = ib_requests s"
  by (simp add: inbox_release_def)

text \<open>The three handlers are the body at three decisions.\<close>

definition review_handler ::
  "clock \<Rightarrow> ident \<Rightarrow> ident \<Rightarrow> verification_status \<Rightarrow> review_body \<Rightarrow> ident \<Rightarrow> inbox_state
   \<Rightarrow> (app_error + verification_request review_response) \<times> inbox_state" where
  "review_handler clk noteId i st b who =
     guarded_review (inbox_verify clk i who)
       (inbox_decide (\<lambda>k. clk (k + 2), noteId, i, st, who, b)) (inbox_release (\<lambda>k. clk (k + 5)) i who)"

lemma handlers:
  "approve clk noteId i m n who = review_handler clk noteId i V_approved
     \<lparr>rb_nextStepMessage = m, rb_rejectionReason = None, rb_internalNote = n\<rparr> who"
  "reject clk noteId i why m n who = review_handler clk noteId i V_rejected
     \<lparr>rb_nextStepMessage = m, rb_rejectionReason = Some why, rb_internalNote = n\<rparr> who"
  "requestResubmission clk noteId i why m' n who = review_handler clk noteId i V_needs_resubmission
     \<lparr>rb_nextStepMessage = Some m', rb_rejectionReason = Some why, rb_internalNote = n\<rparr> who"
  by (simp_all add: approve_def reject_def requestResubmission_def review_handler_def inbox_decide_def)

definition reviewed ::
  "clock \<Rightarrow> ident \<Rightarrow> ident \<Rightarrow> inbox_state \<Rightarrow> (app_error + verification_request review_response) \<times> inbox_state \<Rightarrow> bool" where
  "reviewed clk i who s out \<longleftrightarrow>
     (case fst out of
        Inr (Lock_released r) \<Rightarrow>
          inbox_holds who i (clk 0) s \<and> (\<forall>w. \<not> inbox_holds w i (clk 6) (snd out)) \<and>
          r \<in> set (ib_requests (snd out)) \<and> vr_id r = i \<and> vr_reviewedBy r = Some who
      | _ \<Rightarrow> snd out = s)"

lemma handler_reviewed:
  assumes "inbox_lock_inv t s" and "t \<le> clk 0" and "mono clk"
  shows "reviewed clk i who s (review_handler clk noteId i st b who s)"
proof -
  let ?a = "(\<lambda>k. clk (k + 2), noteId, i, st, who, b)"
  have later: "clk 0 \<le> (\<lambda>k. clk (k + 5)) 0" "mono (\<lambda>k. clk (k + 5))"
    using assms(3) by (auto simp: mono_def)
  from assms(1,2) show ?thesis
  proof (cases rule: desk.guarded_cases [where clk = clk and who = who and eid = i and a = ?a
        and clk' = "\<lambda>k. clk (k + 5)"])
    case refused
    then show ?thesis by (simp add: reviewed_def review_handler_def)
  next
    case (failed e)
    then show ?thesis using decide_failed [OF failed(2)] by (simp add: reviewed_def review_handler_def)
  next
    case (decided r)
    then have out: "fst (review_handler clk noteId i st b who s) = Inr (Lock_released r)"
      by (simp add: review_handler_def)
    have "\<not> inbox_holds w i (clk 6) (snd (review_handler clk noteId i st b who s))" for w
      using desk.decided_frees(2) [where clk = clk and clk' = "\<lambda>k. clk (k + 5)" and eid = i and who = who
          and a = ?a and r = r and anyone = w and t = t and s = s] assms(1,2) later decided(3)
      by (simp add: review_handler_def)
    moreover have "r \<in> set (ib_requests (snd (review_handler clk noteId i st b who s)))"
      "vr_id r = i" "vr_reviewedBy r = Some who"
      using decide_stored [of "\<lambda>k. clk (k + 2)" noteId i st who b s r] decided(2,3)
      by (simp_all add: review_handler_def inbox_decide_def)
    ultimately show ?thesis using decided(1) out by (simp add: reviewed_def)
  qed
qed

section \<open>The inbox as a step relation\<close>

text \<open>Every request the inbox answers; \<open>locking\<close> stands for all calls that only touch locks.\<close>

inductive inbox_step :: "inbox_state \<Rightarrow> inbox_state \<Rightarrow> bool" where
  approving: "inbox_step s (snd (approve clk noteId i msg note who s))"
| rejecting: "inbox_step s (snd (reject clk noteId i why msg note who s))"
| requesting: "inbox_step s (snd (requestResubmission clk noteId i why msg' note who s))"
| bulk: "inbox_step s (snd (bulkUpdateStatus clks noteIds act ids who b s))"
| noting: "inbox_step s (snd (addInternalNote now noteId i content who category s))"
| acquiring: "inbox_step s (snd (acquireInboxLock clk newId i dur who s))"
| locking: "inbox_step s (s\<lparr>ib_locks := l\<rparr>)"

inductive_cases inbox_stepE: "inbox_step s s'"

definition request_ids_distinct :: "inbox_state \<Rightarrow> bool" where
  "request_ids_distinct s \<longleftrightarrow> distinct (map vr_id (ib_requests s))"

text \<open>Requests stay, with their creation; an approved or rejected one stays as it is.\<close>

definition requests_le :: "inbox_state \<Rightarrow> inbox_state \<Rightarrow> bool" where
  "requests_le s s' \<longleftrightarrow> map vr_id (ib_requests s) = map vr_id (ib_requests s') \<and>
     (\<forall>r \<in> set (ib_requests s). vr_status r \<in> {V_approved, V_rejected} \<longrightarrow> r \<in> set (ib_requests s'))"

lemma requests_le_refl: "requests_le s s"
  by (simp add: requests_le_def)

lemma requests_le_trans: "requests_le s s' \<Longrightarrow> requests_le s' s'' \<Longrightarrow> requests_le s s''"
  by (auto simp: requests_le_def)

lemma requests_le_same: "ib_requests s' = ib_requests s \<Longrightarrow> requests_le s s'"
  by (simp add: requests_le_def)

lemma requests_le_ids: "requests_le s s' \<Longrightarrow> request_ids_distinct s = request_ids_distinct s'"
  by (simp add: requests_le_def request_ids_distinct_def)

lemma updateStatus_le:
  assumes "request_ids_distinct s"
  shows "requests_le s (snd (updateStatus clk noteId i st who b s))"
proof (cases rule: updateStatus_cases [where clk = clk and noteId = noteId and i = i and status = st
      and reviewer = who and b = b and s = s])
  case (updated v)
  then have v: "v \<in> set (ib_requests s)" "vr_id v = i" by (auto dest: find_row_SomeD)
  have "vr_id r \<noteq> i" if "r \<in> set (ib_requests s)" "vr_status r \<in> {V_approved, V_rejected}" for r
    using that v updated(2,3) assms key_unique [of vr_id "ib_requests s" r v]
    by (auto simp: request_ids_distinct_def)
  then show ?thesis
    by (auto simp: requests_le_def updated(5) map_update_where intro: in_update_where_kept)
qed (auto intro: requests_le_refl)

lemma bulk_loop_Cons:
  "bulk_loop clks noteIds k st (i # ids) who b s =
     (let u = updateStatus (clks k) (noteIds k) i st who b s;
          rest = bulk_loop clks noteIds (Suc k) st ids who b (snd u)
      in (case fst u of
            Inr v \<Rightarrow> ((vr_id v, vr_status v) # fst (fst rest), snd (fst rest))
          | Inl e \<Rightarrow> (fst (fst rest), (i, error_message e) # snd (fst rest)), snd rest))"
  by (simp add: Let_def case_prod_unfold split: sum.split prod.split)

declare bulk_loop.simps(2) [simp del]

lemma bulk_le: "request_ids_distinct s \<Longrightarrow> requests_le s (snd (bulk_loop clks noteIds k st ids who b s))"
proof (induction ids arbitrary: k s)
  case Nil
  then show ?case by (simp add: requests_le_refl)
next
  case (Cons i ids)
  let ?s1 = "snd (updateStatus (clks k) (noteIds k) i st who b s)"
  have le: "requests_le s ?s1" by (rule updateStatus_le [OF Cons.prems])
  with Cons.prems have "requests_le ?s1 (snd (bulk_loop clks noteIds (Suc k) st ids who b ?s1))"
    by (intro Cons.IH) (simp add: requests_le_ids)
  with le show ?case
    unfolding bulk_loop_Cons Let_def snd_conv by (rule requests_le_trans)
qed

text \<open>An id whose row is decided already is never reported as succeeded.\<close>

definition decided_id :: "ident \<Rightarrow> inbox_state \<Rightarrow> bool" where
  "decided_id i s \<longleftrightarrow> (\<exists>r \<in> set (ib_requests s). vr_id r = i \<and> vr_status r \<in> {V_approved, V_rejected})"

lemma decided_id_le: "requests_le s s' \<Longrightarrow> decided_id i s \<Longrightarrow> decided_id i s'"
  by (auto simp: decided_id_def requests_le_def)

lemma updated_undecided:
  assumes "fst (updateStatus clk noteId i st who b s) = Inr v" and "request_ids_distinct s"
  shows "\<not> decided_id i s"
    and "st \<in> {V_approved, V_rejected} \<Longrightarrow> decided_id i (snd (updateStatus clk noteId i st who b s))"
proof -
  show "\<not> decided_id i s"
  proof (cases rule: updateStatus_cases [where clk = clk and noteId = noteId and i = i and status = st
        and reviewer = who and b = b and s = s])
    case (updated w)
    then have w: "w \<in> set (ib_requests s)" "vr_id w = i" by (auto dest: find_row_SomeD)
    show ?thesis
    proof
      assume "decided_id i s"
      then obtain r where r: "r \<in> set (ib_requests s)" "vr_id r = i" "vr_status r \<in> {V_approved, V_rejected}"
        by (auto simp: decided_id_def)
      from key_unique [of vr_id "ib_requests s" r w] r(1,2) w assms(2) have "r = w"
        by (simp add: request_ids_distinct_def)
      with r(3) updated(2,3) show False by simp
    qed
  qed (use assms in simp_all)
  show "decided_id i (snd (updateStatus clk noteId i st who b s))" if "st \<in> {V_approved, V_rejected}"
    using decide_stored [OF assms(1)] that unfolding decided_id_def by blast
qed

lemma bulk_undecided:
  assumes "request_ids_distinct s" and "i \<in> fst ` set (fst (fst (bulk_loop clks noteIds k st ids who b s)))"
  shows "\<not> decided_id i s"
  using assms
proof (induction ids arbitrary: k s)
  case (Cons j ids)
  let ?u = "updateStatus (clks k) (noteIds k) j st who b s"
  have le: "requests_le s (snd ?u)" by (rule updateStatus_le [OF Cons.prems(1)])
  then have "request_ids_distinct (snd ?u)" using Cons.prems(1) by (simp add: requests_le_ids)
  note IH = Cons.IH [OF this, of "Suc k"]
  consider "i \<in> fst ` set (fst (fst (bulk_loop clks noteIds (Suc k) st ids who b (snd ?u))))"
    | v where "fst ?u = Inr v" "i = vr_id v"
    using Cons.prems(2) by (auto simp: bulk_loop_Cons Let_def split: sum.splits)
  then show ?case
  proof cases
    case 1
    with IH le show ?thesis using decided_id_le by blast
  next
    case (2 v)
    with decide_stored(2) [OF 2(1)] updated_undecided(1) [OF 2(1) Cons.prems(1)] show ?thesis by simp
  qed
qed simp

lemma bulk_reports:
  assumes "request_ids_distinct s"
    and out: "out = fst (bulk_loop clks noteIds k st ids who b s)"
  shows "mset (map fst (fst out)) + mset (map fst (snd out)) = mset ids"
    and "subseq (map fst (fst out)) ids" and "subseq (map fst (snd out)) ids"
    and "snd ` set (fst out) \<subseteq> {st}"
    and "st \<in> {V_approved, V_rejected} \<Longrightarrow> distinct (map fst (fst out))"
proof -
  have "mset (map fst (fst out)) + mset (map fst (snd out)) = mset ids \<and>
    subseq (map fst (fst out)) ids \<and> subseq (map fst (snd out)) ids \<and>
    snd ` set (fst out) \<subseteq> {st} \<and>
    (st \<in> {V_approved, V_rejected} \<longrightarrow> distinct (map fst (fst out)))"
    unfolding out using assms(1)
  proof (induction ids arbitrary: k s)
    case (Cons j ids)
    let ?u = "updateStatus (clks k) (noteIds k) j st who b s"
    have later: "subseq xs (j # ys)" if "subseq xs ys" for xs ys :: "ident list"
      using that by (rule list_emb_Cons)
    have "requests_le s (snd ?u)" by (rule updateStatus_le [OF Cons.prems])
    then have dist: "request_ids_distinct (snd ?u)" using Cons.prems by (simp add: requests_le_ids)
    note IH = Cons.IH [OF this, of "Suc k"]
    show ?case
    proof (cases "fst ?u")
      case (Inl e)
      with IH show ?thesis by (simp add: bulk_loop_Cons Let_def later)
    next
      case (Inr v)
      have "j \<notin> fst ` set (fst (fst (bulk_loop clks noteIds (Suc k) st ids who b (snd ?u))))"
        if "st \<in> {V_approved, V_rejected}"
        using bulk_undecided [OF dist] updated_undecided(2) [OF Inr Cons.prems that] by blast
      with IH Inr decide_stored(2,3) [OF Inr] show ?thesis
        by (simp add: bulk_loop_Cons Let_def later)
    qed
  qed simp
  then show "mset (map fst (fst out)) + mset (map fst (snd out)) = mset ids"
    and "subseq (map fst (fst out)) ids" and "subseq (map fst (snd out)) ids"
    and "snd ` set (fst out) \<subseteq> {st}"
    and "st \<in> {V_approved, V_rejected} \<Longrightarrow> distinct (map fst (fst out))" by blast+
qed

lemma handler_le:
  assumes "request_ids_distinct s"
  shows "requests_le s (snd (review_handler clk noteId i st b who s))"
proof -
  let ?u = "updateStatus (\<lambda>k. clk (k + 2)) noteId i st who b s"
  have "ib_requests (snd (review_handler clk noteId i st b who s)) \<in>
      {ib_requests s, ib_requests (snd ?u)}"
    by (simp add: review_handler_def guarded_review_def Let_def inbox_decide_def split: prod.split sum.split)
  moreover have "requests_le s (snd ?u)" by (rule updateStatus_le [OF assms])
  ultimately show ?thesis by (auto simp: requests_le_def)
qed

lemma inbox_step_le: "inbox_step s s' \<Longrightarrow> request_ids_distinct s \<Longrightarrow> requests_le s s'"
proof (erule inbox_stepE)
  fix now noteId i content who category
  assume "s' = snd (addInternalNote now noteId i content who category s)"
  then show "requests_le s s'"
    by (intro requests_le_same) (simp add: addInternalNote_def Let_def split: option.split)
next
  fix clk newId i dur who
  assume "s' = snd (acquireInboxLock clk newId i dur who s)"
  then show "requests_le s s'"
    by (intro requests_le_same) (simp add: acquireInboxLock_def split: sum.split prod.split)
qed (simp_all add: handlers handler_le bulkUpdateStatus_def bulk_le requests_le_same)

interpretation inbox_runs: mono_system inbox_step request_ids_distinct requests_le
proof
  show "request_ids_distinct s'" if "inbox_step s s'" "request_ids_distinct s" for s s'
    using that inbox_step_le requests_le_ids by blast
qed (auto intro: requests_le_refl requests_le_trans inbox_step_le)

section \<open>Properties\<close>

text \<open>
  C7. A decision needs the lock and gives it back. Whatever \<open>approve\<close>, \<open>reject\<close> or
  \<open>requestResubmission\<close> is called with, it either leaves the whole state as it was, or the
  caller held the live lock of the request when it was verified, the decided row carries the
  caller's name, and after the handler nobody holds the request.
\<close>

theorem decision_needs_lock:
  assumes "inbox_lock_inv t s" and "t \<le> clk 0" and "mono clk"
    and "h \<in> {approve clk noteId i msg note who, reject clk noteId i why msg note who,
      requestResubmission clk noteId i why msg' note who}"
  shows "case fst (h s) of
      Inr (Lock_released r) \<Rightarrow>
        inbox_holds who i (clk 0) s \<and> (\<forall>w. \<not> inbox_holds w i (clk 6) (snd (h s))) \<and>
        r \<in> set (ib_requests (snd (h s))) \<and> vr_id r = i \<and> vr_reviewedBy r = Some who
    | _ \<Rightarrow> snd (h s) = s"
  using assms(4) handler_reviewed [OF assms(1-3)]
  by (auto simp: handlers reviewed_def [symmetric])

definition ada_desk :: inbox_state where
  "ada_desk = \<lparr>ib_requests = [\<lparr>vr_id = ''v'', vr_createdAt = 0, vr_deletedAt = None,
       vr_status = V_pending_review, vr_reviewedAt = None, vr_reviewedBy = None,
       vr_rejectionReason = None, vr_nextStepMessage = None\<rparr>], ib_notes = [],
     ib_locks = snd (acquireLock (\<lambda>_. 0) ''L1'' VERIFICATION ''v'' None ''ada'' no_locks),
     ib_hub = new_hub\<rparr>"

lemma ada_desk_inv: "inbox_lock_inv 0 ada_desk"
proof -
  have "lock_step False (0, no_locks) (0, ib_locks ada_desk)"
    using lock_step.acquire [where clk = "\<lambda>_. 0" and t = 0 and s = no_locks and newId = "''L1''"]
    by (simp add: ada_desk_def no_locks_def mono_def)
  from strict_locks.step_keeps [OF this no_locks_inv] show ?thesis by (simp add: inbox_lock_inv_def)
qed

theorem decision_needs_lock_witness:
  "\<forall>w. \<not> inbox_holds w ''v'' 1 (snd (approve (\<lambda>_. 1) ''n'' ''v'' None None ''ada'' ada_desk))"
proof -
  let ?h = "approve (\<lambda>_. 1) ''n'' ''v'' None None ''ada''"
  have out: "\<exists>r. fst (?h ada_desk) = Inr (Lock_released r)"
    by (simp add: approve_def guarded_review_def inbox_verify_def verifyLockOwnership_def ada_desk_def
        acquireLock_def lookup_lock_def insertLock_def no_locks_def locks_cleanup Let_def find_row_Cons live_on_def
        updateStatus_def)
  then show ?thesis
    using decision_needs_lock [OF ada_desk_inv, of "\<lambda>_. 1" ?h "''n''" "''v''" None None "''ada''"]
    by (auto simp: mono_def)
qed

text \<open>
  C24. A decision is final. Once a request is approved or rejected, no sequence of calls of the
  inbox, single or bulk, changes anything of its row.
\<close>

theorem decision_final:
  assumes "inbox_step\<^sup>*\<^sup>* s s'" and "request_ids_distinct s"
    and "r \<in> set (ib_requests s)" and "vr_status r \<in> {V_approved, V_rejected}"
  shows "r \<in> set (ib_requests s')"
  using inbox_runs.run_le [OF assms(1,2)] assms(3,4) by (auto simp: requests_le_def)

theorem decision_final_witness:
  "let s = ada_desk\<lparr>ib_requests := map (vr_status_update (\<lambda>_. V_rejected)) (ib_requests ada_desk)\<rparr>
   in hd (ib_requests s) \<in> set (ib_requests (snd (bulkUpdateStatus (\<lambda>_ _. 5) (\<lambda>_. ''n'') Bulk_requeue [''v''] ''bob''
        \<lparr>rb_nextStepMessage = None, rb_rejectionReason = None, rb_internalNote = None\<rparr> s)))"
proof -
  let ?s = "ada_desk\<lparr>ib_requests := map (vr_status_update (\<lambda>_. V_rejected)) (ib_requests ada_desk)\<rparr>"
  let ?s' = "snd (bulkUpdateStatus (\<lambda>_ _. 5) (\<lambda>_. ''n'') Bulk_requeue [''v''] ''bob''
        \<lparr>rb_nextStepMessage = None, rb_rejectionReason = None, rb_internalNote = None\<rparr> ?s)"
  have "inbox_step\<^sup>*\<^sup>* ?s ?s'" by (intro r_into_rtranclp bulk)
  then have "hd (ib_requests ?s) \<in> set (ib_requests ?s')"
    by (rule decision_final) (simp_all add: request_ids_distinct_def ada_desk_def)
  then show ?thesis by (simp add: Let_def)
qed

text \<open>
  \<open>bulkUpdateStatus\<close> reports every id of its list exactly once, as succeeded or as failed,
  in the order of the list; an approval or a rejection never succeeds twice for one request, so
  a repeated id is reported as failed.
\<close>

theorem bulk_reports_each_once:
  assumes "bulkUpdateStatus clks noteIds act ids who b s = ((succeeded, failed), s')"
    and "request_ids_distinct s"
  shows "mset (map fst succeeded) + mset (map fst failed) = mset ids \<and>
    subseq (map fst succeeded) ids \<and> subseq (map fst failed) ids \<and>
    snd ` set succeeded \<subseteq> {bulk_status act} \<and>
    (if act = Bulk_requeue then True else distinct (map fst succeeded))"
proof -
  have "fst (bulk_loop clks noteIds 0 (bulk_status act) ids who b s) = (succeeded, failed)"
    using assms(1) by (simp add: bulkUpdateStatus_def)
  moreover have "bulk_status act \<in> {V_approved, V_rejected}" if "act \<noteq> Bulk_requeue"
    using that by (cases act) (simp_all add: bulk_status_def)
  ultimately show ?thesis
    using bulk_reports [where clks = clks and noteIds = noteIds and k = 0 and st = "bulk_status act"
        and ids = ids and who = who and b = b, OF assms(2) refl] by auto
qed

theorem bulk_reports_each_once_witness:
  "distinct (map fst (fst (fst (bulkUpdateStatus (\<lambda>_ _. 5) (\<lambda>_. ''n'') Bulk_approve [''v'', ''v'', ''w''] ''bob''
     \<lparr>rb_nextStepMessage = None, rb_rejectionReason = None, rb_internalNote = None\<rparr> ada_desk))))"
proof -
  let ?out = "bulkUpdateStatus (\<lambda>_ _. 5) (\<lambda>_. ''n'') Bulk_approve [''v'', ''v'', ''w''] ''bob''
     \<lparr>rb_nextStepMessage = None, rb_rejectionReason = None, rb_internalNote = None\<rparr> ada_desk"
  have "?out = ((fst (fst ?out), snd (fst ?out)), snd ?out)" by simp
  moreover have "request_ids_distinct ada_desk" by (simp add: request_ids_distinct_def ada_desk_def)
  ultimately have "if Bulk_approve = Bulk_requeue then True else distinct (map fst (fst (fst ?out)))"
    using bulk_reports_each_once by blast
  then show ?thesis by simp
qed

text \<open>
  Paging shows the inbox once: the pages 1 to \<open>totalPages\<close>, put one after the other, are
  the requests of the filter, newest first, each exactly once.
\<close>

theorem pages_cover_inbox:
  assumes "0 < limit"
  shows "concat (map (\<lambda>p. map it_id (ir_items (projr (getInbox now st p limit s))))
      [1..<Suc (the (ir_totalPages (projr (getInbox now st 1 limit s))))]) =
    map vr_id (sort_key (\<lambda>r. - vr_createdAt r) (filter (in_inbox st) (ib_requests s)))"
proof -
  let ?rows = "sort_key (\<lambda>r. - vr_createdAt r) (filter (in_inbox st) (ib_requests s))"
  let ?n = "(length ?rows + limit - 1) div limit"
  have page: "map it_id (ir_items (projr (getInbox now st p limit s))) =
      take limit (drop ((p - 1) * limit) (map vr_id ?rows))" if "1 \<le> p" for p
    using that by (simp add: getInbox_def Let_def inbox_item_of_def o_def take_map drop_map)
  have pages: "concat (map (\<lambda>p. take limit (drop ((p - 1) * limit) xs)) [1..<Suc n]) = take (n * limit) xs"
    for xs :: "ident list" and n
  proof (induction n)
    case (Suc n)
    then show ?case by (simp add: take_add add.commute [of limit])
  qed simp
  have "length ?rows + limit - 1 < Suc ?n * limit"
    using assms by (simp add: dividend_less_div_times)
  then have all_rows: "length (map vr_id ?rows) \<le> ?n * limit" by simp
  have total: "the (ir_totalPages (projr (getInbox now st 1 limit s))) = ?n"
    using assms by (simp add: getInbox_def Let_def)
  have shown: "map (\<lambda>p. map it_id (ir_items (projr (getInbox now st p limit s)))) [1..<Suc ?n] =
      map (\<lambda>p. take limit (drop ((p - 1) * limit) (map vr_id ?rows))) [1..<Suc ?n]"
    by (intro map_cong refl page) (auto simp del: upt_Suc)
  show ?thesis unfolding total shown pages using all_rows by (rule take_all)
qed

theorem pages_cover_inbox_witness:
  "map it_id (ir_items (projr (getInbox 5 None 1 20 ada_desk))) = [''v'']"
  using pages_cover_inbox [of 20 5 None ada_desk]
  by (simp add: ada_desk_def getInbox_def Let_def in_inbox_def inbox_item_of_def)

end
