(* ===== verification/SorobanTx.thy ===== *)
theory SorobanTx
  imports Prelude
begin

text \<open>
  The life cycle of on-chain transactions: \<open>onchain/soroban-transaction-lifecycle.service.ts\<close>,
  the job queue of \<open>soroban-transaction.scheduler.ts\<close> and the worker of
  \<open>soroban-transaction.processor.ts\<close>. The state is the table of transactions, the calls made to
  the chain and the queued jobs. The on-chain adapter is a parameter: a function from the calls
  made so far and the present one to an error message or a transaction hash.
\<close>

section \<open>Data\<close>

datatype tx_status = T_pending | T_submitted | T_confirmed | T_failed | T_expired

datatype tx_operation = Create_claim | Disburse_claim | Init_escrow

datatype retryable_error =
  Network_timeout | Rate_limit | Congestion | Temporary_failure | Tx_too_late | Insufficient_fee

record soroban_tx =
  tx_id :: ident
  tx_claimId :: "ident option"
  tx_operation :: tx_operation
  tx_packageId :: "string option"
  tx_txHash :: "string option"
  tx_status :: tx_status
  tx_attemptCount :: nat
  tx_maxAttempts :: nat
  tx_lastRetryAt :: "time option"
  tx_nextRetryAt :: "time option"
  tx_lastError :: "string option"
  tx_errorType :: "retryable_error option"
  tx_isRetryable :: bool
  tx_operatorAddress :: "string option"
  tx_recipientAddress :: "string option"
  tx_amount :: "string option"
  tx_tokenAddress :: "string option"
  tx_submittedAt :: "time option"
  tx_confirmedAt :: "time option"
  tx_failedAt :: "time option"
  tx_expiredAt :: "time option"
  tx_correlationId :: "string option"
  tx_receiptPointer :: "string option"
  tx_createdAt :: time
  tx_updatedAt :: time

text \<open>A call of the adapter: the parameters the code passes, absent ones included.\<close>

datatype chain_call =
  Call_createClaim "ident option" "string option" "string option" "string option" int
| Call_disburse "ident option" "string option" "string option" "string option"
| Call_initEscrow "string option"

type_synonym chain_adapter = "(ident \<times> chain_call) list \<Rightarrow> chain_call \<Rightarrow> string + string"

datatype job_operation = Job_execute | Job_retry | Job_cleanup

record tx_job =
  jb_transactionId :: ident
  jb_operation :: job_operation
  jb_correlationId :: "string option"
  jb_delay :: int
  jb_priority :: nat

record soroban_state =
  sb_txs :: "soroban_tx list"
  sb_chain :: "(ident \<times> chain_call) list"
  sb_jobs :: "tx_job list"

record create_tx_params =
  cp_claimId :: "ident option"
  cp_operation :: tx_operation
  cp_packageId :: "string option"
  cp_operatorAddress :: "string option"
  cp_recipientAddress :: "string option"
  cp_amount :: "string option"
  cp_tokenAddress :: "string option"
  cp_correlationId :: "string option"
  cp_receiptPointer :: "string option"
  cp_maxAttempts :: "nat option"

definition BASE_RETRY_DELAY_MS :: int where "BASE_RETRY_DELAY_MS = 2000"
definition MAX_RETRY_DELAY_MS :: int where "MAX_RETRY_DELAY_MS = 300000"
definition BACKOFF_MULTIPLIER :: int where "BACKOFF_MULTIPLIER = 2"
definition TRANSACTION_EXPIRY_MS :: int where "TRANSACTION_EXPIRY_MS = 24 * 60 * 60 * 1000"
definition DEFAULT_STUCK_TRANSACTION_THRESHOLD_MS :: int where
  "DEFAULT_STUCK_TRANSACTION_THRESHOLD_MS = 300000"

text \<open>The configured threshold as \<open>parseInt\<close> reads it: \<open>None\<close> when it is missing or no number.\<close>

definition resolveStuckThresholdMs :: "int option \<Rightarrow> int" where
  "resolveStuckThresholdMs parsed =
     (case parsed of
        None \<Rightarrow> DEFAULT_STUCK_TRANSACTION_THRESHOLD_MS
      | Some n \<Rightarrow> if n \<le> 0 then DEFAULT_STUCK_TRANSACTION_THRESHOLD_MS else n)"

section \<open>Creation and execution\<close>

definition createTransaction ::
  "time \<Rightarrow> ident \<Rightarrow> create_tx_params \<Rightarrow> soroban_state \<Rightarrow> soroban_tx \<times> soroban_state" where
  "createTransaction now newId p s =
     (let t = \<lparr>tx_id = newId, tx_claimId = cp_claimId p, tx_operation = cp_operation p,
          tx_packageId = cp_packageId p, tx_txHash = None, tx_status = T_pending,
          tx_attemptCount = 0,
          tx_maxAttempts = (case cp_maxAttempts p of None \<Rightarrow> 5 | Some n \<Rightarrow> if n = 0 then 5 else n),
          tx_lastRetryAt = None, tx_nextRetryAt = Some now, tx_lastError = None,
          tx_errorType = None, tx_isRetryable = True,
          tx_operatorAddress = cp_operatorAddress p, tx_recipientAddress = cp_recipientAddress p,
          tx_amount = cp_amount p, tx_tokenAddress = cp_tokenAddress p,
          tx_submittedAt = None, tx_confirmedAt = None, tx_failedAt = None, tx_expiredAt = None,
          tx_correlationId = cp_correlationId p, tx_receiptPointer = cp_receiptPointer p,
          tx_createdAt = now, tx_updatedAt = now\<rparr>
      in (t, s\<lparr>sb_txs := sb_txs s @ [t]\<rparr>))"

definition update_tx :: "ident \<Rightarrow> (soroban_tx \<Rightarrow> soroban_tx) \<Rightarrow> soroban_state \<Rightarrow> soroban_state" where
  "update_tx i f s = s\<lparr>sb_txs := update_where (\<lambda>t. tx_id t = i) f (sb_txs s)\<rparr>"

definition find_tx :: "ident \<Rightarrow> soroban_state \<Rightarrow> soroban_tx option" where
  "find_tx i s = find_row (\<lambda>t. tx_id t = i) (sb_txs s)"

definition updateTransactionStatus :: "time \<Rightarrow> ident \<Rightarrow> tx_status \<Rightarrow> soroban_state \<Rightarrow> soroban_state" where
  "updateTransactionStatus now i st = update_tx i (\<lambda>t.
     t\<lparr>tx_status := st,
       tx_submittedAt := (if st = T_submitted then Some now else tx_submittedAt t),
       tx_confirmedAt := (if st = T_confirmed then Some now else tx_confirmedAt t),
       tx_failedAt := (if st = T_failed then Some now else tx_failedAt t),
       tx_updatedAt := now\<rparr>)"

definition classifyError :: "string \<Rightarrow> retryable_error option \<times> bool" where
  "classifyError msg =
     (let lowerError = toLowerCase msg
      in if str_includes lowerError ''timeout'' \<or> str_includes lowerError ''network'' then
           (Some Network_timeout, True)
         else if str_includes lowerError ''rate limit'' \<or> str_includes lowerError ''too many requests'' then
           (Some Rate_limit, True)
         else if str_includes lowerError ''congestion'' \<or> str_includes lowerError ''busy'' then
           (Some Congestion, True)
         else if str_includes lowerError ''tx_too_late'' \<or> str_includes lowerError ''sequence'' then
           (Some Tx_too_late, True)
         else if str_includes lowerError ''insufficient fee'' \<or> str_includes lowerError ''fee too low'' then
           (Some Insufficient_fee, True)
         else if str_includes lowerError ''temporary'' \<or> str_includes lowerError ''retry'' then
           (Some Temporary_failure, True)
         else (None, False))"

text \<open>
  The delay before the next attempt. \<open>jitter\<close> is \<open>Math.random() * 1000\<close> in whole milliseconds:
  a \<open>Date\<close> drops the fraction, and the cap is whole.
\<close>

definition retry_delay :: "nat \<Rightarrow> int \<Rightarrow> int" where
  "retry_delay attemptNumber jitter =
     min (BASE_RETRY_DELAY_MS * BACKOFF_MULTIPLIER ^ (attemptNumber - 1) + jitter) MAX_RETRY_DELAY_MS"

text \<open>Readings of the clock: 0 for \<open>nextRetryAt\<close>, 1 for \<open>lastRetryAt\<close>, 2 for \<open>failedAt\<close>.\<close>

definition handleTransactionError ::
  "clock \<Rightarrow> int \<Rightarrow> ident \<Rightarrow> string \<Rightarrow> nat \<Rightarrow> soroban_state \<Rightarrow> (app_error + unit) \<times> soroban_state" where
  "handleTransactionError clk jitter i errorMessage attemptNumber s =
     (let (errorType, isRetryable) = classifyError errorMessage
      in case find_tx i s of
           None \<Rightarrow> (Inl (PlainError (''Transaction '' @ i @ '' not found during error handling'')), s)
         | Some t \<Rightarrow>
             let shouldRetry = isRetryable \<and> attemptNumber < tx_maxAttempts t;
                 nextRetryAt =
                   (if shouldRetry then Some (clk 0 + retry_delay attemptNumber jitter) else None)
             in (Inr (), update_tx i (\<lambda>t.
                   t\<lparr>tx_status := (if shouldRetry then T_pending else T_failed),
                     tx_attemptCount := attemptNumber, tx_lastRetryAt := Some (clk 1),
                     tx_lastError := Some errorMessage, tx_errorType := errorType,
                     tx_isRetryable := shouldRetry, tx_nextRetryAt := nextRetryAt,
                     tx_failedAt := (if shouldRetry then None else Some (clk 2)),
                     tx_updatedAt := clk 2\<rparr>) s))"

definition chain_call_of :: "time \<Rightarrow> soroban_tx \<Rightarrow> chain_call" where
  "chain_call_of now t =
     (case tx_operation t of
        Create_claim \<Rightarrow> Call_createClaim (tx_claimId t) (tx_recipientAddress t) (tx_amount t)
          (tx_tokenAddress t) (now div 1000 + 30 * 24 * 60 * 60)
      | Disburse_claim \<Rightarrow> Call_disburse (tx_claimId t) (tx_packageId t) (tx_tokenAddress t)
          (tx_receiptPointer t)
      | Init_escrow \<Rightarrow> Call_initEscrow (tx_operatorAddress t))"

text \<open>The guard of an attempt, on the row as it was read.\<close>

definition attempts_left :: "soroban_tx \<Rightarrow> bool" where
  "attempts_left t \<longleftrightarrow> tx_isRetryable t \<and> tx_attemptCount t < tx_maxAttempts t"

definition send_call :: "ident \<Rightarrow> chain_call \<Rightarrow> soroban_state \<Rightarrow> soroban_state" where
  "send_call i call s = s\<lparr>sb_chain := sb_chain s @ [(i, call)]\<rparr>"

definition settle_attempt ::
  "clock \<Rightarrow> int \<Rightarrow> ident \<Rightarrow> nat \<Rightarrow> string + string \<Rightarrow> soroban_state \<Rightarrow> (app_error + unit) \<times> soroban_state" where
  "settle_attempt clk jitter i attemptNumber answer s =
     (case answer of
        Inr hash \<Rightarrow>
          (Inr (), update_tx i (\<lambda>t.
             t\<lparr>tx_status := T_confirmed, tx_txHash := Some hash, tx_confirmedAt := Some (clk 2),
               tx_attemptCount := attemptNumber, tx_lastRetryAt := Some (clk 3),
               tx_lastError := None, tx_errorType := None, tx_updatedAt := clk 3\<rparr>) s)
      | Inl msg \<Rightarrow> handleTransactionError (\<lambda>k. clk (k + 4)) jitter i msg attemptNumber s)"

text \<open>
  One attempt: reading 0 stamps the submission, 1 the on-chain expiry, 2 and 3 the success;
  a failure takes readings 4 to 6. Here its parts follow each other at once; the theory \<open>TxOverlap\<close> takes
  them as steps between which other requests run.
\<close>

definition executeTransactionInContext ::
  "chain_adapter \<Rightarrow> clock \<Rightarrow> int \<Rightarrow> ident \<Rightarrow> soroban_tx \<Rightarrow> soroban_state
   \<Rightarrow> (app_error + unit) \<times> soroban_state" where
  "executeTransactionInContext adapter clk jitter i t s =
     (if \<not> attempts_left t then (Inr (), s)
      else
        let attemptNumber = tx_attemptCount t + 1;
            s1 = updateTransactionStatus (clk 0) i T_submitted s;
            call = chain_call_of (clk 1) t;
            answer = adapter (sb_chain s1) call
        in settle_attempt clk jitter i attemptNumber answer (send_call i call s1))"

definition executeTransaction ::
  "chain_adapter \<Rightarrow> clock \<Rightarrow> int \<Rightarrow> ident \<Rightarrow> soroban_state \<Rightarrow> (app_error + unit) \<times> soroban_state" where
  "executeTransaction adapter clk jitter i s =
     (case find_tx i s of
        None \<Rightarrow> (Inl (PlainError (''Soroban transaction '' @ i @ '' not found'')), s)
      | Some t \<Rightarrow> executeTransactionInContext adapter clk jitter i t s)"

section \<open>Retry, expiry and stuck transactions\<close>

definition retry_due :: "time \<Rightarrow> soroban_tx \<Rightarrow> bool" where
  "retry_due now t \<longleftrightarrow> tx_status t = T_pending \<and> tx_isRetryable t \<and>
     (case tx_nextRetryAt t of None \<Rightarrow> False | Some r \<Rightarrow> r \<le> now) \<and>
     tx_attemptCount t < tx_maxAttempts t"

definition getRetryableTransactions :: "time \<Rightarrow> soroban_state \<Rightarrow> soroban_tx list" where
  "getRetryableTransactions now s =
     take 50 (sort_key (\<lambda>t. the (tx_nextRetryAt t)) (filter (retry_due now) (sb_txs s)))"

definition expirable :: "time \<Rightarrow> soroban_tx \<Rightarrow> bool" where
  "expirable expiredAt t \<longleftrightarrow>
     (tx_status t = T_pending \<or> tx_status t = T_submitted) \<and> tx_createdAt t < expiredAt"

definition markExpiredTransactions :: "clock \<Rightarrow> soroban_state \<Rightarrow> nat \<times> soroban_state" where
  "markExpiredTransactions clk s =
     (let p = expirable (clk 0 - TRANSACTION_EXPIRY_MS)
      in (count_where p (sb_txs s),
          s\<lparr>sb_txs := update_where p (\<lambda>t.
              t\<lparr>tx_status := T_expired, tx_expiredAt := Some (clk 1), tx_isRetryable := False,
                tx_updatedAt := clk 1\<rparr>) (sb_txs s)\<rparr>))"

datatype stuck_class = Stuck_retryable | Stuck_terminal

definition classifyStuckTransaction :: "soroban_tx \<Rightarrow> stuck_class" where
  "classifyStuckTransaction t =
     (if tx_isRetryable t \<and> tx_attemptCount t < tx_maxAttempts t then Stuck_retryable
      else Stuck_terminal)"

record stuck_summary =
  ss_tx :: soroban_tx
  ss_stuckAgeMs :: int
  ss_classification :: stuck_class

record stuck_result =
  sr_stuckCount :: nat
  sr_retryableCount :: nat
  sr_terminalCount :: nat
  sr_thresholdMs :: int
  sr_byOperation :: "(tx_operation \<times> nat) list"
  sr_transactions :: "stuck_summary list"

definition is_stuck :: "time \<Rightarrow> soroban_tx \<Rightarrow> bool" where
  "is_stuck stuckThreshold t \<longleftrightarrow>
     (tx_status t = T_pending \<or> tx_status t = T_submitted) \<and> tx_updatedAt t < stuckThreshold"

fun bump :: "tx_operation \<Rightarrow> (tx_operation \<times> nat) list \<Rightarrow> (tx_operation \<times> nat) list" where
  "bump op [] = []"
| "bump op ((o', n) # m) = (if o' = op then (o', n + 1) # m else (o', n) # bump op m)"

definition detectStuckTransactions :: "int option \<Rightarrow> time \<Rightarrow> soroban_state \<Rightarrow> stuck_result" where
  "detectStuckTransactions config now s =
     (let thresholdMs = resolveStuckThresholdMs config;
          stuck = sort_key tx_updatedAt (filter (is_stuck (now - thresholdMs)) (sb_txs s));
          transactions = map (\<lambda>t. \<lparr>ss_tx = t, ss_stuckAgeMs = now - tx_updatedAt t,
                                    ss_classification = classifyStuckTransaction t\<rparr>) stuck
      in \<lparr>sr_stuckCount = length transactions,
          sr_retryableCount = count_where (\<lambda>x. ss_classification x = Stuck_retryable) transactions,
          sr_terminalCount = count_where (\<lambda>x. ss_classification x = Stuck_terminal) transactions,
          sr_thresholdMs = thresholdMs,
          sr_byOperation = fold (\<lambda>t. bump (tx_operation t)) stuck
             [(Create_claim, 0), (Disburse_claim, 0), (Init_escrow, 0)],
          sr_transactions = transactions\<rparr>)"

definition getClaimTransactions :: "ident \<Rightarrow> soroban_state \<Rightarrow> soroban_tx list" where
  "getClaimTransactions c s =
     sort_key (\<lambda>t. - tx_createdAt t) (filter (\<lambda>t. tx_claimId t = Some c) (sb_txs s))"

definition retryTransaction ::
  "chain_adapter \<Rightarrow> clock \<Rightarrow> int \<Rightarrow> ident \<Rightarrow> bool \<Rightarrow> soroban_state \<Rightarrow> (app_error + unit) \<times> soroban_state" where
  "retryTransaction adapter clk jitter i forceRetry s =
     (case find_tx i s of
        None \<Rightarrow> (Inl (PlainError (''Transaction '' @ i @ '' not found'')), s)
      | Some t \<Rightarrow>
          if \<not> forceRetry \<and> \<not> tx_isRetryable t then
            (Inl (PlainError (''Transaction '' @ i @ '' is not retryable'')), s)
          else if \<not> forceRetry \<and> tx_maxAttempts t \<le> tx_attemptCount t then
            (Inl (PlainError (''Transaction '' @ i @ '' has exceeded maximum attempts'')), s)
          else
            executeTransaction adapter (\<lambda>k. clk (k + 1)) jitter i
              (update_tx i (\<lambda>t.
                 t\<lparr>tx_status := T_pending, tx_nextRetryAt := Some (clk 0), tx_isRetryable := True,
                   tx_attemptCount := (if forceRetry then 0 else tx_attemptCount t),
                   tx_updatedAt := clk 0\<rparr>) s))"

section \<open>The queue and its worker\<close>

definition scheduleTransaction ::
  "ident \<Rightarrow> int option \<Rightarrow> nat option \<Rightarrow> string option \<Rightarrow> soroban_state \<Rightarrow> tx_job \<times> soroban_state" where
  "scheduleTransaction i delay priority correlationId s =
     (let job = \<lparr>jb_transactionId = i, jb_operation = Job_execute, jb_correlationId = correlationId,
                 jb_delay = (case delay of None \<Rightarrow> 0 | Some d \<Rightarrow> d),
                 jb_priority = (case priority of None \<Rightarrow> 0 | Some n \<Rightarrow> n)\<rparr>
      in (job, s\<lparr>sb_jobs := sb_jobs s @ [job]\<rparr>))"

definition scheduleRetryableTransactions :: "clock \<Rightarrow> soroban_state \<Rightarrow> soroban_state" where
  "scheduleRetryableTransactions clk s =
     s\<lparr>sb_jobs := sb_jobs s @ map (\<lambda>t.
         \<lparr>jb_transactionId = tx_id t, jb_operation = Job_retry, jb_correlationId = tx_correlationId t,
          jb_delay = (case tx_nextRetryAt t of None \<Rightarrow> 0 | Some r \<Rightarrow> max 0 (r - clk 1)),
          jb_priority = 0\<rparr>) (getRetryableTransactions (clk 0) s)\<rparr>"

definition cleanupExpiredTransactions :: "time \<Rightarrow> soroban_state \<Rightarrow> soroban_state" where
  "cleanupExpiredTransactions now s =
     s\<lparr>sb_jobs := sb_jobs s @ [\<lparr>jb_transactionId = ''cleanup'', jb_operation = Job_cleanup,
        jb_correlationId = Some (''cleanup-'' @ show_int now), jb_delay = 0, jb_priority = 0\<rparr>]\<rparr>"

record job_result =
  jr_success :: bool
  jr_transactionId :: ident
  jr_txHash :: "string option"
  jr_error :: "string option"

definition runJob ::
  "chain_adapter \<Rightarrow> clock \<Rightarrow> int \<Rightarrow> tx_job \<Rightarrow> soroban_state \<Rightarrow> job_result \<times> soroban_state" where
  "runJob adapter clk jitter job s =
     (let i = jb_transactionId job;
          (r, s1) = (case jb_operation job of
                       Job_cleanup \<Rightarrow> (Inr (), snd (markExpiredTransactions clk s))
                     | _ \<Rightarrow> executeTransaction adapter clk jitter i s)
      in (case r of
            Inl e \<Rightarrow> \<lparr>jr_success = False, jr_transactionId = i, jr_txHash = None,
                      jr_error = Some (error_message e)\<rparr>
          | Inr _ \<Rightarrow> \<lparr>jr_success = True, jr_transactionId = i,
                      jr_txHash = (if jb_operation job = Job_cleanup then None
                                   else Option.bind (find_tx i s1) tx_txHash),
                      jr_error = None\<rparr>, s1))"

section \<open>What an execution does\<close>

text \<open>One attempt on the row of a transaction: what \<open>g\<close> may change, and what it must.\<close>

definition attempt_row :: "nat \<Rightarrow> (soroban_tx \<Rightarrow> soroban_tx) \<Rightarrow> bool" where
  "attempt_row n g \<longleftrightarrow> (\<forall>x. tx_id (g x) = tx_id x \<and> tx_maxAttempts (g x) = tx_maxAttempts x \<and>
     tx_operation (g x) = tx_operation x \<and> tx_claimId (g x) = tx_claimId x \<and>
     tx_attemptCount (g x) = n \<and> (tx_isRetryable x \<longrightarrow> \<not> tx_isRetryable (g x) \<longrightarrow> tx_status (g x) = T_failed))"

lemma execute_refused:
  assumes "find_tx i s = None \<or> (\<exists>t. find_tx i s = Some t \<and> \<not> attempts_left t)"
  shows "snd (executeTransaction adapter clk jitter i s) = s"
  using assms
  by (auto simp: executeTransaction_def executeTransactionInContext_def attempts_left_def settle_attempt_def send_call_def)

lemma find_tx_update:
  assumes "\<And>t. tx_id (f t) = tx_id t"
  shows "find_tx i (update_tx j f s) = map_option (\<lambda>t. if tx_id t = j then f t else t) (find_tx i s)"
  unfolding find_tx_def update_tx_def using assms by (simp add: find_row_update_where)

lemma find_tx_SomeD: "find_tx i s = Some t \<Longrightarrow> t \<in> set (sb_txs s)" "find_tx i s = Some t \<Longrightarrow> tx_id t = i"
  unfolding find_tx_def by (auto dest: find_row_SomeD)

definition submit_row :: "time \<Rightarrow> soroban_tx \<Rightarrow> soroban_tx" where
  "submit_row now t = t\<lparr>tx_status := T_submitted, tx_submittedAt := Some now, tx_updatedAt := now\<rparr>"

definition confirm_row :: "clock \<Rightarrow> string \<Rightarrow> nat \<Rightarrow> soroban_tx \<Rightarrow> soroban_tx" where
  "confirm_row clk hash n t =
     t\<lparr>tx_status := T_confirmed, tx_txHash := Some hash, tx_confirmedAt := Some (clk 2),
       tx_attemptCount := n, tx_lastRetryAt := Some (clk 3),
       tx_lastError := None, tx_errorType := None, tx_updatedAt := clk 3\<rparr>"

definition fail_row :: "clock \<Rightarrow> int \<Rightarrow> string \<Rightarrow> nat \<Rightarrow> bool \<Rightarrow> soroban_tx \<Rightarrow> soroban_tx" where
  "fail_row clk jitter msg n retry t =
     t\<lparr>tx_status := (if retry then T_pending else T_failed), tx_attemptCount := n,
       tx_lastRetryAt := Some (clk 5), tx_lastError := Some msg,
       tx_errorType := fst (classifyError msg), tx_isRetryable := retry,
       tx_nextRetryAt := (if retry then Some (clk 4 + retry_delay n jitter) else None),
       tx_failedAt := (if retry then None else Some (clk 6)), tx_updatedAt := clk 6\<rparr>"

lemmas attempt_rows = submit_row_def confirm_row_def fail_row_def

lemma attempt_row_ids [simp]:
  "tx_id (submit_row now t) = tx_id t" "tx_id (confirm_row clk hash n t) = tx_id t"
  "tx_id (fail_row clk jitter msg n retry t) = tx_id t"
  by (simp_all add: attempt_rows)

text \<open>The two ways an attempt ends.\<close>

lemma execute_success:
  assumes "find_tx i s = Some t" and "attempts_left t"
    and "adapter (sb_chain s) (chain_call_of (clk 1) t) = Inr hash"
  shows "snd (executeTransaction adapter clk jitter i s) =
    s\<lparr>sb_txs := update_where (\<lambda>x. tx_id x = i)
         (\<lambda>x. confirm_row clk hash (Suc (tx_attemptCount t)) (submit_row (clk 0) x)) (sb_txs s),
      sb_chain := sb_chain s @ [(i, chain_call_of (clk 1) t)]\<rparr>"
  using assms
  by (simp add: executeTransaction_def executeTransactionInContext_def attempts_left_def settle_attempt_def send_call_def Let_def
      updateTransactionStatus_def update_tx_def attempt_rows update_where_twice)

lemma handle_error:
  assumes "find_tx i s = Some t"
  shows "snd (handleTransactionError (\<lambda>k. clk (k + 4)) jitter i msg n s) =
    update_tx i (fail_row clk jitter msg n (snd (classifyError msg) \<and> n < tx_maxAttempts t)) s"
  by (simp add: handleTransactionError_def assms case_prod_unfold Let_def fail_row_def [abs_def])

lemma execute_failure:
  assumes "find_tx i s = Some t" and "attempts_left t"
    and "adapter (sb_chain s) (chain_call_of (clk 1) t) = Inl msg"
  shows "snd (executeTransaction adapter clk jitter i s) =
    s\<lparr>sb_txs := update_where (\<lambda>x. tx_id x = i)
         (\<lambda>x. fail_row clk jitter msg (Suc (tx_attemptCount t))
            (snd (classifyError msg) \<and> Suc (tx_attemptCount t) < tx_maxAttempts t)
            (submit_row (clk 0) x)) (sb_txs s),
      sb_chain := sb_chain s @ [(i, chain_call_of (clk 1) t)]\<rparr>"
proof -
  define s2 where "s2 = update_tx i (submit_row (clk 0)) s\<lparr>sb_chain := sb_chain s @ [(i, chain_call_of (clk 1) t)]\<rparr>"
  have id: "tx_id t = i" using assms(1) by (rule find_tx_SomeD)
  have "find_tx i (update_tx i (submit_row (clk 0)) s) = Some (submit_row (clk 0) t)"
    using assms(1) id by (simp add: find_tx_update submit_row_def)
  then have found: "find_tx i s2 = Some (submit_row (clk 0) t)" by (simp add: s2_def find_tx_def)
  have submitted: "updateTransactionStatus (clk 0) i T_submitted s = update_tx i (submit_row (clk 0)) s"
    by (simp add: updateTransactionStatus_def submit_row_def [abs_def] update_tx_def)
  have chain: "sb_chain (update_tx i f s) = sb_chain s" for f by (simp add: update_tx_def)
  have "snd (executeTransaction adapter clk jitter i s) =
      snd (handleTransactionError (\<lambda>k. clk (k + 4)) jitter i msg (Suc (tx_attemptCount t)) s2)"
    using assms by (simp add: executeTransaction_def executeTransactionInContext_def attempts_left_def settle_attempt_def send_call_def
        Let_def submitted chain s2_def)
  also have "\<dots> = update_tx i (fail_row clk jitter msg (Suc (tx_attemptCount t))
      (snd (classifyError msg) \<and> Suc (tx_attemptCount t) < tx_maxAttempts t)) s2"
    by (simp add: handle_error [OF found] submit_row_def)
  finally show ?thesis by (simp add: s2_def update_tx_def update_where_twice submit_row_def)
qed

lemma execute_attempt:
  assumes "find_tx i s = Some t" and "attempts_left t"
  obtains g where "attempt_row (Suc (tx_attemptCount t)) g"
    "snd (executeTransaction adapter clk jitter i s) =
      s\<lparr>sb_txs := update_where (\<lambda>x. tx_id x = i) g (sb_txs s),
        sb_chain := sb_chain s @ [(i, chain_call_of (clk 1) t)]\<rparr>"
proof (cases "adapter (sb_chain s) (chain_call_of (clk 1) t)")
  case (Inl msg)
  show ?thesis
    by (rule that [OF _ execute_failure [where clk = clk and adapter = adapter, OF assms Inl]]) (simp add: attempt_row_def attempt_rows)
next
  case (Inr hash)
  show ?thesis
    by (rule that [OF _ execute_success [where clk = clk and adapter = adapter, OF assms Inr]]) (simp add: attempt_row_def attempt_rows)
qed

section \<open>The service as a step relation\<close>

definition calls_for :: "ident \<Rightarrow> soroban_state \<Rightarrow> nat" where
  "calls_for i s = count_where (\<lambda>c. fst c = i) (sb_chain s)"

inductive tx_step :: "chain_adapter \<Rightarrow> bool \<Rightarrow> soroban_state \<Rightarrow> soroban_state \<Rightarrow> bool"
  for adapter forced where
  create: "newId \<notin> tx_id ` set (sb_txs s) \<Longrightarrow> tx_step adapter forced s (snd (createTransaction now newId p s))"
| schedule: "tx_step adapter forced s (snd (scheduleTransaction i delay prio cid s))"
| retries: "tx_step adapter forced s (scheduleRetryableTransactions clk s)"
| cleanup: "tx_step adapter forced s (cleanupExpiredTransactions now s)"
| job: "job \<in> set (sb_jobs s) \<Longrightarrow> tx_step adapter forced s (snd (runJob adapter clk jitter job s))"
| retry: "force \<longrightarrow> forced \<Longrightarrow> tx_step adapter forced s (snd (retryTransaction adapter clk jitter i force s))"

inductive_cases tx_stepE: "tx_step adapter forced s s'"

definition no_txs :: soroban_state where
  "no_txs = \<lparr>sb_txs = [], sb_chain = [], sb_jobs = []\<rparr>"

text \<open>The calls made for a transaction are its attempts, and never more than allowed.\<close>

definition tx_inv :: "soroban_state \<Rightarrow> bool" where
  "tx_inv s \<longleftrightarrow> distinct (map tx_id (sb_txs s)) \<and> fst ` set (sb_chain s) \<subseteq> tx_id ` set (sb_txs s) \<and>
     (\<forall>t \<in> set (sb_txs s). calls_for (tx_id t) s = tx_attemptCount t \<and>
        tx_attemptCount t \<le> tx_maxAttempts t \<and>
        (\<not> tx_isRetryable t \<longrightarrow> tx_status t = T_failed \<or> tx_status t = T_expired))"

lemma tx_invI:
  assumes "distinct (map tx_id (sb_txs s))" and "fst ` set (sb_chain s) \<subseteq> tx_id ` set (sb_txs s)"
    and "\<And>t. t \<in> set (sb_txs s) \<Longrightarrow> calls_for (tx_id t) s = tx_attemptCount t \<and>
        tx_attemptCount t \<le> tx_maxAttempts t \<and>
        (\<not> tx_isRetryable t \<longrightarrow> tx_status t = T_failed \<or> tx_status t = T_expired)"
  shows "tx_inv s"
  using assms by (simp add: tx_inv_def)

lemma tx_inv_row:
  assumes "tx_inv s" and "t \<in> set (sb_txs s)"
  shows "calls_for (tx_id t) s = tx_attemptCount t" and "tx_attemptCount t \<le> tx_maxAttempts t"
    and "\<not> tx_isRetryable t \<Longrightarrow> tx_status t = T_failed \<or> tx_status t = T_expired"
  using assms by (auto simp: tx_inv_def)

lemma tx_unique:
  assumes "tx_inv s" "find_tx i s = Some t" "x \<in> set (sb_txs s)" "tx_id x = i"
  shows "x = t"
  using assms(1,3,4) find_tx_SomeD [OF assms(2)] key_unique [of tx_id "sb_txs s" x t]
  by (simp add: tx_inv_def)

lemma tx_inv_jobs [simp]: "tx_inv (s\<lparr>sb_jobs := j\<rparr>) = tx_inv s"
  by (simp add: tx_inv_def calls_for_def)

lemma create_inv:
  assumes "tx_inv s" and "newId \<notin> tx_id ` set (sb_txs s)"
  shows "tx_inv (snd (createTransaction now newId p s))"
proof -
  have "newId \<notin> fst ` set (sb_chain s)" using assms by (auto simp: tx_inv_def)
  then have "count_where (\<lambda>c. fst c = newId) (sb_chain s) = 0" by (auto simp: count_where_0_iff)
  with assms show ?thesis
    by (intro tx_invI) (auto simp: createTransaction_def Let_def tx_inv_def calls_for_def split: option.splits)
qed

text \<open>An update of one row that keeps the counts, and may only make the row retryable.\<close>

lemma update_row_inv:
  assumes "tx_inv s"
    and "\<And>x. x \<in> set (sb_txs s) \<Longrightarrow> p x \<Longrightarrow> tx_attemptCount (f x) = tx_attemptCount x \<and>
      (\<not> tx_isRetryable (f x) \<longrightarrow> tx_status (f x) = T_failed \<or> tx_status (f x) = T_expired)"
    and "\<And>x. tx_id (f x) = tx_id x" and "\<And>x. tx_maxAttempts (f x) = tx_maxAttempts x"
  shows "tx_inv (s\<lparr>sb_txs := update_where p f (sb_txs s)\<rparr>)"
proof (rule tx_invI)
  have ids: "map tx_id (update_where p f (sb_txs s)) = map tx_id (sb_txs s)"
    using assms(3) by (rule map_update_where)
  then show "distinct (map tx_id (sb_txs (s\<lparr>sb_txs := update_where p f (sb_txs s)\<rparr>)))"
    using assms(1) by (simp add: tx_inv_def)
  have "tx_id ` set (update_where p f (sb_txs s)) = tx_id ` set (sb_txs s)"
    using arg_cong [OF ids, of set] by simp
  then show "fst ` set (sb_chain (s\<lparr>sb_txs := update_where p f (sb_txs s)\<rparr>))
      \<subseteq> tx_id ` set (sb_txs (s\<lparr>sb_txs := update_where p f (sb_txs s)\<rparr>))"
    using assms(1) by (simp add: tx_inv_def)
next
  fix t assume "t \<in> set (sb_txs (s\<lparr>sb_txs := update_where p f (sb_txs s)\<rparr>))"
  then have "t \<in> set (update_where p f (sb_txs s))" by simp
  then show "calls_for (tx_id t) (s\<lparr>sb_txs := update_where p f (sb_txs s)\<rparr>) = tx_attemptCount t \<and>
      tx_attemptCount t \<le> tx_maxAttempts t \<and>
      (\<not> tx_isRetryable t \<longrightarrow> tx_status t = T_failed \<or> tx_status t = T_expired)"
  proof (cases rule: in_update_whereE)
    case kept
    then show ?thesis using tx_inv_row [OF assms(1)] by (simp add: calls_for_def)
  next
    case (changed r)
    then show ?thesis using tx_inv_row [OF assms(1) changed(1)] assms(2) [OF changed(1,2)] assms(3,4)
      by (simp add: calls_for_def)
  qed
qed

lemma execute_inv:
  assumes "tx_inv s"
  shows "tx_inv (snd (executeTransaction adapter clk jitter i s))"
proof (cases "\<exists>t. find_tx i s = Some t \<and> attempts_left t")
  case False
  then have "find_tx i s = None \<or> (\<exists>t. find_tx i s = Some t \<and> \<not> attempts_left t)"
    by (cases "find_tx i s") auto
  then show ?thesis using assms by (simp add: execute_refused)
next
  case True
  then obtain t where t: "find_tx i s = Some t" "attempts_left t" by blast
  obtain g where g: "attempt_row (Suc (tx_attemptCount t)) g"
    and s': "snd (executeTransaction adapter clk jitter i s) =
      s\<lparr>sb_txs := update_where (\<lambda>x. tx_id x = i) g (sb_txs s),
        sb_chain := sb_chain s @ [(i, chain_call_of (clk 1) t)]\<rparr>"
    using execute_attempt [where clk = clk, OF t] .
  have ids: "map tx_id (update_where (\<lambda>x. tx_id x = i) g (sb_txs s)) = map tx_id (sb_txs s)"
    using g by (intro map_update_where) (simp add: attempt_row_def)
  have set_ids: "tx_id ` set (update_where (\<lambda>x. tx_id x = i) g (sb_txs s)) = tx_id ` set (sb_txs s)"
    using arg_cong [OF ids, of set] by simp
  show ?thesis unfolding s'
  proof (rule tx_invI)
    show "distinct (map tx_id (sb_txs (s\<lparr>sb_txs := update_where (\<lambda>x. tx_id x = i) g (sb_txs s),
        sb_chain := sb_chain s @ [(i, chain_call_of (clk 1) t)]\<rparr>)))"
      using assms ids by (simp add: tx_inv_def)
    show "fst ` set (sb_chain (s\<lparr>sb_txs := update_where (\<lambda>x. tx_id x = i) g (sb_txs s),
        sb_chain := sb_chain s @ [(i, chain_call_of (clk 1) t)]\<rparr>)) \<subseteq>
      tx_id ` set (sb_txs (s\<lparr>sb_txs := update_where (\<lambda>x. tx_id x = i) g (sb_txs s),
        sb_chain := sb_chain s @ [(i, chain_call_of (clk 1) t)]\<rparr>))"
      using assms set_ids find_tx_SomeD [OF t(1)] by (auto simp: tx_inv_def)
  next
    fix x assume "x \<in> set (sb_txs (s\<lparr>sb_txs := update_where (\<lambda>x. tx_id x = i) g (sb_txs s),
        sb_chain := sb_chain s @ [(i, chain_call_of (clk 1) t)]\<rparr>))"
    then have "x \<in> set (update_where (\<lambda>x. tx_id x = i) g (sb_txs s))" by simp
    then show "calls_for (tx_id x) (s\<lparr>sb_txs := update_where (\<lambda>x. tx_id x = i) g (sb_txs s),
        sb_chain := sb_chain s @ [(i, chain_call_of (clk 1) t)]\<rparr>) = tx_attemptCount x \<and>
      tx_attemptCount x \<le> tx_maxAttempts x \<and>
      (\<not> tx_isRetryable x \<longrightarrow> tx_status x = T_failed \<or> tx_status x = T_expired)"
    proof (cases rule: in_update_whereE)
      case kept
      then show ?thesis using tx_inv_row [OF assms kept(1)]
        by (simp add: calls_for_def count_where_def)
    next
      case (changed r)
      with tx_unique [OF assms t(1)] have r: "r = t" by blast
      have "tx_id t = i" using t(1) by (rule find_tx_SomeD)
      then show ?thesis
        using tx_inv_row [OF assms changed(1)] g t(2) changed(3) unfolding r
        by (simp add: calls_for_def count_where_def attempt_row_def attempts_left_def)
    qed
  qed
qed

lemma expired_inv:
  assumes "tx_inv s"
  shows "tx_inv (snd (markExpiredTransactions clk s))"
  unfolding markExpiredTransactions_def Let_def snd_conv
  by (rule update_row_inv [OF assms]) auto

lemma run_job_inv:
  assumes "tx_inv s"
  shows "tx_inv (snd (runJob adapter clk jitter j s))"
  using execute_inv [OF assms] expired_inv [OF assms]
  by (simp add: runJob_def case_prod_unfold Let_def split: job_operation.split)

lemma retry_unforced:
  "snd (retryTransaction adapter clk jitter i False s) = s \<or>
   (\<exists>t. find_tx i s = Some t \<and> attempts_left t \<and>
      snd (retryTransaction adapter clk jitter i False s) =
        snd (executeTransaction adapter (\<lambda>k. clk (k + 1)) jitter i (update_tx i (\<lambda>t.
                 t\<lparr>tx_status := T_pending, tx_nextRetryAt := Some (clk 0), tx_isRetryable := True,
                   tx_updatedAt := clk 0\<rparr>) s)))"
  by (auto simp: retryTransaction_def attempts_left_def split: option.split)

lemma retry_inv:
  assumes "tx_inv s"
  shows "tx_inv (snd (retryTransaction adapter clk jitter i False s))"
proof -
  have "tx_inv (update_tx i (\<lambda>t. t\<lparr>tx_status := T_pending, tx_nextRetryAt := Some (clk 0),
      tx_isRetryable := True, tx_updatedAt := clk 0\<rparr>) s)"
    unfolding update_tx_def by (rule update_row_inv [OF assms]) auto
  then have "tx_inv (snd (executeTransaction adapter (\<lambda>k. clk (k + 1)) jitter i (update_tx i (\<lambda>t.
       t\<lparr>tx_status := T_pending, tx_nextRetryAt := Some (clk 0), tx_isRetryable := True,
         tx_updatedAt := clk 0\<rparr>) s)))" by (rule execute_inv)
  then show ?thesis using retry_unforced [of adapter clk jitter i s] assms by auto
qed

lemma tx_step_inv: "tx_step adapter False s s' \<Longrightarrow> tx_inv s \<Longrightarrow> tx_inv s'"
proof (erule tx_stepE)
  fix force clk jitter i
  assume "tx_inv s" "s' = snd (retryTransaction adapter clk jitter i force s)" "force \<longrightarrow> False"
  then show "tx_inv s'" using retry_inv by (cases force) auto
qed (simp_all add: create_inv run_job_inv scheduleTransaction_def Let_def
      scheduleRetryableTransactions_def cleanupExpiredTransactions_def)

interpretation tx_runs: inv_system "tx_step adapter False" tx_inv for adapter
  by unfold_locales (rule tx_step_inv)

lemma no_txs_inv: "tx_inv no_txs"
  by (simp add: tx_inv_def no_txs_def)










section \<open>Properties\<close>

text \<open>
  When no two executions of a transaction overlap and none is lost, its calls to the chain are its attempts.
\<close>

theorem serial_attempts:
  assumes "(tx_step adapter False)\<^sup>*\<^sup>* no_txs s"
  shows "(case find_tx i s of
      None \<Rightarrow> calls_for i s = 0
    | Some t \<Rightarrow> calls_for i s = tx_attemptCount t \<and> tx_attemptCount t \<le> tx_maxAttempts t)"
proof -
  have inv: "tx_inv s" using tx_runs.run_keeps [OF assms no_txs_inv] .
  show ?thesis
  proof (cases "find_tx i s")
    case None
    then have "i \<notin> tx_id ` set (sb_txs s)" by (auto simp: find_tx_def find_row_None_iff)
    then have "\<forall>c \<in> set (sb_chain s). fst c \<noteq> i" using inv by (auto simp: tx_inv_def)
    then show ?thesis using None by (simp add: calls_for_def count_where_0_iff)
  next
    case (Some t)
    then show ?thesis using tx_inv_row [OF inv, of t] find_tx_SomeD [OF Some] by simp
  qed
qed

definition pay_params :: create_tx_params where
  "pay_params = \<lparr>cp_claimId = Some ''c'', cp_operation = Disburse_claim, cp_packageId = Some ''p'',
     cp_operatorAddress = Some ''admin'', cp_recipientAddress = None, cp_amount = Some ''5'',
     cp_tokenAddress = None, cp_correlationId = None, cp_receiptPointer = None,
     cp_maxAttempts = Some 5\<rparr>"

definition pay_state :: soroban_state where
  "pay_state = snd (scheduleTransaction ''t'' None None None (snd (createTransaction 0 ''t'' pay_params no_txs)))"

lemma pay_run: "(tx_step adapter forced)\<^sup>*\<^sup>* no_txs pay_state"
proof -
  have "tx_step adapter forced no_txs (snd (createTransaction 0 ''t'' pay_params no_txs))"
    by (rule create) (simp add: no_txs_def)
  moreover have "tx_step adapter forced (snd (createTransaction 0 ''t'' pay_params no_txs)) pay_state"
    unfolding pay_state_def by (rule schedule)
  ultimately show ?thesis by (meson r_into_rtranclp rtranclp.rtrancl_into_rtrancl)
qed

theorem serial_attempts_witness:
  "calls_for ''t'' pay_state = 0 \<and> calls_for ''u'' pay_state = 0"
  using serial_attempts [OF pay_run [where adapter = "\<lambda>_ _. Inr ''hash''"], of "''t''"]
    serial_attempts [OF pay_run [where adapter = "\<lambda>_ _. Inr ''hash''"], of "''u''"]
  by (simp add: pay_state_def scheduleTransaction_def createTransaction_def no_txs_def Let_def
      find_tx_def find_row_Cons)



text \<open>
  Exponential backoff within its bounds. A failed attempt that will be retried leaves the
  transaction pending, due again after at least 2 seconds doubled for every earlier attempt (five
  minutes at most) and never later than five minutes.
\<close>

theorem backoff_bounds:
  assumes "find_tx i s = Some t" and "tx_isRetryable t" and "Suc (tx_attemptCount t) < tx_maxAttempts t"
    and "adapter (sb_chain s) (chain_call_of (clk 1) t) = Inl msg" and "snd (classifyError msg)"
    and "0 \<le> jitter" and "jitter < 1000"
    and "find_tx i (snd (executeTransaction adapter clk jitter i s)) = Some t'"
  shows "tx_status t' = T_pending \<and> tx_isRetryable t' \<and> tx_attemptCount t' = Suc (tx_attemptCount t) \<and>
    (\<exists>due. tx_nextRetryAt t' = Some due \<and>
      clk 4 + min (2000 * 2 ^ tx_attemptCount t) 300000 \<le> due \<and>
      due \<le> clk 4 + min (2000 * 2 ^ tx_attemptCount t + 999) 300000)"
proof -
  have left: "attempts_left t" using assms(2,3) by (simp add: attempts_left_def)
  let ?g = "\<lambda>x. fail_row clk jitter msg (Suc (tx_attemptCount t)) True (submit_row (clk 0) x)"
  have "snd (executeTransaction adapter clk jitter i s) =
      update_tx i ?g (s\<lparr>sb_chain := sb_chain s @ [(i, chain_call_of (clk 1) t)]\<rparr>)"
    using execute_failure [where clk = clk and adapter = adapter, OF assms(1) left assms(4)] assms(3,5)
    by (simp add: update_tx_def)
  moreover have "find_tx i (s\<lparr>sb_chain := sb_chain s @ [(i, chain_call_of (clk 1) t)]\<rparr>) = Some t"
    using assms(1) by (simp add: find_tx_def)
  moreover have "\<And>x. tx_id (?g x) = tx_id x" by (simp add: attempt_rows)
  ultimately have "t' = ?g t"
    using assms(8) find_tx_SomeD(2) [OF assms(1)] by (simp add: find_tx_update)
  then show ?thesis using assms(6,7)
    by (simp add: attempt_rows retry_delay_def BASE_RETRY_DELAY_MS_def BACKOFF_MULTIPLIER_def
        MAX_RETRY_DELAY_MS_def min_def)
qed

theorem backoff_bounds_witness:
  "\<exists>due. tx_nextRetryAt (the (find_tx ''t''
      (snd (executeTransaction (\<lambda>_ _. Inl ''Network down'') (\<lambda>_. 10) 500 ''t'' pay_state)))) = Some due \<and>
    2010 \<le> due \<and> due \<le> 3009"
proof -
  let ?t = "fst (createTransaction 0 ''t'' pay_params no_txs)"
  let ?s' = "snd (executeTransaction (\<lambda>_ _. Inl ''Network down'') (\<lambda>_. 10) 500 ''t'' pay_state)"
  have found: "find_tx ''t'' pay_state = Some ?t"
    by (simp add: pay_state_def scheduleTransaction_def createTransaction_def no_txs_def Let_def
        find_tx_def find_row_Cons)
  have fields: "tx_isRetryable ?t" "tx_attemptCount ?t = 0" "tx_maxAttempts ?t = 5"
    by (simp_all add: createTransaction_def Let_def pay_params_def)
  have retry: "snd (classifyError ''Network down'')" by code_simp
  have "find_tx ''t'' ?s' = Some (the (find_tx ''t'' ?s'))"
    using execute_failure [where clk = "\<lambda>_. 10" and jitter = 500 and adapter = "\<lambda>_ _. Inl ''Network down''", OF found]
      found find_tx_update
    by (simp add: attempts_left_def fields find_tx_def find_row_update_where attempt_rows)
  from backoff_bounds [OF found _ _ _ retry _ _ this] show ?thesis by (simp add: fields)
qed

text \<open>
  Success does not end a transaction. A transaction whose disbursement was confirmed keeps
  its \<open>isRetryable\<close> and its remaining attempts, and no guard looks at its status: a second job
  for it (the scheduler queues a retry job for every pending transaction that is due, the ones
  just created included) sends the payment to the chain again.
\<close>

theorem confirmed_tx_runs_again:
  assumes "find_tx i s = Some t" and "tx_isRetryable t" and "Suc (tx_attemptCount t) < tx_maxAttempts t"
    and "tx_operation t = Disburse_claim" and "\<And>calls call. adapter calls call = Inr (hash calls)"
  shows "let s1 = snd (executeTransaction adapter clk1 j1 i s);
             s2 = snd (executeTransaction adapter clk2 j2 i s1)
         in map_option tx_status (find_tx i s1) = Some T_confirmed \<and>
            sb_chain s2 = sb_chain s @ replicate 2
              (i, Call_disburse (tx_claimId t) (tx_packageId t) (tx_tokenAddress t) (tx_receiptPointer t))"
proof -
  let ?g = "\<lambda>x. confirm_row clk1 (hash (sb_chain s)) (Suc (tx_attemptCount t)) (submit_row (clk1 0) x)"
  let ?s1 = "s\<lparr>sb_txs := update_where (\<lambda>x. tx_id x = i) ?g (sb_txs s),
      sb_chain := sb_chain s @ [(i, chain_call_of (clk1 1) t)]\<rparr>"
  have left: "attempts_left t" using assms(2,3) by (simp add: attempts_left_def)
  have s1: "snd (executeTransaction adapter clk1 j1 i s) = ?s1"
    by (rule execute_success [where clk = clk1 and adapter = adapter, OF assms(1) left assms(5)])
  have "find_tx i ?s1 = map_option (\<lambda>x. if tx_id x = i then ?g x else x) (find_tx i s)"
    unfolding find_tx_def by (simp add: find_row_update_where)
  then have found: "find_tx i ?s1 = Some (?g t)"
    using assms(1) find_tx_SomeD(2) [OF assms(1)] by simp
  have again: "attempts_left (?g t)" using assms(2,3) by (simp add: attempts_left_def attempt_rows)
  have status: "tx_status (?g t) = T_confirmed" by (simp add: attempt_rows)
  have call: "chain_call_of now (?g t) = chain_call_of now t"
      "chain_call_of now t = Call_disburse (tx_claimId t) (tx_packageId t) (tx_tokenAddress t) (tx_receiptPointer t)" for now
    using assms(4) by (simp_all add: chain_call_of_def attempt_rows)
  define s1 where "s1 = ?s1"
  from execute_success [where clk = clk2 and adapter = adapter and jitter = j2, OF found again assms(5)]
  have "sb_chain (snd (executeTransaction adapter clk2 j2 i s1)) = sb_chain s1 @ [(i, chain_call_of (clk2 1) (?g t))]"
    unfolding s1_def by simp
  moreover have "sb_chain s1 = sb_chain s @ [(i, chain_call_of (clk1 1) t)]" by (simp add: s1_def)
  moreover have "find_tx i s1 = Some (?g t)" using found by (simp add: s1_def)
  ultimately show ?thesis unfolding s1 s1_def [symmetric] Let_def
    using status call by (simp add: numeral_2_eq_2)
qed

theorem confirmed_tx_runs_again_witness:
  "length (sb_chain (snd (executeTransaction (\<lambda>_ _. Inr ''hash'') (\<lambda>_. 9) 0 ''t''
     (snd (executeTransaction (\<lambda>_ _. Inr ''hash'') (\<lambda>_. 1) 0 ''t'' pay_state))))) = 2"
proof -
  let ?t = "fst (createTransaction 0 ''t'' pay_params no_txs)"
  have found: "find_tx ''t'' pay_state = Some ?t" and chain: "sb_chain pay_state = []"
    by (simp_all add: pay_state_def scheduleTransaction_def createTransaction_def no_txs_def Let_def
        find_tx_def find_row_Cons)
  have fields: "tx_isRetryable ?t" "tx_attemptCount ?t = 0" "tx_maxAttempts ?t = 5"
    "tx_operation ?t = Disburse_claim"
    by (simp_all add: createTransaction_def Let_def pay_params_def)
  show ?thesis
    using confirmed_tx_runs_again [OF found, of "\<lambda>_ _. Inr ''hash''" "\<lambda>_. ''hash''" "\<lambda>_. 1" 0 "\<lambda>_. 9" 0]
    by (simp add: fields chain Let_def)
qed

lemma bump_keys [simp]: "map fst (bump op m) = map fst m"
  by (induction m) auto

lemma sum_bump: "op \<in> fst ` set m \<Longrightarrow> sum_list (map snd (bump op m)) = Suc (sum_list (map snd m))"
  by (induction m) (auto simp: rev_image_eqI)

text \<open>
  The stuck report adds up: its total is the retryable plus the terminal ones and also the
  sum over the operations, every operation has an entry, and the reported transactions are
  exactly the pending and submitted ones without progress for longer than the threshold, which
  is positive whatever the configuration says.
\<close>

theorem stuck_report_adds_up:
  "let r = detectStuckTransactions config now s
   in sr_stuckCount r = sr_retryableCount r + sr_terminalCount r \<and>
      sr_stuckCount r = sum_list (map snd (sr_byOperation r)) \<and>
      map fst (sr_byOperation r) = [Create_claim, Disburse_claim, Init_escrow] \<and>
      0 < sr_thresholdMs r \<and>
      mset (map ss_tx (sr_transactions r)) = mset (filter (\<lambda>t. tx_status t \<in> {T_pending, T_submitted} \<and>
        sr_thresholdMs r < now - tx_updatedAt t) (sb_txs s))"
proof -
  let ?th = "resolveStuckThresholdMs config"
  have count: "length xs = count_where (\<lambda>x. ss_classification x = Stuck_retryable) xs +
      count_where (\<lambda>x. ss_classification x = Stuck_terminal) xs" for xs
  proof (induction xs)
    case (Cons x xs)
    then show ?case by (cases "ss_classification x") (simp_all add: count_where_def)
  qed (simp add: count_where_def)
  have ops: "tx_operation t \<in> {Create_claim, Disburse_claim, Init_escrow}" for t
    by (cases "tx_operation t") auto
  have fold: "map fst (fold (\<lambda>t. bump (tx_operation t)) ts m) = [Create_claim, Disburse_claim, Init_escrow] \<and>
      sum_list (map snd (fold (\<lambda>t. bump (tx_operation t)) ts m)) = length ts + sum_list (map snd m)"
    if "map fst m = [Create_claim, Disburse_claim, Init_escrow]" for ts :: "soroban_tx list" and m
    using that
  proof (induction ts arbitrary: m)
    case (Cons t ts)
    have "fst ` set m = set (map fst m)" by simp
    then have "tx_operation t \<in> fst ` set m" using Cons.prems ops [of t] by simp
    then show ?case using Cons.IH [of "bump (tx_operation t) m"] Cons.prems by (simp add: sum_bump)
  qed simp
  have pos: "0 < ?th"
    by (simp add: resolveStuckThresholdMs_def DEFAULT_STUCK_TRANSACTION_THRESHOLD_MS_def split: option.split)
  have same: "is_stuck (now - ?th) = (\<lambda>t. tx_status t \<in> {T_pending, T_submitted} \<and> ?th < now - tx_updatedAt t)"
    by (auto simp: is_stuck_def fun_eq_iff)
  let ?r = "detectStuckTransactions config now s"
  have "sr_stuckCount ?r = sr_retryableCount ?r + sr_terminalCount ?r"
    unfolding detectStuckTransactions_def Let_def stuck_result.simps by (rule count)
  moreover have "sr_stuckCount ?r = sum_list (map snd (sr_byOperation ?r)) \<and>
      map fst (sr_byOperation ?r) = [Create_claim, Disburse_claim, Init_escrow]"
    using fold [of "[(Create_claim, 0), (Disburse_claim, 0), (Init_escrow, 0)]"]
    by (simp add: detectStuckTransactions_def Let_def)
  moreover have "sr_thresholdMs ?r = ?th" by (simp add: detectStuckTransactions_def Let_def)
  moreover have "map ss_tx (sr_transactions ?r) = sort_key tx_updatedAt (filter (is_stuck (now - ?th)) (sb_txs s))"
    by (simp add: detectStuckTransactions_def Let_def o_def)
  then have "mset (map ss_tx (sr_transactions ?r)) = mset (filter (is_stuck (now - ?th)) (sb_txs s))"
    by (simp only: mset_sort)
  ultimately show ?thesis unfolding Let_def using pos by (simp only: same)
qed

end
