(* ===== verification/TxOverlap.thy ===== *)
theory TxOverlap
  imports SorobanTx
begin

text \<open>
  Executions of on-chain transactions that overlap. The worker runs three jobs at a time, the crons queue jobs for rows
  that already have one, and \<open>executeTransaction\<close> reads the row first, then marks it as submitted, calls the chain and
  writes what came back, with other requests in between. Each of these is a step of its own here, and a worker may be
  lost between any two of them. The state is the one of the service with the executions under way, each with the row it
  read and how far it got. \<open>overlap\<close> bounds how many executions of one transaction there may be at a time (nothing in
  the service does), and \<open>lossy\<close> says whether executions are lost.
\<close>

section \<open>Steps\<close>

datatype exec_stage = Checked | Submitted | Answered "string + string"

record execution =
  ex_tx :: soroban_tx
  ex_stage :: exec_stage

abbreviation ex_id :: "execution \<Rightarrow> ident" where
  "ex_id e \<equiv> tx_id (ex_tx e)"

type_synonym execution_config = "soroban_state \<times> execution list"

definition in_progress :: "ident \<Rightarrow> execution list \<Rightarrow> nat" where
  "in_progress i es = count_where (\<lambda>e. ex_id e = i) es"

fun answered :: "exec_stage \<Rightarrow> bool" where
  "answered (Answered r) \<longleftrightarrow> True"
| "answered _ \<longleftrightarrow> False"

text \<open>Executions that have called the chain and not yet written what came back.\<close>

definition unsettled_calls :: "ident \<Rightarrow> execution list \<Rightarrow> nat" where
  "unsettled_calls i es = count_where (\<lambda>e. ex_id e = i \<and> answered (ex_stage e)) es"

text \<open>What the chain answers is arbitrary; a reset is the write of \<open>retryTransaction\<close> without force, at any time.\<close>

inductive execution_step :: "bool \<Rightarrow> nat \<Rightarrow> execution_config \<Rightarrow> execution_config \<Rightarrow> bool" for lossy overlap where
  begins: "find_tx i s = Some t \<Longrightarrow> attempts_left t \<Longrightarrow> in_progress i (es1 @ es2) < overlap \<Longrightarrow>
    execution_step lossy overlap (s, es1 @ es2) (s, es1 @ \<lparr>ex_tx = t, ex_stage = Checked\<rparr> # es2)"
| submits: "execution_step lossy overlap (s, es1 @ \<lparr>ex_tx = t, ex_stage = Checked\<rparr> # es2)
    (updateTransactionStatus now (tx_id t) T_submitted s, es1 @ \<lparr>ex_tx = t, ex_stage = Submitted\<rparr> # es2)"
| calls: "execution_step lossy overlap (s, es1 @ \<lparr>ex_tx = t, ex_stage = Submitted\<rparr> # es2)
    (send_call (tx_id t) (chain_call_of now t) s, es1 @ \<lparr>ex_tx = t, ex_stage = Answered answer\<rparr> # es2)"
| settles: "execution_step lossy overlap (s, es1 @ \<lparr>ex_tx = t, ex_stage = Answered answer\<rparr> # es2)
    (snd (settle_attempt clk jitter (tx_id t) (tx_attemptCount t + 1) answer s), es1 @ es2)"
| is_lost: "lossy \<Longrightarrow> execution_step lossy overlap (s, es1 @ e # es2) (s, es1 @ es2)"
| creates: "newId \<notin> tx_id ` set (sb_txs s) \<Longrightarrow>
    execution_step lossy overlap (s, es) (snd (createTransaction now newId p s), es)"
| queues: "execution_step lossy overlap (s, es) (s\<lparr>sb_jobs := jobs\<rparr>, es)"
| expires: "execution_step lossy overlap (s, es) (snd (markExpiredTransactions clk s), es)"
| resets: "execution_step lossy overlap (s, es) (update_tx i (\<lambda>t.
    t\<lparr>tx_status := T_pending, tx_nextRetryAt := Some now, tx_isRetryable := True, tx_updatedAt := now\<rparr>) s, es)"

section \<open>The service's operations are runs of these steps\<close>

abbreviation execution_run :: "bool \<Rightarrow> nat \<Rightarrow> execution_config \<Rightarrow> execution_config \<Rightarrow> bool" where
  "execution_run lossy overlap \<equiv> (execution_step lossy overlap)\<^sup>*\<^sup>*"

lemma run_then: "execution_step lossy n x y \<Longrightarrow> execution_run lossy n y z \<Longrightarrow> execution_run lossy n x z"
  by (rule converse_rtranclp_into_rtranclp)

lemma run_queues: "execution_run lossy n (s, es) (s\<lparr>sb_jobs := jobs\<rparr>, es)"
  by (intro r_into_rtranclp queues)

lemma execute_is_run:
  assumes "0 < n"
  shows "execution_run lossy n (s, []) (snd (executeTransaction adapter clk jitter i s), [])"
proof (cases "\<exists>t. find_tx i s = Some t \<and> attempts_left t")
  case False
  then have "find_tx i s = None \<or> (\<exists>t. find_tx i s = Some t \<and> \<not> attempts_left t)" by (cases "find_tx i s") auto
  then show ?thesis by (simp add: execute_refused)
next
  case True
  then obtain t where t: "find_tx i s = Some t" "attempts_left t" by blast
  have id: "tx_id t = i" by (rule find_tx_SomeD [OF t(1)])
  define s1 where "s1 = updateTransactionStatus (clk 0) i T_submitted s"
  define answer where "answer = adapter (sb_chain s1) (chain_call_of (clk 1) t)"
  have "execution_step lossy n (s, []) (s, [\<lparr>ex_tx = t, ex_stage = Checked\<rparr>])"
    using begins [OF t, of "[]" "[]" n lossy] assms by (simp add: in_progress_def count_where_def)
  moreover have "execution_step lossy n (s, [\<lparr>ex_tx = t, ex_stage = Checked\<rparr>]) (s1, [\<lparr>ex_tx = t, ex_stage = Submitted\<rparr>])"
    using submits [of lossy n s "[]" t "[]" "clk 0"] by (simp add: id s1_def)
  moreover have "execution_step lossy n (s1, [\<lparr>ex_tx = t, ex_stage = Submitted\<rparr>])
      (send_call i (chain_call_of (clk 1) t) s1, [\<lparr>ex_tx = t, ex_stage = Answered answer\<rparr>])"
    using calls [of lossy n s1 "[]" t "[]" "clk 1" answer] by (simp add: id)
  moreover have "execution_step lossy n (send_call i (chain_call_of (clk 1) t) s1, [\<lparr>ex_tx = t, ex_stage = Answered answer\<rparr>])
      (snd (executeTransaction adapter clk jitter i s), [])"
    using settles [of lossy n "send_call i (chain_call_of (clk 1) t) s1" "[]" t answer "[]" clk jitter] t
    by (simp add: id executeTransaction_def executeTransactionInContext_def Let_def s1_def answer_def)
  ultimately show ?thesis by (meson run_then r_into_rtranclp)
qed

lemma step_is_run:
  assumes "tx_step adapter False s s'" and "0 < n"
  shows "execution_run lossy n (s, []) (s', [])"
  using assms(1)
proof cases
  case (create newId now p)
  then show ?thesis by (auto intro: creates)
next
  case (schedule i delay prio cid)
  then show ?thesis using run_queues by (simp add: scheduleTransaction_def Let_def)
next
  case (retries clk)
  then show ?thesis using run_queues by (simp add: scheduleRetryableTransactions_def)
next
  case (cleanup now)
  then show ?thesis using run_queues by (simp add: cleanupExpiredTransactions_def)
next
  case (job job clk jitter)
  then have "s' = snd (markExpiredTransactions clk s) \<or> s' = snd (executeTransaction adapter clk jitter (jb_transactionId job) s)"
    by (simp add: runJob_def case_prod_unfold Let_def split: job_operation.split)
  then show ?thesis using execute_is_run [OF assms(2)] by (auto intro: expires)
next
  case (retry force clk jitter i)
  then have "s' = snd (retryTransaction adapter clk jitter i False s)" by simp
  with retry_unforced [of adapter clk jitter i s]
  consider "s' = s" | "s' = snd (executeTransaction adapter (\<lambda>k. clk (k + 1)) jitter i (update_tx i (\<lambda>t.
      t\<lparr>tx_status := T_pending, tx_nextRetryAt := Some (clk 0), tx_isRetryable := True, tx_updatedAt := clk 0\<rparr>) s))"
    by metis
  then show ?thesis
  proof cases
    case 2
    show ?thesis unfolding 2 by (rule run_then [OF resets execute_is_run [OF assms(2)]])
  qed simp
qed

section \<open>What every interleaving keeps\<close>

definition execution_ok :: "nat \<Rightarrow> soroban_state \<Rightarrow> execution \<Rightarrow> bool" where
  "execution_ok n s e \<longleftrightarrow> (\<exists>t \<in> set (sb_txs s). tx_id t = ex_id e \<and> tx_maxAttempts t = tx_maxAttempts (ex_tx e) \<and>
     tx_attemptCount (ex_tx e) < tx_maxAttempts t \<and> (n \<le> 1 \<longrightarrow> tx_attemptCount t = tx_attemptCount (ex_tx e)))"

definition rows_ok :: "bool \<Rightarrow> nat \<Rightarrow> soroban_state \<Rightarrow> execution list \<Rightarrow> bool" where
  "rows_ok lossy n s es \<longleftrightarrow> distinct (map tx_id (sb_txs s)) \<and> fst ` set (sb_chain s) \<subseteq> tx_id ` set (sb_txs s) \<and>
     (\<forall>t \<in> set (sb_txs s). tx_attemptCount t \<le> tx_maxAttempts t \<and>
       (n \<le> 1 \<and> \<not> lossy \<longrightarrow> calls_for (tx_id t) s = tx_attemptCount t + unsettled_calls (tx_id t) es))"

definition execution_inv :: "bool \<Rightarrow> nat \<Rightarrow> execution_config \<Rightarrow> bool" where
  "execution_inv lossy n c \<longleftrightarrow> (case c of (s, es) \<Rightarrow> rows_ok lossy n s es \<and> (\<forall>e \<in> set es. execution_ok n s e) \<and>
     (\<forall>i. in_progress i es \<le> n))"

lemma execution_invI:
  assumes "rows_ok lossy n s es" and "\<And>e. e \<in> set es \<Longrightarrow> execution_ok n s e" and "\<And>i. in_progress i es \<le> n"
  shows "execution_inv lossy n (s, es)"
  using assms by (simp add: execution_inv_def)

lemma execution_invD:
  assumes "execution_inv lossy n (s, es)"
  shows "rows_ok lossy n s es" and "\<And>e. e \<in> set es \<Longrightarrow> execution_ok n s e" and "\<And>i. in_progress i es \<le> n"
  using assms by (simp_all add: execution_inv_def)

lemma in_progress_simps [simp]:
  "in_progress i (es1 @ es2) = in_progress i es1 + in_progress i es2"
  "in_progress i (e # es) = (if ex_id e = i then 1 else 0) + in_progress i es" "in_progress i [] = 0"
  by (simp_all add: in_progress_def count_where_def)

lemma unsettled_simps [simp]:
  "unsettled_calls i (es1 @ es2) = unsettled_calls i es1 + unsettled_calls i es2"
  "unsettled_calls i (e # es) = (if ex_id e = i \<and> answered (ex_stage e) then 1 else 0) + unsettled_calls i es"
  "unsettled_calls i [] = 0"
  by (simp_all add: unsettled_calls_def count_where_def)

lemma alone: "in_progress i es = 0 \<Longrightarrow> e \<in> set es \<Longrightarrow> ex_id e \<noteq> i"
  by (auto simp: in_progress_def count_where_0_iff)

lemma unsettled_le: "unsettled_calls i es \<le> in_progress i es"
  by (induction es) auto

text \<open>A write to rows that keeps their attempts, with the executions as they were.\<close>

lemma rows_ok_update:
  assumes "rows_ok lossy n s es"
    and "\<And>x. tx_id (f x) = tx_id x \<and> tx_maxAttempts (f x) = tx_maxAttempts x \<and> tx_attemptCount (f x) = tx_attemptCount x"
  shows "rows_ok lossy n (s\<lparr>sb_txs := update_where p f (sb_txs s)\<rparr>) es"
proof -
  have ids: "map tx_id (update_where p f (sb_txs s)) = map tx_id (sb_txs s)" using assms(2) by (intro map_update_where) simp
  then have "tx_id ` set (update_where p f (sb_txs s)) = tx_id ` set (sb_txs s)" by (metis set_map)
  then show ?thesis using assms ids
    by (auto simp: rows_ok_def calls_for_def elim!: in_update_whereE)
qed

lemma execution_ok_update:
  assumes "execution_ok n s e"
    and "\<And>x. tx_id (f x) = tx_id x \<and> tx_maxAttempts (f x) = tx_maxAttempts x \<and> tx_attemptCount (f x) = tx_attemptCount x"
  shows "execution_ok n (s\<lparr>sb_txs := update_where p f (sb_txs s)\<rparr>) e"
proof -
  obtain t where t: "t \<in> set (sb_txs s)" "tx_id t = ex_id e" "tx_maxAttempts t = tx_maxAttempts (ex_tx e)"
    "tx_attemptCount (ex_tx e) < tx_maxAttempts t" "n \<le> 1 \<longrightarrow> tx_attemptCount t = tx_attemptCount (ex_tx e)"
    using assms(1) by (auto simp: execution_ok_def)
  have "(if p t then f t else t) \<in> set (update_where p f (sb_txs s))" using t(1) by (auto simp: set_update_where)
  with t assms(2) show ?thesis unfolding execution_ok_def by (intro bexI [of _ "if p t then f t else t"]) auto
qed

lemma update_keeps:
  assumes "execution_inv lossy n (s, es)"
    and "\<And>x. tx_id (f x) = tx_id x \<and> tx_maxAttempts (f x) = tx_maxAttempts x \<and> tx_attemptCount (f x) = tx_attemptCount x"
  shows "execution_inv lossy n (s\<lparr>sb_txs := update_where p f (sb_txs s)\<rparr>, es)"
  using execution_invD [OF assms(1)] assms(2)
  by (intro execution_invI rows_ok_update execution_ok_update) simp_all

text \<open>What an attempt writes in the end.\<close>

lemma settle_row:
  assumes "find_tx i s = Some t"
  shows "\<exists>g. (\<forall>x. tx_id (g x) = tx_id x \<and> tx_maxAttempts (g x) = tx_maxAttempts x \<and> tx_attemptCount (g x) = k) \<and>
    snd (settle_attempt clk jitter i k answer s) = s\<lparr>sb_txs := update_where (\<lambda>x. tx_id x = i) g (sb_txs s)\<rparr>"
proof (cases answer)
  case (Inl msg)
  then show ?thesis
    using handle_error [OF assms, of clk jitter msg k]
    by (intro exI [of _ "fail_row clk jitter msg k (snd (classifyError msg) \<and> k < tx_maxAttempts t)"])
      (simp add: settle_attempt_def fail_row_def update_tx_def)
next
  case (Inr hash)
  then show ?thesis
    by (intro exI [of _ "confirm_row clk hash k"]) (simp add: settle_attempt_def confirm_row_def [abs_def] update_tx_def)
qed

lemma settle_keeps:
  assumes "execution_inv lossy n (s, es1 @ \<lparr>ex_tx = t, ex_stage = Answered answer\<rparr> # es2)"
  shows "execution_inv lossy n (snd (settle_attempt clk jitter (tx_id t) (tx_attemptCount t + 1) answer s), es1 @ es2)"
proof -
  let ?e = "\<lparr>ex_tx = t, ex_stage = Answered answer\<rparr>" and ?i = "tx_id t"
  note inv = execution_invD [OF assms]
  have ids: "distinct (map tx_id (sb_txs s))" using inv(1) by (simp add: rows_ok_def)
  obtain r where r: "r \<in> set (sb_txs s)" "tx_id r = ?i" "tx_maxAttempts r = tx_maxAttempts t"
    "tx_attemptCount t < tx_maxAttempts r" "n \<le> 1 \<longrightarrow> tx_attemptCount r = tx_attemptCount t"
    using inv(2) [of ?e] by (auto simp: execution_ok_def)
  have unique: "x = r" if "x \<in> set (sb_txs s)" "tx_id x = ?i" for x
    using ids that r(1,2) by (auto dest: key_unique)
  have "find_tx ?i s = Some r" unfolding find_tx_def using find_row_key [OF ids r(1)] r(2) by simp
  from settle_row [OF this, of "tx_attemptCount t + 1" clk jitter answer] obtain g where g: "\<And>x. tx_id (g x) = tx_id x \<and> tx_maxAttempts (g x) = tx_maxAttempts x \<and> tx_attemptCount (g x) = tx_attemptCount t + 1"
    and s': "snd (settle_attempt clk jitter ?i (tx_attemptCount t + 1) answer s) = s\<lparr>sb_txs := update_where (\<lambda>x. tx_id x = ?i) g (sb_txs s)\<rparr>"
    by blast
  have same_ids: "map tx_id (update_where (\<lambda>x. tx_id x = ?i) g (sb_txs s)) = map tx_id (sb_txs s)"
    using g by (intro map_update_where) simp
  have id_set: "tx_id ` set (update_where (\<lambda>x. tx_id x = ?i) g (sb_txs s)) = tx_id ` set (sb_txs s)"
    using same_ids by (metis set_map)
  have others: "in_progress ?i (es1 @ es2) = 0" if "n \<le> 1" using inv(3) [of ?i] that by simp
  show ?thesis unfolding s'
  proof (rule execution_invI)
    have "tx_attemptCount x \<le> tx_maxAttempts x \<and>
        (n \<le> 1 \<and> \<not> lossy \<longrightarrow> calls_for (tx_id x) s = tx_attemptCount x + unsettled_calls (tx_id x) (es1 @ es2))"
      if "x \<in> set (update_where (\<lambda>x. tx_id x = ?i) g (sb_txs s))" for x
      using that
    proof (cases rule: in_update_whereE)
      case kept
      then show ?thesis using inv(1) by (auto simp: rows_ok_def)
    next
      case (changed y)
      then have y: "y = r" using unique by simp
      have "unsettled_calls ?i (es1 @ es2) = 0" if "n \<le> 1" using others [OF that] unsettled_le [of ?i "es1 @ es2"] by simp
      moreover have "n \<le> 1 \<and> \<not> lossy \<longrightarrow> calls_for ?i s = tx_attemptCount r + unsettled_calls ?i (es1 @ ?e # es2)"
        using inv(1) r(1,2) by (auto simp: rows_ok_def)
      ultimately show ?thesis using g [of r] changed(3) y r by (auto simp del: unsettled_simps(1)) auto
    qed
    then show "rows_ok lossy n (s\<lparr>sb_txs := update_where (\<lambda>x. tx_id x = ?i) g (sb_txs s)\<rparr>) (es1 @ es2)"
      using inv(1) same_ids id_set by (simp add: rows_ok_def calls_for_def)
  next
    fix e assume e: "e \<in> set (es1 @ es2)"
    then obtain x where x: "x \<in> set (sb_txs s)" "tx_id x = ex_id e" "tx_maxAttempts x = tx_maxAttempts (ex_tx e)"
      "tx_attemptCount (ex_tx e) < tx_maxAttempts x" "n \<le> 1 \<longrightarrow> tx_attemptCount x = tx_attemptCount (ex_tx e)"
      using inv(2) [of e] by (auto simp: execution_ok_def)
    let ?x = "if tx_id x = ?i then g x else x"
    have "?x \<in> set (update_where (\<lambda>x. tx_id x = ?i) g (sb_txs s))" using x(1) by (auto simp: set_update_where)
    moreover have "n \<le> 1 \<Longrightarrow> tx_id x \<noteq> ?i" using alone [OF others e] x(2) by simp
    ultimately show "execution_ok n (s\<lparr>sb_txs := update_where (\<lambda>x. tx_id x = ?i) g (sb_txs s)\<rparr>) e"
      unfolding execution_ok_def using x g [of x] by (intro bexI [of _ ?x]) auto
  next
    show "in_progress i (es1 @ es2) \<le> n" for i using inv(3) [of i] by (simp split: if_splits)
  qed
qed

lemma execution_step_inv:
  assumes "execution_step lossy n c c'" and "execution_inv lossy n c"
  shows "execution_inv lossy n c'"
  using assms(1)
proof cases
  case (begins i s t es1 es2)
  note inv = execution_invD [OF assms(2) [unfolded begins(1)]]
  have t: "t \<in> set (sb_txs s)" "tx_id t = i" using find_tx_SomeD [OF begins(3)] by simp_all
  then have "execution_ok n s \<lparr>ex_tx = t, ex_stage = Checked\<rparr>"
    using begins(4) by (auto simp: execution_ok_def attempts_left_def)
  moreover have "in_progress j (es1 @ \<lparr>ex_tx = t, ex_stage = Checked\<rparr> # es2) \<le> n" for j
    using inv(3) [of j] begins(5) t(2) by auto
  ultimately show ?thesis unfolding begins(2) using inv(1,2)
    by (intro execution_invI) (auto simp: rows_ok_def)
next
  case (submits s es1 t es2 now)
  have "execution_inv lossy n (s, es1 @ \<lparr>ex_tx = t, ex_stage = Submitted\<rparr> # es2)"
    using assms(2) unfolding submits(1) by (simp add: execution_inv_def rows_ok_def execution_ok_def)
  from update_keeps [OF this] show ?thesis unfolding submits(2) updateTransactionStatus_def update_tx_def by simp
next
  case (calls s es1 t es2 now answer)
  note inv = execution_invD [OF assms(2) [unfolded calls(1)]]
  obtain r where r: "r \<in> set (sb_txs s)" "tx_id r = tx_id t"
    using inv(2) [of "\<lparr>ex_tx = t, ex_stage = Submitted\<rparr>"] by (auto simp: execution_ok_def)
  have "rows_ok lossy n (send_call (tx_id t) (chain_call_of now t) s) (es1 @ \<lparr>ex_tx = t, ex_stage = Answered answer\<rparr> # es2)"
    using inv(1) r imageI [OF r(1), of tx_id] by (auto simp: rows_ok_def send_call_def calls_for_def count_where_def)
  moreover have "execution_ok n (send_call (tx_id t) (chain_call_of now t) s) e"
    if "e \<in> set (es1 @ \<lparr>ex_tx = t, ex_stage = Answered answer\<rparr> # es2)" for e
  proof -
    have "\<exists>e' \<in> set (es1 @ \<lparr>ex_tx = t, ex_stage = Submitted\<rparr> # es2). ex_tx e' = ex_tx e" using that by auto
    then obtain e' where "e' \<in> set (es1 @ \<lparr>ex_tx = t, ex_stage = Submitted\<rparr> # es2)" "ex_tx e' = ex_tx e" by blast
    with inv(2) [of e'] show ?thesis by (simp add: execution_ok_def send_call_def)
  qed
  ultimately show ?thesis unfolding calls(2) using inv(3) by (intro execution_invI) simp_all
next
  case (settles s es1 t answer es2 clk jitter)
  show ?thesis unfolding settles(2) by (rule settle_keeps) (use assms(2) settles(1) in simp)
next
  case (is_lost s es1 e es2)
  note inv = execution_invD [OF assms(2) [unfolded is_lost(1)]]
  have "in_progress i (es1 @ es2) \<le> n" for i using inv(3) [of i] by simp
  then show ?thesis unfolding is_lost(2) using inv(1,2) is_lost(3)
    by (intro execution_invI) (auto simp: rows_ok_def)
next
  case (creates newId s es now p)
  note inv = execution_invD [OF assms(2) [unfolded creates(1)]]
  let ?s = "snd (createTransaction now newId p s)"
  have "newId \<notin> fst ` set (sb_chain s)" using inv(1) creates(3) by (auto simp: rows_ok_def)
  then have none: "calls_for newId s = 0" by (auto simp: calls_for_def count_where_0_iff)
  have "ex_id e \<noteq> newId" if "e \<in> set es" for e
    using inv(2) [OF that] creates(3) unfolding execution_ok_def by (metis imageI)
  then have "unsettled_calls newId es = 0" by (auto simp: unsettled_calls_def count_where_0_iff)
  with none inv(1) creates(3) have "rows_ok lossy n ?s es"
    by (auto simp: rows_ok_def createTransaction_def Let_def calls_for_def)
  then show ?thesis unfolding creates(2) using inv(2,3)
    by (intro execution_invI) (fastforce simp: execution_ok_def createTransaction_def Let_def)+
next
  case (queues s es jobs)
  with assms(2) show ?thesis by (simp add: execution_inv_def rows_ok_def execution_ok_def calls_for_def)
next
  case (expires s es clk)
  from update_keeps [OF assms(2) [unfolded expires(1)]] show ?thesis
    unfolding expires(2) markExpiredTransactions_def Let_def by simp
next
  case (resets s es i now)
  from update_keeps [OF assms(2) [unfolded resets(1)]] show ?thesis unfolding resets(2) update_tx_def by simp
qed

interpretation executions: inv_system "execution_step lossy n" "execution_inv lossy n" for lossy n
  by unfold_locales (rule execution_step_inv)

section \<open>Attempts and calls\<close>

text \<open>
  C4. Attempts are bounded in every interleaving of executions, requests and crons without a forced retry, whoever is
  lost on the way: the recorded attempts of a transaction never exceed its \<open>maxAttempts\<close>, and no call is made for a
  transaction that is not in the table. What bounds the calls to the chain is more than the service ensures: if no two
  executions of a transaction overlap (\<open>n \<le> 1\<close>) and none is lost, its calls are its attempts and the one that is
  still to be recorded, and never more than \<open>maxAttempts\<close>.
\<close>

theorem attempts_bounded:
  assumes "(execution_step lossy n)\<^sup>*\<^sup>* (no_txs, []) (s, es)"
  shows "case find_tx i s of
      None \<Rightarrow> calls_for i s = 0
    | Some t \<Rightarrow> tx_attemptCount t \<le> tx_maxAttempts t \<and>
        (n \<le> 1 \<and> \<not> lossy \<longrightarrow>
          calls_for i s = tx_attemptCount t + unsettled_calls i es \<and> calls_for i s \<le> tx_maxAttempts t)"
proof -
  have "execution_inv lossy n (no_txs, [])"
    by (simp add: execution_inv_def rows_ok_def no_txs_def)
  with assms have inv: "execution_inv lossy n (s, es)" by (rule executions.run_keeps)
  note ok = execution_invD [OF inv]
  show ?thesis
  proof (cases "find_tx i s")
    case None
    then have "i \<notin> tx_id ` set (sb_txs s)" by (auto simp: find_tx_def find_row_None_iff)
    then have "\<forall>c \<in> set (sb_chain s). fst c \<noteq> i" using ok(1) by (auto simp: rows_ok_def)
    then show ?thesis using None by (simp add: calls_for_def count_where_0_iff)
  next
    case (Some t)
    note t = find_tx_SomeD [OF Some]
    have row: "tx_attemptCount t \<le> tx_maxAttempts t"
      "n \<le> 1 \<and> \<not> lossy \<longrightarrow> calls_for i s = tx_attemptCount t + unsettled_calls i es"
      using ok(1) t by (auto simp: rows_ok_def)
    have "tx_attemptCount t + unsettled_calls i es \<le> tx_maxAttempts t" if single: "n \<le> 1"
    proof (cases "\<exists>e \<in> set es. ex_id e = i")
      case True
      then obtain e where e: "e \<in> set es" "ex_id e = i" by blast
      then obtain x where "x \<in> set (sb_txs s)" "tx_id x = i" "tx_attemptCount x < tx_maxAttempts x"
        using ok(2) [OF e(1)] single by (auto simp: execution_ok_def)
      then have "tx_attemptCount t < tx_maxAttempts t"
        using t ok(1) key_unique [of tx_id "sb_txs s" x t] by (simp add: rows_ok_def)
      moreover have "unsettled_calls i es \<le> 1" using unsettled_le [of i es] ok(3) [of i] single by linarith
      ultimately show ?thesis by linarith
    next
      case False
      then have "unsettled_calls i es = 0" by (auto simp: unsettled_calls_def count_where_0_iff)
      with row(1) show ?thesis by simp
    qed
    with row Some show ?thesis by auto
  qed
qed

text \<open>A payment that is carried out: its one call is its one attempt.\<close>

definition paid_state :: soroban_state where
  "paid_state = snd (executeTransaction (\<lambda>_ _. Inr ''hash'') (\<lambda>_. 9) 0 ''t'' pay_state)"

lemma pay_row: "find_tx ''t'' pay_state = Some (fst (createTransaction 0 ''t'' pay_params no_txs))"
  "sb_chain pay_state = []" "sb_txs pay_state = [fst (createTransaction 0 ''t'' pay_params no_txs)]"
  by (simp_all add: pay_state_def scheduleTransaction_def createTransaction_def no_txs_def Let_def find_tx_def find_row_Cons)

lemma pay_left: "attempts_left (fst (createTransaction 0 ''t'' pay_params no_txs))"
  "tx_attemptCount (fst (createTransaction 0 ''t'' pay_params no_txs)) = 0"
  "tx_maxAttempts (fst (createTransaction 0 ''t'' pay_params no_txs)) = 5"
  "tx_id (fst (createTransaction 0 ''t'' pay_params no_txs)) = ''t''"
  by (simp_all add: attempts_left_def createTransaction_def Let_def pay_params_def)

lemma runs_are_runs:
  "(tx_step adapter False)\<^sup>*\<^sup>* s s' \<Longrightarrow> 0 < n \<Longrightarrow> execution_run lossy n (s, []) (s', [])"
proof (induction rule: rtranclp_induct)
  case (step t u)
  from rtranclp_trans [OF step.IH [OF step.prems] step_is_run [OF step.hyps(2) step.prems]] show ?case .
qed simp

lemma paid_run: "execution_run False 1 (no_txs, []) (paid_state, [])"
  unfolding paid_state_def
  by (rule rtranclp_trans [OF runs_are_runs [OF pay_run, of 1] execute_is_run]) simp_all

lemma paid_row:
  "find_tx ''t'' paid_state = Some (confirm_row (\<lambda>_. 9) ''hash'' 1 (submit_row 9 (fst (createTransaction 0 ''t'' pay_params no_txs))))"
  unfolding paid_state_def
  using execute_success [OF pay_row(1) pay_left(1), of "\<lambda>_ _. Inr ''hash''" "\<lambda>_. 9" "''hash''" 0]
  by (simp add: find_tx_def find_row_update_where pay_left pay_row(3) find_row_Cons)

theorem attempts_bounded_witness:
  "map_option tx_attemptCount (find_tx ''t'' paid_state) = Some 1 \<and> calls_for ''t'' paid_state = 1 \<and>
   calls_for ''t'' paid_state \<le> 5"
  using attempts_bounded [OF paid_run, of "''t''"]
  by (simp add: paid_row attempt_rows pay_left unsettled_calls_def count_where_def)

text \<open>
  What overlapping costs: two jobs for one payment, each of which reads the row before the other has written, pay
  twice and record one attempt.
\<close>

theorem two_jobs_pay_twice:
  assumes "find_tx i s = Some t" and "attempts_left t"
  shows "\<exists>s'. execution_run False 2 (s, []) (s', []) \<and> calls_for i s' = calls_for i s + 2 \<and>
    map_option tx_attemptCount (find_tx i s') = Some (tx_attemptCount t + 1)"
proof -
  have id: "tx_id t = i" by (rule find_tx_SomeD [OF assms(1)])
  let ?e = "\<lambda>g. \<lparr>ex_tx = t, ex_stage = g\<rparr>" and ?call = "chain_call_of 0 t" and ?n = "tx_attemptCount t + 1"
  define s1 where "s1 = updateTransactionStatus 0 i T_submitted (updateTransactionStatus 0 i T_submitted s)"
  define s2 where "s2 = send_call i ?call (send_call i ?call s1)"
  define settle where "settle = (\<lambda>s. snd (settle_attempt (\<lambda>_. 0) 0 i ?n (Inr ''hash'') s))"
  have settle_eq: "settle u = update_tx i (confirm_row (\<lambda>_. 0) ''hash'' ?n) u" for u
    by (simp add: settle_def settle_attempt_def confirm_row_def [abs_def])
  have "execution_step False 2 (s, []) (s, [?e Checked])"
    using begins [OF assms, of "[]" "[]" 2 False] by simp
  moreover have "execution_step False 2 (s, [?e Checked]) (s, [?e Checked, ?e Checked])"
    using begins [OF assms, of "[?e Checked]" "[]" 2 False] by simp
  moreover have "execution_step False 2 (s, [?e Checked, ?e Checked])
      (updateTransactionStatus 0 i T_submitted s, [?e Submitted, ?e Checked])"
    using submits [of False 2 s "[]" t "[?e Checked]" 0] by (simp add: id)
  moreover have "execution_step False 2 (updateTransactionStatus 0 i T_submitted s, [?e Submitted, ?e Checked])
      (s1, [?e Submitted, ?e Submitted])"
    using submits [of False 2 _ "[?e Submitted]" t "[]" 0] by (simp add: id s1_def)
  moreover have "execution_step False 2 (s1, [?e Submitted, ?e Submitted])
      (send_call i ?call s1, [?e (Answered (Inr ''hash'')), ?e Submitted])"
    using calls [of False 2 s1 "[]" t "[?e Submitted]" 0 "Inr ''hash''"] by (simp add: id)
  moreover have "execution_step False 2 (send_call i ?call s1, [?e (Answered (Inr ''hash'')), ?e Submitted])
      (s2, [?e (Answered (Inr ''hash'')), ?e (Answered (Inr ''hash''))])"
    using calls [of False 2 _ "[?e (Answered (Inr ''hash''))]" t "[]" 0 "Inr ''hash''"] by (simp add: id s2_def)
  moreover have "execution_step False 2 (s2, [?e (Answered (Inr ''hash'')), ?e (Answered (Inr ''hash''))])
      (settle s2, [?e (Answered (Inr ''hash''))])"
    using settles [of False 2 s2 "[]" t "Inr ''hash''" "[?e (Answered (Inr ''hash''))]" "\<lambda>_. 0" 0] by (simp add: id settle_def)
  moreover have "execution_step False 2 (settle s2, [?e (Answered (Inr ''hash''))]) (settle (settle s2), [])"
    using settles [of False 2 "settle s2" "[]" t "Inr ''hash''" "[]" "\<lambda>_. 0" 0] by (simp add: id settle_def)
  ultimately have "execution_run False 2 (s, []) (settle (settle s2), [])" by (meson run_then r_into_rtranclp)
  moreover have "sb_chain (update_tx i f u) = sb_chain u" for f u by (simp add: update_tx_def)
  then have "calls_for i (settle (settle s2)) = calls_for i s + 2"
    by (simp add: settle_eq calls_for_def s2_def s1_def send_call_def updateTransactionStatus_def count_where_def)
  moreover have "find_tx i s2 = map_option (\<lambda>x. if tx_id x = i then submit_row 0 (submit_row 0 x) else x) (find_tx i s)"
    by (simp add: s2_def s1_def send_call_def find_tx_def updateTransactionStatus_def update_tx_def find_row_update_where
        option.map_comp o_def submit_row_def) (cases "find_row (\<lambda>t. tx_id t = i) (sb_txs s)", simp_all add: submit_row_def)
  then have "map_option tx_attemptCount (find_tx i (settle (settle s2))) = Some ?n"
    using assms(1) id by (simp add: settle_eq find_tx_update confirm_row_def submit_row_def)
  ultimately show ?thesis by blast
qed

end
