(* ===== verification/VerificationRecord.thy ===== *)
theory VerificationRecord
  imports Prelude "HOL-Library.AList"
begin

text \<open>
  What the verification of a claim leaves behind and how it is read: the outcome stored in the
  claim's JSON column (\<open>verification/verification-result.persistence.ts\<close>), and the record in
  the audit log with the state derived from it (\<open>claims/claim-verification-state.service.ts\<close>).
  JSON values are the datatype \<open>json\<close>; an object is the list of its members in their order.
\<close>

section \<open>JSON values\<close>

datatype json =
  JNull | JBool bool | JNum rat | JStr string | JArr "json list" | JObj "(string \<times> json) list"

text \<open>A missing member reads as \<open>undefined\<close>, here \<open>None\<close>; a spread puts its members in order.\<close>

definition spread :: "(string \<times> json) list \<Rightarrow> (string \<times> json) list \<Rightarrow> (string \<times> json) list" where
  "spread extra base = fold (\<lambda>(k, v). AList.update k v) extra base"

fun asRecord :: "json option \<Rightarrow> (string \<times> json) list option" where
  "asRecord (Some (JObj m)) = Some m"
| "asRecord _ = None"

fun as_string :: "json option \<Rightarrow> string option" where
  "as_string (Some (JStr s)) = Some s"
| "as_string _ = None"

fun as_number :: "json option \<Rightarrow> rat option" where
  "as_number (Some (JNum n)) = Some n"
| "as_number _ = None"

fun asStringArray :: "json option \<Rightarrow> string list" where
  "asStringArray (Some (JArr xs)) = List.map_filter (\<lambda>x. as_string (Some x)) xs"
| "asStringArray _ = []"

text \<open>The metadata of an audit entry as JSON; a date is sent as its text.\<close>

fun json_of_meta :: "meta_value \<Rightarrow> json" where
  "json_of_meta (MStr s) = JStr s"
| "json_of_meta (MBool b) = JBool b"
| "json_of_meta (MInt i) = JNum (of_int i)"
| "json_of_meta (MNum x) = JNum x"
| "json_of_meta (MTime t) = JStr (toISOString t)"
| "json_of_meta MNull = JNull"
| "json_of_meta (MObj m) = JObj (map (\<lambda>(k, v). (k, json_of_meta v)) m)"

section \<open>The outcome on the claim\<close>

datatype risk_level = Risk_low | Risk_medium | Risk_high

fun risk_name :: "risk_level \<Rightarrow> string" where
  "risk_name Risk_low = ''low''"
| "risk_name Risk_medium = ''medium''"
| "risk_name Risk_high = ''high''"

definition asRiskLevel :: "json option \<Rightarrow> risk_level option" where
  "asRiskLevel v =
     (if v = Some (JStr ''low'') then Some Risk_low
      else if v = Some (JStr ''medium'') then Some Risk_medium
      else if v = Some (JStr ''high'') then Some Risk_high
      else None)"

definition CLAIM_VERIFICATION_KEY :: string where
  "CLAIM_VERIFICATION_KEY = ''verification''"

record persisted_verification =
  pv_passed :: bool
  pv_score :: rat
  pv_confidence :: rat
  pv_riskLevel :: "risk_level option"
  pv_factors :: "string list"
  pv_recommendations :: "string list"
  pv_threshold :: rat
  pv_completedAt :: string

record verification_details =
  vd_factors :: "string list"
  vd_riskLevel :: risk_level
  vd_recommendations :: "string list option"

record verification_result =
  vt_score :: rat
  vt_confidence :: rat
  vt_details :: "verification_details option"
  vt_processedAt :: "time option"

text \<open>\<open>now\<close> is the clock's reading when the result has no \<open>processedAt\<close>.\<close>

definition toPersistedVerificationResult :: "time \<Rightarrow> verification_result \<Rightarrow> rat \<Rightarrow> (string \<times> json) list" where
  "toPersistedVerificationResult now result threshold =
     [(''passed'', JBool (threshold \<le> vt_score result)),
      (''score'', JNum (vt_score result)),
      (''confidence'', JNum (vt_confidence result)),
      (''riskLevel'', (case vt_details result of None \<Rightarrow> JNull | Some d \<Rightarrow> JStr (risk_name (vd_riskLevel d)))),
      (''factors'', JArr (case vt_details result of None \<Rightarrow> [] | Some d \<Rightarrow> map JStr (vd_factors d))),
      (''recommendations'', JArr (case Option.bind (vt_details result) vd_recommendations of
          None \<Rightarrow> [] | Some r \<Rightarrow> map JStr r)),
      (''threshold'', JNum threshold),
      (''completedAt'', JStr (toISOString (case vt_processedAt result of None \<Rightarrow> now | Some t \<Rightarrow> t)))]"

definition readPersistedVerificationResult :: "json option \<Rightarrow> persisted_verification option" where
  "readPersistedVerificationResult anchorMetadata =
     (case asRecord anchorMetadata of
        None \<Rightarrow> None
      | Some metadata \<Rightarrow>
          (case asRecord (map_of metadata CLAIM_VERIFICATION_KEY) of
             None \<Rightarrow> None
           | Some r \<Rightarrow>
               (case (as_number (map_of r ''score''), as_string (map_of r ''completedAt'')) of
                  (Some score, Some completedAt) \<Rightarrow>
                    Some \<lparr>pv_passed = (map_of r ''passed'' = Some (JBool True)),
                          pv_score = score,
                          pv_confidence = (case as_number (map_of r ''confidence'') of None \<Rightarrow> 0 | Some c \<Rightarrow> c),
                          pv_riskLevel = asRiskLevel (map_of r ''riskLevel''),
                          pv_factors = asStringArray (map_of r ''factors''),
                          pv_recommendations = asStringArray (map_of r ''recommendations''),
                          pv_threshold = (case as_number (map_of r ''threshold'') of None \<Rightarrow> 0 | Some t \<Rightarrow> t),
                          pv_completedAt = completedAt\<rparr>
                | _ \<Rightarrow> None)))"

definition mergeClaimAnchorMetadata ::
  "json option \<Rightarrow> (string \<times> json) list option \<Rightarrow> (string \<times> json) list \<Rightarrow> (string \<times> json) list" where
  "mergeClaimAnchorMetadata existing anchor verification =
     AList.update CLAIM_VERIFICATION_KEY (JObj verification)
       (spread (case anchor of None \<Rightarrow> [] | Some a \<Rightarrow> a)
         (spread (case asRecord existing of None \<Rightarrow> [] | Some e \<Rightarrow> e) []))"

section \<open>The record in the audit log\<close>

datatype claim_status =
  C_requested | C_verified | C_approved | C_disbursed | C_archived | C_cancelled

fun claim_status_name :: "claim_status \<Rightarrow> string" where
  "claim_status_name C_requested = ''requested''"
| "claim_status_name C_verified = ''verified''"
| "claim_status_name C_approved = ''approved''"
| "claim_status_name C_disbursed = ''disbursed''"
| "claim_status_name C_archived = ''archived''"
| "claim_status_name C_cancelled = ''cancelled''"

definition VERIFICATION_AUDIT_ENTITY :: string where "VERIFICATION_AUDIT_ENTITY = ''verification''"
definition VERIFICATION_COMPLETE_ACTION :: string where "VERIFICATION_COMPLETE_ACTION = ''complete''"

definition VERIFICATION_REQUIRED_STATUSES :: "claim_status list" where
  "VERIFICATION_REQUIRED_STATUSES = [C_verified, C_approved, C_disbursed]"

definition RECONCILED_CLAIM_STATUSES :: "claim_status list" where
  "RECONCILED_CLAIM_STATUSES = C_requested # VERIFICATION_REQUIRED_STATUSES"

datatype verification_drift =
  Verified_without_verification_record | Verification_record_not_reflected

record verification_audit_row =
  va_entity :: string
  va_entityId :: ident
  va_action :: string
  va_metadata :: "json option"
  va_timestamp :: time
  va_deletedAt :: "time option"

record verification_record =
  vc_claimId :: ident
  vc_score :: "rat option"
  vc_passed :: bool
  vc_completedAt :: string

record verification_state =
  vs_claimId :: ident
  vs_claimStatus :: claim_status
  vs_record :: "verification_record option"
  vs_complete :: bool
  vs_drift :: "verification_drift option"

definition toRecord :: "rat \<Rightarrow> ident \<Rightarrow> json option \<Rightarrow> time \<Rightarrow> verification_record" where
  "toRecord verificationThreshold claimId metadata timestamp =
     (let meta = (case asRecord metadata of None \<Rightarrow> [] | Some m \<Rightarrow> m);
          score = as_number (map_of meta ''score'');
          recordedStatus = as_string (map_of meta ''status'')
      in \<lparr>vc_claimId = claimId, vc_score = score,
          vc_passed = (recordedStatus = Some (claim_status_name C_verified) \<or>
            (case score of None \<Rightarrow> False | Some x \<Rightarrow> verificationThreshold \<le> x)),
          vc_completedAt = toISOString timestamp\<rparr>)"

definition completion_row :: "(ident \<Rightarrow> bool) \<Rightarrow> verification_audit_row \<Rightarrow> bool" where
  "completion_row p r \<longleftrightarrow> va_entity r = VERIFICATION_AUDIT_ENTITY \<and>
     va_action r = VERIFICATION_COMPLETE_ACTION \<and> va_deletedAt r = None \<and> p (va_entityId r)"

definition latest_first :: "verification_audit_row list \<Rightarrow> verification_audit_row list" where
  "latest_first = sort_key (\<lambda>r. - va_timestamp r)"

definition findRecord :: "rat \<Rightarrow> verification_audit_row list \<Rightarrow> ident \<Rightarrow> verification_record option" where
  "findRecord threshold logs claimId =
     (case take 1 (latest_first (filter (completion_row (\<lambda>i. i = claimId)) logs)) of
        [] \<Rightarrow> None
      | row # _ \<Rightarrow> Some (toRecord threshold (va_entityId row) (va_metadata row) (va_timestamp row)))"

definition detectDrift :: "claim_status \<Rightarrow> bool \<Rightarrow> verification_drift option" where
  "detectDrift status is_complete =
     (if \<not> is_complete \<and> status \<in> set VERIFICATION_REQUIRED_STATUSES then
        Some Verified_without_verification_record
      else if is_complete \<and> status = C_requested then Some Verification_record_not_reflected
      else None)"

definition buildState :: "ident \<times> claim_status \<Rightarrow> verification_record option \<Rightarrow> verification_state" where
  "buildState claim record =
     (let is_complete = (case record of None \<Rightarrow> False | Some r \<Rightarrow> vc_passed r)
      in \<lparr>vs_claimId = fst claim, vs_claimStatus = snd claim, vs_record = record,
          vs_complete = is_complete, vs_drift = detectDrift (snd claim) is_complete\<rparr>)"

text \<open>\<open>claims\<close> is the table of claims, as far as this service selects it: ids and statuses.\<close>

definition getState ::
  "rat \<Rightarrow> verification_audit_row list \<Rightarrow> (ident \<times> claim_status) list \<Rightarrow> ident \<Rightarrow> verification_state option" where
  "getState threshold logs claims claimId =
     (case find_row (\<lambda>c. fst c = claimId) claims of
        None \<Rightarrow> None
      | Some c \<Rightarrow> Some (buildState c (findRecord threshold logs claimId)))"

definition isVerificationComplete ::
  "rat \<Rightarrow> verification_audit_row list \<Rightarrow> (ident \<times> claim_status) list \<Rightarrow> ident \<Rightarrow> bool" where
  "isVerificationComplete threshold logs claims claimId =
     (case getState threshold logs claims claimId of None \<Rightarrow> False | Some st \<Rightarrow> vs_complete st)"

text \<open>The map of the loop over the rows: the first record seen per claim wins.\<close>

fun latest_records ::
  "rat \<Rightarrow> verification_audit_row list \<Rightarrow> (ident \<times> verification_record) list \<Rightarrow> (ident \<times> verification_record) list" where
  "latest_records threshold [] latest = latest"
| "latest_records threshold (row # rows) latest =
     (if map_of latest (va_entityId row) \<noteq> None then latest_records threshold rows latest
      else latest_records threshold rows (AList.update (va_entityId row)
             (toRecord threshold (va_entityId row) (va_metadata row) (va_timestamp row)) latest))"

definition getStates ::
  "rat \<Rightarrow> verification_audit_row list \<Rightarrow> (ident \<times> claim_status) list \<Rightarrow> verification_state list" where
  "getStates threshold logs claims =
     (if claims = [] then []
      else
        let rows = latest_first (filter (completion_row (\<lambda>i. i \<in> fst ` set claims)) logs);
            latest = latest_records threshold rows []
        in map (\<lambda>claim. buildState claim (map_of latest (fst claim))) claims)"

section \<open>Lemmas\<close>

lemma map_of_spread: "map_of (spread extra base) = map_of base ++ map_of (rev extra)"
proof (induction extra arbitrary: base)
  case (Cons x extra)
  show ?case
    by (cases x) (simp add: Cons spread_def [symmetric] spread_def [of "_ # _"] update_conv' fun_eq_iff map_add_def
        split: option.split)
qed (simp add: spread_def)

lemma map_filter_strings [simp]: "List.map_filter (\<lambda>x. as_string (Some x)) (map JStr xs) = xs"
  by (induction xs) (simp_all add: List.map_filter_simps)

lemma asRiskLevel_name [simp]: "asRiskLevel (Some (JStr (risk_name r))) = Some r"
  by (cases r) (simp_all add: asRiskLevel_def)

lemma asRiskLevel_null [simp]: "asRiskLevel (Some JNull) = None"
  by (simp add: asRiskLevel_def)

lemma latest_records_lookup:
  "map_of (latest_records th rows latest) i =
     (case map_of latest i of
        Some r \<Rightarrow> Some r
      | None \<Rightarrow> (case filter (\<lambda>r. va_entityId r = i) rows of
          [] \<Rightarrow> None
        | row # _ \<Rightarrow> Some (toRecord th (va_entityId row) (va_metadata row) (va_timestamp row))))"
  by (induction th rows latest rule: latest_records.induct) (auto simp: update_conv' split: option.splits)

section \<open>Properties\<close>

text \<open>
  What the pipeline stores, the claim reads back: whatever the JSON column held before, after
  \<open>mergeClaimAnchorMetadata\<close> with the stored form of a result the claim's outcome is that result,
  passed exactly when its score reaches the threshold, and every other member the anchor does
  not set keeps its value.
\<close>

theorem verification_outcome_roundtrip:
  "let merged = mergeClaimAnchorMetadata existing anchor (toPersistedVerificationResult now result threshold)
   in readPersistedVerificationResult (Some (JObj merged)) =
      Some \<lparr>pv_passed = (threshold \<le> vt_score result), pv_score = vt_score result,
            pv_confidence = vt_confidence result, pv_riskLevel = map_option vd_riskLevel (vt_details result),
            pv_factors = (case vt_details result of None \<Rightarrow> [] | Some d \<Rightarrow> vd_factors d),
            pv_recommendations =
              (case Option.bind (vt_details result) vd_recommendations of None \<Rightarrow> [] | Some r \<Rightarrow> r),
            pv_threshold = threshold,
            pv_completedAt = toISOString (case vt_processedAt result of None \<Rightarrow> now | Some t \<Rightarrow> t)\<rparr> \<and>
    (\<forall>k. (if k = CLAIM_VERIFICATION_KEY \<or> k \<in> fst ` set (case anchor of None \<Rightarrow> [] | Some a \<Rightarrow> a) then True
      else map_of merged k = map_of (rev (case asRecord existing of None \<Rightarrow> [] | Some e \<Rightarrow> e)) k))"
proof -
  define merged where
    "merged = mergeClaimAnchorMetadata existing anchor (toPersistedVerificationResult now result threshold)"
  have key: "map_of merged CLAIM_VERIFICATION_KEY = Some (JObj (toPersistedVerificationResult now result threshold))"
    by (simp add: merged_def mergeClaimAnchorMetadata_def update_conv')
  have other: "map_of merged k = map_of (rev (case asRecord existing of None \<Rightarrow> [] | Some e \<Rightarrow> e)) k"
    if "k \<noteq> CLAIM_VERIFICATION_KEY" "k \<notin> fst ` set (case anchor of None \<Rightarrow> [] | Some a \<Rightarrow> a)" for k
  proof -
    have "map_of (rev (case anchor of None \<Rightarrow> [] | Some a \<Rightarrow> a)) k = None"
      using that(2) by (simp add: map_of_eq_None_iff)
    with that(1) show ?thesis
      by (simp add: merged_def mergeClaimAnchorMetadata_def update_conv' map_of_spread map_add_def)
  qed
  have "readPersistedVerificationResult (Some (JObj merged)) =
      Some \<lparr>pv_passed = (threshold \<le> vt_score result), pv_score = vt_score result,
            pv_confidence = vt_confidence result, pv_riskLevel = map_option vd_riskLevel (vt_details result),
            pv_factors = (case vt_details result of None \<Rightarrow> [] | Some d \<Rightarrow> vd_factors d),
            pv_recommendations =
              (case Option.bind (vt_details result) vd_recommendations of None \<Rightarrow> [] | Some r \<Rightarrow> r),
            pv_threshold = threshold,
            pv_completedAt = toISOString (case vt_processedAt result of None \<Rightarrow> now | Some t \<Rightarrow> t)\<rparr>"
    by (simp add: readPersistedVerificationResult_def key toPersistedVerificationResult_def
        split: option.split)
  with other show ?thesis unfolding merged_def [symmetric] Let_def by simp
qed

text \<open>
  The batch query is the single query: \<open>getStates\<close>, with two queries for all claims, gives
  for every claim the state \<open>getState\<close> gives for it alone.
\<close>

theorem getStates_each:
  assumes "distinct (map fst claims)"
  shows "map Some (getStates threshold logs claims) = map (getState threshold logs claims) (map fst claims)"
proof (cases "claims = []")
  case False
  have "map_of (latest_records threshold
          (latest_first (filter (completion_row (\<lambda>i. i \<in> fst ` set claims)) logs)) []) (fst c) =
      findRecord threshold logs (fst c)" if "c \<in> set claims" for c
  proof -
    have "filter (\<lambda>r. va_entityId r = fst c) (latest_first (filter (completion_row (\<lambda>i. i \<in> fst ` set claims)) logs)) =
        latest_first (filter (\<lambda>r. va_entityId r = fst c) (filter (completion_row (\<lambda>i. i \<in> fst ` set claims)) logs))"
      by (simp add: latest_first_def filter_sort)
    also have "filter (\<lambda>r. va_entityId r = fst c) (filter (completion_row (\<lambda>i. i \<in> fst ` set claims)) logs) =
        filter (completion_row (\<lambda>i. i = fst c)) logs"
      using that by (auto simp: completion_row_def intro!: filter_cong)
    finally show ?thesis
      by (simp add: latest_records_lookup findRecord_def split: list.split)
  qed
  moreover have "find_row (\<lambda>d. fst d = fst c) claims = Some c" if "c \<in> set claims" for c
    using find_row_key [OF assms that] by simp
  ultimately show ?thesis using False by (simp add: getStates_def getState_def Let_def)
qed (simp add: getStates_def)

theorem getStates_each_witness:
  "map Some (getStates (1/2) [\<lparr>va_entity = ''verification'', va_entityId = ''c'', va_action = ''complete'',
       va_metadata = Some (JObj [(''score'', JNum 1)]), va_timestamp = 5, va_deletedAt = None\<rparr>]
     [(''c'', C_requested), (''d'', C_verified)]) =
   map (getState (1/2) [\<lparr>va_entity = ''verification'', va_entityId = ''c'', va_action = ''complete'',
       va_metadata = Some (JObj [(''score'', JNum 1)]), va_timestamp = 5, va_deletedAt = None\<rparr>]
     [(''c'', C_requested), (''d'', C_verified)]) [''c'', ''d'']"
  using getStates_each [of "[(''c'', C_requested), (''d'', C_verified)]"] by simp

end
