(* ===== verification/ClaimLedger.thy ===== *)
theory ClaimLedger
  imports VerificationRecord SorobanTx
begin

text \<open>
  Claims and the money behind them: \<open>claims/claims.service.ts\<close> (the life of a claim and its
  expiry), \<open>common/budget/budget.service.ts\<close> (the budget check) and
  \<open>claims/cancel-and-reissue.service.ts\<close>. The state is the tables of claims, campaigns, ledger
  entries and on-chain event correlations, the audit log, the on-chain transactions with their
  queue (theory \<open>SorobanTx\<close>) and the claims handed to verification.

  Amounts are rationals: sums and comparisons are exact, the rounding of the database's doubles
  is not modelled. Encryption, the rendering of a number and the on-chain cleanup calls are
  parameters (\<open>claims_env\<close>).

  The abstract specification is the ledger machine \<open>ledger_move\<close> with three moves (a claim
  opens and locks its amount, advances, closes and unlocks); every operation of the services is
  shown to be a run of it, and the invariants are proved on the machine.
\<close>

section \<open>Data\<close>

record claim =
  cl_id :: ident
  cl_createdAt :: time
  cl_updatedAt :: time
  cl_deletedAt :: "time option"
  cl_status :: claim_status
  cl_campaignId :: ident
  cl_amount :: rat
  cl_recipientRef :: string
  cl_evidenceRef :: "string option"
  cl_expiresAt :: "time option"
  cl_cancelledAt :: "time option"
  cl_cancelledBy :: "ident option"
  cl_cancelReason :: "string option"
  cl_reissuedFromId :: "ident option"
  cl_anchorMetadata :: "json option"
  cl_receiptPointer :: "string option"
  cl_importJobId :: "ident option"
  cl_importRowNumber :: "int option"

record campaign =
  ca_id :: ident
  ca_name :: string
  ca_budget :: rat
  ca_metadata :: "json option"
  ca_orgId :: "ident option"
  ca_deletedAt :: "time option"

datatype ledger_event = Lock | Unlock | Disburse

record ledger_entry =
  le_campaignId :: ident
  le_claimId :: "ident option"
  le_eventType :: ledger_event
  le_amount :: rat
  le_note :: string

record event_correlation =
  co_claimId :: "ident option"
  co_eventTopic :: string
  co_packageId :: "string option"
  co_createdAt :: time

record claims_state =
  cs_claims :: "claim list"
  cs_campaigns :: "campaign list"
  cs_ledger :: "ledger_entry list"
  cs_correlations :: "event_correlation list"
  cs_audit :: "(time \<times> audit_params) list"
  cs_soroban :: soroban_state
  cs_verifyQueue :: "ident list"

text \<open>
  What the services get from outside: encryption, \<open>toString\<close> of a number, whether the on-chain
  execution is enabled with an adapter, the adapter's revoke and refund (if it has them; an
  error message or a transaction hash per package), whether enqueueing a verification succeeds.
\<close>

record claims_env =
  ce_encrypt :: "string \<Rightarrow> string"
  ce_decrypt :: "string \<Rightarrow> string"
  ce_num :: "rat \<Rightarrow> string"
  ce_onchain :: bool
  ce_cleanup :: "((string \<Rightarrow> string + string) \<times> (string \<Rightarrow> string + string)) option"
  ce_enqueues :: "ident \<Rightarrow> bool"

definition find_claim :: "ident \<Rightarrow> claims_state \<Rightarrow> claim option" where
  "find_claim i s = find_row (\<lambda>c. cl_id c = i) (cs_claims s)"

definition find_campaign :: "ident \<Rightarrow> claims_state \<Rightarrow> campaign option" where
  "find_campaign i s = find_row (\<lambda>c. ca_id c = i) (cs_campaigns s)"

definition update_claim :: "time \<Rightarrow> ident \<Rightarrow> (claim \<Rightarrow> claim) \<Rightarrow> claims_state \<Rightarrow> claims_state" where
  "update_claim now i f s =
     s\<lparr>cs_claims := update_where (\<lambda>c. cl_id c = i) (\<lambda>c. f c\<lparr>cl_updatedAt := now\<rparr>) (cs_claims s)\<rparr>"

definition log_audit :: "time \<Rightarrow> audit_params \<Rightarrow> claims_state \<Rightarrow> claims_state" where
  "log_audit now a s = s\<lparr>cs_audit := cs_audit s @ [(now, a)]\<rparr>"

definition not_found :: "string \<Rightarrow> app_error" where
  "not_found msg = AppException NOT_FOUND 404 msg"

definition bad_request :: "string \<Rightarrow> app_error" where
  "bad_request msg = AppException BAD_REQUEST 400 msg"

section \<open>The budget service\<close>

definition ledger_sum :: "ledger_event \<Rightarrow> ident \<Rightarrow> claims_state \<Rightarrow> rat" where
  "ledger_sum ev c s = sum_list (map le_amount
     (filter (\<lambda>e. le_campaignId e = c \<and> le_eventType e = ev) (cs_ledger s)))"

definition getCampaignBudgetUsage :: "ident \<Rightarrow> claims_state \<Rightarrow> rat \<times> rat" where
  "getCampaignBudgetUsage c s = (ledger_sum Lock c s, ledger_sum Disburse c s)"

definition assertWithinBudget :: "ident \<Rightarrow> rat \<Rightarrow> claims_state \<Rightarrow> app_error + unit" where
  "assertWithinBudget c newAmount s =
     (case find_campaign c s of
        None \<Rightarrow> Inl (bad_request ''Campaign not found'')
      | Some ca \<Rightarrow>
          let (locked, disbursed) = getCampaignBudgetUsage c s
          in if ca_budget ca < locked + disbursed + newAmount
             then Inl (bad_request ''Campaign funding cap exceeded'') else Inr ())"

text \<open>Under the campaign's row lock, so one such check and its ledger entry are one step.\<close>

definition reserveBudget :: "ident \<Rightarrow> rat \<Rightarrow> claims_state \<Rightarrow> app_error + unit" where
  "reserveBudget c newAmount s =
     (case find_campaign c s of
        None \<Rightarrow> Inl (bad_request ''Campaign not found'')
      | Some ca \<Rightarrow>
          let total = ledger_sum Lock c s + ledger_sum Disburse c s + newAmount
          in if ca_budget ca < total then Inl (bad_request ''Campaign funding cap exceeded'')
             else Inr ())"

section \<open>The claims service\<close>

record create_claim_dto =
  dt_campaignId :: ident
  dt_amount :: rat
  dt_recipientRef :: string
  dt_tokenAddress :: string
  dt_evidenceRef :: "string option"
  dt_expiresAt :: "time option"
  dt_importJobId :: "ident option"
  dt_importRowNumber :: "int option"

definition DEFAULT_CLAIM_EXPIRY_DAYS :: int where
  "DEFAULT_CLAIM_EXPIRY_DAYS = 30"

text \<open>The table's unique index on the import job and row (null values never collide).\<close>

definition import_row_taken :: "create_claim_dto \<Rightarrow> claims_state \<Rightarrow> bool" where
  "import_row_taken dto s \<longleftrightarrow> dt_importJobId dto \<noteq> None \<and> dt_importRowNumber dto \<noteq> None \<and>
     (\<exists>c \<in> set (cs_claims s). cl_importJobId c = dt_importJobId dto \<and>
        cl_importRowNumber c = dt_importRowNumber dto)"

text \<open>The transaction of \<open>create\<close>: budget, claim and ledger entry, all or nothing.\<close>

definition create_transaction ::
  "claims_env \<Rightarrow> time \<Rightarrow> ident \<Rightarrow> create_claim_dto \<Rightarrow> claims_state \<Rightarrow> (app_error + claim) \<times> claims_state" where
  "create_transaction env now newId dto s =
     (case reserveBudget (dt_campaignId dto) (dt_amount dto) s of
        Inl e \<Rightarrow> (Inl e, s)
      | Inr _ \<Rightarrow>
          if import_row_taken dto s then (Inl (PlainError ''Unique constraint failed''), s)
          else
            let created = \<lparr>cl_id = newId, cl_createdAt = now, cl_updatedAt = now,
                  cl_deletedAt = None, cl_status = C_requested, cl_campaignId = dt_campaignId dto,
                  cl_amount = dt_amount dto, cl_recipientRef = ce_encrypt env (dt_recipientRef dto),
                  cl_evidenceRef = dt_evidenceRef dto,
                  cl_expiresAt = Some (case dt_expiresAt dto of
                      None \<Rightarrow> now + DEFAULT_CLAIM_EXPIRY_DAYS * 24 * 60 * 60 * 1000
                    | Some t \<Rightarrow> t),
                  cl_cancelledAt = None, cl_cancelledBy = None, cl_cancelReason = None,
                  cl_reissuedFromId = None, cl_anchorMetadata = None, cl_receiptPointer = None,
                  cl_importJobId = dt_importJobId dto, cl_importRowNumber = dt_importRowNumber dto\<rparr>;
                entry = \<lparr>le_campaignId = dt_campaignId dto, le_claimId = Some newId,
                  le_eventType = Lock, le_amount = cl_amount created,
                  le_note = ''Claim '' @ newId @ '' created; locked against campaign budget''\<rparr>
            in (Inr created, s\<lparr>cs_claims := cs_claims s @ [created],
                               cs_ledger := cs_ledger s @ [entry]\<rparr>))"

definition enqueueVerificationForClaim :: "claims_env \<Rightarrow> ident \<Rightarrow> claims_state \<Rightarrow> claims_state" where
  "enqueueVerificationForClaim env i s =
     (if ce_enqueues env i then s\<lparr>cs_verifyQueue := cs_verifyQueue s @ [i]\<rparr> else s)"

definition create ::
  "claims_env \<Rightarrow> time \<Rightarrow> ident \<Rightarrow> create_claim_dto \<Rightarrow> claims_state \<Rightarrow> (app_error + claim) \<times> claims_state" where
  "create env now newId dto s =
     (case find_campaign (dt_campaignId dto) s of
        None \<Rightarrow> (Inl (not_found ''Campaign not found''), s)
      | Some campaign \<Rightarrow>
          (case create_transaction env now newId dto s of
             (Inl e, s1) \<Rightarrow> (Inl e, s1)
           | (Inr c, s1) \<Rightarrow>
               (Inr (c\<lparr>cl_recipientRef := ce_decrypt env (cl_recipientRef c)\<rparr>),
                enqueueVerificationForClaim env (cl_id c) s1)))"

record claim_view =
  cv_claim :: claim
  cv_verification :: "persisted_verification option"

definition view_claim :: "claims_env \<Rightarrow> claim \<Rightarrow> claim_view" where
  "view_claim env c =
     \<lparr>cv_claim = c\<lparr>cl_recipientRef := ce_decrypt env (cl_recipientRef c)\<rparr>,
      cv_verification = readPersistedVerificationResult (cl_anchorMetadata c)\<rparr>"

definition findAll :: "claims_env \<Rightarrow> claims_state \<Rightarrow> claim_view list" where
  "findAll env s = map (view_claim env) (filter (\<lambda>c. cl_deletedAt c = None) (cs_claims s))"

definition findOne :: "claims_env \<Rightarrow> ident \<Rightarrow> claims_state \<Rightarrow> app_error + claim_view" where
  "findOne env i s =
     (case find_claim i s of
        None \<Rightarrow> Inl (not_found ''Claim not found'')
      | Some c \<Rightarrow> if cl_deletedAt c \<noteq> None then Inl (not_found ''Claim not found'')
                  else Inr (view_claim env c))"

definition transitionStatus ::
  "time \<Rightarrow> ident \<Rightarrow> claim_status \<Rightarrow> claim_status \<Rightarrow> claims_state \<Rightarrow> (app_error + claim) \<times> claims_state" where
  "transitionStatus now i fromStatus toStatus s =
     (case find_claim i s of
        None \<Rightarrow> (Inl (not_found ''Claim not found''), s)
      | Some c \<Rightarrow>
          if cl_status c \<noteq> fromStatus then
            (Inl (bad_request (''Cannot transition from '' @ claim_status_name (cl_status c) @ '' to ''
               @ claim_status_name toStatus)), s)
          else
            (Inr (c\<lparr>cl_status := toStatus, cl_updatedAt := now\<rparr>),
             update_claim now i (cl_status_update (\<lambda>_. toStatus)) s))"

definition verify ::
  "claims_env \<Rightarrow> time \<Rightarrow> ident \<Rightarrow> claims_state \<Rightarrow> (app_error + claim) \<times> claims_state" where
  "verify env now i s =
     (case find_claim i s of
        None \<Rightarrow> (Inl (not_found ''Claim not found''), s)
      | Some c \<Rightarrow>
          (case readPersistedVerificationResult (cl_anchorMetadata c) of
             None \<Rightarrow> (Inl (bad_request (''Claim '' @ i @ '' has no completed verification record. ''
               @ ''Verification is queued automatically when a claim is created; ''
               @ ''wait for it to complete before verifying.'')), s)
           | Some v \<Rightarrow>
               if \<not> pv_passed v then
                 (Inl (bad_request (''Claim '' @ i @ '' did not pass verification (score ''
                    @ ce_num env (pv_score v) @ '' below threshold '' @ ce_num env (pv_threshold v)
                    @ '') and cannot be marked verified.'')), s)
               else if cl_status c = C_verified then
                 (map_sum id cv_claim (findOne env i s), s)
               else transitionStatus now i C_requested C_verified s))"

definition approve_claim :: "time \<Rightarrow> ident \<Rightarrow> claims_state \<Rightarrow> (app_error + claim) \<times> claims_state" where
  "approve_claim now i s = transitionStatus now i C_verified C_approved s"

definition archive :: "time \<Rightarrow> ident \<Rightarrow> claims_state \<Rightarrow> (app_error + claim) \<times> claims_state" where
  "archive now i s = transitionStatus now i C_disbursed C_archived s"

definition getPackageIdForClaim :: "ident \<Rightarrow> claims_state \<Rightarrow> app_error + string" where
  "getPackageIdForClaim i s =
     (case sort_key (\<lambda>e. - co_createdAt e)
             (filter (\<lambda>e. co_claimId e = Some i \<and> co_eventTopic e = ''package_created'') (cs_correlations s)) of
        [] \<Rightarrow> Inl (PlainError (''Package ID not found for claim '' @ i))
      | e # _ \<Rightarrow> if truthy (co_packageId e) then Inr (the (co_packageId e))
                 else Inl (PlainError (''Package ID not found for claim '' @ i)))"

text \<open>The claims table has no column \<open>metadata\<close>, so only the campaign's address is ever found.\<close>

definition getTokenAddressForClaim :: "claim \<Rightarrow> claims_state \<Rightarrow> string" where
  "getTokenAddressForClaim c s =
     (case Option.bind (find_campaign (cl_campaignId c) s)
             (\<lambda>ca. Option.bind (asRecord (ca_metadata ca)) (\<lambda>m. as_string (map_of m ''tokenAddress''))) of
        None \<Rightarrow> ''GATEMHCCKCY67ZUCKTROYN24ZYT5GK4EQZ5LKG3FZTSZ3NYNEJBBENSN''
      | Some t \<Rightarrow> if t = [] then ''GATEMHCCKCY67ZUCKTROYN24ZYT5GK4EQZ5LKG3FZTSZ3NYNEJBBENSN'' else t)"

definition trim_ws :: "string \<Rightarrow> string" where
  "trim_ws s = (let ws = (\<lambda>c. c \<in> {CHR '' '', CHR 0x09, CHR 0x0A, CHR 0x0B, CHR 0x0C, CHR 0x0D, CHR 0xA0})
     in rev (dropWhile ws (rev (dropWhile ws s))))"

text \<open>
  The on-chain part of \<open>disburse\<close>: \<open>ambient\<close> is the correlation id of the logger's context;
  reading 1 of the clock is in the trace id, 2 stamps the transaction row. A failure is logged
  and leaves the state as it was.
\<close>

definition disburse_onchain ::
  "claims_env \<Rightarrow> clock \<Rightarrow> ident \<Rightarrow> string option \<Rightarrow> claim \<Rightarrow> string option \<Rightarrow> string option
   \<Rightarrow> claims_state \<Rightarrow> claims_state" where
  "disburse_onchain env clk newTxId ambient c receiptPointer correlationId s =
     (let given = (case correlationId of None \<Rightarrow> [] | Some t \<Rightarrow> trim_ws t);
          traceId = (if given \<noteq> [] then given
                     else if truthy ambient then the ambient
                     else ''disburse-'' @ cl_id c @ ''-'' @ show_int (clk 1))
      in if ce_onchain env then
           (case getPackageIdForClaim (cl_id c) s of
              Inl e \<Rightarrow> s
            | Inr packageId \<Rightarrow>
                let (tx, sb) = createTransaction (clk 2) newTxId
                      \<lparr>cp_claimId = Some (cl_id c), cp_operation = Disburse_claim,
                       cp_packageId = Some packageId, cp_operatorAddress = Some ''admin'',
                       cp_recipientAddress = Some (ce_decrypt env (cl_recipientRef c)),
                       cp_amount = Some (ce_num env (cl_amount c)),
                       cp_tokenAddress = Some (getTokenAddressForClaim c s),
                       cp_correlationId = Some traceId,
                       cp_receiptPointer = receiptPointer, cp_maxAttempts = Some 5\<rparr>
                      (cs_soroban s)
                in s\<lparr>cs_soroban := snd (scheduleTransaction (tx_id tx) None (Some 1) (Some traceId) sb)\<rparr>)
         else s)"

text \<open>Readings 0 and 3 of the clock stamp the receipt pointer and the new status.\<close>

definition disburse ::
  "claims_env \<Rightarrow> clock \<Rightarrow> ident \<Rightarrow> string option \<Rightarrow> ident \<Rightarrow> string option \<Rightarrow> string option
   \<Rightarrow> claims_state \<Rightarrow> (app_error + claim) \<times> claims_state" where
  "disburse env clk newTxId ambient i receiptPointer correlationId s =
     (case find_claim i s of
        None \<Rightarrow> (Inl (not_found ''Claim not found''), s)
      | Some c \<Rightarrow>
          if cl_status c \<noteq> C_approved then
            (Inl (bad_request (''Cannot transition from '' @ claim_status_name (cl_status c) @ '' to ''
               @ claim_status_name C_disbursed)), s)
          else
            let s1 = (if truthy receiptPointer
                      then update_claim (clk 0) i (cl_receiptPointer_update (\<lambda>_. receiptPointer)) s else s);
                s2 = disburse_onchain env clk newTxId ambient c receiptPointer correlationId s1
            in transitionStatus (clk 3) i C_approved C_disbursed s2)"

subsection \<open>Expiry\<close>

definition cleanupExpiredClaimOnchain ::
  "claims_env \<Rightarrow> ident \<Rightarrow> claims_state \<Rightarrow> app_error + (string \<times> meta_value) list" where
  "cleanupExpiredClaimOnchain env i s =
     (if \<not> ce_onchain env then Inr [(''attempted'', MBool False), (''skippedReason'', MStr ''onchain_disabled'')]
      else case ce_cleanup env of
        None \<Rightarrow> Inr [(''attempted'', MBool False), (''skippedReason'', MStr ''adapter_missing_cleanup_methods'')]
      | Some (revoke, refund) \<Rightarrow>
          (case getPackageIdForClaim i s of
             Inl e \<Rightarrow> Inl e
           | Inr packageId \<Rightarrow>
               (case revoke packageId of
                  Inl msg \<Rightarrow> Inl (PlainError msg)
                | Inr revoked \<Rightarrow>
                    (case refund packageId of
                       Inl msg \<Rightarrow> Inl (PlainError msg)
                     | Inr refunded \<Rightarrow> Inr [(''attempted'', MBool True), (''revoked'', MStr revoked),
                                            (''refunded'', MStr refunded)]))))"

definition expired_claim :: "time \<Rightarrow> claim \<Rightarrow> bool" where
  "expired_claim now c \<longleftrightarrow> cl_deletedAt c = None \<and> cl_status c \<in> {C_requested, C_verified} \<and>
     (case cl_expiresAt c of None \<Rightarrow> False | Some t \<Rightarrow> t < now)"

fun cleanup_loop ::
  "claims_env \<Rightarrow> time \<Rightarrow> claim list \<Rightarrow> nat \<Rightarrow> claims_state \<Rightarrow> (app_error + nat) \<times> claims_state" where
  "cleanup_loop env now [] archived s = (Inr archived, s)"
| "cleanup_loop env now (c # cs) archived s =
     (case cleanupExpiredClaimOnchain env (cl_id c) s of
        Inl e \<Rightarrow> (Inl e, s)
      | Inr onchainMetadata \<Rightarrow>
          cleanup_loop env now cs (archived + 1)
            (log_audit now
               \<lparr>au_actorId = ''system'', au_entity = ''claim'', au_entityId = cl_id c,
                au_action = ''expired_cleanup'',
                au_metadata = [(''previousStatus'', MStr (claim_status_name (cl_status c))),
                               (''nextStatus'', MStr (claim_status_name C_archived)),
                               (''expiresAt'', (case cl_expiresAt c of None \<Rightarrow> MNull | Some t \<Rightarrow> MTime t)),
                               (''onchain'', MObj onchainMetadata)]\<rparr>
               (update_claim now (cl_id c) (cl_status_update (\<lambda>_. C_archived)) s)))"

definition cleanupExpiredClaims ::
  "claims_env \<Rightarrow> time \<Rightarrow> claims_state \<Rightarrow> (app_error + nat \<times> nat) \<times> claims_state" where
  "cleanupExpiredClaims env now s =
     (let expired = filter (expired_claim now) (cs_claims s)
      in if expired = [] then (Inr (0, 0), s)
         else case cleanup_loop env now expired 0 s of
                (Inl e, s1) \<Rightarrow> (Inl e, s1)
              | (Inr archived, s1) \<Rightarrow> (Inr (length expired, archived), s1))"

definition refreshFunnelGauges :: "claims_state \<Rightarrow> (claim_status \<times> nat) list" where
  "refreshFunnelGauges s = map (\<lambda>st. (st, count_where (\<lambda>c. cl_status c = st \<and> cl_deletedAt c = None) (cs_claims s)))
     [C_requested, C_verified, C_approved, C_disbursed, C_archived, C_cancelled]"

section \<open>Cancellation and reissue\<close>

definition CANCELLABLE_STATUSES :: "claim_status list" where
  "CANCELLABLE_STATUSES = [C_requested, C_verified, C_approved]"

record cancel_dto =
  cd_operatorId :: ident
  cd_reason :: "string option"

record reissue_dto =
  rd_operatorId :: ident
  rd_reason :: "string option"
  rd_amount :: "rat option"
  rd_recipientRef :: "string option"

definition cancel_row :: "time \<Rightarrow> ident \<Rightarrow> string option \<Rightarrow> claim \<Rightarrow> claim" where
  "cancel_row now operator reason c =
     c\<lparr>cl_status := C_cancelled, cl_cancelledAt := Some now, cl_cancelledBy := Some operator,
       cl_cancelReason := reason\<rparr>"

definition unlock_entry :: "claim \<Rightarrow> string \<Rightarrow> ledger_entry" where
  "unlock_entry c note = \<lparr>le_campaignId = cl_campaignId c, le_claimId = Some (cl_id c),
     le_eventType = Unlock, le_amount = - cl_amount c, le_note = note\<rparr>"

definition cancelled_event :: "time \<Rightarrow> claim \<Rightarrow> ident \<Rightarrow> string option \<Rightarrow> audit_params" where
  "cancelled_event now c operator reason =
     \<lparr>au_actorId = operator, au_entity = ''claim'', au_entityId = cl_id c, au_action = ''claim.cancelled'',
      au_metadata = [(''type'', MStr ''claim.cancelled''), (''claimId'', MStr (cl_id c)),
        (''campaignId'', MStr (cl_campaignId c)), (''operatorId'', MStr operator),
        (''reason'', (case reason of None \<Rightarrow> MNull | Some r \<Rightarrow> MStr r)),
        (''unlockedAmount'', MNum (cl_amount c)), (''timestamp'', MTime now)]\<rparr>"

text \<open>
  The claim as \<open>cancel\<close> or \<open>reissue\<close> read it, or why it may not be cancelled. The two differ
  in their messages: for a missing claim, a cancelled one, and another status.
\<close>

type_synonym refusals = "string \<times> string \<times> (string \<Rightarrow> string)"

definition cancel_refusals :: refusals where
  "cancel_refusals = (''Claim not found'', ''Claim is already cancelled'',
     \<lambda>st. ''Cannot cancel a claim in status '' @ [CHR 0x22] @ st @ [CHR 0x22]
       @ ''. Only requested, verified, approved claims may be cancelled.'')"

definition reissue_refusals :: refusals where
  "reissue_refusals = (''Original claim not found'', ''Original claim is already cancelled'',
     \<lambda>st. ''Cannot reissue from a claim in status '' @ [CHR 0x22] @ st @ [CHR 0x22]
       @ ''. Only requested, verified, approved claims may be reissued.'')"

definition cancellable :: "refusals \<Rightarrow> ident \<Rightarrow> claims_state \<Rightarrow> app_error + claim" where
  "cancellable msgs i s =
     (case find_claim i s of
        None \<Rightarrow> Inl (not_found (fst msgs))
      | Some c \<Rightarrow>
          if cl_deletedAt c \<noteq> None then Inl (not_found (fst msgs))
          else if cl_status c = C_cancelled then Inl (bad_request (fst (snd msgs)))
          else if cl_status c \<notin> set CANCELLABLE_STATUSES then
            Inl (bad_request (snd (snd msgs) (claim_status_name (cl_status c))))
          else Inr c)"

text \<open>The transaction of \<open>cancel\<close> and what follows it, on the claim as it was read.\<close>

definition cancel_commit ::
  "claims_env \<Rightarrow> time \<Rightarrow> claim \<Rightarrow> cancel_dto \<Rightarrow> claims_state \<Rightarrow> claim \<times> claims_state" where
  "cancel_commit env now c dto s =
     (let cancelled = cancel_row now (cd_operatorId dto) (cd_reason dto) c\<lparr>cl_updatedAt := now\<rparr>;
          s1 = update_claim now (cl_id c) (cancel_row now (cd_operatorId dto) (cd_reason dto)) s;
          s2 = s1\<lparr>cs_ledger := cs_ledger s1 @
                 [unlock_entry c (''Claim '' @ cl_id c @ '' cancelled by '' @ cd_operatorId dto @ ''. Reason: ''
                    @ (case cd_reason dto of None \<Rightarrow> ''none'' | Some r \<Rightarrow> r))]\<rparr>
      in (cancelled\<lparr>cl_recipientRef := ce_decrypt env (cl_recipientRef cancelled)\<rparr>,
          log_audit now (cancelled_event now c (cd_operatorId dto) (cd_reason dto)) s2))"

definition cancel ::
  "claims_env \<Rightarrow> time \<Rightarrow> ident \<Rightarrow> cancel_dto \<Rightarrow> claims_state \<Rightarrow> (app_error + claim) \<times> claims_state" where
  "cancel env now i dto s =
     (case cancellable cancel_refusals i s of
        Inl e \<Rightarrow> (Inl e, s)
      | Inr c \<Rightarrow> (case cancel_commit env now c dto s of (r, s1) \<Rightarrow> (Inr r, s1)))"

text \<open>A replacement claim: no expiry, no import row, the reference as stored.\<close>

definition replacement :: "time \<Rightarrow> ident \<Rightarrow> claim \<Rightarrow> rat \<Rightarrow> string \<Rightarrow> claim" where
  "replacement now newId original newAmount newRecipientRef =
     \<lparr>cl_id = newId, cl_createdAt = now, cl_updatedAt = now, cl_deletedAt = None,
      cl_status = C_requested, cl_campaignId = cl_campaignId original, cl_amount = newAmount,
      cl_recipientRef = newRecipientRef, cl_evidenceRef = cl_evidenceRef original,
      cl_expiresAt = None, cl_cancelledAt = None, cl_cancelledBy = None, cl_cancelReason = None,
      cl_reissuedFromId = Some (cl_id original), cl_anchorMetadata = None, cl_receiptPointer = None,
      cl_importJobId = None, cl_importRowNumber = None\<rparr>"

definition reissue ::
  "claims_env \<Rightarrow> time \<Rightarrow> ident \<Rightarrow> ident \<Rightarrow> reissue_dto \<Rightarrow> claims_state
   \<Rightarrow> (app_error + claim \<times> claim) \<times> claims_state" where
  "reissue env now newId i dto s =
     (case cancellable reissue_refusals i s of
        Inl e \<Rightarrow> (Inl e, s)
      | Inr original \<Rightarrow>
          let newAmount = (case rd_amount dto of None \<Rightarrow> cl_amount original | Some a \<Rightarrow> a);
              newRecipientRef = (if truthy (rd_recipientRef dto)
                                 then ce_encrypt env (the (rd_recipientRef dto))
                                 else cl_recipientRef original);
              cancelReason = Some (case rd_reason dto of None \<Rightarrow> ''Reissued as new claim'' | Some r \<Rightarrow> r);
              cancelledClaim = cancel_row now (rd_operatorId dto) cancelReason original\<lparr>cl_updatedAt := now\<rparr>;
              s1 = update_claim now i (cancel_row now (rd_operatorId dto) cancelReason) s;
              s2 = s1\<lparr>cs_ledger := cs_ledger s1 @ [unlock_entry original
                     (''Claim '' @ i @ '' cancelled for reissue by '' @ rd_operatorId dto)]\<rparr>;
              newClaim = replacement now newId original newAmount newRecipientRef;
              s3 = s2\<lparr>cs_claims := cs_claims s2 @ [newClaim],
                      cs_ledger := cs_ledger s2 @
                        [\<lparr>le_campaignId = cl_campaignId original, le_claimId = Some newId,
                          le_eventType = Lock, le_amount = newAmount,
                          le_note = ''Replacement claim '' @ newId @ '' issued by '' @ rd_operatorId dto
                            @ '' (replaces '' @ i @ '')''\<rparr>]\<rparr>;
              s4 = log_audit now (cancelled_event now original (rd_operatorId dto)
                     (Some (case rd_reason dto of None \<Rightarrow> ''Reissued as '' @ newId | Some r \<Rightarrow> r))) s3;
              s5 = log_audit now
                     \<lparr>au_actorId = rd_operatorId dto, au_entity = ''claim'', au_entityId = newId,
                      au_action = ''claim.reissued'',
                      au_metadata = [(''type'', MStr ''claim.reissued''), (''newClaimId'', MStr newId),
                        (''originalClaimId'', MStr i), (''campaignId'', MStr (cl_campaignId original)),
                        (''operatorId'', MStr (rd_operatorId dto)), (''amount'', MNum newAmount),
                        (''reason'', (case rd_reason dto of None \<Rightarrow> MNull | Some r \<Rightarrow> MStr r)),
                        (''timestamp'', MTime now)]\<rparr> s4
          in (Inr (cancelledClaim\<lparr>cl_recipientRef := ce_decrypt env (cl_recipientRef cancelledClaim)\<rparr>,
                   newClaim\<lparr>cl_recipientRef := ce_decrypt env (cl_recipientRef newClaim)\<rparr>), s5))"

record campaign_balance =
  cb_campaignId :: ident
  cb_budget :: rat
  cb_lockedAmount :: rat
  cb_disbursedAmount :: rat
  cb_availableBudget :: rat

fun tally :: "ledger_entry \<Rightarrow> rat \<times> rat \<Rightarrow> rat \<times> rat" where
  "tally e (locked, disbursed) =
     (if le_eventType e = Lock \<or> le_eventType e = Unlock then (locked + le_amount e, disbursed)
      else if le_eventType e = Disburse then (locked, disbursed + le_amount e)
      else (locked, disbursed))"

definition getCampaignBalance :: "ident \<Rightarrow> claims_state \<Rightarrow> app_error + campaign_balance" where
  "getCampaignBalance c s =
     (case find_campaign c s of
        None \<Rightarrow> Inl (not_found ''Campaign not found'')
      | Some ca \<Rightarrow>
          if ca_deletedAt ca \<noteq> None then Inl (not_found ''Campaign not found'')
          else
            let (locked, disbursed) = fold tally (filter (\<lambda>e. le_campaignId e = c) (cs_ledger s)) (0, 0)
            in Inr \<lparr>cb_campaignId = c, cb_budget = ca_budget ca, cb_lockedAmount = locked,
                    cb_disbursedAmount = disbursed,
                    cb_availableBudget = ca_budget ca - locked - disbursed\<rparr>)"

section \<open>The ledger machine\<close>

record abs_claim =
  ac_id :: ident
  ac_campaign :: ident
  ac_amount :: rat
  ac_status :: claim_status

record ledger_view =
  lv_claims :: "abs_claim list"
  lv_entries :: "(ident \<times> ledger_event \<times> rat) list"
  lv_budgets :: "(ident \<times> rat) list"

definition abs_claim_of :: "claim \<Rightarrow> abs_claim" where
  "abs_claim_of c = \<lparr>ac_id = cl_id c, ac_campaign = cl_campaignId c, ac_amount = cl_amount c,
     ac_status = cl_status c\<rparr>"

definition view :: "claims_state \<Rightarrow> ledger_view" where
  "view s = \<lparr>lv_claims = map abs_claim_of (cs_claims s),
     lv_entries = map (\<lambda>e. (le_campaignId e, le_eventType e, le_amount e)) (cs_ledger s),
     lv_budgets = map (\<lambda>ca. (ca_id ca, ca_budget ca)) (cs_campaigns s)\<rparr>"

text \<open>The statuses in the order a claim takes them.\<close>

fun advances :: "claim_status \<Rightarrow> claim_status \<Rightarrow> bool" where
  "advances C_requested st \<longleftrightarrow> st \<in> {C_verified, C_archived}"
| "advances C_verified st \<longleftrightarrow> st \<in> {C_approved, C_archived}"
| "advances C_approved st \<longleftrightarrow> st = C_disbursed"
| "advances C_disbursed st \<longleftrightarrow> st = C_archived"
| "advances C_archived st \<longleftrightarrow> False"
| "advances C_cancelled st \<longleftrightarrow> False"

definition event_total :: "ledger_event set \<Rightarrow> ident \<Rightarrow> ledger_view \<Rightarrow> rat" where
  "event_total evs c v = sum_list (map (\<lambda>(c', ev, a). if c' = c \<and> ev \<in> evs then a else 0) (lv_entries v))"

definition fits_budget :: "ident \<Rightarrow> rat \<Rightarrow> ledger_view \<Rightarrow> bool" where
  "fits_budget c a v \<longleftrightarrow> (case map_of (lv_budgets v) c of
     None \<Rightarrow> False | Some b \<Rightarrow> event_total {Lock, Disburse} c v + a \<le> b)"

text \<open>With \<open>checked\<close> a claim opens only when its amount fits the campaign's budget.\<close>

inductive ledger_move :: "bool \<Rightarrow> ledger_view \<Rightarrow> ledger_view \<Rightarrow> bool" for checked where
  advance: "c \<in> set (lv_claims v) \<Longrightarrow> find_row (\<lambda>x. ac_id x = ac_id c) (lv_claims v) = Some c \<Longrightarrow>
    advances (ac_status c) st \<Longrightarrow>
    ledger_move checked v (v\<lparr>lv_claims :=
      update_where (\<lambda>x. ac_id x = ac_id c) (ac_status_update (\<lambda>_. st)) (lv_claims v)\<rparr>)"
| opens: "i \<notin> ac_id ` set (lv_claims v) \<Longrightarrow> checked \<longrightarrow> fits_budget c a v \<Longrightarrow>
    ledger_move checked v (v\<lparr>
      lv_claims := lv_claims v @ [\<lparr>ac_id = i, ac_campaign = c, ac_amount = a, ac_status = C_requested\<rparr>],
      lv_entries := lv_entries v @ [(c, Lock, a)]\<rparr>)"
| closes: "c \<in> set (lv_claims v) \<Longrightarrow> find_row (\<lambda>x. ac_id x = ac_id c) (lv_claims v) = Some c \<Longrightarrow>
    ac_status c \<in> {C_requested, C_verified, C_approved} \<Longrightarrow>
    ledger_move checked v (v\<lparr>
      lv_claims := update_where (\<lambda>x. ac_id x = ac_id c) (ac_status_update (\<lambda>_. C_cancelled)) (lv_claims v),
      lv_entries := lv_entries v @ [(ac_campaign c, Unlock, - ac_amount c)]\<rparr>)"

text \<open>What is still locked for a campaign: the amounts of its claims that are not cancelled.\<close>

definition live_amount :: "ident \<Rightarrow> abs_claim \<Rightarrow> rat" where
  "live_amount camp c = (if ac_campaign c = camp \<and> ac_status c \<noteq> C_cancelled then ac_amount c else 0)"

definition ledger_inv :: "ledger_view \<Rightarrow> bool" where
  "ledger_inv v \<longleftrightarrow> distinct (map ac_id (lv_claims v)) \<and>
     (\<forall>camp. event_total {Lock, Unlock} camp v = sum_list (map (live_amount camp) (lv_claims v))) \<and>
     (\<forall>camp. event_total {Disburse} camp v = 0)"

lemma event_total_append [simp]:
  "event_total evs camp (v\<lparr>lv_claims := cs, lv_entries := lv_entries v @ [(c, ev, a)]\<rparr>) =
     event_total evs camp v + (if c = camp \<and> ev \<in> evs then a else 0)"
  by (simp add: event_total_def)

lemma event_total_claims [simp]: "event_total evs camp (v\<lparr>lv_claims := cs\<rparr>) = event_total evs camp v"
  by (simp add: event_total_def)

lemma ids_status_update [simp]:
  "map ac_id (update_where p (ac_status_update f) cs) = map ac_id cs"
  by (rule map_update_where) simp

lemma ledger_move_inv:
  assumes "ledger_move checked v v'" and "ledger_inv v"
  shows "ledger_inv v'"
  using assms(1)
proof cases
  case (advance c st)
  have ids: "distinct (map ac_id (lv_claims v))" using assms(2) by (simp add: ledger_inv_def)
  have "sum_list (map (live_amount camp) (update_where (\<lambda>x. ac_id x = ac_id c)
          (ac_status_update (\<lambda>_. st)) (lv_claims v))) = sum_list (map (live_amount camp) (lv_claims v))" for camp
  proof (rule sum_list_update_where)
    fix r assume "r \<in> set (lv_claims v)" "ac_id r = ac_id c"
    with key_unique [OF ids this(1) advance(2)] have "r = c" by simp
    with advance(4) show "live_amount camp (ac_status_update (\<lambda>_. st) r) = live_amount camp r"
      by (cases "ac_status c") (auto simp: live_amount_def)
  qed
  with assms(2) show ?thesis by (simp add: ledger_inv_def advance(1))
next
  case (opens i c a)
  with assms(2) show ?thesis by (simp add: ledger_inv_def live_amount_def)
next
  case (closes c)
  have ids: "distinct (map ac_id (lv_claims v))" using assms(2) by (simp add: ledger_inv_def)
  have "sum_list (map (live_amount camp) (update_where (\<lambda>x. ac_id x = ac_id c)
          (ac_status_update (\<lambda>_. C_cancelled)) (lv_claims v))) =
      sum_list (map (live_amount camp) (lv_claims v)) + (if ac_campaign c = camp then - ac_amount c else 0)" for camp
    using sum_list_update_key [OF ids closes(2), of "live_amount camp" "ac_status_update (\<lambda>_. C_cancelled)"] closes(4)
    by (auto simp: live_amount_def)
  with assms(2) show ?thesis by (simp add: ledger_inv_def closes(1))
qed

text \<open>With every opening checked, no campaign has locked and disbursed more than its budget.\<close>

definition budget_inv :: "ledger_view \<Rightarrow> bool" where
  "budget_inv v \<longleftrightarrow> (\<forall>camp b. map_of (lv_budgets v) camp = Some b \<longrightarrow>
     event_total {Lock, Disburse} camp v \<le> max 0 b)"


text \<open>Claims keep their identity, campaign and amount, and only move forward.\<close>

definition reaches :: "claim_status \<Rightarrow> claim_status \<Rightarrow> bool" where
  "reaches a b \<longleftrightarrow> a = b \<or> (case a of
     C_requested \<Rightarrow> True
   | C_verified \<Rightarrow> b \<noteq> C_requested
   | C_approved \<Rightarrow> b \<in> {C_disbursed, C_archived, C_cancelled}
   | C_disbursed \<Rightarrow> b = C_archived
   | _ \<Rightarrow> False)"

definition ledger_le :: "ledger_view \<Rightarrow> ledger_view \<Rightarrow> bool" where
  "ledger_le v v' \<longleftrightarrow> (\<forall>c \<in> set (lv_claims v). \<exists>c' \<in> set (lv_claims v'). ac_id c' = ac_id c \<and>
     ac_campaign c' = ac_campaign c \<and> ac_amount c' = ac_amount c \<and> reaches (ac_status c) (ac_status c'))"

lemma reaches_refl [simp]: "reaches a a"
  by (simp add: reaches_def)

lemma reaches_trans: "reaches a b \<Longrightarrow> reaches b c \<Longrightarrow> reaches a c"
  by (cases a; cases b; cases c) (simp_all add: reaches_def)

lemma advances_reaches: "advances a b \<Longrightarrow> reaches a b"
  by (cases a; cases b) (simp_all add: reaches_def)

lemma ledger_le_update:
  assumes "distinct (map ac_id (lv_claims v))" and "c \<in> set (lv_claims v)" and "reaches (ac_status c) st"
  shows "\<forall>x \<in> set (lv_claims v). \<exists>x' \<in> set (update_where (\<lambda>x. ac_id x = ac_id c)
      (ac_status_update (\<lambda>_. st)) (lv_claims v)). ac_id x' = ac_id x \<and>
     ac_campaign x' = ac_campaign x \<and> ac_amount x' = ac_amount x \<and> reaches (ac_status x) (ac_status x')"
proof
  fix x assume x: "x \<in> set (lv_claims v)"
  show "\<exists>x' \<in> set (update_where (\<lambda>x. ac_id x = ac_id c)
      (ac_status_update (\<lambda>_. st)) (lv_claims v)). ac_id x' = ac_id x \<and>
     ac_campaign x' = ac_campaign x \<and> ac_amount x' = ac_amount x \<and> reaches (ac_status x) (ac_status x')"
  proof (cases "ac_id x = ac_id c")
    case True
    with key_unique [OF assms(1) x assms(2)] have "x = c" by simp
    with x assms(3) in_update_where_changed [OF x, of "\<lambda>x. ac_id x = ac_id c" "ac_status_update (\<lambda>_. st)"] show ?thesis
      by (intro bexI [of _ "c\<lparr>ac_status := st\<rparr>"]) simp_all
  next
    case False
    with x show ?thesis by (intro bexI [of _ x] in_update_where_kept) simp_all
  qed
qed

lemma ledger_move_le:
  assumes "ledger_move checked v v'" and "ledger_inv v"
  shows "ledger_le v v'"
  using assms(1)
proof cases
  case (advance c st)
  with assms(2) ledger_le_update [OF _ advance(2) advances_reaches [OF advance(4)]]
  show ?thesis by (simp add: ledger_le_def ledger_inv_def)
next
  case (opens i c a)
  then show ?thesis by (auto simp: ledger_le_def)
next
  case (closes c)
  then have "reaches (ac_status c) C_cancelled" by (auto simp: reaches_def)
  with assms(2) ledger_le_update [OF _ closes(2) this] show ?thesis
    by (simp add: ledger_le_def ledger_inv_def closes(1))
qed

lemma ledger_le_trans: "ledger_le u v \<Longrightarrow> ledger_le v w \<Longrightarrow> ledger_le u w"
  unfolding ledger_le_def by (metis reaches_trans)

interpretation machine: mono_system "ledger_move checked" ledger_inv ledger_le for checked
proof
  show "ledger_inv v'" if "ledger_move checked v v'" "ledger_inv v" for v v' using that by (rule ledger_move_inv)
  show "ledger_le v v" for v by (auto simp: ledger_le_def)
  show "ledger_le u w" if "ledger_le u v" "ledger_le v w" for u v w using that by (rule ledger_le_trans)
  show "ledger_le v v'" if "ledger_move checked v v'" "ledger_inv v" for v v' using that by (rule ledger_move_le)
qed


section \<open>The services run the machine\<close>

text \<open>
  One step per request or cron run; \<open>recording\<close>, \<open>concluding\<close> and \<open>correlating\<close> are the writes of the
  verification pipeline and of the event correlation. The pipeline writes the status together with the outcome:
  \<open>concluding\<close> is the verdict on a claim that is still requested, \<open>recording\<close> one that confirms the status the
  claim has. A verdict that comes when the claim has moved on writes over its status; what this breaks is shown
  in \<open>VerificationRules\<close>. A generated id is new and not empty. \<open>reissuing\<close> says whether \<open>reissue\<close> is
  among the requests.
\<close>

inductive claim_step :: "claims_env \<Rightarrow> bool \<Rightarrow> claims_state \<Rightarrow> claims_state \<Rightarrow> bool" for env reissuing where
  creating: "newId \<notin> cl_id ` set (cs_claims s) \<Longrightarrow> newId \<noteq> [] \<Longrightarrow> claim_step env reissuing s (snd (create env now newId dto s))"
| verifying: "claim_step env reissuing s (snd (verify env now i s))"
| approving: "claim_step env reissuing s (snd (approve_claim now i s))"
| disbursing: "claim_step env reissuing s (snd (disburse env clk newTxId ambient i ptr cid s))"
| archiving: "claim_step env reissuing s (snd (archive now i s))"
| cleaning: "claim_step env reissuing s (snd (cleanupExpiredClaims env now s))"
| cancelling: "claim_step env reissuing s (snd (cancel env now i cdto s))"
| reissues: "reissuing \<Longrightarrow> newId \<notin> cl_id ` set (cs_claims s) \<Longrightarrow> newId \<noteq> [] \<Longrightarrow>
    claim_step env reissuing s (snd (reissue env now newId i rdto s))"
| recording: "claim_step env reissuing s (update_claim now i (cl_anchorMetadata_update (\<lambda>_. m)) s)"
| concluding: "find_claim i s = Some c \<Longrightarrow> cl_status c = C_requested \<Longrightarrow>
    claim_step env reissuing s (update_claim now i (\<lambda>x. x\<lparr>cl_status := C_verified, cl_anchorMetadata := m\<rparr>) s)"
| correlating: "claim_step env reissuing s (s\<lparr>cs_correlations := e\<rparr>)"

inductive_cases claim_stepE: "claim_step env reissuing s s'"

definition machine_run :: "bool \<Rightarrow> claims_state \<Rightarrow> claims_state \<Rightarrow> bool" where
  "machine_run checked s s' \<longleftrightarrow> (ledger_move checked)\<^sup>*\<^sup>* (view s) (view s')"

lemma machine_run_refl: "view s' = view s \<Longrightarrow> machine_run checked s s'"
  by (simp add: machine_run_def)

lemma machine_run_step: "ledger_move checked (view s) (view s') \<Longrightarrow> machine_run checked s s'"
  by (simp add: machine_run_def r_into_rtranclp)

lemma machine_run_trans: "machine_run checked s t \<Longrightarrow> machine_run checked t u \<Longrightarrow> machine_run checked s u"
  by (simp add: machine_run_def)

lemma view_find:
  assumes "find_claim i s = Some c"
  shows "abs_claim_of c \<in> set (lv_claims (view s))" and "cl_id c = i"
    and "find_row (\<lambda>x. ac_id x = i) (lv_claims (view s)) = Some (abs_claim_of c)"
proof -
  have mapped: "find_row (\<lambda>x. ac_id x = i) (map abs_claim_of cs) = map_option abs_claim_of (find_row (\<lambda>c. cl_id c = i) cs)" for cs
    by (induction cs) (auto simp: find_row_Cons abs_claim_of_def)
  from assms show "abs_claim_of c \<in> set (lv_claims (view s))" "cl_id c = i"
    unfolding find_claim_def view_def by (auto dest: find_row_SomeD)
  show "find_row (\<lambda>x. ac_id x = i) (lv_claims (view s)) = Some (abs_claim_of c)"
    using assms by (simp add: view_def mapped find_claim_def)
qed

lemma abs_fields [simp]:
  "ac_id (abs_claim_of c) = cl_id c" "ac_campaign (abs_claim_of c) = cl_campaignId c"
  "ac_amount (abs_claim_of c) = cl_amount c" "ac_status (abs_claim_of c) = cl_status c"
  by (simp_all add: abs_claim_of_def)

lemma map_update_where_both:
  assumes "\<And>r. q (g r) = p r" and "\<And>r. g (f r) = h (g r)"
  shows "map g (update_where p f rows) = update_where q h (map g rows)"
  using assms by (induction rows) auto

lemma view_status:
  "view (update_claim now i (cl_status_update (\<lambda>_. st)) s) =
     view s\<lparr>lv_claims := update_where (\<lambda>x. ac_id x = i) (ac_status_update (\<lambda>_. st)) (lv_claims (view s))\<rparr>"
  by (simp add: view_def update_claim_def)
    (rule map_update_where_both, simp_all add: abs_claim_of_def)

lemma view_row:
  assumes "\<And>c. abs_claim_of (f c) = abs_claim_of c"
  shows "view (update_claim now i f s) = view s"
proof -
  have "abs_claim_of (f c\<lparr>cl_updatedAt := now\<rparr>) = abs_claim_of c" for c
    using assms [of c] by (simp add: abs_claim_of_def)
  then show ?thesis by (simp add: view_def update_claim_def map_update_where)
qed

lemma view_cancel_row:
  "view (update_claim now i (cancel_row t op why) s) =
     view s\<lparr>lv_claims := update_where (\<lambda>x. ac_id x = i) (ac_status_update (\<lambda>_. C_cancelled)) (lv_claims (view s))\<rparr>"
  by (simp add: view_def update_claim_def)
    (rule map_update_where_both, simp_all add: abs_claim_of_def cancel_row_def)

lemma view_log [simp]: "view (log_audit now a s) = view s"
  by (simp add: view_def log_audit_def)

lemma view_other [simp]:
  "view (s\<lparr>cs_soroban := x\<rparr>) = view s" "view (s\<lparr>cs_verifyQueue := q\<rparr>) = view s"
  "view (s\<lparr>cs_correlations := e\<rparr>) = view s" "view (s\<lparr>cs_audit := l\<rparr>) = view s"
  by (simp_all add: view_def)

lemma run_advance:
  assumes "find_claim i s = Some c" and "advances (cl_status c) st"
  shows "machine_run checked s (update_claim now i (cl_status_update (\<lambda>_. st)) s)"
  using ledger_move.advance [of "abs_claim_of c" "view s" st checked] assms view_find [OF assms(1)]
  by (intro machine_run_step) (simp add: view_status)

lemma run_transition:
  assumes "advances from st"
  shows "machine_run checked s (snd (transitionStatus now i from st s))"
proof (cases "find_claim i s")
  case (Some c)
  show ?thesis
  proof (cases "cl_status c = from")
    case True
    with run_advance [OF Some] assms Some show ?thesis by (simp add: transitionStatus_def)
  qed (use Some in \<open>simp add: transitionStatus_def machine_run_refl\<close>)
qed (simp add: transitionStatus_def machine_run_refl)

lemma run_verify: "machine_run checked s (snd (verify env now i s))"
  by (auto simp: verify_def machine_run_refl run_transition split: option.split)

lemma view_onchain [simp]:
  "view (disburse_onchain env clk newTxId ambient c ptr cid s) = view s"
  by (simp add: disburse_onchain_def Let_def case_prod_unfold split: sum.split)

lemma run_disburse: "machine_run checked s (snd (disburse env clk newTxId ambient i ptr cid s))"
proof (cases "\<exists>c. find_claim i s = Some c \<and> cl_status c = C_approved")
  case True
  then obtain c where c: "find_claim i s = Some c" "cl_status c = C_approved" by blast
  let ?s1 = "if truthy ptr then update_claim (clk 0) i (cl_receiptPointer_update (\<lambda>_. ptr)) s else s"
  let ?s2 = "disburse_onchain env clk newTxId ambient c ptr cid ?s1"
  have "view (update_claim (clk 0) i (cl_receiptPointer_update (\<lambda>_. ptr)) s) = view s"
    by (rule view_row) (simp add: abs_claim_of_def)
  then have "view ?s2 = view s" by simp
  moreover have "machine_run checked ?s2 (snd (transitionStatus (clk 3) i C_approved C_disbursed ?s2))"
    by (rule run_transition) simp
  moreover have "disburse env clk newTxId ambient i ptr cid s = transitionStatus (clk 3) i C_approved C_disbursed ?s2"
    using c by (simp add: disburse_def Let_def)
  ultimately show ?thesis by (simp add: machine_run_def)
next
  case False
  then show ?thesis
    by (cases "find_claim i s") (auto simp: disburse_def machine_run_refl)
qed

lemma event_total_view:
  "event_total evs camp (view s) = sum_list (map (\<lambda>e. if le_campaignId e = camp \<and> le_eventType e \<in> evs
     then le_amount e else 0) (cs_ledger s))"
  by (simp add: event_total_def view_def o_def)

lemma ledger_sum_alt: "ledger_sum ev camp s = event_total {ev} camp (view s)"
proof -
  have "sum_list (map le_amount (filter (\<lambda>e. le_campaignId e = camp \<and> le_eventType e = ev) es)) =
      sum_list (map (\<lambda>e. if le_campaignId e = camp \<and> le_eventType e = ev then le_amount e else 0) es)" for es
    by (induction es) auto
  then show ?thesis by (simp add: ledger_sum_def event_total_view)
qed

lemma event_total_disjoint:
  "A \<inter> B = {} \<Longrightarrow> event_total (A \<union> B) camp v = event_total A camp v + event_total B camp v"
proof -
  assume AB: "A \<inter> B = {}"
  have "sum_list (map (\<lambda>(c, ev, a). if c = camp \<and> ev \<in> A \<union> B then a else 0) es) =
      sum_list (map (\<lambda>(c, ev, a). if c = camp \<and> ev \<in> A then a else 0) es) +
      sum_list (map (\<lambda>(c, ev, a). if c = camp \<and> ev \<in> B then a else (0::rat)) es)" for es
    using AB by (induction es) auto
  then show ?thesis by (simp add: event_total_def)
qed

lemma find_campaign_view: "find_campaign c s = Some ca \<Longrightarrow> map_of (lv_budgets (view s)) c = Some (ca_budget ca)"
proof -
  have "find_row (\<lambda>ca. ca_id ca = c) cas = Some ca \<Longrightarrow>
      map_of (map (\<lambda>ca. (ca_id ca, ca_budget ca)) cas) c = Some (ca_budget ca)" for cas
    by (induction cas) (auto simp: find_row_Cons split: if_splits)
  then show "find_campaign c s = Some ca \<Longrightarrow> map_of (lv_budgets (view s)) c = Some (ca_budget ca)"
    by (simp add: find_campaign_def view_def)
qed

lemma reserve_fits:
  assumes "reserveBudget c a s = Inr u"
  shows "fits_budget c a (view s)"
proof (cases "find_campaign c s")
  case (Some ca)
  moreover have "event_total {Lock, Disburse} c (view s) = ledger_sum Lock c s + ledger_sum Disburse c s"
    using event_total_disjoint [of "{Lock}" "{Disburse}" c "view s"] by (simp add: ledger_sum_alt insert_commute)
  ultimately show ?thesis
    using assms find_campaign_view [OF Some]
    by (simp add: reserveBudget_def fits_budget_def Let_def split: if_splits)
qed (use assms in \<open>simp add: reserveBudget_def\<close>)

lemma run_create:
  assumes "newId \<notin> cl_id ` set (cs_claims s)"
  shows "machine_run checked s (snd (create env now newId dto s))"
proof (cases "\<exists>c s1. create_transaction env now newId dto s = (Inr c, s1) \<and> find_campaign (dt_campaignId dto) s \<noteq> None")
  case False
  have "snd (create_transaction env now newId dto s) = s" if "fst (create_transaction env now newId dto s) = Inl e" for e
    using that by (auto simp: create_transaction_def Let_def split: sum.splits if_splits)
  with False have "snd (create env now newId dto s) = s"
    by (auto simp: create_def split: option.split sum.split prod.split)
  then show ?thesis by (simp add: machine_run_refl)
next
  case True
  then obtain c s1 where c: "create_transaction env now newId dto s = (Inr c, s1)"
    and "find_campaign (dt_campaignId dto) s \<noteq> None" by blast
  then have out: "snd (create env now newId dto s) = enqueueVerificationForClaim env (cl_id c) s1"
    by (auto simp: create_def)
  from c have fits: "fits_budget (dt_campaignId dto) (dt_amount dto) (view s)"
    by (auto simp: create_transaction_def Let_def split: sum.splits if_splits intro: reserve_fits)
  have new: "newId \<notin> ac_id ` set (lv_claims (view s))"
    using assms by (auto simp: view_def)
  from c have "view s1 = view s\<lparr>lv_claims := lv_claims (view s) @
        [\<lparr>ac_id = newId, ac_campaign = dt_campaignId dto, ac_amount = dt_amount dto, ac_status = C_requested\<rparr>],
      lv_entries := lv_entries (view s) @ [(dt_campaignId dto, Lock, dt_amount dto)]\<rparr>"
    by (auto simp: create_transaction_def Let_def view_def abs_claim_of_def split: sum.splits if_splits)
  with ledger_move.opens [OF new, of checked "dt_campaignId dto" "dt_amount dto"] fits
  have "machine_run checked s s1" by (intro machine_run_step) simp
  moreover have "view (enqueueVerificationForClaim env (cl_id c) s1) = view s1"
    by (simp add: enqueueVerificationForClaim_def)
  ultimately show ?thesis by (simp add: out machine_run_def)
qed

lemma cancellable_Inr:
  assumes "cancellable msgs i s = Inr c"
  shows "find_claim i s = Some c" and "cl_status c \<in> {C_requested, C_verified, C_approved}"
    and "cl_deletedAt c = None" and "cl_id c = i"
proof -
  show found: "find_claim i s = Some c"
    using assms by (auto simp: cancellable_def split: option.splits if_splits)
  show "cl_status c \<in> {C_requested, C_verified, C_approved}" "cl_deletedAt c = None"
    using assms by (auto simp: cancellable_def CANCELLABLE_STATUSES_def split: option.splits if_splits)
  show "cl_id c = i" using view_find [OF found] by simp
qed

text \<open>The row and the ledger entry of a cancellation are the closing move.\<close>

lemma close_view:
  assumes "find_claim i s = Some c" and "cl_status c \<in> {C_requested, C_verified, C_approved}"
  shows "ledger_move checked (view s) (view (update_claim now i (cancel_row t op why) s
    \<lparr>cs_ledger := cs_ledger s @ [unlock_entry c note]\<rparr>))"
proof -
  have "view (x\<lparr>cs_ledger := l @ [unlock_entry c note]\<rparr>) =
      view x\<lparr>lv_entries := map (\<lambda>e. (le_campaignId e, le_eventType e, le_amount e)) l
        @ [(cl_campaignId c, Unlock, - cl_amount c)]\<rparr>" for x l
    by (simp add: view_def unlock_entry_def)
  moreover have "map (\<lambda>e. (le_campaignId e, le_eventType e, le_amount e)) (cs_ledger s) = lv_entries (view s)"
    by (simp add: view_def)
  ultimately show ?thesis
    using ledger_move.closes [of "abs_claim_of c" "view s" checked] view_find [OF assms(1)] assms(2)
    by (simp add: view_cancel_row)
qed

lemma ledger_update_claim [simp]: "cs_ledger (update_claim now i f s) = cs_ledger s"
  by (simp add: update_claim_def)

lemma view_commit:
  assumes "find_claim i s = Some c" and "cl_status c \<in> {C_requested, C_verified, C_approved}"
  shows "ledger_move checked (view s) (view (snd (cancel_commit env now c dto s)))"
proof -
  have "cl_id c = i" using view_find [OF assms(1)] by simp
  then show ?thesis
    using close_view [OF assms] by (simp add: cancel_commit_def Let_def)
qed

lemma run_cancel: "machine_run checked s (snd (cancel env now i dto s))"
proof (cases "cancellable cancel_refusals i s")
  case (Inl e)
  then show ?thesis by (simp add: cancel_def machine_run_refl)
next
  case (Inr c)
  from view_commit [OF cancellable_Inr(1,2) [OF Inr]] show ?thesis
    by (intro machine_run_step) (simp add: cancel_def Inr case_prod_unfold)
qed

lemma run_reissue:
  assumes "newId \<notin> cl_id ` set (cs_claims s)"
  shows "machine_run False s (snd (reissue env now newId i dto s))"
proof (cases "cancellable reissue_refusals i s")
  case (Inl e)
  then show ?thesis by (simp add: reissue_def machine_run_refl)
next
  case (Inr c)
  note found = cancellable_Inr [OF Inr]
  define why where "why = Some (case rd_reason dto of None \<Rightarrow> ''Reissued as new claim'' | Some r \<Rightarrow> r)"
  define s2 where "s2 = update_claim now i (cancel_row now (rd_operatorId dto) why) s
    \<lparr>cs_ledger := cs_ledger s @ [unlock_entry c (''Claim '' @ i @ '' cancelled for reissue by '' @ rd_operatorId dto)]\<rparr>"
  define amount where "amount = (case rd_amount dto of None \<Rightarrow> cl_amount c | Some a \<Rightarrow> a)"
  have "ledger_move False (view s) (view s2)"
    unfolding s2_def by (rule close_view [OF found(1,2)])
  moreover have "ledger_move False (view s2) (view (snd (reissue env now newId i dto s)))"
  proof -
    have "map cl_id (cs_claims s2) = map cl_id (cs_claims s)"
      by (simp add: s2_def update_claim_def map_update_where cancel_row_def)
    then have "cl_id ` set (cs_claims s2) = cl_id ` set (cs_claims s)" by (metis set_map)
    with assms have new: "newId \<notin> ac_id ` set (lv_claims (view s2))" by (auto simp: view_def)
    have "view (snd (reissue env now newId i dto s)) = view s2\<lparr>lv_claims := lv_claims (view s2) @
        [\<lparr>ac_id = newId, ac_campaign = cl_campaignId c, ac_amount = amount, ac_status = C_requested\<rparr>],
      lv_entries := lv_entries (view s2) @ [(cl_campaignId c, Lock, amount)]\<rparr>"
      by (simp add: reissue_def Inr Let_def s2_def amount_def why_def)
        (simp add: view_def replacement_def abs_claim_of_def)
    with ledger_move.opens [OF new, of False "cl_campaignId c" amount] show ?thesis by simp
  qed
  ultimately show ?thesis by (auto simp: machine_run_def)
qed

lemma run_cleanup_loop:
  assumes "distinct (map cl_id cs)"
    and "\<And>c. c \<in> set cs \<Longrightarrow> \<exists>c'. find_claim (cl_id c) s = Some c' \<and> cl_status c' \<in> {C_requested, C_verified}"
  shows "machine_run checked s (snd (cleanup_loop env now cs n s))"
  using assms
proof (induction cs arbitrary: n s)
  case Nil
  then show ?case by (simp add: machine_run_refl)
next
  case (Cons c cs)
  show ?case
  proof (cases "cleanupExpiredClaimOnchain env (cl_id c) s")
    case (Inl e)
    then show ?thesis by (simp add: machine_run_refl)
  next
    case (Inr meta)
    define s1 where "s1 = log_audit now
               \<lparr>au_actorId = ''system'', au_entity = ''claim'', au_entityId = cl_id c,
                au_action = ''expired_cleanup'',
                au_metadata = [(''previousStatus'', MStr (claim_status_name (cl_status c))),
                               (''nextStatus'', MStr (claim_status_name C_archived)),
                               (''expiresAt'', (case cl_expiresAt c of None \<Rightarrow> MNull | Some t \<Rightarrow> MTime t)),
                               (''onchain'', MObj meta)]\<rparr>
               (update_claim now (cl_id c) (cl_status_update (\<lambda>_. C_archived)) s)"
    from Cons.prems(2) [of c] obtain c' where c': "find_claim (cl_id c) s = Some c'"
      "cl_status c' \<in> {C_requested, C_verified}" by auto
    then have "machine_run checked s s1"
      using run_advance [OF c'(1), of C_archived checked now] by (auto simp: s1_def machine_run_def)
    moreover have "machine_run checked s1 (snd (cleanup_loop env now cs (n + 1) s1))"
    proof (rule Cons.IH)
      show "distinct (map cl_id cs)" using Cons.prems(1) by simp
      fix d assume d: "d \<in> set cs"
      then have "cl_id d \<noteq> cl_id c" using Cons.prems(1) by (auto simp: rev_image_eqI)
      then have "find_claim (cl_id d) s1 = find_claim (cl_id d) s"
        by (simp add: s1_def log_audit_def find_claim_def update_claim_def)
          (rule find_row_update_where_None, auto)
      with Cons.prems(2) [of d] d
      show "\<exists>c'. find_claim (cl_id d) s1 = Some c' \<and> cl_status c' \<in> {C_requested, C_verified}" by simp
    qed
    ultimately show ?thesis using Inr by (auto simp: s1_def machine_run_def)
  qed
qed

lemma ids_of_view: "map ac_id (lv_claims (view s)) = map cl_id (cs_claims s)"
  by (simp add: view_def)

lemma run_cleanup:
  assumes "ledger_inv (view s)"
  shows "machine_run checked s (snd (cleanupExpiredClaims env now s))"
proof -
  have ids: "distinct (map cl_id (cs_claims s))" using assms by (simp add: ledger_inv_def ids_of_view)
  let ?cs = "filter (expired_claim now) (cs_claims s)"
  have "machine_run checked s (snd (cleanup_loop env now ?cs 0 s))"
  proof (rule run_cleanup_loop)
    show "distinct (map cl_id ?cs)" using ids by (rule distinct_map_filter)
    fix c assume c: "c \<in> set ?cs"
    then have "find_claim (cl_id c) s = Some c" using find_row_key [OF ids] by (simp add: find_claim_def)
    with c show "\<exists>c'. find_claim (cl_id c) s = Some c' \<and> cl_status c' \<in> {C_requested, C_verified}"
      by (auto simp: expired_claim_def)
  qed
  then show ?thesis
    by (auto simp: cleanupExpiredClaims_def Let_def machine_run_refl split: prod.split sum.split)
qed

lemma view_concluded:
  "view (update_claim now i (\<lambda>x. x\<lparr>cl_status := st, cl_anchorMetadata := m\<rparr>) s) = view (update_claim now i (cl_status_update (\<lambda>_. st)) s)"
  unfolding view_status by (simp add: view_def update_claim_def) (rule map_update_where_both, simp_all add: abs_claim_of_def)

lemma run_concluded:
  assumes "find_claim i s = Some c" and "cl_status c = C_requested"
  shows "machine_run checked s (update_claim now i (\<lambda>x. x\<lparr>cl_status := C_verified, cl_anchorMetadata := m\<rparr>) s)"
  using run_advance [OF assms(1), of C_verified checked now] assms(2) by (simp add: machine_run_def view_concluded)

text \<open>The refinement: every step of the services is a run of the machine.\<close>

lemma step_refines:
  assumes "claim_step env reissuing s s'" and "ledger_inv (view s)"
  shows "machine_run (\<not> reissuing) s s'"
  using assms(1)
proof (rule claim_stepE)
  fix now i m assume "s' = update_claim now i (cl_anchorMetadata_update (\<lambda>_. m)) s"
  then show ?thesis by (intro machine_run_refl) (simp add: view_row abs_claim_of_def)
qed (simp_all add: run_create run_verify approve_claim_def archive_def run_transition run_disburse
      run_cleanup assms(2) run_cancel run_reissue run_concluded machine_run_refl)

lemma runs_refine:
  assumes "(claim_step env reissuing)\<^sup>*\<^sup>* s s'" and "ledger_inv (view s)"
  shows "machine_run (\<not> reissuing) s s'"
  using assms(1)
proof (induction rule: rtranclp_induct)
  case base
  show ?case by (simp add: machine_run_refl)
next
  case (step t u)
  then have "ledger_inv (view t)"
    using machine.run_keeps [OF _ assms(2)] by (simp add: machine_run_def)
  from machine_run_trans [OF step.IH step_refines [OF step.hyps(2) this]] show ?case .
qed

lemma runs_inv:
  assumes "(claim_step env reissuing)\<^sup>*\<^sup>* s s'" and "ledger_inv (view s)"
  shows "ledger_inv (view s')"
  using runs_refine [OF assms] machine.run_keeps [OF _ assms(2)] by (simp add: machine_run_def)

section \<open>Properties\<close>

text \<open>The tables before the first claim: no claims, no ledger, no negative budget.\<close>

definition fresh_books :: "claims_state \<Rightarrow> bool" where
  "fresh_books s \<longleftrightarrow> cs_claims s = [] \<and> cs_ledger s = [] \<and> (\<forall>ca \<in> set (cs_campaigns s). 0 \<le> ca_budget ca)"

lemma fresh_invs:
  assumes "fresh_books s"
  shows "ledger_inv (view s)" and "budget_inv (view s)"
  using assms by (auto simp: fresh_books_def ledger_inv_def budget_inv_def view_def event_total_def)

lemma fold_tally:
  "fold tally es (l, d) =
     (l + sum_list (map (\<lambda>e. if le_eventType e \<in> {Lock, Unlock} then le_amount e else 0) es),
      d + sum_list (map (\<lambda>e. if le_eventType e \<in> {Disburse} then le_amount e else 0) es))"
proof (induction es arbitrary: l d)
  case (Cons e es)
  show ?case by (cases "le_eventType e") (simp_all add: Cons add.assoc)
qed simp

lemma filtered_total:
  "sum_list (map (\<lambda>e. if le_eventType e \<in> evs then le_amount e else 0)
       (filter (\<lambda>e. le_campaignId e = camp) (cs_ledger s))) = event_total evs camp (view s)"
proof -
  have "sum_list (map (\<lambda>e. if le_eventType e \<in> evs then le_amount e else 0) (filter (\<lambda>e. le_campaignId e = camp) es)) =
      sum_list (map (\<lambda>e. if le_campaignId e = camp \<and> le_eventType e \<in> evs then le_amount e else 0) es)" for es
    by (induction es) auto
  then show ?thesis by (simp add: event_total_view)
qed

lemma balance_totals:
  assumes "getCampaignBalance camp s = Inr b"
  shows "cb_lockedAmount b = event_total {Lock, Unlock} camp (view s)"
    and "cb_disbursedAmount b = event_total {Disburse} camp (view s)"
    and "cb_availableBudget b = cb_budget b - cb_lockedAmount b - cb_disbursedAmount b"
  using assms filtered_total [of "{Lock, Unlock}" camp s] filtered_total [of "{Disburse}" camp s]
  by (auto simp: getCampaignBalance_def fold_tally split: option.splits if_splits)

lemma inv_balance:
  assumes "ledger_inv (view s)" and "getCampaignBalance camp s = Inr b"
  shows "cb_lockedAmount b = sum_list (map cl_amount
      (filter (\<lambda>c. cl_campaignId c = camp \<and> cl_status c \<noteq> C_cancelled) (cs_claims s))) \<and>
    cb_availableBudget b = cb_budget b - cb_lockedAmount b"
proof -
  have "cb_lockedAmount b = sum_list (map (live_amount camp) (lv_claims (view s)))"
    and "cb_disbursedAmount b = 0"
    using balance_totals [OF assms(2)] assms(1) by (simp_all add: ledger_inv_def)
  moreover have "sum_list (map (live_amount camp) (map abs_claim_of cs)) =
      sum_list (map cl_amount (filter (\<lambda>c. cl_campaignId c = camp \<and> cl_status c \<noteq> C_cancelled) cs))" for cs
    by (induction cs) (simp_all add: live_amount_def)
  ultimately show ?thesis using balance_totals(3) [OF assms(2)] by (simp add: view_def)
qed

text \<open>
  C1. The books balance. After any sequence of claim operations, reissues included, what
  \<open>getCampaignBalance\<close> reports as locked is the sum of the amounts of the campaign's claims
  that are not cancelled, and what it reports as available is the budget less that sum.
\<close>

theorem ledger_balances:
  assumes "fresh_books s0" and "(claim_step env True)\<^sup>*\<^sup>* s0 s" and "getCampaignBalance camp s = Inr b"
  shows "cb_lockedAmount b = sum_list (map cl_amount
      (filter (\<lambda>c. cl_campaignId c = camp \<and> cl_status c \<noteq> C_cancelled) (cs_claims s))) \<and>
    cb_availableBudget b = cb_budget b - cb_lockedAmount b"
  by (rule inv_balance [OF runs_inv [OF assms(2) fresh_invs(1) [OF assms(1)]] assms(3)])


text \<open>
  C17. A claim never goes back. In every sequence of operations a claim keeps its campaign and
  its amount, and its status only moves forward; an archived or a cancelled claim stays so. Among the operations are
  the verdicts of the verification that are written while their claim is requested, or that confirm its status; a
  later one can set a claim back (\<open>late_outcome_unbalances\<close>, \<open>paid_claim_payable_again\<close>).
\<close>

theorem claims_move_forward:
  assumes "(claim_step env True)\<^sup>*\<^sup>* s s'" and "ledger_inv (view s)" and "c \<in> set (cs_claims s)"
  shows "\<exists>c' \<in> set (cs_claims s'). cl_id c' = cl_id c \<and> cl_campaignId c' = cl_campaignId c \<and>
    cl_amount c' = cl_amount c \<and> reaches (cl_status c) (cl_status c')"
proof -
  have "ledger_le (view s) (view s')"
    using runs_refine [OF assms(1,2)] machine.run_le assms(2) by (simp add: machine_run_def)
  with assms(3) obtain a where "a \<in> set (lv_claims (view s'))" "ac_id a = cl_id c"
    "ac_campaign a = cl_campaignId c" "ac_amount a = cl_amount c" "reaches (cl_status c) (ac_status a)"
    unfolding ledger_le_def by (force simp: view_def)
  then show ?thesis by (force simp: view_def)
qed

text \<open>
  C5. The services refine the ledger machine: every sequence of operations is, seen through \<open>view\<close>, a run
  of the three moves, and a run in which every opening fits the budget when no claim is reissued.
\<close>

theorem services_run_ledger_machine:
  assumes "fresh_books s0" and "(claim_step env reissuing)\<^sup>*\<^sup>* s0 s"
  shows "(ledger_move (\<not> reissuing))\<^sup>*\<^sup>* (view s0) (view s)"
  using runs_refine [OF assms(2) fresh_invs(1) [OF assms(1)]] by (simp add: machine_run_def)

definition demo_env :: claims_env where
  "demo_env = \<lparr>ce_encrypt = (\<lambda>x. x), ce_decrypt = (\<lambda>x. x), ce_num = (\<lambda>_. ''n''), ce_onchain = False,
     ce_cleanup = None, ce_enqueues = (\<lambda>_. True)\<rparr>"

definition demo_books :: claims_state where
  "demo_books = \<lparr>cs_claims = [], cs_campaigns = [\<lparr>ca_id = ''k'', ca_name = ''k'', ca_budget = 100,
       ca_metadata = None, ca_orgId = None, ca_deletedAt = None\<rparr>], cs_ledger = [], cs_correlations = [],
     cs_audit = [], cs_soroban = no_txs, cs_verifyQueue = []\<rparr>"

definition demo_dto :: create_claim_dto where
  "demo_dto = \<lparr>dt_campaignId = ''k'', dt_amount = 100, dt_recipientRef = ''r'', dt_tokenAddress = ''t'',
     dt_evidenceRef = None, dt_expiresAt = None, dt_importJobId = None, dt_importRowNumber = None\<rparr>"

definition demo_claimed :: claims_state where
  "demo_claimed = snd (create demo_env 0 ''c1'' demo_dto demo_books)"

lemma demo_fresh: "fresh_books demo_books"
  by (simp add: fresh_books_def demo_books_def)

lemma demo_run: "(claim_step demo_env reissuing)\<^sup>*\<^sup>* demo_books demo_claimed"
proof -
  have "claim_step demo_env reissuing demo_books demo_claimed"
    unfolding demo_claimed_def by (rule creating) (simp_all add: demo_books_def)
  then show ?thesis by (rule r_into_rtranclp)
qed

lemmas demo_simps = demo_env_def demo_books_def demo_dto_def demo_claimed_def create_def
  create_transaction_def reserveBudget_def find_campaign_def find_row_Cons ledger_sum_def
  import_row_taken_def enqueueVerificationForClaim_def Let_def

lemma demo_rows:
  "map cl_id (cs_claims demo_claimed) = [''c1'']" "map cl_amount (cs_claims demo_claimed) = [100]"
  "map cl_status (cs_claims demo_claimed) = [C_requested]" "map cl_campaignId (cs_claims demo_claimed) = [''k'']"
  "map cl_deletedAt (cs_claims demo_claimed) = [None]"
  "map le_amount (cs_ledger demo_claimed) = [100]" "map le_eventType (cs_ledger demo_claimed) = [Lock]"
  "map le_campaignId (cs_ledger demo_claimed) = [''k'']" "cs_campaigns demo_claimed = cs_campaigns demo_books"
  by (simp_all add: demo_simps)

theorem services_run_ledger_machine_witness:
  "(ledger_move True)\<^sup>*\<^sup>* (view demo_books) (view demo_claimed) \<and> view demo_books \<noteq> view demo_claimed"
  using services_run_ledger_machine [OF demo_fresh demo_run, of False] demo_rows(1)
  by (auto simp: view_def demo_books_def)

theorem ledger_balances_witness:
  "cb_lockedAmount (projr (getCampaignBalance ''k'' demo_claimed)) = 100"
proof -
  have "getCampaignBalance ''k'' demo_claimed = Inr (projr (getCampaignBalance ''k'' demo_claimed))"
    by (simp add: getCampaignBalance_def demo_simps)
  from ledger_balances [OF demo_fresh demo_run this] show ?thesis by (simp add: demo_simps)
qed


theorem claims_move_forward_witness:
  "\<exists>c' \<in> set (cs_claims (snd (cleanupExpiredClaims demo_env 9000000000 demo_claimed))). cl_id c' = ''c1'' \<and> cl_amount c' = 100"
proof -
  have "ledger_inv (view demo_claimed)"
    by (rule runs_inv [OF demo_run [of True] fresh_invs(1) [OF demo_fresh]])
  moreover have "hd (cs_claims demo_claimed) \<in> set (cs_claims demo_claimed)" by (simp add: demo_simps)
  moreover have "(claim_step demo_env True)\<^sup>*\<^sup>* demo_claimed (snd (cleanupExpiredClaims demo_env 9000000000 demo_claimed))"
    by (intro r_into_rtranclp cleaning)
  ultimately have "\<exists>c' \<in> set (cs_claims (snd (cleanupExpiredClaims demo_env 9000000000 demo_claimed))).
      cl_id c' = cl_id (hd (cs_claims demo_claimed)) \<and> cl_campaignId c' = cl_campaignId (hd (cs_claims demo_claimed)) \<and>
      cl_amount c' = cl_amount (hd (cs_claims demo_claimed)) \<and>
      reaches (cl_status (hd (cs_claims demo_claimed))) (cl_status c')"
    by (intro claims_move_forward)
  then show ?thesis by (auto simp: demo_simps)
qed

text \<open>
  Reissuing escapes the budget: \<open>reissue\<close> locks the new amount without asking
  \<open>reserveBudget\<close>, so from fresh books one creation and one reissue with a larger amount leave
  a campaign with less than nothing available.
\<close>

theorem reissue_overspends:
  "\<exists>s. (claim_step demo_env True)\<^sup>*\<^sup>* demo_books s \<and>
     (\<exists>b. getCampaignBalance ''k'' s = Inr b \<and> cb_budget b = 100 \<and> cb_availableBudget b = - 400)"
proof (intro exI conjI)
  let ?s = "snd (reissue demo_env 1 ''c2'' ''c1'' \<lparr>rd_operatorId = ''op'', rd_reason = None,
      rd_amount = Some 500, rd_recipientRef = None\<rparr> demo_claimed)"
  have "claim_step demo_env True demo_claimed ?s"
    by (rule reissues) (simp_all add: demo_simps)
  with demo_run [of True] show "(claim_step demo_env True)\<^sup>*\<^sup>* demo_books ?s" by simp
  show "getCampaignBalance ''k'' ?s = Inr \<lparr>cb_campaignId = ''k'', cb_budget = 100, cb_lockedAmount = 500,
      cb_disbursedAmount = 0, cb_availableBudget = - 400\<rparr>"
    by (simp add: getCampaignBalance_def reissue_def cancellable_def demo_simps find_claim_def
        CANCELLABLE_STATUSES_def log_audit_def update_claim_def unlock_entry_def)
qed simp_all

text \<open>
  A cancellation frees nothing for new claims: \<open>cancel\<close> writes its \<open>unlock\<close> entry, but the
  check that guards the creation of claims sums the \<open>lock\<close> and \<open>disburse\<close> entries only, so its
  verdict is the same before and after any cancellation, for every campaign and amount.
\<close>

theorem cancel_frees_no_budget:
  "reserveBudget camp a (snd (cancel env now i dto s)) = reserveBudget camp a s"
proof -
  have "cs_campaigns (snd (cancel env now i dto s)) = cs_campaigns s"
    by (simp add: cancel_def cancel_commit_def Let_def log_audit_def update_claim_def split: sum.split)
  moreover have "ledger_sum ev camp (snd (cancel env now i dto s)) = ledger_sum ev camp s" if "ev \<noteq> Unlock" for ev
    using that by (simp add: cancel_def cancel_commit_def Let_def log_audit_def ledger_sum_def unlock_entry_def
        split: sum.split)
  ultimately show ?thesis by (simp add: reserveBudget_def find_campaign_def split: option.split)
qed

text \<open>
  Two cancellations that both read the claim before either commits both unlock it: the
  campaign's locked amount falls by twice the amount of the claim, since the update has no
  condition on the status that was read.
\<close>

theorem concurrent_cancels_unlock_twice:
  assumes "cancellable cancel_refusals i s = Inr c" and "getCampaignBalance (cl_campaignId c) s = Inr b"
  shows "let s1 = snd (cancel_commit env t1 c d1 s); s2 = snd (cancel_commit env t2 c d2 s1)
    in snd (cancel env t1 i d1 s) = s1 \<and>
       map_sum id cb_lockedAmount (getCampaignBalance (cl_campaignId c) s2) = Inr (cb_lockedAmount b - 2 * cl_amount c)"
proof -
  define s1 where "s1 = snd (cancel_commit env t1 c d1 s)"
  define s2 where "s2 = snd (cancel_commit env t2 c d2 s1)"
  have entry: "event_total evs (cl_campaignId c) (view (snd (cancel_commit env t c d x))) =
      event_total evs (cl_campaignId c) (view x) + (if Unlock \<in> evs then - cl_amount c else 0)" for evs t d x
    by (simp add: cancel_commit_def Let_def event_total_view unlock_entry_def log_audit_def)
  have camps: "cs_campaigns (snd (cancel_commit env t c d x)) = cs_campaigns x" for t d x
    by (simp add: cancel_commit_def Let_def log_audit_def update_claim_def)
  obtain b2 where b2: "getCampaignBalance (cl_campaignId c) s2 = Inr b2"
    using assms(2) camps by (auto simp: getCampaignBalance_def s2_def s1_def find_campaign_def
        case_prod_unfold Let_def split: option.splits if_splits)
  have "cb_lockedAmount b2 = cb_lockedAmount b - 2 * cl_amount c"
    using balance_totals(1) [OF b2] balance_totals(1) [OF assms(2)] entry by (simp add: s2_def s1_def)
  moreover have "snd (cancel env t1 i d1 s) = s1"
    by (simp add: cancel_def assms(1) s1_def case_prod_unfold)
  ultimately show ?thesis using b2 by (simp add: s1_def [symmetric] s2_def [symmetric] Let_def)
qed

theorem concurrent_cancels_unlock_twice_witness:
  "let c = hd (cs_claims demo_claimed); d = \<lparr>cd_operatorId = ''op'', cd_reason = None\<rparr>;
       s1 = snd (cancel_commit demo_env 1 c d demo_claimed); s2 = snd (cancel_commit demo_env 2 c d s1)
   in map_sum id cb_lockedAmount (getCampaignBalance ''k'' s2) = Inr (- 100)"
proof -
  have c: "cancellable cancel_refusals ''c1'' demo_claimed = Inr (hd (cs_claims demo_claimed))"
    by (simp add: cancellable_def find_claim_def demo_simps CANCELLABLE_STATUSES_def)
  have camp: "cl_campaignId (hd (cs_claims demo_claimed)) = ''k''" "cl_amount (hd (cs_claims demo_claimed)) = 100"
    by (simp_all add: demo_simps)
  have b: "getCampaignBalance ''k'' demo_claimed = Inr \<lparr>cb_campaignId = ''k'', cb_budget = 100,
      cb_lockedAmount = 100, cb_disbursedAmount = 0, cb_availableBudget = 0\<rparr>"
    by (simp add: getCampaignBalance_def demo_simps)
  show ?thesis
    using concurrent_cancels_unlock_twice [OF c, unfolded camp, OF b, of demo_env 1 "\<lparr>cd_operatorId = ''op'', cd_reason = None\<rparr>" 2]
    by (simp add: Let_def)
qed

text \<open>What the cleanup does when nothing on the chain stands in its way.\<close>

definition archived_row :: "time \<Rightarrow> claim \<Rightarrow> claim" where
  "archived_row now c = c\<lparr>cl_status := C_archived, cl_updatedAt := now\<rparr>"

lemma cleanup_loop_offline:
  assumes "\<not> ce_onchain env"
  shows "fst (cleanup_loop env now cs n s) = Inr (n + length cs) \<and>
    cs_claims (snd (cleanup_loop env now cs n s)) =
      update_where (\<lambda>c. cl_id c \<in> cl_id ` set cs) (archived_row now) (cs_claims s)"
proof (induction cs arbitrary: n s)
  case Nil
  have "update_where (\<lambda>c. False) (archived_row now) (cs_claims s) = cs_claims s" by (rule update_where_ident) simp
  then show ?case by simp
next
  case (Cons c cs)
  have "update_where (\<lambda>x. cl_id x \<in> cl_id ` set cs) (archived_row now)
        (update_where (\<lambda>x. cl_id x = cl_id c) (archived_row now) rows) =
      update_where (\<lambda>x. cl_id x = cl_id c \<or> cl_id x \<in> cl_id ` set cs) (archived_row now) rows" for rows
    by (induction rows) (auto simp: archived_row_def)
  then show ?case
    using assms by (simp add: Cons cleanupExpiredClaimOnchain_def log_audit_def update_claim_def
        archived_row_def [abs_def])
qed

text \<open>
  With on-chain execution off, the hourly cleanup archives every expired claim that is still
  requested or verified and touches no other row, reports exactly their number, and finds nothing
  left when it runs again at the same time.
\<close>

theorem cleanup_archives_expired:
  assumes "\<not> ce_onchain env" and "distinct (map cl_id (cs_claims s))"
  shows "let (r, s') = cleanupExpiredClaims env now s; n = count_where (expired_claim now) (cs_claims s)
    in r = Inr (n, n) \<and>
       cs_claims s' = map (\<lambda>c. if expired_claim now c then archived_row now c else c) (cs_claims s) \<and>
       fst (cleanupExpiredClaims env now s') = Inr (0, 0)"
proof -
  let ?cs = "filter (expired_claim now) (cs_claims s)"
  let ?s' = "snd (cleanupExpiredClaims env now s)"
  have same: "cl_id c \<in> cl_id ` set ?cs \<longleftrightarrow> expired_claim now c" if "c \<in> set (cs_claims s)" for c
    using that key_unique [OF assms(2)] by auto
  have rows: "cs_claims ?s' = map (\<lambda>c. if expired_claim now c then archived_row now c else c) (cs_claims s)"
  proof (cases "?cs = []")
    case True
    then have "\<And>c. c \<in> set (cs_claims s) \<Longrightarrow> \<not> expired_claim now c" by (auto simp: filter_empty_conv)
    with True show ?thesis by (simp add: cleanupExpiredClaims_def map_idI)
  next
    case False
    obtain s1 where s1: "cleanup_loop env now ?cs 0 s = (Inr (length ?cs), s1)"
      "cs_claims s1 = update_where (\<lambda>c. cl_id c \<in> cl_id ` set ?cs) (archived_row now) (cs_claims s)"
      using cleanup_loop_offline [OF assms(1), of now ?cs 0 s]
      by (metis add_0 prod.collapse snd_conv)
    have "update_where (\<lambda>c. cl_id c \<in> cl_id ` set ?cs) (archived_row now) (cs_claims s) =
        map (\<lambda>c. if expired_claim now c then archived_row now c else c) (cs_claims s)"
      unfolding update_where_def by (rule map_cong [OF refl]) (simp only: same)
    with False s1 show ?thesis by (simp add: cleanupExpiredClaims_def Let_def)
  qed
  have r: "fst (cleanupExpiredClaims env now s) = Inr (count_where (expired_claim now) (cs_claims s), count_where (expired_claim now) (cs_claims s))"
    using cleanup_loop_offline [OF assms(1), of now ?cs 0 s]
    by (auto simp: cleanupExpiredClaims_def Let_def count_where_def split: prod.split sum.split)
  have "filter (expired_claim now) (cs_claims ?s') = []"
    unfolding rows by (auto simp: filter_empty_conv archived_row_def expired_claim_def)
  then have "fst (cleanupExpiredClaims env now ?s') = Inr (0, 0)"
    by (simp add: cleanupExpiredClaims_def)
  with r rows show ?thesis by (simp add: case_prod_unfold Let_def)
qed

theorem cleanup_archives_expired_witness:
  "map cl_status (cs_claims (snd (cleanupExpiredClaims demo_env 9000000000 demo_claimed))) = [C_archived]"
  using cleanup_archives_expired [of demo_env demo_claimed 9000000000]
  by (simp add: case_prod_unfold Let_def demo_rows demo_env_def)
    (simp add: demo_simps expired_claim_def DEFAULT_CLAIM_EXPIRY_DAYS_def archived_row_def)

text \<open>
  With on-chain execution on, one expired claim without a package stops the cleanup for all:
  when the first expired claim has none (a package is only known once its creation event has been
  correlated), every run ends in an error and archives no claim at all.
\<close>

theorem cleanup_blocked:
  assumes "ce_onchain env" and "ce_cleanup env = Some (revoke, refund)"
    and "filter (expired_claim now) (cs_claims s) = c # cs"
    and "\<forall>e \<in> set (cs_correlations s). co_claimId e \<noteq> Some (cl_id c)"
  shows "cleanupExpiredClaims env now s =
    (Inl (PlainError (''Package ID not found for claim '' @ cl_id c)), s)"
proof -
  have "filter (\<lambda>e. co_claimId e = Some (cl_id c) \<and> co_eventTopic e = ''package_created'') (cs_correlations s) = []"
    using assms(4) by (simp add: filter_empty_conv)
  then have "getPackageIdForClaim (cl_id c) s = Inl (PlainError (''Package ID not found for claim '' @ cl_id c))"
    by (simp add: getPackageIdForClaim_def)
  then show ?thesis
    using assms(1-3) by (simp add: cleanupExpiredClaims_def cleanupExpiredClaimOnchain_def Let_def)
qed

theorem cleanup_blocked_witness:
  "snd (cleanupExpiredClaims (demo_env\<lparr>ce_onchain := True, ce_cleanup := Some (Inr, Inr)\<rparr>) 9000000000 demo_claimed)
     = demo_claimed"
  using cleanup_blocked [of "demo_env\<lparr>ce_onchain := True, ce_cleanup := Some (Inr, Inr)\<rparr>" Inr Inr 9000000000 demo_claimed
      "hd (cs_claims demo_claimed)" "[]"]
  by (simp add: demo_simps expired_claim_def DEFAULT_CLAIM_EXPIRY_DAYS_def)

end
