(* ===== verification/ClaimColumns.thy ===== *)
theory ClaimColumns
  imports ClaimLedger
begin

text \<open>
  What the requests on claims never change. A column of the table of claims is stable if it does not
  depend on the status of a claim, its time stamps, its cancellation, its receipt and its anchored metadata; every
  request keeps such a column, and at most appends to it.
\<close>

lemma create_claims:
  "cs_claims (snd (create env now newId dto s)) = cs_claims s \<or>
   (\<exists>c. cs_claims (snd (create env now newId dto s)) = cs_claims s @ [c] \<and> cl_id c = newId \<and> cl_reissuedFromId c = None)"
  by (auto simp: create_def create_transaction_def enqueueVerificationForClaim_def Let_def split: option.split sum.split)

locale stable_column =
  fixes g :: "claim \<Rightarrow> 'v"
  assumes keeps_time [simp]: "g (c\<lparr>cl_updatedAt := now\<rparr>) = g c"
    and keeps_status [simp]: "g (c\<lparr>cl_status := st\<rparr>) = g c"
    and keeps_receipt [simp]: "g (c\<lparr>cl_receiptPointer := ptr\<rparr>) = g c"
    and keeps_metadata [simp]: "g (c\<lparr>cl_anchorMetadata := m\<rparr>) = g c"
    and keeps_cancelled [simp]: "g (cancel_row now op reason c) = g c"
begin

lemma column_update: "(\<And>c. g (f c) = g c) \<Longrightarrow> map g (cs_claims (update_claim now i f s)) = map g (cs_claims s)"
  by (simp add: update_claim_def map_update_where)

lemma column_transition: "map g (cs_claims (snd (transitionStatus now i a b s))) = map g (cs_claims s)"
  by (simp add: transitionStatus_def column_update split: option.split)

lemma column_verify: "map g (cs_claims (snd (verify env now i s))) = map g (cs_claims s)"
  by (simp add: verify_def column_transition split: option.split)

lemma column_disburse: "map g (cs_claims (snd (disburse env clk tx amb i ptr cid s))) = map g (cs_claims s)"
proof -
  have "cs_claims (disburse_onchain env clk tx amb c ptr cid t) = cs_claims t" for c t
    by (simp add: disburse_onchain_def Let_def split: sum.split prod.split)
  then show ?thesis by (simp add: disburse_def Let_def column_transition column_update split: option.split)
qed

lemma column_cleanup_loop: "map g (cs_claims (snd (cleanup_loop env now cs n s))) = map g (cs_claims s)"
  by (induction cs arbitrary: n s) (simp_all add: column_update log_audit_def split: sum.split)

lemma column_cleanup: "map g (cs_claims (snd (cleanupExpiredClaims env now s))) = map g (cs_claims s)"
  using column_cleanup_loop [of env now "filter (expired_claim now) (cs_claims s)" 0 s]
  by (auto simp: cleanupExpiredClaims_def Let_def split: prod.split sum.split)

lemma column_cancel: "map g (cs_claims (snd (cancel env now i dto s))) = map g (cs_claims s)"
  by (simp add: cancel_def cancel_commit_def Let_def column_update log_audit_def split: sum.split)

lemma column_reissue:
  "map g (cs_claims (snd (reissue env now newId i dto s))) = map g (cs_claims s) \<or>
   (\<exists>c amount ref. c \<in> set (cs_claims s) \<and> cl_id c = i \<and>
      map g (cs_claims (snd (reissue env now newId i dto s))) = map g (cs_claims s) @ [g (replacement now newId c amount ref)])"
proof (cases "cancellable reissue_refusals i s")
  case (Inr c)
  then have "find_claim i s = Some c" by (simp add: cancellable_def split: option.splits if_splits)
  then have "c \<in> set (cs_claims s)" "cl_id c = i"
    unfolding find_claim_def by (rule find_row_SomeD)+
  moreover have "map g (cs_claims (snd (reissue env now newId i dto s))) = map g (cs_claims s) @
      [g (replacement now newId c (case rd_amount dto of None \<Rightarrow> cl_amount c | Some a \<Rightarrow> a)
        (if truthy (rd_recipientRef dto) then ce_encrypt env (the (rd_recipientRef dto)) else cl_recipientRef c))]"
    unfolding reissue_def Inr
    by (simp add: Let_def log_audit_def column_update)
  ultimately show ?thesis by blast
qed (simp add: reissue_def)

lemmas column_kept = column_update column_transition column_verify column_disburse column_cleanup column_cancel

lemma column_step:
  assumes "claim_step env reissuing s s'"
  shows "map g (cs_claims s') = map g (cs_claims s) \<or>
    (\<exists>c. map g (cs_claims s') = map g (cs_claims s) @ [g c] \<and> cl_id c \<notin> cl_id ` set (cs_claims s) \<and> cl_id c \<noteq> [] \<and>
      (cl_reissuedFromId c = None \<or> (\<exists>c0 \<in> set (cs_claims s). cl_reissuedFromId c = Some (cl_id c0))))"
  using assms
proof (rule claim_stepE)
  fix newId now dto
  assume n: "newId \<notin> cl_id ` set (cs_claims s)" "newId \<noteq> []" and s': "s' = snd (create env now newId dto s)"
  from create_claims [of env now newId dto s] show ?thesis
  proof
    assume "cs_claims (snd (create env now newId dto s)) = cs_claims s"
    with s' show ?thesis by simp
  next
    assume "\<exists>c. cs_claims (snd (create env now newId dto s)) = cs_claims s @ [c] \<and> cl_id c = newId \<and> cl_reissuedFromId c = None"
    then obtain c where "cs_claims (snd (create env now newId dto s)) = cs_claims s @ [c]" "cl_id c = newId" "cl_reissuedFromId c = None"
      by blast
    with n s' show ?thesis by (intro disjI2 exI [of _ c]) simp
  qed
next
  fix newId now i dto
  assume n: "newId \<notin> cl_id ` set (cs_claims s)" "newId \<noteq> []" and s': "s' = snd (reissue env now newId i dto s)"
  from column_reissue [of env now newId i dto s] show ?thesis
  proof
    assume "map g (cs_claims (snd (reissue env now newId i dto s))) = map g (cs_claims s)"
    with s' show ?thesis by simp
  next
    assume "\<exists>c amount ref. c \<in> set (cs_claims s) \<and> cl_id c = i \<and>
      map g (cs_claims (snd (reissue env now newId i dto s))) = map g (cs_claims s) @ [g (replacement now newId c amount ref)]"
    then obtain c amount ref where "c \<in> set (cs_claims s)"
      "map g (cs_claims (snd (reissue env now newId i dto s))) = map g (cs_claims s) @ [g (replacement now newId c amount ref)]" by blast
    with n s' show ?thesis
      by (intro disjI2 exI [of _ "replacement now newId c amount ref"]) (auto simp: replacement_def)
  qed
qed (simp_all add: column_kept approve_claim_def archive_def)

end

end
