(* ===== verification/ClaimHistory.thy ===== *)
theory ClaimHistory
  imports ClaimColumns
begin

text \<open>
  The reissue history of \<open>claims/cancel-and-reissue.service.ts\<close>: the walk back to the root of a
  chain and the breadth-first collection of everything reissued from it. Both loops are
  \<open>partial_function\<close>s, so that not returning is \<open>None\<close>; that they return, on every table the
  claim operations can produce, is proved. The links of a table are the pairs of a claim's id
  and the id it was reissued from.
\<close>

section \<open>The two loops\<close>

text \<open>\<open>Some None\<close>: the walk met an id the table does not have.\<close>

partial_function (option) chain_walk :: "claims_state \<Rightarrow> claim \<Rightarrow> claim option option" where
  "chain_walk s current =
     (if truthy (cl_reissuedFromId current) then
        (case find_claim (the (cl_reissuedFromId current)) s of
           None \<Rightarrow> Some None
         | Some parent \<Rightarrow> chain_walk s parent)
      else Some (Some current))"

definition findChainRoot :: "ident \<Rightarrow> claims_state \<Rightarrow> ident option" where
  "findChainRoot i s =
     (case find_claim i s of
        None \<Rightarrow> Some i
      | Some c \<Rightarrow> map_option (\<lambda>r. case r of None \<Rightarrow> i | Some c' \<Rightarrow> cl_id c') (chain_walk s c))"

definition reissued_children :: "claims_state \<Rightarrow> ident \<Rightarrow> claim list" where
  "reissued_children s parentId =
     sort_key cl_createdAt (filter (\<lambda>c. cl_reissuedFromId c = Some parentId) (cs_claims s))"

partial_function (option) chain_bfs ::
  "claims_state \<Rightarrow> ident list \<Rightarrow> claim list \<Rightarrow> claim list option" where
  "chain_bfs s queue results =
     (case queue of
        [] \<Rightarrow> Some results
      | parentId # rest \<Rightarrow>
          chain_bfs s (rest @ map cl_id (reissued_children s parentId))
            (results @ reissued_children s parentId))"

definition collectChain :: "ident \<Rightarrow> claims_state \<Rightarrow> claim list option" where
  "collectChain rootId s =
     (case find_claim rootId s of
        None \<Rightarrow> Some []
      | Some rootClaim \<Rightarrow> chain_bfs s [rootId] [rootClaim])"

definition getReissueHistory ::
  "claims_env \<Rightarrow> ident \<Rightarrow> claims_state \<Rightarrow> (app_error + claim list) option" where
  "getReissueHistory env i s =
     (case find_claim i s of
        None \<Rightarrow> Some (Inl (not_found ''Claim not found''))
      | Some c \<Rightarrow>
          if cl_deletedAt c \<noteq> None then Some (Inl (not_found ''Claim not found''))
          else
            Option.bind (findChainRoot i s) (\<lambda>rootId.
              map_option (\<lambda>chain. Inr (map (\<lambda>c. c\<lparr>cl_recipientRef := ce_decrypt env (cl_recipientRef c)\<rparr>) chain))
                (collectChain rootId s)))"

section \<open>The links of a table\<close>

type_synonym links = "(ident \<times> ident option) list"

definition links_of :: "claims_state \<Rightarrow> links" where
  "links_of s = map (\<lambda>c. (cl_id c, cl_reissuedFromId c)) (cs_claims s)"

text \<open>Ids are distinct and not empty, and every claim was reissued from an earlier one, if any.\<close>

definition links_wf :: "links \<Rightarrow> bool" where
  "links_wf ls \<longleftrightarrow> distinct (map fst ls) \<and> [] \<notin> fst ` set ls \<and>
     (\<forall>k < length ls. \<forall>p. snd (ls ! k) = Some p \<longrightarrow> p \<in> fst ` set (take k ls))"

lemma links_wf_append:
  assumes "links_wf ls" and "i \<notin> fst ` set ls" and "i \<noteq> []"
    and "\<And>p. r = Some p \<Longrightarrow> p \<in> fst ` set ls"
  shows "links_wf (ls @ [(i, r)])"
  using assms by (auto simp: links_wf_def nth_append less_Suc_eq)

definition parents :: "claims_state \<Rightarrow> (ident \<times> ident) set" where
  "parents s = {(cl_id c, p) | c p. c \<in> set (cs_claims s) \<and> cl_reissuedFromId c = Some p}"

lemma parentsI: "c \<in> set (cs_claims s) \<Longrightarrow> cl_reissuedFromId c = Some p \<Longrightarrow> (cl_id c, p) \<in> parents s"
  by (auto simp: parents_def)

lemma parentsE:
  assumes "(i, p) \<in> parents s"
  obtains c where "c \<in> set (cs_claims s)" "cl_id c = i" "cl_reissuedFromId c = Some p"
  using assms by (auto simp: parents_def)

lemma ids_distinct_wf:
  assumes "links_wf (links_of s)"
  shows "distinct (map cl_id (cs_claims s))"
  using assms by (simp add: links_wf_def links_of_def o_def)

lemma parents_unique:
  assumes "links_wf (links_of s)" and "(i, p) \<in> parents s" and "(i, q) \<in> parents s"
  shows "p = q"
proof -
  obtain c where c: "c \<in> set (cs_claims s)" "cl_id c = i" "cl_reissuedFromId c = Some p"
    using assms(2) by (rule parentsE)
  obtain d where d: "d \<in> set (cs_claims s)" "cl_id d = i" "cl_reissuedFromId d = Some q"
    using assms(3) by (rule parentsE)
  have "c = d" using key_unique [OF ids_distinct_wf [OF assms(1)] c(1) d(1)] c(2) d(2) by simp
  with c(3) d(3) show ?thesis by simp
qed

lemma parent_exists:
  assumes "links_wf (links_of s)" and "(i, p) \<in> parents s"
  obtains j k where "j < k" "k < length (cs_claims s)" "cl_id (cs_claims s ! k) = i" "cl_id (cs_claims s ! j) = p"
proof -
  obtain k where k: "k < length (cs_claims s)" "cl_id (cs_claims s ! k) = i"
    "cl_reissuedFromId (cs_claims s ! k) = Some p"
    using assms(2) by (auto simp: parents_def in_set_conv_nth)
  then have "p \<in> fst ` set (take k (links_of s))"
    using assms(1) by (auto simp: links_wf_def links_of_def)
  then obtain j where "j < k" "cl_id (cs_claims s ! j) = p"
    using k(1) by (auto simp: links_of_def in_set_conv_nth)
  with k that show ?thesis by blast
qed

text \<open>The position of an id in the table; a parent stands before its children.\<close>

definition position :: "claims_state \<Rightarrow> ident \<Rightarrow> nat" where
  "position s i = length (takeWhile (\<lambda>c. cl_id c \<noteq> i) (cs_claims s))"

lemma position_nth:
  assumes "distinct (map cl_id (cs_claims s))" and "k < length (cs_claims s)"
  shows "position s (cl_id (cs_claims s ! k)) = k"
proof -
  have "takeWhile (\<lambda>c. cl_id c \<noteq> cl_id (cs_claims s ! k)) (cs_claims s) = take k (cs_claims s)"
  proof (rule takeWhile_eq_take_P_nth)
    fix j assume "j < k" "j < length (cs_claims s)"
    with assms show "cl_id (cs_claims s ! j) \<noteq> cl_id (cs_claims s ! k)"
      by (metis nth_eq_iff_index_eq length_map nth_map less_irrefl)
  qed simp
  with assms(2) show ?thesis by (simp add: position_def)
qed

lemma parent_before:
  assumes "links_wf (links_of s)" and "(i, p) \<in> parents s"
  shows "position s p < position s i"
  using parent_exists [OF assms] position_nth [OF ids_distinct_wf [OF assms(1)]]
  by (metis less_trans)

lemma ancestor_before:
  assumes "links_wf (links_of s)" and "(i, p) \<in> (parents s)\<^sup>+"
  shows "position s p < position s i"
  using assms(2) by (induction rule: trancl_induct) (auto dest: parent_before [OF assms(1)] intro: less_trans)

section \<open>The walk to the root\<close>

lemma in_table:
  assumes "links_wf (links_of s)" and "c \<in> set (cs_claims s)"
  shows "find_claim (cl_id c) s = Some c"
  using find_row_key [OF ids_distinct_wf [OF assms(1)] assms(2)] by (simp add: find_claim_def)

lemma chain_walk_root:
  assumes "links_wf (links_of s)" and "c \<in> set (cs_claims s)"
  shows "\<exists>r \<in> set (cs_claims s). chain_walk s c = Some (Some r) \<and> cl_reissuedFromId r = None \<and>
    (cl_id c, cl_id r) \<in> (parents s)\<^sup>*"
  using assms(2)
proof (induction "position s (cl_id c)" arbitrary: c rule: less_induct)
  case less
  show ?case
  proof (cases "cl_reissuedFromId c")
    case None
    then show ?thesis using less.prems by (intro bexI [of _ c]) (simp_all add: chain_walk.simps [of s c] truthy_def)
  next
    case (Some p)
    then have par: "(cl_id c, p) \<in> parents s" using less.prems by (intro parentsI)
    obtain j k where "k < length (cs_claims s)" "j < k" "cl_id (cs_claims s ! j) = p"
      using parent_exists [OF assms(1) par] by metis
    then obtain d where d: "d \<in> set (cs_claims s)" "cl_id d = p"
      by (metis nth_mem less_trans)
    then have "p \<noteq> []" using assms(1) by (force simp: links_wf_def links_of_def)
    with Some d have next_walk: "chain_walk s c = chain_walk s d"
      using in_table [OF assms(1) d(1)] by (simp add: chain_walk.simps [of s c] truthy_def)
    have "position s (cl_id d) < position s (cl_id c)" using parent_before [OF assms(1) par] d(2) by simp
    from less.hyps [OF this d(1)] obtain r where "r \<in> set (cs_claims s)" "chain_walk s d = Some (Some r)"
      "cl_reissuedFromId r = None" "(cl_id d, cl_id r) \<in> (parents s)\<^sup>*" by blast
    with next_walk par d(2) show ?thesis
      by (intro bexI [of _ r]) (auto intro: converse_rtrancl_into_rtrancl)
  qed
qed

section \<open>The breadth-first collection\<close>

definition descendants :: "claims_state \<Rightarrow> ident list \<Rightarrow> ident set" where
  "descendants s q = {i. \<exists>p \<in> set q. (i, p) \<in> (parents s)\<^sup>+}"

text \<open>No id of the queue descends from another.\<close>

definition antichain :: "claims_state \<Rightarrow> ident list \<Rightarrow> bool" where
  "antichain s q \<longleftrightarrow> distinct q \<and> set q \<inter> descendants s q = {}"

lemma set_children:
  "set (map cl_id (reissued_children s p)) = {i. (i, p) \<in> parents s}"
  by (auto simp: reissued_children_def parents_def)

lemma distinct_children:
  assumes "links_wf (links_of s)"
  shows "distinct (map cl_id (reissued_children s p))"
proof -
  have "inj_on cl_id (set (cs_claims s))" "distinct (cs_claims s)"
    using ids_distinct_wf [OF assms] by (simp_all add: distinct_map)
  then show ?thesis by (auto simp: reissued_children_def distinct_map intro: inj_on_subset)
qed

lemma up_from_child:
  assumes "links_wf (links_of s)" and "(i, p) \<in> parents s" and "(i, r) \<in> (parents s)\<^sup>+"
  shows "(p, r) \<in> (parents s)\<^sup>*"
proof -
  obtain q where "(i, q) \<in> parents s" "(q, r) \<in> (parents s)\<^sup>*" using assms(3) by (meson tranclD)
  with parents_unique [OF assms(1,2)] show ?thesis by blast
qed

lemma antichain_step:
  assumes "links_wf (links_of s)" and "antichain s (p # q)"
  shows "antichain s (q @ map cl_id (reissued_children s p))"
    and "{i. (i, p) \<in> parents s} \<inter> descendants s (q @ map cl_id (reissued_children s p)) = {}"
proof -
  let ?ch = "map cl_id (reissued_children s p)"
  have p: "p \<notin> set q" "distinct q" and none: "\<And>x y. x \<in> set (p # q) \<Longrightarrow> y \<in> set (p # q) \<Longrightarrow> (x, y) \<notin> (parents s)\<^sup>+"
    using assms(2) by (auto simp: antichain_def descendants_def)
  have irr: "(x, x) \<notin> (parents s)\<^sup>+" for x
    using ancestor_before [OF assms(1), of x x] by blast
  have child: "(i, p) \<in> parents s" if "i \<in> set ?ch" for i
    using that set_children [of s p] by blast
  have a: "(i, r) \<notin> (parents s)\<^sup>+" if "i \<in> set ?ch" "r \<in> set q" for i r
  proof
    assume "(i, r) \<in> (parents s)\<^sup>+"
    from up_from_child [OF assms(1) child [OF that(1)] this] have "(p, r) \<in> (parents s)\<^sup>*" .
    moreover have "p \<noteq> r" using that(2) p(1) by blast
    ultimately have "(p, r) \<in> (parents s)\<^sup>+" by (meson rtranclD)
    with none that(2) show False by auto
  qed
  have b: "(r, i) \<notin> (parents s)\<^sup>+" if "i \<in> set ?ch" "r \<in> set q" for i r
    using none [of r p] that child [OF that(1)] by (auto dest: trancl_into_trancl)
  have c: "(i, j) \<notin> (parents s)\<^sup>+" if "i \<in> set ?ch" "j \<in> set ?ch" for i j
  proof
    assume "(i, j) \<in> (parents s)\<^sup>+"
    from up_from_child [OF assms(1) child [OF that(1)] this] have "(p, j) \<in> (parents s)\<^sup>*" .
    from this child [OF that(2)] have "(p, p) \<in> (parents s)\<^sup>+" by (rule rtrancl_into_trancl1)
    with irr show False by blast
  qed
  have d: "set q \<inter> set ?ch = {}"
    using none [of _ p] child by fastforce
  show "antichain s (q @ ?ch)"
    using p(2) distinct_children [OF assms(1)] d a b c none
    by (auto simp: antichain_def descendants_def)
  show "{i. (i, p) \<in> parents s} \<inter> descendants s (q @ ?ch) = {}"
    using a c set_children [of s p] by (auto simp: descendants_def)
qed

lemma descendants_Cons:
  "descendants s (p # q) = {i. (i, p) \<in> parents s} \<union> descendants s (q @ map cl_id (reissued_children s p))"
proof -
  have "(i, p) \<in> (parents s)\<^sup>+ \<longleftrightarrow> (i, p) \<in> parents s \<or> (\<exists>j. (j, p) \<in> parents s \<and> (i, j) \<in> (parents s)\<^sup>+)" for i
    by (meson trancl.simps)
  moreover have "set (map cl_id (reissued_children s p)) = {i. (i, p) \<in> parents s}" by (rule set_children)
  ultimately show ?thesis unfolding descendants_def by auto
qed

lemma finite_descendants: "finite (descendants s q)"
proof (rule finite_subset)
  show "descendants s q \<subseteq> cl_id ` set (cs_claims s)"
    by (auto simp: descendants_def parents_def dest!: tranclD)
qed simp

lemma chain_bfs_collects:
  assumes "links_wf (links_of s)" and "antichain s q"
  shows "\<exists>new. chain_bfs s q results = Some (results @ new) \<and> distinct (map cl_id new) \<and>
    cl_id ` set new = descendants s q \<and> set new \<subseteq> set (cs_claims s)"
  using assms(2)
proof (induction "card (descendants s q) + length q" arbitrary: q results rule: less_induct)
  case less
  show ?case
  proof (cases q)
    case Nil
    then show ?thesis by (simp add: chain_bfs.simps [of s "[]"] descendants_def)
  next
    case (Cons p rest)
    let ?ch = "reissued_children s p"
    note anti = antichain_step [OF assms(1), of p rest]
    have split: "descendants s q = {i. (i, p) \<in> parents s} \<union> descendants s (rest @ map cl_id ?ch)"
      unfolding Cons by (rule descendants_Cons)
    have fin: "finite {i. (i, p) \<in> parents s}" using finite_descendants [of s q] split by simp
    have "card {i. (i, p) \<in> parents s} = length ?ch"
      using distinct_card [OF distinct_children [OF assms(1), of p]] set_children [of s p] by simp
    then have "card (descendants s q) = length ?ch + card (descendants s (rest @ map cl_id ?ch))"
      using card_Un_disjoint [OF fin finite_descendants [of s "rest @ map cl_id ?ch"]] anti(2) less.prems
      unfolding split by (simp add: Cons)
    then have "card (descendants s (rest @ map cl_id ?ch)) + length (rest @ map cl_id ?ch) <
        card (descendants s q) + length q" by (simp add: Cons)
    from less.hyps [OF this] anti(1) less.prems obtain new where
      new: "chain_bfs s (rest @ map cl_id ?ch) (results @ ?ch) = Some ((results @ ?ch) @ new)"
        "distinct (map cl_id new)" "cl_id ` set new = descendants s (rest @ map cl_id ?ch)"
        "set new \<subseteq> set (cs_claims s)" using Cons by blast
    have "distinct (map cl_id (?ch @ new))"
      using distinct_children [OF assms(1), of p] new(2,3) anti(2) less.prems set_children [of s p] Cons by auto
    moreover have "cl_id ` set (?ch @ new) = descendants s q"
      using new(3) set_children [of s p] by (simp add: split image_Un)
    moreover have "set (?ch @ new) \<subseteq> set (cs_claims s)"
      using new(4) by (auto simp: reissued_children_def)
    moreover have "chain_bfs s q results = Some (results @ (?ch @ new))"
      using new(1) by (simp add: Cons chain_bfs.simps [of s "p # rest"])
    ultimately show ?thesis by blast
  qed
qed

section \<open>The claim operations keep the links well formed\<close>

interpretation links: stable_column "\<lambda>c. (cl_id c, cl_reissuedFromId c)"
  by unfold_locales (simp_all add: cancel_row_def)

lemma ids_of_links: "fst ` set (links_of s) = cl_id ` set (cs_claims s)"
  by (auto simp: links_of_def image_image)

lemma step_keeps_links:
  assumes "claim_step env reissuing s s'" and "links_wf (links_of s)"
  shows "links_wf (links_of s')"
  using links.column_step [OF assms(1)]
proof
  assume "map (\<lambda>c. (cl_id c, cl_reissuedFromId c)) (cs_claims s') = map (\<lambda>c. (cl_id c, cl_reissuedFromId c)) (cs_claims s)"
  with assms(2) show ?thesis by (simp add: links_of_def)
next
  assume "\<exists>c :: claim. map (\<lambda>c. (cl_id c, cl_reissuedFromId c)) (cs_claims s') =
      map (\<lambda>c. (cl_id c, cl_reissuedFromId c)) (cs_claims s) @ [(cl_id c, cl_reissuedFromId c)] \<and>
    cl_id c \<notin> cl_id ` set (cs_claims s) \<and> cl_id c \<noteq> [] \<and>
    (cl_reissuedFromId c = None \<or> (\<exists>c0 \<in> set (cs_claims s). cl_reissuedFromId c = Some (cl_id c0)))"
  then have "\<exists>c :: claim. links_of s' = links_of s @ [(cl_id c, cl_reissuedFromId c)] \<and>
    cl_id c \<notin> fst ` set (links_of s) \<and> cl_id c \<noteq> [] \<and>
    (cl_reissuedFromId c = None \<or> (\<exists>c0 \<in> set (cs_claims s). cl_reissuedFromId c = Some (cl_id c0)))"
    unfolding ids_of_links unfolding links_of_def .
  then obtain c :: claim where c: "links_of s' = links_of s @ [(cl_id c, cl_reissuedFromId c)]"
    "cl_id c \<notin> fst ` set (links_of s)" "cl_id c \<noteq> []"
    "cl_reissuedFromId c = None \<or> (\<exists>c0 \<in> set (cs_claims s). cl_reissuedFromId c = Some (cl_id c0))" by blast
  show ?thesis unfolding c(1)
    by (rule links_wf_append [OF assms(2) c(2,3)]) (use c(4) in \<open>auto simp: ids_of_links\<close>)
qed

interpretation chains: inv_system "claim_step env reissuing" "\<lambda>s. links_wf (links_of s)"
  for env reissuing
  by unfold_locales (rule step_keeps_links)

section \<open>The history\<close>

lemma trancl_children_in: "i \<in> descendants s q \<Longrightarrow> i \<in> cl_id ` set (cs_claims s)"
  by (auto simp: descendants_def parents_def dest!: tranclD)

text \<open>What shares an ancestor with a claim is what descends from its root.\<close>

lemma same_chain:
  assumes "links_wf (links_of s)" and "r \<in> set (cs_claims s)" "cl_reissuedFromId r = None"
    and "(i, cl_id r) \<in> (parents s)\<^sup>*"
  shows "(\<exists>a. (i, a) \<in> (parents s)\<^sup>* \<and> (x, a) \<in> (parents s)\<^sup>*) \<longleftrightarrow> (x, cl_id r) \<in> (parents s)\<^sup>*"
proof
  assume "\<exists>a. (i, a) \<in> (parents s)\<^sup>* \<and> (x, a) \<in> (parents s)\<^sup>*"
  then obtain a where a: "(i, a) \<in> (parents s)\<^sup>*" "(x, a) \<in> (parents s)\<^sup>*" by blast
  have top: "(cl_id r, b) \<notin> parents s" for b
  proof
    assume "(cl_id r, b) \<in> parents s"
    then obtain d where d: "d \<in> set (cs_claims s)" "cl_id d = cl_id r" "cl_reissuedFromId d = Some b"
      by (rule parentsE)
    with key_unique [OF ids_distinct_wf [OF assms(1)] d(1) assms(2) d(2)] assms(3) show False by simp
  qed
  have "single_valued (parents s)"
    using parents_unique [OF assms(1)] by (auto intro: single_valuedI)
  from single_valued_confluent [OF this a(1) assms(4)]
  have "(a, cl_id r) \<in> (parents s)\<^sup>* \<or> (cl_id r, a) \<in> (parents s)\<^sup>*" .
  moreover have "a = cl_id r" if "(cl_id r, a) \<in> (parents s)\<^sup>*"
    using that top by (cases rule: converse_rtranclE) auto
  ultimately have "(a, cl_id r) \<in> (parents s)\<^sup>*" by blast
  with a(2) show "(x, cl_id r) \<in> (parents s)\<^sup>*" by (rule rtrancl_trans)
qed (use assms(4) in blast)

lemma history_of:
  assumes wf: "links_wf (links_of s)" and c: "c \<in> set (cs_claims s)" "cl_deletedAt c = None"
  obtains chain where
    "getReissueHistory env (cl_id c) s =
       Some (Inr (map (\<lambda>d. d\<lparr>cl_recipientRef := ce_decrypt env (cl_recipientRef d)\<rparr>) chain))"
    "distinct (map cl_id chain)" "set chain \<subseteq> set (cs_claims s)" "chain \<noteq> []"
    "cl_reissuedFromId (hd chain) = None"
    "\<And>x. x \<in> cl_id ` set chain \<longleftrightarrow>
       x \<in> cl_id ` set (cs_claims s) \<and> (\<exists>a. (cl_id c, a) \<in> (parents s)\<^sup>* \<and> (x, a) \<in> (parents s)\<^sup>*)"
proof -
  obtain r where r: "r \<in> set (cs_claims s)" "chain_walk s c = Some (Some r)" "cl_reissuedFromId r = None"
    "(cl_id c, cl_id r) \<in> (parents s)\<^sup>*"
    using chain_walk_root [OF wf c(1)] by blast
  have irr: "(x, x) \<notin> (parents s)\<^sup>+" for x using ancestor_before [OF wf, of x x] by blast
  then have "antichain s [cl_id r]" by (auto simp: antichain_def descendants_def)
  from chain_bfs_collects [OF wf this, of "[r]"] obtain new where
    new: "chain_bfs s [cl_id r] [r] = Some ([r] @ new)" "distinct (map cl_id new)"
      "cl_id ` set new = descendants s [cl_id r]" "set new \<subseteq> set (cs_claims s)" by blast
  show ?thesis
  proof (rule that [of "r # new"])
    show "getReissueHistory env (cl_id c) s =
        Some (Inr (map (\<lambda>d. d\<lparr>cl_recipientRef := ce_decrypt env (cl_recipientRef d)\<rparr>) (r # new)))"
      using new(1) by (simp add: getReissueHistory_def findChainRoot_def collectChain_def in_table [OF wf]
          c r(1,2))
    show "distinct (map cl_id (r # new))" using new(2,3) irr by (auto simp: descendants_def)
    show "set (r # new) \<subseteq> set (cs_claims s)" using r(1) new(4) by simp
    show "cl_reissuedFromId (hd (r # new)) = None" using r(3) by simp
    fix x
    have "x \<in> cl_id ` set (r # new) \<longleftrightarrow> x = cl_id r \<or> (x, cl_id r) \<in> (parents s)\<^sup>+"
      using new(3) by (simp add: descendants_def)
    also have "\<dots> \<longleftrightarrow> x \<in> cl_id ` set (cs_claims s) \<and> (x, cl_id r) \<in> (parents s)\<^sup>*"
      using r(1) trancl_children_in [of x s "[cl_id r]"]
      by (auto simp: rtrancl_eq_or_trancl descendants_def)
    finally show "x \<in> cl_id ` set (r # new) \<longleftrightarrow> x \<in> cl_id ` set (cs_claims s) \<and>
        (\<exists>a. (cl_id c, a) \<in> (parents s)\<^sup>* \<and> (x, a) \<in> (parents s)\<^sup>*)"
      by (simp only: same_chain [OF wf r(1,3,4)])
  qed simp
qed

text \<open>
  C30. The reissue history of a claim always comes back (both loops end), and it is the whole
  chain, once each: from fresh books, after any claim operations, \<open>getReissueHistory\<close> of a claim
  that is not deleted returns, starting with a claim that replaces no other, exactly the claims
  that have an ancestor in common with it (themselves included), with the reference decrypted.
\<close>

theorem reissue_history_complete:
  assumes "fresh_books s0" and "(claim_step env reissuing)\<^sup>*\<^sup>* s0 s"
    and "c \<in> set (cs_claims s)" and "cl_deletedAt c = None"
  shows "\<exists>chain. getReissueHistory env (cl_id c) s =
       Some (Inr (map (\<lambda>d. d\<lparr>cl_recipientRef := ce_decrypt env (cl_recipientRef d)\<rparr>) chain)) \<and>
     distinct (map cl_id chain) \<and> set chain \<subseteq> set (cs_claims s) \<and> chain \<noteq> [] \<and>
     cl_reissuedFromId (hd chain) = None \<and>
     (\<forall>d. d \<in> set (cs_claims s) \<longrightarrow> (d \<in> set chain \<longleftrightarrow>
        (\<exists>a. (cl_id c, a) \<in> (parents s)\<^sup>* \<and> (cl_id d, a) \<in> (parents s)\<^sup>*)))"
proof -
  have "links_wf (links_of s0)" using assms(1) by (simp add: fresh_books_def links_of_def links_wf_def)
  with assms(2) have wf: "links_wf (links_of s)" by (rule chains.run_keeps)
  obtain chain where chain: "getReissueHistory env (cl_id c) s =
       Some (Inr (map (\<lambda>d. d\<lparr>cl_recipientRef := ce_decrypt env (cl_recipientRef d)\<rparr>) chain))"
    "distinct (map cl_id chain)" "set chain \<subseteq> set (cs_claims s)" "chain \<noteq> []" "cl_reissuedFromId (hd chain) = None"
    and ids: "\<And>x. x \<in> cl_id ` set chain \<longleftrightarrow>
       x \<in> cl_id ` set (cs_claims s) \<and> (\<exists>a. (cl_id c, a) \<in> (parents s)\<^sup>* \<and> (x, a) \<in> (parents s)\<^sup>*)"
    using history_of [OF wf assms(3,4)] by blast
  have "d \<in> set chain \<longleftrightarrow> cl_id d \<in> cl_id ` set chain" if d: "d \<in> set (cs_claims s)" for d
    using key_unique [OF ids_distinct_wf [OF wf] d] chain(3) by (auto simp: image_iff)
  with ids chain show ?thesis by (intro exI [of _ chain]) auto
qed

definition demo_reissued :: claims_state where
  "demo_reissued = snd (reissue demo_env 1 ''c2'' ''c1'' \<lparr>rd_operatorId = ''op'', rd_reason = None,
     rd_amount = None, rd_recipientRef = None\<rparr> demo_claimed)"

lemma demo_reissued_run: "(claim_step demo_env True)\<^sup>*\<^sup>* demo_books demo_reissued"
proof -
  have "claim_step demo_env True demo_claimed demo_reissued"
    unfolding demo_reissued_def by (rule reissues) (simp_all add: demo_simps)
  with demo_run [of True] show ?thesis by simp
qed

lemma demo_reissued_rows:
  "map cl_id (cs_claims demo_reissued) = [''c1'', ''c2'']"
  "map cl_deletedAt (cs_claims demo_reissued) = [None, None]"
  "map cl_reissuedFromId (cs_claims demo_reissued) = [None, Some ''c1'']"
  by (simp_all add: demo_reissued_def reissue_def cancellable_def demo_simps find_claim_def
      CANCELLABLE_STATUSES_def log_audit_def update_claim_def replacement_def cancel_row_def)

lemma two_rows:
  assumes "map cl_id cs = [a, b]" and "map cl_deletedAt cs = [x, y]" and "map cl_reissuedFromId cs = [p, q]"
  obtains c d where "cs = [c, d]" "cl_id c = a" "cl_id d = b" "cl_deletedAt d = y" "cl_reissuedFromId d = q"
  using assms by (cases cs; cases "tl cs") auto

theorem reissue_history_complete_witness:
  "\<exists>chain. getReissueHistory demo_env ''c2'' demo_reissued =
       Some (Inr (map (\<lambda>d. d\<lparr>cl_recipientRef := ce_decrypt demo_env (cl_recipientRef d)\<rparr>) chain)) \<and>
     set chain = set (cs_claims demo_reissued)"
proof -
  obtain c1 c2 where cs: "cs_claims demo_reissued = [c1, c2]" and c1: "cl_id c1 = ''c1''"
    and c2: "cl_id c2 = ''c2''" "cl_deletedAt c2 = None" "cl_reissuedFromId c2 = Some ''c1''"
    using two_rows [OF demo_reissued_rows] by metis
  have "c2 \<in> set (cs_claims demo_reissued)" by (simp add: cs)
  from reissue_history_complete [OF demo_fresh demo_reissued_run this c2(2)]
  obtain chain where "getReissueHistory demo_env ''c2'' demo_reissued =
       Some (Inr (map (\<lambda>d. d\<lparr>cl_recipientRef := ce_decrypt demo_env (cl_recipientRef d)\<rparr>) chain))"
    and sub: "set chain \<subseteq> set (cs_claims demo_reissued)"
    and mem: "\<And>d. d \<in> set (cs_claims demo_reissued) \<Longrightarrow> d \<in> set chain \<longleftrightarrow>
        (\<exists>a. (''c2'', a) \<in> (parents demo_reissued)\<^sup>* \<and> (cl_id d, a) \<in> (parents demo_reissued)\<^sup>*)"
    unfolding c2(1) by (elim exE conjE) (rule that, auto)
  moreover have "(''c2'', ''c1'') \<in> (parents demo_reissued)\<^sup>*"
    using parentsI [of c2 demo_reissued "''c1''"] by (auto simp: cs c2)
  then have "c1 \<in> set chain" "c2 \<in> set chain" using mem [of c1] mem [of c2] by (auto simp: cs c1 c2)
  with sub have "set chain = set (cs_claims demo_reissued)" by (auto simp: cs)
  ultimately show ?thesis by blast
qed

end
