(* ===== verification/CsvStream.thy ===== *)
theory CsvStream
  imports Prelude
begin

text \<open>
  How tables leave and enter the backend as text: \<open>common/csv/csv.util.ts\<close> (one escaped row),
  \<open>common/streaming/cursor-paginate.ts\<close> (the loop that fetches a table page by page), and the
  CSV reader of \<open>recipient-import/recipient-import.service.ts\<close>. The specification of the writer
  is \<open>csv_read\<close>, a reader of the format of RFC 4180 that knows nothing of it. The loop of the
  pages is a \<open>partial_function\<close>: that it ends is part of what is proved, over the locale
  \<open>page_source\<close>.
\<close>

section \<open>Writing\<close>

definition double_quotes :: "string \<Rightarrow> string" where
  "double_quotes s = concat (map (\<lambda>c. if c = DQUOTE then [DQUOTE, DQUOTE] else [c]) s)"

text \<open>A number is given as its rendering; a missing value is written as the empty field.\<close>

definition escapeCsvField :: "string option \<Rightarrow> string" where
  "escapeCsvField value = [DQUOTE] @ double_quotes (case value of None \<Rightarrow> [] | Some s \<Rightarrow> s) @ [DQUOTE]"

definition toCsvRow :: "string list \<Rightarrow> string" where
  "toCsvRow fs = join '','' fs @ [CR, LF]"

lemma double_quotes_simps [simp]:
  "double_quotes [] = []"
  "double_quotes (c # s) = (if c = DQUOTE then [DQUOTE, DQUOTE] else [c]) @ double_quotes s"
  by (simp_all add: double_quotes_def)

section \<open>The format\<close>

datatype csv_mode = Field_start | Plain | Quoted | Quote_seen | Return_seen | Bad

record csv_state =
  ps_mode :: csv_mode
  ps_field :: string
  ps_row :: "string list"
  ps_rows :: "string list list"

definition csv_comma :: "csv_state \<Rightarrow> csv_state" where
  "csv_comma p = p\<lparr>ps_mode := Field_start, ps_field := [], ps_row := ps_row p @ [ps_field p]\<rparr>"

definition csv_return :: "csv_state \<Rightarrow> csv_state" where
  "csv_return p = p\<lparr>ps_mode := Return_seen, ps_field := [], ps_row := ps_row p @ [ps_field p]\<rparr>"

definition csv_keep :: "csv_mode \<Rightarrow> char \<Rightarrow> csv_state \<Rightarrow> csv_state" where
  "csv_keep m c p = p\<lparr>ps_mode := m, ps_field := ps_field p @ [c]\<rparr>"

definition csv_step :: "csv_state \<Rightarrow> char \<Rightarrow> csv_state" where
  "csv_step p c =
     (case ps_mode p of
        Field_start \<Rightarrow> if c = DQUOTE then p\<lparr>ps_mode := Quoted\<rparr>
                       else if c = CHR '','' then csv_comma p
                       else if c = CR then csv_return p else csv_keep Plain c p
      | Plain \<Rightarrow> if c = DQUOTE then p\<lparr>ps_mode := Bad\<rparr>
                 else if c = CHR '','' then csv_comma p
                 else if c = CR then csv_return p else csv_keep Plain c p
      | Quoted \<Rightarrow> if c = DQUOTE then p\<lparr>ps_mode := Quote_seen\<rparr> else csv_keep Quoted c p
      | Quote_seen \<Rightarrow> if c = DQUOTE then csv_keep Quoted DQUOTE p
                      else if c = CHR '','' then csv_comma p
                      else if c = CR then csv_return p else p\<lparr>ps_mode := Bad\<rparr>
      | Return_seen \<Rightarrow> if c = LF then p\<lparr>ps_mode := Field_start, ps_row := [], ps_rows := ps_rows p @ [ps_row p]\<rparr>
                       else p\<lparr>ps_mode := Bad\<rparr>
      | Bad \<Rightarrow> p)"

definition csv_init :: csv_state where
  "csv_init = \<lparr>ps_mode = Field_start, ps_field = [], ps_row = [], ps_rows = []\<rparr>"

text \<open>The last line may lack its end.\<close>

definition csv_read :: "string \<Rightarrow> string list list option" where
  "csv_read s =
     (let p = foldl csv_step csv_init s
      in if ps_mode p = Field_start \<and> ps_row p = [] then Some (ps_rows p)
         else if ps_mode p \<in> {Field_start, Plain, Quote_seen}
         then Some (ps_rows p @ [ps_row p @ [ps_field p]]) else None)"

lemma csv_steps:
  "csv_step \<lparr>ps_mode = Field_start, ps_field = f, ps_row = r, ps_rows = rs\<rparr> DQUOTE =
     \<lparr>ps_mode = Quoted, ps_field = f, ps_row = r, ps_rows = rs\<rparr>"
  "csv_step \<lparr>ps_mode = Quoted, ps_field = f, ps_row = r, ps_rows = rs\<rparr> DQUOTE =
     \<lparr>ps_mode = Quote_seen, ps_field = f, ps_row = r, ps_rows = rs\<rparr>"
  "csv_step \<lparr>ps_mode = Quote_seen, ps_field = f, ps_row = r, ps_rows = rs\<rparr> DQUOTE =
     \<lparr>ps_mode = Quoted, ps_field = f @ [DQUOTE], ps_row = r, ps_rows = rs\<rparr>"
  "c \<noteq> DQUOTE \<Longrightarrow> csv_step \<lparr>ps_mode = Quoted, ps_field = f, ps_row = r, ps_rows = rs\<rparr> c =
     \<lparr>ps_mode = Quoted, ps_field = f @ [c], ps_row = r, ps_rows = rs\<rparr>"
  "m \<in> {Field_start, Plain, Quote_seen} \<Longrightarrow>
     csv_step \<lparr>ps_mode = m, ps_field = f, ps_row = r, ps_rows = rs\<rparr> (CHR '','') =
     \<lparr>ps_mode = Field_start, ps_field = [], ps_row = r @ [f], ps_rows = rs\<rparr>"
  "m \<in> {Field_start, Plain, Quote_seen} \<Longrightarrow>
     csv_step \<lparr>ps_mode = m, ps_field = f, ps_row = r, ps_rows = rs\<rparr> CR =
     \<lparr>ps_mode = Return_seen, ps_field = [], ps_row = r @ [f], ps_rows = rs\<rparr>"
  "csv_step \<lparr>ps_mode = Return_seen, ps_field = f, ps_row = r, ps_rows = rs\<rparr> LF =
     \<lparr>ps_mode = Field_start, ps_field = f, ps_row = [], ps_rows = rs @ [r]\<rparr>"
  "m \<in> {Field_start, Plain} \<Longrightarrow> c \<noteq> DQUOTE \<Longrightarrow> c \<noteq> CHR '','' \<Longrightarrow> c \<noteq> CR \<Longrightarrow>
     csv_step \<lparr>ps_mode = m, ps_field = f, ps_row = r, ps_rows = rs\<rparr> c =
     \<lparr>ps_mode = Plain, ps_field = f @ [c], ps_row = r, ps_rows = rs\<rparr>"
  by (auto simp: csv_step_def csv_comma_def csv_return_def csv_keep_def)

lemma read_quoted:
  "foldl csv_step \<lparr>ps_mode = Quoted, ps_field = f, ps_row = r, ps_rows = rs\<rparr> (double_quotes v) =
     \<lparr>ps_mode = Quoted, ps_field = f @ v, ps_row = r, ps_rows = rs\<rparr>"
  by (induction v arbitrary: f) (simp_all add: csv_steps)

lemma read_field:
  "foldl csv_step \<lparr>ps_mode = Field_start, ps_field = [], ps_row = r, ps_rows = rs\<rparr> (escapeCsvField (Some v)) =
     \<lparr>ps_mode = Quote_seen, ps_field = v, ps_row = r, ps_rows = rs\<rparr>"
  by (simp add: escapeCsvField_def read_quoted csv_steps)

lemma read_fields:
  assumes "fs \<noteq> []"
  shows "foldl csv_step \<lparr>ps_mode = Field_start, ps_field = [], ps_row = r, ps_rows = rs\<rparr>
      (join '','' (map (\<lambda>v. escapeCsvField (Some v)) fs)) =
    \<lparr>ps_mode = Quote_seen, ps_field = last fs, ps_row = r @ butlast fs, ps_rows = rs\<rparr>"
  using assms
proof (induction fs arbitrary: r rule: list_nonempty_induct)
  case (single x)
  then show ?case by (simp add: read_field)
next
  case (cons x xs)
  then obtain y ys where "xs = y # ys" by (cases xs) auto
  with cons.IH [of "r @ [x]"] show ?case by (simp add: read_field csv_steps)
qed

lemma read_row:
  assumes "fs \<noteq> []"
  shows "foldl csv_step \<lparr>ps_mode = Field_start, ps_field = [], ps_row = [], ps_rows = rs\<rparr>
      (toCsvRow (map (\<lambda>v. escapeCsvField (Some v)) fs)) =
    \<lparr>ps_mode = Field_start, ps_field = [], ps_row = [], ps_rows = rs @ [fs]\<rparr>"
  using assms by (simp add: toCsvRow_def read_fields csv_steps)

lemma read_rows:
  assumes "\<forall>fs \<in> set rows. fs \<noteq> []"
  shows "foldl csv_step \<lparr>ps_mode = Field_start, ps_field = [], ps_row = [], ps_rows = rs\<rparr>
      (concat (map (\<lambda>fs. toCsvRow (map (\<lambda>v. escapeCsvField (Some v)) fs)) rows)) =
    \<lparr>ps_mode = Field_start, ps_field = [], ps_row = [], ps_rows = rs @ rows\<rparr>"
  using assms by (induction rows arbitrary: rs) (simp_all add: read_row)

text \<open>A header row of plain names, as the exports write it, unquoted.\<close>

definition plain_name :: "string \<Rightarrow> bool" where
  "plain_name s \<longleftrightarrow> s \<noteq> [] \<and> DQUOTE \<notin> set s \<and> CHR '','' \<notin> set s \<and> CR \<notin> set s"

lemma read_plain:
  assumes "DQUOTE \<notin> set s" "CHR '','' \<notin> set s" "CR \<notin> set s" and "m \<in> {Field_start, Plain}"
  shows "foldl csv_step \<lparr>ps_mode = m, ps_field = f, ps_row = r, ps_rows = rs\<rparr> s =
     \<lparr>ps_mode = (if s = [] then m else Plain), ps_field = f @ s, ps_row = r, ps_rows = rs\<rparr>"
  using assms by (induction s arbitrary: f m) (auto simp: csv_steps)

lemma read_names:
  assumes "names \<noteq> []" and "\<forall>s \<in> set names. plain_name s"
  shows "foldl csv_step \<lparr>ps_mode = Field_start, ps_field = [], ps_row = r, ps_rows = rs\<rparr> (join '','' names) =
    \<lparr>ps_mode = Plain, ps_field = last names, ps_row = r @ butlast names, ps_rows = rs\<rparr>"
  using assms
proof (induction names arbitrary: r rule: list_nonempty_induct)
  case (single x)
  then show ?case by (simp add: read_plain plain_name_def)
next
  case (cons x xs)
  then obtain y ys where "xs = y # ys" by (cases xs) auto
  with cons show ?case by (simp add: read_plain plain_name_def csv_steps)
qed

lemma read_header:
  assumes "names \<noteq> []" and "\<forall>s \<in> set names. plain_name s"
  shows "foldl csv_step csv_init (join '','' names @ [CR, LF]) =
    \<lparr>ps_mode = Field_start, ps_field = [], ps_row = [], ps_rows = [names]\<rparr>"
  using assms by (simp add: csv_init_def read_names csv_steps)

lemma csv_read_table:
  assumes "names \<noteq> []" and "\<forall>s \<in> set names. plain_name s" and "\<forall>fs \<in> set rows. fs \<noteq> []"
  shows "csv_read ((join '','' names @ [CR, LF]) @
      concat (map (\<lambda>fs. toCsvRow (map (\<lambda>v. escapeCsvField (Some v)) fs)) rows)) = Some (names # rows)"
  unfolding csv_read_def foldl_append [of _ _ "_ @ [CR, LF]"] read_header [OF assms(1,2)] read_rows [OF assms(3)]
  by simp

section \<open>The CSV reader of the recipient import\<close>

text \<open>\<open>split(/\r?\n/)\<close>\<close>

fun split_lines :: "string \<Rightarrow> string list" where
  "split_lines [] = [[]]"
| "split_lines (c # s) =
     (if c = LF then [] # split_lines s
      else if c = CR \<and> s \<noteq> [] \<and> hd s = LF then split_lines s
      else case split_lines s of [] \<Rightarrow> [[c]] | l # ls \<Rightarrow> (c # l) # ls)"

fun parseCsvLine_go :: "string \<Rightarrow> bool \<Rightarrow> string \<Rightarrow> string list \<Rightarrow> string list" where
  "parseCsvLine_go current inQuotes [] result = result @ [current]"
| "parseCsvLine_go current True (c # line) result =
     (if c = DQUOTE then
        (case line of
           d # rest \<Rightarrow> if d = DQUOTE then parseCsvLine_go (current @ [DQUOTE]) True rest result
                       else parseCsvLine_go current False line result
         | [] \<Rightarrow> parseCsvLine_go current False line result)
      else parseCsvLine_go (current @ [c]) True line result)"
| "parseCsvLine_go current False (c # line) result =
     (if c = DQUOTE then parseCsvLine_go current True line result
      else if c = CHR '','' then parseCsvLine_go [] False line (result @ [current])
      else parseCsvLine_go (current @ [c]) False line result)"

definition parseCsvLine :: "string \<Rightarrow> string list" where
  "parseCsvLine line = parseCsvLine_go [] False line []"

definition parseCsv :: "string \<Rightarrow> app_error + string list \<times> string list list" where
  "parseCsv content =
     (case filter (\<lambda>line. trim line \<noteq> []) (split_lines content) of
        [] \<Rightarrow> Inl (AppException BAD_REQUEST 400 ''CSV file is empty'')
      | header # lines \<Rightarrow> Inr (parseCsvLine header, map parseCsvLine lines))"

lemma split_line:
  assumes "LF \<notin> set l"
  shows "split_lines (l @ CR # LF # rest) = l # split_lines rest"
  using assms
proof (induction l)
  case (Cons c l)
  then have "l = [] \<or> hd l \<noteq> LF" by (cases l) auto
  with Cons show ?case by (auto simp: hd_append)
qed simp

lemma parse_quoted:
  assumes "rest = [] \<or> hd rest \<noteq> DQUOTE"
  shows "parseCsvLine_go cur True (double_quotes v @ DQUOTE # rest) result = parseCsvLine_go (cur @ v) False rest result"
  using assms by (induction v arbitrary: cur) (auto split: list.split)

lemma parse_fields:
  assumes "fs \<noteq> []"
  shows "parseCsvLine_go [] False (join '','' (map (\<lambda>v. escapeCsvField (Some v)) fs)) result = result @ fs"
  using assms
proof (induction fs arbitrary: result rule: list_nonempty_induct)
  case (single x)
  then show ?case using parse_quoted [of "[]" "[]" x result] by (simp add: escapeCsvField_def)
next
  case (cons x xs)
  then obtain y ys where "xs = y # ys" by (cases xs) auto
  with cons.IH [of "result @ [x]"] show ?case
    using parse_quoted [of "'','' @ join '','' (map (\<lambda>v. escapeCsvField (Some v)) xs)" "[]" x result]
    by (simp add: escapeCsvField_def)
qed

lemma double_quotes_no_LF: "LF \<notin> set v \<Longrightarrow> LF \<notin> set (double_quotes v)"
  by (auto simp: double_quotes_def split: if_splits)

lemma fields_no_LF:
  assumes "\<forall>v \<in> set fs. LF \<notin> set v"
  shows "LF \<notin> set (join '','' (map (\<lambda>v. escapeCsvField (Some v)) fs))"
proof -
  have "LF \<notin> set (escapeCsvField (Some v))" if "v \<in> set fs" for v
    using assms that double_quotes_no_LF [of v] by (simp add: escapeCsvField_def)
  then show ?thesis using join_set [of "'',''" "map (\<lambda>v. escapeCsvField (Some v)) fs"] by auto
qed

lemma fields_not_blank:
  assumes "fs \<noteq> []"
  shows "trim (join '','' (map (\<lambda>v. escapeCsvField (Some v)) fs)) \<noteq> []"
proof -
  obtain x xs where "fs = x # xs" using assms by (cases fs) auto
  then have "DQUOTE \<in> set (join '','' (map (\<lambda>v. escapeCsvField (Some v)) fs))"
    by (cases xs) (simp_all add: escapeCsvField_def)
  moreover have "\<not> js_space DQUOTE" by (simp add: js_space_def)
  ultimately show ?thesis unfolding trim_Nil_iff by (rule_tac notI) (drule (1) bspec, erule (1) notE)
qed

lemma split_rows:
  assumes "\<forall>fs \<in> set rows. \<forall>v \<in> set fs. LF \<notin> set v"
  shows "split_lines (concat (map (\<lambda>fs. toCsvRow (map (\<lambda>v. escapeCsvField (Some v)) fs)) rows)) =
    map (\<lambda>fs. join '','' (map (\<lambda>v. escapeCsvField (Some v)) fs)) rows @ [[]]"
  using assms by (induction rows) (simp_all add: toCsvRow_def split_line fields_no_LF)

text \<open>
  What is written is what is read. A table written row by row with \<open>toCsvRow\<close> and
  \<open>escapeCsvField\<close> is, for a reader of RFC 4180, exactly that table, whatever its fields hold:
  quotes, commas, line ends.
\<close>

theorem csv_roundtrip:
  assumes "\<forall>fs \<in> set rows. fs \<noteq> []"
  shows "csv_read (concat (map (\<lambda>fs. toCsvRow (map (\<lambda>v. escapeCsvField (Some v)) fs)) rows)) = Some rows"
  using read_rows [OF assms, of "[]"] by (simp add: csv_read_def csv_init_def)

theorem csv_roundtrip_witness:
  "csv_read (toCsvRow [escapeCsvField (Some [DQUOTE, CHR '','', CR, LF]), escapeCsvField (Some [])]) =
     Some [[[DQUOTE, CHR '','', CR, LF], []]]"
  using csv_roundtrip [of "[[[DQUOTE, CHR '','', CR, LF], []]]"] by simp

text \<open>
  The recipient import reads back what the exports write, as long as no field holds a line
  feed: the first row as its headers, the others as its rows.
\<close>

theorem import_reads_rows:
  assumes "\<forall>fs \<in> set (headers # rows). fs \<noteq> [] \<and> (\<forall>v \<in> set fs. LF \<notin> set v)"
  shows "parseCsv (concat (map (\<lambda>fs. toCsvRow (map (\<lambda>v. escapeCsvField (Some v)) fs)) (headers # rows))) =
    Inr (headers, rows)"
proof -
  let ?line = "\<lambda>fs. join '','' (map (\<lambda>v. escapeCsvField (Some v)) fs)"
  have "filter (\<lambda>l. trim l \<noteq> []) (map ?line (headers # rows) @ [[]]) = map ?line (headers # rows)"
    using assms fields_not_blank by (auto simp: filter_id_conv trim_Nil_iff [of "[]"])
  moreover have "map parseCsvLine (map ?line (headers # rows)) = headers # rows"
    using assms by (simp add: parseCsvLine_def parse_fields map_idI)
  ultimately show ?thesis
    using assms split_rows [of "headers # rows"] by (simp add: parseCsv_def)
qed

theorem import_reads_rows_witness:
  "parseCsv (toCsvRow [escapeCsvField (Some ''amount'')] @ toCsvRow [escapeCsvField (Some [DQUOTE, CHR '',''])]) =
     Inr ([''amount''], [[[DQUOTE, CHR '','']]])"
  using import_reads_rows [of "[''amount'']" "[[[DQUOTE, CHR '','']]]"] by simp

text \<open>
  A line feed inside a quoted field, which the format allows and the exports write, breaks
  the import: the reader splits the text into lines before it looks at the quotes, so one row
  comes back as two.
\<close>

theorem import_splits_multiline_field:
  "csv_read (toCsvRow [escapeCsvField (Some ''h'')] @ toCsvRow [escapeCsvField (Some (''a'' @ [LF] @ ''b''))]) =
     Some [[''h''], [''a'' @ [LF] @ ''b'']] \<and>
   parseCsv (toCsvRow [escapeCsvField (Some ''h'')] @ toCsvRow [escapeCsvField (Some (''a'' @ [LF] @ ''b''))]) =
     Inr ([''h''], [[''a''], [''b'']])"
  by code_simp

section \<open>Fetching a table page by page\<close>

text \<open>
  \<open>findMany\<close> with a cursor, on the rows that match in their order: the page after the row with
  the cursor's id. An empty cursor is no cursor.
\<close>

definition cursor_page :: "('r \<Rightarrow> ident) \<Rightarrow> nat \<Rightarrow> 'r list \<Rightarrow> ident option \<Rightarrow> 'r list" where
  "cursor_page key n rows cursor =
     take n (if truthy cursor then drop 1 (dropWhile (\<lambda>r. key r \<noteq> the cursor) rows) else rows)"

partial_function (option) streamCursorPaginated ::
  "(ident option \<Rightarrow> 'r list) \<Rightarrow> ('r \<Rightarrow> ident) \<Rightarrow> nat \<Rightarrow> ident option \<Rightarrow> 'r list option" where
  "streamCursorPaginated fetchPage key pageSize cursor =
     (if fetchPage cursor = [] then Some []
      else if length (fetchPage cursor) < pageSize then Some (fetchPage cursor)
      else Option.bind (streamCursorPaginated fetchPage key pageSize (Some (key (last (fetchPage cursor)))))
             (\<lambda>rest. Some (fetchPage cursor @ rest)))"

text \<open>
  The contract of a page fetcher: without a cursor the first page, with the id of a row of the
  table the page after it.
\<close>

locale page_source =
  fixes fetch :: "'r list \<Rightarrow> ident option \<Rightarrow> 'r list"
    and key :: "'r \<Rightarrow> ident"
    and n :: nat
  assumes page_positive: "0 < n"
    and fetch_first: "fetch rows None = take n rows"
    and fetch_next: "distinct (map key rows) \<Longrightarrow> [] \<notin> key ` set rows \<Longrightarrow> k < length rows \<Longrightarrow>
      fetch rows (Some (key (rows ! k))) = take n (drop (Suc k) rows)"
begin

lemma stream_from:
  assumes "distinct (map key rows)" and "[] \<notin> key ` set rows"
    and "k \<le> length rows" and "fetch rows cursor = take n (drop k rows)"
  shows "streamCursorPaginated (fetch rows) key n cursor = Some (drop k rows)"
  using assms(3,4)
proof (induction "length rows - k" arbitrary: k cursor rule: less_induct)
  case less
  show ?case
  proof (cases "n \<le> length rows - k")
    case False
    then show ?thesis
      using page_positive by (subst streamCursorPaginated.simps) (simp add: less.prems(2))
  next
    case True
    let ?m = "k + n - 1"
    have m: "?m < length rows" "Suc ?m = k + n" using True page_positive less.prems(1) by auto
    have full: "take n (drop k rows) \<noteq> []" "length (take n (drop k rows)) = n"
      using True page_positive by auto
    then have last: "last (take n (drop k rows)) = rows ! ?m"
      using True page_positive less.prems(1) by (simp add: last_conv_nth add.commute)
    have "streamCursorPaginated (fetch rows) key n (Some (key (rows ! ?m))) = Some (drop (Suc ?m) rows)"
    proof (rule less.hyps)
      show "length rows - Suc ?m < length rows - k" using True page_positive m by auto
      show "Suc ?m \<le> length rows" using m(1) by simp
      show "fetch rows (Some (key (rows ! ?m))) = take n (drop (Suc ?m) rows)"
        by (rule fetch_next [OF assms(1,2) m(1)])
    qed
    moreover have "take n (drop k rows) @ drop (k + n) rows = drop k rows"
      using append_take_drop_id [of n "drop k rows"] by (simp add: add.commute)
    ultimately show ?thesis
      using full last less.prems(2) m(2) by (subst streamCursorPaginated.simps) simp
  qed
qed

lemma stream_all:
  assumes "distinct (map key rows)" and "[] \<notin> key ` set rows"
  shows "streamCursorPaginated (fetch rows) key n None = Some rows"
  using stream_from [OF assms, of 0 None] by (simp add: fetch_first)

end

lemma cursor_page_next:
  assumes "distinct (map key rows)" and "[] \<notin> key ` set rows" and "k < length rows"
  shows "cursor_page key n rows (Some (key (rows ! k))) = take n (drop (Suc k) rows)"
proof -
  have "truthy (Some (key (rows ! k)))" using assms(2) nth_mem [OF assms(3)] by (auto simp: truthy_def image_iff)
  moreover have "takeWhile (\<lambda>r. key r \<noteq> key (rows ! k)) rows = take k rows"
  proof (rule takeWhile_eq_take_P_nth)
    fix j assume "j < k" "j < length rows"
    with assms(1,3) show "key (rows ! j) \<noteq> key (rows ! k)"
      by (metis nth_eq_iff_index_eq length_map nth_map less_irrefl)
  qed simp
  ultimately show ?thesis using assms(3) by (simp add: cursor_page_def dropWhile_eq_drop)
qed

end
