(* ===== verification/ClaimExport.thy ===== *)
theory ClaimExport
  imports ClaimHistory CsvStream "HOL-Library.List_Lexorder" "HOL-Library.Char_ord"
    "HOL-Library.Product_Lexorder"
begin

text \<open>
  The read side of \<open>claims/claims.service.ts\<close>: the CSV export (\<open>buildExportWhere\<close> to
  \<open>streamExportCsv\<close>, with the handler \<open>exportClaims\<close> of \<open>claims.controller.ts\<close>) and the receipt
  of a claim with its timeline. The export pages through one snapshot of the tables. \<open>Date.parse\<close>
  (whose formats depend on the engine) and the rendering of a number are parameters. The text of
  a shared receipt and its delivery (stubs that log) are not modelled.
\<close>

section \<open>The export\<close>

record export_query =
  xq_from :: "string option"
  xq_to :: "string option"
  xq_status :: "claim_status option"
  xq_campaignId :: "string option"
  xq_orgId :: "string option"
  xq_tokenAddress :: "string option"

definition EXPORT_BATCH_SIZE :: nat where
  "EXPORT_BATCH_SIZE = 500"

definition CSV_COLUMNS :: "string list" where
  "CSV_COLUMNS = [''id'', ''campaignId'', ''campaignName'', ''status'', ''amount'', ''evidenceRef'',
     ''createdAt'', ''updatedAt'', ''cancelledAt'', ''cancelledBy'', ''cancelReason'', ''reissuedFromId'',
     ''tokenAddress'']"

definition CSV_HEADER :: string where
  "CSV_HEADER = join '','' CSV_COLUMNS"

text \<open>A filter that is missing or empty does not filter.\<close>

definition filtered :: "string option \<Rightarrow> (string \<Rightarrow> bool) \<Rightarrow> bool" where
  "filtered q p \<longleftrightarrow> \<not> truthy q \<or> p (the q)"

definition campaign_member :: "string \<Rightarrow> claim \<Rightarrow> claims_state \<Rightarrow> json option" where
  "campaign_member k c s = Option.bind (find_campaign (cl_campaignId c) s)
     (\<lambda>ca. Option.bind (asRecord (ca_metadata ca)) (\<lambda>m. map_of m k))"

definition export_matches ::
  "(string \<Rightarrow> time option) \<Rightarrow> export_query \<Rightarrow> claims_state \<Rightarrow> claim \<Rightarrow> bool" where
  "export_matches parse q s c \<longleftrightarrow>
     cl_deletedAt c = None \<and>
     (case xq_status q of None \<Rightarrow> True | Some st \<Rightarrow> cl_status c = st) \<and>
     filtered (xq_campaignId q) (\<lambda>k. cl_campaignId c = k) \<and>
     filtered (xq_from q) (\<lambda>t. the (parse t) \<le> cl_createdAt c) \<and>
     filtered (xq_to q) (\<lambda>t. cl_createdAt c \<le> the (parse t)) \<and>
     filtered (xq_orgId q) (\<lambda>o'. \<exists>ca. find_campaign (cl_campaignId c) s = Some ca \<and> ca_orgId ca = Some o') \<and>
     filtered (xq_tokenAddress q) (\<lambda>t. campaign_member ''tokenAddress'' c s = Some (JStr t))"

definition buildExportWhere ::
  "(string \<Rightarrow> time option) \<Rightarrow> export_query \<Rightarrow> claims_state \<Rightarrow> app_error + (claim \<Rightarrow> bool)" where
  "buildExportWhere parse q s =
     (if truthy (xq_from q) \<and> parse (the (xq_from q)) = None then
        Inl (bad_request (''Invalid '' @ [CHR 0x27] @ ''from'' @ [CHR 0x27] @ '' date: '' @ the (xq_from q)))
      else if truthy (xq_to q) \<and> parse (the (xq_to q)) = None then
        Inl (bad_request (''Invalid '' @ [CHR 0x27] @ ''to'' @ [CHR 0x27] @ '' date: '' @ the (xq_to q)))
      else Inr (export_matches parse q s))"

definition countExport ::
  "(string \<Rightarrow> time option) \<Rightarrow> export_query \<Rightarrow> claims_state \<Rightarrow> app_error + nat" where
  "countExport parse q s = map_sum id (\<lambda>p. count_where p (cs_claims s)) (buildExportWhere parse q s)"

record claim_export_row =
  xr_id :: ident
  xr_campaignId :: ident
  xr_campaignName :: string
  xr_status :: claim_status
  xr_amount :: rat
  xr_evidenceRef :: "string option"
  xr_createdAt :: time
  xr_updatedAt :: time
  xr_cancelledAt :: "time option"
  xr_cancelledBy :: "string option"
  xr_cancelReason :: "string option"
  xr_reissuedFromId :: "string option"
  xr_tokenAddress :: "json option"

text \<open>The claims table has no column \<open>metadata\<close>; a null address is a missing one.\<close>

definition mapClaimRow :: "claims_state \<Rightarrow> claim \<Rightarrow> claim_export_row" where
  "mapClaimRow s c =
     \<lparr>xr_id = cl_id c, xr_campaignId = cl_campaignId c,
      xr_campaignName = (case find_campaign (cl_campaignId c) s of None \<Rightarrow> [] | Some ca \<Rightarrow> ca_name ca),
      xr_status = cl_status c, xr_amount = cl_amount c, xr_evidenceRef = cl_evidenceRef c,
      xr_createdAt = cl_createdAt c, xr_updatedAt = cl_updatedAt c, xr_cancelledAt = cl_cancelledAt c,
      xr_cancelledBy = cl_cancelledBy c, xr_cancelReason = cl_cancelReason c,
      xr_reissuedFromId = cl_reissuedFromId c,
      xr_tokenAddress = (case campaign_member ''tokenAddress'' c s of
          Some JNull \<Rightarrow> None | v \<Rightarrow> v)\<rparr>"

text \<open>\<open>orderBy: [{ createdAt: 'desc' }, { id: 'desc' }]\<close>\<close>

definition newest_first :: "claim list \<Rightarrow> claim list" where
  "newest_first cs = rev (sort_key (\<lambda>c. (cl_createdAt c, cl_id c)) cs)"

definition streamExportRows ::
  "(string \<Rightarrow> time option) \<Rightarrow> export_query \<Rightarrow> claims_state \<Rightarrow> (app_error + claim_export_row list) option" where
  "streamExportRows parse q s =
     (case buildExportWhere parse q s of
        Inl e \<Rightarrow> Some (Inl e)
      | Inr p \<Rightarrow>
          map_option (\<lambda>rows. Inr (map (mapClaimRow s) rows))
            (streamCursorPaginated (cursor_page cl_id EXPORT_BATCH_SIZE (newest_first (filter p (cs_claims s))))
               cl_id EXPORT_BATCH_SIZE None))"

text \<open>\<open>Number.prototype.toFixed(2)\<close> on the exact value; from 10^21 on it is the plain rendering.\<close>

definition toFixed2 :: "(rat \<Rightarrow> string) \<Rightarrow> rat \<Rightarrow> string" where
  "toFixed2 num x =
     (if 10 ^ 21 \<le> \<bar>x\<bar> then num x
      else let n = nat \<lfloor>\<bar>x\<bar> * 100 + 1 / 2\<rfloor>;
               digits = show_nat n;
               m = replicate (3 - length digits) (CHR ''0'') @ digits
           in (if x < 0 then ''-'' else '''') @ take (length m - 2) m @ ''.'' @ drop (length m - 2) m)"

text \<open>\<open>String(value)\<close> of a JSON value; inside an array a null is empty.\<close>

fun js_String :: "(rat \<Rightarrow> string) \<Rightarrow> json \<Rightarrow> string" where
  "js_String num JNull = ''null''"
| "js_String num (JBool b) = (if b then ''true'' else ''false'')"
| "js_String num (JNum n) = num n"
| "js_String num (JStr t) = t"
| "js_String num (JArr vs) = join '','' (map (\<lambda>v. if v = JNull then [] else js_String num v) vs)"
| "js_String num (JObj m) = ''[object Object]''"

definition export_fields :: "(rat \<Rightarrow> string) \<Rightarrow> claim_export_row \<Rightarrow> string option list" where
  "export_fields num r =
     [Some (xr_id r), Some (xr_campaignId r), Some (xr_campaignName r), Some (claim_status_name (xr_status r)),
      Some (toFixed2 num (xr_amount r)), xr_evidenceRef r, Some (toISOString (xr_createdAt r)),
      Some (toISOString (xr_updatedAt r)),
      Some (case xr_cancelledAt r of None \<Rightarrow> [] | Some t \<Rightarrow> toISOString t),
      xr_cancelledBy r, xr_cancelReason r, xr_reissuedFromId r,
      map_option (js_String num) (xr_tokenAddress r)]"

text \<open>The chunks yielded, and the error the generator ends with, if any.\<close>

definition streamExportCsv ::
  "(string \<Rightarrow> time option) \<Rightarrow> (rat \<Rightarrow> string) \<Rightarrow> export_query \<Rightarrow> claims_state
   \<Rightarrow> (string list \<times> app_error option) option" where
  "streamExportCsv parse num q s =
     map_option (\<lambda>rows. case rows of
         Inl e \<Rightarrow> ([CSV_HEADER @ [CR, LF]], Some e)
       | Inr rs \<Rightarrow> ((CSV_HEADER @ [CR, LF]) # map (\<lambda>r. toCsvRow (map escapeCsvField (export_fields num r))) rs, None))
       (streamExportRows parse q s)"

text \<open>The handler: the total for the response header, then the stream as the body.\<close>

definition exportClaims ::
  "(string \<Rightarrow> time option) \<Rightarrow> (rat \<Rightarrow> string) \<Rightarrow> export_query \<Rightarrow> claims_state
   \<Rightarrow> (app_error + nat \<times> string) option" where
  "exportClaims parse num q s =
     (case countExport parse q s of
        Inl e \<Rightarrow> Some (Inl e)
      | Inr matching \<Rightarrow>
          map_option (\<lambda>(chunks, err). case err of
              Some e \<Rightarrow> Inl e | None \<Rightarrow> Inr (matching, concat chunks))
            (streamExportCsv parse num q s))"

interpretation claim_pages: page_source "cursor_page cl_id EXPORT_BATCH_SIZE" cl_id EXPORT_BATCH_SIZE
  by unfold_locales
    (simp_all add: EXPORT_BATCH_SIZE_def cursor_page_next, simp add: cursor_page_def truthy_def)

lemma export_stream:
  assumes "links_wf (links_of s)"
  shows "streamCursorPaginated (cursor_page cl_id EXPORT_BATCH_SIZE (newest_first (filter p (cs_claims s))))
      cl_id EXPORT_BATCH_SIZE None = Some (newest_first (filter p (cs_claims s)))"
proof (rule claim_pages.stream_all)
  have "mset (map cl_id (newest_first (filter p (cs_claims s)))) = mset (map cl_id (filter p (cs_claims s)))"
    by (simp add: newest_first_def)
  moreover have "distinct (map cl_id (filter p (cs_claims s)))"
    using ids_distinct_wf [OF assms] by (rule distinct_map_filter)
  ultimately show "distinct (map cl_id (newest_first (filter p (cs_claims s))))"
    by (metis mset_eq_imp_distinct_iff)
  show "[] \<notin> cl_id ` set (newest_first (filter p (cs_claims s)))"
    using assms by (auto simp: newest_first_def links_wf_def links_of_def image_image)
qed

lemma export_row_text:
  "toCsvRow (map escapeCsvField (export_fields num r)) =
   toCsvRow (map (\<lambda>v. escapeCsvField (Some v)) (map (\<lambda>v. case v of None \<Rightarrow> [] | Some t \<Rightarrow> t) (export_fields num r)))"
proof -
  have "escapeCsvField = (\<lambda>v. escapeCsvField (Some (case v of None \<Rightarrow> [] | Some t \<Rightarrow> t)))"
    by (simp add: fun_eq_iff escapeCsvField_def split: option.split)
  then have "map escapeCsvField vs = map (\<lambda>v. escapeCsvField (Some v))
      (map (\<lambda>v. case v of None \<Rightarrow> [] | Some t \<Rightarrow> t) vs)" for vs
    by (metis (no_types, lifting) map_map comp_def map_cong)
  then show ?thesis by (rule arg_cong)
qed

lemma columns_plain: "CSV_COLUMNS \<noteq> [] \<and> (\<forall>n \<in> set CSV_COLUMNS. plain_name n)"
  by (simp add: CSV_COLUMNS_def plain_name_def)

lemma fields_nonempty: "export_fields num r \<noteq> []"
  by (simp add: export_fields_def)

lemma newest_first_sorted:
  "sorted_wrt (\<lambda>c d. cl_createdAt d < cl_createdAt c \<or> cl_createdAt d = cl_createdAt c \<and> cl_id d \<le> cl_id c)
     (newest_first cs)"
proof -
  have "sorted (map (\<lambda>c. (cl_createdAt c, cl_id c)) (sort_key (\<lambda>c. (cl_createdAt c, cl_id c)) cs))" by simp
  then show ?thesis
    by (simp add: newest_first_def sorted_wrt_rev sorted_map) (erule sorted_wrt_mono_rel [rotated], auto)
qed

text \<open>What one line of the export says: the fields of the row, a missing one as the empty text.\<close>

definition export_line :: "(rat \<Rightarrow> string) \<Rightarrow> claims_state \<Rightarrow> claim \<Rightarrow> string list" where
  "export_line num s c = map (\<lambda>v. case v of None \<Rightarrow> [] | Some t \<Rightarrow> t) (export_fields num (mapClaimRow s c))"

lemma export_text:
  assumes "links_wf (links_of s)" and "buildExportWhere parse q s = Inr p"
  shows "exportClaims parse num q s = Some (Inr (count_where p (cs_claims s),
    (join '','' CSV_COLUMNS @ [CR, LF]) @ concat (map (\<lambda>fs. toCsvRow (map (\<lambda>v. escapeCsvField (Some v)) fs))
       (map (export_line num s) (newest_first (filter p (cs_claims s)))))))"
  using assms(2) export_stream [OF assms(1), of p]
  by (simp add: exportClaims_def countExport_def streamExportCsv_def streamExportRows_def CSV_HEADER_def
      export_row_text export_line_def o_def)

text \<open>
  C29. The CSV export is the table it is asked for. From fresh books, after any claim operations,
  the download of a query with valid dates ends, and a reader of RFC 4180 finds in it the header
  and one line per claim that matches the query, each once, newest first; their number is the
  one sent in the response header.
\<close>

theorem export_is_the_table:
  assumes "fresh_books s0" and "(claim_step env reissuing)\<^sup>*\<^sup>* s0 s"
    and "buildExportWhere parse q s = Inr p"
  shows "\<exists>csv rows. exportClaims parse num q s = Some (Inr (length rows, csv)) \<and>
     csv_read csv = Some (CSV_COLUMNS # map (export_line num s) rows) \<and>
     distinct (map cl_id rows) \<and> set rows = {c \<in> set (cs_claims s). export_matches parse q s c} \<and>
     sorted_wrt (\<lambda>c d. cl_createdAt d \<le> cl_createdAt c) rows"
proof -
  have "links_wf (links_of s0)" using assms(1) by (simp add: fresh_books_def links_of_def links_wf_def)
  with assms(2) have wf: "links_wf (links_of s)" by (rule chains.run_keeps)
  let ?rows = "newest_first (filter p (cs_claims s))"
  have p: "p = export_matches parse q s" using assms(3) by (simp add: buildExportWhere_def split: if_splits)
  have "mset (map cl_id ?rows) = mset (map cl_id (filter p (cs_claims s)))" by (simp add: newest_first_def)
  with distinct_map_filter [OF ids_distinct_wf [OF wf]] have "distinct (map cl_id ?rows)"
    by (metis mset_eq_imp_distinct_iff)
  moreover have "length ?rows = count_where p (cs_claims s)" by (simp add: newest_first_def count_where_def)
  moreover have "set ?rows = {c \<in> set (cs_claims s). export_matches parse q s c}"
    by (auto simp: newest_first_def p)
  moreover have "sorted_wrt (\<lambda>c d. cl_createdAt d \<le> cl_createdAt c) ?rows"
    by (rule sorted_wrt_mono_rel [OF _ newest_first_sorted]) auto
  moreover have "\<forall>fs \<in> set (map (export_line num s) ?rows). fs \<noteq> []"
    by (simp add: export_line_def fields_nonempty)
  with csv_read_table [of CSV_COLUMNS] columns_plain
  have "csv_read ((join '','' CSV_COLUMNS @ [CR, LF]) @ concat (map (\<lambda>fs. toCsvRow (map (\<lambda>v. escapeCsvField (Some v)) fs))
       (map (export_line num s) ?rows))) = Some (CSV_COLUMNS # map (export_line num s) ?rows)" by blast
  ultimately show ?thesis
    unfolding export_text [OF wf assms(3), of num] \<open>length ?rows = _\<close> [symmetric]
    by (intro exI conjI refl) (assumption | simp)+
qed

definition demo_query :: export_query where
  "demo_query = \<lparr>xq_from = None, xq_to = None, xq_status = None, xq_campaignId = Some ''k'',
     xq_orgId = None, xq_tokenAddress = None\<rparr>"

theorem export_is_the_table_witness:
  "\<exists>csv rows. exportClaims (\<lambda>_. None) (\<lambda>_. ''0'') demo_query demo_claimed = Some (Inr (length rows, csv)) \<and>
     csv_read csv = Some (CSV_COLUMNS # map (export_line (\<lambda>_. ''0'') demo_claimed) rows) \<and>
     map cl_id rows = [''c1'']"
proof -
  have "buildExportWhere (\<lambda>_. None) demo_query demo_claimed = Inr (export_matches (\<lambda>_. None) demo_query demo_claimed)"
    by (simp add: buildExportWhere_def demo_query_def truthy_def)
  from export_is_the_table [OF demo_fresh demo_run this, of "\<lambda>_. ''0''"] obtain csv rows where
    e: "exportClaims (\<lambda>_. None) (\<lambda>_. ''0'') demo_query demo_claimed = Some (Inr (length rows, csv))"
      "csv_read csv = Some (CSV_COLUMNS # map (export_line (\<lambda>_. ''0'') demo_claimed) rows)"
    and r: "distinct (map cl_id rows)"
      "set rows = {c \<in> set (cs_claims demo_claimed). export_matches (\<lambda>_. None) demo_query demo_claimed c}" by blast
  obtain c where c: "cs_claims demo_claimed = [c]" "cl_id c = ''c1''" "cl_deletedAt c = None" "cl_campaignId c = ''k''"
    using demo_rows by (auto simp: map_eq_Cons_conv)
  then have "set rows = {c}" using r(2) by (auto simp: export_matches_def demo_query_def filtered_def truthy_def)
  with r(1) have "rows = [c]" by (cases rows; cases "tl rows") auto
  with c(2) e show ?thesis by (intro exI [of _ csv] exI [of _ rows] conjI) simp_all
qed

section \<open>Receipts\<close>

text \<open>The settings \<open>STELLAR_NETWORK\<close> and \<open>STELLAR_EXPLORER_URL\<close>.\<close>

record receipt_config =
  rc_network :: "string option"
  rc_explorer :: "string option"

definition buildExplorerLink :: "receipt_config \<Rightarrow> string \<Rightarrow> string" where
  "buildExplorerLink cfg transactionHash =
     (let network = (case rc_network cfg of None \<Rightarrow> ''testnet'' | Some n \<Rightarrow> toLowerCase n);
          explorerBase = (case rc_explorer cfg of None \<Rightarrow> ''https://stellar.expert/explorer'' | Some u \<Rightarrow> u)
      in if network = ''mainnet'' \<or> network = ''pubnet'' then explorerBase @ ''/public/tx/'' @ transactionHash
         else explorerBase @ ''/testnet/tx/'' @ transactionHash)"

definition explorerTxUrl :: "string \<Rightarrow> string \<Rightarrow> string" where
  "explorerTxUrl txHash network =
     (let normalized = toLowerCase (if network = [] then ''testnet'' else network);
          base = (if normalized = ''mainnet'' then ''https://stellar.expert/explorer/public''
                  else if normalized = ''futurenet'' then ''https://stellar.expert/explorer/futurenet''
                  else ''https://stellar.expert/explorer/testnet'')
      in base @ ''/tx/'' @ txHash)"

definition resolveClaimByIdentifier :: "claims_env \<Rightarrow> string \<Rightarrow> claims_state \<Rightarrow> app_error + claim" where
  "resolveClaimByIdentifier env identifier s =
     (case findOne env identifier s of
        Inr v \<Rightarrow> Inr (cv_claim v)
      | Inl _ \<Rightarrow>
          (case sort_key (\<lambda>c. - cl_createdAt c)
                  (filter (\<lambda>c. cl_deletedAt c = None \<and> cl_campaignId c = identifier) (cs_claims s)) of
             c # _ \<Rightarrow> Inr (c\<lparr>cl_recipientRef := ce_decrypt env (cl_recipientRef c)\<rparr>)
           | [] \<Rightarrow> Inl (not_found ''Claim not found'')))"

text \<open>A member of the metadata that is a string.\<close>

definition meta_string :: "string \<Rightarrow> (string \<times> meta_value) list \<Rightarrow> string option" where
  "meta_string k m = (case map_of m k of Some (MStr h) \<Rightarrow> Some h | _ \<Rightarrow> None)"

definition findDisbursementTransaction :: "ident \<Rightarrow> claims_state \<Rightarrow> (string \<times> string) option" where
  "findDisbursementTransaction claimId s =
     (case sort_key (\<lambda>(t, a). - t)
             (filter (\<lambda>(t, a). au_entity a = ''onchain'' \<and> au_entityId a = claimId \<and> au_action a = ''disburse'') (cs_audit s)) of
        [] \<Rightarrow> None
      | (t, a) # _ \<Rightarrow>
          if truthy (meta_string ''transactionHash'' (au_metadata a)) then
            Some (the (meta_string ''transactionHash'' (au_metadata a)),
                  case meta_string ''status'' (au_metadata a) of None \<Rightarrow> ''success'' | Some st \<Rightarrow> st)
          else None)"

record timeline_event =
  tv_status :: string
  tv_timestamp :: string
  tv_transactionHash :: "string option"
  tv_explorerUrl :: "string option"

definition STATUS_PREFIX :: string where
  "STATUS_PREFIX = ''status_changed_to_''"

definition buildTimeline :: "receipt_config \<Rightarrow> ident \<Rightarrow> claims_state \<Rightarrow> timeline_event list" where
  "buildTimeline cfg claimId s =
     map (\<lambda>(t, a).
        let txHash = meta_string ''transactionHash'' (au_metadata a);
            network = (case rc_network cfg of None \<Rightarrow> ''testnet'' | Some n \<Rightarrow> n)
        in \<lparr>tv_status = drop (length STATUS_PREFIX) (au_action a), tv_timestamp = toISOString t,
            tv_transactionHash = txHash, tv_explorerUrl = (if truthy txHash then Some (explorerTxUrl (the txHash) network) else None)\<rparr>)
       (filter (\<lambda>(t, a). take (length STATUS_PREFIX) (au_action a) = STATUS_PREFIX)
         (sort_key fst (filter (\<lambda>(t, a). au_entityId a = claimId \<and> au_entity a = ''claim'') (cs_audit s))))"

record claim_receipt =
  rp_claimId :: ident
  rp_packageId :: ident
  rp_status :: claim_status
  rp_amount :: rat
  rp_timestamp :: string
  rp_tokenAddress :: string
  rp_recipientRef :: string
  rp_transactionHash :: "string option"
  rp_explorerLink :: "string option"
  rp_timeline :: "timeline_event list"

definition getReceipt ::
  "receipt_config \<Rightarrow> claims_env \<Rightarrow> string \<Rightarrow> claims_state \<Rightarrow> app_error + claim_receipt" where
  "getReceipt cfg env identifier s =
     (case resolveClaimByIdentifier env identifier s of
        Inl e \<Rightarrow> Inl e
      | Inr c \<Rightarrow>
          let transactionHash = map_option fst (findDisbursementTransaction (cl_id c) s)
          in Inr \<lparr>rp_claimId = cl_id c, rp_packageId = cl_campaignId c, rp_status = cl_status c,
                  rp_amount = cl_amount c, rp_timestamp = toISOString (cl_createdAt c),
                  rp_tokenAddress = getTokenAddressForClaim c s, rp_recipientRef = cl_recipientRef c,
                  rp_transactionHash = transactionHash,
                  rp_explorerLink = map_option (buildExplorerLink cfg) transactionHash,
                  rp_timeline = buildTimeline cfg (cl_id c) s\<rparr>)"

text \<open>No entry the claim operations log is one the receipts look for.\<close>

definition receipt_entry :: "audit_params \<Rightarrow> bool" where
  "receipt_entry a \<longleftrightarrow> au_entity a = ''onchain'' \<or> take (length STATUS_PREFIX) (au_action a) = STATUS_PREFIX"

definition no_receipt_entries :: "claims_state \<Rightarrow> bool" where
  "no_receipt_entries s \<longleftrightarrow> (\<forall>(t, a) \<in> set (cs_audit s). \<not> receipt_entry a)"

named_theorems receipt_simps \<open>the audit log after an operation, as far as receipts see it\<close>

lemma entries_other [receipt_simps]:
  "no_receipt_entries (s\<lparr>cs_ledger := l\<rparr>) = no_receipt_entries s"
  "no_receipt_entries (s\<lparr>cs_claims := cs\<rparr>) = no_receipt_entries s"
  "no_receipt_entries (s\<lparr>cs_correlations := k\<rparr>) = no_receipt_entries s"
  "no_receipt_entries (s\<lparr>cs_soroban := b\<rparr>) = no_receipt_entries s"
  "no_receipt_entries (s\<lparr>cs_verifyQueue := q\<rparr>) = no_receipt_entries s"
  "no_receipt_entries (update_claim now i f s) = no_receipt_entries s"
  by (simp_all add: no_receipt_entries_def update_claim_def)

lemma entries_log [receipt_simps]:
  "no_receipt_entries (log_audit now a s) \<longleftrightarrow> no_receipt_entries s \<and> \<not> receipt_entry a"
  by (auto simp: no_receipt_entries_def log_audit_def)

lemma entries_create [receipt_simps]: "no_receipt_entries (snd (create env now newId dto s)) = no_receipt_entries s"
  by (simp add: create_def create_transaction_def enqueueVerificationForClaim_def Let_def receipt_simps
      split: option.split sum.split)

lemma entries_transition [receipt_simps]:
  "no_receipt_entries (snd (transitionStatus now i a b s)) = no_receipt_entries s"
  by (simp add: transitionStatus_def receipt_simps split: option.split)

lemma entries_verify [receipt_simps]: "no_receipt_entries (snd (verify env now i s)) = no_receipt_entries s"
  by (simp add: verify_def receipt_simps split: option.split)

lemma entries_disburse [receipt_simps]:
  "no_receipt_entries (snd (disburse env clk tx amb i ptr cid s)) = no_receipt_entries s"
  by (simp add: disburse_def disburse_onchain_def Let_def receipt_simps split: option.split sum.split prod.split)

lemma entries_cleanup_loop [receipt_simps]:
  "no_receipt_entries (snd (cleanup_loop env now cs n s)) = no_receipt_entries s"
  by (induction cs arbitrary: n s)
    (simp_all add: receipt_simps receipt_entry_def STATUS_PREFIX_def split: sum.split)

lemma entries_cleanup [receipt_simps]:
  "no_receipt_entries (snd (cleanupExpiredClaims env now s)) = no_receipt_entries s"
  using entries_cleanup_loop [of env now "filter (expired_claim now) (cs_claims s)" 0 s]
  by (auto simp: cleanupExpiredClaims_def Let_def split: prod.split sum.split)

lemma entries_cancel [receipt_simps]: "no_receipt_entries (snd (cancel env now i dto s)) = no_receipt_entries s"
  by (simp add: cancel_def cancel_commit_def Let_def receipt_simps cancelled_event_def receipt_entry_def
      STATUS_PREFIX_def split: sum.split)

lemma entries_reissue [receipt_simps]:
  "no_receipt_entries (snd (reissue env now newId i dto s)) = no_receipt_entries s"
  by (simp add: reissue_def Let_def receipt_simps cancelled_event_def receipt_entry_def
      STATUS_PREFIX_def split: sum.split)

interpretation receipts: inv_system "claim_step env reissuing" no_receipt_entries for env reissuing
proof unfold_locales
  fix s t assume "claim_step env reissuing s t" "no_receipt_entries s"
  then show "no_receipt_entries t"
    by (auto elim!: claim_stepE simp: receipt_simps approve_claim_def archive_def)
qed

text \<open>
  The receipt of a claim never shows what happened to it: \<open>auditLog\<close> of the claims service,
  which reports the status changes, only writes to the console, so after any claim operations,
  whatever the claim's status, its receipt has an empty timeline and no transaction.
\<close>

theorem receipt_has_no_history:
  assumes "cs_audit s0 = []" and "(claim_step env reissuing)\<^sup>*\<^sup>* s0 s"
    and "getReceipt cfg env identifier s = Inr r"
  shows "rp_timeline r = [] \<and> rp_transactionHash r = None \<and> rp_explorerLink r = None"
proof -
  have "no_receipt_entries s0" using assms(1) by (simp add: no_receipt_entries_def)
  with assms(2) have none: "no_receipt_entries s" by (rule receipts.run_keeps)
  have "buildTimeline cfg i s = []" for i
    using none by (auto simp: buildTimeline_def no_receipt_entries_def receipt_entry_def filter_empty_conv)
  moreover have "filter (\<lambda>(t, a). au_entity a = ''onchain'' \<and> au_entityId a = i \<and> au_action a = ''disburse'')
      (cs_audit s) = []" for i
    using none by (auto simp: no_receipt_entries_def receipt_entry_def filter_empty_conv)
  then have "findDisbursementTransaction i s = None" for i
    by (simp add: findDisbursementTransaction_def)
  ultimately show ?thesis using assms(3) by (auto simp: getReceipt_def Let_def split: sum.splits)
qed

theorem receipt_has_no_history_witness:
  "rp_timeline (projr (getReceipt \<lparr>rc_network = None, rc_explorer = None\<rparr> demo_env ''c1'' demo_claimed)) = [] \<and>
   isl (getReceipt \<lparr>rc_network = None, rc_explorer = None\<rparr> demo_env ''c1'' demo_claimed) = False"
proof -
  let ?r = "getReceipt \<lparr>rc_network = None, rc_explorer = None\<rparr> demo_env ''c1'' demo_claimed"
  have audit: "cs_audit demo_books = []" by (simp add: demo_books_def)
  have r: "\<not> isl ?r"
    by (simp add: getReceipt_def resolveClaimByIdentifier_def findOne_def find_claim_def view_claim_def Let_def demo_simps)
  then have "?r = Inr (projr ?r)" by (simp add: sum.collapse)
  from receipt_has_no_history [OF audit demo_run this] r show ?thesis by simp
qed

end
