(* ===== verification/JsonText.thy ===== *)
theory JsonText
  imports VerificationRecord "HOL-Library.List_Lexorder" "HOL-Library.Char_ord"
begin

text \<open>
  JSON values and their text: what \<open>audit/audit-chain.util.ts\<close> defines on them (\<open>canonicalJson\<close>,
  \<open>sortDeep\<close>, \<open>canonicalMetadata\<close>, \<open>jsonDeepEqual\<close>), and what it uses of the language:
  \<open>JSON.stringify\<close>, \<open>JSON.parse\<close> and the order of an object's keys. A string is a list of
  8-bit characters. How a number is rendered and read (\<open>num\<close>, \<open>rd\<close>) are parameters.

  The parser runs on fuel, twice the length of the text: a round trip shows that it is enough
  for every text \<open>JSON.stringify\<close> writes.
\<close>

section \<open>Writing\<close>

abbreviation BSLASH :: char where "BSLASH \<equiv> CHR 0x5C"

definition quote_char :: "char \<Rightarrow> string" where
  "quote_char c =
     (let n = (of_char c :: nat)
      in if c = DQUOTE \<or> c = BSLASH then [BSLASH, c]
         else if n = 8 then [BSLASH, CHR ''b''] else if n = 12 then [BSLASH, CHR ''f'']
         else if n = 10 then [BSLASH, CHR ''n''] else if n = 13 then [BSLASH, CHR ''r'']
         else if n = 9 then [BSLASH, CHR ''t'']
         else if n < 32 then [BSLASH, CHR ''u'', CHR ''0'', CHR ''0'', hex_digit (n div 16), hex_digit (n mod 16)]
         else [c])"

definition json_quote :: "string \<Rightarrow> string" where
  "json_quote s = [DQUOTE] @ concat (map quote_char s) @ [DQUOTE]"

text \<open>\<open>JSON.stringify(value, null, 2)\<close>; \<open>ind\<close> is the indentation of the line.\<close>

fun stringify :: "(rat \<Rightarrow> string) \<Rightarrow> string \<Rightarrow> json \<Rightarrow> string" where
  "stringify num ind JNull = ''null''"
| "stringify num ind (JBool b) = (if b then ''true'' else ''false'')"
| "stringify num ind (JNum x) = num x"
| "stringify num ind (JStr s) = json_quote s"
| "stringify num ind (JArr vs) =
     (if vs = [] then ''[]''
      else ''['' @ join '','' (map (\<lambda>v. [LF] @ ind @ ''  '' @ stringify num (ind @ ''  '') v) vs) @ [LF] @ ind @ '']'')"
| "stringify num ind (JObj m) =
     (if m = [] then ''{}''
      else ''{'' @ join '','' (map (\<lambda>(k, v). [LF] @ ind @ ''  '' @ json_quote k @ '': '' @ stringify num (ind @ ''  '') v) m)
         @ [LF] @ ind @ ''}'')"

text \<open>\<open>JSON.stringify\<close> of an array of strings, without indentation.\<close>

definition stringify_strings :: "string list \<Rightarrow> string" where
  "stringify_strings xs = ''['' @ join '','' (map json_quote xs) @ '']''"

section \<open>The order of an object's keys\<close>

text \<open>Keys that are array indices come first, in their numeric order.\<close>

definition index_value :: "string \<Rightarrow> nat" where
  "index_value k = foldl (\<lambda>n c. 10 * n + (of_char c - 48)) 0 k"

definition is_index :: "string \<Rightarrow> bool" where
  "is_index k \<longleftrightarrow> k \<noteq> [] \<and> (\<forall>c \<in> set k. 48 \<le> (of_char c :: nat) \<and> (of_char c :: nat) \<le> 57) \<and>
     (k = ''0'' \<or> hd k \<noteq> CHR ''0'') \<and> index_value k < 2 ^ 32 - 1"

definition js_object :: "(string \<times> json) list \<Rightarrow> (string \<times> json) list" where
  "js_object m = sort_key (\<lambda>(k, v). index_value k) (filter (\<lambda>(k, v). is_index k) m)
     @ filter (\<lambda>(k, v). \<not> is_index k) m"

section \<open>Reading\<close>

definition skip_ws :: "string \<Rightarrow> string" where
  "skip_ws = dropWhile (\<lambda>c. c \<in> {CHR '' '', CHR 0x09, LF, CR})"

text \<open>Four hexadecimal digits; only code units below 256 are characters of the model.\<close>

definition hex_char :: "char \<Rightarrow> char \<Rightarrow> char \<Rightarrow> char \<Rightarrow> char option" where
  "hex_char a b c d =
     (case (hex_digit_value a, hex_digit_value b, hex_digit_value c, hex_digit_value d) of
        (Some 0, Some 0, Some x, Some y) \<Rightarrow> Some (char_of (16 * x + y))
      | _ \<Rightarrow> None)"

definition escape_char :: "char \<Rightarrow> char option" where
  "escape_char e =
     (if e \<in> {DQUOTE, BSLASH, CHR ''/''} then Some e
      else if e = CHR ''b'' then Some (CHR 0x08) else if e = CHR ''f'' then Some (CHR 0x0C)
      else if e = CHR ''n'' then Some LF else if e = CHR ''r'' then Some CR
      else if e = CHR ''t'' then Some (CHR 0x09) else None)"

definition cons_char :: "char option \<Rightarrow> (string \<times> string) option \<Rightarrow> (string \<times> string) option" where
  "cons_char c r = (case (c, r) of (Some c', Some (s, t)) \<Rightarrow> Some (c' # s, t) | _ \<Rightarrow> None)"

text \<open>The rest of a string literal after its opening quote, and what follows it.\<close>

fun parse_chars :: "string \<Rightarrow> (string \<times> string) option" where
  "parse_chars [] = None"
| "parse_chars (c # s) =
     (if c = DQUOTE then Some ([], s)
      else if c = BSLASH then
        (case s of
           [] \<Rightarrow> None
         | e # s1 \<Rightarrow>
             if e = CHR ''u'' then
               (case s1 of
                  h1 # h2 # h3 # h4 # s2 \<Rightarrow> cons_char (hex_char h1 h2 h3 h4) (parse_chars s2)
                | _ \<Rightarrow> None)
             else cons_char (escape_char e) (parse_chars s1))
      else if (of_char c :: nat) < 32 then None
      else cons_char (Some c) (parse_chars s))"

definition number_char :: "char \<Rightarrow> bool" where
  "number_char c \<longleftrightarrow> 48 \<le> (of_char c :: nat) \<and> (of_char c :: nat) \<le> 57 \<or>
     c \<in> {CHR ''-'', CHR ''+'', CHR ''.'', CHR ''e'', CHR ''E''}"

definition literal :: "string \<Rightarrow> json \<Rightarrow> string \<Rightarrow> (json \<times> string) option" where
  "literal word v s = (if take (length word) s = word then Some (v, drop (length word) s) else None)"

fun parse_value :: "(string \<Rightarrow> rat option) \<Rightarrow> nat \<Rightarrow> string \<Rightarrow> (json \<times> string) option"
  and parse_items :: "(string \<Rightarrow> rat option) \<Rightarrow> nat \<Rightarrow> string \<Rightarrow> (json list \<times> string) option"
  and parse_members :: "(string \<Rightarrow> rat option) \<Rightarrow> nat \<Rightarrow> string \<Rightarrow> ((string \<times> json) list \<times> string) option" where
  "parse_value rd 0 s = None"
| "parse_value rd (Suc n) s =
     (case skip_ws s of
        [] \<Rightarrow> None
      | c # t \<Rightarrow>
          if c = DQUOTE then map_option (\<lambda>(x, r). (JStr x, r)) (parse_chars t)
          else if c = CHR ''['' then
            (if skip_ws t \<noteq> [] \<and> hd (skip_ws t) = CHR '']'' then Some (JArr [], tl (skip_ws t))
             else map_option (\<lambda>(vs, r). (JArr vs, r)) (parse_items rd n t))
          else if c = CHR ''{'' then
            (if skip_ws t \<noteq> [] \<and> hd (skip_ws t) = CHR ''}'' then Some (JObj [], tl (skip_ws t))
             else map_option (\<lambda>(m, r). (JObj (js_object (spread m [])), r)) (parse_members rd n t))
          else if c = CHR ''t'' then literal ''true'' (JBool True) (c # t)
          else if c = CHR ''f'' then literal ''false'' (JBool False) (c # t)
          else if c = CHR ''n'' then literal ''null'' JNull (c # t)
          else map_option (\<lambda>x. (JNum x, dropWhile number_char (c # t))) (rd (takeWhile number_char (c # t))))"
| "parse_items rd 0 s = None"
| "parse_items rd (Suc n) s =
     (case parse_value rd n s of
        None \<Rightarrow> None
      | Some (v, r) \<Rightarrow>
          (case skip_ws r of
             [] \<Rightarrow> None
           | c # r1 \<Rightarrow>
               if c = CHR '','' then map_option (\<lambda>(vs, r2). (v # vs, r2)) (parse_items rd n r1)
               else if c = CHR '']'' then Some ([v], r1) else None))"
| "parse_members rd 0 s = None"
| "parse_members rd (Suc n) s =
     (case skip_ws s of
        [] \<Rightarrow> None
      | q # s1 \<Rightarrow>
          if q \<noteq> DQUOTE then None
          else (case parse_chars s1 of
             None \<Rightarrow> None
           | Some (k, s2) \<Rightarrow>
               if skip_ws s2 = [] \<or> hd (skip_ws s2) \<noteq> CHR '':'' then None
               else (case parse_value rd n (tl (skip_ws s2)) of
                  None \<Rightarrow> None
                | Some (v, r) \<Rightarrow>
                    (case skip_ws r of
                       [] \<Rightarrow> None
                     | c # r1 \<Rightarrow>
                         if c = CHR '','' then map_option (\<lambda>(m, r2). ((k, v) # m, r2)) (parse_members rd n r1)
                         else if c = CHR ''}'' then Some ([(k, v)], r1) else None))))"

definition json_parse :: "(string \<Rightarrow> rat option) \<Rightarrow> string \<Rightarrow> json option" where
  "json_parse rd s =
     (case parse_value rd (2 * length s + 2) s of
        Some (v, r) \<Rightarrow> if skip_ws r = [] then Some v else None
      | None \<Rightarrow> None)"

section \<open>The canonical form\<close>

text \<open>
  The keys are assigned to a fresh object in their sorted order, so array indices come first,
  and an assignment to \<open>__proto__\<close> makes no member.
\<close>

fun sortDeep :: "json \<Rightarrow> json" where
  "sortDeep (JArr vs) = JArr (map sortDeep vs)"
| "sortDeep (JObj m) =
     JObj (js_object (filter (\<lambda>(k, v). k \<noteq> ''__proto__'')
       (sort_key fst (map (\<lambda>(k, v). (k, sortDeep v)) m))))"
| "sortDeep v = v"

definition canonicalJson :: "(rat \<Rightarrow> string) \<Rightarrow> json \<Rightarrow> string" where
  "canonicalJson num v = stringify num [] (sortDeep v)"

definition canonicalMetadata :: "(rat \<Rightarrow> string) \<Rightarrow> json \<Rightarrow> string option \<Rightarrow> string" where
  "canonicalMetadata num metadata canonical =
     (case canonical of
        Some c \<Rightarrow> c
      | None \<Rightarrow> (case metadata of JStr s \<Rightarrow> s | _ \<Rightarrow> canonicalJson num metadata))"

lemma zip_smaller [termination_simp]:
  "(x, y) \<in> set (zip as bs) \<Longrightarrow> size x < Suc (size_list size as)"
  by (drule set_zip_leftD, drule size_list_estimation' [of _ _ "size _" size]) auto

fun jsonDeepEqual :: "json \<Rightarrow> json \<Rightarrow> bool" where
  "jsonDeepEqual (JArr as) b =
     (case b of JArr bs \<Rightarrow> length as = length bs \<and> list_all (\<lambda>(x, y). jsonDeepEqual x y) (zip as bs) | _ \<Rightarrow> False)"
| "jsonDeepEqual (JObj a) b =
     (case b of
        JObj b' \<Rightarrow> sort (map fst a) = sort (map fst b') \<and>
          list_all (\<lambda>(k, v). case map_of b' k of None \<Rightarrow> False | Some w \<Rightarrow> jsonDeepEqual v w) a
      | _ \<Rightarrow> False)"
| "jsonDeepEqual a b = (a = b)"

section \<open>Reading what was written\<close>

lemma parse_quote_char:
  "parse_chars (quote_char c @ t) = cons_char (Some c) (parse_chars t)"
proof -
  let ?n = "of_char c :: nat"
  consider (quoted) "c = DQUOTE \<or> c = BSLASH"
    | (short) "c \<noteq> DQUOTE" "c \<noteq> BSLASH" "?n \<in> {8, 9, 10, 12, 13}"
    | (control) "c \<noteq> DQUOTE" "c \<noteq> BSLASH" "?n \<notin> {8, 9, 10, 12, 13}" "?n < 32"
    | (plain) "c \<noteq> DQUOTE" "c \<noteq> BSLASH" "\<not> ?n < 32" by linarith
  then show ?thesis
  proof cases
    case quoted
    then show ?thesis by (auto simp: quote_char_def escape_char_def)
  next
    case short
    then consider "?n = of_char (CHR 0x08)" | "?n = of_char (CHR 0x09)" | "?n = of_char LF"
      | "?n = of_char (CHR 0x0C)" | "?n = of_char CR" by auto
    then consider "c = CHR 0x08" | "c = CHR 0x09" | "c = LF" | "c = CHR 0x0C" | "c = CR"
      by cases (simp_all only: of_char_eq_iff)
    then show ?thesis by cases (simp_all add: quote_char_def escape_char_def)
  next
    case control
    then have "?n div 16 < 16" "?n mod 16 < 16" by auto
    with control have "hex_char (CHR ''0'') (CHR ''0'') (hex_digit (?n div 16)) (hex_digit (?n mod 16)) = Some c"
      by (simp add: hex_char_def hex_digit_back) (simp add: hex_digit_value_def)
    with control show ?thesis by (simp add: quote_char_def Let_def)
  next
    case plain
    then show ?thesis by (simp add: quote_char_def Let_def)
  qed
qed

lemma parse_quoted_chars:
  "parse_chars (concat (map quote_char s) @ DQUOTE # rest) = Some (s, rest)"
  by (induction s) (simp_all add: parse_quote_char cons_char_def del: parse_chars.simps, simp)

text \<open>The values JavaScript objects can hold, and those whose numbers can be read back.\<close>

fun js_wf :: "json \<Rightarrow> bool" where
  "js_wf (JArr vs) = list_all js_wf vs"
| "js_wf (JObj m) = (distinct (map fst m) \<and> js_object m = m \<and> list_all (\<lambda>(k, v). js_wf v) m)"
| "js_wf v = True"

definition reads_back :: "(rat \<Rightarrow> string) \<Rightarrow> (string \<Rightarrow> rat option) \<Rightarrow> rat \<Rightarrow> bool" where
  "reads_back num rd x \<longleftrightarrow> num x \<noteq> [] \<and> list_all number_char (num x) \<and> rd (num x) = Some x"

fun numbers_ok :: "(rat \<Rightarrow> string) \<Rightarrow> (string \<Rightarrow> rat option) \<Rightarrow> json \<Rightarrow> bool" where
  "numbers_ok num rd (JNum x) = reads_back num rd x"
| "numbers_ok num rd (JArr vs) = list_all (numbers_ok num rd) vs"
| "numbers_ok num rd (JObj m) = list_all (\<lambda>(k, v). numbers_ok num rd v) m"
| "numbers_ok num rd v = True"

definition ws :: "char \<Rightarrow> bool" where
  "ws c \<longleftrightarrow> c \<in> {CHR '' '', CHR 0x09, LF, CR}"

lemma skip_ws_simps [simp]:
  "skip_ws [] = []"
  "skip_ws (c # s) = (if ws c then skip_ws s else c # s)"
  by (simp_all add: skip_ws_def ws_def)

lemma skip_indent: "set ind \<subseteq> {CHR '' ''} \<Longrightarrow> skip_ws (ind @ s) = skip_ws s"
  by (induction ind) (auto simp: ws_def)

lemma number_char_not:
  assumes "number_char c"
  shows "\<not> ws c" "c \<notin> {DQUOTE, CHR ''['', CHR '']'', CHR ''{'', CHR ''}'', CHR '','', CHR ''t'', CHR ''f'', CHR ''n''}"
  using assms by (auto simp: number_char_def ws_def)

definition value_start :: "string \<Rightarrow> bool" where
  "value_start s \<longleftrightarrow> s \<noteq> [] \<and> \<not> ws (hd s) \<and> hd s \<noteq> CHR '']'' \<and> hd s \<noteq> CHR ''}''"

lemma text_start:
  assumes "numbers_ok num rd v"
  shows "value_start (stringify num ind v)"
proof (cases v)
  case (JNum x)
  with assms obtain c s where "num x = c # s" "number_char c"
    by (cases "num x") (auto simp: reads_back_def)
  with number_char_not [of c] JNum show ?thesis by (simp add: value_start_def)
qed (simp_all add: value_start_def json_quote_def ws_def)

lemma skip_text:
  assumes "numbers_ok num rd v"
  shows "skip_ws (stringify num ind v @ r) = stringify num ind v @ r"
  using text_start [OF assms, of ind] by (cases "stringify num ind v") (auto simp: value_start_def)

text \<open>The text after a value does not go on with a number.\<close>

definition stops :: "string \<Rightarrow> bool" where
  "stops r \<longleftrightarrow> r = [] \<or> \<not> number_char (hd r)"

lemma span_number:
  assumes "list_all number_char xs" and "stops r"
  shows "takeWhile number_char (xs @ r) = xs" "dropWhile number_char (xs @ r) = r"
  using assms by (induction xs) (cases r; auto simp: stops_def)+

definition item_text :: "(rat \<Rightarrow> string) \<Rightarrow> string \<Rightarrow> json \<Rightarrow> string" where
  "item_text num ind v = [LF] @ ind @ ''  '' @ stringify num (ind @ ''  '') v"

definition member_text :: "(rat \<Rightarrow> string) \<Rightarrow> string \<Rightarrow> string \<times> json \<Rightarrow> string" where
  "member_text num ind kv = [LF] @ ind @ ''  '' @ json_quote (fst kv) @ '': '' @ stringify num (ind @ ''  '') (snd kv)"

lemma item_length [simp]:
  "length (item_text num ind v) = length (stringify num (ind @ ''  '') v) + length ind + 3"
  by (simp add: item_text_def)

lemma member_length:
  "length (stringify num (ind @ ''  '') (snd kv)) + length ind + 3 \<le> length (member_text num ind kv)"
  by (simp add: member_text_def)

lemma stringify_text:
  "vs \<noteq> [] \<Longrightarrow> stringify num ind (JArr vs) = ''['' @ join '','' (map (item_text num ind) vs) @ [LF] @ ind @ '']''"
  "m \<noteq> [] \<Longrightarrow> stringify num ind (JObj m) = ''{'' @ join '','' (map (member_text num ind) m) @ [LF] @ ind @ ''}''"
  by (simp_all add: item_text_def [abs_def] member_text_def [abs_def] case_prod_beta')

definition reads_value ::
  "(rat \<Rightarrow> string) \<Rightarrow> (string \<Rightarrow> rat option) \<Rightarrow> json \<Rightarrow> bool" where
  "reads_value num rd v \<longleftrightarrow> (\<forall>ind n r s. set ind \<subseteq> {CHR '' ''} \<longrightarrow> stops r \<longrightarrow>
     2 * length (stringify num ind v) \<le> n \<longrightarrow> skip_ws s = stringify num ind v @ r \<longrightarrow>
     parse_value rd n s = Some (v, r))"

lemma reads_valueD:
  "reads_value num rd v \<Longrightarrow> set ind \<subseteq> {CHR '' ''} \<Longrightarrow> stops r \<Longrightarrow>
   2 * length (stringify num ind v) \<le> n \<Longrightarrow> skip_ws s = stringify num ind v @ r \<Longrightarrow>
   parse_value rd n s = Some (v, r)"
  unfolding reads_value_def by blast

lemma stops_simps [simp]: "stops []" "stops (c # r) \<longleftrightarrow> \<not> number_char c"
  by (simp_all add: stops_def)

lemma not_number [simp]: "\<not> number_char LF" "\<not> number_char (CHR '','')"
  by (simp_all add: number_char_def)

lemma read_items:
  assumes "vs \<noteq> []" and "set ind \<subseteq> {CHR '' ''}"
    and "\<forall>v \<in> set vs. reads_value num rd v \<and> numbers_ok num rd v"
    and "2 * length (join '','' (map (item_text num ind) vs)) \<le> n"
  shows "parse_items rd n (join '','' (map (item_text num ind) vs) @ LF # ind @ CHR '']'' # r) = Some (vs, r)"
  using assms(1,3,4)
proof (induction vs arbitrary: n rule: list_nonempty_induct)
  case (single v)
  then obtain k where n: "n = Suc k" "2 * length (stringify num (ind @ ''  '') v) \<le> k"
    by (cases n) auto
  have "parse_value rd k (item_text num ind v @ LF # ind @ CHR '']'' # r) = Some (v, LF # ind @ CHR '']'' # r)"
    by (rule reads_valueD [of num rd v "ind @ ''  ''"])
      (use single assms(2) n(2) in \<open>auto simp: item_text_def ws_def skip_indent skip_text\<close>)
  with n(1) assms(2) show ?case by (simp add: skip_indent ws_def)
next
  case (cons v vs)
  then obtain w ws' where vs: "vs = w # ws'" by (cases vs) auto
  with cons.prems obtain k where n: "n = Suc k" "2 * length (stringify num (ind @ ''  '') v) \<le> k"
    "2 * length (join '','' (map (item_text num ind) vs)) \<le> k"
    by (cases n) auto
  let ?rest = "join '','' (map (item_text num ind) vs) @ LF # ind @ CHR '']'' # r"
  have "parse_value rd k (item_text num ind v @ CHR '','' # ?rest) = Some (v, CHR '','' # ?rest)"
    by (rule reads_valueD [of num rd v "ind @ ''  ''"])
      (use cons.prems assms(2) n(2) in \<open>auto simp: item_text_def ws_def skip_indent skip_text\<close>)
  moreover have "parse_items rd k ?rest = Some (vs, r)"
    by (rule cons.IH) (use cons.prems n(3) in auto)
  ultimately show ?case using n(1) vs by (simp add: ws_def)
qed

lemma read_members:
  assumes "m \<noteq> []" and "set ind \<subseteq> {CHR '' ''}"
    and "\<forall>(k, v) \<in> set m. reads_value num rd v \<and> numbers_ok num rd v"
    and "2 * length (join '','' (map (member_text num ind) m)) \<le> n"
  shows "parse_members rd n (join '','' (map (member_text num ind) m) @ LF # ind @ CHR ''}'' # r) = Some (m, r)"
  using assms(1,3,4)
proof (induction m arbitrary: n rule: list_nonempty_induct)
  case (single kv)
  obtain k v where kv: "kv = (k, v)" by (cases kv)
  from single kv obtain j where n: "n = Suc j" "2 * length (stringify num (ind @ ''  '') v) \<le> j"
    using member_length [of num ind kv] by (cases n) auto
  have "parse_value rd j (CHR '' '' # stringify num (ind @ ''  '') v @ LF # ind @ CHR ''}'' # r) =
      Some (v, LF # ind @ CHR ''}'' # r)"
    by (rule reads_valueD [of num rd v "ind @ ''  ''"])
      (use single kv assms(2) n(2) in \<open>auto simp: ws_def skip_text\<close>)
  with n(1) assms(2) show ?case
    by (simp add: kv member_text_def json_quote_def skip_indent ws_def parse_quoted_chars)
next
  case (cons kv m)
  obtain k v where kv: "kv = (k, v)" by (cases kv)
  obtain w ws' where m: "m = w # ws'" using cons.hyps by (cases m) auto
  with cons.prems kv obtain j where n: "n = Suc j" "2 * length (stringify num (ind @ ''  '') v) \<le> j"
    "2 * length (join '','' (map (member_text num ind) m)) \<le> j"
    using member_length [of num ind kv] by (cases n) auto
  let ?rest = "join '','' (map (member_text num ind) m) @ LF # ind @ CHR ''}'' # r"
  have "parse_value rd j (CHR '' '' # stringify num (ind @ ''  '') v @ CHR '','' # ?rest) = Some (v, CHR '','' # ?rest)"
    by (rule reads_valueD [of num rd v "ind @ ''  ''"])
      (use cons.prems kv assms(2) n(2) in \<open>auto simp: ws_def skip_text\<close>)
  moreover have "parse_members rd j ?rest = Some (m, r)"
    by (rule cons.IH) (use cons.prems n(3) in auto)
  ultimately show ?case using n(1) assms(2)
    by (simp add: kv m member_text_def [of _ _ "(k, v)"] json_quote_def skip_indent ws_def parse_quoted_chars)
qed

lemma update_fresh: "k \<notin> fst ` set al \<Longrightarrow> AList.update k v al = al @ [(k, v)]"
  by (induction al) auto

lemma spread_fresh:
  "distinct (map fst (base @ m)) \<Longrightarrow> spread m base = base @ m"
proof (induction m arbitrary: base)
  case (Cons kv m)
  obtain k v where kv: "kv = (k, v)" by (cases kv)
  have "k \<notin> fst ` set base" using Cons.prems kv by auto
  moreover have "spread m (base @ [(k, v)]) = (base @ [(k, v)]) @ m"
    by (rule Cons.IH) (use Cons.prems kv in simp)
  ultimately show ?case by (simp add: spread_def kv update_fresh)
qed (simp add: spread_def)

lemma items_start:
  assumes "vs \<noteq> []" and "set ind \<subseteq> {CHR '' ''}" and "numbers_ok num rd (hd vs)"
  shows "skip_ws (join '','' (map (item_text num ind) vs) @ r) \<noteq> [] \<and>
    hd (skip_ws (join '','' (map (item_text num ind) vs) @ r)) \<noteq> CHR '']''"
proof -
  obtain v ws' where vs: "vs = v # ws'" using assms(1) by (cases vs) auto
  have "\<exists>q. skip_ws (join '','' (map (item_text num ind) vs) @ r) = stringify num (ind @ ''  '') v @ q"
    using assms(2,3) by (cases ws') (auto simp: vs item_text_def ws_def skip_indent skip_text)
  with text_start [OF assms(3), of "ind @ ''  ''"] vs show ?thesis
    by (cases "stringify num (ind @ ''  '') v") (auto simp: value_start_def)
qed

lemma members_start:
  assumes "m \<noteq> []" and "set ind \<subseteq> {CHR '' ''}"
  shows "skip_ws (join '','' (map (member_text num ind) m) @ r) \<noteq> [] \<and>
    hd (skip_ws (join '','' (map (member_text num ind) m) @ r)) \<noteq> CHR ''}''"
proof -
  obtain kv ws' where m: "m = kv # ws'" using assms(1) by (cases m) auto
  show ?thesis using assms(2) by (cases ws') (auto simp: m member_text_def json_quote_def ws_def skip_indent)
qed

lemma parse_text:
  assumes "js_wf v" and "numbers_ok num rd v"
  shows "reads_value num rd v"
  using assms
proof (induction v)
  case (JNum x)
  then have x: "num x \<noteq> []" "list_all number_char (num x)" "rd (num x) = Some x"
    by (simp_all add: reads_back_def)
  show ?case unfolding reads_value_def
  proof (intro allI impI)
    fix ind n r s
    assume "stops r" "2 * length (stringify num ind (JNum x)) \<le> n" and s: "skip_ws s = stringify num ind (JNum x) @ r"
    then obtain k where n: "n = Suc k" using x(1) by (cases n) auto
    obtain c t where ct: "num x = c # t" "number_char c" using x(1,2) by (cases "num x") auto
    have span: "takeWhile number_char (num x @ r) = num x" "dropWhile number_char (num x @ r) = r"
      using span_number [OF x(2) \<open>stops r\<close>] by simp_all
    then show "parse_value rd n s = Some (JNum x, r)"
      using number_char_not(2) [OF ct(2)] s x(3) by (simp add: n ct(1) del: takeWhile.simps dropWhile.simps)
  qed
next
  case (JStr y)
  show ?case unfolding reads_value_def
    by (auto simp: json_quote_def parse_quoted_chars dest!: Suc_le_D)
next
  case (JArr vs)
  then have all: "\<forall>v \<in> set vs. reads_value num rd v \<and> numbers_ok num rd v" by (auto simp: list_all_iff)
  show ?case unfolding reads_value_def
  proof (intro allI impI)
    fix ind n r s
    assume ind: "set ind \<subseteq> {CHR '' ''}" and n: "2 * length (stringify num ind (JArr vs)) \<le> n"
      and s: "skip_ws s = stringify num ind (JArr vs) @ r"
    obtain k where k: "n = Suc k" using n by (cases n) (auto split: if_splits)
    show "parse_value rd n s = Some (JArr vs, r)"
    proof (cases "vs = []")
      case True
      then show ?thesis using s by (simp add: k ws_def)
    next
      case False
      let ?t = "join '','' (map (item_text num ind) vs) @ LF # ind @ CHR '']'' # r"
      have "skip_ws s = CHR ''['' # ?t" using s by (simp only: stringify_text(1) [OF False]) simp
      moreover have "parse_items rd k ?t = Some (vs, r)"
        by (rule read_items [OF False ind all]) (use n k in \<open>simp only: stringify_text(1) [OF False], simp\<close>)
      moreover have "skip_ws ?t \<noteq> [] \<and> hd (skip_ws ?t) \<noteq> CHR '']''"
        by (rule items_start [where rd = rd, OF False ind]) (use all False in simp)
      ultimately show ?thesis by (simp add: k)
    qed
  qed
next
  case (JObj m)
  then have all: "\<forall>(k, v) \<in> set m. reads_value num rd v \<and> numbers_ok num rd v"
    by (fastforce simp: list_all_iff)
  have m: "js_object (spread m []) = m" using JObj.prems(1) spread_fresh [of "[]" m] by simp
  show ?case unfolding reads_value_def
  proof (intro allI impI)
    fix ind n r s
    assume ind: "set ind \<subseteq> {CHR '' ''}" and n: "2 * length (stringify num ind (JObj m)) \<le> n"
      and s: "skip_ws s = stringify num ind (JObj m) @ r"
    obtain k where k: "n = Suc k" using n by (cases n) (auto split: if_splits)
    show "parse_value rd n s = Some (JObj m, r)"
    proof (cases "m = []")
      case True
      then show ?thesis using s by (simp add: k ws_def)
    next
      case False
      let ?t = "join '','' (map (member_text num ind) m) @ LF # ind @ CHR ''}'' # r"
      have "skip_ws s = CHR ''{'' # ?t" using s by (simp only: stringify_text(2) [OF False]) simp
      moreover have "parse_members rd k ?t = Some (m, r)"
        by (rule read_members [OF False ind all]) (use n k in \<open>simp only: stringify_text(2) [OF False], simp\<close>)
      moreover have "skip_ws ?t \<noteq> [] \<and> hd (skip_ws ?t) \<noteq> CHR ''}''"
        by (rule members_start [OF False ind])
      ultimately show ?thesis using m by (simp add: k)
    qed
  qed
qed (auto simp: reads_value_def literal_def numeral_eq_Suc dest!: Suc_le_D)

lemma parse_stringify:
  assumes "js_wf v" and "numbers_ok num rd v"
  shows "json_parse rd (stringify num [] v) = Some v"
proof -
  have "parse_value rd (2 * length (stringify num [] v) + 2) (stringify num [] v) = Some (v, [])"
    by (rule reads_valueD [OF parse_text [OF assms], of "[]"])
      (use skip_text [OF assms(2), of "[]" "[]"] in simp_all)
  then show ?thesis by (simp add: json_parse_def)
qed

section \<open>The canonical form reads as an equal value\<close>

text \<open>A value whose objects have distinct keys, none of them \<open>__proto__\<close>.\<close>

fun plain_json :: "json \<Rightarrow> bool" where
  "plain_json (JArr vs) = list_all plain_json vs"
| "plain_json (JObj m) = (distinct (map fst m) \<and> ''__proto__'' \<notin> fst ` set m \<and> list_all (\<lambda>(k, v). plain_json v) m)"
| "plain_json v = True"

lemma mset_js_object [simp]: "mset (js_object m) = mset m"
  by (induction m) (auto simp: js_object_def)

lemma set_js_object [simp]: "set (js_object m) = set m"
  by (metis mset_js_object mset_eq_setD)

lemma js_object_twice [simp]: "js_object (js_object m) = js_object m"
proof -
  let ?s = "sort_key (\<lambda>(k, v). index_value k) (filter (\<lambda>(k, v). is_index k) m)"
  have s: "sort_key (\<lambda>(k, v). index_value k) ?s = ?s" by (rule sort_key_id_if_sorted) simp
  have "filter (\<lambda>(k, v). is_index k) (js_object m) = ?s"
    "filter (\<lambda>(k, v). \<not> is_index k) (js_object m) = filter (\<lambda>(k, v). \<not> is_index k) m"
    by (auto simp: js_object_def filter_empty_conv intro: filter_True)
  with s show ?thesis by (subst js_object_def) (simp add: js_object_def)
qed

lemma distinct_mset_map: "mset xs = mset ys \<Longrightarrow> distinct (map f xs) \<longleftrightarrow> distinct (map f ys)"
  by (metis mset_eq_imp_distinct_iff mset_map)

lemma sorted_members:
  assumes "plain_json (JObj m)"
  obtains ms where "sortDeep (JObj m) = JObj (js_object ms)" and "mset ms = mset (map (\<lambda>(k, v). (k, sortDeep v)) m)"
proof -
  let ?s = "sort_key fst (map (\<lambda>(k, v). (k, sortDeep v)) m)"
  have "filter (\<lambda>(k, v). k \<noteq> ''__proto__'') ?s = ?s"
    using assms by (auto intro!: filter_True simp: rev_image_eqI)
  then show ?thesis by (intro that [of ?s]) simp_all
qed

lemma sortDeep_wf:
  assumes "plain_json v"
  shows "js_wf (sortDeep v)"
  using assms
proof (induction v)
  case (JObj m)
  obtain ms where ms: "sortDeep (JObj m) = JObj (js_object ms)" "mset ms = mset (map (\<lambda>(k, v). (k, sortDeep v)) m)"
    using sorted_members [OF JObj.prems] .
  have keys: "map fst (map (\<lambda>(k, v). (k, sortDeep v)) m) = map fst m" by auto
  have "mset (js_object ms) = mset (map (\<lambda>(k, v). (k, sortDeep v)) m)" using ms(2) by (simp only: mset_js_object)
  from distinct_mset_map [OF this, of fst] have "distinct (map fst (js_object ms))"
    unfolding keys using JObj.prems by simp
  moreover have "js_wf v" if "(k, v) \<in> set ms" for k v
    using that JObj mset_eq_setD [OF ms(2)] by (fastforce simp: list_all_iff)
  ultimately show ?case unfolding ms(1) by (auto simp: list_all_iff)
qed (auto simp: list_all_iff)

lemma sortDeep_numbers:
  assumes "plain_json v" and "numbers_ok num rd v"
  shows "numbers_ok num rd (sortDeep v)"
  using assms
proof (induction v)
  case (JObj m)
  obtain ms where ms: "sortDeep (JObj m) = JObj (js_object ms)" "mset ms = mset (map (\<lambda>(k, v). (k, sortDeep v)) m)"
    using sorted_members [OF JObj.prems(1)] .
  have "numbers_ok num rd v" if "(k, v) \<in> set ms" for k v
    using that JObj mset_eq_setD [OF ms(2)] by (fastforce simp: list_all_iff)
  then show ?case unfolding ms(1) by (auto simp: list_all_iff)
qed (auto simp: list_all_iff)

lemma deep_trans:
  assumes "jsonDeepEqual a b" and "jsonDeepEqual b c"
  shows "jsonDeepEqual a c"
  using assms
proof (induction a arbitrary: b c)
  case (JArr as)
  obtain bs where b: "b = JArr bs" "length as = length bs" "\<And>i. i < length as \<Longrightarrow> jsonDeepEqual (as ! i) (bs ! i)"
    using JArr.prems(1) by (auto simp: list_all_length split: json.splits)
  obtain cs where c: "c = JArr cs" "length bs = length cs" "\<And>i. i < length bs \<Longrightarrow> jsonDeepEqual (bs ! i) (cs ! i)"
    using JArr.prems(2) b(1) by (auto simp: list_all_length split: json.splits)
  have "jsonDeepEqual (as ! i) (cs ! i)" if "i < length as" for i
    using JArr.IH [OF nth_mem [OF that] b(3) [OF that] c(3)] that b(2) by simp
  then show ?case using b(2) c(1,2) by (simp add: list_all_length)
next
  case (JObj as)
  obtain bs where b: "b = JObj bs" "sort (map fst as) = sort (map fst bs)"
    "\<And>k v. (k, v) \<in> set as \<Longrightarrow> \<exists>w. map_of bs k = Some w \<and> jsonDeepEqual v w"
    using JObj.prems(1) by (fastforce simp: list_all_iff split: json.splits option.splits)
  obtain cs where c: "c = JObj cs" "sort (map fst bs) = sort (map fst cs)"
    "\<And>k v. (k, v) \<in> set bs \<Longrightarrow> \<exists>w. map_of cs k = Some w \<and> jsonDeepEqual v w"
    using JObj.prems(2) b(1) by (fastforce simp: list_all_iff split: json.splits option.splits)
  have "\<exists>u. map_of cs k = Some u \<and> jsonDeepEqual v u" if kv: "(k, v) \<in> set as" for k v
  proof -
    obtain w where w: "map_of bs k = Some w" "jsonDeepEqual v w" using b(3) [OF kv] by blast
    obtain u where u: "map_of cs k = Some u" "jsonDeepEqual w u" using c(3) [OF map_of_SomeD [OF w(1)]] by blast
    from JObj.IH [OF kv _ w(2) u(2)] u(1) show ?thesis by simp
  qed
  then show ?case using b(2) c(2) by (fastforce simp: c(1) list_all_iff)
qed auto

lemma deep_sortDeep:
  assumes "plain_json v"
  shows "jsonDeepEqual (sortDeep v) v"
  using assms
proof (induction v)
  case (JArr vs)
  then show ?case by (auto simp: list_all_length)
next
  case (JObj m)
  obtain ms where ms: "sortDeep (JObj m) = JObj (js_object ms)" "mset ms = mset (map (\<lambda>(k, v). (k, sortDeep v)) m)"
    using sorted_members [OF JObj.prems] .
  have keys: "map fst (map (\<lambda>(k, v). (k, sortDeep v)) m) = map fst m" by auto
  have "mset (map fst (js_object ms)) = mset (map fst m)"
    using arg_cong [OF ms(2), of "image_mset fst"] keys by (metis mset_js_object mset_map)
  then have "sort (map fst (js_object ms)) = sort (map fst m)"
    by (metis sorted_list_of_multiset_mset)
  moreover have "\<exists>v. map_of m k = Some v \<and> jsonDeepEqual w v" if kw: "(k, w) \<in> set ms" for k w
  proof -
    obtain v where v: "(k, v) \<in> set m" "w = sortDeep v"
      using kw mset_eq_setD [OF ms(2)] by auto
    moreover have "map_of m k = Some v" using JObj.prems v(1) by simp
    moreover have "plain_json v" using JObj.prems v(1) by (auto simp: list_all_iff)
    ultimately show ?thesis using JObj.IH [OF v(1)] by simp
  qed
  ultimately show ?case unfolding ms(1) by (fastforce simp: list_all_iff)
qed auto

lemma deep_refl: "plain_json v \<Longrightarrow> jsonDeepEqual v v"
proof (induction v)
  case (JObj m)
  have "map_of m k = Some v" if "(k, v) \<in> set m" for k v using JObj.prems that by simp
  with JObj show ?case by (fastforce simp: list_all_iff)
qed (auto simp: list_all_length)

text \<open>
  The canonical text of a JSON value denotes that value: \<open>JSON.parse\<close> of \<open>canonicalJson v\<close>
  succeeds with a value \<open>jsonDeepEqual\<close> to \<open>v\<close>, for every value whose objects have distinct keys
  other than \<open>__proto__\<close> and whose numbers read back as they are written.
\<close>

theorem canonical_reads_equal:
  assumes "plain_json v" and "numbers_ok num rd v"
  shows "\<exists>w. json_parse rd (canonicalJson num v) = Some w \<and> jsonDeepEqual w v"
  using parse_stringify [OF sortDeep_wf [OF assms(1)] sortDeep_numbers [OF assms]] deep_sortDeep [OF assms(1)]
  by (simp add: canonicalJson_def)

theorem canonical_reads_equal_witness:
  "\<exists>w. json_parse (\<lambda>_. Some 7) (canonicalJson (\<lambda>_. ''7'') (JObj [(''b'', JArr [JNum 7, JNull]), (''10'', JStr [LF])])) = Some w \<and>
     jsonDeepEqual w (JObj [(''b'', JArr [JNum 7, JNull]), (''10'', JStr [LF])])"
  using canonical_reads_equal [of "JObj [(''b'', JArr [JNum 7, JNull]), (''10'', JStr [LF])]" "\<lambda>_. ''7''" "\<lambda>_. Some 7"]
  by (simp add: reads_back_def number_char_def)

end
