(* ===== verification/AuditChain.thy ===== *)
theory AuditChain
  imports JsonText "HOL-Library.Product_Lexorder"
begin

text \<open>
  The tamper-evident audit log: \<open>audit/audit-chain.util.ts\<close> (the hash of an entry and the check
  of one link), \<open>audit/audit-chain.service.ts\<close> (append, verification, backfill) and what
  \<open>retention-policy/retention-policy.service.ts\<close> does to the log. The state is the table of log
  rows. SHA-256, the rendering of numbers and the key order of a JSONB column are parameters
  (\<open>chain_env\<close>); the advisory lock makes each append and each backfill batch one step.

  What the chain promises is stated relative to SHA-256: two tables that verify with the same
  head hash have the same entries, or two texts they hash collide, or one hashes to the
  genesis value.
\<close>

section \<open>Hashing an entry\<close>

record chain_env =
  ch_sha256 :: "string \<Rightarrow> string"
  ch_num :: "rat \<Rightarrow> string"
  ch_rd :: "string \<Rightarrow> rat option"
  ch_jsonb :: "json \<Rightarrow> json"

record audit_row =
  ar_id :: ident
  ar_actorId :: string
  ar_entity :: string
  ar_entityId :: string
  ar_action :: string
  ar_timestamp :: time
  ar_metadata :: "json option"
  ar_deletedAt :: "time option"
  ar_sequence :: "int option"
  ar_prevHash :: "string option"
  ar_entryHash :: "string option"
  ar_metadataCanonical :: "string option"

definition GENESIS_PREV_HASH :: string where
  "GENESIS_PREV_HASH = replicate 64 (CHR ''0'')"

definition metadataHash :: "chain_env \<Rightarrow> string \<Rightarrow> string" where
  "metadataHash env metadataCanonical = ch_sha256 env metadataCanonical"

definition link_of :: "string option \<Rightarrow> string" where
  "link_of prevHash = (case prevHash of None \<Rightarrow> GENESIS_PREV_HASH | Some h \<Rightarrow> h)"

text \<open>The members of the payload, for a row with the sequence and previous hash given.\<close>

definition entry_payload :: "chain_env \<Rightarrow> audit_row \<Rightarrow> int \<Rightarrow> string option \<Rightarrow> string \<Rightarrow> string list" where
  "entry_payload env r sequence prevHash metadataCanonical =
     [''soter-audit-v1'', ar_id r, show_int sequence, link_of prevHash, ar_actorId r, ar_entity r,
      ar_entityId r, ar_action r, toISOString (ar_timestamp r), metadataHash env metadataCanonical]"

definition computeEntryHash :: "chain_env \<Rightarrow> audit_row \<Rightarrow> int \<Rightarrow> string option \<Rightarrow> string \<Rightarrow> string" where
  "computeEntryHash env r sequence prevHash metadataCanonical =
     ch_sha256 env (stringify_strings (entry_payload env r sequence prevHash metadataCanonical))"

definition seq_text :: "int option \<Rightarrow> string" where
  "seq_text q = (case q of None \<Rightarrow> ''null'' | Some n \<Rightarrow> show_int n)"

definition entry_name :: "audit_row \<Rightarrow> string" where
  "entry_name r = ''entry '' @ ar_id r @ '' (seq '' @ seq_text (ar_sequence r) @ '')''"

definition metadata_of :: "audit_row \<Rightarrow> json" where
  "metadata_of r = (case ar_metadata r of None \<Rightarrow> JNull | Some v \<Rightarrow> v)"

definition foldChainStep :: "chain_env \<Rightarrow> string option \<Rightarrow> audit_row \<Rightarrow> string + string \<times> string" where
  "foldChainStep env expectedPrevHash entry =
     (let metadataCanonical = canonicalMetadata (ch_num env) (metadata_of entry) (ar_metadataCanonical entry);
          entryHash = computeEntryHash env entry (case ar_sequence entry of None \<Rightarrow> 0 | Some q \<Rightarrow> q)
                        (ar_prevHash entry) metadataCanonical;
          recorded = link_of (ar_prevHash entry)
      in if expectedPrevHash \<noteq> None \<and> recorded \<noteq> the expectedPrevHash then
           Inl (''broken link: '' @ entry_name entry @ '' records prevHash '' @ recorded
             @ '', but the previous chain entry hashes to '' @ the expectedPrevHash)
         else if ar_entryHash entry \<noteq> None \<and> ar_entryHash entry \<noteq> Some entryHash then
           Inl (entry_name entry @ '' has an invalid entryHash: expected '' @ entryHash @ '', found ''
             @ the (ar_entryHash entry))
         else Inr (entryHash, metadataCanonical))"

section \<open>Appending\<close>

definition is_sealed :: "audit_row \<Rightarrow> bool" where
  "is_sealed r \<longleftrightarrow> ar_entryHash r \<noteq> None"

text \<open>The sealed rows by ascending sequence; a null sequence comes last.\<close>

definition sealed_asc :: "audit_row list \<Rightarrow> audit_row list" where
  "sealed_asc tbl =
     (let rows = filter is_sealed tbl
      in sort_key (\<lambda>r. the (ar_sequence r)) (filter (\<lambda>r. ar_sequence r \<noteq> None) rows)
         @ filter (\<lambda>r. ar_sequence r = None) rows)"

text \<open>\<open>findFirst\<close> by descending sequence.\<close>

definition chain_head :: "audit_row list \<Rightarrow> audit_row option" where
  "chain_head tbl = (if sealed_asc tbl = [] then None else Some (last (sealed_asc tbl)))"

definition head_sequence :: "audit_row list \<Rightarrow> int" where
  "head_sequence tbl = (case Option.bind (chain_head tbl) ar_sequence of None \<Rightarrow> 0 | Some q \<Rightarrow> q)"

definition head_hash :: "audit_row list \<Rightarrow> string" where
  "head_hash tbl = link_of (Option.bind (chain_head tbl) ar_entryHash)"

record append_result =
  ap_id :: ident
  ap_sequence :: string
  ap_prevHash :: string
  ap_entryHash :: string
  ap_metadataCanonical :: string

definition appendToChain ::
  "chain_env \<Rightarrow> time \<Rightarrow> ident \<Rightarrow> audit_params \<Rightarrow> audit_row list \<Rightarrow> append_result \<times> audit_row list" where
  "appendToChain env now newId params tbl =
     (let sequence = head_sequence tbl + 1;
          prevHash = head_hash tbl;
          metadata = json_of_meta (MObj (au_metadata params));
          metadataCanonical = canonicalMetadata (ch_num env) metadata None;
          created = \<lparr>ar_id = newId, ar_actorId = au_actorId params, ar_entity = au_entity params,
            ar_entityId = au_entityId params, ar_action = au_action params, ar_timestamp = now,
            ar_metadata = Some (ch_jsonb env metadata), ar_deletedAt = None, ar_sequence = Some sequence,
            ar_prevHash = Some prevHash, ar_entryHash = None, ar_metadataCanonical = Some metadataCanonical\<rparr>;
          entryHash = computeEntryHash env created sequence (Some prevHash) metadataCanonical
      in (\<lparr>ap_id = newId, ap_sequence = show_int sequence, ap_prevHash = prevHash,
           ap_entryHash = entryHash, ap_metadataCanonical = metadataCanonical\<rparr>,
          tbl @ [created\<lparr>ar_entryHash := Some entryHash\<rparr>]))"

section \<open>Verification\<close>

definition MAX_ISSUES :: nat where "MAX_ISSUES = 50"
definition VERIFY_PAGE_SIZE :: nat where "VERIFY_PAGE_SIZE = 1000"
definition BACKFILL_BATCH_SIZE :: nat where "BACKFILL_BATCH_SIZE = 500"

text \<open>Whether the visible metadata is the value its canonical text denotes.\<close>

definition metadata_matches :: "chain_env \<Rightarrow> audit_row \<Rightarrow> string \<Rightarrow> bool" where
  "metadata_matches env row canonical =
     (let recomputed = canonicalMetadata (ch_num env) (metadata_of row) None
      in case json_parse (ch_rd env) canonical of
           None \<Rightarrow> False
         | Some v \<Rightarrow>
             jsonDeepEqual v (metadata_of row) \<or>
             recomputed = canonical \<and>
               (case json_parse (ch_rd env) recomputed of
                  None \<Rightarrow> False | Some w \<Rightarrow> jsonDeepEqual w (metadata_of row)))"

definition foldSealedRow :: "chain_env \<Rightarrow> audit_row \<Rightarrow> string option \<Rightarrow> string + unit" where
  "foldSealedRow env row expectedPrevHash =
     (case ar_entryHash row of
        None \<Rightarrow> Inl (''entry '' @ ar_id row @ '' is missing its entryHash'')
      | Some stored \<Rightarrow>
          (case ar_metadataCanonical row of
             None \<Rightarrow> Inl (''entry '' @ ar_id row @ '' is missing its metadataCanonical'')
           | Some canonical \<Rightarrow>
               let entryHash = computeEntryHash env row (the (ar_sequence row)) (ar_prevHash row) canonical;
                   recorded = link_of (ar_prevHash row)
               in if entryHash \<noteq> stored then
                    Inl (entry_name row @ '' has an invalid entryHash: expected '' @ entryHash @ '', found '' @ stored)
                  else if expectedPrevHash \<noteq> None \<and> recorded \<noteq> the expectedPrevHash then
                    Inl (''broken link: '' @ entry_name row @ '' records prevHash '' @ recorded
                      @ '', but the previous chain entry hashes to '' @ the expectedPrevHash)
                  else if \<not> metadata_matches env row canonical then
                    Inl (entry_name row @ '' metadata does not match its recorded canonical form'')
                  else Inr ()))"

record chain_issue =
  is_id :: ident
  is_sequence :: "string option"
  is_reason :: string

record chain_walk_state =
  wk_issues :: "chain_issue list"
  wk_expected :: "string option"
  wk_sealed :: nat
  wk_skipped :: nat
  wk_headSequence :: "string option"
  wk_headHash :: "string option"
  wk_prevSeen :: "int option"

definition add_issue :: "audit_row \<Rightarrow> string \<Rightarrow> chain_walk_state \<Rightarrow> chain_walk_state" where
  "add_issue row reason w = w\<lparr>wk_issues := wk_issues w @
     [\<lparr>is_id = ar_id row, is_sequence = map_option show_int (ar_sequence row), is_reason = reason\<rparr>]\<rparr>"

definition move_head :: "audit_row \<Rightarrow> int \<Rightarrow> chain_walk_state \<Rightarrow> chain_walk_state" where
  "move_head row sequence w = w\<lparr>wk_expected := ar_entryHash row, wk_headSequence := Some (show_int sequence),
     wk_headHash := ar_entryHash row\<rparr>"

definition verify_row :: "chain_env \<Rightarrow> audit_row \<Rightarrow> chain_walk_state \<Rightarrow> chain_walk_state" where
  "verify_row env row w0 =
     (let w = w0\<lparr>wk_sealed := wk_sealed w0 + 1\<rparr>
      in case ar_sequence row of
           None \<Rightarrow> add_issue row (''sealed entry '' @ ar_id row
                      @ '' has no sequence and cannot be linked into the chain'') w
         | Some sequence \<Rightarrow>
             let w1 = (case wk_prevSeen w of
                   Some p \<Rightarrow> if sequence \<le> p then
                       add_issue row (''chain is not strictly increasing at seq '' @ show_int sequence
                         @ '': previous visited sequence was '' @ show_int p) w
                     else w
                 | None \<Rightarrow> w);
                 w2 = w1\<lparr>wk_prevSeen := Some sequence\<rparr>
             in if ar_deletedAt row \<noteq> None then move_head row sequence (w2\<lparr>wk_skipped := wk_skipped w2 + 1\<rparr>)
                else case foldSealedRow env row (wk_expected w2) of
                       Inl reason \<Rightarrow> move_head row sequence (add_issue row reason w2)
                     | Inr _ \<Rightarrow> move_head row sequence w2)"

fun verify_rows :: "chain_env \<Rightarrow> audit_row list \<Rightarrow> chain_walk_state \<Rightarrow> chain_walk_state" where
  "verify_rows env [] w = w"
| "verify_rows env (row # rows) w =
     (if MAX_ISSUES \<le> length (wk_issues w) then w else verify_rows env rows (verify_row env row w))"

text \<open>One page: \<open>findMany\<close> with the cursor on the unique sequence.\<close>

definition sealed_page :: "audit_row list \<Rightarrow> int option \<Rightarrow> audit_row list" where
  "sealed_page tbl lastSequence =
     take VERIFY_PAGE_SIZE
       (case lastSequence of
          None \<Rightarrow> sealed_asc tbl
        | Some q \<Rightarrow> drop 1 (dropWhile (\<lambda>r. ar_sequence r \<noteq> Some q) (sealed_asc tbl)))"

function verify_loop ::
  "chain_env \<Rightarrow> audit_row list \<Rightarrow> nat \<Rightarrow> int option \<Rightarrow> nat \<Rightarrow> chain_walk_state \<Rightarrow> chain_walk_state" where
  "verify_loop env tbl sealedTotal lastSequence processed w =
     (if processed < sealedTotal \<and> length (wk_issues w) < MAX_ISSUES \<and> sealed_page tbl lastSequence \<noteq> [] then
        verify_loop env tbl sealedTotal (ar_sequence (last (sealed_page tbl lastSequence)))
          (processed + length (sealed_page tbl lastSequence)) (verify_rows env (sealed_page tbl lastSequence) w)
      else w)"
  by pat_completeness auto
termination
  by (relation "measure (\<lambda>(env, tbl, sealedTotal, lastSequence, processed, w). sealedTotal - processed)")
    (auto intro: diff_less_mono2)

declare verify_loop.simps [simp del]

record chain_result =
  cr_valid :: bool
  cr_backfillPending :: bool
  cr_sealedCount :: nat
  cr_legacyCount :: nat
  cr_skippedAnonymized :: nat
  cr_issues :: "chain_issue list"
  cr_headSequence :: "string option"
  cr_headHash :: "string option"

definition walk_start :: chain_walk_state where
  "walk_start = \<lparr>wk_issues = [], wk_expected = Some GENESIS_PREV_HASH, wk_sealed = 0, wk_skipped = 0,
     wk_headSequence = None, wk_headHash = None, wk_prevSeen = None\<rparr>"

definition verifyChain :: "chain_env \<Rightarrow> string option \<Rightarrow> audit_row list \<Rightarrow> chain_result" where
  "verifyChain env expectedHeadHash tbl =
     (let sealedTotal = count_where is_sealed tbl;
          legacyCount = count_where (\<lambda>r. \<not> is_sealed r) tbl
      in if sealedTotal = 0 then
           \<lparr>cr_valid = True, cr_backfillPending = (0 < legacyCount), cr_sealedCount = 0,
            cr_legacyCount = legacyCount, cr_skippedAnonymized = 0, cr_issues = [],
            cr_headSequence = None, cr_headHash = None\<rparr>
         else
           let w = verify_loop env tbl sealedTotal None 0 walk_start;
               issues = (if truthy expectedHeadHash \<and> wk_headHash w \<noteq> None \<and> wk_headHash w \<noteq> expectedHeadHash then
                   wk_issues w @ [\<lparr>is_id = ''chain-head'', is_sequence = wk_headSequence w,
                     is_reason = ''chain head mismatch: current head hash '' @ the (wk_headHash w)
                       @ '' does not match the anchored head '' @ the expectedHeadHash
                       @ ''; newest entries may have been deleted''\<rparr>]
                 else wk_issues w)
           in \<lparr>cr_valid = (issues = []), cr_backfillPending = (0 < legacyCount), cr_sealedCount = wk_sealed w,
               cr_legacyCount = legacyCount, cr_skippedAnonymized = wk_skipped w, cr_issues = issues,
               cr_headSequence = wk_headSequence w, cr_headHash = wk_headHash w\<rparr>)"

section \<open>Backfill\<close>

definition unsealed_batch :: "audit_row list \<Rightarrow> audit_row list" where
  "unsealed_batch tbl = take BACKFILL_BATCH_SIZE
     (sort_key (\<lambda>r. (ar_timestamp r, ar_id r)) (filter (\<lambda>r. \<not> is_sealed r) tbl))"

definition seal_row :: "chain_env \<Rightarrow> int \<Rightarrow> string \<Rightarrow> audit_row \<Rightarrow> audit_row" where
  "seal_row env sequence prevHash row =
     (let metadataCanonical = (case ar_metadataCanonical row of
            None \<Rightarrow> canonicalMetadata (ch_num env) (metadata_of row) None | Some c \<Rightarrow> c)
      in row\<lparr>ar_sequence := Some sequence, ar_prevHash := Some prevHash,
           ar_entryHash := Some (computeEntryHash env row sequence (Some prevHash) metadataCanonical),
           ar_metadataCanonical := Some metadataCanonical\<rparr>)"

text \<open>The rows of one batch; an error rolls the whole batch back.\<close>

fun seal_rows ::
  "chain_env \<Rightarrow> audit_row list \<Rightarrow> int \<Rightarrow> string \<Rightarrow> audit_row list
   \<Rightarrow> app_error + (int \<times> string) \<times> audit_row list" where
  "seal_rows env [] sequence prevHash tbl = Inr ((sequence, prevHash), tbl)"
| "seal_rows env (row # rows) sequence prevHash tbl =
     (if ar_prevHash row \<noteq> None then
        Inl (PlainError (''legacy row '' @ ar_id row @ '' has prevHash set but no entryHash; refusing to backfill''))
      else
        let sealed = seal_row env (sequence + 1) prevHash row
        in seal_rows env rows (sequence + 1) (the (ar_entryHash sealed))
             (update_where (\<lambda>r. ar_id r = ar_id row) (\<lambda>_. sealed) tbl))"

definition seal_batch ::
  "chain_env \<Rightarrow> audit_row list \<Rightarrow> app_error + (nat \<times> (int \<times> string) option) \<times> audit_row list" where
  "seal_batch env tbl =
     (if unsealed_batch tbl = [] then Inr ((0, None), tbl)
      else case seal_rows env (unsealed_batch tbl) (head_sequence tbl) (head_hash tbl) tbl of
             Inl e \<Rightarrow> Inl e
           | Inr (h, tbl') \<Rightarrow> Inr ((length (unsealed_batch tbl), Some h), tbl'))"

definition unsealed_count :: "audit_row list \<Rightarrow> nat" where
  "unsealed_count tbl = count_where (\<lambda>r. \<not> is_sealed r) tbl"

lemma count_update_le:
  assumes "is_sealed s"
  shows "unsealed_count (update_where p (\<lambda>_. s) tbl) \<le> unsealed_count tbl"
  using assms by (induction tbl) (auto simp: unsealed_count_def count_where_def)

lemma count_update_less:
  assumes "is_sealed s" and "r \<in> set tbl" and "p r" and "\<not> is_sealed r"
  shows "unsealed_count (update_where p (\<lambda>_. s) tbl) < unsealed_count tbl"
  using assms(2)
proof (induction tbl)
  case (Cons x tbl)
  show ?case
  proof (cases "r = x")
    case True
    with assms(1,3,4) count_update_le [OF assms(1), of p tbl] show ?thesis
      by (simp add: unsealed_count_def count_where_def)
  next
    case False
    with Cons have "unsealed_count (update_where p (\<lambda>_. s) tbl) < unsealed_count tbl" by simp
    with assms(1) show ?thesis by (auto simp: unsealed_count_def count_where_def)
  qed
qed simp

lemma sealed_seal_row: "is_sealed (seal_row env q h row)"
  by (simp add: is_sealed_def seal_row_def Let_def)

lemma seal_rows_count:
  "seal_rows env rows q h tbl = Inr (head2, tbl') \<Longrightarrow> unsealed_count tbl' \<le> unsealed_count tbl"
proof (induction rows arbitrary: q h tbl)
  case (Cons row rows)
  let ?s = "seal_row env (q + 1) h row"
  have "unsealed_count tbl' \<le> unsealed_count (update_where (\<lambda>r. ar_id r = ar_id row) (\<lambda>_. ?s) tbl)"
    using Cons.prems by (intro Cons.IH) (simp add: Let_def split: if_splits)
  also have "\<dots> \<le> unsealed_count tbl" by (rule count_update_le [OF sealed_seal_row])
  finally show ?case .
qed simp

lemma set_unsealed_batch: "set (unsealed_batch tbl) \<subseteq> {r \<in> set tbl. \<not> is_sealed r}"
  unfolding unsealed_batch_def by (auto dest!: in_set_takeD)

lemma seal_batch_count:
  assumes "seal_batch env tbl = Inr ((n, h), tbl')" and "n \<noteq> 0"
  shows "unsealed_count tbl' < unsealed_count tbl"
proof -
  obtain row rows where b: "unsealed_batch tbl = row # rows"
    using assms by (cases "unsealed_batch tbl") (auto simp: seal_batch_def)
  then have row: "row \<in> set tbl" "\<not> is_sealed row" using set_unsealed_batch [of tbl] by auto
  let ?s = "seal_row env (head_sequence tbl + 1) (head_hash tbl) row"
  obtain h' where "seal_rows env (row # rows) (head_sequence tbl) (head_hash tbl) tbl = Inr (h', tbl')"
    using assms(1) b by (auto simp: seal_batch_def split: sum.splits)
  then have "seal_rows env rows (head_sequence tbl + 1) (the (ar_entryHash ?s))
      (update_where (\<lambda>r. ar_id r = ar_id row) (\<lambda>_. ?s) tbl) = Inr (h', tbl')"
    by (simp add: Let_def split: if_splits)
  from seal_rows_count [OF this]
  have "unsealed_count tbl' \<le> unsealed_count (update_where (\<lambda>r. ar_id r = ar_id row) (\<lambda>_. ?s) tbl)" .
  also have "\<dots> < unsealed_count tbl" by (rule count_update_less [OF sealed_seal_row row(1) _ row(2)]) simp
  finally show ?thesis .
qed

text \<open>The batches until one is not full: rows sealed, last head, and the error it ends with, if any.\<close>

function backfill_loop ::
  "chain_env \<Rightarrow> nat \<Rightarrow> (int \<times> string) option \<Rightarrow> audit_row list
   \<Rightarrow> (app_error + nat \<times> (int \<times> string) option) \<times> audit_row list" where
  "backfill_loop env sealed head1 tbl =
     (case seal_batch env tbl of
        Inl e \<Rightarrow> (Inl e, tbl)
      | Inr ((n, h), tbl') \<Rightarrow>
          let head2 = (if h = None then head1 else h)
          in if n < BACKFILL_BATCH_SIZE then (Inr (sealed + n, head2), tbl')
             else backfill_loop env (sealed + n) head2 tbl')"
  by pat_completeness auto
termination
proof (relation "measure (\<lambda>(env, sealed, head1, tbl). unsealed_count tbl)", goal_cases)
  case (2 env sealed head1 tbl p x y n h head2)
  then have "n \<noteq> 0" by (simp add: BACKFILL_BATCH_SIZE_def)
  with 2 seal_batch_count [of env tbl n h] show ?case by simp
qed simp

declare backfill_loop.simps [simp del]

record backfill_result =
  bf_sealed :: nat
  bf_remaining :: nat
  bf_headSequence :: "string option"
  bf_headHash :: "string option"

definition backfillChain :: "chain_env \<Rightarrow> audit_row list \<Rightarrow> (app_error + backfill_result) \<times> audit_row list" where
  "backfillChain env tbl =
     (let initialHead = chain_head tbl;
          head1 = (if truthy (Option.bind initialHead ar_entryHash)
                then Some (head_sequence tbl, head_hash tbl) else None)
      in case backfill_loop env 0 head1 tbl of
           (Inl e, tbl') \<Rightarrow> (Inl e, tbl')
         | (Inr (n, h), tbl') \<Rightarrow>
             (Inr \<lparr>bf_sealed = n, bf_remaining = count_where (\<lambda>r. \<not> is_sealed r) tbl',
                   bf_headSequence = map_option (\<lambda>x. show_int (fst x)) h, bf_headHash = map_option snd h\<rparr>, tbl'))"

section \<open>Retention\<close>

definition softDelete_audit :: "time \<Rightarrow> time \<Rightarrow> audit_row list \<Rightarrow> nat \<times> audit_row list" where
  "softDelete_audit now cutoffDate tbl =
     (let old = (\<lambda>r. ar_timestamp r < cutoffDate \<and> ar_deletedAt r = None)
      in (count_where old tbl, update_where old (ar_deletedAt_update (\<lambda>_. Some now)) tbl))"

definition ANONYMIZED :: string where "ANONYMIZED = ''[REDACTED]''"

definition anonymize_row :: "time \<Rightarrow> audit_row \<Rightarrow> audit_row" where
  "anonymize_row now r = r\<lparr>ar_actorId := ANONYMIZED, ar_entityId := ANONYMIZED,
     ar_metadata := Some (JObj []), ar_deletedAt := Some now\<rparr>"

definition anonymize_audit :: "time \<Rightarrow> time \<Rightarrow> audit_row list \<Rightarrow> nat \<times> audit_row list" where
  "anonymize_audit now cutoffDate tbl =
     (let old = (\<lambda>r. ar_timestamp r < cutoffDate \<and> ar_deletedAt r = None)
      in (count_where old tbl, update_where old (anonymize_row now) tbl))"

definition hardDelete_audit :: "time \<Rightarrow> audit_row list \<Rightarrow> nat \<times> audit_row list" where
  "hardDelete_audit cutoffDate tbl =
     (let old = (\<lambda>r. ar_timestamp r < cutoffDate)
      in (count_where old tbl, filter (\<lambda>r. \<not> old r) tbl))"

section \<open>What the verification accepts\<close>

text \<open>The rows link up from the hash \<open>e\<close> on, with sequences increasing from \<open>q\<close> on.\<close>

fun chain_ok :: "chain_env \<Rightarrow> string option \<Rightarrow> int option \<Rightarrow> audit_row list \<Rightarrow> bool" where
  "chain_ok env e q [] \<longleftrightarrow> True"
| "chain_ok env e q (r # rs) \<longleftrightarrow>
     (\<exists>n. ar_sequence r = Some n \<and> (case q of None \<Rightarrow> True | Some p \<Rightarrow> p < n)) \<and>
     (ar_deletedAt r = None \<longrightarrow> foldSealedRow env r e = Inr ()) \<and>
     chain_ok env (ar_entryHash r) (ar_sequence r) rs"

lemma verify_row_issues:
  "wk_issues (verify_row env r w) = wk_issues w \<longleftrightarrow>
     (\<exists>n. ar_sequence r = Some n \<and> (case wk_prevSeen w of None \<Rightarrow> True | Some p \<Rightarrow> p < n)) \<and>
     (ar_deletedAt r = None \<longrightarrow> foldSealedRow env r (wk_expected w) = Inr ())"
  by (auto simp: verify_row_def Let_def add_issue_def move_head_def split: option.split sum.split)

lemma verify_row_grows: "\<exists>new. wk_issues (verify_row env r w) = wk_issues w @ new"
  by (auto simp: verify_row_def Let_def add_issue_def move_head_def split: option.split sum.split)

lemma verify_row_state:
  assumes "ar_sequence r = Some n"
  shows "wk_expected (verify_row env r w) = ar_entryHash r" and "wk_prevSeen (verify_row env r w) = Some n"
    and "wk_headHash (verify_row env r w) = ar_entryHash r"
  using assms by (auto simp: verify_row_def Let_def add_issue_def move_head_def split: option.split sum.split)

lemma verify_rows_grows: "\<exists>new. wk_issues (verify_rows env rs w) = wk_issues w @ new"
proof (induction rs arbitrary: w)
  case (Cons r rs)
  show ?case using Cons.IH [of "verify_row env r w"] verify_row_grows [of env r w] by auto
qed simp

lemma verify_rows_clean:
  assumes "wk_issues w = []"
  shows "wk_issues (verify_rows env rs w) = [] \<longleftrightarrow> chain_ok env (wk_expected w) (wk_prevSeen w) rs"
  using assms
proof (induction rs arbitrary: w)
  case (Cons r rs)
  let ?w = "verify_row env r w"
  have step: "verify_rows env (r # rs) w = verify_rows env rs ?w"
    using Cons.prems by (simp add: MAX_ISSUES_def)
  show ?case
  proof (cases "wk_issues ?w = []")
    case True
    then obtain n where n: "ar_sequence r = Some n" "case wk_prevSeen w of None \<Rightarrow> True | Some p \<Rightarrow> p < n"
      "ar_deletedAt r = None \<longrightarrow> foldSealedRow env r (wk_expected w) = Inr ()"
      using verify_row_issues [of env r w] Cons.prems by auto
    show ?thesis unfolding step using Cons.IH [OF True] n verify_row_state [OF n(1), of env w] by simp
  next
    case False
    moreover obtain new where "wk_issues (verify_rows env rs ?w) = wk_issues ?w @ new"
      using verify_rows_grows by blast
    moreover have "\<not> chain_ok env (wk_expected w) (wk_prevSeen w) (r # rs)"
      using False verify_row_issues [of env r w] Cons.prems by auto
    ultimately show ?thesis unfolding step by simp
  qed
qed simp

lemma verify_rows_append:
  "verify_rows env (xs @ ys) w = verify_rows env ys (verify_rows env xs w)"
proof (induction xs arbitrary: w)
  case (Cons x xs)
  show ?case
  proof (cases "MAX_ISSUES \<le> length (wk_issues w)")
    case True
    then show ?thesis by (cases ys) simp_all
  qed (simp add: Cons.IH)
qed simp

lemma chain_ok_append:
  "chain_ok env e q (xs @ ys) \<longleftrightarrow> chain_ok env e q xs \<and>
     chain_ok env (if xs = [] then e else ar_entryHash (last xs)) (if xs = [] then q else ar_sequence (last xs)) ys"
  by (induction xs arbitrary: e q) auto

lemma chain_ok_sequences: "chain_ok env e q rs \<Longrightarrow> r \<in> set rs \<Longrightarrow> ar_sequence r \<noteq> None"
  by (induction rs arbitrary: e q) auto

lemma verify_rows_state:
  assumes "chain_ok env (wk_expected w) (wk_prevSeen w) rs" and "wk_issues w = []" and "rs \<noteq> []"
  shows "wk_expected (verify_rows env rs w) = ar_entryHash (last rs)"
    and "wk_prevSeen (verify_rows env rs w) = ar_sequence (last rs)"
    and "wk_headHash (verify_rows env rs w) = ar_entryHash (last rs)"
proof -
  have clean: "wk_issues (verify_rows env (butlast rs) w) = []"
    using assms verify_rows_clean [OF assms(2), of env "butlast rs"] chain_ok_append [of _ _ _ "butlast rs" "[last rs]"]
    by simp
  obtain n where "ar_sequence (last rs) = Some n"
    using chain_ok_sequences [OF assms(1) last_in_set [OF assms(3)]] by auto
  moreover have "verify_rows env rs w = verify_row env (last rs) (verify_rows env (butlast rs) w)"
    using verify_rows_append [of env "butlast rs" "[last rs]" w] assms(3) clean by (simp add: MAX_ISSUES_def)
  ultimately show "wk_expected (verify_rows env rs w) = ar_entryHash (last rs)"
    "wk_prevSeen (verify_rows env rs w) = ar_sequence (last rs)"
    "wk_headHash (verify_rows env rs w) = ar_entryHash (last rs)"
    by (simp_all add: verify_row_state)
qed

lemma verify_loop_grows: "\<exists>new. wk_issues (verify_loop env tbl n l k w) = wk_issues w @ new"
proof (induction env tbl n l k w rule: verify_loop.induct)
  case (1 env tbl n l k w)
  obtain new1 where "wk_issues (verify_rows env (sealed_page tbl l) w) = wk_issues w @ new1"
    using verify_rows_grows by blast
  with 1 show ?case by (subst verify_loop.simps) auto
qed

lemma verify_loop_done: "\<not> processed < n \<Longrightarrow> verify_loop env tbl n l processed w = w"
  by (simp add: verify_loop.simps)

text \<open>The unique index on \<open>sequence\<close>: two sealed rows with a sequence have different ones.\<close>

definition unique_sequences :: "audit_row list \<Rightarrow> bool" where
  "unique_sequences tbl \<longleftrightarrow> distinct (map ar_sequence (filter (\<lambda>r. ar_sequence r \<noteq> None) (filter is_sealed tbl)))"

lemma mset_sealed_asc: "mset (sealed_asc tbl) = mset (filter is_sealed tbl)"
  by (induction tbl) (auto simp: sealed_asc_def Let_def)

lemma length_sealed_asc: "length (sealed_asc tbl) = count_where is_sealed tbl"
  using mset_eq_length [OF mset_sealed_asc [of tbl]] by (simp add: count_where_def)

lemma set_sealed_asc: "set (sealed_asc tbl) = {r \<in> set tbl. is_sealed r}"
  using arg_cong [OF mset_sealed_asc [of tbl], of set_mset] by simp

lemma earlier_sequence:
  assumes "unique_sequences tbl" and "i < j" and "j < length (sealed_asc tbl)"
    and "ar_sequence (sealed_asc tbl ! j) = Some q"
  shows "ar_sequence (sealed_asc tbl ! i) \<noteq> Some q"
proof -
  define S where "S = sort_key (\<lambda>r. the (ar_sequence r)) (filter (\<lambda>r. ar_sequence r \<noteq> None) (filter is_sealed tbl))"
  define N where "N = filter (\<lambda>r. ar_sequence r = None) (filter is_sealed tbl)"
  have asc: "sealed_asc tbl = S @ N" by (simp add: sealed_asc_def Let_def S_def N_def)
  have "mset (map ar_sequence S) = mset (map ar_sequence (filter (\<lambda>r. ar_sequence r \<noteq> None) (filter is_sealed tbl)))"
    unfolding S_def mset_map mset_sort ..
  then have d: "distinct (map ar_sequence S)"
    using assms(1) unfolding unique_sequences_def by (metis mset_eq_imp_distinct_iff)
  have "j < length S"
  proof (rule ccontr)
    assume "\<not> j < length S"
    then have "sealed_asc tbl ! j \<in> set N" using assms(3) by (simp add: asc nth_append)
    then show False using assms(4) by (simp add: N_def)
  qed
  with d assms(2,4) show ?thesis by (auto simp: asc nth_append nth_eq_iff_index_eq distinct_map inj_on_def)
    (metis d length_map less_irrefl less_trans nth_eq_iff_index_eq nth_map)
qed

lemma sealed_page_at:
  assumes "unique_sequences tbl" and "k \<le> length (sealed_asc tbl)"
    and "0 < k \<Longrightarrow> ar_sequence (sealed_asc tbl ! (k - 1)) \<noteq> None"
  shows "sealed_page tbl (if k = 0 then None else ar_sequence (sealed_asc tbl ! (k - 1))) =
    take VERIFY_PAGE_SIZE (drop k (sealed_asc tbl))"
proof (cases k)
  case (Suc j)
  then obtain q where q: "ar_sequence (sealed_asc tbl ! j) = Some q" using assms(3) by auto
  have "takeWhile (\<lambda>r. ar_sequence r \<noteq> Some q) (sealed_asc tbl) = take j (sealed_asc tbl)"
  proof (rule takeWhile_eq_take_P_nth)
    fix i assume "i < j" "i < length (sealed_asc tbl)"
    with earlier_sequence [OF assms(1) _ _ q] assms(2) Suc show "ar_sequence (sealed_asc tbl ! i) \<noteq> Some q" by simp
  qed (simp add: q)
  then show ?thesis using assms(2) by (simp add: sealed_page_def Suc q dropWhile_eq_drop)
qed (simp add: sealed_page_def)

lemma drop_page: "drop k xs = take n (drop k xs) @ drop (k + length (take n (drop k xs))) xs"
proof (cases "n \<le> length xs - k")
  case True
  then have "drop (k + length (take n (drop k xs))) xs = drop n (drop k xs)" by (simp add: add.commute)
  then show ?thesis by (simp only: append_take_drop_id)
qed simp

lemma verify_loop_clean:
  assumes "unique_sequences tbl" and "k \<le> length (sealed_asc tbl)"
    and "0 < k \<Longrightarrow> ar_sequence (sealed_asc tbl ! (k - 1)) \<noteq> None"
    and "wk_issues w = []"
  shows "let loop = verify_loop env tbl (length (sealed_asc tbl))
        (if k = 0 then None else ar_sequence (sealed_asc tbl ! (k - 1))) k w;
      ok = chain_ok env (wk_expected w) (wk_prevSeen w) (drop k (sealed_asc tbl))
    in (wk_issues loop = [] \<longleftrightarrow> ok) \<and> (ok \<longrightarrow> loop = verify_rows env (drop k (sealed_asc tbl)) w)"
  using assms(2-)
proof (induction "length (sealed_asc tbl) - k" arbitrary: k w rule: less_induct)
  case less
  let ?A = "sealed_asc tbl"
  let ?l = "if k = 0 then None else ar_sequence (?A ! (k - 1))"
  let ?P = "take VERIFY_PAGE_SIZE (drop k ?A)"
  have page: "sealed_page tbl ?l = ?P"
    by (rule sealed_page_at [OF assms(1) less.prems(1,2)])
  show ?case
  proof (cases "k = length ?A")
    case True
    then show ?thesis using less.prems(3) by (simp add: verify_loop_done Let_def)
  next
    case False
    with less.prems(1) have k: "k < length ?A" by simp
    then have P: "?P \<noteq> []" by (simp add: VERIFY_PAGE_SIZE_def)
    define k' where "k' = k + length ?P"
    define w' where "w' = verify_rows env ?P w"
    have k': "k < k'" "k' \<le> length ?A" using P k by (auto simp: k'_def)
    have rest: "drop k ?A = ?P @ drop k' ?A"
      unfolding k'_def by (rule drop_page)
    have lastP: "?A ! (k' - 1) = last ?P"
      using P k by (simp add: last_conv_nth k'_def min_def)
    have loop: "verify_loop env tbl (length ?A) ?l k w = verify_loop env tbl (length ?A) (ar_sequence (last ?P)) k' w'"
      using k P less.prems(3) page
      by (subst verify_loop.simps) (simp add: k'_def w'_def MAX_ISSUES_def del: length_take)
    show ?thesis
    proof (cases "chain_ok env (wk_expected w) (wk_prevSeen w) ?P")
      case True
      then have clean: "wk_issues w' = []" using verify_rows_clean [OF less.prems(3)] by (simp add: w'_def)
      have "ar_sequence (last ?P) \<noteq> None" using chain_ok_sequences [OF True] P by (meson last_in_set)
      with less.hyps [of k' w'] k' clean lastP have ih: "let lp = verify_loop env tbl (length ?A) (ar_sequence (last ?P)) k' w';
          ok = chain_ok env (wk_expected w') (wk_prevSeen w') (drop k' ?A)
        in (wk_issues lp = [] \<longleftrightarrow> ok) \<and> (ok \<longrightarrow> lp = verify_rows env (drop k' ?A) w')"
        by (simp add: diff_less_mono2)
      have "chain_ok env (wk_expected w) (wk_prevSeen w) (drop k ?A) \<longleftrightarrow>
          chain_ok env (wk_expected w') (wk_prevSeen w') (drop k' ?A)"
        using True P verify_rows_state [OF True less.prems(3) P]
        by (subst rest) (simp only: chain_ok_append w'_def if_False simp_thms)
      moreover have "verify_rows env (drop k ?A) w = verify_rows env (drop k' ?A) w'"
        by (subst rest) (simp only: verify_rows_append w'_def)
      ultimately show ?thesis using ih unfolding loop by (simp add: Let_def)
    next
      case False
      then have "wk_issues w' \<noteq> []" using verify_rows_clean [OF less.prems(3)] by (simp add: w'_def)
      moreover obtain new where "wk_issues (verify_loop env tbl (length ?A) (ar_sequence (last ?P)) k' w') = wk_issues w' @ new"
        using verify_loop_grows by blast
      moreover have "\<not> chain_ok env (wk_expected w) (wk_prevSeen w) (drop k ?A)"
        using False by (subst rest) (simp only: chain_ok_append simp_thms)
      ultimately show ?thesis unfolding loop by (simp add: Let_def)
    qed
  qed
qed

text \<open>The verification of a table, said without pages, counters and limits.\<close>

lemma verifyChain_iff:
  assumes "unique_sequences tbl"
  shows "cr_valid (verifyChain env anchor tbl) \<longleftrightarrow> sealed_asc tbl = [] \<or>
     chain_ok env (Some GENESIS_PREV_HASH) None (sealed_asc tbl) \<and>
     (truthy anchor \<longrightarrow> ar_entryHash (last (sealed_asc tbl)) = anchor)"
    and "cr_valid (verifyChain env anchor tbl) \<Longrightarrow> sealed_asc tbl \<noteq> [] \<Longrightarrow>
     cr_headHash (verifyChain env anchor tbl) = ar_entryHash (last (sealed_asc tbl))"
proof -
  let ?A = "sealed_asc tbl"
  let ?loop = "verify_loop env tbl (length ?A) None 0 walk_start"
  have "(wk_issues ?loop = [] \<longleftrightarrow> chain_ok env (Some GENESIS_PREV_HASH) None ?A) \<and>
      (chain_ok env (Some GENESIS_PREV_HASH) None ?A \<longrightarrow> ?loop = verify_rows env ?A walk_start)"
    using verify_loop_clean [OF assms, of 0 walk_start env] by (simp add: walk_start_def Let_def)
  moreover have "wk_headHash (verify_rows env ?A walk_start) = ar_entryHash (last ?A)"
    if "chain_ok env (Some GENESIS_PREV_HASH) None ?A" "?A \<noteq> []"
    using verify_rows_state(3) [of env walk_start ?A] that by (simp add: walk_start_def)
  moreover have "ar_entryHash (last ?A) \<noteq> None" if "?A \<noteq> []"
    using last_in_set [OF that] by (simp add: set_sealed_asc is_sealed_def)
  ultimately have *: "cr_valid (verifyChain env anchor tbl) \<longleftrightarrow> ?A = [] \<or>
     chain_ok env (Some GENESIS_PREV_HASH) None ?A \<and> (truthy anchor \<longrightarrow> ar_entryHash (last ?A) = anchor)"
    and "chain_ok env (Some GENESIS_PREV_HASH) None ?A \<and> ?A \<noteq> [] \<longrightarrow>
      cr_headHash (verifyChain env anchor tbl) = ar_entryHash (last ?A)"
    by (auto simp: verifyChain_def Let_def length_sealed_asc [symmetric])
  then show "cr_valid (verifyChain env anchor tbl) \<Longrightarrow> ?A \<noteq> [] \<Longrightarrow>
     cr_headHash (verifyChain env anchor tbl) = ar_entryHash (last ?A)" by blast
  show "cr_valid (verifyChain env anchor tbl) \<longleftrightarrow> ?A = [] \<or>
     chain_ok env (Some GENESIS_PREV_HASH) None ?A \<and> (truthy anchor \<longrightarrow> ar_entryHash (last ?A) = anchor)"
    by (rule *)
qed

end
