(* ===== verification/AuditIntegrity.thy ===== *)
theory AuditIntegrity
  imports AuditChain
begin

text \<open>
  What the hash chain of theory \<open>AuditChain\<close> guarantees. The steps are the operations the
  backend performs on the log: appends, backfills, and the soft deletion and anonymisation of
  old rows. Along every run the table verifies and its chain only grows (a \<open>mono_system\<close>); a
  table that verifies against an anchored head has the anchored entries, up to collisions.
\<close>

section \<open>The invariant\<close>

definition meta_ok :: "chain_env \<Rightarrow> json \<Rightarrow> bool" where
  "meta_ok env v \<longleftrightarrow> plain_json v \<and> numbers_ok (ch_num env) (ch_rd env) v"

text \<open>A JSONB column gives back an equal value, whatever the order of its keys.\<close>

definition faithful_jsonb :: "chain_env \<Rightarrow> bool" where
  "faithful_jsonb env \<longleftrightarrow> (\<forall>v. plain_json v \<longrightarrow> jsonDeepEqual v (ch_jsonb env v))"

text \<open>A row written before the chain existed.\<close>

definition legacy_ok :: "chain_env \<Rightarrow> audit_row \<Rightarrow> bool" where
  "legacy_ok env r \<longleftrightarrow> ar_prevHash r = None \<and> ar_entryHash r = None \<and> ar_sequence r = None \<and>
     ar_metadataCanonical r = None \<and> meta_ok env (metadata_of r) \<and> (\<forall>s. metadata_of r \<noteq> JStr s)"

definition chain_inv :: "chain_env \<Rightarrow> audit_row list \<Rightarrow> bool" where
  "chain_inv env tbl \<longleftrightarrow> distinct (map ar_id tbl) \<and>
     (\<forall>r \<in> set tbl. \<not> is_sealed r \<longrightarrow> legacy_ok env r) \<and>
     chain_ok env (Some GENESIS_PREV_HASH) None (sealed_asc tbl)"

lemma chain_ok_increasing:
  assumes "chain_ok env e q rs"
  shows "sorted_wrt (<) (map (\<lambda>r. the (ar_sequence r)) rs)"
    and "q = Some p \<Longrightarrow> r \<in> set rs \<Longrightarrow> p < the (ar_sequence r)"
proof -
  have "sorted_wrt (<) (map (\<lambda>r. the (ar_sequence r)) rs) \<and>
      (\<forall>p r. q = Some p \<longrightarrow> r \<in> set rs \<longrightarrow> p < the (ar_sequence r))"
    using assms by (induction rs arbitrary: e q) (fastforce split: option.splits)+
  then show "sorted_wrt (<) (map (\<lambda>r. the (ar_sequence r)) rs)"
    and "q = Some p \<Longrightarrow> r \<in> set rs \<Longrightarrow> p < the (ar_sequence r)" by blast+
qed

lemma chain_ok_inj:
  assumes "chain_ok env e q rs"
  shows "inj_on (\<lambda>r. the (ar_sequence r)) (set rs)" and "distinct rs"
proof -
  have "distinct (map (\<lambda>r. the (ar_sequence r)) rs)"
    using chain_ok_increasing(1) [OF assms] by (simp add: strict_sorted_iff)
  then show "inj_on (\<lambda>r. the (ar_sequence r)) (set rs)" and "distinct rs" by (simp_all add: distinct_map)
qed

lemma chain_ok_unique:
  assumes "chain_ok env e q (sealed_asc tbl)"
  shows "unique_sequences tbl"
proof -
  have seqs: "ar_sequence r \<noteq> None" if "r \<in> set (sealed_asc tbl)" for r
    by (rule chain_ok_sequences [OF assms that])
  then have "filter (\<lambda>r. ar_sequence r \<noteq> None) (filter is_sealed tbl) = filter is_sealed tbl"
    by (intro filter_True) (simp add: set_sealed_asc)
  moreover have "distinct (map ar_sequence (sealed_asc tbl))"
    using chain_ok_inj [OF assms] seqs by (auto simp: distinct_map inj_on_def)
  then have "distinct (map ar_sequence (filter is_sealed tbl))"
    by (metis mset_eq_imp_distinct_iff mset_map mset_sealed_asc)
  ultimately show ?thesis by (simp add: unique_sequences_def)
qed

lemma inv_verifies:
  assumes "chain_inv env tbl"
  shows "cr_valid (verifyChain env None tbl)"
  using assms verifyChain_iff(1) [OF chain_ok_unique, of env _ _ tbl]
  by (auto simp: chain_inv_def truthy_def)

section \<open>Sealing one more row\<close>

lemma head_values:
  assumes "chain_ok env e q (sealed_asc tbl)"
  shows "sealed_asc tbl = [] \<Longrightarrow> head_sequence tbl = 0 \<and> head_hash tbl = GENESIS_PREV_HASH"
    and "sealed_asc tbl \<noteq> [] \<Longrightarrow> ar_sequence (last (sealed_asc tbl)) = Some (head_sequence tbl) \<and>
      ar_entryHash (last (sealed_asc tbl)) = Some (head_hash tbl)"
proof -
  show "sealed_asc tbl \<noteq> [] \<Longrightarrow> ar_sequence (last (sealed_asc tbl)) = Some (head_sequence tbl) \<and>
      ar_entryHash (last (sealed_asc tbl)) = Some (head_hash tbl)"
    using last_in_set [of "sealed_asc tbl"] chain_ok_sequences [OF assms, of "last (sealed_asc tbl)"]
      set_sealed_asc [of tbl]
    by (auto simp: head_sequence_def head_hash_def chain_head_def link_of_def is_sealed_def)
qed (simp add: head_sequence_def head_hash_def chain_head_def link_of_def)

lemma seal_extends:
  assumes ok: "chain_ok env (Some GENESIS_PREV_HASH) None (sealed_asc tbl)"
    and new: "mset (filter is_sealed tbl') = add_mset r (mset (filter is_sealed tbl))"
    and r: "ar_sequence r = Some (head_sequence tbl + 1)" "is_sealed r"
    and fold: "foldSealedRow env r (Some (head_hash tbl)) = Inr ()"
  shows "sealed_asc tbl' = sealed_asc tbl @ [r]"
    and "chain_ok env (Some GENESIS_PREV_HASH) None (sealed_asc tbl')"
    and "head_sequence tbl' = head_sequence tbl + 1" and "Some (head_hash tbl') = ar_entryHash r"
proof -
  have chain: "chain_ok env (Some GENESIS_PREV_HASH) None (sealed_asc tbl @ [r])"
    using ok r fold head_values [OF ok] by (cases "sealed_asc tbl = []") (auto simp: chain_ok_append)
  have "set (filter is_sealed tbl') = set (sealed_asc tbl @ [r])"
    using arg_cong [OF new, of set_mset] set_sealed_asc [of tbl] by simp
  then have all: "filter (\<lambda>r. ar_sequence r \<noteq> None) (filter is_sealed tbl') = filter is_sealed tbl'"
    "filter (\<lambda>r. ar_sequence r = None) (filter is_sealed tbl') = []"
    using chain_ok_sequences [OF chain] by (auto simp: filter_empty_conv intro!: filter_cong)
  have "sort_key (\<lambda>r. the (ar_sequence r)) (filter is_sealed tbl') = sealed_asc tbl @ [r]"
  proof (rule sort_key_inj_key_eq)
    show "mset (filter is_sealed tbl') = mset (sealed_asc tbl @ [r])" using new by (simp add: mset_sealed_asc)
    show "inj_on (\<lambda>r. the (ar_sequence r)) (set (filter is_sealed tbl'))"
      using chain_ok_inj(1) [OF chain] \<open>set (filter is_sealed tbl') = _\<close> by simp
    show "sorted (map (\<lambda>r. the (ar_sequence r)) (sealed_asc tbl @ [r]))"
      using chain_ok_increasing(1) [OF chain] by (rule strict_sorted_imp_sorted)
  qed
  with all show asc: "sealed_asc tbl' = sealed_asc tbl @ [r]" by (simp add: sealed_asc_def [of tbl'] Let_def)
  with chain show ok': "chain_ok env (Some GENESIS_PREV_HASH) None (sealed_asc tbl')" by simp
  show "head_sequence tbl' = head_sequence tbl + 1" "Some (head_hash tbl') = ar_entryHash r"
    using head_values(2) [OF ok'] r by (simp_all add: asc)
qed

lemma payload_update:
  "computeEntryHash env (r\<lparr>ar_sequence := a, ar_prevHash := b, ar_entryHash := c, ar_metadataCanonical := d\<rparr>) =
     computeEntryHash env r"
  "computeEntryHash env (r\<lparr>ar_entryHash := c\<rparr>) = computeEntryHash env r"
  by (simp_all add: computeEntryHash_def entry_payload_def fun_eq_iff)

lemma canonical_matches:
  assumes "meta_ok env v" and "\<And>s. v \<noteq> JStr s" and "jsonDeepEqual v (metadata_of r)"
  shows "metadata_matches env r (canonicalMetadata (ch_num env) v None)"
proof -
  have "canonicalMetadata (ch_num env) v None = canonicalJson (ch_num env) v"
    using assms(2) by (simp add: canonicalMetadata_def split: json.split)
  moreover have "json_parse (ch_rd env) (canonicalJson (ch_num env) v) = Some (sortDeep v)"
    using assms(1) unfolding canonicalJson_def meta_ok_def
    by (intro parse_stringify sortDeep_wf sortDeep_numbers) simp_all
  moreover have "jsonDeepEqual (sortDeep v) (metadata_of r)"
    using deep_sortDeep assms(1,3) unfolding meta_ok_def by (blast intro: deep_trans)
  ultimately show ?thesis by (simp add: metadata_matches_def Let_def)
qed

lemma append_links:
  assumes "faithful_jsonb env" and "meta_ok env (json_of_meta (MObj (au_metadata p)))"
  shows "\<exists>r. snd (appendToChain env now newId p tbl) = tbl @ [r] \<and> ar_id r = newId \<and> is_sealed r \<and>
    ar_sequence r = Some (head_sequence tbl + 1) \<and> foldSealedRow env r (Some (head_hash tbl)) = Inr () \<and>
    ar_entryHash r = Some (ap_entryHash (fst (appendToChain env now newId p tbl)))"
proof -
  have "jsonDeepEqual (json_of_meta (MObj (au_metadata p))) (ch_jsonb env (json_of_meta (MObj (au_metadata p))))"
    using assms unfolding faithful_jsonb_def meta_ok_def by blast
  moreover have "json_of_meta (MObj (au_metadata p)) \<noteq> JStr s" for s by simp
  ultimately show ?thesis
    using canonical_matches [OF assms(2)]
    by (simp add: appendToChain_def Let_def is_sealed_def foldSealedRow_def computeEntryHash_def entry_payload_def
        link_of_def metadata_of_def del: json_of_meta.simps)
qed

lemma seal_row_links:
  assumes "legacy_ok env row"
  shows "foldSealedRow env (seal_row env q h row) (Some h) = Inr ()" and "is_sealed (seal_row env q h row)"
    and "ar_sequence (seal_row env q h row) = Some q" and "ar_id (seal_row env q h row) = ar_id row"
proof -
  have m: "metadata_of (seal_row env q h row) = metadata_of row" by (simp add: seal_row_def Let_def metadata_of_def)
  have "jsonDeepEqual (metadata_of row) (metadata_of (seal_row env q h row))"
    unfolding m using assms by (intro deep_refl) (simp add: legacy_ok_def meta_ok_def)
  with canonical_matches [of env "metadata_of row" "seal_row env q h row"] assms
  have "metadata_matches env (seal_row env q h row) (canonicalMetadata (ch_num env) (metadata_of row) None)"
    by (simp add: legacy_ok_def)
  with assms show "foldSealedRow env (seal_row env q h row) (Some h) = Inr ()"
    by (simp add: seal_row_def Let_def foldSealedRow_def payload_update link_of_def legacy_ok_def)
qed (simp_all add: seal_row_def Let_def is_sealed_def)

section \<open>Every operation keeps the invariant\<close>

lemma append_inv:
  assumes "chain_inv env tbl" and "newId \<notin> ar_id ` set tbl" and "faithful_jsonb env"
    and "meta_ok env (json_of_meta (MObj (au_metadata p)))"
  shows "chain_inv env (snd (appendToChain env now newId p tbl))"
    and "sealed_asc (snd (appendToChain env now newId p tbl)) \<noteq> []"
    and "ar_entryHash (last (sealed_asc (snd (appendToChain env now newId p tbl)))) =
      Some (ap_entryHash (fst (appendToChain env now newId p tbl)))"
    and "\<exists>r. sealed_asc (snd (appendToChain env now newId p tbl)) = sealed_asc tbl @ [r]"
proof -
  obtain r where r: "snd (appendToChain env now newId p tbl) = tbl @ [r]" "ar_id r = newId" "is_sealed r"
    "ar_sequence r = Some (head_sequence tbl + 1)" "foldSealedRow env r (Some (head_hash tbl)) = Inr ()"
    "ar_entryHash r = Some (ap_entryHash (fst (appendToChain env now newId p tbl)))"
    using append_links [OF assms(3,4)] by blast
  have ok: "chain_ok env (Some GENESIS_PREV_HASH) None (sealed_asc tbl)" using assms(1) by (simp add: chain_inv_def)
  have "mset (filter is_sealed (tbl @ [r])) = add_mset r (mset (filter is_sealed tbl))" using r(3) by simp
  note ext = seal_extends [OF ok this r(4,3,5)]
  show "chain_inv env (snd (appendToChain env now newId p tbl))"
    using assms(1,2) ext(2) r by (auto simp: chain_inv_def)
  show "sealed_asc (snd (appendToChain env now newId p tbl)) \<noteq> []"
    "ar_entryHash (last (sealed_asc (snd (appendToChain env now newId p tbl)))) =
      Some (ap_entryHash (fst (appendToChain env now newId p tbl)))"
    "\<exists>r. sealed_asc (snd (appendToChain env now newId p tbl)) = sealed_asc tbl @ [r]"
    using ext(1) r(1,6) by simp_all
qed

lemma update_id_list:
  assumes "distinct (map ar_id tbl)" and "row \<in> set tbl"
  obtains xs ys where "tbl = xs @ row # ys"
    "update_where (\<lambda>r. ar_id r = ar_id row) (\<lambda>_. s) tbl = xs @ s # ys"
    "ar_id row \<notin> ar_id ` set (xs @ ys)"
proof -
  obtain xs ys where tbl: "tbl = xs @ row # ys" using assms(2) by (meson split_list)
  with assms(1) have new: "ar_id row \<notin> ar_id ` set (xs @ ys)" by auto
  have "update_where (\<lambda>r. ar_id r = ar_id row) (\<lambda>_. s) zs = zs" if "set zs \<subseteq> set (xs @ ys)" for zs
    by (rule update_where_ident) (metis new imageI subsetD that)
  then have "update_where (\<lambda>r. ar_id r = ar_id row) (\<lambda>_. s) tbl = xs @ s # ys" by (simp add: tbl)
  with tbl new that show ?thesis by blast
qed

lemma seal_one:
  assumes inv: "chain_inv env tbl" and row: "row \<in> set tbl" "\<not> is_sealed row"
  defines "s \<equiv> seal_row env (head_sequence tbl + 1) (head_hash tbl) row"
  defines "tbl' \<equiv> update_where (\<lambda>r. ar_id r = ar_id row) (\<lambda>_. s) tbl"
  shows "chain_inv env tbl'" and "sealed_asc tbl' = sealed_asc tbl @ [s]"
    and "head_sequence tbl' = head_sequence tbl + 1" and "Some (head_hash tbl') = ar_entryHash s"
    and "\<And>r. r \<in> set tbl \<Longrightarrow> ar_id r \<noteq> ar_id row \<Longrightarrow> r \<in> set tbl'"
    and "unsealed_count tbl = Suc (unsealed_count tbl')"
proof -
  have leg: "legacy_ok env row" and ids: "distinct (map ar_id tbl)"
    and ok: "chain_ok env (Some GENESIS_PREV_HASH) None (sealed_asc tbl)"
    using inv row by (auto simp: chain_inv_def)
  note s = seal_row_links [OF leg, of "head_sequence tbl + 1" "head_hash tbl", folded s_def]
  obtain xs ys where tbl: "tbl = xs @ row # ys" and tbl': "tbl' = xs @ s # ys" "ar_id row \<notin> ar_id ` set (xs @ ys)"
    using update_id_list [OF ids row(1), of s] unfolding tbl'_def by metis
  have "mset (filter is_sealed tbl') = add_mset s (mset (filter is_sealed tbl))"
    using row(2) s(2) by (simp add: tbl tbl'(1))
  note ext = seal_extends [OF ok this s(3,2,1)]
  have "map ar_id tbl' = map ar_id tbl" using s(4) by (simp add: tbl tbl'(1))
  moreover have "legacy_ok env r" if "r \<in> set tbl'" "\<not> is_sealed r" for r
    using that inv s(2) by (auto simp: chain_inv_def tbl tbl'(1))
  ultimately show "chain_inv env tbl'" using ids ext(2) by (simp add: chain_inv_def)
  show "sealed_asc tbl' = sealed_asc tbl @ [s]" "head_sequence tbl' = head_sequence tbl + 1"
    "Some (head_hash tbl') = ar_entryHash s" by (rule ext)+
  show "\<And>r. r \<in> set tbl \<Longrightarrow> ar_id r \<noteq> ar_id row \<Longrightarrow> r \<in> set tbl'" by (auto simp: tbl tbl'(1))
  show "unsealed_count tbl = Suc (unsealed_count tbl')"
    using row(2) s(2) by (simp add: unsealed_count_def count_where_def tbl tbl'(1))
qed

lemma seal_rows_inv:
  assumes "chain_inv env tbl" and "set rows \<subseteq> set tbl" and "\<forall>r \<in> set rows. \<not> is_sealed r"
    and "distinct (map ar_id rows)"
  shows "\<exists>tbl' new. seal_rows env rows (head_sequence tbl) (head_hash tbl) tbl =
      Inr ((head_sequence tbl', head_hash tbl'), tbl') \<and> chain_inv env tbl' \<and>
    sealed_asc tbl' = sealed_asc tbl @ new \<and> unsealed_count tbl = unsealed_count tbl' + length rows"
  using assms
proof (induction rows arbitrary: tbl)
  case (Cons row rows)
  let ?s = "seal_row env (head_sequence tbl + 1) (head_hash tbl) row"
  let ?t = "update_where (\<lambda>r. ar_id r = ar_id row) (\<lambda>_. ?s) tbl"
  have row: "row \<in> set tbl" "\<not> is_sealed row" using Cons.prems by auto
  note one = seal_one [OF Cons.prems(1) row]
  have "set rows \<subseteq> set ?t"
  proof
    fix r assume r: "r \<in> set rows"
    then have "ar_id r \<noteq> ar_id row" using Cons.prems(4) by (auto simp: rev_image_eqI)
    with one(5) r Cons.prems(2) show "r \<in> set ?t" by auto
  qed
  with Cons.IH [OF one(1)] Cons.prems obtain tbl' new where t':
    "seal_rows env rows (head_sequence ?t) (head_hash ?t) ?t = Inr ((head_sequence tbl', head_hash tbl'), tbl')"
    "chain_inv env tbl'" "sealed_asc tbl' = sealed_asc ?t @ new" "unsealed_count ?t = unsealed_count tbl' + length rows"
    by auto
  have "legacy_ok env row" using Cons.prems(1) row by (simp add: chain_inv_def)
  then have "ar_prevHash row = None" by (simp add: legacy_ok_def)
  moreover have "the (ar_entryHash ?s) = head_hash ?t" using one(4) by (metis option.sel)
  ultimately have "seal_rows env (row # rows) (head_sequence tbl) (head_hash tbl) tbl =
      Inr ((head_sequence tbl', head_hash tbl'), tbl')"
    using t'(1) one(3) by (simp add: Let_def)
  with t' one(2,6) show ?case by auto
qed auto

lemma unsealed_batch_facts:
  assumes "distinct (map ar_id tbl)"
  shows "set (unsealed_batch tbl) \<subseteq> set tbl" and "\<forall>r \<in> set (unsealed_batch tbl). \<not> is_sealed r"
    and "distinct (map ar_id (unsealed_batch tbl))"
    and "length (unsealed_batch tbl) = min (unsealed_count tbl) BACKFILL_BATCH_SIZE"
proof -
  let ?f = "filter (\<lambda>r. \<not> is_sealed r) tbl"
  have "mset (map ar_id (sort_key (\<lambda>r. (ar_timestamp r, ar_id r)) ?f)) = mset (map ar_id ?f)" by simp
  with distinct_map_filter [OF assms] have "distinct (map ar_id (sort_key (\<lambda>r. (ar_timestamp r, ar_id r)) ?f))"
    by (metis mset_eq_imp_distinct_iff)
  then show "distinct (map ar_id (unsealed_batch tbl))"
    by (simp add: unsealed_batch_def take_map [symmetric])
qed (use set_unsealed_batch [of tbl] in \<open>auto simp: unsealed_batch_def unsealed_count_def count_where_def\<close>)

lemma seal_batch_inv:
  assumes "chain_inv env tbl"
  shows "\<exists>h tbl' new. seal_batch env tbl = Inr ((min (unsealed_count tbl) BACKFILL_BATCH_SIZE, h), tbl') \<and>
    chain_inv env tbl' \<and> sealed_asc tbl' = sealed_asc tbl @ new \<and>
    unsealed_count tbl' = unsealed_count tbl - BACKFILL_BATCH_SIZE"
proof -
  have ids: "distinct (map ar_id tbl)" using assms by (simp add: chain_inv_def)
  note b = unsealed_batch_facts [OF ids]
  show ?thesis
  proof (cases "unsealed_batch tbl = []")
    case True
    then have "unsealed_count tbl = 0" using b(4) by (simp add: BACKFILL_BATCH_SIZE_def min_def split: if_splits)
    with True assms show ?thesis by (auto simp: seal_batch_def)
  next
    case False
    with seal_rows_inv [OF assms b(1-3)] b(4) show ?thesis by (auto simp: seal_batch_def)
  qed
qed

lemma backfill_loop_inv:
  assumes "chain_inv env tbl"
  shows "\<exists>h' tbl' new. backfill_loop env n h tbl = (Inr (n + unsealed_count tbl, h'), tbl') \<and>
    chain_inv env tbl' \<and> sealed_asc tbl' = sealed_asc tbl @ new \<and> unsealed_count tbl' = 0"
  using assms
proof (induction "unsealed_count tbl" arbitrary: n h tbl rule: less_induct)
  case less
  obtain h1 t new where t: "seal_batch env tbl = Inr ((min (unsealed_count tbl) BACKFILL_BATCH_SIZE, h1), t)"
    "chain_inv env t" "sealed_asc t = sealed_asc tbl @ new" "unsealed_count t = unsealed_count tbl - BACKFILL_BATCH_SIZE"
    using seal_batch_inv [OF less.prems] by blast
  show ?case
  proof (cases "unsealed_count tbl < BACKFILL_BATCH_SIZE")
    case True
    with t show ?thesis by (subst backfill_loop.simps) (auto simp: min_def)
  next
    case False
    then have "unsealed_count t < unsealed_count tbl" using t(4) by (simp add: BACKFILL_BATCH_SIZE_def)
    from less.hyps [OF this t(2), of "n + BACKFILL_BATCH_SIZE" "if h1 = None then h else h1"] obtain h' t' new' where
      t': "backfill_loop env (n + BACKFILL_BATCH_SIZE) (if h1 = None then h else h1) t =
          (Inr (n + BACKFILL_BATCH_SIZE + unsealed_count t, h'), t')"
        "chain_inv env t'" "sealed_asc t' = sealed_asc t @ new'" "unsealed_count t' = 0" by blast
    have "backfill_loop env n h tbl = backfill_loop env (n + BACKFILL_BATCH_SIZE) (if h1 = None then h else h1) t"
      using False t(1) by (subst backfill_loop.simps) (simp add: min_def)
    with t' t(3,4) False show ?thesis by auto
  qed
qed

lemma backfill_inv:
  assumes "chain_inv env tbl"
  shows "\<exists>res tbl' new. backfillChain env tbl = (Inr res, tbl') \<and> bf_sealed res = unsealed_count tbl \<and>
    bf_remaining res = 0 \<and> chain_inv env tbl' \<and> sealed_asc tbl' = sealed_asc tbl @ new"
proof -
  obtain h' tbl' new where "backfill_loop env 0 (if truthy (Option.bind (chain_head tbl) ar_entryHash)
      then Some (head_sequence tbl, head_hash tbl) else None) tbl = (Inr (unsealed_count tbl, h'), tbl')"
    "chain_inv env tbl'" "sealed_asc tbl' = sealed_asc tbl @ new" "unsealed_count tbl' = 0"
    using backfill_loop_inv [OF assms, of 0] by (metis add_0)
  then show ?thesis by (auto simp: backfillChain_def Let_def unsealed_count_def)
qed

text \<open>Retention rewrites old rows in place; what the chain needs of them stays.\<close>

lemma sort_key_map: "sort_key k (map f xs) = map f (sort_key (\<lambda>x. k (f x)) xs)"
proof -
  have "insort_key k (f x) (map f ys) = map f (insort_key (\<lambda>x. k (f x)) x ys)" for x ys
    by (induction ys) auto
  then show ?thesis by (induction xs) auto
qed

lemma sealed_asc_map:
  assumes "\<And>r. ar_entryHash (f r) = ar_entryHash r" and "\<And>r. ar_sequence (f r) = ar_sequence r"
  shows "sealed_asc (map f tbl) = map f (sealed_asc tbl)"
  by (simp add: sealed_asc_def Let_def filter_map o_def is_sealed_def sort_key_map assms)

lemma chain_ok_map:
  assumes "\<And>r. ar_entryHash (f r) = ar_entryHash r" and "\<And>r. ar_sequence (f r) = ar_sequence r"
    and "\<And>r. f r = r \<or> ar_deletedAt (f r) \<noteq> None"
  shows "chain_ok env e q rs \<Longrightarrow> chain_ok env e q (map f rs)"
proof (induction rs arbitrary: e q)
  case (Cons r rs)
  then show ?case using assms(3) [of r] by (auto simp: assms(1,2))
qed simp

lemma retention_inv:
  assumes "chain_inv env tbl" and "\<And>r. ar_entryHash (f r) = ar_entryHash r" and "\<And>r. ar_sequence (f r) = ar_sequence r"
    and "\<And>r. f r = r \<or> ar_deletedAt (f r) \<noteq> None" and "\<And>r. ar_id (f r) = ar_id r"
    and "\<And>r. legacy_ok env r \<Longrightarrow> legacy_ok env (f r)"
  shows "chain_inv env (map f tbl)" and "map ar_entryHash (sealed_asc (map f tbl)) = map ar_entryHash (sealed_asc tbl)"
proof -
  have "distinct (map ar_id (map f tbl)) = distinct (map ar_id tbl)" by (simp add: assms(5) o_def)
  moreover have "chain_ok env (Some GENESIS_PREV_HASH) None (sealed_asc (map f tbl))"
    unfolding sealed_asc_map [of f, OF assms(2,3)]
    by (rule chain_ok_map [OF assms(2-4)]) (use assms(1) in \<open>simp add: chain_inv_def\<close>)
  moreover have "\<forall>r \<in> set (map f tbl). \<not> is_sealed r \<longrightarrow> legacy_ok env r"
    using assms(1) by (simp add: chain_inv_def is_sealed_def assms(2,6))
  ultimately show "chain_inv env (map f tbl)" using assms(1) by (simp add: chain_inv_def)
  show "map ar_entryHash (sealed_asc (map f tbl)) = map ar_entryHash (sealed_asc tbl)"
    by (simp add: sealed_asc_map [of f, OF assms(2,3)] assms(2))
qed

lemma meta_ok_empty: "meta_ok env (JObj [])"
  by (simp add: meta_ok_def)

lemma legacy_soft: "legacy_ok env r \<Longrightarrow> legacy_ok env (r\<lparr>ar_deletedAt := d\<rparr>)"
  by (simp add: legacy_ok_def metadata_of_def)

lemma legacy_anonymized: "legacy_ok env r \<Longrightarrow> legacy_ok env (anonymize_row now r)"
  by (simp add: legacy_ok_def metadata_of_def anonymize_row_def meta_ok_empty)

lemma softDelete_inv:
  assumes "chain_inv env tbl"
  shows "chain_inv env (snd (softDelete_audit now cutoff tbl))"
    and "map ar_entryHash (sealed_asc (snd (softDelete_audit now cutoff tbl))) = map ar_entryHash (sealed_asc tbl)"
  using retention_inv [OF assms, of "\<lambda>r. if ar_timestamp r < cutoff \<and> ar_deletedAt r = None then r\<lparr>ar_deletedAt := Some now\<rparr> else r"]
  by (simp_all add: softDelete_audit_def Let_def update_where_def legacy_soft)

lemma anonymize_inv:
  assumes "chain_inv env tbl"
  shows "chain_inv env (snd (anonymize_audit now cutoff tbl))"
    and "map ar_entryHash (sealed_asc (snd (anonymize_audit now cutoff tbl))) = map ar_entryHash (sealed_asc tbl)"
  using retention_inv [OF assms, of "\<lambda>r. if ar_timestamp r < cutoff \<and> ar_deletedAt r = None then anonymize_row now r else r"]
    legacy_anonymized
  by (simp_all add: anonymize_audit_def Let_def update_where_def) (simp_all add: anonymize_row_def)

section \<open>The operations on the log\<close>

inductive log_step :: "chain_env \<Rightarrow> audit_row list \<Rightarrow> audit_row list \<Rightarrow> bool" for env where
  appending: "newId \<notin> ar_id ` set tbl \<Longrightarrow> meta_ok env (json_of_meta (MObj (au_metadata p))) \<Longrightarrow>
    log_step env tbl (snd (appendToChain env now newId p tbl))"
| backfilling: "log_step env tbl (snd (backfillChain env tbl))"
| soft_deleting: "log_step env tbl (snd (softDelete_audit now cutoff tbl))"
| anonymizing: "log_step env tbl (snd (anonymize_audit now cutoff tbl))"

text \<open>The hashes of the chain only grow at its end.\<close>

definition chain_grows :: "audit_row list \<Rightarrow> audit_row list \<Rightarrow> bool" where
  "chain_grows s t \<longleftrightarrow> (\<exists>new. map ar_entryHash (sealed_asc t) = map ar_entryHash (sealed_asc s) @ new)"

text \<open>What the proofs ask of the parameters: only of runs whose JSONB columns are faithful.\<close>

definition log_inv :: "chain_env \<Rightarrow> audit_row list \<Rightarrow> bool" where
  "log_inv env tbl \<longleftrightarrow> faithful_jsonb env \<and> chain_inv env tbl"

lemma log_step_inv:
  assumes "log_step env s t" and "log_inv env s"
  shows "log_inv env t" and "chain_grows s t"
proof -
  have inv: "chain_inv env s" "faithful_jsonb env" using assms(2) by (simp_all add: log_inv_def)
  from assms(1) have "log_inv env t \<and> chain_grows s t"
  proof cases
    case (appending newId p now)
    obtain r where "sealed_asc t = sealed_asc s @ [r]"
      using append_inv(4) [OF inv(1) appending(2) inv(2) appending(3)] appending(1) by blast
    moreover have "chain_inv env t"
      unfolding appending(1) by (rule append_inv(1) [OF inv(1) appending(2) inv(2) appending(3)])
    ultimately show ?thesis using inv(2) by (simp add: log_inv_def chain_grows_def)
  next
    case backfilling
    obtain new where "chain_inv env t" "sealed_asc t = sealed_asc s @ new"
      using backfill_inv [OF inv(1)] backfilling by auto
    with inv(2) show ?thesis by (simp add: log_inv_def chain_grows_def)
  next
    case (soft_deleting now cutoff)
    from softDelete_inv [OF inv(1), of now cutoff, folded soft_deleting] inv(2)
    show ?thesis by (simp add: log_inv_def chain_grows_def)
  next
    case (anonymizing now cutoff)
    from anonymize_inv [OF inv(1), of now cutoff, folded anonymizing] inv(2)
    show ?thesis by (simp add: log_inv_def chain_grows_def)
  qed
  then show "log_inv env t" and "chain_grows s t" by blast+
qed

interpretation log_chain: mono_system "log_step env" "log_inv env" chain_grows for env
proof unfold_locales
  show "log_inv env t" if "log_step env s t" "log_inv env s" for s t using that by (rule log_step_inv)
  show "chain_grows s s" for s by (simp add: chain_grows_def)
  show "chain_grows s u" if "chain_grows s t" "chain_grows t u" for s t u using that by (auto simp: chain_grows_def)
  show "chain_grows s t" if "log_step env s t" "log_inv env s" for s t using that by (rule log_step_inv)
qed

text \<open>A table from before the chain: every row is unsealed.\<close>

definition legacy_table :: "chain_env \<Rightarrow> audit_row list \<Rightarrow> bool" where
  "legacy_table env tbl \<longleftrightarrow> distinct (map ar_id tbl) \<and> (\<forall>r \<in> set tbl. legacy_ok env r)"

lemma legacy_table_inv:
  assumes "legacy_table env tbl"
  shows "chain_inv env tbl"
proof -
  have "set (sealed_asc tbl) = {}" using assms by (auto simp: set_sealed_asc legacy_table_def legacy_ok_def is_sealed_def)
  then show ?thesis using assms by (simp add: chain_inv_def legacy_table_def)
qed

lemma run_inv:
  assumes "faithful_jsonb env" and "legacy_table env tbl0" and "(log_step env)\<^sup>*\<^sup>* tbl0 tbl"
  shows "chain_inv env tbl"
  using log_chain.run_keeps [OF assms(3)] legacy_table_inv [OF assms(2)] assms(1) by (simp add: log_inv_def)

section \<open>What two chains with one head have in common\<close>

lemma quote_inj:
  assumes "json_quote a @ r = json_quote b @ r'"
  shows "a = b \<and> r = r'"
proof -
  have "concat (map quote_char a) @ DQUOTE # r = concat (map quote_char b) @ DQUOTE # r'"
    using assms by (simp add: json_quote_def)
  then have "Some (a, r) = Some (b, r')" using parse_quoted_chars [of a r] parse_quoted_chars [of b r'] by metis
  then show ?thesis by simp
qed

lemma strings_inj:
  assumes "length xs = length ys" and "join '','' (map json_quote xs) @ r = join '','' (map json_quote ys) @ r'"
  shows "xs = ys"
  using assms
proof (induction xs ys arbitrary: r r' rule: list_induct2)
  case (Cons x xs y ys)
  then show ?case
  proof (cases xs)
    case Nil
    with Cons show ?thesis using quote_inj [of x r y r'] by simp
  next
    case (Cons x' xs')
    with Cons.hyps obtain y' ys' where ys: "ys = y' # ys'" by (cases ys) auto
    have "json_quote x @ CHR '','' # join '','' (map json_quote xs) @ r =
        json_quote y @ CHR '','' # join '','' (map json_quote ys) @ r'"
      using Cons.prems by (simp add: Cons ys)
    from quote_inj [OF this] Cons.IH [of r r'] show ?thesis by simp
  qed
qed simp

lemma payload_inj:
  "length xs = length ys \<Longrightarrow> stringify_strings xs = stringify_strings ys \<Longrightarrow> xs = ys"
  unfolding stringify_strings_def by (rule strings_inj) auto

definition payload_text :: "chain_env \<Rightarrow> audit_row \<Rightarrow> string" where
  "payload_text env r = stringify_strings
     (entry_payload env r (the (ar_sequence r)) (ar_prevHash r) (the (ar_metadataCanonical r)))"

text \<open>The texts the chain of a table hashes.\<close>

definition hashed_texts :: "chain_env \<Rightarrow> audit_row list \<Rightarrow> string set" where
  "hashed_texts env tbl = (\<Union>r \<in> set (sealed_asc tbl). {payload_text env r, the (ar_metadataCanonical r)})"

definition entry_content :: "audit_row \<Rightarrow> string list" where
  "entry_content r = [ar_id r, show_int (the (ar_sequence r)), ar_actorId r, ar_entity r, ar_entityId r, ar_action r,
     toISOString (ar_timestamp r), the (ar_metadataCanonical r)]"

lemma intact_row:
  assumes "foldSealedRow env r e = Inr ()"
  shows "ar_entryHash r = Some (ch_sha256 env (payload_text env r))"
    and "e = Some h \<Longrightarrow> link_of (ar_prevHash r) = h"
  using assms by (auto simp: foldSealedRow_def Let_def payload_text_def computeEntryHash_def
      split: option.splits if_splits)

lemma same_head_same_entries:
  assumes "chain_ok env (Some GENESIS_PREV_HASH) None xs" and "chain_ok env (Some GENESIS_PREV_HASH) None ys"
    and "\<forall>r \<in> set (xs @ ys). ar_deletedAt r = None"
    and "xs \<noteq> []" and "ys \<noteq> []" and "ar_entryHash (last xs) = ar_entryHash (last ys)"
    and "T = (\<Union>r \<in> set (xs @ ys). {payload_text env r, the (ar_metadataCanonical r)})"
    and inj: "inj_on (ch_sha256 env) U" and "T \<subseteq> U" and gen: "\<forall>x \<in> U. ch_sha256 env x \<noteq> GENESIS_PREV_HASH"
  shows "map entry_content xs = map entry_content ys"
  using assms(1-7,9)
proof (induction xs arbitrary: ys T rule: rev_induct)
  case (snoc x xs)
  obtain zs y where ys: "ys = zs @ [y]" using snoc.prems(5) by (cases ys rule: rev_cases) auto
  define ex where "ex = (if xs = [] then Some GENESIS_PREV_HASH else ar_entryHash (last xs))"
  define ey where "ey = (if zs = [] then Some GENESIS_PREV_HASH else ar_entryHash (last zs))"
  have x: "foldSealedRow env x ex = Inr ()" and xs: "chain_ok env (Some GENESIS_PREV_HASH) None xs"
    using snoc.prems(1,3) by (auto simp: chain_ok_append ex_def)
  have y: "foldSealedRow env y ey = Inr ()" and zs: "chain_ok env (Some GENESIS_PREV_HASH) None zs"
    using snoc.prems(2,3) by (auto simp: chain_ok_append ey_def ys)
  have texts: "payload_text env r \<in> U" "the (ar_metadataCanonical r) \<in> U" if "r \<in> set (xs @ [x] @ zs @ [y])" for r
    using that snoc.prems(7,8) by (auto simp: ys)
  have "ch_sha256 env (payload_text env x) = ch_sha256 env (payload_text env y)"
    using intact_row(1) [OF x] intact_row(1) [OF y] snoc.prems(6) by (simp add: ys)
  then have "payload_text env x = payload_text env y"
    using inj texts [of x] texts [of y] by (auto dest: inj_onD)
  then have eq: "entry_payload env x (the (ar_sequence x)) (ar_prevHash x) (the (ar_metadataCanonical x)) =
      entry_payload env y (the (ar_sequence y)) (ar_prevHash y) (the (ar_metadataCanonical y))"
    unfolding payload_text_def by (rule payload_inj [rotated]) (simp add: entry_payload_def)
  then have "ch_sha256 env (the (ar_metadataCanonical x)) = ch_sha256 env (the (ar_metadataCanonical y))"
    by (simp add: entry_payload_def metadataHash_def)
  then have "the (ar_metadataCanonical x) = the (ar_metadataCanonical y)"
    using inj texts [of x] texts [of y] by (auto dest: inj_onD)
  with eq have same: "entry_content x = entry_content y" by (simp add: entry_payload_def entry_content_def)
  have hashes: "\<exists>t \<in> U. ar_entryHash (last rs) = Some (ch_sha256 env t)"
    if "rs \<noteq> []" "chain_ok env (Some GENESIS_PREV_HASH) None rs" "set rs \<subseteq> set (xs @ zs)" for rs
  proof -
    have last: "last rs \<in> set (xs @ zs)" using last_in_set [OF that(1)] that(3) by blast
    have "\<exists>e. foldSealedRow env (last rs) e = Inr ()"
      using that(1,2) last snoc.prems(3) chain_ok_append [of env _ _ "butlast rs" "[last rs]"] by (auto simp: ys)
    with intact_row(1) texts [of "last rs"] last show ?thesis by auto
  qed
  have "ex = ey"
  proof -
    obtain hx where "ex = Some hx" using hashes [of xs] xs by (cases "xs = []") (auto simp: ex_def)
    moreover obtain hy where "ey = Some hy" using hashes [of zs] zs by (cases "zs = []") (auto simp: ey_def)
    ultimately show ?thesis using intact_row(2) [OF x] intact_row(2) [OF y] eq by (simp add: entry_payload_def)
  qed
  have "map entry_content xs = map entry_content zs"
  proof (cases "xs = [] \<or> zs = []")
    case True
    with \<open>ex = ey\<close> hashes [of xs] hashes [of zs] xs zs gen have "xs = [] \<and> zs = []"
      by (auto simp: ex_def ey_def split: if_splits)
    then show ?thesis by simp
  next
    case False
    show ?thesis
    proof (rule snoc.IH [OF xs zs])
      show "ar_entryHash (last xs) = ar_entryHash (last zs)" using \<open>ex = ey\<close> False by (simp add: ex_def ey_def)
      show "(\<Union>r \<in> set (xs @ zs). {payload_text env r, the (ar_metadataCanonical r)}) \<subseteq> U"
        using texts by auto
    qed (use False snoc.prems(3) in \<open>auto simp: ys\<close>)
  qed
  with same show ?case by (simp add: ys)
qed simp

section \<open>Properties\<close>

text \<open>
  C2. An untampered log always verifies. From a table of rows older than the chain, after any
  sequence of appends, backfills, soft deletions and anonymisations, \<open>verifyChain\<close> reports no
  issue, also when it is given the current head hash as its anchor; and the chain of any earlier
  state is a prefix of the current one.
\<close>

theorem honest_log_verifies:
  assumes "faithful_jsonb env" and "legacy_table env tbl0"
    and "(log_step env)\<^sup>*\<^sup>* tbl0 tbl" and "(log_step env)\<^sup>*\<^sup>* tbl tbl'"
  shows "cr_valid (verifyChain env None tbl') \<and>
    cr_valid (verifyChain env (cr_headHash (verifyChain env None tbl')) tbl') \<and>
    chain_grows tbl tbl'"
proof -
  have inv: "chain_inv env tbl" "chain_inv env tbl'"
    using run_inv [OF assms(1,2)] assms(3,4) by (auto intro: rtranclp_trans)
  have valid: "cr_valid (verifyChain env None tbl')" by (rule inv_verifies [OF inv(2)])
  have "unique_sequences tbl'" using inv(2) chain_ok_unique by (auto simp: chain_inv_def)
  from verifyChain_iff [OF this] valid
  have "cr_valid (verifyChain env (cr_headHash (verifyChain env None tbl')) tbl')" by metis
  moreover have "chain_grows tbl tbl'"
    using log_chain.run_le [OF assms(4)] inv(1) assms(1) by (simp add: log_inv_def)
  ultimately show ?thesis using valid by blast
qed

definition demo_chain :: chain_env where
  "demo_chain = \<lparr>ch_sha256 = (\<lambda>s. s), ch_num = (\<lambda>_. ''0''), ch_rd = (\<lambda>_. None), ch_jsonb = (\<lambda>v. v)\<rparr>"

definition demo_params :: audit_params where
  "demo_params = \<lparr>au_actorId = ''op'', au_entity = ''claim'', au_entityId = ''c1'', au_action = ''claim.cancelled'',
     au_metadata = [(''reason'', MStr ''duplicate'')]\<rparr>"

definition demo_log :: "audit_row list" where
  "demo_log = snd (appendToChain demo_chain 0 ''a1'' demo_params [])"

lemma demo_faithful: "faithful_jsonb demo_chain"
  by (simp add: faithful_jsonb_def demo_chain_def deep_refl)

lemma demo_meta: "meta_ok demo_chain (json_of_meta (MObj (au_metadata demo_params)))"
  by (simp add: meta_ok_def demo_params_def)

lemma demo_legacy: "legacy_table demo_chain []"
  by (simp add: legacy_table_def)

lemma demo_log_run: "(log_step demo_chain)\<^sup>*\<^sup>* [] demo_log"
  unfolding demo_log_def by (intro r_into_rtranclp appending demo_meta) simp

theorem honest_log_verifies_witness:
  "cr_valid (verifyChain demo_chain None demo_log) \<and> chain_grows [] demo_log"
  using honest_log_verifies [OF demo_faithful demo_legacy rtranclp.rtrancl_refl demo_log_run] by blast

text \<open>
  C8. Tampering shows. Let a log verify, with its head hash kept as an anchor. Any table that
  later verifies against that anchor has, in the same order, the same entries: ids, sequences,
  actors, entities, actions, times and canonical metadata; unless two of the texts the chains hash
  collide under SHA-256 or one hashes to the genesis value. The tables have no row marked as
  deleted (whose content is not checked), keep the unique index on the sequence, and the later one
  still has a sealed row; a table that was emptied passes the check (\<open>erased_chain_passes\<close>).
\<close>

theorem tampering_shows:
  assumes "unique_sequences tbl" and "unique_sequences tbl'"
    and "\<forall>r \<in> set (tbl @ tbl'). ar_deletedAt r = None"
    and "cr_valid (verifyChain env None tbl)" and "cr_headHash (verifyChain env None tbl) = Some h" and "h \<noteq> []"
    and "cr_valid (verifyChain env (Some h) tbl')" and "\<exists>r \<in> set tbl'. is_sealed r"
  shows "map entry_content (sealed_asc tbl) = map entry_content (sealed_asc tbl') \<or>
    (\<exists>x \<in> hashed_texts env tbl \<union> hashed_texts env tbl'. \<exists>y \<in> hashed_texts env tbl \<union> hashed_texts env tbl'.
       x \<noteq> y \<and> ch_sha256 env x = ch_sha256 env y) \<or>
    (\<exists>x \<in> hashed_texts env tbl \<union> hashed_texts env tbl'. ch_sha256 env x = GENESIS_PREV_HASH)"
proof -
  let ?A = "sealed_asc tbl" and ?B = "sealed_asc tbl'" and ?U = "hashed_texts env tbl \<union> hashed_texts env tbl'"
  have B: "?B \<noteq> []" using assms(8) set_sealed_asc [of tbl'] by (metis (mono_tags, lifting) empty_iff list.set(1) mem_Collect_eq)
  have A: "?A \<noteq> []"
  proof
    assume "?A = []"
    then have "count_where is_sealed tbl = 0" using length_sealed_asc [of tbl] by simp
    then show False using assms(5) by (simp add: verifyChain_def Let_def)
  qed
  have chains: "chain_ok env (Some GENESIS_PREV_HASH) None ?A" "chain_ok env (Some GENESIS_PREV_HASH) None ?B"
    using verifyChain_iff(1) [OF assms(1)] verifyChain_iff(1) [OF assms(2)] assms(4,7) A B by blast+
  have "truthy (Some h)" using assms(6) by (simp add: truthy_def)
  with verifyChain_iff(1) [OF assms(2), of env "Some h"] assms(7) B have "ar_entryHash (last ?B) = Some h" by blast
  moreover have "ar_entryHash (last ?A) = Some h" using verifyChain_iff(2) [OF assms(1,4) A] assms(5) by (rule trans [OF sym])
  ultimately have heads: "ar_entryHash (last ?A) = Some h" "ar_entryHash (last ?B) = Some h" by blast+
  have live: "\<forall>r \<in> set (?A @ ?B). ar_deletedAt r = None" using assms(3) by (auto simp: set_sealed_asc)
  show ?thesis
  proof (cases "inj_on (ch_sha256 env) ?U \<and> (\<forall>x \<in> ?U. ch_sha256 env x \<noteq> GENESIS_PREV_HASH)")
    case True
    have "map entry_content ?A = map entry_content ?B"
      by (rule same_head_same_entries [OF chains live A B _ refl, of ?U])
        (use True heads in \<open>auto simp: hashed_texts_def\<close>)
    then show ?thesis by blast
  next
    case False
    then show ?thesis unfolding inj_on_def by blast
  qed
qed

lemma demo_log_rows: "\<forall>r \<in> set (demo_log @ demo_log). ar_deletedAt r = None" "\<exists>r \<in> set demo_log. is_sealed r"
  by (simp_all add: demo_log_def appendToChain_def Let_def is_sealed_def)

definition demo_hash :: string where
  "demo_hash = ap_entryHash (fst (appendToChain demo_chain 0 ''a1'' demo_params []))"

lemma demo_head:
  "unique_sequences demo_log" "cr_valid (verifyChain demo_chain None demo_log)"
  "cr_headHash (verifyChain demo_chain None demo_log) = Some demo_hash" "demo_hash \<noteq> []"
  "cr_valid (verifyChain demo_chain (Some demo_hash) demo_log)"
proof -
  have inv: "chain_inv demo_chain demo_log" by (rule run_inv [OF demo_faithful demo_legacy demo_log_run])
  show uniq: "unique_sequences demo_log" using inv chain_ok_unique by (auto simp: chain_inv_def)
  note a = append_inv [OF legacy_table_inv [OF demo_legacy] _ demo_faithful demo_meta, of "''a1''" 0, folded demo_log_def demo_hash_def]
  show valid: "cr_valid (verifyChain demo_chain None demo_log)" by (rule inv_verifies [OF inv])
  show h: "cr_headHash (verifyChain demo_chain None demo_log) = Some demo_hash"
    using verifyChain_iff(2) [OF uniq valid] a(2,3) by simp
  show "demo_hash \<noteq> []"
    by (simp add: demo_hash_def appendToChain_def Let_def computeEntryHash_def demo_chain_def stringify_strings_def)
  then show "cr_valid (verifyChain demo_chain (Some demo_hash) demo_log)"
    using verifyChain_iff(1) [OF uniq] valid a(2,3) by (simp add: truthy_def)
qed

theorem tampering_shows_witness:
  "map entry_content (sealed_asc demo_log) = map entry_content (sealed_asc demo_log) \<and>
   unique_sequences demo_log \<and> cr_headHash (verifyChain demo_chain None demo_log) \<noteq> None"
proof -
  have "map entry_content (sealed_asc demo_log) = map entry_content (sealed_asc demo_log) \<or>
    (\<exists>x \<in> hashed_texts demo_chain demo_log \<union> hashed_texts demo_chain demo_log.
      \<exists>y \<in> hashed_texts demo_chain demo_log \<union> hashed_texts demo_chain demo_log.
       x \<noteq> y \<and> ch_sha256 demo_chain x = ch_sha256 demo_chain y) \<or>
    (\<exists>x \<in> hashed_texts demo_chain demo_log \<union> hashed_texts demo_chain demo_log. ch_sha256 demo_chain x = GENESIS_PREV_HASH)"
    using demo_log_rows demo_head by (intro tampering_shows [OF demo_head(1,1) _ demo_head(2,3)])
  then show ?thesis using demo_head(1,3) by simp
qed

text \<open>
  C31. The backfill seals everything. On any table the operations reach, \<open>backfillChain\<close> ends
  without an error, reports as sealed exactly the rows that were not, leaves none, and the log
  verifies.
\<close>

theorem backfill_seals_all:
  assumes "faithful_jsonb env" and "legacy_table env tbl0" and "(log_step env)\<^sup>*\<^sup>* tbl0 tbl"
  shows "\<exists>res tbl'. backfillChain env tbl = (Inr res, tbl') \<and>
    bf_sealed res = count_where (\<lambda>r. \<not> is_sealed r) tbl \<and> bf_remaining res = 0 \<and>
    cr_valid (verifyChain env None tbl') \<and> cr_legacyCount (verifyChain env None tbl') = 0"
proof -
  obtain res tbl' where t: "backfillChain env tbl = (Inr res, tbl')" "bf_sealed res = unsealed_count tbl"
    "bf_remaining res = 0" "chain_inv env tbl'"
    using backfill_inv [OF run_inv [OF assms]] by blast
  have "bf_remaining res = count_where (\<lambda>r. \<not> is_sealed r) tbl'"
    using t(1) by (auto simp: backfillChain_def Let_def split: prod.splits sum.splits)
  with t inv_verifies [OF t(4)] show ?thesis
    by (intro exI [of _ res] exI [of _ tbl']) (simp add: unsealed_count_def verifyChain_def Let_def)
qed

definition demo_legacy_row :: audit_row where
  "demo_legacy_row = \<lparr>ar_id = ''old'', ar_actorId = ''op'', ar_entity = ''claim'', ar_entityId = ''c0'',
     ar_action = ''created'', ar_timestamp = 0, ar_metadata = None, ar_deletedAt = None, ar_sequence = None,
     ar_prevHash = None, ar_entryHash = None, ar_metadataCanonical = None\<rparr>"

theorem backfill_seals_all_witness:
  "\<exists>res tbl'. backfillChain demo_chain [demo_legacy_row] = (Inr res, tbl') \<and> bf_sealed res = 1 \<and>
     cr_valid (verifyChain demo_chain None tbl')"
proof -
  have "legacy_table demo_chain [demo_legacy_row]"
    by (simp add: legacy_table_def legacy_ok_def demo_legacy_row_def metadata_of_def meta_ok_def)
  from backfill_seals_all [OF demo_faithful this rtranclp.rtrancl_refl] show ?thesis
    by (auto simp: count_where_def is_sealed_def demo_legacy_row_def)
qed

text \<open>
  An anchor goes stale with the next entry. After one more append the log still verifies, but
  not against the head hash anchored before it: the check compares the anchor with the current
  head only, so it reports an untouched log as one whose newest entries may have been deleted
  (unless the two hashes happen to be equal).
\<close>

theorem stale_anchor_fails:
  assumes "faithful_jsonb env" and "legacy_table env tbl0" and "(log_step env)\<^sup>*\<^sup>* tbl0 tbl"
    and "cr_headHash (verifyChain env None tbl) = Some h" and "h \<noteq> []"
    and "newId \<notin> ar_id ` set tbl" and "meta_ok env (json_of_meta (MObj (au_metadata p)))"
    and "appendToChain env now newId p tbl = (res, tbl')" and "ap_entryHash res \<noteq> h"
  shows "cr_valid (verifyChain env None tbl') \<and> \<not> cr_valid (verifyChain env (Some h) tbl')"
proof -
  note a = append_inv [OF run_inv [OF assms(1-3)] assms(6,1,7), of now, unfolded assms(8), simplified]
  have "unique_sequences tbl'" using a(1) chain_ok_unique by (auto simp: chain_inv_def)
  from verifyChain_iff(1) [OF this, of env "Some h"] a(2,3) assms(5,9) inv_verifies [OF a(1)]
  show ?thesis by (simp add: truthy_def)
qed

theorem stale_anchor_fails_witness:
  "\<not> cr_valid (verifyChain demo_chain (Some demo_hash) (snd (appendToChain demo_chain 1 ''a2'' demo_params demo_log)))"
proof -
  have fresh: "''a2'' \<notin> ar_id ` set demo_log" by (simp add: demo_log_def appendToChain_def Let_def)
  have "ap_entryHash (fst (appendToChain demo_chain 1 ''a2'' demo_params demo_log)) \<noteq> demo_hash"
    by (simp add: demo_hash_def appendToChain_def Let_def computeEntryHash_def demo_chain_def
        stringify_strings_def entry_payload_def json_quote_def quote_char_def)
  from stale_anchor_fails [OF demo_faithful demo_legacy demo_log_run demo_head(3,4) fresh demo_meta
      prod.collapse [symmetric] this]
  show ?thesis by (rule conjunct2)
qed

text \<open>
  Deleting the whole chain passes the anchored check. Whatever the anchor, a table without a
  sealed row is reported as valid.
\<close>

theorem erased_chain_passes:
  "cr_valid (verifyChain env anchor (filter (\<lambda>r. \<not> is_sealed r) tbl))"
  by (simp add: verifyChain_def Let_def count_where_def filter_empty_conv)

text \<open>
  Anonymising an entry keeps its metadata readable. After \<open>anonymize_audit\<close> an old entry has
  its actor, entity id and metadata redacted, but its \<open>metadataCanonical\<close> still parses to a value
  equal to the metadata it was logged with.
\<close>

theorem anonymized_metadata_survives:
  assumes "meta_ok env (json_of_meta (MObj (au_metadata p)))"
    and "now < cutoff"
  shows "\<exists>r \<in> set (snd (anonymize_audit later cutoff (snd (appendToChain env now newId p tbl)))).
    ar_id r = newId \<and> ar_actorId r = ANONYMIZED \<and> ar_metadata r = Some (JObj []) \<and>
    (\<exists>text w. ar_metadataCanonical r = Some text \<and> json_parse (ch_rd env) text = Some w \<and>
      jsonDeepEqual w (json_of_meta (MObj (au_metadata p))))"
proof -
  let ?m = "json_of_meta (MObj (au_metadata p))"
  let ?r = "last (snd (appendToChain env now newId p tbl))"
  have r: "?r \<in> set (snd (appendToChain env now newId p tbl))" "ar_timestamp ?r = now" "ar_deletedAt ?r = None"
    "ar_id ?r = newId" "ar_metadataCanonical ?r = Some (canonicalJson (ch_num env) ?m)"
    by (simp_all add: appendToChain_def Let_def canonicalMetadata_def)
  have "json_parse (ch_rd env) (canonicalJson (ch_num env) ?m) = Some (sortDeep ?m)"
    using assms(1) unfolding canonicalJson_def meta_ok_def
    by (intro parse_stringify sortDeep_wf sortDeep_numbers) simp_all
  moreover have "jsonDeepEqual (sortDeep ?m) ?m"
    using assms(1) unfolding meta_ok_def by (intro deep_sortDeep) simp
  moreover have "anonymize_row later ?r \<in> set (snd (anonymize_audit later cutoff (snd (appendToChain env now newId p tbl))))"
    unfolding anonymize_audit_def Let_def snd_conv
    by (rule in_update_where_changed [OF r(1)]) (use r(2,3) assms(2) in simp)
  ultimately show ?thesis using r(4,5)
    by (intro bexI [of _ "anonymize_row later ?r"]) (simp_all add: anonymize_row_def)
qed

theorem anonymized_metadata_survives_witness:
  "\<exists>r \<in> set (snd (anonymize_audit 20 10 demo_log)). ar_actorId r = ANONYMIZED \<and>
    (\<exists>text w. ar_metadataCanonical r = Some text \<and> json_parse (ch_rd demo_chain) text = Some w \<and>
      jsonDeepEqual w (JObj [(''reason'', JStr ''duplicate'')]))"
  using anonymized_metadata_survives [OF demo_meta, of 0 10 20 "''a1''" "[]", folded demo_log_def]
  by (auto simp: demo_params_def)

text \<open>
  A legacy row whose metadata is a JSON string breaks the chain it is sealed into: its text
  is taken as already canonical, and the verification cannot parse it back, so the backfilled log
  is reported as tampered with.
\<close>

theorem string_metadata_breaks_chain:
  assumes "is_sealed r = False" and "ar_prevHash r = None" and "ar_metadataCanonical r = None"
    and "ar_deletedAt r = None" and "ar_metadata r = Some (JStr s)" and "json_parse (ch_rd env) s = None"
  shows "\<exists>res tbl. backfillChain env [r] = (Inr res, tbl) \<and> bf_sealed res = 1 \<and>
    \<not> cr_valid (verifyChain env None tbl)"
proof -
  let ?s = "seal_row env 1 GENESIS_PREV_HASH r"
  have empty: "sealed_asc [r] = []" using assms(1) by (simp add: sealed_asc_def)
  have head: "head_sequence [r] = 0" "head_hash [r] = GENESIS_PREV_HASH"
    by (simp_all add: head_sequence_def head_hash_def chain_head_def empty link_of_def)
  have "unsealed_batch [r] = [r]" using assms(1) by (simp add: unsealed_batch_def BACKFILL_BATCH_SIZE_def)
  then have "seal_batch env [r] = Inr ((1, Some (1, the (ar_entryHash ?s))), [?s])"
    using assms(2) by (simp add: seal_batch_def head Let_def)
  then have loop: "backfill_loop env 0 h [r] = (Inr (1, Some (1, the (ar_entryHash ?s))), [?s])" for h
    by (subst backfill_loop.simps) (simp add: BACKFILL_BATCH_SIZE_def)
  have sealed: "is_sealed ?s" "ar_sequence ?s = Some 1" by (simp_all add: seal_row_def Let_def is_sealed_def)
  then have asc: "sealed_asc [?s] = [?s]" by (simp add: sealed_asc_def)
  have "foldSealedRow env ?s (Some GENESIS_PREV_HASH) \<noteq> Inr ()"
    using assms(3,5,6)
    by (simp add: foldSealedRow_def seal_row_def Let_def canonicalMetadata_def metadata_of_def metadata_matches_def
        split: option.split)
  moreover have "ar_deletedAt ?s = None" using assms(4) by (simp add: seal_row_def Let_def)
  moreover have "unique_sequences [?s]" by (simp add: unique_sequences_def)
  ultimately have "\<not> cr_valid (verifyChain env None [?s])"
    using verifyChain_iff(1) [of "[?s]" env None] by (simp add: asc)
  with loop show ?thesis by (simp add: backfillChain_def Let_def)
qed

theorem string_metadata_breaks_chain_witness:
  "\<exists>res tbl. backfillChain demo_chain [demo_legacy_row\<lparr>ar_metadata := Some (JStr ''hello'')\<rparr>] = (Inr res, tbl) \<and>
    \<not> cr_valid (verifyChain demo_chain None tbl)"
proof -
  have "json_parse (ch_rd demo_chain) ''hello'' = None" by (simp add: json_parse_def demo_chain_def ws_def numeral_eq_Suc)
  from string_metadata_breaks_chain [OF _ _ _ _ _ this, of "demo_legacy_row\<lparr>ar_metadata := Some (JStr ''hello'')\<rparr>"]
  show ?thesis by (auto simp: demo_legacy_row_def is_sealed_def)
qed

end
