(* ===== verification/SessionFlow.thy ===== *)
theory SessionFlow
  imports VerificationRecord
begin

text \<open>
  Verification sessions: \<open>session/session.service.ts\<close>. A session has steps to be completed by
  submissions, each under a key chosen by the client; it ends completed, failed or expired. The
  state is the three tables. A request's readings of the clock are \<open>clk 0, clk 1, ...\<close>; \<open>rnd\<close> is
  the reading of \<open>Math.random\<close>. Logging and the HTTP controller, which only forwards, are left out.
\<close>

section \<open>Data\<close>

datatype session_type = Otp_verification | Claim_verification | Multi_step_verification
datatype session_status = SE_pending | SE_completed | SE_expired | SE_failed
datatype step_status = SP_pending | SP_in_progress | SP_completed | SP_failed | SP_skipped

type_synonym members = "(string \<times> json) list"

record session_row =
  se_id :: ident
  se_type :: session_type
  se_status :: session_status
  se_contextId :: "string option"
  se_metadata :: members
  se_expiresAt :: "time option"
  se_createdAt :: time
  se_updatedAt :: time
  se_completedAt :: "time option"
  se_failedAt :: "time option"

record step_row =
  sp_id :: ident
  sp_sessionId :: ident
  sp_stepName :: string
  sp_stepOrder :: int
  sp_status :: step_status
  sp_input :: members
  sp_output :: "members option"
  sp_error :: "string option"
  sp_attempts :: int
  sp_maxAttempts :: int
  sp_startedAt :: "time option"
  sp_completedAt :: "time option"
  sp_createdAt :: time
  sp_updatedAt :: time

record submission_row =
  sb_id :: ident
  sb_sessionId :: ident
  sb_stepId :: "ident option"
  sb_submissionKey :: string
  sb_payload :: members
  sb_response :: members
  sb_createdAt :: time

record session_state =
  sf_sessions :: "session_row list"
  sf_steps :: "step_row list"
  sf_submissions :: "submission_row list"

record step_definition =
  sd_stepName :: string
  sd_stepOrder :: "int option"
  sd_maxAttempts :: "int option"
  sd_input :: "members option"

record create_session_dto =
  cs_type :: session_type
  cs_contextId :: "string option"
  cs_metadata :: "members option"
  cs_expiresAt :: "time option"
  cs_steps :: "step_definition list option"

record submit_dto =
  sm_submissionKey :: string
  sm_payload :: members

record session_view =
  sv_session :: session_row
  sv_steps :: "step_row list"
  sv_currentStep :: "step_row option"
  sv_nextStep :: "step_row option"

record submission_view =
  su_id :: ident
  su_sessionId :: ident
  su_stepId :: "ident option"
  su_submissionKey :: string
  su_payload :: members
  su_response :: members
  su_createdAt :: time
  su_isIdempotent :: bool

definition find_session :: "ident \<Rightarrow> session_state \<Rightarrow> session_row option" where
  "find_session i s = find_row (\<lambda>x. se_id x = i) (sf_sessions s)"

definition find_step :: "ident \<Rightarrow> session_state \<Rightarrow> step_row option" where
  "find_step i s = find_row (\<lambda>x. sp_id x = i) (sf_steps s)"

definition steps_of :: "ident \<Rightarrow> session_state \<Rightarrow> step_row list" where
  "steps_of i s = sort_key sp_stepOrder (filter (\<lambda>p. sp_sessionId p = i) (sf_steps s))"

definition update_session :: "time \<Rightarrow> ident \<Rightarrow> (session_row \<Rightarrow> session_row) \<Rightarrow> session_state \<Rightarrow> session_state" where
  "update_session now i f s =
     s\<lparr>sf_sessions := update_where (\<lambda>x. se_id x = i) (\<lambda>x. f x\<lparr>se_updatedAt := now\<rparr>) (sf_sessions s)\<rparr>"

definition update_step :: "time \<Rightarrow> ident \<Rightarrow> (step_row \<Rightarrow> step_row) \<Rightarrow> session_state \<Rightarrow> session_state" where
  "update_step now i f s =
     s\<lparr>sf_steps := update_where (\<lambda>x. sp_id x = i) (\<lambda>x. f x\<lparr>sp_updatedAt := now\<rparr>) (sf_steps s)\<rparr>"

section \<open>Operations\<close>

definition mapSessionToDto :: "session_row \<Rightarrow> step_row list \<Rightarrow> session_view" where
  "mapSessionToDto session steps =
     (let currentStep = find (\<lambda>p. sp_status p = SP_pending \<or> sp_status p = SP_in_progress) steps;
          nextStep = find (\<lambda>p. sp_status p = SP_pending \<and>
            (case currentStep of None \<Rightarrow> 0 | Some c \<Rightarrow> sp_stepOrder c) < sp_stepOrder p) steps
      in \<lparr>sv_session = session, sv_steps = steps, sv_currentStep = currentStep, sv_nextStep = nextStep\<rparr>)"

text \<open>The steps get the ids \<open>stepIds\<close>, one each.\<close>

definition new_step :: "time \<Rightarrow> ident \<Rightarrow> ident \<times> nat \<times> step_definition \<Rightarrow> step_row" where
  "new_step now sessionId = (\<lambda>(i, index, d).
     \<lparr>sp_id = i, sp_sessionId = sessionId, sp_stepName = sd_stepName d,
      sp_stepOrder = (case sd_stepOrder d of None \<Rightarrow> int index + 1 | Some n \<Rightarrow> n),
      sp_status = SP_pending, sp_input = (case sd_input d of None \<Rightarrow> [] | Some m \<Rightarrow> m), sp_output = None,
      sp_error = None, sp_attempts = 0,
      sp_maxAttempts = (case sd_maxAttempts d of None \<Rightarrow> 3 | Some n \<Rightarrow> n),
      sp_startedAt = None, sp_completedAt = None, sp_createdAt = now, sp_updatedAt = now\<rparr>)"

definition createSession ::
  "clock \<Rightarrow> ident \<Rightarrow> ident list \<Rightarrow> create_session_dto \<Rightarrow> session_state \<Rightarrow> (app_error + session_view) \<times> session_state" where
  "createSession clk newId stepIds dto s =
     (if cs_expiresAt dto \<noteq> None \<and> the (cs_expiresAt dto) \<le> clk 0 then
        (Inl (AppException BAD_REQUEST 400 ''Expiration time must be in the future''), s)
      else
        let defs = (case cs_steps dto of None \<Rightarrow> [] | Some ds \<Rightarrow> ds);
            session = \<lparr>se_id = newId, se_type = cs_type dto, se_status = SE_pending,
              se_contextId = cs_contextId dto,
              se_metadata = (case cs_metadata dto of None \<Rightarrow> [] | Some m \<Rightarrow> m),
              se_expiresAt = cs_expiresAt dto, se_createdAt = clk 1, se_updatedAt = clk 1,
              se_completedAt = None, se_failedAt = None\<rparr>;
            s1 = s\<lparr>sf_sessions := sf_sessions s @ [session],
                   sf_steps := sf_steps s @ map (new_step (clk 1) newId) (zip stepIds (zip [0..<length defs] defs))\<rparr>
        in (Inr (mapSessionToDto session (steps_of newId s1)), s1))"

definition expireSession :: "time \<Rightarrow> ident \<Rightarrow> session_state \<Rightarrow> session_state" where
  "expireSession now i s = update_session now i (se_status_update (\<lambda>_. SE_expired)) s"

definition getSession :: "time \<Rightarrow> ident \<Rightarrow> session_state \<Rightarrow> (app_error + session_view) \<times> session_state" where
  "getSession now i s =
     (case find_session i s of
        None \<Rightarrow> (Inl (AppException NOT_FOUND 404 (''Session '' @ i @ '' not found'')), s)
      | Some session \<Rightarrow>
          if se_expiresAt session \<noteq> None \<and> the (se_expiresAt session) \<le> now \<and> se_status session = SE_pending then
            (Inr (mapSessionToDto (session\<lparr>se_status := SE_expired\<rparr>) (steps_of i s)), expireSession now i s)
          else (Inr (mapSessionToDto session (steps_of i s)), s))"

text \<open>Truthiness of a member, and \<open>===\<close> of two members of a parsed body: objects are never the same.\<close>

fun js_truthy :: "json option \<Rightarrow> bool" where
  "js_truthy None \<longleftrightarrow> False"
| "js_truthy (Some JNull) \<longleftrightarrow> False"
| "js_truthy (Some (JBool b)) \<longleftrightarrow> b"
| "js_truthy (Some (JNum x)) \<longleftrightarrow> x \<noteq> 0"
| "js_truthy (Some (JStr t)) \<longleftrightarrow> t \<noteq> []"
| "js_truthy (Some _) \<longleftrightarrow> True"

fun js_same :: "json option \<Rightarrow> json option \<Rightarrow> bool" where
  "js_same (Some (JArr _)) _ \<longleftrightarrow> False"
| "js_same (Some (JObj _)) _ \<longleftrightarrow> False"
| "js_same a b \<longleftrightarrow> a = b"

definition validateOtp :: "time \<Rightarrow> members \<Rightarrow> app_error + members" where
  "validateOtp now payload =
     (let code = map_of payload ''code''; expectedCode = map_of payload ''expectedCode''
      in if \<not> js_truthy code \<or> \<not> js_truthy expectedCode then
           Inl (AppException BAD_REQUEST 400 ''Code and expectedCode are required'')
         else if \<not> js_same code expectedCode then
           Inl (AppException BAD_REQUEST 400 ''Invalid verification code'')
         else Inr [(''success'', JBool True), (''validated'', JBool True), (''timestamp'', JStr (toISOString now))])"

definition processDocumentUpload :: "time \<Rightarrow> time \<Rightarrow> members \<Rightarrow> app_error + members" where
  "processDocumentUpload t1 t2 payload =
     (if \<not> js_truthy (map_of payload ''documentUrl'') then
        Inl (AppException BAD_REQUEST 400 ''Document URL is required'')
      else Inr [(''success'', JBool True), (''documentId'', JStr (''doc_'' @ show_int t1)),
        (''documentType'', if js_truthy (map_of payload ''documentType'')
                           then the (map_of payload ''documentType'') else JStr ''unknown''),
        (''processedAt'', JStr (toISOString t2))])"

definition verifyIdentity :: "time \<Rightarrow> time \<Rightarrow> rat \<Rightarrow> members \<Rightarrow> app_error + members" where
  "verifyIdentity t1 t2 rnd payload =
     (if \<not> js_truthy (map_of payload ''identityDocument'') \<or> \<not> js_truthy (map_of payload ''personalInfo'') then
        Inl (AppException BAD_REQUEST 400 ''Identity document and personal info are required'')
      else Inr [(''success'', JBool (70 < rnd * 100)), (''score'', JNum (rnd * 100)),
        (''verificationId'', JStr (''verify_'' @ show_int t1)), (''timestamp'', JStr (toISOString t2))])"

definition verifyClaim :: "time \<Rightarrow> rat \<Rightarrow> members \<Rightarrow> app_error + members" where
  "verifyClaim now rnd payload =
     (if \<not> js_truthy (map_of payload ''claimId'') then
        Inl (AppException BAD_REQUEST 400 ''Claim ID is required'')
      else Inr [(''success'', JBool (60 < rnd * 100)), (''score'', JNum (rnd * 100)),
        (''claimId'', the (map_of payload ''claimId'')),
        (''verificationResult'', JStr (if 60 < rnd * 100 then ''approved'' else ''rejected'')),
        (''timestamp'', JStr (toISOString now))])"

definition executeStepLogic :: "time \<Rightarrow> time \<Rightarrow> rat \<Rightarrow> string \<Rightarrow> members \<Rightarrow> app_error + members" where
  "executeStepLogic t1 t2 rnd stepName payload =
     (if stepName = ''otp_validation'' then validateOtp t1 payload
      else if stepName = ''document_upload'' then processDocumentUpload t1 t2 payload
      else if stepName = ''identity_verification'' then verifyIdentity t1 t2 rnd payload
      else if stepName = ''claim_verification'' then verifyClaim t1 rnd payload
      else Inr [(''success'', JBool True), (''processed'', JBool True), (''timestamp'', JStr (toISOString t1))])"

definition step_done :: "step_row \<Rightarrow> bool" where
  "step_done p \<longleftrightarrow> sp_status p = SP_completed \<or> sp_status p = SP_skipped"

definition checkSessionCompletion :: "time \<Rightarrow> ident \<Rightarrow> session_state \<Rightarrow> session_state" where
  "checkSessionCompletion now i s =
     (case find_session i s of
        None \<Rightarrow> s
      | Some session \<Rightarrow>
          if list_all step_done (filter (\<lambda>p. sp_sessionId p = i) (sf_steps s)) then
            update_session now i (\<lambda>x. x\<lparr>se_status := SE_completed, se_completedAt := Some now\<rparr>) s
          else s)"

definition failSession :: "time \<Rightarrow> ident \<Rightarrow> string \<Rightarrow> session_state \<Rightarrow> session_state" where
  "failSession now i reason s =
     update_session now i (\<lambda>x. x\<lparr>se_status := SE_failed, se_failedAt := Some now,
       se_metadata := [(''failureReason'', JStr reason)]\<rparr>) s"

definition processStepSubmission ::
  "clock \<Rightarrow> rat \<Rightarrow> ident \<Rightarrow> ident \<Rightarrow> submit_dto \<Rightarrow> session_state \<Rightarrow> (app_error + members) \<times> session_state" where
  "processStepSubmission clk rnd sessionId stepId dto s =
     (case find_step stepId s of
        None \<Rightarrow> (Inl (AppException NOT_FOUND 404 (''Step '' @ stepId @ '' not found'')), s)
      | Some step \<Rightarrow>
          let s1 = (if sp_status step = SP_pending
                    then update_step (clk 1) stepId
                           (\<lambda>p. p\<lparr>sp_status := SP_in_progress, sp_startedAt := Some (clk 1)\<rparr>) s
                    else s);
              s2 = update_step (clk 2) stepId (\<lambda>p. p\<lparr>sp_attempts := sp_attempts p + 1\<rparr>) s1;
              attempts = sp_attempts step + 1
          in case executeStepLogic (clk 3) (clk 4) rnd (sp_stepName step) (sm_payload dto) of
               Inr result \<Rightarrow>
                 (Inr result, checkSessionCompletion (clk 6) sessionId
                   (update_step (clk 5) stepId
                      (\<lambda>p. p\<lparr>sp_status := SP_completed, sp_output := Some result, sp_completedAt := Some (clk 5)\<rparr>) s2))
             | Inl e \<Rightarrow>
                 if sp_maxAttempts step \<le> attempts then
                   (Inl e, failSession (clk 6) sessionId
                     (''Step '' @ sp_stepName step @ '' failed after '' @ show_int (sp_maxAttempts step) @ '' attempts'')
                     (update_step (clk 5) stepId
                        (\<lambda>p. p\<lparr>sp_status := SP_failed, sp_error := Some (error_message e)\<rparr>) s2))
                 else (Inl e, update_step (clk 5) stepId (\<lambda>p. p\<lparr>sp_error := Some (error_message e)\<rparr>) s2))"

definition view_submission :: "bool \<Rightarrow> submission_row \<Rightarrow> submission_view" where
  "view_submission idem b = \<lparr>su_id = sb_id b, su_sessionId = sb_sessionId b, su_stepId = sb_stepId b,
     su_submissionKey = sb_submissionKey b, su_payload = sb_payload b, su_response = sb_response b,
     su_createdAt = sb_createdAt b, su_isIdempotent = idem\<rparr>"

definition submitToStep ::
  "clock \<Rightarrow> rat \<Rightarrow> ident \<Rightarrow> ident \<Rightarrow> ident \<Rightarrow> submit_dto \<Rightarrow> session_state
   \<Rightarrow> (app_error + submission_view) \<times> session_state" where
  "submitToStep clk rnd newId sessionId stepId dto s =
     (case find_row (\<lambda>b. sb_submissionKey b = sm_submissionKey dto) (sf_submissions s) of
        Some b \<Rightarrow> (Inr (view_submission True b), s)
      | None \<Rightarrow>
          (case getSession (clk 0) sessionId s of
             (Inl e, s1) \<Rightarrow> (Inl e, s1)
           | (Inr v, s1) \<Rightarrow>
               if se_status (sv_session v) \<noteq> SE_pending then
                 (Inl (AppException BAD_REQUEST 400 (''Session '' @ sessionId @ '' is not in pending state'')), s1)
               else (case find (\<lambda>p. sp_id p = stepId) (sv_steps v) of
                  None \<Rightarrow> (Inl (AppException NOT_FOUND 404
                     (''Step '' @ stepId @ '' not found in session '' @ sessionId)), s1)
                | Some step \<Rightarrow>
                    if sp_status step = SP_completed then
                      (Inl (AppException CONFLICT 409 (''Step '' @ stepId @ '' is already completed'')), s1)
                    else (case processStepSubmission clk rnd sessionId stepId dto s1 of
                       (Inl e, s2) \<Rightarrow> (Inl e, s2)
                     | (Inr result, s2) \<Rightarrow>
                         let b = \<lparr>sb_id = newId, sb_sessionId = sessionId, sb_stepId = Some stepId,
                               sb_submissionKey = sm_submissionKey dto, sb_payload = sm_payload dto,
                               sb_response = result, sb_createdAt = clk 7\<rparr>
                         in (Inr (view_submission False b),
                             s2\<lparr>sf_submissions := sf_submissions s2 @ [b]\<rparr>)))))"

definition getSessionsByContext :: "string \<Rightarrow> session_state \<Rightarrow> session_view list" where
  "getSessionsByContext contextId s =
     map (\<lambda>x. mapSessionToDto x (steps_of (se_id x) s))
       (sort_key (\<lambda>x. - se_createdAt x) (filter (\<lambda>x. se_contextId x = Some contextId) (sf_sessions s)))"

definition resumeSession :: "clock \<Rightarrow> ident \<Rightarrow> session_state \<Rightarrow> (app_error + session_view) \<times> session_state" where
  "resumeSession clk i s =
     (case getSession (clk 0) i s of
        (Inl e, s1) \<Rightarrow> (Inl e, s1)
      | (Inr v, s1) \<Rightarrow>
          if se_status (sv_session v) = SE_completed then
            (Inl (AppException BAD_REQUEST 400 ''Cannot resume completed session''), s1)
          else
            let s2 = (if se_status (sv_session v) = SE_expired
                      then update_session (clk 2) i
                             (\<lambda>x. x\<lparr>se_status := SE_pending, se_expiresAt := Some (clk 1 + 30 * 60 * 1000)\<rparr>) s1
                      else s1)
            in getSession (clk 3) i s2)"

section \<open>The invariant\<close>

text \<open>What a step of a session in status \<open>st\<close> satisfies; a limit below one allows one attempt.\<close>

definition step_ok :: "session_status \<Rightarrow> step_row \<Rightarrow> bool" where
  "step_ok st p \<longleftrightarrow> 0 \<le> sp_attempts p \<and> sp_attempts p \<le> max 1 (sp_maxAttempts p) \<and> sp_status p \<noteq> SP_skipped \<and>
     (st \<in> {SE_pending, SE_expired} \<and> sp_status p \<noteq> SP_completed \<longrightarrow> sp_attempts p < max 1 (sp_maxAttempts p)) \<and>
     (st = SE_completed \<longrightarrow> sp_status p = SP_completed)"

definition session_ids :: "session_state \<Rightarrow> bool" where
  "session_ids s \<longleftrightarrow> distinct (map se_id (sf_sessions s)) \<and> distinct (map sp_id (sf_steps s)) \<and>
     distinct (map sb_submissionKey (sf_submissions s)) \<and> distinct (map sb_stepId (sf_submissions s))"

definition steps_ok :: "session_state \<Rightarrow> bool" where
  "steps_ok s \<longleftrightarrow> (\<forall>p \<in> set (sf_steps s). \<exists>x \<in> set (sf_sessions s).
     se_id x = sp_sessionId p \<and> step_ok (se_status x) p)"

text \<open>The submissions are those of the completed steps, one each, with the step's output.\<close>

definition recorded_for :: "step_row \<Rightarrow> submission_row \<Rightarrow> bool" where
  "recorded_for p b \<longleftrightarrow> sb_stepId b = Some (sp_id p) \<and> sb_sessionId b = sp_sessionId p \<and>
     sp_status p = SP_completed \<and> sp_output p = Some (sb_response b)"

definition submissions_ok :: "session_state \<Rightarrow> bool" where
  "submissions_ok s \<longleftrightarrow> (\<forall>b \<in> set (sf_submissions s). \<exists>p \<in> set (sf_steps s). recorded_for p b) \<and>
     (\<forall>p \<in> set (sf_steps s). sp_status p = SP_completed \<longrightarrow> (\<exists>b \<in> set (sf_submissions s). recorded_for p b))"

definition sess_inv :: "session_state \<Rightarrow> bool" where
  "sess_inv s \<longleftrightarrow> session_ids s \<and> steps_ok s \<and> submissions_ok s"

text \<open>What no run undoes: ended sessions, completed steps and submissions stay as they are.\<close>

definition sess_le :: "session_state \<Rightarrow> session_state \<Rightarrow> bool" where
  "sess_le s t \<longleftrightarrow>
     (\<forall>x \<in> set (sf_sessions s). se_status x \<in> {SE_completed, SE_failed} \<longrightarrow> x \<in> set (sf_sessions t)) \<and>
     (\<forall>p \<in> set (sf_steps s). sp_status p = SP_completed \<longrightarrow> p \<in> set (sf_steps t)) \<and>
     set (sf_submissions s) \<subseteq> set (sf_submissions t)"

lemma sess_le_refl: "sess_le s s"
  by (simp add: sess_le_def)

lemma sess_le_trans: "sess_le s t \<Longrightarrow> sess_le t u \<Longrightarrow> sess_le s u"
  by (auto simp: sess_le_def)

lemma session_unique:
  "session_ids s \<Longrightarrow> x \<in> set (sf_sessions s) \<Longrightarrow> y \<in> set (sf_sessions s) \<Longrightarrow> se_id x = se_id y \<Longrightarrow> x = y"
  by (rule key_unique [where key = se_id]) (simp_all add: session_ids_def)

lemma step_unique:
  "session_ids s \<Longrightarrow> x \<in> set (sf_steps s) \<Longrightarrow> y \<in> set (sf_steps s) \<Longrightarrow> sp_id x = sp_id y \<Longrightarrow> x = y"
  by (rule key_unique [where key = sp_id]) (simp_all add: session_ids_def)

lemma find_sessionD:
  assumes "find_session i s = Some x"
  shows "x \<in> set (sf_sessions s)" and "se_id x = i"
  using find_row_SomeD [OF assms [unfolded find_session_def]] by simp_all

lemma find_stepD:
  assumes "find_step i s = Some p"
  shows "p \<in> set (sf_steps s)" and "sp_id p = i"
  using find_row_SomeD [OF assms [unfolded find_step_def]] by simp_all

text \<open>A session that has not ended may change as long as its steps fit its new status.\<close>

lemma session_change:
  assumes inv: "sess_inv s" and x: "x \<in> set (sf_sessions s)" "se_status x \<in> {SE_pending, SE_expired}"
    and f: "\<And>y. se_id (f y) = se_id y"
    and ok: "\<And>p. p \<in> set (sf_steps s) \<Longrightarrow> sp_sessionId p = se_id x \<Longrightarrow> step_ok (se_status x) p \<Longrightarrow> step_ok (se_status (f x)) p"
  shows "sess_inv (update_session now (se_id x) f s)" and "sess_le s (update_session now (se_id x) f s)"
proof -
  let ?s = "update_session now (se_id x) f s"
  have ids: "session_ids s" using inv by (simp add: sess_inv_def)
  have mem: "y \<in> set (sf_sessions ?s) \<longleftrightarrow> y = f x\<lparr>se_updatedAt := now\<rparr> \<or> y \<in> set (sf_sessions s) \<and> se_id y \<noteq> se_id x" for y
    using in_update_key [of se_id "sf_sessions s" x y "\<lambda>y. f y\<lparr>se_updatedAt := now\<rparr>"] ids x(1)
    by (simp add: update_session_def session_ids_def)
  have rest: "sf_steps ?s = sf_steps s" "sf_submissions ?s = sf_submissions s" by (simp_all add: update_session_def)
  have "map se_id (sf_sessions ?s) = map se_id (sf_sessions s)"
    unfolding update_session_def by (simp add: map_update_where f)
  with ids have "session_ids ?s" by (simp add: session_ids_def rest)
  moreover have "steps_ok ?s"
    unfolding steps_ok_def rest
  proof
    fix p assume p: "p \<in> set (sf_steps s)"
    then obtain y where y: "y \<in> set (sf_sessions s)" "se_id y = sp_sessionId p" "step_ok (se_status y) p"
      using inv by (auto simp: sess_inv_def steps_ok_def)
    show "\<exists>y \<in> set (sf_sessions ?s). se_id y = sp_sessionId p \<and> step_ok (se_status y) p"
    proof (cases "se_id y = se_id x")
      case True
      with session_unique [OF ids y(1) x(1)] have "y = x" by simp
      moreover from this ok [OF p] y have "step_ok (se_status (f x)) p" by simp
      moreover have "f x\<lparr>se_updatedAt := now\<rparr> \<in> set (sf_sessions ?s)" using mem by blast
      ultimately show ?thesis using y(2) f [of x] by (intro bexI [of _ "f x\<lparr>se_updatedAt := now\<rparr>"]) simp_all
    next
      case False
      with y mem show ?thesis by blast
    qed
  qed
  moreover have "submissions_ok ?s" using inv by (simp add: sess_inv_def submissions_ok_def rest)
  ultimately show "sess_inv ?s" by (simp add: sess_inv_def)
  have "se_id y \<noteq> se_id x" if "y \<in> set (sf_sessions s)" "se_status y \<in> {SE_completed, SE_failed}" for y
    using session_unique [OF ids that(1) x(1)] that(2) x(2) by auto
  then show "sess_le s ?s" unfolding sess_le_def rest mem by auto
qed

lemma expire_change:
  assumes "sess_inv s" and "x \<in> set (sf_sessions s)" and "se_status x = SE_pending"
  shows "sess_inv (expireSession now (se_id x) s)" and "sess_le s (expireSession now (se_id x) s)"
  using session_change [OF assms(1,2), of "se_status_update (\<lambda>_. SE_expired)" now] assms(3)
  by (simp_all add: expireSession_def step_ok_def)

lemma getSession_inv:
  assumes "sess_inv s"
  shows "sess_inv (snd (getSession now i s))" and "sess_le s (snd (getSession now i s))"
proof -
  have "sess_inv (snd (getSession now i s)) \<and> sess_le s (snd (getSession now i s))"
  proof (cases "find_session i s")
    case None
    then show ?thesis using assms by (simp add: getSession_def sess_le_refl)
  next
    case (Some x)
    note x = find_sessionD [OF Some]
    show ?thesis using expire_change [OF assms x(1), of now] assms Some x(2) by (simp add: getSession_def sess_le_refl)
  qed
  then show "sess_inv (snd (getSession now i s))" and "sess_le s (snd (getSession now i s))" by blast+
qed

lemma getSession_other:
  "sf_steps (snd (getSession now i s)) = sf_steps s" "sf_submissions (snd (getSession now i s)) = sf_submissions s"
  by (simp_all add: getSession_def expireSession_def update_session_def split: option.split)

text \<open>What a caller of \<open>getSession\<close> knows of the session it was given.\<close>

lemma getSession_view:
  assumes "getSession now i s = (Inr v, s1)" and "session_ids s"
  obtains x where "x \<in> set (sf_sessions s1)" "se_id x = i" "se_status x = se_status (sv_session v)"
    "sv_steps v = steps_of i s1"
proof -
  obtain x where x: "find_session i s = Some x" using assms(1) by (auto simp: getSession_def split: option.splits)
  note xs = find_sessionD [OF x]
  show ?thesis
  proof (cases "se_expiresAt x \<noteq> None \<and> the (se_expiresAt x) \<le> now \<and> se_status x = SE_pending")
    case True
    then have s1: "s1 = expireSession now i s" and v: "v = mapSessionToDto (x\<lparr>se_status := SE_expired\<rparr>) (steps_of i s)"
      using assms(1) x by (auto simp: getSession_def)
    have "x\<lparr>se_status := SE_expired, se_updatedAt := now\<rparr> \<in> set (sf_sessions s1)"
      using xs by (force simp: s1 expireSession_def update_session_def set_update_where)
    moreover have "steps_of i s1 = steps_of i s" by (simp add: s1 expireSession_def update_session_def steps_of_def)
    ultimately show ?thesis using xs(2)
      by (intro that [of "x\<lparr>se_status := SE_expired, se_updatedAt := now\<rparr>"]) (simp_all add: v mapSessionToDto_def Let_def)
  next
    case False
    then have "s1 = s" "v = mapSessionToDto x (steps_of i s)" using assms(1) x by (auto simp: getSession_def split: if_splits)
    with xs show ?thesis by (intro that) (simp_all add: mapSessionToDto_def Let_def)
  qed
qed

lemma resume_inv:
  assumes "sess_inv s"
  shows "sess_inv (snd (resumeSession clk i s)) \<and> sess_le s (snd (resumeSession clk i s))"
proof -
  obtain r s1 where g: "getSession (clk 0) i s = (r, s1)" by (cases "getSession (clk 0) i s")
  have s1: "sess_inv s1" "sess_le s s1" using getSession_inv [OF assms, of "clk 0" i] g by simp_all
  show ?thesis
  proof (cases r)
    case (Inr v)
    have ids: "session_ids s" using assms by (simp add: sess_inv_def)
    obtain x where x: "x \<in> set (sf_sessions s1)" "se_id x = i" "se_status x = se_status (sv_session v)"
      using getSession_view [OF g [unfolded Inr] ids] by metis
    define s2 where "s2 = (if se_status (sv_session v) = SE_expired
                      then update_session (clk 2) i
                             (\<lambda>x. x\<lparr>se_status := SE_pending, se_expiresAt := Some (clk 1 + 30 * 60 * 1000)\<rparr>) s1
                      else s1)"
    have "sess_inv s2 \<and> sess_le s1 s2"
      using session_change [OF s1(1) x(1), of "\<lambda>x. x\<lparr>se_status := SE_pending, se_expiresAt := Some (clk 1 + 30 * 60 * 1000)\<rparr>" "clk 2"]
        x(2,3) s1(1) by (simp add: s2_def sess_le_refl step_ok_def)
    with getSession_inv [of s2 "clk 3" i] s1 g Inr show ?thesis
      by (auto simp: resumeSession_def s2_def [symmetric] Let_def intro: sess_le_trans)
  qed (use g s1 in \<open>simp add: resumeSession_def\<close>)
qed

text \<open>One open step changes; if it is completed, its submission is recorded with it.\<close>

lemma step_change:
  assumes inv: "sess_inv s" and p: "p \<in> set (sf_steps s)" "sp_status p \<noteq> SP_completed"
    and F: "\<And>y. sp_id (F y) = sp_id y" "\<And>y. sp_sessionId (F y) = sp_sessionId y"
    and x: "x \<in> set (sf_sessions s)" "se_id x = sp_sessionId p" "step_ok (se_status x) (F p)"
    and new: "if sp_status (F p) = SP_completed
      then bs = [b] \<and> recorded_for (F p) b \<and> sb_submissionKey b \<notin> sb_submissionKey ` set (sf_submissions s)
      else bs = []"
  defines "t \<equiv> s\<lparr>sf_steps := update_where (\<lambda>y. sp_id y = sp_id p) F (sf_steps s),
    sf_submissions := sf_submissions s @ bs\<rparr>"
  shows "sess_inv t" and "sess_le s t"
proof -
  have ids: "session_ids s" and subs: "submissions_ok s" using inv by (simp_all add: sess_inv_def)
  have mem: "y \<in> set (sf_steps t) \<longleftrightarrow> y = F p \<or> y \<in> set (sf_steps s) \<and> sp_id y \<noteq> sp_id p" for y
    using in_update_key [of sp_id "sf_steps s" p y F] ids p(1) by (simp add: t_def session_ids_def)
  have rest: "sf_sessions t = sf_sessions s" "sf_submissions t = sf_submissions s @ bs" by (simp_all add: t_def)
  have steps: "map sp_id (sf_steps t) = map sp_id (sf_steps s)" by (simp add: t_def map_update_where F)
  have unrecorded: "sp_id p' \<noteq> sp_id p" if "p' \<in> set (sf_steps s)" "recorded_for p' c" for p' c
    using step_unique [OF ids that(1) p(1)] that(2) p(2) by (auto simp: recorded_for_def)
  have "Some (sp_id p) \<notin> sb_stepId ` set (sf_submissions s)"
    using subs unrecorded by (fastforce simp: submissions_ok_def recorded_for_def)
  with ids new have "session_ids t"
    by (auto simp: session_ids_def rest steps recorded_for_def F split: if_splits)
  moreover have "steps_ok t"
    unfolding steps_ok_def rest
  proof
    fix y assume "y \<in> set (sf_steps t)"
    then consider "y = F p" | "y \<in> set (sf_steps s)" using mem by blast
    then show "\<exists>x \<in> set (sf_sessions s). se_id x = sp_sessionId y \<and> step_ok (se_status x) y"
    proof cases
      case 1
      then show ?thesis using x by (intro bexI [of _ x]) (simp_all add: F)
    qed (use inv in \<open>simp add: sess_inv_def steps_ok_def\<close>)
  qed
  moreover have "submissions_ok t"
    unfolding submissions_ok_def
  proof
    show "\<forall>c \<in> set (sf_submissions t). \<exists>p' \<in> set (sf_steps t). recorded_for p' c"
      using subs unrecorded new mem by (fastforce simp: rest submissions_ok_def split: if_splits)
    show "\<forall>p' \<in> set (sf_steps t). sp_status p' = SP_completed \<longrightarrow> (\<exists>c \<in> set (sf_submissions t). recorded_for p' c)"
      using subs new mem by (auto simp: rest submissions_ok_def split: if_splits)
  qed
  ultimately show "sess_inv t" by (simp add: sess_inv_def)
  show "sess_le s t"
    using p(2) step_unique [OF ids _ p(1)] by (auto simp: sess_le_def rest mem)
qed

text \<open>Processing a submission, as one change of the step and one of the session.\<close>

definition run_step :: "clock \<Rightarrow> step_row \<Rightarrow> step_row \<Rightarrow> step_row" where
  "run_step clk p y = (if sp_status p = SP_pending
      then y\<lparr>sp_status := SP_in_progress, sp_startedAt := Some (clk 1)\<rparr> else y)\<lparr>sp_attempts := sp_attempts y + 1\<rparr>"

definition end_step :: "clock \<Rightarrow> step_row \<Rightarrow> app_error + members \<Rightarrow> step_row \<Rightarrow> step_row" where
  "end_step clk p r y = (case r of
       Inr result \<Rightarrow> (run_step clk p y)\<lparr>sp_status := SP_completed, sp_output := Some result, sp_completedAt := Some (clk 5)\<rparr>
     | Inl e \<Rightarrow> if sp_maxAttempts p \<le> sp_attempts p + 1
         then (run_step clk p y)\<lparr>sp_status := SP_failed, sp_error := Some (error_message e)\<rparr>
         else (run_step clk p y)\<lparr>sp_error := Some (error_message e)\<rparr>)\<lparr>sp_updatedAt := clk 5\<rparr>"

lemma process_once:
  fixes clk :: clock and rnd :: rat and dto :: submit_dto
  assumes "find_step i s = Some p"
  defines "r \<equiv> executeStepLogic (clk 3) (clk 4) rnd (sp_stepName p) (sm_payload dto)"
  defines "u \<equiv> s\<lparr>sf_steps := update_where (\<lambda>y. sp_id y = i) (end_step clk p r) (sf_steps s)\<rparr>"
  shows "processStepSubmission clk rnd sessionId i dto s =
    (r, case r of
          Inr result \<Rightarrow> checkSessionCompletion (clk 6) sessionId u
        | Inl e \<Rightarrow> if sp_maxAttempts p \<le> sp_attempts p + 1
            then failSession (clk 6) sessionId (''Step '' @ sp_stepName p @ '' failed after ''
                   @ show_int (sp_maxAttempts p) @ '' attempts'') u
            else u)"
proof -
  define s2 where "s2 = update_step (clk 2) i (\<lambda>p. p\<lparr>sp_attempts := sp_attempts p + 1\<rparr>)
    (if sp_status p = SP_pending
     then update_step (clk 1) i (\<lambda>p. p\<lparr>sp_status := SP_in_progress, sp_startedAt := Some (clk 1)\<rparr>) s else s)"
  have s2: "update_step (clk 5) i f s2 = s\<lparr>sf_steps := update_where (\<lambda>y. sp_id y = i)
      (\<lambda>y. f ((run_step clk p y)\<lparr>sp_updatedAt := clk 2\<rparr>)\<lparr>sp_updatedAt := clk 5\<rparr>) (sf_steps s)\<rparr>" for f
    by (cases "sp_status p = SP_pending") (simp_all add: s2_def run_step_def update_step_def update_where_twice)
  have u: "update_step (clk 5) i f s2 = u"
    if "\<And>y. f (y\<lparr>sp_updatedAt := clk 2\<rparr>)\<lparr>sp_updatedAt := clk 5\<rparr> = f y\<lparr>sp_updatedAt := clk 5\<rparr>"
      "\<And>y. f (run_step clk p y)\<lparr>sp_updatedAt := clk 5\<rparr> = end_step clk p r y" for f
    by (simp add: s2 u_def that)
  show ?thesis
    using assms(1) u [symmetric]
    by (cases r) (simp_all add: processStepSubmission_def Let_def r_def [symmetric] s2_def [symmetric] u end_step_def)
qed

lemma end_step_keeps [simp]:
  "sp_id (end_step clk p r y) = sp_id y" "sp_sessionId (end_step clk p r y) = sp_sessionId y"
  "sp_maxAttempts (end_step clk p r y) = sp_maxAttempts y" "sp_attempts (end_step clk p r y) = sp_attempts y + 1"
  by (simp_all add: end_step_def run_step_def split: sum.split)

lemma end_step_status:
  "sp_status (end_step clk p (Inr m) y) = SP_completed" "sp_output (end_step clk p (Inr m) y) = Some m"
  "sp_status p \<noteq> SP_completed \<Longrightarrow> sp_status (end_step clk p (Inl e) p) \<noteq> SP_completed"
  "sp_status p \<noteq> SP_skipped \<Longrightarrow> sp_status (end_step clk p r p) \<noteq> SP_skipped"
  by (auto simp: end_step_def run_step_def split: sum.split)

lemma step_ok_run:
  assumes "step_ok SE_pending p" and "sp_status p \<noteq> SP_completed"
  shows "step_ok SE_pending (end_step clk p (Inr m) p)" and "step_ok SE_failed (end_step clk p r p)"
    and "\<not> sp_maxAttempts p \<le> sp_attempts p + 1 \<Longrightarrow> step_ok SE_pending (end_step clk p (Inl e) p)"
  using assms end_step_status(1) [of clk p] end_step_status(3,4) [of p clk]
  by (auto simp: step_ok_def)

lemma update_commute:
  "update_session now i f (s\<lparr>sf_steps := ps, sf_submissions := bs\<rparr>) =
     (update_session now i f s)\<lparr>sf_steps := ps, sf_submissions := bs\<rparr>"
  "update_session now i f (s\<lparr>sf_steps := ps\<rparr>) = (update_session now i f s)\<lparr>sf_steps := ps\<rparr>"
  by (simp_all add: update_session_def)

lemma submit_run:
  fixes clk :: clock and rnd :: rat and dto :: submit_dto
  assumes inv: "sess_inv s" and x: "x \<in> set (sf_sessions s)" "se_status x = SE_pending"
    and p: "find_step i s = Some p" "sp_sessionId p = se_id x" "sp_status p \<noteq> SP_completed"
    and fresh: "sm_submissionKey dto \<notin> sb_submissionKey ` set (sf_submissions s)"
  defines "r \<equiv> processStepSubmission clk rnd (se_id x) i dto s"
  shows "case fst r of
      Inl e \<Rightarrow> sess_inv (snd r) \<and> sess_le s (snd r)
    | Inr m \<Rightarrow> (let t = (snd r)\<lparr>sf_submissions := sf_submissions (snd r) @ [\<lparr>sb_id = newId, sb_sessionId = se_id x,
          sb_stepId = Some i, sb_submissionKey = sm_submissionKey dto, sb_payload = sm_payload dto,
          sb_response = m, sb_createdAt = now\<rparr>]\<rparr>
        in sess_inv t \<and> sess_le s t)"
proof -
  note ps = find_stepD [OF p(1)]
  have ids: "session_ids s" using inv by (simp add: sess_inv_def)
  obtain y where y: "y \<in> set (sf_sessions s)" "se_id y = sp_sessionId p" "step_ok (se_status y) p"
    using inv ps(1) by (auto simp: sess_inv_def steps_ok_def)
  with session_unique [OF ids y(1) x(1)] p(2) x(2) have ok: "step_ok SE_pending p" by simp
  define res where "res = executeStepLogic (clk 3) (clk 4) rnd (sp_stepName p) (sm_payload dto)"
  define u where "u = s\<lparr>sf_steps := update_where (\<lambda>y. sp_id y = i) (end_step clk p res) (sf_steps s)\<rparr>"
  note once = process_once [where clk = clk and rnd = rnd and dto = dto and sessionId = "se_id x", OF p(1), folded res_def, folded u_def, folded r_def]
  show ?thesis
  proof (cases res)
    case (Inl e)
    show ?thesis
    proof (cases "sp_maxAttempts p \<le> sp_attempts p + 1")
      case True
      let ?f = "\<lambda>x. x\<lparr>se_status := SE_failed, se_failedAt := Some (clk 6), se_metadata :=
        [(''failureReason'', JStr (''Step '' @ sp_stepName p @ '' failed after '' @ show_int (sp_maxAttempts p) @ '' attempts''))]\<rparr>"
      let ?s1 = "update_session (clk 6) (se_id x) ?f s"
      have s1: "sess_inv ?s1" "sess_le s ?s1"
        by (rule session_change [OF inv x(1)]; simp add: x(2) step_ok_def)+
      have "?f x\<lparr>se_updatedAt := clk 6\<rparr> \<in> set (sf_sessions ?s1)"
        using in_update_where_changed [OF x(1), of "\<lambda>y. se_id y = se_id x" "\<lambda>y. ?f y\<lparr>se_updatedAt := clk 6\<rparr>"]
        by (simp add: update_session_def)
      from step_change [OF s1(1) _ p(3) _ _ this, of "end_step clk p res" "[]"] step_ok_run(2) [OF ok p(3)] ps p(2)
        end_step_status(3) [OF p(3)] Inl
      have "sess_inv (snd r)" "sess_le ?s1 (snd r)"
        by (simp_all add: once True u_def failSession_def update_commute) (simp_all add: update_session_def)
      with s1(2) show ?thesis using once Inl by (auto intro: sess_le_trans)
    next
      case False
      from step_change [OF inv ps(1) p(3) _ _ x(1) p(2) [symmetric], of "end_step clk p res" "[]"] Inl
        step_ok_run(3) [OF ok p(3) False] end_step_status(3) [OF p(3)] x(2) ps(2)
      have "sess_inv u" "sess_le s u" by (simp_all add: u_def)
      with once Inl False show ?thesis by simp
    qed
  next
    case (Inr m)
    let ?b = "\<lparr>sb_id = newId, sb_sessionId = se_id x, sb_stepId = Some i, sb_submissionKey = sm_submissionKey dto,
      sb_payload = sm_payload dto, sb_response = m, sb_createdAt = now\<rparr>"
    let ?u = "u\<lparr>sf_submissions := sf_submissions s @ [?b]\<rparr>"
    have u: "sess_inv ?u" "sess_le s ?u"
      using step_change [OF inv ps(1) p(3) _ _ x(1) p(2) [symmetric], of "end_step clk p res" "[?b]" ?b] Inr
        step_ok_run(1) [OF ok p(3)] end_step_status(1,2) x(2) ps(2) fresh p(2)
      by (simp_all add: u_def recorded_for_def)
    have fin: "sess_inv (update_session (clk 6) (se_id x) (\<lambda>x. x\<lparr>se_status := SE_completed, se_completedAt := Some (clk 6)\<rparr>) ?u)"
      "sess_le ?u (update_session (clk 6) (se_id x) (\<lambda>x. x\<lparr>se_status := SE_completed, se_completedAt := Some (clk 6)\<rparr>) ?u)"
      if "list_all step_done (filter (\<lambda>p. sp_sessionId p = se_id x) (sf_steps u))"
      using session_change [OF u(1), of x "\<lambda>x. x\<lparr>se_status := SE_completed, se_completedAt := Some (clk 6)\<rparr>" "clk 6"] x that
      by (auto simp: u_def step_ok_def step_done_def list_all_iff)
    have "find_session (se_id x) u = Some x"
      using find_row_key [of se_id "sf_sessions s" x] ids x(1) by (simp add: u_def find_session_def session_ids_def)
    then have r: "fst r = Inr m" "(snd r)\<lparr>sf_submissions := sf_submissions (snd r) @ [?b]\<rparr> =
        (if list_all step_done (filter (\<lambda>p. sp_sessionId p = se_id x) (sf_steps u))
         then update_session (clk 6) (se_id x) (\<lambda>x. x\<lparr>se_status := SE_completed, se_completedAt := Some (clk 6)\<rparr>) ?u else ?u)"
      using once Inr by (simp_all add: checkSessionCompletion_def u_def update_session_def)
    show ?thesis unfolding r(1) using fin u sess_le_trans [OF u(2)] by (simp add: Let_def r(2))
  qed
qed

lemma submit_inv:
  assumes "sess_inv s"
  shows "sess_inv (snd (submitToStep clk rnd newId sessionId stepId dto s)) \<and>
    sess_le s (snd (submitToStep clk rnd newId sessionId stepId dto s))"
proof (cases "find_row (\<lambda>b. sb_submissionKey b = sm_submissionKey dto) (sf_submissions s)")
  case None
  then have fresh: "sm_submissionKey dto \<notin> sb_submissionKey ` set (sf_submissions s)"
    by (auto simp: find_row_None_iff)
  obtain r s1 where g: "getSession (clk 0) sessionId s = (r, s1)" by (cases "getSession (clk 0) sessionId s")
  have s1: "sess_inv s1" "sess_le s s1" using getSession_inv [OF assms, of "clk 0" sessionId] g by simp_all
  have subs: "sf_submissions s1 = sf_submissions s" using getSession_other(2) [of "clk 0" sessionId s] g by simp
  show ?thesis
  proof (cases r)
    case (Inr v)
    have ids: "session_ids s" "session_ids s1" using assms s1(1) by (simp_all add: sess_inv_def)
    obtain x where x: "x \<in> set (sf_sessions s1)" "se_id x = sessionId" "se_status x = se_status (sv_session v)"
      "sv_steps v = steps_of sessionId s1"
      using getSession_view [OF g [unfolded Inr] ids(1)] .
    show ?thesis
    proof (cases "se_status (sv_session v) = SE_pending \<and>
        (\<exists>p. find (\<lambda>p. sp_id p = stepId) (sv_steps v) = Some p \<and> sp_status p \<noteq> SP_completed)")
      case True
      then obtain p where p: "find (\<lambda>p. sp_id p = stepId) (sv_steps v) = Some p" "sp_status p \<noteq> SP_completed" by blast
      from find_row_SomeD [OF p(1) [folded find_row_def]]
      have "p \<in> set (sf_steps s1)" "sp_sessionId p = sessionId" "sp_id p = stepId"
        by (auto simp: x(4) steps_of_def)
      moreover from this ids(2) have "find_step stepId s1 = Some p"
        using find_row_key [of sp_id "sf_steps s1" p] by (simp add: find_step_def session_ids_def)
      moreover have "sm_submissionKey dto \<notin> sb_submissionKey ` set (sf_submissions s1)" using fresh subs by simp
      moreover have "se_status x = SE_pending" using True x(3) by simp
      ultimately have run: "case fst (processStepSubmission clk rnd sessionId stepId dto s1) of
          Inl e \<Rightarrow> sess_inv (snd (processStepSubmission clk rnd sessionId stepId dto s1)) \<and>
            sess_le s1 (snd (processStepSubmission clk rnd sessionId stepId dto s1))
        | Inr m \<Rightarrow> (let t = (snd (processStepSubmission clk rnd sessionId stepId dto s1))\<lparr>sf_submissions :=
              sf_submissions (snd (processStepSubmission clk rnd sessionId stepId dto s1)) @ [\<lparr>sb_id = newId,
                sb_sessionId = sessionId, sb_stepId = Some stepId, sb_submissionKey = sm_submissionKey dto,
                sb_payload = sm_payload dto, sb_response = m, sb_createdAt = clk 7\<rparr>]\<rparr>
            in sess_inv t \<and> sess_le s1 t)"
        using submit_run [OF s1(1) x(1), of stepId p dto clk rnd newId "clk 7", unfolded x(2)] p(2) by blast
      obtain r2 s2 where r2: "processStepSubmission clk rnd sessionId stepId dto s1 = (r2, s2)"
        by (cases "processStepSubmission clk rnd sessionId stepId dto s1")
      show ?thesis
        using run True p None g Inr r2 sess_le_trans [OF s1(2)]
        by (cases r2) (simp_all add: submitToStep_def Let_def)
    next
      case False
      then show ?thesis using None g Inr s1 by (auto simp: submitToStep_def split: option.split)
    qed
  qed (use None g s1 in \<open>simp add: submitToStep_def\<close>)
qed (use assms in \<open>simp add: submitToStep_def sess_le_refl\<close>)

lemma create_session_inv:
  assumes inv: "sess_inv s" and fresh: "newId \<notin> se_id ` set (sf_sessions s)"
    and ids: "distinct stepIds" "set stepIds \<inter> sp_id ` set (sf_steps s) = {}"
  shows "sess_inv (snd (createSession clk newId stepIds dto s)) \<and> sess_le s (snd (createSession clk newId stepIds dto s))"
proof (cases "cs_expiresAt dto \<noteq> None \<and> the (cs_expiresAt dto) \<le> clk 0")
  case True
  then show ?thesis using inv by (simp add: createSession_def sess_le_refl)
next
  case False
  define defs where "defs = (case cs_steps dto of None \<Rightarrow> [] | Some ds \<Rightarrow> ds)"
  define new where "new = map (new_step (clk 1) newId) (zip stepIds (zip [0..<length defs] defs))"
  define x where "x = \<lparr>se_id = newId, se_type = cs_type dto, se_status = SE_pending, se_contextId = cs_contextId dto,
              se_metadata = (case cs_metadata dto of None \<Rightarrow> [] | Some m \<Rightarrow> m),
              se_expiresAt = cs_expiresAt dto, se_createdAt = clk 1, se_updatedAt = clk 1,
              se_completedAt = None, se_failedAt = None\<rparr>"
  have t: "snd (createSession clk newId stepIds dto s) =
      s\<lparr>sf_sessions := sf_sessions s @ [x], sf_steps := sf_steps s @ new\<rparr>" (is "_ = ?t")
    unfolding createSession_def if_not_P [OF False] by (simp only: Let_def snd_conv defs_def new_def x_def)
  have step: "sp_sessionId p = newId" "sp_status p = SP_pending" "step_ok SE_pending p" if "p \<in> set new" for p
    using that by (auto simp: new_def new_step_def step_ok_def)
  have "map sp_id new = take (length defs) stepIds"
    by (rule nth_equalityI) (auto simp: new_def new_step_def)
  then have new: "distinct (map sp_id new)" "sp_id ` set new \<inter> sp_id ` set (sf_steps s) = {}"
    using ids set_take_subset [of "length defs" stepIds] by (auto simp: image_set simp del: set_map)
  have "session_ids ?t"
    using inv fresh new by (auto simp: sess_inv_def session_ids_def x_def)
  moreover have "steps_ok ?t"
    using inv step by (auto simp: sess_inv_def steps_ok_def x_def)
  moreover have "submissions_ok ?t"
    using inv step(2) by (auto simp: sess_inv_def submissions_ok_def)
  ultimately show ?thesis unfolding t by (auto simp: sess_inv_def sess_le_def)
qed

section \<open>Runs\<close>

inductive session_step :: "session_state \<Rightarrow> session_state \<Rightarrow> bool" where
  creating_session: "newId \<notin> se_id ` set (sf_sessions s) \<Longrightarrow> distinct stepIds \<Longrightarrow>
    set stepIds \<inter> sp_id ` set (sf_steps s) = {} \<Longrightarrow>
    session_step s (snd (createSession clk newId stepIds dto s))"
| getting: "session_step s (snd (getSession now i s))"
| submitting: "session_step s (snd (submitToStep clk rnd newId sessionId stepId sdto s))"
| resuming: "session_step s (snd (resumeSession clk i s))"

inductive_cases session_stepE: "session_step s t"

lemma session_step_ok:
  assumes "session_step s t" and "sess_inv s"
  shows "sess_inv t \<and> sess_le s t"
  using assms(1)
  by (rule session_stepE) (simp_all add: create_session_inv getSession_inv submit_inv resume_inv assms(2))

interpretation sessions: mono_system session_step sess_inv sess_le
proof unfold_locales
  show "sess_inv t" if "session_step s t" "sess_inv s" for s t using session_step_ok [OF that] by blast
  show "sess_le s s" for s by (rule sess_le_refl)
  show "sess_le s u" if "sess_le s t" "sess_le t u" for s t u using that by (rule sess_le_trans)
  show "sess_le s t" if "session_step s t" "sess_inv s" for s t using session_step_ok [OF that] by blast
qed

definition no_sessions :: session_state where
  "no_sessions = \<lparr>sf_sessions = [], sf_steps = [], sf_submissions = []\<rparr>"

lemma no_sessions_inv: "sess_inv no_sessions"
  by (simp add: no_sessions_def sess_inv_def session_ids_def steps_ok_def submissions_ok_def)

lemma run_sess_inv: "session_step\<^sup>*\<^sup>* no_sessions s \<Longrightarrow> sess_inv s"
  using sessions.run_keeps no_sessions_inv by blast

section \<open>What the service promises\<close>

lemma run_sess_le:
  assumes "session_step\<^sup>*\<^sup>* no_sessions s" and "session_step\<^sup>*\<^sup>* s t"
  shows "sess_inv t" and "sess_le s t"
  using sessions.run_keeps [OF assms(2) run_sess_inv [OF assms(1)]]
    sessions.run_le [OF assms(2) run_sess_inv [OF assms(1)]] by simp_all

text \<open>A new submission is in the table afterwards, as it was returned.\<close>

lemma submit_recorded:
  assumes "submitToStep clk rnd newId i p dto s = (Inr v, t)"
  obtains b where "b \<in> set (sf_submissions t)" "sb_submissionKey b = sm_submissionKey dto"
    "view_submission True b = v\<lparr>su_isIdempotent := True\<rparr>"
proof (cases "find_row (\<lambda>b. sb_submissionKey b = sm_submissionKey dto) (sf_submissions s)")
  case (Some b)
  with assms have "v = view_submission True b" "t = s" by (simp_all add: submitToStep_def)
  with find_row_SomeD [OF Some] show ?thesis by (intro that) (simp_all add: view_submission_def)
next
  case None
  let ?b = "\<lambda>r. \<lparr>sb_id = newId, sb_sessionId = i, sb_stepId = Some p, sb_submissionKey = sm_submissionKey dto,
    sb_payload = sm_payload dto, sb_response = r, sb_createdAt = clk 7\<rparr>"
  from None assms have "\<exists>r. ?b r \<in> set (sf_submissions t) \<and> v = view_submission False (?b r)"
    by (auto simp: submitToStep_def Let_def split: sum.splits prod.splits if_splits option.splits)
  then obtain r where "?b r \<in> set (sf_submissions t)" "v = view_submission False (?b r)" by blast
  then show ?thesis by (intro that [of "?b r"]) (simp_all add: view_submission_def)
qed

lemma find_submission:
  assumes "session_ids s" and "b \<in> set (sf_submissions s)"
  shows "find_row (\<lambda>c. sb_submissionKey c = sb_submissionKey b) (sf_submissions s) = Some b"
  using assms by (intro find_row_key) (simp_all add: session_ids_def)

text \<open>
  A session of one step for the witnesses: a wrong code, then the right one.
\<close>

definition demo_session_dto :: create_session_dto where
  "demo_session_dto = \<lparr>cs_type = Multi_step_verification, cs_contextId = None, cs_metadata = None,
     cs_expiresAt = None, cs_steps = Some
       [\<lparr>sd_stepName = ''otp_validation'', sd_stepOrder = None, sd_maxAttempts = Some 2, sd_input = None\<rparr>]\<rparr>"

definition demo_code :: "string \<Rightarrow> string \<Rightarrow> submit_dto" where
  "demo_code k c = \<lparr>sm_submissionKey = k, sm_payload = [(''code'', JStr c), (''expectedCode'', JStr ''7'')]\<rparr>"

definition demo_created :: session_state where
  "demo_created = snd (createSession (\<lambda>k. 0) ''s'' [''p''] demo_session_dto no_sessions)"

definition demo_refused :: session_state where
  "demo_refused = snd (submitToStep (\<lambda>k. int k) 0 ''b'' ''s'' ''p'' (demo_code ''k'' ''6'') demo_created)"

definition demo_ended :: session_state where
  "demo_ended = snd (submitToStep (\<lambda>k. int k) 0 ''b'' ''s'' ''p'' (demo_code ''k'' ''7'') demo_refused)"

lemma demo_runs:
  "session_step\<^sup>*\<^sup>* no_sessions demo_created" "session_step\<^sup>*\<^sup>* no_sessions demo_refused"
  "session_step\<^sup>*\<^sup>* no_sessions demo_ended"
proof -
  have "session_step no_sessions demo_created"
    unfolding demo_created_def by (rule creating_session) (simp_all add: no_sessions_def)
  then show 1: "session_step\<^sup>*\<^sup>* no_sessions demo_created" by blast
  have "session_step demo_created demo_refused" unfolding demo_refused_def by (rule submitting)
  with 1 show 2: "session_step\<^sup>*\<^sup>* no_sessions demo_refused" by simp
  have "session_step demo_refused demo_ended" unfolding demo_ended_def by (rule submitting)
  with 2 show "session_step\<^sup>*\<^sup>* no_sessions demo_ended" by simp
qed

text \<open>The last request of the run, computed: it is accepted and completes the session.\<close>

lemma demo_completes:
  "case submitToStep (\<lambda>k. int k) 0 ''b'' ''s'' ''p'' (demo_code ''k'' ''7'') demo_refused of
     (Inl e, t) \<Rightarrow> False
   | (Inr v, t) \<Rightarrow> list_all (\<lambda>x. se_id x = ''s'' \<and> se_status x = SE_completed) (sf_sessions t) \<and>
       list_all (\<lambda>p. sp_sessionId p = ''s'') (sf_steps t) \<and> sf_steps t \<noteq> []"
  by code_simp

text \<open>
  C18. Limited attempts: in every run of session requests, no step was ever attempted more often than
  its limit allows (a limit below one still allows one attempt), and a step that used up its attempts
  is completed or its session has failed.
\<close>

theorem step_attempts_limited:
  assumes "session_step\<^sup>*\<^sup>* no_sessions s" and "p \<in> set (sf_steps s)"
  shows "sp_attempts p \<le> max 1 (sp_maxAttempts p) \<and>
    (sp_attempts p = max 1 (sp_maxAttempts p) \<and> sp_status p \<noteq> SP_completed \<longrightarrow>
      (\<exists>x \<in> set (sf_sessions s). se_id x = sp_sessionId p \<and> se_status x = SE_failed))"
proof -
  obtain x where x: "x \<in> set (sf_sessions s)" "se_id x = sp_sessionId p" "step_ok (se_status x) p"
    using run_sess_inv [OF assms(1)] assms(2) by (auto simp: sess_inv_def steps_ok_def)
  then show ?thesis by (cases "se_status x") (auto simp: step_ok_def)
qed

theorem step_attempts_limited_witness:
  "\<exists>p. find_step ''p'' demo_created = Some p \<and> sp_attempts p \<le> max 1 (sp_maxAttempts p)"
proof -
  obtain p where p: "find_step ''p'' demo_created = Some p"
    by (simp add: demo_created_def demo_session_dto_def createSession_def no_sessions_def new_step_def find_step_def find_row_Cons Let_def)
  from step_attempts_limited [OF demo_runs(1) find_stepD(1) [OF p]] p show ?thesis by blast
qed

text \<open>
  A completed session is fully recorded: in every run, when a session is completed all its steps
  are, and for each of them exactly one submission is stored, made in that session, whose response is
  the output of the step.
\<close>

theorem completed_session_recorded:
  assumes "session_step\<^sup>*\<^sup>* no_sessions s"
    and "x \<in> set (sf_sessions s)" "se_status x = SE_completed"
    and "p \<in> set (sf_steps s)" "sp_sessionId p = se_id x"
  shows "sp_status p = SP_completed \<and>
    (\<exists>b. filter (\<lambda>c. sb_stepId c = Some (sp_id p)) (sf_submissions s) = [b] \<and>
      sb_sessionId b = se_id x \<and> sp_output p = Some (sb_response b))"
proof -
  have inv: "sess_inv s" by (rule run_sess_inv [OF assms(1)])
  then have ids: "session_ids s" by (simp add: sess_inv_def)
  obtain y where y: "y \<in> set (sf_sessions s)" "se_id y = sp_sessionId p" "step_ok (se_status y) p"
    using inv assms(4) by (auto simp: sess_inv_def steps_ok_def)
  with session_unique [OF ids y(1) assms(2)] assms(3,5) have c: "sp_status p = SP_completed"
    by (simp add: step_ok_def)
  then obtain b where b: "b \<in> set (sf_submissions s)" "recorded_for p b"
    using inv assms(4) by (auto simp: sess_inv_def submissions_ok_def)
  have "filter (\<lambda>c. sb_stepId c = Some (sp_id p)) (sf_submissions s) = [b]"
    using ids b by (intro filter_key_single [where key = sb_stepId]) (simp_all add: session_ids_def recorded_for_def)
  with c b(2) assms(5) show ?thesis by (auto simp: recorded_for_def)
qed

theorem completed_session_recorded_witness:
  "\<exists>p \<in> set (sf_steps demo_ended). sp_status p = SP_completed \<and>
     (\<exists>b. filter (\<lambda>c. sb_stepId c = Some (sp_id p)) (sf_submissions demo_ended) = [b])"
proof -
  have d: "list_all (\<lambda>x. se_id x = ''s'' \<and> se_status x = SE_completed) (sf_sessions demo_ended)"
    "list_all (\<lambda>p. sp_sessionId p = ''s'') (sf_steps demo_ended)" "sf_steps demo_ended \<noteq> []"
    using demo_completes unfolding demo_ended_def by (auto split: prod.splits sum.splits)
  then obtain p where p: "p \<in> set (sf_steps demo_ended)" "sp_sessionId p = ''s''"
    by (cases "sf_steps demo_ended") (simp_all, blast)
  then obtain x where x: "x \<in> set (sf_sessions demo_ended)" "se_id x = sp_sessionId p"
    using run_sess_inv [OF demo_runs(3)] by (auto simp: sess_inv_def steps_ok_def)
  with d(1) have "se_status x = SE_completed" by (simp add: list_all_iff)
  from completed_session_recorded [OF demo_runs(3) x(1) this p(1) x(2) [symmetric]] p(1) show ?thesis by blast
qed

text \<open>
  C23. Submissions are idempotent: once a submission was answered, a submission with the same key is
  answered with the stored one and changes nothing, in every later state, for whatever session, step
  and payload it names.
\<close>

theorem submission_replayed:
  fixes clk clk' :: clock and rnd rnd' :: rat
  assumes "session_step\<^sup>*\<^sup>* no_sessions s"
    and "submitToStep clk rnd newId i p dto s = (Inr v, t)"
    and "session_step\<^sup>*\<^sup>* t u" and "sm_submissionKey dto' = sm_submissionKey dto"
  shows "submitToStep clk' rnd' newId' i' p' dto' u = (Inr (v\<lparr>su_isIdempotent := True\<rparr>), u)"
proof -
  obtain b where b: "b \<in> set (sf_submissions t)" "sb_submissionKey b = sm_submissionKey dto"
    "view_submission True b = v\<lparr>su_isIdempotent := True\<rparr>"
    by (rule submit_recorded [OF assms(2)])
  have "session_step s t" using submitting [of s clk rnd newId i p dto] assms(2) by simp
  with assms(1) have "session_step\<^sup>*\<^sup>* no_sessions t" by simp
  from run_sess_le [OF this assms(3)] b(1) have "session_ids u" "b \<in> set (sf_submissions u)"
    by (auto simp: sess_inv_def sess_le_def)
  from find_submission [OF this] b(2,3) assms(4) show ?thesis by (simp add: submitToStep_def)
qed

theorem submission_replayed_witness:
  "\<exists>v. submitToStep (\<lambda>k. int k) 0 ''b'' ''s'' ''p'' (demo_code ''k'' ''7'') demo_refused = (Inr v, demo_ended) \<and>
     submitToStep (\<lambda>k. 99) 0 ''b9'' ''other'' ''p9'' (demo_code ''k'' ''5'') demo_ended =
       (Inr (v\<lparr>su_isIdempotent := True\<rparr>), demo_ended)"
proof -
  obtain v where v: "submitToStep (\<lambda>k. int k) 0 ''b'' ''s'' ''p'' (demo_code ''k'' ''7'') demo_refused = (Inr v, demo_ended)"
    using demo_completes by (auto simp: demo_ended_def prod_eq_iff split: prod.splits sum.splits)
  have "sm_submissionKey (demo_code ''k'' ''5'') = sm_submissionKey (demo_code ''k'' ''7'')" by (simp add: demo_code_def)
  from submission_replayed [OF demo_runs(2) v rtranclp.rtrancl_refl this] v show ?thesis by blast
qed

text \<open>
  The check of an identity decides nothing: a submission to an identity step that carries both
  documents completes the step whatever score it is given, also when its response says that the
  check failed.
\<close>

theorem failed_check_completes:
  fixes clk :: clock and rnd :: rat
  assumes "find_step i s = Some p" and "sp_stepName p = ''identity_verification''"
    and "js_truthy (map_of (sm_payload dto) ''identityDocument'')" "js_truthy (map_of (sm_payload dto) ''personalInfo'')"
    and "rnd * 100 \<le> 70"
  shows "\<exists>r t q. processStepSubmission clk rnd sessionId i dto s = (Inr r, t) \<and>
    map_of r ''success'' = Some (JBool False) \<and>
    q \<in> set (sf_steps t) \<and> sp_id q = i \<and> sp_status q = SP_completed \<and> sp_output q = Some r"
proof -
  define r where "r = [(''success'', JBool (70 < rnd * 100)), (''score'', JNum (rnd * 100)),
        (''verificationId'', JStr (''verify_'' @ show_int (clk 3))), (''timestamp'', JStr (toISOString (clk 4)))]"
  have run: "executeStepLogic (clk 3) (clk 4) rnd (sp_stepName p) (sm_payload dto) = Inr r"
    using assms(3,4) by (simp add: executeStepLogic_def verifyIdentity_def r_def assms(2))
  define t where "t = checkSessionCompletion (clk 6) sessionId
    (s\<lparr>sf_steps := update_where (\<lambda>y. sp_id y = i) (end_step clk p (Inr r)) (sf_steps s)\<rparr>)"
  have "processStepSubmission clk rnd sessionId i dto s = (Inr r, t)"
    using process_once [where clk = clk and rnd = rnd and dto = dto and sessionId = sessionId, OF assms(1), unfolded run]
    by (simp add: t_def)
  moreover have "end_step clk p (Inr r) p \<in> set (sf_steps t)"
    using in_update_where_changed [of p "sf_steps s" "\<lambda>y. sp_id y = i" "end_step clk p (Inr r)"] find_stepD [OF assms(1)]
    by (simp add: t_def checkSessionCompletion_def update_session_def split: option.split)
  moreover have "map_of r ''success'' = Some (JBool False)" using assms(5) by (simp add: r_def)
  ultimately show ?thesis using find_stepD [OF assms(1)] end_step_status(1,2) [of clk p r p] by force
qed

definition demo_identity :: session_state where
  "demo_identity = snd (createSession (\<lambda>k. 0) ''s'' [''p1''] (demo_session_dto\<lparr>cs_steps := Some
     [\<lparr>sd_stepName = ''identity_verification'', sd_stepOrder = None, sd_maxAttempts = None, sd_input = None\<rparr>]\<rparr>) no_sessions)"

theorem failed_check_completes_witness:
  "\<exists>r t. processStepSubmission (\<lambda>k. 5) 0 ''s'' ''p1'' \<lparr>sm_submissionKey = ''k'', sm_payload =
      [(''identityDocument'', JStr ''d''), (''personalInfo'', JStr ''i'')]\<rparr> demo_identity = (Inr r, t) \<and>
     map_of r ''success'' = Some (JBool False)"
proof -
  obtain p where "find_step ''p1'' demo_identity = Some p" "sp_stepName p = ''identity_verification''"
    by (simp add: demo_identity_def demo_session_dto_def createSession_def no_sessions_def new_step_def find_step_def find_row_Cons Let_def)
  from failed_check_completes [OF this, where clk = "\<lambda>k. 5" and rnd = 0 and sessionId = "''s''"
      and dto = "\<lparr>sm_submissionKey = ''k'', sm_payload = [(''identityDocument'', JStr ''d''), (''personalInfo'', JStr ''i'')]\<rparr>"]
  show ?thesis by auto
qed

end
