(* ===== verification/Bytes.thy ===== *)
theory Bytes
  imports Prelude "HOL-Library.Word"
begin

text \<open>
  Node's \<open>Buffer\<close> as the services use it: a list of bytes, its hexadecimal text and the reading of
  such a text, which stops at the first pair that is not hexadecimal.
\<close>

type_synonym bytes = "8 word list"

definition hex_byte :: "8 word \<Rightarrow> string" where
  "hex_byte b = [hex_digit (unat b div 16), hex_digit (unat b mod 16)]"

definition hex_text :: "bytes \<Rightarrow> string" where
  "hex_text bs = concat (map hex_byte bs)"

fun from_hex :: "string \<Rightarrow> bytes" where
  "from_hex (a # b # rest) =
     (case (hex_digit_value a, hex_digit_value b) of
        (Some x, Some y) \<Rightarrow> of_nat (16 * x + y) # from_hex rest
      | _ \<Rightarrow> [])"
| "from_hex _ = []"

text \<open>\<open>String.split\<close> with one character.\<close>

fun split_char :: "char \<Rightarrow> string \<Rightarrow> string list" where
  "split_char c [] = [[]]"
| "split_char c (x # xs) =
     (if x = c then [] # split_char c xs
      else (case split_char c xs of [] \<Rightarrow> [[x]] | p # ps \<Rightarrow> (x # p) # ps))"

lemma hex_byte_length: "length (concat (map hex_byte bs)) = 2 * length bs"
  by (induction bs) (simp_all add: hex_byte_def)

lemma byte_halves: "16 * (unat b div 16) + unat b mod 16 = unat (b :: 8 word)" "unat b div 16 < 16"
  using unsigned_less [of b, where 'a = nat] by simp_all

lemma from_hex_text [simp]: "from_hex (hex_text bs) = bs"
proof (induction bs)
  case (Cons b bs)
  then show ?case
    by (simp add: hex_text_def hex_byte_def hex_digit_back byte_halves)
qed (simp add: hex_text_def)

lemma hex_text_inj: "hex_text x = hex_text y \<longleftrightarrow> x = y"
  by (metis from_hex_text)

text \<open>A colon separates texts of hexadecimal digits.\<close>

lemma hex_digit_no_colon: "n < 16 \<Longrightarrow> hex_digit n \<noteq> CHR '':''"
  using hex_digit_back [of n] by (auto simp: hex_digit_value_def)

lemma hex_text_no_colon: "CHR '':'' \<notin> set (hex_text bs)"
proof (induction bs)
  case (Cons b bs)
  then show ?case
    using hex_digit_no_colon [of "unat b div 16"] hex_digit_no_colon [of "unat b mod 16"] byte_halves(2) [of b]
    by (auto simp: hex_text_def hex_byte_def)
qed (simp add: hex_text_def)

lemma split_plain: "c \<notin> set p \<Longrightarrow> split_char c p = [p]"
  by (induction p) auto

lemma split_next: "c \<notin> set p \<Longrightarrow> split_char c (p @ c # rest) = p # split_char c rest"
  by (induction p) auto

end
