(* ===== verification/RequestLayer.thy ===== *)
theory RequestLayer
  imports VerificationRecord Bytes
begin

text \<open>
  The HTTP layer of the mobile app: \<open>src/app/mobile/src/services/requestLayer.ts\<close>. A request is sent
  again after a failure, with a growing random delay, up to a number of retries; a 429 answer is
  waited out as the server asks. The network, the clock, \<open>Math.random\<close> and \<open>Date.parse\<close> are the
  parameters \<open>net_env\<close>: the \<open>n\<close>-th \<open>fetch\<close> of the device has the answer \<open>ne_fetch env request n\<close>, and
  what the code reads of clock and randomness around it has the same index. The deadline of a
  request shows only as a \<open>fetch\<close> that rejects. The log lines are left out; the waits and the requests
  sent are recorded.
\<close>

section \<open>Data\<close>

datatype http_method = GET | POST | PUT | PATCH | DELETE

text \<open>A body is a JSON value, or the form of one chunk of a file: bytes, file name, index, checksum.\<close>

datatype http_body = NoBody | JsonBody json | ChunkForm bytes string nat string

record http_request =
  rq_method :: http_method
  rq_path :: string
  rq_body :: http_body
  rq_headers :: "(string \<times> string) list"

record http_response =
  hr_status :: int
  hr_retryAfter :: "string option"
  hr_body :: "string + json"

record net_env =
  ne_fetch :: "http_request \<Rightarrow> nat \<Rightarrow> string + http_response"
  ne_clock :: "nat \<Rightarrow> time"
  ne_random :: "nat \<Rightarrow> rat"
  ne_dateParse :: "string \<Rightarrow> time option"
  ne_apiKey :: "string option"

record request_config =
  rc_method :: http_method
  rc_path :: string
  rc_body :: "json option"
  rc_headers :: "(string \<times> string) list"
  rc_maxRetries :: "int option"
  rc_idempotencyKey :: "string option"
  rc_correlationId :: string

text \<open>\<open>RateLimitedError\<close> carries the delay the server asked for.\<close>

datatype net_error = OtherError string | RateLimitedError "int option" string

fun net_message :: "net_error \<Rightarrow> string" where
  "net_message (OtherError m) = m"
| "net_message (RateLimitedError ra m) = m"

definition response_ok :: "http_response \<Rightarrow> bool" where
  "response_ok r \<longleftrightarrow> 200 \<le> hr_status r \<and> hr_status r \<le> 299"

section \<open>Keys\<close>

text \<open>\<open>uuidV4\<close> from the 16 bytes of \<open>crypto.getRandomValues\<close>.\<close>

definition uuid_bytes :: "bytes \<Rightarrow> bytes" where
  "uuid_bytes buf = (let b1 = buf[6 := or (and (buf ! 6) 0x0F) 0x40] in b1[8 := or (and (b1 ! 8) 0x3F) 0x80])"

definition substring :: "nat \<Rightarrow> nat \<Rightarrow> string \<Rightarrow> string" where
  "substring i j s = take (j - i) (drop i s)"

definition uuidV4 :: "bytes \<Rightarrow> string" where
  "uuidV4 random =
     (let hex = concat (map hex_byte (uuid_bytes random))
      in substring 0 8 hex @ ''-'' @ substring 8 12 hex @ ''-'' @ substring 12 16 hex @ ''-'' @
         substring 16 20 hex @ ''-'' @ drop 20 hex)"

section \<open>Delays\<close>

definition backoffMs :: "rat \<Rightarrow> nat \<Rightarrow> int" where
  "backoffMs random attempt = \<lfloor>random * of_int (min (200 * 2 ^ attempt) 10000)\<rfloor>"

definition isRetryable :: "int \<Rightarrow> bool" where
  "isRetryable status \<longleftrightarrow> status = 408 \<or> status = 429 \<or> (500 \<le> status \<and> status \<le> 599)"

text \<open>A number of seconds beyond the range of a double is not finite.\<close>

definition parseRetryAfterMs :: "(string \<Rightarrow> time option) \<Rightarrow> time \<Rightarrow> string option \<Rightarrow> int option" where
  "parseRetryAfterMs dateParse now header =
     (case header of
        None \<Rightarrow> None
      | Some h \<Rightarrow>
          let trimmed = trim h
          in if trimmed = [] then None
             else if list_all is_digit trimmed then
               (if 2 ^ 1024 \<le> digits_value trimmed then None else Some (digits_value trimmed * 1000))
             else (case dateParse trimmed of
                 None \<Rightarrow> None
               | Some dateMs \<Rightarrow> Some (if 0 < dateMs - now then dateMs - now else 0)))"

definition rateLimitDelayMs :: "rat \<Rightarrow> int \<Rightarrow> int option \<Rightarrow> nat \<Rightarrow> int" where
  "rateLimitDelayMs random consecutiveRateLimits retryAfterMs attempt =
     (let streak = max 1 consecutiveRateLimits;
          jittered = backoffMs random attempt;
          streakFloor = min (200 * 2 ^ nat streak) 10000 * (if 1 < streak then streak else 1)
      in case retryAfterMs of
           Some ra \<Rightarrow> max ra (max (if 1 < streak then streakFloor else 0) (if 1 < streak then jittered else 0))
         | None \<Rightarrow> max jittered streakFloor)"

definition isRateLimitedError :: "net_error \<Rightarrow> bool" where
  "isRateLimitedError e = (case e of RateLimitedError ra m \<Rightarrow> True
     | OtherError m \<Rightarrow> str_includes (toLowerCase m) ''429'' \<or> str_includes (toLowerCase m) ''rate limit'' \<or>
         str_includes (toLowerCase m) ''too many requests'')"

section \<open>The request\<close>

definition merge_headers :: "(string \<times> string) list \<Rightarrow> (string \<times> string) list \<Rightarrow> (string \<times> string) list" where
  "merge_headers base extra = fold (\<lambda>(k, v). AList.update k v) extra base"

definition buildCorrelationHeaders :: "string \<Rightarrow> (string \<times> string) list" where
  "buildCorrelationHeaders i = [(''x-correlation-id'', i), (''x-request-id'', i)]"

definition build_request :: "net_env \<Rightarrow> string \<Rightarrow> request_config \<Rightarrow> http_request" where
  "build_request env uuid cfg =
     (let isIdempotent = (rc_method cfg = GET \<or> rc_method cfg = DELETE);
          key = (if isIdempotent then None
                 else Some (case rc_idempotencyKey cfg of None \<Rightarrow> uuid | Some k \<Rightarrow> k));
          base = merge_headers (merge_headers [(''Content-Type'', ''application/json'')] (rc_headers cfg))
            (buildCorrelationHeaders (rc_correlationId cfg));
          keyed = (if truthy key then merge_headers base [(''Idempotency-Key'', the key)] else base)
      in \<lparr>rq_method = rc_method cfg, rq_path = rc_path cfg,
          rq_body = (case rc_body cfg of None \<Rightarrow> NoBody | Some JNull \<Rightarrow> NoBody | Some b \<Rightarrow> JsonBody b),
          rq_headers = (if truthy (ne_apiKey env) then merge_headers keyed [(''x-api-key'', the (ne_apiKey env))] else keyed)\<rparr>)"

record api_state =
  as_retries :: int
  as_rateLimits :: int
  as_retryAfter :: "int option"
  as_lastError :: "net_error option"
  as_next :: nat
  as_sent :: "http_request list"
  as_delays :: "int list"

datatype attempt_outcome = Continue | Break | Answer int json

text \<open>The \<open>catch\<close> of an attempt: it is repeated unless it was the last.\<close>

definition attempt_failed :: "rat \<Rightarrow> int \<Rightarrow> nat \<Rightarrow> net_error \<Rightarrow> api_state \<Rightarrow> attempt_outcome \<times> api_state" where
  "attempt_failed random maxRetries attempt e s =
     (let s1 = s\<lparr>as_lastError := Some e\<rparr>
      in if int attempt < maxRetries then
           (Continue, s1\<lparr>as_retries := as_retries s1 + 1, as_delays := as_delays s1 @ [backoffMs random attempt]\<rparr>)
         else (Continue, s1))"

definition api_attempt :: "net_env \<Rightarrow> int \<Rightarrow> http_request \<Rightarrow> nat \<Rightarrow> api_state \<Rightarrow> attempt_outcome \<times> api_state" where
  "api_attempt env maxRetries req attempt s0 =
     (let n = as_next s0;
          random = ne_random env n;
          s = s0\<lparr>as_next := n + 1, as_sent := as_sent s0 @ [req]\<rparr>
      in case ne_fetch env req n of
           Inl m \<Rightarrow> attempt_failed random maxRetries attempt (OtherError m) s
         | Inr response \<Rightarrow>
             if \<not> response_ok response then
               let status = hr_status response;
                   errText = ''HTTP '' @ show_int status;
                   s1 = (if status = 429
                         then s\<lparr>as_rateLimits := as_rateLimits s + 1,
                                as_retryAfter := parseRetryAfterMs (ne_dateParse env) (ne_clock env n) (hr_retryAfter response)\<rparr>
                         else s\<lparr>as_rateLimits := 0, as_retryAfter := None\<rparr>)
               in if isRetryable status \<and> int attempt < maxRetries then
                    (Continue, s1\<lparr>as_retries := as_retries s1 + 1, as_delays := as_delays s1 @
                       [if status = 429 then rateLimitDelayMs random (as_rateLimits s1) (as_retryAfter s1) attempt
                        else backoffMs random attempt]\<rparr>)
                  else if status = 429 then
                    (Break, s1\<lparr>as_lastError := Some (RateLimitedError (as_retryAfter s1) errText)\<rparr>)
                  else attempt_failed random maxRetries attempt (OtherError errText) s1
             else
               let s1 = s\<lparr>as_rateLimits := 0, as_retryAfter := None\<rparr>
               in (case hr_body response of
                     Inl m \<Rightarrow> attempt_failed random maxRetries attempt (OtherError m) s1
                   | Inr d \<Rightarrow> (Answer (hr_status response) d, s1)))"

record api_response =
  ar_status :: int
  ar_data :: json
  ar_retries :: int

definition api_error :: "api_state \<Rightarrow> net_error" where
  "api_error s = (case as_lastError s of None \<Rightarrow> OtherError ''Request failed after retries'' | Some e \<Rightarrow> e)"

function api_loop ::
  "net_env \<Rightarrow> int \<Rightarrow> http_request \<Rightarrow> nat \<Rightarrow> api_state \<Rightarrow> (net_error + api_response) \<times> api_state" where
  "api_loop env maxRetries req attempt s =
     (if int attempt \<le> maxRetries then
        (case api_attempt env maxRetries req attempt s of
           (Continue, s1) \<Rightarrow> api_loop env maxRetries req (attempt + 1) s1
         | (Break, s1) \<Rightarrow> (Inl (api_error s1), s1)
         | (Answer st d, s1) \<Rightarrow> (Inr \<lparr>ar_status = st, ar_data = d, ar_retries = as_retries s1\<rparr>, s1))
      else (Inl (api_error s), s))"
  by pat_completeness auto
termination
  by (relation "measure (\<lambda>(env, maxRetries, req, attempt, s). nat (maxRetries + 1 - int attempt))") auto

declare api_loop.simps [simp del]

definition apiRequest ::
  "net_env \<Rightarrow> string \<Rightarrow> request_config \<Rightarrow> nat \<Rightarrow> (net_error + api_response) \<times> api_state" where
  "apiRequest env uuid cfg n =
     api_loop env (case rc_maxRetries cfg of None \<Rightarrow> 3 | Some m \<Rightarrow> m) (build_request env uuid cfg) 0
       \<lparr>as_retries = 0, as_rateLimits = 0, as_retryAfter = None, as_lastError = None, as_next = n,
        as_sent = [], as_delays = []\<rparr>"

text \<open>
  \<open>apiRequest\<close> takes every body to end. The deadline of an attempt is cleared once its headers have arrived, so
  nothing ends the wait for the body of a 2xx answer: \<open>stalls\<close> says of which calls of \<open>fetch\<close> the body never comes,
  and \<open>None\<close> is a request that does not return.
\<close>

definition awaits_body :: "net_env \<Rightarrow> http_request \<Rightarrow> nat \<Rightarrow> bool" where
  "awaits_body env req n \<longleftrightarrow> (case ne_fetch env req n of Inl m \<Rightarrow> False | Inr response \<Rightarrow> response_ok response)"

function api_loop_awaiting ::
  "net_env \<Rightarrow> (nat \<Rightarrow> bool) \<Rightarrow> int \<Rightarrow> http_request \<Rightarrow> nat \<Rightarrow> api_state \<Rightarrow> ((net_error + api_response) \<times> api_state) option" where
  "api_loop_awaiting env stalls maxRetries req attempt s =
     (if int attempt \<le> maxRetries then
        if awaits_body env req (as_next s) \<and> stalls (as_next s) then None
        else (case api_attempt env maxRetries req attempt s of
           (Continue, s1) \<Rightarrow> api_loop_awaiting env stalls maxRetries req (attempt + 1) s1
         | (Break, s1) \<Rightarrow> Some (Inl (api_error s1), s1)
         | (Answer st d, s1) \<Rightarrow> Some (Inr \<lparr>ar_status = st, ar_data = d, ar_retries = as_retries s1\<rparr>, s1))
      else Some (Inl (api_error s), s))"
  by pat_completeness auto
termination
  by (relation "measure (\<lambda>(env, stalls, maxRetries, req, attempt, s). nat (maxRetries + 1 - int attempt))") auto

declare api_loop_awaiting.simps [simp del]

definition apiRequest_awaiting ::
  "net_env \<Rightarrow> (nat \<Rightarrow> bool) \<Rightarrow> string \<Rightarrow> request_config \<Rightarrow> nat \<Rightarrow> ((net_error + api_response) \<times> api_state) option" where
  "apiRequest_awaiting env stalls uuid cfg n =
     api_loop_awaiting env stalls (case rc_maxRetries cfg of None \<Rightarrow> 3 | Some m \<Rightarrow> m) (build_request env uuid cfg) 0
       \<lparr>as_retries = 0, as_rateLimits = 0, as_retryAfter = None, as_lastError = None, as_next = n,
        as_sent = [], as_delays = []\<rparr>"

section \<open>What a request does\<close>

text \<open>
  The longest wait after the attempt that made call \<open>n\<close> of \<open>fetch\<close>, the \<open>i\<close>-th of its request: the bound of the
  backoff, or after a 429 what the server asks for, without a bound, and at least 10 seconds for each attempt made.
\<close>

definition longest_wait :: "net_env \<Rightarrow> http_request \<Rightarrow> nat \<Rightarrow> nat \<Rightarrow> int" where
  "longest_wait env req n i =
     (case ne_fetch env req n of
        Inl m \<Rightarrow> min (200 * 2 ^ i) 10000
      | Inr r \<Rightarrow>
          if hr_status r = 429 then
            max (case parseRetryAfterMs (ne_dateParse env) (ne_clock env n) (hr_retryAfter r) of None \<Rightarrow> 0 | Some ra \<Rightarrow> ra)
              (10000 * (int i + 1))
          else min (200 * 2 ^ i) 10000)"

definition waits_ok :: "net_env \<Rightarrow> http_request \<Rightarrow> nat \<Rightarrow> int list \<Rightarrow> bool" where
  "waits_ok env req n ds \<longleftrightarrow> (\<forall>i < length ds. 0 \<le> ds ! i \<and> ds ! i \<le> longest_wait env req (n + i) i)"

definition random_ok :: "net_env \<Rightarrow> bool" where
  "random_ok env \<longleftrightarrow> (\<forall>n. 0 \<le> ne_random env n \<and> ne_random env n < 1)"

lemma backoff_range:
  assumes "0 \<le> x" and "x < 1"
  shows "0 \<le> backoffMs x a" and "backoffMs x a < 200 * 2 ^ a" and "backoffMs x a < 10000"
proof -
  have m: "0 < min (200 * 2 ^ a) (10000 :: int)" by simp
  from assms(1) m show "0 \<le> backoffMs x a" unfolding backoffMs_def by (intro zero_le_floor [THEN iffD2]) simp
  from assms(2) m have "x * of_int (min (200 * 2 ^ a) 10000) < of_int (min (200 * 2 ^ a) 10000)"
    using mult_strict_right_mono [OF assms(2), of "of_int (min (200 * 2 ^ a) 10000)"] by (simp del: of_int_min)
  then have "backoffMs x a < min (200 * 2 ^ a) 10000" unfolding backoffMs_def floor_less_iff .
  then show "backoffMs x a < 200 * 2 ^ a" "backoffMs x a < 10000" by simp_all
qed

lemma rate_limit_delay_range:
  assumes "0 \<le> x" "x < 1" and "k \<le> int a + 1"
  shows "0 \<le> rateLimitDelayMs x k ra a"
    and "rateLimitDelayMs x k ra a \<le> max (case ra of None \<Rightarrow> 0 | Some r \<Rightarrow> r) (10000 * (int a + 1))"
proof -
  define streak where "streak = max 1 k"
  have streak: "1 \<le> streak" "streak \<le> int a + 1" using assms(3) by (simp_all add: streak_def)
  define floor where "floor = min (200 * 2 ^ nat streak) 10000 * (if 1 < streak then streak else 1)"
  have "floor = min (200 * 2 ^ nat streak) 10000 * streak" using streak(1) by (simp add: floor_def)
  also have "\<dots> \<le> 10000 * streak" using streak(1) by (intro mult_right_mono) simp_all
  finally have top: "floor \<le> 10000 * (int a + 1)" using streak(2) by simp
  have bottom: "0 \<le> floor" by (simp add: floor_def)
  have jitter: "0 \<le> backoffMs x a" "backoffMs x a \<le> 10000 * (int a + 1)"
    using backoff_range [OF assms(1,2), of a] by simp_all
  show "0 \<le> rateLimitDelayMs x k ra a"
    using jitter bottom by (auto simp: rateLimitDelayMs_def Let_def le_max_iff_disj split: option.split)
  show "rateLimitDelayMs x k ra a \<le> max (case ra of None \<Rightarrow> 0 | Some r \<Rightarrow> r) (10000 * (int a + 1))"
    unfolding rateLimitDelayMs_def Let_def streak_def [symmetric] floor_def [symmetric]
    using jitter top by (auto split: option.split)
qed

text \<open>
  One attempt sends the request once; if it is repeated, one delay is waited. \<open>at_attempt\<close> is what holds when attempt
  \<open>a\<close> of a request that began at call \<open>n\<close> starts.
\<close>

definition at_attempt :: "net_env \<Rightarrow> http_request \<Rightarrow> nat \<Rightarrow> nat \<Rightarrow> api_state \<Rightarrow> bool" where
  "at_attempt env req n a s \<longleftrightarrow> as_next s = n + a \<and> as_rateLimits s \<le> int a \<and> length (as_delays s) = a \<and>
     as_retries s = int a \<and> as_sent s = replicate a req \<and> waits_ok env req n (as_delays s)"

lemma waits_ok_snoc:
  "waits_ok env req n ds \<Longrightarrow> 0 \<le> d \<Longrightarrow> d \<le> longest_wait env req (n + length ds) (length ds) \<Longrightarrow> waits_ok env req n (ds @ [d])"
  by (auto simp: waits_ok_def nth_append less_Suc_eq)

lemma attempt_once:
  assumes "api_attempt env m req a s = (x, t)" and "random_ok env" and s: "at_attempt env req n a s"
  shows "as_sent t = replicate (Suc a) req" and "waits_ok env req n (as_delays t)"
    and "if x = Continue \<and> int a < m then at_attempt env req n (a + 1) t
         else as_retries t = as_retries s \<and> as_delays t = as_delays s"
proof -
  have r: "0 \<le> ne_random env (n + a)" "ne_random env (n + a) < 1" using assms(2) by (simp_all add: random_ok_def)
  have sent: "as_sent s @ [req] = replicate (Suc a) req" using s by (simp add: at_attempt_def replicate_append_same)
  have waits: "waits_ok env req n (as_delays s)" "length (as_delays s) = a" using s by (simp_all add: at_attempt_def)
  have backoff: "waits_ok env req n (as_delays s @ [backoffMs (ne_random env (n + a)) a])"
    if "longest_wait env req (n + a) a = min (200 * 2 ^ a) 10000"
    using backoff_range [OF r, of a] waits that by (intro waits_ok_snoc) simp_all
  have limited: "waits_ok env req n (as_delays s @ [rateLimitDelayMs (ne_random env (n + a)) (as_rateLimits s + 1)
      (parseRetryAfterMs (ne_dateParse env) (ne_clock env (n + a)) (hr_retryAfter r')) a])"
    if "ne_fetch env req (n + a) = Inr r'" "hr_status r' = 429" for r'
    using rate_limit_delay_range [OF r, of "as_rateLimits s + 1" a] s waits that
    by (intro waits_ok_snoc) (simp_all add: at_attempt_def longest_wait_def)
  have plain: "longest_wait env req (n + a) a = min (200 * 2 ^ a) 10000"
    if "\<And>r'. ne_fetch env req (n + a) = Inr r' \<Longrightarrow> hr_status r' \<noteq> 429"
    using that by (auto simp: longest_wait_def split: sum.split)
  have ok: "hr_status r' \<noteq> 429" if "response_ok r'" for r' using that by (simp add: response_ok_def)
  have next_call: "as_next s = n + a" using s by (simp add: at_attempt_def)
  have cases: "as_sent t = as_sent s @ [req] \<and>
      (if x = Continue \<and> int a < m then
         \<exists>d. as_delays t = as_delays s @ [d] \<and> waits_ok env req n (as_delays t) \<and> as_retries t = as_retries s + 1 \<and>
           as_next t = n + a + 1 \<and> as_rateLimits t \<le> int a + 1
       else as_retries t = as_retries s \<and> as_delays t = as_delays s)"
  proof (cases "ne_fetch env req (n + a)")
    case (Inl e)
    then show ?thesis using assms(1) backoff plain s
      by (simp add: api_attempt_def attempt_failed_def next_call at_attempt_def Let_def split: if_splits) auto
  next
    case (Inr r')
    show ?thesis
    proof (cases "response_ok r'")
      case True
      with ok Inr have "longest_wait env req (n + a) a = min (200 * 2 ^ a) 10000" by (intro plain) auto
      from backoff [OF this] True Inr show ?thesis using assms(1) s
        by (cases "hr_body r'") (auto simp: api_attempt_def attempt_failed_def next_call at_attempt_def Let_def split: if_splits)
    next
      case False
      show ?thesis
      proof (cases "hr_status r' = 429")
        case True
        from limited [OF Inr this] False Inr True show ?thesis using assms(1) s
          by (auto simp: api_attempt_def attempt_failed_def next_call at_attempt_def Let_def isRetryable_def split: if_splits)
      next
        case other: False
        with Inr have "longest_wait env req (n + a) a = min (200 * 2 ^ a) 10000" by (intro plain) auto
        from backoff [OF this] False Inr other show ?thesis using assms(1) s
          by (auto simp: api_attempt_def attempt_failed_def next_call at_attempt_def Let_def split: if_splits)
      qed
    qed
  qed
  then show "as_sent t = replicate (Suc a) req" using sent by simp
  show "waits_ok env req n (as_delays t)" using cases waits(1) by (auto split: if_splits)
  show "if x = Continue \<and> int a < m then at_attempt env req n (a + 1) t
      else as_retries t = as_retries s \<and> as_delays t = as_delays s"
    using cases sent s by (auto simp: at_attempt_def)
qed

text \<open>Either the request ends, or the body of one of its answers never comes.\<close>

lemma loop_sends:
  assumes "random_ok env" and "at_attempt env req n a s" and "int a \<le> m"
  shows "(\<exists>r t k. api_loop_awaiting env stalls m req a s = Some (r, t) \<and> int (a + k) \<le> m \<and>
      as_sent t = replicate (Suc (a + k)) req \<and> as_retries t = int (a + k) \<and>
      length (as_delays t) = a + k \<and> waits_ok env req n (as_delays t) \<and>
      (case r of Inl e \<Rightarrow> True | Inr x \<Rightarrow> ar_retries x = as_retries t)) \<or>
    (\<exists>k. api_loop_awaiting env stalls m req a s = None \<and> int (a + k) \<le> m \<and>
      awaits_body env req (n + (a + k)) \<and> stalls (n + (a + k)))"
  using assms
proof (induction "nat (m - int a)" arbitrary: a s rule: less_induct)
  case less
  note s = less.prems(2)
  have next_call: "as_next s = n + a" using s by (simp add: at_attempt_def)
  show ?case
  proof (cases "awaits_body env req (n + a) \<and> stalls (n + a)")
    case True
    then show ?thesis using less.prems(3) by (intro disjI2 exI [of _ 0]) (simp add: api_loop_awaiting.simps [of env stalls m] next_call)
  next
    case go: False
    obtain x t where x: "api_attempt env m req a s = (x, t)" by force
    note once = attempt_once [OF x less.prems(1,2)]
    have loop: "api_loop_awaiting env stalls m req a s = (case x of
        Continue \<Rightarrow> api_loop_awaiting env stalls m req (a + 1) t | Break \<Rightarrow> Some (Inl (api_error t), t)
      | Answer st d \<Rightarrow> Some (Inr \<lparr>ar_status = st, ar_data = d, ar_retries = as_retries t\<rparr>, t))"
      using less.prems(3) x by (simp add: api_loop_awaiting.simps [of env stalls m req a] next_call if_not_P [OF go])
    show ?thesis
    proof (cases "x = Continue \<and> int a < m")
      case True
      then have "at_attempt env req n (a + 1) t" using once(3) by simp
      note IH = less.hyps [OF _ less.prems(1) this]
      have again: "api_loop_awaiting env stalls m req a s = api_loop_awaiting env stalls m req (a + 1) t"
        using loop True by simp
      have "nat (m - int (a + 1)) < nat (m - int a)" "int (a + 1) \<le> m" using True by simp_all
      from IH [OF this] show ?thesis
      proof (elim disjE exE conjE, goal_cases)
        case (1 r t' k)
        then show ?thesis unfolding again by (intro disjI1 exI [of _ r] exI [of _ t'] exI [of _ "1 + k"]) (simp add: add.assoc)
      next
        case (2 k)
        then show ?thesis unfolding again by (intro disjI2 exI [of _ "1 + k"]) (simp add: add.assoc)
      qed
    next
      case False
      then have t: "as_retries t = int a" "length (as_delays t) = a" using once(3) s by (simp_all add: at_attempt_def)
      have "\<exists>r. api_loop_awaiting env stalls m req a s = Some (r, t) \<and> (case r of Inl e \<Rightarrow> True | Inr x \<Rightarrow> ar_retries x = as_retries t)"
        using False loop less.prems(3) by (cases x) (auto simp: api_loop_awaiting.simps [of env stalls m req "Suc a"])
      with t once(1,2) less.prems(3) show ?thesis by (intro disjI1) (metis add.right_neutral)
    qed
  qed
qed

text \<open>Where every body ends, this is \<open>apiRequest\<close>.\<close>

lemma loop_awaits: "api_loop_awaiting env (\<lambda>_. False) m req a s = Some (api_loop env m req a s)"
proof (induction env m req a s rule: api_loop.induct)
  case (1 env m req a s)
  then show ?case
    by (subst api_loop_awaiting.simps, subst api_loop.simps) (auto split: prod.split attempt_outcome.split)
qed

definition max_retries :: "request_config \<Rightarrow> int" where
  "max_retries cfg = (case rc_maxRetries cfg of None \<Rightarrow> 3 | Some m \<Rightarrow> m)"

text \<open>
  C34. A request is bounded: \<open>apiRequest\<close> sends one and the same request, body, headers and idempotency key included,
  at least once and at most \<open>maxRetries\<close> + 1 times, with one wait between two attempts, and returns; unless the body
  of a 2xx answer never comes, whose wait has no deadline. The \<open>i\<close>-th wait is at most 200 * 2^\<open>i\<close> ms and at most 10
  seconds, except after a 429, where it is at most the larger of what the server's Retry-After demands, which the code
  does not cap, and 10 seconds for each attempt so far.
\<close>

theorem request_bounded:
  assumes "random_ok env" and "0 \<le> max_retries cfg"
  shows "((\<exists>r t k. apiRequest_awaiting env stalls uuid cfg n = Some (r, t) \<and> int k \<le> max_retries cfg \<and>
        as_sent t = replicate (Suc k) (build_request env uuid cfg) \<and> length (as_delays t) = k \<and>
        (\<forall>i < k. 0 \<le> as_delays t ! i \<and> as_delays t ! i \<le> longest_wait env (build_request env uuid cfg) (n + i) i) \<and>
        (case r of Inl e \<Rightarrow> True | Inr a \<Rightarrow> ar_retries a = int k)) \<or>
      (\<exists>k response. apiRequest_awaiting env stalls uuid cfg n = None \<and> int k \<le> max_retries cfg \<and>
        ne_fetch env (build_request env uuid cfg) (n + k) = Inr response \<and> response_ok response \<and> stalls (n + k))) \<and>
    ((\<forall>k. \<not> stalls k) \<longrightarrow> apiRequest_awaiting env stalls uuid cfg n = Some (apiRequest env uuid cfg n))"
proof -
  let ?req = "build_request env uuid cfg"
  let ?s = "\<lparr>as_retries = 0, as_rateLimits = 0, as_retryAfter = None, as_lastError = None, as_next = n,
    as_sent = [], as_delays = []\<rparr>"
  have run: "apiRequest_awaiting env stalls uuid cfg n = api_loop_awaiting env stalls (max_retries cfg) ?req 0 ?s"
    by (simp add: apiRequest_awaiting_def max_retries_def)
  have start: "at_attempt env ?req n 0 ?s" "int 0 \<le> max_retries cfg" using assms(2) by (simp_all add: at_attempt_def waits_ok_def)
  have complete: "apiRequest_awaiting env stalls uuid cfg n = Some (apiRequest env uuid cfg n)" if "\<forall>k. \<not> stalls k"
  proof -
    have "stalls = (\<lambda>_. False)" using that by auto
    then show ?thesis using loop_awaits [of env "max_retries cfg" ?req 0 ?s] run by (simp add: apiRequest_def max_retries_def)
  qed
  show ?thesis
    using loop_sends [OF assms(1) start, of stalls, folded run, unfolded add_0_left]
  proof (elim disjE exE conjE)
    fix r t k
    assume "apiRequest_awaiting env stalls uuid cfg n = Some (r, t)" "int k \<le> max_retries cfg"
      "as_sent t = replicate (Suc k) ?req" "as_retries t = int k" "length (as_delays t) = k"
      "waits_ok env ?req n (as_delays t)" "case r of Inl e \<Rightarrow> True | Inr x \<Rightarrow> ar_retries x = as_retries t"
    then show ?thesis using complete
      by (intro conjI disjI1 exI [of _ r] exI [of _ t] exI [of _ k]) (simp_all only: waits_ok_def, auto)
  next
    fix k
    assume "apiRequest_awaiting env stalls uuid cfg n = None" "int k \<le> max_retries cfg" "awaits_body env ?req (n + k)" "stalls (n + k)"
    then show ?thesis using complete by (intro conjI disjI2 exI [of _ k]) (auto simp: awaits_body_def split: sum.splits)
  qed
qed

text \<open>A network with one answer for everything, for the witnesses.\<close>

definition demo_net :: "int \<Rightarrow> net_env" where
  "demo_net status = \<lparr>ne_fetch = (\<lambda>_ _. Inr \<lparr>hr_status = status, hr_retryAfter = None, hr_body = Inr JNull\<rparr>),
     ne_clock = int, ne_random = (\<lambda>_. 0), ne_dateParse = (\<lambda>_. None), ne_apiKey = None\<rparr>"

definition demo_post :: request_config where
  "demo_post = \<lparr>rc_method = POST, rc_path = ''/claims/c1/submit'', rc_body = None, rc_headers = [],
     rc_maxRetries = None, rc_idempotencyKey = Some ''k1'', rc_correlationId = ''x''\<rparr>"

theorem request_bounded_witness:
  "\<exists>r t k. apiRequest_awaiting (demo_net 503) (\<lambda>_. False) ''u'' demo_post 0 = Some (r, t) \<and>
     as_sent t = replicate (Suc k) (build_request (demo_net 503) ''u'' demo_post) \<and> int k \<le> 3"
proof -
  have hyps: "random_ok (demo_net 503)" "0 \<le> max_retries demo_post" and three: "max_retries demo_post = 3"
    by (simp_all add: random_ok_def demo_net_def max_retries_def demo_post_def)
  from request_bounded [OF hyps, of "\<lambda>_. False" "''u''" 0] show ?thesis unfolding three by blast
qed

lemma refused_attempt:
  assumes "ne_fetch env req (as_next s) = Inr resp" and "hr_status resp = st" and "\<not> isRetryable st" and "\<not> (200 \<le> st \<and> st \<le> 299)"
  shows "\<exists>t. api_attempt env m req a s = (Continue, t) \<and> as_sent t = as_sent s @ [req] \<and>
    as_lastError t = Some (OtherError (''HTTP '' @ show_int st))"
  using assms by (auto simp: api_attempt_def attempt_failed_def Let_def response_ok_def isRetryable_def)

lemma refused_loop:
  assumes "\<And>n. \<exists>resp. ne_fetch env req n = Inr resp \<and> hr_status resp = st"
    and "\<not> isRetryable st" and "\<not> (200 \<le> st \<and> st \<le> 299)" and "int a \<le> m"
  shows "\<exists>t. api_loop env m req a s = (Inl (OtherError (''HTTP '' @ show_int st)), t) \<and>
    as_sent t = as_sent s @ replicate (nat (m + 1 - int a)) req"
  using assms(4)
proof (induction "nat (m - int a)" arbitrary: a s)
  case 0
  then have m: "m = int a" by simp
  obtain resp where "ne_fetch env req (as_next s) = Inr resp" "hr_status resp = st" using assms(1) by blast
  from refused_attempt [OF this assms(2,3), of "int a" a] show ?case
    by (auto simp: m api_loop.simps [of env "int a" req a] api_loop.simps [of env "int a" req "Suc a"] api_error_def)
next
  case (Suc d)
  obtain resp where "ne_fetch env req (as_next s) = Inr resp" "hr_status resp = st" using assms(1) by blast
  from refused_attempt [OF this assms(2,3), of m a] obtain t where
    t: "api_attempt env m req a s = (Continue, t)" "as_sent t = as_sent s @ [req]" by blast
  have "nat (m + 1 - int a) = Suc (nat (m + 1 - int (a + 1)))" using Suc(2) by simp
  with Suc(1) [of "a + 1" t] Suc(2,3) t show ?case by (simp add: api_loop.simps [of env m req a])
qed

text \<open>
  Refusals are retried. When the server refuses a request with a status that is not retryable
  (400, 401, 404, 409, ...), the request is sent again all the same, \<open>maxRetries\<close> + 1 times in all, and
  ends with the error of that status: the exception thrown for the refusal is caught by the
  \<open>catch\<close> of the same loop.
\<close>

theorem refusals_are_retried:
  assumes "\<And>n. \<exists>resp. ne_fetch env (build_request env uuid cfg) n = Inr resp \<and> hr_status resp = st"
    and "\<not> isRetryable st" and "\<not> (200 \<le> st \<and> st \<le> 299)" and "0 \<le> max_retries cfg"
  shows "\<exists>t. apiRequest env uuid cfg n = (Inl (OtherError (''HTTP '' @ show_int st)), t) \<and>
    as_sent t = replicate (nat (max_retries cfg + 1)) (build_request env uuid cfg)"
  unfolding apiRequest_def max_retries_def [symmetric]
  using refused_loop [OF assms(1-3), of 0 "max_retries cfg" "\<lparr>as_retries = 0, as_rateLimits = 0, as_retryAfter = None,
    as_lastError = None, as_next = n, as_sent = [], as_delays = []\<rparr>"] assms(4) by simp

theorem refusals_are_retried_witness:
  "\<exists>t. apiRequest (demo_net 409) ''u'' demo_post 0 = (Inl (OtherError ''HTTP 409''), t) \<and> length (as_sent t) = 4"
proof -
  have "show_int 409 = ''409''" by code_simp
  with refusals_are_retried [of "demo_net 409" "''u''" demo_post 409 0] show ?thesis
    by (auto simp: demo_net_def isRetryable_def max_retries_def demo_post_def)
qed

lemma version_bits: "unat (or (and b 0x0F) 0x40 :: 8 word) div 16 = 4"
proof -
  have "drop_bit 4 (or (and b 0x0F) 0x40) = (4 :: 8 word)"
    by (rule bit_word_eqI) (auto simp: bit_simps numeral_eq_Suc less_Suc_eq)
  then have "unat (drop_bit 4 (or (and b 0x0F) 0x40) :: 8 word) = 4" by simp
  then show ?thesis by (simp add: drop_bit_eq_div unat_div)
qed

lemma variant_bits: "unat (or (and b 0x3F) 0x80 :: 8 word) div 16 \<in> {8, 9, 10, 11}"
proof -
  have "drop_bit 6 (or (and b 0x3F) 0x80) = (2 :: 8 word)"
    by (rule bit_word_eqI) (auto simp: bit_simps numeral_eq_Suc less_Suc_eq)
  then have "unat (drop_bit 6 (or (and b 0x3F) 0x80) :: 8 word) = 2" by simp
  then have "unat (or (and b 0x3F) 0x80 :: 8 word) div 64 = 2" by (simp add: drop_bit_eq_div unat_div)
  then have "unat (or (and b 0x3F) 0x80 :: 8 word) div 16 div 4 = 2" by (simp flip: div_mult2_eq)
  moreover have "x \<in> {8, 9, 10, 11}" if "x div 4 = 2" for x :: nat
    using that by (simp only: insert_iff empty_iff) presburger
  ultimately show ?thesis by blast
qed

lemma hex_nth:
  assumes "i < length bs"
  shows "concat (map hex_byte bs) ! (2 * i) = hex_digit (unat (bs ! i) div 16)"
  using assms
proof (induction bs arbitrary: i)
  case (Cons b bs)
  then show ?case by (cases i) (simp_all add: hex_byte_def)
qed simp

lemma hex_digits: "hex_digit 4 = CHR ''4'' \<and> hex_digit 8 = CHR ''8'' \<and> hex_digit 9 = CHR ''9'' \<and>
    hex_digit 10 = CHR ''a'' \<and> hex_digit 11 = CHR ''b''"
  by code_simp

lemma dashed_nth:
  assumes "length a = 8" "length b = 4" "length c = 4" "length d = 4" "length e = 12"
  shows "length (a @ ''-'' @ b @ ''-'' @ c @ ''-'' @ d @ ''-'' @ e) = 36 \<and>
    (\<forall>i \<in> {8, 13, 18, 23}. (a @ ''-'' @ b @ ''-'' @ c @ ''-'' @ d @ ''-'' @ e) ! i = CHR ''-'') \<and>
    (a @ ''-'' @ b @ ''-'' @ c @ ''-'' @ d @ ''-'' @ e) ! 14 = c ! 0 \<and>
    (a @ ''-'' @ b @ ''-'' @ c @ ''-'' @ d @ ''-'' @ e) ! 19 = d ! 0"
  using assms by (simp add: nth_append)

lemma dashed_others:
  assumes "length a = 8" "length b = 4" "length c = 4" "length d = 4" "length e = 12"
    and "i < 36" "i \<notin> {8, 13, 18, 23}"
  shows "(a @ ''-'' @ b @ ''-'' @ c @ ''-'' @ d @ ''-'' @ e) ! i \<in> set (a @ b @ c @ d @ e)"
proof -
  have parts: "x ! k \<in> set x" if "k < length x" for x :: string and k using that by simp
  consider "i < 8" | "9 \<le> i \<and> i < 13" | "14 \<le> i \<and> i < 18" | "19 \<le> i \<and> i < 23" | "24 \<le> i"
    using assms(7) by fastforce
  then show ?thesis
    by cases (use assms in \<open>auto simp: nth_append nth_Cons' intro!: parts\<close>)
qed

lemma hex_digit_in: "n < 16 \<Longrightarrow> hex_digit n \<in> set ''0123456789abcdef''"
proof -
  have "\<forall>k \<in> set [0..<16]. hex_digit k \<in> set ''0123456789abcdef''" by code_simp
  then show "n < 16 \<Longrightarrow> hex_digit n \<in> set ''0123456789abcdef''" by (simp del: upt_Suc set_simps(2))
qed

lemma hex_byte_in: "x \<in> set (hex_byte b) \<Longrightarrow> x \<in> set ''0123456789abcdef''"
  using hex_digit_in [of "unat b div 16"] hex_digit_in [of "unat b mod 16"] byte_halves [of b]
  unfolding hex_byte_def by fastforce

text \<open>
  C39. Generated idempotency keys are version 4 UUIDs: from any 16 random bytes \<open>uuidV4\<close> makes 36
  characters, dashes at 8, 13, 18 and 23 and lower-case hexadecimal digits elsewhere, with the version 4 and the
  variant 10.
\<close>

theorem uuid_shape:
  assumes "length random = 16"
  shows "length (uuidV4 random) = 36 \<and> (\<forall>i \<in> {8, 13, 18, 23}. uuidV4 random ! i = CHR ''-'') \<and>
    (\<forall>i \<in> {..<36} - {8, 13, 18, 23}. uuidV4 random ! i \<in> set ''0123456789abcdef'') \<and>
    uuidV4 random ! 14 = CHR ''4'' \<and> uuidV4 random ! 19 \<in> {CHR ''8'', CHR ''9'', CHR ''a'', CHR ''b''}"
proof -
  define h where "h = concat (map hex_byte (uuid_bytes random))"
  have len: "length h = 32" using assms by (simp add: h_def hex_byte_length uuid_bytes_def Let_def)
  have b: "uuid_bytes random ! 6 = or (and (random ! 6) 0x0F) 0x40" "uuid_bytes random ! 8 = or (and (random ! 8) 0x3F) 0x80"
    "length (uuid_bytes random) = 16"
    using assms by (simp_all add: uuid_bytes_def Let_def nth_list_update)
  have 4: "h ! 12 = CHR ''4''"
    using hex_nth [of 6 "uuid_bytes random"] b version_bits [of "random ! 6"] hex_digits by (simp add: h_def)
  have 8: "h ! 16 \<in> {CHR ''8'', CHR ''9'', CHR ''a'', CHR ''b''}"
    using hex_nth [of 8 "uuid_bytes random"] b variant_bits [of "random ! 8"] hex_digits by (auto simp: h_def)
  have u: "uuidV4 random = take 8 h @ ''-'' @ take 4 (drop 8 h) @ ''-'' @ take 4 (drop 12 h) @ ''-'' @
      take 4 (drop 16 h) @ ''-'' @ drop 20 h"
    by (simp add: uuidV4_def Let_def substring_def h_def)
  have "take 4 (drop 12 h) ! 0 = h ! 12" "take 4 (drop 16 h) ! 0 = h ! 16" using len by simp_all
  with dashed_nth [of "take 8 h" "take 4 (drop 8 h)" "take 4 (drop 12 h)" "take 4 (drop 16 h)" "drop 20 h"] len 4 8
  have shape: "length (uuidV4 random) = 36 \<and> (\<forall>i \<in> {8, 13, 18, 23}. uuidV4 random ! i = CHR ''-'') \<and>
      uuidV4 random ! 14 = CHR ''4'' \<and> uuidV4 random ! 19 \<in> {CHR ''8'', CHR ''9'', CHR ''a'', CHR ''b''}"
    unfolding u by simp
  have "uuidV4 random ! i \<in> set ''0123456789abcdef''" if "i \<in> {..<36} - {8, 13, 18, 23}" for i
  proof -
    have "uuidV4 random ! i \<in> set (take 8 h @ take 4 (drop 8 h) @ take 4 (drop 12 h) @ take 4 (drop 16 h) @ drop 20 h)"
      using dashed_others [of "take 8 h" "take 4 (drop 8 h)" "take 4 (drop 12 h)" "take 4 (drop 16 h)" "drop 20 h" i] len that
      unfolding u by simp
    then have "uuidV4 random ! i \<in> set h" by (auto dest!: in_set_takeD in_set_dropD)
    then obtain b where "uuidV4 random ! i \<in> set (hex_byte b)" by (auto simp: h_def)
    then show ?thesis by (rule hex_byte_in)
  qed
  with shape show ?thesis by blast
qed

theorem uuid_shape_witness: "uuidV4 (replicate 16 255) ! 14 = CHR ''4''"
  using uuid_shape [of "replicate 16 255"] by simp

end
