(* ===== verification/Base64.thy ===== *)
theory Base64
  imports Bytes
begin

text \<open>
  The base64 reader of the mobile app: \<open>base64ToUint8Array\<close> of
  \<open>src/app/mobile/src/services/syncQueue.ts\<close>, against the encoding of RFC 4648. The bitwise operations
  are those of 32-bit integers, the buffer is one of bytes; the bytes written so far are a list, and
  what would be written outside the buffer is dropped.
\<close>

definition b64_chars :: string where
  "b64_chars = ''ABCDEFGHIJKLMNOPQRSTUVWXYZabcdefghijklmnopqrstuvwxyz0123456789+/''"

text \<open>\<open>lookup\<close> is an array of 256 bytes, 0 where no character is registered.\<close>

fun index_of :: "char \<Rightarrow> nat \<Rightarrow> string \<Rightarrow> nat" where
  "index_of c i [] = 0"
| "index_of c i (x # xs) = (if x = c then i else index_of c (i + 1) xs)"

definition b64_lookup :: "string \<Rightarrow> nat \<Rightarrow> 32 word" where
  "b64_lookup s i = (if i < length s then of_nat (index_of (s ! i) 0 b64_chars) else 0)"

definition group_value :: "string \<Rightarrow> 32 word" where
  "group_value s = or (or (or (push_bit 18 (b64_lookup s 0)) (push_bit 12 (b64_lookup s 1)))
     (push_bit 6 (b64_lookup s 2))) (b64_lookup s 3)"

definition value_byte :: "nat \<Rightarrow> 32 word \<Rightarrow> 8 word" where
  "value_byte k v = ucast (and (drop_bit k v) 255)"

definition write_group :: "rat \<Rightarrow> 32 word \<Rightarrow> bytes \<Rightarrow> bytes" where
  "write_group bufferLength v out =
     (let out1 = out @ [value_byte 16 v]
      in if of_nat (length out1) < bufferLength then
           let out2 = out1 @ [value_byte 8 v]
           in if of_nat (length out2) < bufferLength then out2 @ [value_byte 0 v] else out2
         else out1)"

function read_groups :: "rat \<Rightarrow> string \<Rightarrow> bytes \<Rightarrow> bytes" where
  "read_groups bufferLength s out =
     (if s = [] then out else read_groups bufferLength (drop 4 s) (write_group bufferLength (group_value s) out))"
  by pat_completeness auto
termination by (relation "measure (\<lambda>(b, s, out). length s)") auto

declare read_groups.simps [simp del]

definition strip_prefix :: "string \<Rightarrow> string" where
  "strip_prefix s = (case dropWhile (\<lambda>c. c \<noteq> CHR '','') s of [] \<Rightarrow> s | c # r \<Rightarrow> r)"

definition buffer_length :: "string \<Rightarrow> rat" where
  "buffer_length s =
     (let n = length s; full = of_nat n * 3 / 4
      in if n \<noteq> 0 \<and> s ! (n - 1) = CHR ''='' then
           (if 2 \<le> n \<and> s ! (n - 2) = CHR ''='' then full - 2 else full - 1)
         else full)"

definition base64ToUint8Array :: "string \<Rightarrow> bytes" where
  "base64ToUint8Array base64 =
     (let clean = filter (\<lambda>c. \<not> js_space c) (strip_prefix base64);
          bufferLength = buffer_length clean;
          size = nat \<lfloor>bufferLength\<rfloor>;
          written = read_groups bufferLength clean []
      in take size (written @ replicate size 0))"

section \<open>The encoding\<close>

definition b64_char :: "8 word \<Rightarrow> char" where
  "b64_char x = b64_chars ! unat x"

fun b64_encode :: "bytes \<Rightarrow> string" where
  "b64_encode [] = []"
| "b64_encode [a] = [b64_char (drop_bit 2 a), b64_char (push_bit 4 (and a 3)), CHR ''='', CHR ''='']"
| "b64_encode [a, b] = [b64_char (drop_bit 2 a), b64_char (or (push_bit 4 (and a 3)) (drop_bit 4 b)),
     b64_char (push_bit 2 (and b 15)), CHR ''='']"
| "b64_encode (a # b # c # bs) = b64_char (drop_bit 2 a) # b64_char (or (push_bit 4 (and a 3)) (drop_bit 4 b)) #
     b64_char (or (push_bit 2 (and b 15)) (drop_bit 6 c)) # b64_char (and c 63) # b64_encode bs"

lemma index_of_chars: "k < 64 \<Longrightarrow> index_of (b64_chars ! k) 0 b64_chars = k"
proof -
  assume "k < 64"
  moreover have "list_all (\<lambda>k. index_of (b64_chars ! k) 0 b64_chars = k) [0..<64]" by code_simp
  ultimately show ?thesis by (simp add: list_all_iff)
qed

lemma pad_lookup: "index_of (CHR ''='') 0 b64_chars = 0"
  by code_simp

lemma lookup_char:
  assumes "unat x < 64" and "i < length s" and "s ! i = b64_char x"
  shows "b64_lookup s i = ucast x"
  using index_of_chars [OF assms(1)] assms(2,3) by (simp add: b64_lookup_def b64_char_def of_nat_unat)

lemma and_masks:
  "and a 3 = take_bit 2 (a :: 8 word)" "and a 15 = take_bit 4 (a :: 8 word)" "and a 63 = take_bit 6 (a :: 8 word)"
  "and v 255 = take_bit 8 (v :: 32 word)"
  by (simp_all add: take_bit_eq_mask mask_eq_exp_minus_1)

lemma no_high_bit: "8 \<le> n \<Longrightarrow> \<not> bit (a :: 8 word) n"
  using bit_imp_le_length [of a n] by auto

lemma byte_eqI:
  fixes x y :: "8 word"
  assumes "\<forall>n \<in> {0, 1, 2, 3, 4, 5, 6, 7}. bit x n \<longleftrightarrow> bit y n"
  shows "x = y"
proof (rule bit_word_eqI)
  fix n assume "n < LENGTH(8)"
  then have "n \<in> {0, 1, 2, 3, 4, 5, 6, 7}" by auto
  with assms show "bit x n \<longleftrightarrow> bit y n" by blast
qed

text \<open>Six bits each.\<close>

lemma six_bits:
  assumes "and x 63 = (x :: 8 word)"
  shows "unat x < 64"
proof -
  have "unat x = take_bit 6 (unat x)" using assms by (metis and_masks(3) unsigned_take_bit_eq)
  then show ?thesis using take_bit_nat_less_exp [of 6 "unat x"] by simp
qed

lemma sextets:
  fixes a b c :: "8 word"
  shows "unat (drop_bit 2 a) < 64" "unat (or (push_bit 4 (and a 3)) (drop_bit 4 b)) < 64"
    "unat (or (push_bit 2 (and b 15)) (drop_bit 6 c)) < 64" "unat (and c 63) < 64"
  by (rule six_bits; unfold and_masks; rule byte_eqI; simp only: bit_simps ball_simps comp_apply; simp add: no_high_bit)+

text \<open>A group of four characters gives back its three bytes.\<close>

definition sextet_value :: "8 word \<Rightarrow> 8 word \<Rightarrow> 8 word \<Rightarrow> 8 word \<Rightarrow> 32 word" where
  "sextet_value w x y z = or (or (or (push_bit 18 (ucast w)) (push_bit 12 (ucast x))) (push_bit 6 (ucast y))) (ucast z)"

lemma bytes_back:
  fixes a b c :: "8 word"
  defines "v \<equiv> sextet_value (drop_bit 2 a) (or (push_bit 4 (and a 3)) (drop_bit 4 b))
    (or (push_bit 2 (and b 15)) (drop_bit 6 c)) (and c 63)"
  shows "value_byte 16 v = a" "value_byte 8 v = b" "value_byte 0 v = c"
proof -
  note [simp] = no_high_bit
  show "value_byte 16 v = a" "value_byte 8 v = b"
    unfolding v_def value_byte_def sextet_value_def and_masks
    by (rule byte_eqI; simp only: bit_simps ball_simps comp_apply; simp)+
  show "value_byte 0 v = c"
    unfolding v_def value_byte_def sextet_value_def and_masks
    by (rule byte_eqI; simp only: bit_simps ball_simps comp_apply; simp add: numeral_2_eq_2)
qed

lemma group_of:
  assumes "s = b64_char w # b64_char x # p # q # r"
    and "unat w < 64" "unat x < 64"
    and "p = b64_char y \<and> unat y < 64 \<or> p = CHR ''='' \<and> y = 0"
    and "q = b64_char z \<and> unat z < 64 \<or> q = CHR ''='' \<and> z = 0"
  shows "group_value s = sextet_value w x y z"
proof -
  have "b64_lookup s 0 = ucast w" "b64_lookup s 1 = ucast x"
    using assms(1-3) by (simp_all add: lookup_char)
  moreover have "b64_lookup s 2 = ucast y"
    using assms(1,4) pad_lookup by (auto simp: lookup_char) (simp add: b64_lookup_def)
  moreover have "b64_lookup s 3 = ucast z"
    using assms(1,5) pad_lookup by (auto simp: lookup_char) (simp add: b64_lookup_def)
  ultimately show ?thesis by (simp add: group_value_def sextet_value_def)
qed

lemma read_step:
  "read_groups bl (c # s) out = read_groups bl (drop 3 s) (write_group bl (group_value (c # s)) out)"
  by (subst read_groups.simps) simp

lemma read_end: "read_groups bl [] out = out"
  by (subst read_groups.simps) simp

lemma read_encoded:
  "bl = of_nat (length out + length bs) \<Longrightarrow> read_groups bl (b64_encode bs) out = out @ bs"
proof (induction bs arbitrary: out rule: b64_encode.induct)
  case (2 a)
  have "group_value (b64_encode [a]) = sextet_value (drop_bit 2 a) (or (push_bit 4 (and a 3)) (drop_bit 4 0))
      (or (push_bit 2 (and 0 15)) (drop_bit 6 0)) (and 0 63)"
    using sextets(1) [of a] sextets(2) [of a 0] by (subst group_of) auto
  with 2 bytes_back(1) [of a 0 0] show ?case
    by (simp add: read_step read_end write_group_def)
next
  case (3 a b)
  have "group_value (b64_encode [a, b]) = sextet_value (drop_bit 2 a) (or (push_bit 4 (and a 3)) (drop_bit 4 b))
      (or (push_bit 2 (and b 15)) (drop_bit 6 0)) (and 0 63)"
    using sextets(1) [of a] sextets(2) [of a b] sextets(3) [of b 0] by (subst group_of) auto
  with 3 bytes_back(1,2) [of a b 0] show ?case
    by (simp add: read_step read_end write_group_def)
next
  case (4 a b c bs)
  have "group_value (b64_encode (a # b # c # bs)) = sextet_value (drop_bit 2 a) (or (push_bit 4 (and a 3)) (drop_bit 4 b))
      (or (push_bit 2 (and b 15)) (drop_bit 6 c)) (and c 63)"
    using sextets(1) [of a] sextets(2) [of a b] sextets(3) [of b c] sextets(4) [of c] by (subst group_of) auto
  with bytes_back [of a b c] 4(2)
  have "write_group bl (group_value (b64_encode (a # b # c # bs))) out = out @ [a, b, c]"
    by (simp add: write_group_def)
  moreover have "read_groups bl (b64_encode (a # b # c # bs)) out =
      read_groups bl (b64_encode bs) (write_group bl (group_value (b64_encode (a # b # c # bs))) out)"
    by (simp add: read_step)
  ultimately show ?case using 4(1) [of "out @ [a, b, c]"] 4(2) by simp
qed (simp add: read_end)

lemma char_plain:
  assumes "unat x < 64"
  shows "b64_char x \<in> set b64_chars"
  using assms unfolding b64_char_def by (intro nth_mem) (simp add: b64_chars_def)

lemma encoded_chars: "set (b64_encode bs) \<subseteq> insert (CHR ''='') (set b64_chars)"
proof (induction bs rule: b64_encode.induct)
  case (2 a)
  then show ?case using sextets(1) [of a] sextets(2) [of a 0] by (simp add: char_plain)
next
  case (3 a b)
  then show ?case using sextets(1) [of a] sextets(2) [of a b] sextets(3) [of b 0] by (simp add: char_plain)
next
  case (4 a b c bs)
  then show ?case using sextets(1) [of a] sextets(2) [of a b] sextets(3) [of b c] sextets(4) [of c] by (simp add: char_plain)
qed simp

lemma plain_chars: "\<forall>c \<in> insert (CHR ''='') (set b64_chars). c \<noteq> CHR '','' \<and> \<not> js_space c"
  by (simp add: b64_chars_def js_space_def)

lemma no_pad: "unat x < 64 \<Longrightarrow> b64_char x \<noteq> CHR ''=''"
proof
  assume "unat x < 64" and "b64_char x = CHR ''=''"
  then have "CHR ''='' \<in> set b64_chars" using char_plain [of x] by simp
  then show False by (simp add: b64_chars_def)
qed

lemma length_encoded: "bs \<noteq> [] \<Longrightarrow> 4 \<le> length (b64_encode bs)"
  by (induction bs rule: b64_encode.induct) simp_all

lemma buffer_length_later:
  assumes "4 \<le> length s"
  shows "buffer_length (w # x # y # z # s) = buffer_length s + 3"
proof -
  have "(w # x # y # z # s) ! (length s + 3) = s ! (length s - 1)" "(w # x # y # z # s) ! (length s + 2) = s ! (length s - 2)"
    using assms by (auto simp: nth_Cons' numeral_eq_Suc)
  moreover have "s \<noteq> []" "2 \<le> length s" using assms by auto
  ultimately show ?thesis by (simp add: buffer_length_def Let_def numeral_eq_Suc)
qed

lemma buffer_encoded: "buffer_length (b64_encode bs) = of_nat (length bs)"
proof (induction bs rule: b64_encode.induct)
  case (2 a)
  then show ?case by (simp add: buffer_length_def)
next
  case (3 a b)
  then show ?case using no_pad [OF sextets(3) [of b 0]] by (simp add: buffer_length_def)
next
  case (4 a b c bs)
  show ?case
  proof (cases "bs = []")
    case True
    then show ?thesis using no_pad [OF sextets(4) [of c]] by (simp add: buffer_length_def)
  next
    case False
    with 4 show ?thesis using buffer_length_later [OF length_encoded [OF False]] by simp
  qed
qed (simp add: buffer_length_def)

section \<open>The round trip\<close>

lemma decode_clean: "strip_prefix base64 = b64_encode bs \<Longrightarrow> base64ToUint8Array base64 = bs"
proof -
  assume "strip_prefix base64 = b64_encode bs"
  moreover have "filter (\<lambda>c. \<not> js_space c) (b64_encode bs) = b64_encode bs"
    using encoded_chars [of bs] plain_chars by (intro filter_True) blast
  ultimately show ?thesis
    using read_encoded [of "of_nat (length bs)" "[]" bs] by (simp add: base64ToUint8Array_def Let_def buffer_encoded)
qed

text \<open>
  C35. The upload reads its image back exactly: \<open>base64ToUint8Array\<close> returns the bytes that were encoded,
  for every byte sequence, bare or after the prefix of a data URL.
\<close>

theorem base64_roundtrip:
  "base64ToUint8Array (b64_encode bs) = bs \<and>
   (CHR '','' \<notin> set pre \<longrightarrow> base64ToUint8Array (pre @ '','' @ b64_encode bs) = bs)"
proof (intro conjI impI)
  have "CHR '','' \<notin> set (b64_encode bs)" using encoded_chars [of bs] plain_chars by blast
  then have "dropWhile (\<lambda>c. c \<noteq> CHR '','') (b64_encode bs) = []" by (auto simp: dropWhile_eq_Nil_conv)
  then show "base64ToUint8Array (b64_encode bs) = bs" by (intro decode_clean) (simp only: strip_prefix_def list.case)
  assume "CHR '','' \<notin> set pre"
  then have "dropWhile (\<lambda>c. c \<noteq> CHR '','') (pre @ '','' @ b64_encode bs) = '','' @ b64_encode bs"
    by (subst dropWhile_append2) auto
  then show "base64ToUint8Array (pre @ '','' @ b64_encode bs) = bs"
    by (intro decode_clean) (simp add: strip_prefix_def)
qed

theorem base64_roundtrip_witness:
  "base64ToUint8Array (''data:image/png;base64'' @ '','' @ b64_encode [137, 80, 78, 71]) = [137, 80, 78, 71]"
  using base64_roundtrip [of "[137, 80, 78, 71]" "''data:image/png;base64''"] by simp

end
