(* ===== verification/SyncQueue.thy ===== *)
theory SyncQueue
  imports RequestLayer Base64 JsonText
begin

text \<open>
  The offline queue of the mobile app: \<open>src/app/mobile/src/services/syncQueue.ts\<close>. Actions made while
  offline wait in a queue that is kept in the device's storage; a flush runs the ones that are due
  and schedules the failed ones again.

  The instants of an action are kept as instants, not as their ISO renderings, and storing the queue
  as JSON and reading it back is the identity. A reading of the clock is \<open>ne_clock\<close> at the number of
  fetches made so far: readings between two fetches are one instant. \<open>isSyncing\<close> also stands for
  \<open>syncingPromise\<close>, which is set and cleared with it. The subscribers of the queue's state only
  display it and are left out; the notifications of success are recorded.
\<close>

section \<open>Data\<close>

record evidence_payload =
  ev_body :: "string option"
  ev_sessionId :: "string option"
  ev_uploadedChunks :: "rat list option"
  ev_totalChunks :: "rat option"
  ev_progress :: rat
  ev_urgent :: bool
  ev_estimatedSize :: rat

text \<open>The payload of an action tells its type.\<close>

datatype sync_payload =
    StatusRefresh string bool
  | ClaimConfirmation string string bool
  | EvidenceUpload evidence_payload
  | ClaimSubmission string string string bool

datatype sync_state = SA_pending | SA_retrying | SA_failed | SA_submitted | SA_conflict
datatype deferral_reason = Low_battery | Metered_connection | Large_upload

record queued_action =
  qa_id :: ident
  qa_payload :: sync_payload
  qa_state :: sync_state
  qa_retryCount :: int
  qa_maxRetries :: int
  qa_nextRetryAt :: time
  qa_createdAt :: time
  qa_updatedAt :: time
  qa_lastError :: "string option"
  qa_deferralReason :: "deferral_reason option"
  qa_deferralLog :: "string list"
  qa_rateLimitCount :: int
  qa_correlationId :: string

record sync_queue =
  qs_items :: "queued_action list"
  qs_isSyncing :: bool
  qs_lastSyncAt :: "time option"
  qs_lastSyncError :: "string option"
  qs_deferralStatus :: "(deferral_reason option \<times> string) option"
  qs_hydrated :: bool
  qs_stored :: "queued_action list option"
  qs_events :: "(queued_action \<times> time \<times> json) list"

record sync_env =
  sy_net :: net_env
  sy_uuid :: string
  sy_readNumber :: "string \<Rightarrow> rat option"
  sy_sha256 :: "bytes \<Rightarrow> string"
  sy_typeError :: string

definition is_submission :: "sync_payload \<Rightarrow> bool" where
  "is_submission p = (case p of ClaimSubmission a c k u \<Rightarrow> True | _ \<Rightarrow> False)"

definition sync_now :: "sync_env \<Rightarrow> nat \<Rightarrow> time" where
  "sync_now env n = ne_clock (sy_net env) n"

section \<open>Delays and errors\<close>

definition DEFAULT_MAX_RETRIES :: int where "DEFAULT_MAX_RETRIES = 5"
definition SYNC_BASE_RETRY_DELAY_MS :: int where "SYNC_BASE_RETRY_DELAY_MS = 30000"
definition SYNC_MAX_RETRY_DELAY_MS :: int where "SYNC_MAX_RETRY_DELAY_MS = 15 * 60 * 1000"
definition SAVER_BACKOFF_MULTIPLIER :: int where "SAVER_BACKOFF_MULTIPLIER = 3"
definition SAVER_MAX_ACTIONS_PER_FLUSH :: nat where "SAVER_MAX_ACTIONS_PER_FLUSH = 2"

definition backoffDelayMs :: "int \<Rightarrow> int" where
  "backoffDelayMs retryCount = min (SYNC_BASE_RETRY_DELAY_MS * 2 ^ nat retryCount) SYNC_MAX_RETRY_DELAY_MS"

definition computeRateLimitBackoffMs :: "int \<Rightarrow> int option \<Rightarrow> bool \<Rightarrow> int" where
  "computeRateLimitBackoffMs consecutiveRateLimits retryAfterMs saverMode =
     (let streak = max 1 consecutiveRateLimits;
          streakFloor = min (SYNC_BASE_RETRY_DELAY_MS * 2 ^ nat streak) SYNC_MAX_RETRY_DELAY_MS;
          delay = (if retryAfterMs \<noteq> None \<and> 0 \<le> the retryAfterMs then
                     (if 1 < streak then max (the retryAfterMs) streakFloor else the retryAfterMs)
                   else streakFloor);
          saved = (if saverMode then delay * SAVER_BACKOFF_MULTIPLIER else delay)
      in min (max saved 0) SYNC_MAX_RETRY_DELAY_MS)"

definition throwHttpError :: "sync_env \<Rightarrow> nat \<Rightarrow> http_response \<Rightarrow> string \<Rightarrow> net_error" where
  "throwHttpError env n r prefix =
     (let statusMsg = ''HTTP error! status: '' @ show_int (hr_status r);
          message = (if prefix = [] then statusMsg else prefix @ '': '' @ statusMsg)
      in if hr_status r = 429 then
           RateLimitedError (parseRetryAfterMs (ne_dateParse (sy_net env)) (sync_now env n) (hr_retryAfter r)) message
         else OtherError message)"

definition isConflictError :: "net_error \<Rightarrow> bool" where
  "isConflictError e = list_ex (str_includes (toLowerCase (net_message e)))
     [''409'', ''conflict'', ''already claimed'', ''already submitted'', ''already disbursed'', ''already verified'',
      ''already processed'', ''duplicate'', ''version mismatch'', ''idempotency conflict'', ''state conflict'', ''mismatch'']"

definition mapConflictErrorMessage :: "string \<Rightarrow> string" where
  "mapConflictErrorMessage rawError =
     (let has = str_includes (toLowerCase rawError)
      in if rawError = [] then ''Conflict detected with server records.''
         else if has ''already claimed'' \<or> has ''already submitted'' then
           ''Conflict: This claim has already been submitted and processed on the server.''
         else if has ''already disbursed'' then
           ''Conflict: This aid package has already been disbursed to the recipient.''
         else if has ''duplicate'' \<or> has ''idempotency'' then
           ''Conflict: A submission with an identical idempotency key already exists on the server.''
         else if has ''version'' \<or> has ''mismatch'' then
           ''Conflict: Server record version mismatch. The record was updated by another operator.''
         else if has ''already verified'' then
           ''Conflict: This claim was already verified in a prior transaction.''
         else if has ''409'' \<or> has ''conflict'' then
           ''Conflict: The submission conflicts with existing server records.''
         else ''Conflict: '' @ rawError)"

definition isRetryableError :: "net_error \<Rightarrow> bool" where
  "isRetryableError e =
     (let has = str_includes (toLowerCase (net_message e))
      in if isConflictError e then False
         else if list_ex has [''400'', ''401'', ''403'', ''404'', ''bad request'', ''unauthorized'', ''forbidden'',
                ''not found'', ''validation''] then False
         else list_ex has [''network'', ''timeout'', ''failed to fetch'', ''request failed'', ''429'', ''500'', ''502'', ''503''])"

section \<open>Running an action\<close>

text \<open>
  A \<open>fetch\<close> and the reading of its answer. \<open>n\<close> is the number of fetches made; every step of an action
  returns it.
\<close>

definition sync_fetch :: "sync_env \<Rightarrow> http_method \<Rightarrow> string \<Rightarrow> http_body \<Rightarrow> queued_action \<Rightarrow> nat
    \<Rightarrow> (net_error + http_response) \<times> nat" where
  "sync_fetch env m path body a n =
     (let req = \<lparr>rq_method = m, rq_path = path, rq_body = body,
            rq_headers = (case body of JsonBody j \<Rightarrow> [(''Content-Type'', ''application/json'')] | _ \<Rightarrow> [])
              @ buildCorrelationHeaders (qa_correlationId a)\<rparr>
      in (case ne_fetch (sy_net env) req n of Inl e \<Rightarrow> Inl (OtherError e) | Inr r \<Rightarrow> Inr r, n + 1))"

definition read_json :: "http_response \<Rightarrow> net_error + json" where
  "read_json r = (case hr_body r of Inl e \<Rightarrow> Inl (OtherError e) | Inr d \<Rightarrow> Inr d)"

definition json_member :: "json \<Rightarrow> string \<Rightarrow> json option" where
  "json_member v k = (case v of JObj m \<Rightarrow> map_of m k | _ \<Rightarrow> None)"

fun as_numbers :: "json option \<Rightarrow> rat list" where
  "as_numbers (Some (JArr vs)) = List.map_filter (\<lambda>v. as_number (Some v)) vs"
| "as_numbers _ = []"

text \<open>A \<open>message\<close> is a text, or the list of texts a validation gives, rendered with commas.\<close>

fun message_text :: "json \<Rightarrow> string option" where
  "message_text (JStr m) = (if m = [] then None else Some m)"
| "message_text (JArr vs) = Some (join '','' (map (\<lambda>v. case v of JStr m \<Rightarrow> m | _ \<Rightarrow> []) vs))"
| "message_text _ = None"

text \<open>The error of a refused upload request: the message of the body, or the status.\<close>

definition upload_error :: "sync_env \<Rightarrow> nat \<Rightarrow> http_response \<Rightarrow> string \<Rightarrow> net_error" where
  "upload_error env n r what =
     (if hr_status r = 429 then throwHttpError env n r what
      else OtherError (what @ '': '' @
        (case Option.bind (case read_json r of Inr d \<Rightarrow> json_member d ''message'' | Inl e \<Rightarrow> None) message_text of
           Some m \<Rightarrow> m
         | None \<Rightarrow> ''HTTP error '' @ show_int (hr_status r))))"

definition CHUNK_SIZE :: nat where "CHUNK_SIZE = 512 * 1024"

record upload_request =
  ur_filename :: string
  ur_contentType :: json
  ur_bytes :: "bytes"

definition parse_upload :: "sync_env \<Rightarrow> evidence_payload \<Rightarrow> net_error + upload_request" where
  "parse_upload env p =
     (if \<not> truthy (ev_body p) then Inl (OtherError ''No evidence upload payload body found'')
      else case json_parse (sy_readNumber env) (the (ev_body p)) of
          None \<Rightarrow> Inl (OtherError ''Failed to parse upload request body'')
        | Some d \<Rightarrow> (case as_string (json_member d ''imageBase64'') of
              None \<Rightarrow> Inl (OtherError (sy_typeError env))
            | Some img \<Rightarrow> Inr \<lparr>ur_filename = (case as_string (json_member d ''filename'') of None \<Rightarrow> ''undefined'' | Some f \<Rightarrow> f),
                ur_contentType = (case json_member d ''contentType'' of None \<Rightarrow> JNull | Some c \<Rightarrow> c),
                ur_bytes = base64ToUint8Array img\<rparr>))"

definition session_text :: "evidence_payload \<Rightarrow> string" where
  "session_text p = (case ev_sessionId p of None \<Rightarrow> ''undefined'' | Some s \<Rightarrow> s)"

definition create_upload ::
  "sync_env \<Rightarrow> queued_action \<Rightarrow> upload_request \<Rightarrow> evidence_payload \<Rightarrow> nat \<Rightarrow> (net_error option \<times> evidence_payload) \<times> nat" where
  "create_upload env a u p n =
     (case sync_fetch env POST ''/evidence/upload-sessions''
          (JsonBody (JObj [(''fileName'', JStr (ur_filename u)), (''mimeType'', ur_contentType u),
             (''totalSize'', JNum (of_nat (length (ur_bytes u)))), (''chunkSize'', JNum (of_nat CHUNK_SIZE))])) a n of
        (Inl e, n1) \<Rightarrow> ((Some e, p), n1)
      | (Inr r, n1) \<Rightarrow>
          if \<not> response_ok r then ((Some (upload_error env n r ''Failed to create upload session''), p), n1)
          else (case read_json r of
              Inl e \<Rightarrow> ((Some e, p), n1)
            | Inr d \<Rightarrow> ((None, p\<lparr>ev_sessionId := as_string (json_member d ''id''),
                  ev_totalChunks := as_number (json_member d ''totalChunks''),
                  ev_uploadedChunks := Some [], ev_progress := 0\<rparr>), n1)))"

definition open_upload ::
  "sync_env \<Rightarrow> queued_action \<Rightarrow> upload_request \<Rightarrow> evidence_payload \<Rightarrow> nat \<Rightarrow> (net_error option \<times> evidence_payload) \<times> nat" where
  "open_upload env a u p n =
     (if \<not> truthy (ev_sessionId p) then create_upload env a u p n
      else case sync_fetch env GET (''/evidence/upload-sessions/'' @ session_text p @ ''/status'') NoBody a n of
          (Inl e, n1) \<Rightarrow> ((Some e, p), n1)
        | (Inr r, n1) \<Rightarrow>
            if hr_status r = 404 then
              create_upload env a u (p\<lparr>ev_sessionId := None, ev_uploadedChunks := None, ev_totalChunks := None, ev_progress := 0\<rparr>) n1
            else if \<not> response_ok r then ((Some (throwHttpError env n r ''Failed to query session status''), p), n1)
            else (case read_json r of
                Inl e \<Rightarrow> ((Some e, p), n1)
              | Inr d \<Rightarrow>
                  let received = as_numbers (json_member d ''receivedChunks''); expected = as_number (json_member d ''totalChunks'')
                  in ((None, p\<lparr>ev_uploadedChunks := Some received, ev_totalChunks := expected,
                       ev_progress := (if expected \<noteq> None \<and> the expected \<noteq> 0 then of_nat (length received) / the expected else 0)\<rparr>), n1)))"

text \<open>The chunks, one after the other; those the server has are skipped.\<close>

definition chunk_of :: "bytes \<Rightarrow> nat \<Rightarrow> bytes" where
  "chunk_of bytes index = take CHUNK_SIZE (drop (index * CHUNK_SIZE) bytes)"

definition payload_chunks :: "evidence_payload \<Rightarrow> rat list" where
  "payload_chunks p = (case ev_uploadedChunks p of None \<Rightarrow> [] | Some cs \<Rightarrow> cs)"

function upload_chunks ::
  "sync_env \<Rightarrow> queued_action \<Rightarrow> upload_request \<Rightarrow> rat \<Rightarrow> nat \<Rightarrow> evidence_payload \<Rightarrow> nat
   \<Rightarrow> (net_error option \<times> evidence_payload) \<times> nat" where
  "upload_chunks env a u expected index p n =
     (if \<not> of_nat index < expected then ((None, p), n)
      else if of_nat index \<in> set (payload_chunks p) then upload_chunks env a u expected (index + 1) p n
      else let bytes = chunk_of (ur_bytes u) index in
        (case sync_fetch env POST (''/evidence/upload-sessions/'' @ session_text p @ ''/chunks'')
            (ChunkForm bytes (ur_filename u) index (sy_sha256 env bytes)) a n of
           (Inl e, n1) \<Rightarrow> ((Some e, p), n1)
         | (Inr r, n1) \<Rightarrow>
             if \<not> response_ok r then
               ((Some (upload_error env n r (''Chunk '' @ show_nat index @ '' upload failed'')), p), n1)
             else let cs = payload_chunks p @ [of_nat index]
               in upload_chunks env a u expected (index + 1)
                    (p\<lparr>ev_uploadedChunks := Some cs, ev_progress := of_nat (length cs) / expected\<rparr>) n1))"
  by pat_completeness auto
termination
proof (relation "measure (\<lambda>(env, a, u, expected, index, p, n). nat (\<lceil>expected\<rceil> - int index))", goal_cases)
  case (2 env a u expected index p n)
  then have "int index < \<lceil>expected\<rceil>" by (simp add: less_ceiling_iff)
  then show ?case by simp
next
  case (3 env a u expected index p n)
  then have "int index < \<lceil>expected\<rceil>" by (simp add: less_ceiling_iff)
  then show ?case by simp
qed simp

declare upload_chunks.simps [simp del]

definition run_upload ::
  "sync_env \<Rightarrow> queued_action \<Rightarrow> evidence_payload \<Rightarrow> nat \<Rightarrow> ((net_error + json) \<times> evidence_payload) \<times> nat" where
  "run_upload env a p0 n0 =
     (case parse_upload env p0 of
        Inl e \<Rightarrow> ((Inl e, p0), n0)
      | Inr u \<Rightarrow> (case open_upload env a u p0 n0 of
            ((Some e, p1), n1) \<Rightarrow> ((Inl e, p1), n1)
          | ((None, p1), n1) \<Rightarrow>
              (case upload_chunks env a u (case ev_totalChunks p1 of None \<Rightarrow> 0 | Some t \<Rightarrow> t) 0 p1 n1 of
                 ((Some e, p2), n2) \<Rightarrow> ((Inl e, p2), n2)
               | ((None, p2), n2) \<Rightarrow>
                   (case sync_fetch env POST (''/evidence/upload-sessions/'' @ session_text p2 @ ''/finalize'') NoBody a n2 of
                      (Inl e, n3) \<Rightarrow> ((Inl e, p2), n3)
                    | (Inr r, n3) \<Rightarrow>
                        if \<not> response_ok r then ((Inl (upload_error env n2 r ''Failed to finalize upload''), p2), n3)
                        else ((read_json r, p2), n3)))))"

definition api_data :: "(net_error + api_response) \<times> api_state \<Rightarrow> (net_error + json) \<times> nat" where
  "api_data x = (case fst x of Inl e \<Rightarrow> Inl e | Inr r \<Rightarrow> Inr (ar_data r), as_next (snd x))"

definition runAction :: "sync_env \<Rightarrow> queued_action \<Rightarrow> nat \<Rightarrow> ((net_error + json) \<times> sync_payload) \<times> nat" where
  "runAction env a n =
     (let cfg = \<lparr>rc_method = GET, rc_path = [], rc_body = None, rc_headers = [], rc_maxRetries = None,
            rc_idempotencyKey = None, rc_correlationId = qa_correlationId a\<rparr>
      in case qa_payload a of
           StatusRefresh aidId urgent \<Rightarrow>
             (case api_data (apiRequest (sy_net env) (sy_uuid env) (cfg\<lparr>rc_path := ''/aid/'' @ aidId\<rparr>) n) of
                (r, n1) \<Rightarrow> ((r, qa_payload a), n1))
         | ClaimConfirmation aidId claimId urgent \<Rightarrow>
             (case sync_fetch env POST (''/claims/'' @ claimId @ ''/verify'') NoBody a n of
                (Inl e, n1) \<Rightarrow> ((Inl e, qa_payload a), n1)
              | (Inr r, n1) \<Rightarrow>
                  if \<not> response_ok r then ((Inl (throwHttpError env n r []), qa_payload a), n1)
                  else ((read_json r, qa_payload a), n1))
         | EvidenceUpload p \<Rightarrow>
             (case run_upload env a p n of ((r, p1), n1) \<Rightarrow> ((r, EvidenceUpload p1), n1))
         | ClaimSubmission aidId claimId key urgent \<Rightarrow>
             (case api_data (apiRequest (sy_net env) (sy_uuid env)
                  (cfg\<lparr>rc_method := POST, rc_path := ''/claims/'' @ claimId @ ''/submit'', rc_idempotencyKey := Some key\<rparr>) n) of
                (r, n1) \<Rightarrow> ((r, qa_payload a), n1)))"

section \<open>The queue\<close>

definition persistQueue :: "sync_queue \<Rightarrow> sync_queue" where
  "persistQueue s = s\<lparr>qs_stored := Some (qs_items s)\<rparr>"

definition hydrateQueue :: "sync_queue \<Rightarrow> sync_queue" where
  "hydrateQueue s = (if qs_hydrated s then s
     else s\<lparr>qs_items := (case qs_stored s of None \<Rightarrow> [] | Some xs \<Rightarrow> xs), qs_hydrated := True\<rparr>)"

definition replaceQueueItems :: "queued_action list \<Rightarrow> sync_queue \<Rightarrow> sync_queue" where
  "replaceQueueItems items s = persistQueue (s\<lparr>qs_items := items\<rparr>)"

record sync_request =
  sr_payload :: sync_payload
  sr_maxRetries :: "int option"

definition new_action :: "time \<Rightarrow> ident \<Rightarrow> string \<Rightarrow> sync_request \<Rightarrow> queued_action" where
  "new_action now newId correlationId req =
     \<lparr>qa_id = newId, qa_payload = sr_payload req, qa_state = SA_pending, qa_retryCount = 0,
      qa_maxRetries = (case sr_maxRetries req of None \<Rightarrow> DEFAULT_MAX_RETRIES | Some m \<Rightarrow> m),
      qa_nextRetryAt = now, qa_createdAt = now, qa_updatedAt = now, qa_lastError = None,
      qa_deferralReason = None, qa_deferralLog = [], qa_rateLimitCount = 0, qa_correlationId = correlationId\<rparr>"

definition same_submission :: "string \<Rightarrow> queued_action \<Rightarrow> bool" where
  "same_submission key item \<longleftrightarrow>
     (case qa_payload item of ClaimSubmission a c k u \<Rightarrow> k = key | _ \<Rightarrow> False) \<and>
     qa_state item \<noteq> SA_failed \<and> qa_state item \<noteq> SA_submitted"

definition enqueue :: "time \<Rightarrow> ident \<Rightarrow> string \<Rightarrow> sync_request \<Rightarrow> sync_queue \<Rightarrow> queued_action \<times> sync_queue" where
  "enqueue now newId correlationId req s0 =
     (let s = hydrateQueue s0;
          existing = (case sr_payload req of ClaimSubmission a c key u \<Rightarrow> find (same_submission key) (qs_items s) | _ \<Rightarrow> None)
      in case existing of
           Some item \<Rightarrow> (item, s)
         | None \<Rightarrow> let action = new_action now newId correlationId req
             in (action, replaceQueueItems (qs_items s @ [action]) s))"

datatype dispatch_result = Dispatched json | Queued queued_action

definition dispatchNetworkAction ::
  "sync_env \<Rightarrow> bool \<Rightarrow> ident \<Rightarrow> ident \<Rightarrow> string \<Rightarrow> sync_request \<Rightarrow> nat \<Rightarrow> sync_queue
   \<Rightarrow> ((net_error + dispatch_result) \<times> nat) \<times> sync_queue" where
  "dispatchNetworkAction env online previewId newId correlationId req n s0 =
     (let s = hydrateQueue s0
      in if \<not> online then
           (case enqueue (sync_now env n) newId correlationId req s of (a, s1) \<Rightarrow> ((Inr (Queued a), n), s1))
         else
           let preview = new_action (sync_now env n) previewId correlationId req
           in case runAction env preview n of ((r, p), n1) \<Rightarrow>
               let now = sync_now env n1; req1 = req\<lparr>sr_payload := p\<rparr>
               in (case r of
                     Inr result \<Rightarrow>
                       ((Inr (Dispatched result), n1),
                        s\<lparr>qs_events := qs_events s @ [(preview\<lparr>qa_payload := p\<rparr>, now, result)],
                          qs_lastSyncAt := Some now, qs_lastSyncError := None\<rparr>)
                   | Inl e \<Rightarrow>
                       if isConflictError e then
                         let action = (new_action now newId correlationId req1)
                               \<lparr>qa_state := SA_conflict, qa_retryCount := 1, qa_lastError := Some (net_message e)\<rparr>
                         in ((Inr (Queued action), n1),
                             (replaceQueueItems (qs_items s @ [action]) s)\<lparr>qs_lastSyncError := Some (mapConflictErrorMessage (net_message e))\<rparr>)
                       else if \<not> isRetryableError e then ((Inl e, n1), s)
                       else (case enqueue now newId correlationId req1 s of
                           (a, s1) \<Rightarrow> ((Inr (Queued a), n1), s1\<lparr>qs_lastSyncError := Some (net_message e)\<rparr>))))"

section \<open>The flush\<close>

record flush_options =
  fo_online :: "bool option"
  fo_saverMode :: bool
  fo_forceSync :: bool
  fo_batteryLevel :: "rat option"
  fo_isCharging :: bool
  fo_isMetered :: bool
  fo_meteredOptIn :: bool

definition payload_urgent :: "sync_payload \<Rightarrow> bool" where
  "payload_urgent p = (case p of StatusRefresh a u \<Rightarrow> u | ClaimConfirmation a c u \<Rightarrow> u
     | EvidenceUpload e \<Rightarrow> ev_urgent e | ClaimSubmission a c k u \<Rightarrow> u)"

definition estimated_size :: "sync_payload \<Rightarrow> rat" where
  "estimated_size p = (case p of EvidenceUpload e \<Rightarrow> ev_estimatedSize e | _ \<Rightarrow> 0)"

definition js_round :: "rat \<Rightarrow> int" where
  "js_round x = \<lfloor>x + 1 / 2\<rfloor>"

definition battery_level :: "flush_options \<Rightarrow> rat" where
  "battery_level opts = (case fo_batteryLevel opts of None \<Rightarrow> - 1 | Some b \<Rightarrow> b)"

definition deferral :: "flush_options \<Rightarrow> queued_action \<Rightarrow> (deferral_reason \<times> string) option" where
  "deferral opts a =
     (let level = battery_level opts;
          size = estimated_size (qa_payload a);
          isUrgent = payload_urgent (qa_payload a);
          isLowBattery = (\<not> fo_isCharging opts \<and> 0 \<le> level \<and> level < 1 / 5);
          isLargeUpload = (5 * 1024 * 1024 < size);
          metered = (fo_isMetered opts \<and> \<not> fo_meteredOptIn opts)
      in if (\<not> isUrgent \<or> isLowBattery) \<and> \<not> fo_forceSync opts then
           (if isLowBattery then
              Some (Low_battery, ''Battery at '' @ show_int (js_round (level * 100)) @ ''%, threshold 20%'')
            else if metered \<and> isLargeUpload then
              Some (Large_upload, ''Upload size '' @ show_int (js_round (size / 1024 / 1024)) @ ''MB on metered connection'')
            else if metered then Some (Metered_connection, ''Metered connection without user opt-in'')
            else None)
         else None)"

fun reason_name :: "deferral_reason \<Rightarrow> string" where
  "reason_name Low_battery = ''low-battery''"
| "reason_name Metered_connection = ''metered-connection''"
| "reason_name Large_upload = ''large-upload''"

definition logDeferral :: "time \<Rightarrow> queued_action \<Rightarrow> deferral_reason \<Rightarrow> string \<Rightarrow> sync_queue \<Rightarrow> sync_queue" where
  "logDeferral now a reason details s =
     (let entry = ''['' @ toISOString now @ ''] Deferred: '' @ reason_name reason @ '' - '' @ details
      in persistQueue (s\<lparr>qs_items := update_where (\<lambda>i. qa_id i = qa_id a)
           (\<lambda>i. i\<lparr>qa_deferralReason := Some reason, qa_deferralLog := qa_deferralLog a @ [entry]\<rparr>) (qs_items s)\<rparr>))"

text \<open>
  What becomes of an action that ran: nothing is left of a success, save a submitted claim for display;
  a failure is scheduled again, fails for good, or is a conflict.
\<close>

definition failed_action :: "flush_options \<Rightarrow> queued_action \<Rightarrow> net_error \<Rightarrow> time \<Rightarrow> queued_action \<Rightarrow> queued_action" where
  "failed_action opts a e now item =
     (let rateLimited = isRateLimitedError e;
          retryCount = qa_retryCount a + 1;
          nextState = (if isConflictError e then SA_conflict
            else if qa_maxRetries a \<le> retryCount \<or> \<not> isRetryableError e then SA_failed else SA_retrying);
          rateLimitCount = (if rateLimited then qa_rateLimitCount a + 1 else 0);
          retryAfterMs = (case e of RateLimitedError ra m \<Rightarrow> ra | OtherError m \<Rightarrow> None);
          delayMs = (if rateLimited then computeRateLimitBackoffMs rateLimitCount retryAfterMs (fo_saverMode opts)
            else backoffDelayMs retryCount * (if fo_saverMode opts then SAVER_BACKOFF_MULTIPLIER else 1))
      in item\<lparr>qa_state := nextState, qa_retryCount := retryCount, qa_rateLimitCount := rateLimitCount,
           qa_nextRetryAt := now + delayMs, qa_updatedAt := now, qa_lastError := Some (net_message e)\<rparr>)"

record flush_run =
  fl_items :: "queued_action list"
  fl_processed :: nat
  fl_deferred :: nat

text \<open>
  One turn of the loop: \<open>None\<close> is the \<open>break\<close>. The payload of an action is an object shared by all copies of
  the action, so what a run writes into it shows in the queue and in the flush's own list.
\<close>

definition flush_item ::
  "sync_env \<Rightarrow> flush_options \<Rightarrow> time \<Rightarrow> queued_action \<Rightarrow> flush_run \<times> nat \<times> sync_queue
   \<Rightarrow> (flush_run \<times> nat \<times> sync_queue) option" where
  "flush_item env opts start a st =
     (case st of (fl, n, s) \<Rightarrow>
        let same = (\<lambda>i. qa_id i = qa_id a)
        in if start < qa_nextRetryAt a then Some st
           else case deferral opts a of
               Some (reason, details) \<Rightarrow>
                 Some (fl\<lparr>fl_deferred := fl_deferred fl + 1, fl_items := update_where same
                     (\<lambda>i. i\<lparr>qa_deferralReason := Some reason, qa_updatedAt := sync_now env n\<rparr>) (fl_items fl)\<rparr>,
                   n, logDeferral (sync_now env n) a reason details s)
             | None \<Rightarrow>
                 if fo_saverMode opts \<and> SAVER_MAX_ACTIONS_PER_FLUSH \<le> fl_processed fl then None
                 else (case runAction env a n of ((r, p), n1) \<Rightarrow>
                     let now = sync_now env n1;
                         shared = update_where same (\<lambda>i. i\<lparr>qa_payload := p\<rparr>) (fl_items fl);
                         items = (case r of
                             Inr result \<Rightarrow>
                               if is_submission (qa_payload a) then
                                 update_where same (\<lambda>i. i\<lparr>qa_state := SA_submitted, qa_updatedAt := now\<rparr>) shared
                               else filter (\<lambda>i. qa_id i \<noteq> qa_id a) shared
                           | Inl e \<Rightarrow> update_where same (failed_action opts a e now) shared);
                         s1 = s\<lparr>qs_items := items,
                           qs_lastSyncAt := (case r of Inr result \<Rightarrow> Some now | Inl e \<Rightarrow> qs_lastSyncAt s),
                           qs_lastSyncError := (case r of Inr result \<Rightarrow> None | Inl e \<Rightarrow>
                              Some (if isConflictError e then mapConflictErrorMessage (net_message e) else net_message e))\<rparr>;
                         s2 = (persistQueue s1)\<lparr>qs_events := qs_events s @
                           (case r of Inr result \<Rightarrow> [(a\<lparr>qa_payload := p\<rparr>, now, result)] | Inl e \<Rightarrow> [])\<rparr>
                     in Some (fl\<lparr>fl_processed := fl_processed fl + 1, fl_items := items\<rparr>, n1, s2)))"

fun flush_loop ::
  "sync_env \<Rightarrow> flush_options \<Rightarrow> time \<Rightarrow> queued_action list \<Rightarrow> flush_run \<times> nat \<times> sync_queue
   \<Rightarrow> flush_run \<times> nat \<times> sync_queue" where
  "flush_loop env opts start [] st = st"
| "flush_loop env opts start (a # rest) st =
     (case flush_item env opts start a st of None \<Rightarrow> st | Some st1 \<Rightarrow> flush_loop env opts start rest st1)"

definition flush_begin :: "sync_queue \<Rightarrow> flush_run \<times> sync_queue" where
  "flush_begin s = (\<lparr>fl_items = qs_items s, fl_processed = 0, fl_deferred = 0\<rparr>,
     s\<lparr>qs_isSyncing := True, qs_lastSyncError := None\<rparr>)"

definition flush_end :: "time \<Rightarrow> flush_run \<Rightarrow> sync_queue \<Rightarrow> sync_queue" where
  "flush_end now fl s =
     s\<lparr>qs_isSyncing := False,
       qs_lastSyncAt := (case qs_lastSyncAt s of None \<Rightarrow> Some now | Some t \<Rightarrow> Some t),
       qs_deferralStatus := (if 0 < fl_deferred fl then
         Some (Option.bind (find (\<lambda>i. qa_deferralReason i \<noteq> None) (fl_items fl)) qa_deferralReason,
           show_nat (fl_deferred fl) @ '' actions deferred due to battery/network constraints'')
         else None)\<rparr>"

definition flushPendingNetworkActions :: "sync_env \<Rightarrow> flush_options \<Rightarrow> nat \<Rightarrow> sync_queue \<Rightarrow> nat \<times> sync_queue" where
  "flushPendingNetworkActions env opts n s0 =
     (let s = hydrateQueue s0
      in if fo_online opts = Some False \<or> qs_isSyncing s then (n, s)
         else case flush_begin s of (fl, s1) \<Rightarrow>
           (case flush_loop env opts (sync_now env n) (qs_items s) (fl, n, s1) of
              (fl2, n2, s2) \<Rightarrow> (n2, flush_end (sync_now env n2) fl2 s2)))"

section \<open>Operations of the user\<close>

definition requeueAction :: "time \<Rightarrow> ident \<Rightarrow> sync_queue \<Rightarrow> sync_queue" where
  "requeueAction now actionId s0 =
     (let s = hydrateQueue s0
      in replaceQueueItems (update_where (\<lambda>i. qa_id i = actionId)
           (\<lambda>i. i\<lparr>qa_state := SA_pending, qa_retryCount := 0, qa_rateLimitCount := 0, qa_nextRetryAt := now,
              qa_lastError := None, qa_updatedAt := now\<rparr>) (qs_items s)) s)"

definition discardAction :: "ident \<Rightarrow> sync_queue \<Rightarrow> sync_queue" where
  "discardAction actionId s0 =
     (let s = hydrateQueue s0 in replaceQueueItems (filter (\<lambda>i. qa_id i \<noteq> actionId) (qs_items s)) s)"

definition clearSyncQueue :: "sync_queue \<Rightarrow> sync_queue" where
  "clearSyncQueue s0 = (replaceQueueItems [] (hydrateQueue s0))\<lparr>qs_lastSyncError := None\<rparr>"

end
