(* ===== verification/SyncFlush.thy ===== *)
theory SyncFlush
  imports SyncQueue
begin

text \<open>
  What a flush of the offline queue of the theory \<open>SyncQueue\<close> achieves: the actions it runs and what
  becomes of them, its delays, and what happens to actions that are added while it runs.
\<close>

section \<open>A flush as one pass over the queue\<close>

definition unrestricted :: "flush_options \<Rightarrow> bool" where
  "unrestricted opts \<longleftrightarrow> fo_online opts \<noteq> Some False \<and> \<not> fo_saverMode opts \<and>
     (fo_forceSync opts \<or> (fo_isCharging opts \<or> \<not> (0 \<le> battery_level opts \<and> battery_level opts < 1 / 5)) \<and>
       (fo_isMetered opts \<longrightarrow> fo_meteredOptIn opts))"

lemma never_deferred: "unrestricted opts \<Longrightarrow> deferral opts a = None"
  by (auto simp: unrestricted_def deferral_def Let_def)

text \<open>The reference: every due action is run once, in the order of the queue, whatever its state.\<close>

definition after_run ::
  "sync_env \<Rightarrow> flush_options \<Rightarrow> queued_action \<Rightarrow> nat \<Rightarrow> queued_action list \<times> (queued_action \<times> time \<times> json) list \<times> nat" where
  "after_run env opts a n =
     (case runAction env a n of ((r, p), n1) \<Rightarrow>
        (case r of
           Inr result \<Rightarrow>
             (if is_submission (qa_payload a)
              then [a\<lparr>qa_payload := p, qa_state := SA_submitted, qa_updatedAt := sync_now env n1\<rparr>] else [],
              [(a\<lparr>qa_payload := p\<rparr>, sync_now env n1, result)], n1)
         | Inl e \<Rightarrow> ([failed_action opts a e (sync_now env n1) (a\<lparr>qa_payload := p\<rparr>)], [], n1)))"

fun run_due ::
  "sync_env \<Rightarrow> flush_options \<Rightarrow> time \<Rightarrow> nat \<Rightarrow> queued_action list
   \<Rightarrow> queued_action list \<times> (queued_action \<times> time \<times> json) list \<times> nat" where
  "run_due env opts start n [] = ([], [], n)"
| "run_due env opts start n (a # rest) =
     (if start < qa_nextRetryAt a then
        (case run_due env opts start n rest of (xs, ev, m) \<Rightarrow> (a # xs, ev, m))
      else case after_run env opts a n of (ys, e1, n1) \<Rightarrow>
        (case run_due env opts start n1 rest of (xs, e2, m) \<Rightarrow> (ys @ xs, e1 @ e2, m)))"

lemma untouched:
  assumes "i \<notin> qa_id ` set xs"
  shows "update_where (\<lambda>x. qa_id x = i) f xs = xs" and "filter (\<lambda>x. qa_id x \<noteq> i) xs = xs"
  using assms by (force intro: update_where_ident simp: filter_id_conv)+

lemma failed_action_id [simp]: "qa_id (failed_action opts a e now i) = qa_id i"
  by (simp add: failed_action_def Let_def)

lemma flush_item_due:
  assumes "unrestricted opts" and "\<not> start < qa_nextRetryAt a" and "after_run env opts a n = (ys, ev, m)"
    and "fl_items fl = done @ a # rest" and "qa_id a \<notin> qa_id ` set (done @ rest)"
  shows "\<exists>fl' s'. flush_item env opts start a (fl, n, s) = Some (fl', m, s') \<and> fl_items fl' = done @ ys @ rest \<and>
    qs_items s' = done @ ys @ rest \<and> qs_events s' = qs_events s @ ev \<and> fl_deferred fl' = fl_deferred fl \<and>
    qs_hydrated s' = qs_hydrated s"
proof -
  obtain r p where r: "runAction env a n = ((r, p), m)"
    using assms(3) by (cases "runAction env a n") (auto simp: after_run_def split: sum.splits)
  have "\<not> fo_saverMode opts" using assms(1) by (simp add: unrestricted_def)
  have ids: "qa_id a \<notin> qa_id ` set done" "qa_id a \<notin> qa_id ` set rest" using assms(5) by auto
  note u = untouched [OF ids(1)] untouched [OF ids(2)]
  show ?thesis
  proof (cases r)
    case (Inl e)
    with r assms(2-5) never_deferred [OF assms(1)] \<open>\<not> fo_saverMode opts\<close> show ?thesis
      by (auto simp: flush_item_def Let_def after_run_def persistQueue_def u)
  next
    case (Inr result)
    with r assms(2-5) never_deferred [OF assms(1)] \<open>\<not> fo_saverMode opts\<close> show ?thesis
      by (auto simp: flush_item_def Let_def after_run_def persistQueue_def u)
  qed
qed

lemma after_run_ids:
  assumes "after_run env opts a n = (ys, ev, m)"
  shows "set (map qa_id ys) \<subseteq> {qa_id a} \<and> distinct (map qa_id ys)"
  using assms by (auto simp: after_run_def split: prod.splits sum.splits if_splits)

lemma flush_loop_due:
  assumes "unrestricted opts" and "distinct (map qa_id (done @ todo))"
    and "fl_items fl = done @ todo" and "qs_items s = done @ todo" and "run_due env opts start n todo = (xs, ev, m)"
  shows "\<exists>fl' s'. flush_loop env opts start todo (fl, n, s) = (fl', m, s') \<and> fl_items fl' = done @ xs \<and> qs_items s' = done @ xs \<and>
    qs_events s' = qs_events s @ ev \<and> fl_deferred fl' = fl_deferred fl \<and> qs_hydrated s' = qs_hydrated s"
  using assms(2-)
proof (induction todo arbitrary: "done" fl s n xs ev m)
  case (Cons a rest)
  show ?case
  proof (cases "start < qa_nextRetryAt a")
    case True
    then obtain xs' where xs: "run_due env opts start n rest = (xs', ev, m)" "xs = a # xs'"
      using Cons.prems(4) by (auto split: prod.splits)
    with Cons.IH [of "done @ [a]" fl s n xs' ev m] Cons.prems True show ?thesis
      by (simp add: flush_item_def Let_def)
  next
    case False
    obtain ys e1 n1 where ys: "after_run env opts a n = (ys, e1, n1)" by (cases "after_run env opts a n")
    with False obtain xs' e2 where xs: "run_due env opts start n1 rest = (xs', e2, m)" "xs = ys @ xs'" "ev = e1 @ e2"
      using Cons.prems(4) by (auto split: prod.splits)
    have "qa_id a \<notin> qa_id ` set (done @ rest)" using Cons.prems(1) by auto
    from flush_item_due [OF assms(1) False ys _ this] Cons.prems(2)
    obtain fl' s' where s': "flush_item env opts start a (fl, n, s) = Some (fl', n1, s')" "fl_items fl' = (done @ ys) @ rest"
      "qs_items s' = (done @ ys) @ rest" "qs_events s' = qs_events s @ e1" "fl_deferred fl' = fl_deferred fl"
      "qs_hydrated s' = qs_hydrated s"
      by (metis append_assoc)
    have "distinct (map qa_id ((done @ ys) @ rest))"
      using Cons.prems(1) after_run_ids [OF ys] by (auto simp: image_iff subset_iff) metis+
    from Cons.IH [OF this s'(2,3) xs(1)] s' xs(2,3) show ?thesis by auto
  qed
qed simp

lemma disjoint_single: "A \<subseteq> {x} \<Longrightarrow> B \<subseteq> C \<Longrightarrow> x \<notin> C \<Longrightarrow> A \<inter> B = {}"
  by blast

lemma run_due_ids:
  assumes "run_due env opts start n todo = (xs, ev, m)" and "distinct (map qa_id todo)"
  shows "distinct (map qa_id xs) \<and> qa_id ` set xs \<subseteq> qa_id ` set todo"
  using assms
proof (induction todo arbitrary: n xs ev m)
  case (Cons a rest)
  show ?case
  proof (cases "start < qa_nextRetryAt a")
    case True
    then obtain xs' where xs: "run_due env opts start n rest = (xs', ev, m)" "xs = a # xs'"
      using Cons.prems(1) by (auto split: prod.splits)
    from Cons.IH [OF xs(1)] Cons.prems(2) show ?thesis unfolding xs(2) by auto
  next
    case False
    obtain ys e1 n1 where ys: "after_run env opts a n = (ys, e1, n1)" by (cases "after_run env opts a n")
    with False obtain xs' e2 where xs: "run_due env opts start n1 rest = (xs', e2, m)" "xs = ys @ xs'"
      using Cons.prems(1) by (auto split: prod.splits)
    have ih: "distinct (map qa_id xs')" "qa_id ` set xs' \<subseteq> qa_id ` set rest"
      and y: "distinct (map qa_id ys)" "qa_id ` set ys \<subseteq> {qa_id a}" and new: "qa_id a \<notin> qa_id ` set rest"
      using Cons.IH [OF xs(1)] Cons.prems(2) after_run_ids [OF ys] by simp_all
    have "qa_id ` set ys \<inter> qa_id ` set xs' = {}" by (rule disjoint_single [OF y(2) ih(2) new])
    moreover have "qa_id ` set ys \<union> qa_id ` set xs' \<subseteq> insert (qa_id a) (qa_id ` set rest)"
      using y(2) ih(2) by (intro Un_least) (rule subset_trans, assumption, simp add: subset_insertI)+
    ultimately show ?thesis using ih(1) y(1) unfolding xs(2) by (simp add: image_Un)
  qed
qed simp

lemma flush_runs_due_aux:
  assumes "unrestricted opts" and "qs_hydrated s" "\<not> qs_isSyncing s" and "distinct (map qa_id (qs_items s))"
    and "run_due env opts (sync_now env n) n (qs_items s) = (xs, ev, m)"
  shows "\<exists>t. flushPendingNetworkActions env opts n s = (m, t) \<and> qs_items t = xs \<and>
    qs_events t = qs_events s @ ev \<and> \<not> qs_isSyncing t \<and> qs_hydrated t"
proof -
  obtain fl s1 where b: "flush_begin s = (fl, s1)" by (cases "flush_begin s")
  then have "fl_items fl = [] @ qs_items s" "qs_items s1 = [] @ qs_items s" "qs_events s1 = qs_events s" "qs_hydrated s1"
    using assms(2) by (auto simp: flush_begin_def)
  with flush_loop_due [OF assms(1) _ this(1,2), of env "sync_now env n" n xs ev m] assms b show ?thesis
    by (auto simp: flushPendingNetworkActions_def Let_def hydrateQueue_def unrestricted_def flush_end_def)
qed

section \<open>A network that answers\<close>

definition net_answers :: "sync_env \<Rightarrow> bool" where
  "net_answers env \<longleftrightarrow> (\<forall>req n. \<exists>r d. ne_fetch (sy_net env) req n = Inr r \<and> response_ok r \<and> hr_body r = Inr d)"

definition readable :: "sync_env \<Rightarrow> queued_action \<Rightarrow> bool" where
  "readable env a \<longleftrightarrow> (\<forall>p. qa_payload a = EvidenceUpload p \<longrightarrow> (\<exists>u. parse_upload env p = Inr u))"

lemma fetch_answers:
  assumes "net_answers env"
  shows "\<exists>r d. sync_fetch env m path body a n = (Inr r, n + 1) \<and> response_ok r \<and> hr_status r \<noteq> 404 \<and> read_json r = Inr d"
proof -
  obtain r d where "sync_fetch env m path body a n = (Inr r, n + 1)" "response_ok r" "hr_body r = Inr d"
    using assms unfolding net_answers_def sync_fetch_def Let_def
    by (metis (no_types, lifting) sum.simps(6))
  then show ?thesis by (auto simp: read_json_def response_ok_def)
qed

lemma api_answers:
  assumes "net_answers env" and "rc_maxRetries cfg = None"
  shows "\<exists>d m. api_data (apiRequest (sy_net env) uuid cfg n) = (Inr d, m)"
proof -
  obtain r d where "ne_fetch (sy_net env) (build_request (sy_net env) uuid cfg) n = Inr r" "response_ok r" "hr_body r = Inr d"
    using assms(1) unfolding net_answers_def by blast
  then show ?thesis
    using assms(2) by (simp add: api_data_def apiRequest_def api_loop.simps [of "sy_net env"] api_attempt_def Let_def)
qed

lemma chunks_answer:
  assumes "net_answers env"
  shows "\<exists>p' m. upload_chunks env a u ex index p n = ((None, p'), m)"
  using assms
proof (induction env a u ex index p n rule: upload_chunks.induct)
  case (1 env a u ex index p n)
  let ?bytes = "chunk_of (ur_bytes u) index"
  obtain r d where f: "sync_fetch env POST (''/evidence/upload-sessions/'' @ session_text p @ ''/chunks'')
      (ChunkForm ?bytes (ur_filename u) index (sy_sha256 env ?bytes)) a n = (Inr r, n + 1)" "response_ok r"
    using fetch_answers [OF "1.prems"] by metis
  consider "\<not> of_nat index < ex" | "of_nat index < ex" "of_nat index \<in> set (payload_chunks p)"
    | "of_nat index < ex" "of_nat index \<notin> set (payload_chunks p)" by blast
  then show ?case
  proof cases
    case 2
    with "1.IH"(1) [OF _ 2(2) "1.prems"] show ?thesis by (subst upload_chunks.simps) simp
  next
    case 3
    with "1.IH"(2) [OF _ 3(2) refl f(1) [symmetric] refl _ refl "1.prems"] f(2) show ?thesis
      by (subst upload_chunks.simps) (simp add: Let_def f(1) [simplified])
  qed (simp add: upload_chunks.simps)
qed

lemma open_answers:
  assumes "net_answers env"
  shows "\<exists>p' m. open_upload env a u p n = ((None, p'), m)"
proof -
  have "\<exists>p' m. create_upload env a u p n = ((None, p'), m)"
    using fetch_answers [OF assms, of POST "''/evidence/upload-sessions''" _ a n] unfolding create_upload_def
    by (smt (verit) case_prod_conv old.sum.simps(6))
  then show ?thesis
    using fetch_answers [OF assms, of GET "''/evidence/upload-sessions/'' @ the (ev_sessionId p) @ ''/status''" NoBody a n]
    by (auto simp: open_upload_def session_text_def truthy_def Let_def)
qed

lemma action_answers:
  assumes "net_answers env" and "readable env a"
  shows "\<exists>d p m. runAction env a n = ((Inr d, p), m) \<and> (is_submission (qa_payload a) \<longrightarrow> p = qa_payload a)"
proof (cases "qa_payload a")
  case (EvidenceUpload p0)
  obtain u where u: "parse_upload env p0 = Inr u" using assms(2) EvidenceUpload by (auto simp: readable_def)
  obtain p1 n1 where 1: "open_upload env a u p0 n = ((None, p1), n1)" using open_answers [OF assms(1)] by blast
  obtain p2 n2 where 2: "upload_chunks env a u (case ev_totalChunks p1 of None \<Rightarrow> 0 | Some t \<Rightarrow> t) 0 p1 n1 = ((None, p2), n2)"
    using chunks_answer [OF assms(1)] by blast
  obtain r d where 3: "sync_fetch env POST (''/evidence/upload-sessions/'' @ session_text p2 @ ''/finalize'') NoBody a n2 = (Inr r, n2 + 1)"
    "response_ok r" "read_json r = Inr d" using fetch_answers [OF assms(1)] by metis
  show ?thesis using EvidenceUpload u 1 2 3 by (simp add: runAction_def run_upload_def is_submission_def)
next
  case (ClaimConfirmation a' c u)
  obtain r d where "sync_fetch env POST (''/claims/'' @ c @ ''/verify'') NoBody a n = (Inr r, n + 1)" "response_ok r" "read_json r = Inr d"
    using fetch_answers [OF assms(1)] by metis
  then show ?thesis using ClaimConfirmation by (simp add: runAction_def is_submission_def)
next
  case (StatusRefresh i u)
  then show ?thesis using api_answers [OF assms(1)]
    by (auto simp: runAction_def Let_def is_submission_def split: prod.splits) (metis prod.inject request_config.select_convs(5) request_config.simps)
next
  case (ClaimSubmission i c k u)
  then show ?thesis using api_answers [OF assms(1)]
    by (auto simp: runAction_def Let_def is_submission_def split: prod.splits) (metis prod.inject request_config.select_convs(5) request_config.simps)
qed

text \<open>A device with one claim to submit and a server that accepts everything, for the witnesses.\<close>

definition demo_sync :: sync_env where
  "demo_sync = \<lparr>sy_net = demo_net 200, sy_uuid = ''u'', sy_readNumber = (\<lambda>_. None), sy_sha256 = (\<lambda>_. []), sy_typeError = []\<rparr>"

definition demo_online :: flush_options where
  "demo_online = \<lparr>fo_online = Some True, fo_saverMode = False, fo_forceSync = False, fo_batteryLevel = None,
     fo_isCharging = False, fo_isMetered = False, fo_meteredOptIn = False\<rparr>"

definition demo_claim :: queued_action where
  "demo_claim = new_action 0 ''a1'' ''x'' \<lparr>sr_payload = ClaimSubmission ''d1'' ''c1'' ''k1'' False, sr_maxRetries = None\<rparr>"

definition demo_queue :: sync_queue where
  "demo_queue = \<lparr>qs_items = [demo_claim], qs_isSyncing = False, qs_lastSyncAt = None, qs_lastSyncError = None,
     qs_deferralStatus = None, qs_hydrated = True, qs_stored = Some [demo_claim], qs_events = []\<rparr>"

lemma demo_device:
  "unrestricted demo_online" "qs_hydrated demo_queue" "\<not> qs_isSyncing demo_queue" "distinct (map qa_id (qs_items demo_queue))"
  "qs_items demo_queue = [demo_claim]" "qs_events demo_queue = []" "qa_id demo_claim = ''a1''"
  "is_submission (qa_payload demo_claim)" "qa_nextRetryAt demo_claim = 0" "sync_now demo_sync n = int n"
  by (simp_all add: unrestricted_def demo_online_def battery_level_def demo_queue_def demo_claim_def new_action_def is_submission_def
      sync_now_def demo_sync_def demo_net_def)

lemma demo_answers: "net_answers demo_sync" "readable demo_sync demo_claim"
  by (simp_all add: net_answers_def demo_sync_def demo_net_def response_ok_def readable_def demo_claim_def new_action_def)

text \<open>
  C25. A flush runs what is due, once and in order. On a queue without double ids, when nothing is
  deferred and the saver mode is off, a flush runs exactly the due actions, each once, in the order of
  the queue; a successful one leaves the queue (a submitted claim stays, marked), a failed one is
  scheduled as \<open>failed_action\<close> says, and the others keep their places.
\<close>

theorem flush_runs_due:
  assumes "unrestricted opts" and "qs_hydrated s" "\<not> qs_isSyncing s" and "distinct (map qa_id (qs_items s))"
    and "run_due env opts (sync_now env n) n (qs_items s) = (xs, ev, m)"
  shows "\<exists>t. flushPendingNetworkActions env opts n s = (m, t) \<and> qs_items t = xs \<and>
    qs_events t = qs_events s @ ev \<and> \<not> qs_isSyncing t \<and> qs_hydrated t"
  by (rule flush_runs_due_aux [OF assms])

theorem flush_runs_due_witness:
  "\<exists>m t. flushPendingNetworkActions demo_sync demo_online 0 demo_queue = (m, t) \<and> \<not> qs_isSyncing t"
proof -
  obtain xs ev m where run: "run_due demo_sync demo_online (sync_now demo_sync 0) 0 (qs_items demo_queue) = (xs, ev, m)"
    by (cases "run_due demo_sync demo_online (sync_now demo_sync 0) 0 (qs_items demo_queue)")
  from flush_runs_due [OF demo_device(1-4) run] show ?thesis by blast
qed

lemma run_due_answers:
  assumes "net_answers env" and "\<And>a. a \<in> set todo \<Longrightarrow> readable env a" and "run_due env opts start n todo = (xs, ev, m)"
  shows "map (\<lambda>e. qa_id (fst e)) ev = map qa_id (filter (\<lambda>a. qa_nextRetryAt a \<le> start) todo) \<and>
    (\<forall>x \<in> set xs. x \<in> set todo \<and> start < qa_nextRetryAt x \<or> qa_state x = SA_submitted \<and> is_submission (qa_payload x)) \<and>
    (\<forall>a \<in> set todo. is_submission (qa_payload a) \<and> qa_nextRetryAt a \<le> start \<longrightarrow>
      (\<exists>x \<in> set xs. qa_id x = qa_id a \<and> qa_state x = SA_submitted \<and> qa_nextRetryAt x = qa_nextRetryAt a)) \<and>
    (\<forall>x \<in> set xs. readable env x)"
  using assms(2,3)
proof (induction todo arbitrary: n xs ev m)
  case (Cons a rest)
  show ?case
  proof (cases "start < qa_nextRetryAt a")
    case True
    then obtain xs' where "run_due env opts start n rest = (xs', ev, m)" "xs = a # xs'"
      using Cons.prems(2) by (auto split: prod.splits)
    with Cons.IH [OF Cons.prems(1) this(1)] True Cons.prems(1) [of a] show ?thesis by auto
  next
    case False
    obtain ys e1 n1 where ys: "after_run env opts a n = (ys, e1, n1)" by (cases "after_run env opts a n")
    with False obtain xs' e2 where xs: "run_due env opts start n1 rest = (xs', e2, m)" "xs = ys @ xs'" "ev = e1 @ e2"
      using Cons.prems(2) by (auto split: prod.splits)
    obtain d p k where run: "runAction env a n = ((Inr d, p), k)" "is_submission (qa_payload a) \<Longrightarrow> p = qa_payload a"
      using action_answers [OF assms(1), of a n] Cons.prems(1) [of a] by auto
    have e1: "map (\<lambda>e. qa_id (fst e)) e1 = [qa_id a]"
      and y: "\<forall>x \<in> set ys. qa_state x = SA_submitted \<and> is_submission (qa_payload x) \<and> readable env x"
      "is_submission (qa_payload a) \<Longrightarrow> \<exists>x \<in> set ys. qa_id x = qa_id a \<and> qa_state x = SA_submitted \<and> qa_nextRetryAt x = qa_nextRetryAt a"
      using ys run by (auto simp: after_run_def readable_def is_submission_def split: if_splits sync_payload.splits)
    from Cons.IH [OF Cons.prems(1) xs(1)] e1 y False show ?thesis unfolding xs(2,3) by auto
  qed
qed simp

text \<open>
  C26. An unrestricted flush over a working network gets everything done: when no saver mode, battery or
  metered link defers actions, the server answers every request and the stored upload bodies can be read, the flush announces every due action, once and in order, and
  afterwards the queue holds only actions that were not due and submitted claims.
\<close>

theorem flush_completes_due:
  assumes "unrestricted opts" and "qs_hydrated s" "\<not> qs_isSyncing s" and "distinct (map qa_id (qs_items s))"
    and "net_answers env" and "\<And>a. a \<in> set (qs_items s) \<Longrightarrow> readable env a"
  shows "\<exists>m t. flushPendingNetworkActions env opts n s = (m, t) \<and>
    map (\<lambda>e. qa_id (fst e)) (drop (length (qs_events s)) (qs_events t)) =
      map qa_id (filter (\<lambda>a. qa_nextRetryAt a \<le> sync_now env n) (qs_items s)) \<and>
    (\<forall>x \<in> set (qs_items t). x \<in> set (qs_items s) \<and> sync_now env n < qa_nextRetryAt x \<or>
      qa_state x = SA_submitted \<and> is_submission (qa_payload x))"
proof -
  obtain xs ev m where run: "run_due env opts (sync_now env n) n (qs_items s) = (xs, ev, m)"
    by (cases "run_due env opts (sync_now env n) n (qs_items s)")
  from flush_runs_due_aux [OF assms(1-4) run] run_due_answers [OF assms(5,6) run] show ?thesis by auto
qed

theorem flush_completes_due_witness:
  "\<exists>m t. flushPendingNetworkActions demo_sync demo_online 0 demo_queue = (m, t) \<and>
     map (\<lambda>e. qa_id (fst e)) (qs_events t) = [''a1'']"
  using flush_completes_due [OF demo_device(1-4) demo_answers(1), of 0] demo_device demo_answers(2) by auto

text \<open>
  A submitted claim is submitted again: after a flush that submitted a claim, the claim is still
  due, and the next flush, at any later time, submits it once more. The state of an action is not
  looked at when a flush picks what to run.
\<close>

theorem submitted_claim_runs_again:
  assumes "unrestricted opts" and "qs_hydrated s" "\<not> qs_isSyncing s" and "distinct (map qa_id (qs_items s))"
    and "net_answers env" and "\<And>a. a \<in> set (qs_items s) \<Longrightarrow> readable env a"
    and "a \<in> set (qs_items s)" "is_submission (qa_payload a)" "qa_nextRetryAt a \<le> sync_now env n"
    and "sync_now env n \<le> sync_now env n'"
  shows "\<exists>m t m' t'. flushPendingNetworkActions env opts n s = (m, t) \<and> flushPendingNetworkActions env opts n' t = (m', t') \<and>
    (\<exists>x \<in> set (qs_items t). qa_id x = qa_id a \<and> qa_state x = SA_submitted) \<and>
    qa_id a \<in> set (map (\<lambda>e. qa_id (fst e)) (drop (length (qs_events t)) (qs_events t')))"
proof -
  obtain xs ev m where run: "run_due env opts (sync_now env n) n (qs_items s) = (xs, ev, m)"
    by (cases "run_due env opts (sync_now env n) n (qs_items s)")
  from flush_runs_due_aux [OF assms(1-4) run] obtain t where
    t: "flushPendingNetworkActions env opts n s = (m, t)" "qs_items t = xs" "\<not> qs_isSyncing t" "qs_hydrated t" by blast
  note 1 = run_due_answers [OF assms(5,6) run]
  obtain x where x: "x \<in> set xs" "qa_id x = qa_id a" "qa_state x = SA_submitted" "qa_nextRetryAt x = qa_nextRetryAt a"
    using 1 assms(7-9) by blast
  obtain xs' ev' m' where run': "run_due env opts (sync_now env n') n' xs = (xs', ev', m')"
    by (cases "run_due env opts (sync_now env n') n' xs")
  have "distinct (map qa_id (qs_items t))" using run_due_ids [OF run assms(4)] t(2) by simp
  from flush_runs_due_aux [OF assms(1) t(4,3) this run' [folded t(2)]] obtain t' where
    t': "flushPendingNetworkActions env opts n' t = (m', t')" "qs_events t' = qs_events t @ ev'" by blast
  have "map (\<lambda>e. qa_id (fst e)) ev' = map qa_id (filter (\<lambda>a. qa_nextRetryAt a \<le> sync_now env n') xs)"
    using run_due_answers [OF assms(5) _ run'] 1 by blast
  moreover have "x \<in> set (filter (\<lambda>a. qa_nextRetryAt a \<le> sync_now env n') xs)" using x assms(9,10) by simp
  ultimately have "qa_id a \<in> set (map (\<lambda>e. qa_id (fst e)) ev')" using x(2) by (metis image_eqI image_set)
  with t t' x show ?thesis by auto
qed

theorem submitted_claim_runs_again_witness:
  "\<exists>m t m' t'. flushPendingNetworkActions demo_sync demo_online 0 demo_queue = (m, t) \<and>
     flushPendingNetworkActions demo_sync demo_online 9 t = (m', t') \<and>
     ''a1'' \<in> set (map (\<lambda>e. qa_id (fst e)) (drop (length (qs_events t)) (qs_events t')))"
proof -
  have "readable demo_sync a" if "a \<in> set (qs_items demo_queue)" for a using that demo_device(5) demo_answers(2) by simp
  moreover have "demo_claim \<in> set (qs_items demo_queue)" "qa_nextRetryAt demo_claim \<le> sync_now demo_sync 0"
    "sync_now demo_sync 0 \<le> sync_now demo_sync 9" using demo_device by simp_all
  ultimately show ?thesis
    using submitted_claim_runs_again [OF demo_device(1-4) demo_answers(1), of demo_claim 0 9, unfolded demo_device(7)]
      demo_device(8) by blast
qed

section \<open>Additions during a flush\<close>

lemma action_ids_update: "(\<And>x. qa_id (f x) = qa_id x) \<Longrightarrow> qa_id ` set (update_where P f xs) = qa_id ` set xs"
  by (metis image_set map_update_where)

lemma flush_item_ids:
  assumes "flush_item env opts start a (fl, n, s) = Some (fl', n', s')" and "\<not> start < qa_nextRetryAt a" and "deferral opts a = None"
  shows "qs_items s' = fl_items fl' \<and> qs_stored s' = Some (fl_items fl') \<and> qa_id ` set (fl_items fl') \<subseteq> qa_id ` set (fl_items fl)"
proof -
  obtain r p where r: "runAction env a n = ((r, p), n')"
    using assms by (cases "runAction env a n") (auto simp: flush_item_def Let_def split: if_splits)
  let ?shared = "update_where (\<lambda>i. qa_id i = qa_id a) (\<lambda>i. i\<lparr>qa_payload := p\<rparr>) (fl_items fl)"
  have "qs_items s' = fl_items fl' \<and> qs_stored s' = Some (fl_items fl') \<and> fl_items fl' = (case r of
      Inr result \<Rightarrow> if is_submission (qa_payload a)
        then update_where (\<lambda>i. qa_id i = qa_id a) (\<lambda>i. i\<lparr>qa_state := SA_submitted, qa_updatedAt := sync_now env n'\<rparr>) ?shared
        else filter (\<lambda>i. qa_id i \<noteq> qa_id a) ?shared
    | Inl e \<Rightarrow> update_where (\<lambda>i. qa_id i = qa_id a) (failed_action opts a e (sync_now env n')) ?shared)"
    using assms r by (auto simp: flush_item_def Let_def persistQueue_def split: if_splits)
  moreover have shared: "qa_id ` set ?shared = qa_id ` set (fl_items fl)" by (rule action_ids_update) simp
  moreover have "qa_id ` set (filter P ?shared) \<subseteq> qa_id ` set (fl_items fl)" for P
    unfolding shared [symmetric] by auto
  ultimately show ?thesis by (cases r) (simp_all add: action_ids_update del: set_filter)
qed

text \<open>
  What is added during a flush is lost: an action that is put into the queue while a flush waits
  for the network, and was reported as queued, is neither in the queue nor in the storage once the
  flush has run its next action.
\<close>

theorem enqueue_during_flush_lost:
  assumes "enqueue now newId c req s = (b, s1)" and "qa_id b = newId"
    and "flush_item env opts start a (fl, n, s1) = Some (fl', n', t)"
    and "\<not> start < qa_nextRetryAt a" and "deferral opts a = None" and "newId \<notin> qa_id ` set (fl_items fl)"
  shows "b \<in> set (qs_items s1) \<and> newId \<notin> qa_id ` set (qs_items t) \<and>
    (\<exists>xs. qs_stored t = Some xs \<and> newId \<notin> qa_id ` set xs)"
proof -
  have "b \<in> set (qs_items s1)"
    using assms(1) by (auto simp: enqueue_def Let_def replaceQueueItems_def persistQueue_def find_Some_iff
        split: option.splits sync_payload.splits)
  with flush_item_ids [OF assms(3-5)] assms(6) show ?thesis by auto
qed

theorem enqueue_during_flush_lost_witness:
  "\<exists>b s1 fl n t. enqueue 1 ''a2'' ''y'' \<lparr>sr_payload = StatusRefresh ''d2'' False, sr_maxRetries = None\<rparr> demo_queue = (b, s1) \<and>
     flush_item demo_sync demo_online 0 demo_claim (\<lparr>fl_items = [demo_claim], fl_processed = 0, fl_deferred = 0\<rparr>, 0, s1) = Some (fl, n, t) \<and>
     ''a2'' \<notin> qa_id ` set (qs_items t)"
proof -
  let ?req = "\<lparr>sr_payload = StatusRefresh ''d2'' False, sr_maxRetries = None\<rparr>"
  let ?fl = "\<lparr>fl_items = [demo_claim], fl_processed = 0, fl_deferred = 0\<rparr>"
  obtain b s1 where e: "enqueue 1 ''a2'' ''y'' ?req demo_queue = (b, s1)" "qa_id b = ''a2''"
    by (simp add: enqueue_def Let_def new_action_def)
  obtain ys ev m where "after_run demo_sync demo_online demo_claim 0 = (ys, ev, m)"
    by (cases "after_run demo_sync demo_online demo_claim 0")
  from flush_item_due [OF demo_device(1) _ this, of 0 ?fl "[]" "[]" s1] demo_device(9)
  obtain fl t where f: "flush_item demo_sync demo_online 0 demo_claim (?fl, 0, s1) = Some (fl, m, t)" by auto
  have due: "\<not> 0 < qa_nextRetryAt demo_claim" and new: "''a2'' \<notin> qa_id ` set (fl_items ?fl)" using demo_device(7,9) by simp_all
  from enqueue_during_flush_lost [OF e f due never_deferred [OF demo_device(1)] new] e(1) f show ?thesis by blast
qed

section \<open>Delays\<close>

lemma rate_limit_range:
  "0 \<le> computeRateLimitBackoffMs k ra v" "computeRateLimitBackoffMs k ra v \<le> SYNC_MAX_RETRY_DELAY_MS"
  unfolding computeRateLimitBackoffMs_def Let_def
  by (rule min.boundedI [OF max.cobounded2], simp add: SYNC_MAX_RETRY_DELAY_MS_def) (rule min.cobounded2)

lemma rate_limit_floor:
  assumes "1 < k"
  shows "120000 \<le> computeRateLimitBackoffMs k ra v"
proof -
  define fl where "fl = min (SYNC_BASE_RETRY_DELAY_MS * 2 ^ nat (max 1 k)) SYNC_MAX_RETRY_DELAY_MS"
  have "(2::int) ^ 2 \<le> 2 ^ nat k" using assms by (intro power_increasing) auto
  then have floor: "120000 \<le> fl" using assms by (simp add: fl_def SYNC_BASE_RETRY_DELAY_MS_def SYNC_MAX_RETRY_DELAY_MS_def)
  define d where "d = (if ra \<noteq> None \<and> 0 \<le> the ra then (if 1 < max 1 k then max (the ra) fl else the ra) else fl)"
  have "120000 \<le> d" using floor assms by (simp add: d_def le_max_iff_disj)
  then have "120000 \<le> (if v then d * SAVER_BACKOFF_MULTIPLIER else d)" by (simp add: SAVER_BACKOFF_MULTIPLIER_def)
  moreover have "computeRateLimitBackoffMs k ra v = min (max (if v then d * SAVER_BACKOFF_MULTIPLIER else d) 0) SYNC_MAX_RETRY_DELAY_MS"
    by (simp only: computeRateLimitBackoffMs_def Let_def d_def fl_def)
  ultimately show ?thesis by (simp add: SYNC_MAX_RETRY_DELAY_MS_def le_max_iff_disj)
qed

text \<open>
  Retries are spaced: an action that failed is not tried again before the backoff is over: at
  least a minute after its first failure and, outside the saver mode, at most 15 minutes; after a
  second 429 in a row the wait is at least two minutes, whatever the server asks, and a wait for a
  429 never exceeds 15 minutes.
\<close>

theorem retries_are_spaced:
  assumes "0 \<le> qa_retryCount a" and "0 \<le> qa_rateLimitCount a"
    and "wait = qa_nextRetryAt (failed_action opts a e now i) - now"
  shows "(\<not> isRateLimitedError e \<longrightarrow> 60000 \<le> wait \<and> wait \<le> 900000 * (if fo_saverMode opts then 3 else 1)) \<and>
    (isRateLimitedError e \<longrightarrow> 0 \<le> wait \<and> wait \<le> 900000 \<and> (0 < qa_rateLimitCount a \<longrightarrow> 120000 \<le> wait))"
proof -
  have p: "(2::int) ^ 1 \<le> 2 ^ nat (qa_retryCount a + 1)" using assms(1) by (intro power_increasing) auto
  have "60000 \<le> backoffDelayMs (qa_retryCount a + 1)" "backoffDelayMs (qa_retryCount a + 1) \<le> 900000"
    using p by (simp_all add: backoffDelayMs_def SYNC_BASE_RETRY_DELAY_MS_def SYNC_MAX_RETRY_DELAY_MS_def)
  moreover have "0 \<le> computeRateLimitBackoffMs k ra v" "computeRateLimitBackoffMs k ra v \<le> 900000" for k ra v
    using rate_limit_range [of k ra v] by (simp_all add: SYNC_MAX_RETRY_DELAY_MS_def)
  moreover have "120000 \<le> computeRateLimitBackoffMs (qa_rateLimitCount a + 1) ra v" if "0 < qa_rateLimitCount a" for ra v
    using that by (intro rate_limit_floor) simp
  ultimately show ?thesis
    by (auto simp: assms(3) failed_action_def Let_def SAVER_BACKOFF_MULTIPLIER_def)
qed

theorem retries_are_spaced_witness:
  "60000 \<le> qa_nextRetryAt (failed_action demo_online demo_claim (OtherError ''down'') 7 demo_claim) - 7"
proof -
  have "\<not> isRateLimitedError (OtherError ''down'')" by code_simp
  moreover have "0 \<le> qa_retryCount demo_claim" "0 \<le> qa_rateLimitCount demo_claim" by (simp_all add: demo_claim_def new_action_def)
  ultimately show ?thesis using retries_are_spaced [of demo_claim _ demo_online "OtherError ''down''" 7 demo_claim] by blast
qed

end
