(* ===== verification/FileValidation.thy ===== *)
theory FileValidation
  imports Bytes
begin

text \<open>
  What an uploaded file must be: \<open>evidence/file-validation.ts\<close>. A buffer is its list of bytes. A
  \<open>PayloadTooLargeException\<close> is the error with code 413. \<open>path.basename\<close> and \<open>path.extname\<close> are Node's,
  for names; \<open>extname\<close> is only asked about names without a separator.
\<close>

definition MAX_FILE_SIZE :: int where "MAX_FILE_SIZE = 10 * 1024 * 1024"
definition MAX_FILENAME_LENGTH :: nat where "MAX_FILENAME_LENGTH = 255"

definition ALLOWED_MIME_TYPES :: "string list" where
  "ALLOWED_MIME_TYPES = [''image/jpeg'', ''image/png'', ''image/gif'', ''application/pdf'', ''text/plain'']"

definition ALLOWED_EXTENSIONS :: "string list" where
  "ALLOWED_EXTENSIONS = [''.jpg'', ''.jpeg'', ''.png'', ''.gif'', ''.pdf'', ''.txt'']"

definition EXTENSION_MIME_MAP :: "(string \<times> string list) list" where
  "EXTENSION_MIME_MAP = [(''.jpg'', [''image/jpeg'']), (''.jpeg'', [''image/jpeg'']), (''.png'', [''image/png'']),
     (''.gif'', [''image/gif'']), (''.pdf'', [''application/pdf'']), (''.txt'', [''text/plain''])]"

definition MAGIC_SIGNATURES :: "(string \<times> bytes) list" where
  "MAGIC_SIGNATURES = [(''image/jpeg'', [0xff, 0xd8, 0xff]),
     (''image/png'', [0x89, 0x50, 0x4e, 0x47, 0x0d, 0x0a, 0x1a, 0x0a]),
     (''image/gif'', [0x47, 0x49, 0x46, 0x38]), (''application/pdf'', [0x25, 0x50, 0x44, 0x46])]"

fun bytes_at :: "bytes \<Rightarrow> bytes \<Rightarrow> bool" where
  "bytes_at buffer [] \<longleftrightarrow> True"
| "bytes_at [] (b # bs) \<longleftrightarrow> False"
| "bytes_at (x # xs) (b # bs) \<longleftrightarrow> x = b \<and> bytes_at xs bs"

definition startsWith :: "bytes \<Rightarrow> bytes \<Rightarrow> bool" where
  "startsWith buffer sig \<longleftrightarrow> (if length buffer < length sig then False else bytes_at buffer sig)"

text \<open>Node's \<open>path.basename\<close>: trailing separators are dropped; \<open>path.extname\<close> of a plain name.\<close>

definition basename :: "string \<Rightarrow> string" where
  "basename p = rev (takeWhile (\<lambda>c. c \<noteq> CHR ''/'') (dropWhile (\<lambda>c. c = CHR ''/'') (rev p)))"

definition extname :: "string \<Rightarrow> string" where
  "extname name =
     (let ext = rev (takeWhile (\<lambda>c. c \<noteq> CHR ''.'') (rev name)) in
      if length ext = length name \<or> length ext + 1 = length name \<or> name = ''..'' then [] else CHR ''.'' # ext)"

definition isSafeFilename :: "string \<Rightarrow> bool" where
  "isSafeFilename name \<longleftrightarrow>
     (if name = [] \<or> MAX_FILENAME_LENGTH < length name then False
      else if list_ex (\<lambda>c. (of_char c :: nat) < 0x20 \<or> (of_char c :: nat) = 0x7f) name then False
      else if str_includes name ''/'' \<or> str_includes name [CHR 0x5C] then False
      else \<not> (basename name \<noteq> name \<or> basename name = ''.'' \<or> basename name = ''..''))"

definition evidenceFileFilter :: "string \<Rightarrow> string \<Rightarrow> app_error + unit" where
  "evidenceFileFilter originalname mimetype =
     (if \<not> isSafeFilename originalname then Inl (AppException BAD_REQUEST 400 ''Invalid filename'')
      else if mimetype \<notin> set ALLOWED_MIME_TYPES then
        Inl (AppException BAD_REQUEST 400 (''Invalid MIME type: '' @ mimetype @ ''. Allowed types: '' @ join '', '' ALLOWED_MIME_TYPES))
      else let ext = toLowerCase (extname originalname)
        in if ext = [] \<or> ext \<notin> set ALLOWED_EXTENSIONS then
             Inl (AppException BAD_REQUEST 400 (''Invalid file extension: '' @ (if ext = [] then ''(none)'' else ext)
               @ ''. Allowed extensions: '' @ join '', '' ALLOWED_EXTENSIONS))
           else Inr ())"

definition validateExtensionForMime :: "string \<Rightarrow> string \<Rightarrow> app_error + string" where
  "validateExtensionForMime filename mimetype =
     (let ext = toLowerCase (extname filename)
      in if ext = [] \<or> ext \<notin> set ALLOWED_EXTENSIONS then
           Inl (AppException BAD_REQUEST 400 (''Invalid file extension: '' @ (if ext = [] then ''(none)'' else ext)
             @ ''. Allowed extensions: '' @ join '', '' ALLOWED_EXTENSIONS))
         else if mimetype \<notin> set (case map_of EXTENSION_MIME_MAP ext of None \<Rightarrow> [] | Some ms \<Rightarrow> ms) then
           Inl (AppException BAD_REQUEST 400 (''Declared MIME type '' @ mimetype @ '' does not match extension '' @ ext))
         else Inr ext)"

definition assertContentMatchesType :: "string \<Rightarrow> bytes \<Rightarrow> app_error + unit" where
  "assertContentMatchesType mimetype buffer =
     (if mimetype = ''text/plain'' then
        (if list_ex (\<lambda>(m, sig). startsWith buffer sig) MAGIC_SIGNATURES \<or> list_ex (\<lambda>b. b = 0) (take 512 buffer) then
           Inl (AppException BAD_REQUEST 400 ''File contents do not match the declared text/plain type'')
         else Inr ())
      else case map_of MAGIC_SIGNATURES mimetype of
          None \<Rightarrow> Inr ()
        | Some sig \<Rightarrow>
            if \<not> startsWith buffer sig then
              Inl (AppException BAD_REQUEST 400 (''File contents do not match the declared '' @ mimetype @ '' type''))
            else Inr ())"

record validated_file =
  vf_filename :: string
  vf_size :: int
  vf_mimetype :: string
  vf_extension :: string

definition validateFileContent :: "string \<Rightarrow> string \<Rightarrow> int \<Rightarrow> bytes \<Rightarrow> app_error + validated_file" where
  "validateFileContent filename mimetype sz buffer =
     (if sz = 0 \<or> buffer = [] then Inl (AppException BAD_REQUEST 400 ''Uploaded file is empty'')
      else if MAX_FILE_SIZE < sz then
        Inl (AppException PAYLOAD_TOO_LARGE 413 ''File too large. Maximum allowed size is 10MB'')
      else if \<not> isSafeFilename filename then Inl (AppException BAD_REQUEST 400 ''Invalid filename'')
      else if mimetype \<notin> set ALLOWED_MIME_TYPES then
        Inl (AppException BAD_REQUEST 400 (''Invalid MIME type: '' @ mimetype @ ''. Allowed types: '' @ join '', '' ALLOWED_MIME_TYPES))
      else case validateExtensionForMime filename mimetype of
          Inl e \<Rightarrow> Inl e
        | Inr ext \<Rightarrow>
            (case assertContentMatchesType mimetype buffer of
               Inl e \<Rightarrow> Inl e
             | Inr u \<Rightarrow> Inr \<lparr>vf_filename = filename, vf_size = sz, vf_mimetype = mimetype, vf_extension = ext\<rparr>))"

section \<open>What is accepted\<close>

lemma startsWith_iff: "startsWith buffer sig \<longleftrightarrow> take (length sig) buffer = sig"
proof -
  have "bytes_at buffer sig \<longleftrightarrow> take (length sig) buffer = sig"
    by (induction buffer sig rule: bytes_at.induct) auto
  then show ?thesis by (auto simp: startsWith_def)
qed

text \<open>A separator is in the name or not; without one, the name is its own base name.\<close>

lemma includes_char: "str_includes s [c] \<longleftrightarrow> c \<in> set s"
  by (auto simp: includes_iff in_set_conv_decomp)

lemma basename_plain: "CHR ''/'' \<notin> set s \<Longrightarrow> basename s = s"
proof -
  assume s: "CHR ''/'' \<notin> set s"
  then have "dropWhile (\<lambda>c. c = CHR ''/'') (rev s) = rev s"
    by (cases "rev s") (auto simp: dropWhile_eq_self_iff dest: arg_cong [of _ _ set])
  moreover have "takeWhile (\<lambda>c. c \<noteq> CHR ''/'') (rev s) = rev s"
    using s by (auto simp: takeWhile_eq_all_conv)
  ultimately show ?thesis by (simp only: basename_def rev_rev_ident)
qed

lemma safe_iff: "isSafeFilename s \<longleftrightarrow> s \<noteq> [] \<and> length s \<le> MAX_FILENAME_LENGTH \<and>
    \<not> list_ex (\<lambda>c. (of_char c :: nat) < 0x20 \<or> (of_char c :: nat) = 0x7f) s \<and>
    CHR ''/'' \<notin> set s \<and> CHR 0x5C \<notin> set s \<and> s \<noteq> ''.'' \<and> s \<noteq> ''..''"
proof (cases "CHR ''/'' \<in> set s")
  case False
  show ?thesis unfolding isSafeFilename_def includes_char basename_plain [OF False] using False by (simp add: not_less)
qed (simp add: isSafeFilename_def includes_char)

definition declared_type :: "string \<Rightarrow> string" where
  "declared_type ext = (if ext = ''.jpg'' \<or> ext = ''.jpeg'' then ''image/jpeg'' else if ext = ''.png'' then ''image/png''
     else if ext = ''.gif'' then ''image/gif'' else if ext = ''.pdf'' then ''application/pdf'' else ''text/plain'')"

text \<open>A type read off the content: that of its signature, else text if no zero byte comes early.\<close>

definition content_type :: "bytes \<Rightarrow> string option" where
  "content_type buffer =
     (case find (\<lambda>(m, sig). startsWith buffer sig) MAGIC_SIGNATURES of
        Some (m, sig) \<Rightarrow> Some m
      | None \<Rightarrow> if 0 \<in> set (take 512 buffer) then None else Some ''text/plain'')"

lemma first_byte: "startsWith b (x # xs) \<Longrightarrow> b \<noteq> [] \<and> hd b = x"
  by (cases b) (auto simp: startsWith_def split: if_splits)

lemma signatures_exclude:
  "startsWith b (x # xs) \<Longrightarrow> startsWith b (y # ys) \<Longrightarrow> x = y"
  using first_byte by blast

text \<open>The signatures of the four binary types, one at most of which a file has.\<close>

definition has_sig :: "string \<Rightarrow> bytes \<Rightarrow> bool" where
  "has_sig m b \<longleftrightarrow> (\<exists>sig. map_of MAGIC_SIGNATURES m = Some sig \<and> startsWith b sig)"

lemma has_sig_simps:
  "has_sig ''image/jpeg'' b = startsWith b [0xff, 0xd8, 0xff]"
  "has_sig ''image/png'' b = startsWith b [0x89, 0x50, 0x4e, 0x47, 0x0d, 0x0a, 0x1a, 0x0a]"
  "has_sig ''image/gif'' b = startsWith b [0x47, 0x49, 0x46, 0x38]"
  "has_sig ''application/pdf'' b = startsWith b [0x25, 0x50, 0x44, 0x46]"
  by (simp_all add: has_sig_def MAGIC_SIGNATURES_def)

lemma one_sig:
  "has_sig ''image/jpeg'' b \<Longrightarrow> \<not> has_sig ''image/png'' b \<and> \<not> has_sig ''image/gif'' b \<and> \<not> has_sig ''application/pdf'' b"
  "has_sig ''image/png'' b \<Longrightarrow> \<not> has_sig ''image/gif'' b \<and> \<not> has_sig ''application/pdf'' b"
  "has_sig ''image/gif'' b \<Longrightarrow> \<not> has_sig ''application/pdf'' b"
  unfolding has_sig_simps by (auto dest: signatures_exclude)

lemma content_type_cases:
  "content_type b = (if has_sig ''image/jpeg'' b then Some ''image/jpeg'' else if has_sig ''image/png'' b then Some ''image/png''
     else if has_sig ''image/gif'' b then Some ''image/gif'' else if has_sig ''application/pdf'' b then Some ''application/pdf''
     else if 0 \<in> set (take 512 b) then None else Some ''text/plain'')"
  unfolding has_sig_simps by (simp add: content_type_def MAGIC_SIGNATURES_def)

lemma assert_cases:
  "m \<in> {''image/jpeg'', ''image/png'', ''image/gif'', ''application/pdf''} \<Longrightarrow>
    assertContentMatchesType m b = Inr () \<longleftrightarrow> has_sig m b"
  "assertContentMatchesType ''text/plain'' b = Inr () \<longleftrightarrow> \<not> has_sig ''image/jpeg'' b \<and> \<not> has_sig ''image/png'' b \<and>
    \<not> has_sig ''image/gif'' b \<and> \<not> has_sig ''application/pdf'' b \<and> 0 \<notin> set (take 512 b)"
proof -
  show "assertContentMatchesType m b = Inr () \<longleftrightarrow> has_sig m b"
    if "m \<in> {''image/jpeg'', ''image/png'', ''image/gif'', ''application/pdf''}"
    using that by (elim insertE emptyE) (simp_all add: assertContentMatchesType_def has_sig_def MAGIC_SIGNATURES_def)
  show "assertContentMatchesType ''text/plain'' b = Inr () \<longleftrightarrow> \<not> has_sig ''image/jpeg'' b \<and> \<not> has_sig ''image/png'' b \<and>
    \<not> has_sig ''image/gif'' b \<and> \<not> has_sig ''application/pdf'' b \<and> 0 \<notin> set (take 512 b)"
    unfolding has_sig_simps by (auto simp: assertContentMatchesType_def MAGIC_SIGNATURES_def list_ex_iff)
qed

lemma content_iff:
  assumes "m \<in> set ALLOWED_MIME_TYPES"
  shows "assertContentMatchesType m b = Inr () \<longleftrightarrow> content_type b = Some m"
proof (cases "m = ''text/plain''")
  case True
  show ?thesis unfolding True assert_cases(2) content_type_cases by simp
next
  case False
  then have m: "m \<in> {''image/jpeg'', ''image/png'', ''image/gif'', ''application/pdf''}"
    using assms by (simp add: ALLOWED_MIME_TYPES_def)
  show ?thesis unfolding assert_cases(1) [OF m] content_type_cases
    using m one_sig [of b] by (elim insertE emptyE) simp_all
qed

lemma declared_map:
  assumes "ext \<in> set ALLOWED_EXTENSIONS"
  shows "ext \<noteq> [] \<and> map_of EXTENSION_MIME_MAP ext = Some [declared_type ext] \<and> declared_type ext \<in> set ALLOWED_MIME_TYPES"
proof -
  have "list_all (\<lambda>ext. ext \<noteq> [] \<and> map_of EXTENSION_MIME_MAP ext = Some [declared_type ext] \<and>
      List.member ALLOWED_MIME_TYPES (declared_type ext)) ALLOWED_EXTENSIONS" by code_simp
  with assms show ?thesis by (simp add: list_all_iff)
qed

lemma extension_iff:
  "validateExtensionForMime f m = Inr ext \<longleftrightarrow>
     ext = toLowerCase (extname f) \<and> ext \<in> set ALLOWED_EXTENSIONS \<and> m = declared_type ext"
  using declared_map [of "toLowerCase (extname f)"]
  by (auto simp: validateExtensionForMime_def Let_def)

lemma accepted_iff:
  "(\<exists>v. validateFileContent f m sz b = Inr v) \<longleftrightarrow>
     sz \<noteq> 0 \<and> b \<noteq> [] \<and> sz \<le> MAX_FILE_SIZE \<and> isSafeFilename f \<and>
     toLowerCase (extname f) \<in> set ALLOWED_EXTENSIONS \<and> m = declared_type (toLowerCase (extname f)) \<and>
     content_type b = Some m"
proof -
  let ?e = "toLowerCase (extname f)"
  have 1: "(\<exists>v. validateFileContent f m sz b = Inr v) \<longleftrightarrow>
      sz \<noteq> 0 \<and> b \<noteq> [] \<and> sz \<le> MAX_FILE_SIZE \<and> isSafeFilename f \<and> m \<in> set ALLOWED_MIME_TYPES \<and>
      (\<exists>ext. validateExtensionForMime f m = Inr ext) \<and> assertContentMatchesType m b = Inr ()"
    unfolding validateFileContent_def
    by (cases "validateExtensionForMime f m"; cases "assertContentMatchesType m b") (simp_all add: not_less)
  have 2: "m \<in> set ALLOWED_MIME_TYPES" if "?e \<in> set ALLOWED_EXTENSIONS \<and> m = declared_type ?e"
    using that declared_map [of ?e] by blast
  show ?thesis unfolding 1 extension_iff using content_iff [of m b] 2 by metis
qed

text \<open>
  C37. What is accepted as a file: \<open>validateFileContent\<close> accepts exactly the non-empty files of at most 10 MB
  with a safe name whose extension stands for the declared type, when that type is also the one read
  off the content. So no content is accepted under two types.
\<close>

theorem accepted_iff_genuine:
  "(\<exists>v. validateFileContent f m sz b = Inr v) \<longleftrightarrow>
     sz \<noteq> 0 \<and> b \<noteq> [] \<and> sz \<le> MAX_FILE_SIZE \<and> isSafeFilename f \<and>
     toLowerCase (extname f) \<in> set ALLOWED_EXTENSIONS \<and> m = declared_type (toLowerCase (extname f)) \<and>
     content_type b = Some m"
  by (rule accepted_iff)

text \<open>
  The chunks of the mobile app are refused: the filter of the upload route refuses every part
  whose type is \<open>application/octet-stream\<close>, whatever its name.
\<close>

theorem octet_stream_refused:
  "\<exists>msg. evidenceFileFilter name ''application/octet-stream'' = Inl (AppException BAD_REQUEST 400 msg)"
proof -
  have "''application/octet-stream'' \<notin> set ALLOWED_MIME_TYPES" by (simp add: ALLOWED_MIME_TYPES_def)
  then show ?thesis by (simp add: evidenceFileFilter_def)
qed

end
