(* ===== verification/Encryption.thy ===== *)
theory Encryption
  imports Bytes
begin

text \<open>
  \<open>EncryptionService\<close> of \<open>common/encryption/encryption.service.ts\<close>: how personal fields and files
  are stored. The ciphers of Node's \<open>crypto\<close> are the parameter \<open>suite\<close>, with keys, vectors and texts
  as bytes; an \<open>open\<close> that rejects its input is \<open>None\<close>. What the service relies on is \<open>sound_suite\<close>: a cipher
  opens what it sealed under the same key and vector, and tags have 16 bytes. The random vector of an
  operation is an argument.
\<close>

record cipher_suite =
  gcm_seal :: "bytes \<Rightarrow> bytes \<Rightarrow> bytes \<Rightarrow> bytes \<times> bytes"
  gcm_open :: "bytes \<Rightarrow> bytes \<Rightarrow> bytes \<Rightarrow> bytes \<Rightarrow> bytes option"
  cbc_seal :: "bytes \<Rightarrow> bytes \<Rightarrow> bytes \<Rightarrow> bytes"
  cbc_open :: "bytes \<Rightarrow> bytes \<Rightarrow> bytes \<Rightarrow> bytes option"
  cs_sha256 :: "bytes \<Rightarrow> bytes"
  cs_hmac :: "bytes \<Rightarrow> bytes \<Rightarrow> bytes"
  cs_utf8 :: "string \<Rightarrow> bytes"
  cs_text :: "bytes \<Rightarrow> string"

definition IV_GCM_BYTES :: nat where "IV_GCM_BYTES = 12"
definition IV_CBC_BYTES :: nat where "IV_CBC_BYTES = 16"

section \<open>The service\<close>

record encryption_keys =
  ek_key :: bytes
  ek_deterministicIv :: bytes

definition encryption_service :: "cipher_suite \<Rightarrow> string option \<Rightarrow> encryption_keys" where
  "encryption_service suite masterKey =
     (let keyMaterial = (case masterKey of None \<Rightarrow> ''insecure-default-change-in-production!!!!!'' | Some m \<Rightarrow> m);
          key = cs_sha256 suite (cs_utf8 suite keyMaterial)
      in \<lparr>ek_key = key,
          ek_deterministicIv = take IV_CBC_BYTES (cs_hmac suite key (cs_utf8 suite ''deterministic-iv-v1''))\<rparr>)"

definition encrypt_text :: "cipher_suite \<Rightarrow> encryption_keys \<Rightarrow> bytes \<Rightarrow> string \<Rightarrow> string" where
  "encrypt_text suite ks iv plaintext =
     (case gcm_seal suite (ek_key ks) iv (cs_utf8 suite plaintext) of (encrypted, authTag) \<Rightarrow>
        hex_text iv @ '':'' @ hex_text authTag @ '':'' @ hex_text encrypted)"

definition cipher_failed :: app_error where
  "cipher_failed = PlainError ''Unsupported state or unable to authenticate data''"

definition decrypt_text :: "cipher_suite \<Rightarrow> encryption_keys \<Rightarrow> string \<Rightarrow> app_error + string" where
  "decrypt_text suite ks encryptedValue =
     (case split_char (CHR '':'') encryptedValue of
        [ivHex, authTagHex, ciphertextHex] \<Rightarrow>
          (case gcm_open suite (ek_key ks) (from_hex ivHex) (from_hex authTagHex) (from_hex ciphertextHex) of
             None \<Rightarrow> Inl cipher_failed
           | Some p \<Rightarrow> Inr (cs_text suite p))
      | _ \<Rightarrow> Inl (PlainError ''Invalid encrypted value: unexpected format''))"

definition encryptDeterministic :: "cipher_suite \<Rightarrow> encryption_keys \<Rightarrow> string \<Rightarrow> string" where
  "encryptDeterministic suite ks plaintext =
     hex_text (cbc_seal suite (ek_key ks) (ek_deterministicIv ks) (cs_utf8 suite plaintext))"

definition decryptDeterministic :: "cipher_suite \<Rightarrow> encryption_keys \<Rightarrow> string \<Rightarrow> app_error + string" where
  "decryptDeterministic suite ks encryptedValue =
     (case cbc_open suite (ek_key ks) (ek_deterministicIv ks) (from_hex encryptedValue) of
        None \<Rightarrow> Inl cipher_failed
      | Some p \<Rightarrow> Inr (cs_text suite p))"

definition encryptBuffer :: "cipher_suite \<Rightarrow> encryption_keys \<Rightarrow> bytes \<Rightarrow> bytes \<Rightarrow> bytes" where
  "encryptBuffer suite ks iv buffer =
     (case gcm_seal suite (ek_key ks) iv buffer of (encrypted, authTag) \<Rightarrow> iv @ authTag @ encrypted)"

definition decryptBuffer :: "cipher_suite \<Rightarrow> encryption_keys \<Rightarrow> bytes \<Rightarrow> app_error + bytes" where
  "decryptBuffer suite ks encryptedBuffer =
     (let iv = take IV_GCM_BYTES encryptedBuffer;
          authTag = take 16 (drop IV_GCM_BYTES encryptedBuffer);
          ciphertext = drop (IV_GCM_BYTES + 16) encryptedBuffer
      in case gcm_open suite (ek_key ks) iv authTag ciphertext of
           None \<Rightarrow> Inl cipher_failed
         | Some p \<Rightarrow> Inr p)"

section \<open>Round trips\<close>

definition sound_suite :: "cipher_suite \<Rightarrow> bool" where
  "sound_suite suite \<longleftrightarrow>
     (\<forall>k iv p. gcm_open suite k iv (snd (gcm_seal suite k iv p)) (fst (gcm_seal suite k iv p)) = Some p \<and>
       length (snd (gcm_seal suite k iv p)) = 16) \<and>
     (\<forall>k iv p. cbc_open suite k iv (cbc_seal suite k iv p) = Some p) \<and>
     (\<forall>s. cs_text suite (cs_utf8 suite s) = s)"

lemma sealed_parts:
  "split_char (CHR '':'') (hex_text a @ '':'' @ hex_text b @ '':'' @ hex_text c) = [hex_text a, hex_text b, hex_text c]"
proof -
  have "split_char (CHR '':'') (hex_text b @ CHR '':'' # hex_text c) = [hex_text b, hex_text c]"
    using split_next [OF hex_text_no_colon, of b] split_plain [OF hex_text_no_colon, of c] by simp
  then show ?thesis using split_next [OF hex_text_no_colon, of a] by simp
qed

lemma buffer_roundtrip:
  assumes "sound_suite suite" and "length iv = IV_GCM_BYTES"
  shows "decryptBuffer suite ks (encryptBuffer suite ks iv b) = Inr b"
proof -
  obtain c t where ct: "gcm_seal suite (ek_key ks) iv b = (c, t)" by fastforce
  with assms(1) have "gcm_open suite (ek_key ks) iv t c = Some b" "length t = 16"
    unfolding sound_suite_def by (metis fst_conv snd_conv)+
  with assms(2) ct show ?thesis by (simp add: decryptBuffer_def encryptBuffer_def Let_def)
qed

text \<open>
  C36. What the service encrypts it gives back: a text through \<open>decrypt\<close>, a text encrypted for lookup
  through \<open>decryptDeterministic\<close>, a file through \<open>decryptBuffer\<close>; two texts encrypted for lookup are stored
  as the same value exactly when they are the same text.
\<close>

theorem encryption_roundtrip:
  assumes "sound_suite suite" and "length iv = IV_GCM_BYTES"
  shows "decrypt_text suite ks (encrypt_text suite ks iv p) = Inr p \<and>
    decryptDeterministic suite ks (encryptDeterministic suite ks p) = Inr p \<and>
    decryptBuffer suite ks (encryptBuffer suite ks iv b) = Inr b \<and>
    (encryptDeterministic suite ks p = encryptDeterministic suite ks q \<longleftrightarrow> p = q)"
proof -
  have det: "decryptDeterministic suite ks (encryptDeterministic suite ks p) = Inr p" for p
    using assms(1) by (simp add: sound_suite_def decryptDeterministic_def encryptDeterministic_def)
  have "decrypt_text suite ks (encrypt_text suite ks iv p) = Inr p"
  proof -
    obtain c t where ct: "gcm_seal suite (ek_key ks) iv (cs_utf8 suite p) = (c, t)" by fastforce
    with assms(1) have "gcm_open suite (ek_key ks) iv t c = Some (cs_utf8 suite p)"
      unfolding sound_suite_def by (metis fst_conv snd_conv)
    with assms(1) ct show ?thesis
      by (simp add: decrypt_text_def encrypt_text_def sealed_parts [simplified] sound_suite_def)
  qed
  moreover note buffer_roundtrip [OF assms, of ks b]
  ultimately show ?thesis using det by (metis sum.inject(2))
qed

text \<open>A suite that hides nothing, for the witnesses: texts of bytes, a tag of zeros.\<close>

definition demo_suite :: cipher_suite where
  "demo_suite = \<lparr>gcm_seal = (\<lambda>k iv p. (p, replicate 16 0)), gcm_open = (\<lambda>k iv t c. Some c),
     cbc_seal = (\<lambda>k iv p. p), cbc_open = (\<lambda>k iv c. Some c), cs_sha256 = (\<lambda>b. b), cs_hmac = (\<lambda>k b. k @ b),
     cs_utf8 = map (\<lambda>c. of_nat (of_char c)), cs_text = map (\<lambda>b. char_of (unat b))\<rparr>"

lemma demo_suite_sound: "sound_suite demo_suite"
proof -
  have "unat (of_nat (of_char c :: nat) :: 8 word) = of_char c" for c
    by (simp add: unat_of_nat take_bit_eq_mod)
  then have "map (\<lambda>b. char_of (unat b)) (map (\<lambda>c. of_nat (of_char c) :: 8 word) s) = s" for s by (simp add: map_idI)
  then show ?thesis by (simp add: sound_suite_def demo_suite_def)
qed

theorem encryption_roundtrip_witness:
  "decrypt_text demo_suite (encryption_service demo_suite None)
     (encrypt_text demo_suite (encryption_service demo_suite None) (replicate 12 7) ''+254 700 000'') = Inr ''+254 700 000''"
  using encryption_roundtrip [OF demo_suite_sound, of "replicate 12 7"] by (simp add: IV_GCM_BYTES_def)

end
