(* ===== verification/UploadSession.thy ===== *)
theory UploadSession
  imports FileValidation Encryption
begin

text \<open>
  Chunked evidence uploads: \<open>evidence/upload-session.service.ts\<close> and \<open>evidence/upload-session.store.ts\<close>,
  over the cache of \<open>cache/redis.service.ts\<close>. The state is the database tables, the cache, the evidence
  files and the audit log. A cached value may be gone at any time (its time to live, an eviction, a
  write that failed and was only logged): \<open>forget_session\<close>, \<open>forget_chunk\<close> and \<open>forget_received\<close> are steps of
  their own; a deletion is taken to succeed. SHA-256 and the ciphers are parameters, generated ids and
  file names are arguments, and a file name leaves out its directory. A handler runs as one step.

  A cached session has gone through JSON, so its \<open>expiresAt\<close> is a text there, and comparing a text with
  a \<open>Date\<close> is false: a session read from the cache never counts as expired.
\<close>

section \<open>Data\<close>

datatype upload_status = UP_active | UP_completed | UP_aborted | UP_expired

fun upload_status_name :: "upload_status \<Rightarrow> string" where
  "upload_status_name UP_active = ''active''"
| "upload_status_name UP_completed = ''completed''"
| "upload_status_name UP_aborted = ''aborted''"
| "upload_status_name UP_expired = ''expired''"

record upload_row =
  us_id :: ident
  us_ownerId :: ident
  us_orgId :: "ident option"
  us_fileName :: string
  us_mimeType :: string
  us_totalSize :: int
  us_chunkSize :: int
  us_totalChunks :: int
  us_status :: upload_status
  us_expiresAt :: time

record chunk_row =
  uc_sessionId :: ident
  uc_index :: int
  uc_size :: int
  uc_checksum :: string
  uc_filePath :: string

record evidence_row =
  eq_id :: ident
  eq_fileName :: string
  eq_filePath :: string
  eq_fileHash :: string
  eq_mimeType :: string
  eq_size :: int
  eq_ownerId :: ident
  eq_orgId :: "ident option"

text \<open>The cache: sessions, chunks and the sets of received indices, by key.\<close>

record upload_cache =
  ca_sessions :: "(ident \<times> upload_row) list"
  ca_chunks :: "((ident \<times> int) \<times> bytes) list"
  ca_received :: "(ident \<times> int list) list"

record upload_state =
  up_sessions :: "upload_row list"
  up_chunks :: "chunk_row list"
  up_cache :: upload_cache
  up_files :: "(string \<times> bytes) list"
  up_evidence :: "evidence_row list"
  up_audit :: "audit_params list"

record upload_env =
  ue_sha256 :: "bytes \<Rightarrow> string"
  ue_suite :: cipher_suite
  ue_keys :: encryption_keys

record create_upload_dto =
  cd_fileName :: string
  cd_mimeType :: string
  cd_totalSize :: int
  cd_chunkSize :: int

text \<open>What the decorators of the DTO have checked before a handler runs.\<close>

definition MAX_CHUNK_SIZE :: int where "MAX_CHUNK_SIZE = 5 * 1024 * 1024"
definition MIN_CHUNK_SIZE :: int where "MIN_CHUNK_SIZE = 64 * 1024"

definition dto_valid :: "create_upload_dto \<Rightarrow> bool" where
  "dto_valid dto \<longleftrightarrow> cd_mimeType dto \<in> set ALLOWED_MIME_TYPES \<and> 1 \<le> cd_totalSize dto \<and> cd_totalSize dto \<le> MAX_FILE_SIZE \<and>
     MIN_CHUNK_SIZE \<le> cd_chunkSize dto \<and> cd_chunkSize dto \<le> MAX_CHUNK_SIZE"

definition SESSION_TTL_MS :: int where "SESSION_TTL_MS = 24 * 60 * 60 * 1000"

section \<open>The cache\<close>

text \<open>A store of values by key, as the session store uses Redis.\<close>

locale key_store =
  fixes put :: "'k \<Rightarrow> 'v \<Rightarrow> 'm \<Rightarrow> 'm"
    and del :: "'k \<Rightarrow> 'm \<Rightarrow> 'm"
    and look :: "'m \<Rightarrow> 'k \<Rightarrow> 'v option"
  assumes look_put: "look (put k v m) k' = (if k' = k then Some v else look m k')"
    and look_del: "look (del k m) k' = (if k' = k then None else look m k')"
begin

lemma look_put_same [simp]: "look (put k v m) k = Some v"
  by (simp add: look_put)

lemma look_dels: "look (fold del ks m) k = (if k \<in> set ks then None else look m k)"
  by (induction ks arbitrary: m) (auto simp: look_del)

lemma dels_le: "look (fold del ks m) k = Some v \<Longrightarrow> look m k = Some v"
  by (simp add: look_dels split: if_splits)

lemma del_le: "look (del k m) k' = Some v \<Longrightarrow> look m k' = Some v"
  by (simp add: look_del split: if_splits)

end

definition put_key :: "'k \<Rightarrow> 'v \<Rightarrow> ('k \<times> 'v) list \<Rightarrow> ('k \<times> 'v) list" where
  "put_key k v m = (k, v) # filter (\<lambda>e. fst e \<noteq> k) m"

definition drop_key :: "'k \<Rightarrow> ('k \<times> 'v) list \<Rightarrow> ('k \<times> 'v) list" where
  "drop_key k m = filter (\<lambda>e. fst e \<noteq> k) m"

lemma map_of_without: "map_of (filter (\<lambda>e. fst e \<noteq> k) m) k' = (if k' = k then None else map_of m k')"
  by (induction m) auto

interpretation kv: key_store put_key drop_key map_of
  by unfold_locales (simp_all add: put_key_def drop_key_def map_of_without)

section \<open>The store\<close>

definition ttlSeconds :: "time \<Rightarrow> time \<Rightarrow> int" where
  "ttlSeconds now expiresAt = (let ms = expiresAt - now in max 0 (- ((- ms) div 1000)))"

definition cache_session :: "upload_row \<Rightarrow> upload_state \<Rightarrow> upload_state" where
  "cache_session r s = s\<lparr>up_cache := (up_cache s)\<lparr>ca_sessions := put_key (us_id r) r (ca_sessions (up_cache s))\<rparr>\<rparr>"

text \<open>The session, and whether it comes from the cache.\<close>

definition store_getSession :: "time \<Rightarrow> ident \<Rightarrow> upload_state \<Rightarrow> (upload_row \<times> bool) option \<times> upload_state" where
  "store_getSession now i s =
     (case map_of (ca_sessions (up_cache s)) i of
        Some r \<Rightarrow> (Some (r, True), s)
      | None \<Rightarrow>
          (case find_row (\<lambda>r. us_id r = i) (up_sessions s) of
             None \<Rightarrow> (None, s)
           | Some r \<Rightarrow> (Some (r, False), if 0 < ttlSeconds now (us_expiresAt r) then cache_session r s else s)))"

definition create_session_row :: "upload_row \<Rightarrow> int \<Rightarrow> upload_state \<Rightarrow> upload_state" where
  "create_session_row r ttl s =
     (let s1 = s\<lparr>up_sessions := up_sessions s @ [r]\<rparr> in if 0 < ttl then cache_session r s1 else s1)"

definition updateSessionStatus :: "ident \<Rightarrow> upload_status \<Rightarrow> upload_state \<Rightarrow> upload_state" where
  "updateSessionStatus i st s =
     s\<lparr>up_sessions := update_where (\<lambda>r. us_id r = i) (\<lambda>r. r\<lparr>us_status := st\<rparr>) (up_sessions s),
       up_cache := (up_cache s)\<lparr>ca_sessions := drop_key i (ca_sessions (up_cache s))\<rparr>\<rparr>"

definition storeChunk :: "ident \<Rightarrow> int \<Rightarrow> bytes \<Rightarrow> upload_state \<Rightarrow> upload_state" where
  "storeChunk sid index buffer s =
     s\<lparr>up_cache := (up_cache s)\<lparr>ca_chunks := put_key (sid, index) buffer (ca_chunks (up_cache s))\<rparr>\<rparr>"

definition received_set :: "ident \<Rightarrow> upload_state \<Rightarrow> int list" where
  "received_set sid s = (case map_of (ca_received (up_cache s)) sid of None \<Rightarrow> [] | Some xs \<Rightarrow> xs)"

definition chunk_key :: "ident \<Rightarrow> int \<Rightarrow> chunk_row \<Rightarrow> bool" where
  "chunk_key sid index c \<longleftrightarrow> uc_sessionId c = sid \<and> uc_index c = index"

definition addReceivedChunk :: "ident \<Rightarrow> int \<Rightarrow> int \<Rightarrow> string \<Rightarrow> string \<Rightarrow> upload_state \<Rightarrow> upload_state" where
  "addReceivedChunk sid index sz checksum filePath s =
     (let members = received_set sid s;
          s1 = s\<lparr>up_cache := (up_cache s)\<lparr>ca_received :=
            put_key sid (if index \<in> set members then members else members @ [index]) (ca_received (up_cache s))\<rparr>\<rparr>
      in s1\<lparr>up_chunks := (case find_row (chunk_key sid index) (up_chunks s) of
           None \<Rightarrow> up_chunks s @ [\<lparr>uc_sessionId = sid, uc_index = index, uc_size = sz, uc_checksum = checksum, uc_filePath = filePath\<rparr>]
         | Some c \<Rightarrow> update_where (chunk_key sid index)
             (\<lambda>c. c\<lparr>uc_size := sz, uc_checksum := checksum, uc_filePath := filePath\<rparr>) (up_chunks s))\<rparr>)"

definition isChunkReceived :: "ident \<Rightarrow> int \<Rightarrow> upload_state \<Rightarrow> bool" where
  "isChunkReceived sid index s \<longleftrightarrow>
     index \<in> set (received_set sid s) \<or> find_row (chunk_key sid index) (up_chunks s) \<noteq> None"

definition getExistingChunkChecksum :: "ident \<Rightarrow> int \<Rightarrow> upload_state \<Rightarrow> string option" where
  "getExistingChunkChecksum sid index s = map_option uc_checksum (find_row (chunk_key sid index) (up_chunks s))"

definition getReceivedChunks :: "ident \<Rightarrow> upload_state \<Rightarrow> int list" where
  "getReceivedChunks sid s =
     (let members = received_set sid s
      in if members \<noteq> [] then sort members
         else sort (map uc_index (filter (\<lambda>c. uc_sessionId c = sid) (up_chunks s))))"

fun read_chunks :: "ident \<Rightarrow> int list \<Rightarrow> upload_state \<Rightarrow> app_error + bytes list" where
  "read_chunks sid [] s = Inr []"
| "read_chunks sid (i # is) s =
     (case map_of (ca_chunks (up_cache s)) (sid, i) of
        None \<Rightarrow> Inl (PlainError (''Chunk '' @ show_int i @ '' missing from Redis''))
      | Some buf \<Rightarrow> (case read_chunks sid is s of Inl e \<Rightarrow> Inl e | Inr bufs \<Rightarrow> Inr (buf # bufs)))"

definition getAllChunks :: "ident \<Rightarrow> int \<Rightarrow> upload_state \<Rightarrow> app_error + bytes list" where
  "getAllChunks sid totalChunks s = read_chunks sid [0..totalChunks - 1] s"

definition cleanupSession :: "ident \<Rightarrow> int \<Rightarrow> upload_state \<Rightarrow> upload_state" where
  "cleanupSession sid totalChunks s =
     s\<lparr>up_cache := (up_cache s)\<lparr>ca_received := drop_key sid (ca_received (up_cache s)),
         ca_chunks := fold drop_key (map (\<lambda>i. (sid, i)) [0..totalChunks - 1]) (ca_chunks (up_cache s))\<rparr>\<rparr>"

section \<open>The service\<close>

definition session_audit :: "ident \<Rightarrow> ident \<Rightarrow> string \<Rightarrow> (string \<times> meta_value) list \<Rightarrow> upload_state \<Rightarrow> upload_state" where
  "session_audit actor i act meta s = s\<lparr>up_audit := record_audit
     \<lparr>au_actorId = actor, au_entity = ''upload_session'', au_entityId = i, au_action = act, au_metadata = meta\<rparr> (up_audit s)\<rparr>"

definition create_upload_session ::
  "time \<Rightarrow> ident \<Rightarrow> create_upload_dto \<Rightarrow> ident \<Rightarrow> ident option \<Rightarrow> upload_state \<Rightarrow> (app_error + upload_row) \<times> upload_state" where
  "create_upload_session now newId dto ownerId orgId s =
     (if \<not> isSafeFilename (cd_fileName dto) then (Inl (AppException BAD_REQUEST 400 ''Invalid fileName''), s)
      else if cd_mimeType dto \<notin> set ALLOWED_MIME_TYPES then
        (Inl (AppException BAD_REQUEST 400 (''Disallowed mimeType: '' @ cd_mimeType dto)), s)
      else case validateExtensionForMime (cd_fileName dto) (cd_mimeType dto) of
          Inl e \<Rightarrow> (Inl e, s)
        | Inr ext \<Rightarrow>
            if MAX_FILE_SIZE < cd_totalSize dto then
              (Inl (AppException BAD_REQUEST 400 (''totalSize exceeds maximum of '' @ show_int MAX_FILE_SIZE @ '' bytes'')), s)
            else
              let totalChunks = - ((- cd_totalSize dto) div cd_chunkSize dto);
                  session = \<lparr>us_id = newId, us_ownerId = ownerId, us_orgId = orgId, us_fileName = cd_fileName dto,
                    us_mimeType = cd_mimeType dto, us_totalSize = cd_totalSize dto, us_chunkSize = cd_chunkSize dto,
                    us_totalChunks = totalChunks, us_status = UP_active, us_expiresAt = now + SESSION_TTL_MS\<rparr>;
                  s1 = create_session_row session (- ((- SESSION_TTL_MS) div 1000)) s
              in (Inr session, session_audit ownerId newId ''session_created''
                   [(''fileName'', MStr (cd_fileName dto)), (''totalSize'', MInt (cd_totalSize dto)),
                    (''totalChunks'', MInt totalChunks)] s1))"

definition getActiveSession :: "time \<Rightarrow> ident \<Rightarrow> ident \<Rightarrow> upload_state \<Rightarrow> (app_error + upload_row) \<times> upload_state" where
  "getActiveSession now sid ownerId s0 =
     (case store_getSession now sid s0 of
        (None, s) \<Rightarrow> (Inl (AppException NOT_FOUND 404 ''Upload session not found''), s)
      | (Some (r, cached), s) \<Rightarrow>
          if us_ownerId r \<noteq> ownerId then
            (Inl (AppException FORBIDDEN 403 ''You do not have access to this upload session''), s)
          else if us_status r \<noteq> UP_active then
            (Inl (AppException BAD_REQUEST 400 (''Session is '' @ upload_status_name (us_status r))), s)
          else if \<not> cached \<and> us_expiresAt r < now then
            (Inl (AppException BAD_REQUEST 400 ''Session has expired''), updateSessionStatus sid UP_expired s)
          else (Inr r, s))"

record chunk_result =
  cr_sessionId :: ident
  cr_index :: int
  cr_received :: bool
  cr_duplicate :: bool

definition expected_size :: "upload_row \<Rightarrow> int \<Rightarrow> int" where
  "expected_size r index =
     (if index = us_totalChunks r - 1 then us_totalSize r - us_chunkSize r * (us_totalChunks r - 1) else us_chunkSize r)"

definition uploadChunk ::
  "upload_env \<Rightarrow> time \<Rightarrow> ident \<Rightarrow> int \<Rightarrow> string \<Rightarrow> bytes \<Rightarrow> ident \<Rightarrow> upload_state \<Rightarrow> (app_error + chunk_result) \<times> upload_state" where
  "uploadChunk env now sid index checksum buffer ownerId s0 =
     (case getActiveSession now sid ownerId s0 of
        (Inl e, s) \<Rightarrow> (Inl e, s)
      | (Inr session, s) \<Rightarrow>
          if index < 0 \<or> us_totalChunks session \<le> index then
            (Inl (AppException BAD_REQUEST 400 (''Chunk index '' @ show_int index @ '' out of range [0, '' @
               show_int (us_totalChunks session - 1) @ '']'')), s)
          else if truthy (getExistingChunkChecksum sid index s) then
            (if the (getExistingChunkChecksum sid index s) \<noteq> checksum then
               (Inl (AppException CONFLICT 409 (''Chunk '' @ show_int index @ '' already uploaded with a different checksum'')), s)
             else (Inr \<lparr>cr_sessionId = sid, cr_index = index, cr_received = True, cr_duplicate = True\<rparr>, s))
          else if int (length buffer) \<noteq> expected_size session index then
            (Inl (AppException BAD_REQUEST 400 (''Chunk '' @ show_int index @ '' size mismatch: expected '' @
               show_int (expected_size session index) @ '', got '' @ show_int (int (length buffer)))), s)
          else if ue_sha256 env buffer \<noteq> checksum then
            (Inl (AppException BAD_REQUEST 400 (''Chunk '' @ show_int index @ '' checksum mismatch'')), s)
          else (Inr \<lparr>cr_sessionId = sid, cr_index = index, cr_received = True, cr_duplicate = False\<rparr>,
            addReceivedChunk sid index (int (length buffer)) checksum (''redis:chunk:'' @ sid @ '':'' @ show_int index)
              (storeChunk sid index buffer s)))"

text \<open>The database refuses a second item with the same hash, whatever its organisation.\<close>

definition same_evidence :: "string \<Rightarrow> ident option \<Rightarrow> evidence_row \<Rightarrow> bool" where
  "same_evidence fileHash orgId e \<longleftrightarrow> eq_fileHash e = fileHash \<and> (truthy orgId \<longrightarrow> eq_orgId e = orgId)"

definition close_session :: "ident \<Rightarrow> int \<Rightarrow> upload_status \<Rightarrow> upload_state \<Rightarrow> upload_state" where
  "close_session sid totalChunks st s = cleanupSession sid totalChunks (updateSessionStatus sid st s)"

definition store_evidence ::
  "upload_env \<Rightarrow> bytes \<Rightarrow> ident \<Rightarrow> string \<Rightarrow> upload_row \<Rightarrow> bytes \<Rightarrow> ident \<Rightarrow> upload_state \<Rightarrow> (app_error + evidence_row) \<times> upload_state" where
  "store_evidence env iv newId newFile session assembled ownerId s =
     (let sid = us_id session;
          s1 = s\<lparr>up_files := put_key newFile (encryptBuffer (ue_suite env) (ue_keys env) iv assembled) (up_files s)\<rparr>;
          fileHash = ue_sha256 env assembled
      in if find_row (same_evidence fileHash (us_orgId session)) (up_evidence s1) \<noteq> None then
           (Inl (AppException CONFLICT 409 ''File already exists in evidence queue''),
            close_session sid (us_totalChunks session) UP_completed (s1\<lparr>up_files := drop_key newFile (up_files s1)\<rparr>))
         else if find_row (\<lambda>e. eq_fileHash e = fileHash) (up_evidence s1) \<noteq> None then
           (Inl (PlainError ''Unique constraint failed on the fields: (`fileHash`)''), s1)
         else
           let item = \<lparr>eq_id = newId, eq_fileName = us_fileName session, eq_filePath = newFile, eq_fileHash = fileHash,
                 eq_mimeType = us_mimeType session, eq_size = int (length assembled), eq_ownerId = ownerId,
                 eq_orgId = us_orgId session\<rparr>
           in (Inr item, session_audit ownerId sid ''session_finalized''
                [(''evidenceId'', MStr newId), (''fileName'', MStr (us_fileName session))]
                (close_session sid (us_totalChunks session) UP_completed (s1\<lparr>up_evidence := up_evidence s1 @ [item]\<rparr>))))"

definition missing_message :: "int list \<Rightarrow> string" where
  "missing_message is = ''Missing chunks: ['' @ join '', '' (map show_int is) @ '']''"

definition finalize_upload ::
  "upload_env \<Rightarrow> time \<Rightarrow> bytes \<Rightarrow> ident \<Rightarrow> string \<Rightarrow> ident \<Rightarrow> ident \<Rightarrow> upload_state \<Rightarrow> (app_error + evidence_row) \<times> upload_state" where
  "finalize_upload env now iv newId newFile sid ownerId s0 =
     (case getActiveSession now sid ownerId s0 of
        (Inl e, s) \<Rightarrow> (Inl e, s)
      | (Inr session, s) \<Rightarrow>
          let receivedIndices = getReceivedChunks sid s
          in if int (length receivedIndices) \<noteq> us_totalChunks session then
               (Inl (AppException BAD_REQUEST 400 (missing_message
                  (filter (\<lambda>i. i \<notin> set receivedIndices) [0..us_totalChunks session - 1]))), s)
             else case getAllChunks sid (us_totalChunks session) s of
                 Inl e \<Rightarrow> (Inl e, s)
               | Inr parts \<Rightarrow>
                   let assembled = concat parts
                   in (case validateFileContent (us_fileName session) (us_mimeType session) (int (length assembled)) assembled of
                         Inl e \<Rightarrow> (Inl e, session_audit ownerId sid ''session_content_rejected''
                             [(''fileName'', MStr (us_fileName session)), (''mimeType'', MStr (us_mimeType session)),
                              (''reason'', MStr (error_message e))]
                             (close_session sid (us_totalChunks session) UP_aborted s))
                       | Inr v \<Rightarrow> store_evidence env iv newId newFile session assembled ownerId s))"

definition upload_get_status :: "time \<Rightarrow> ident \<Rightarrow> ident \<Rightarrow> upload_state \<Rightarrow> (app_error + int \<times> int list) \<times> upload_state" where
  "upload_get_status now sid ownerId s0 =
     (case getActiveSession now sid ownerId s0 of
        (Inl e, s) \<Rightarrow> (Inl e, s)
      | (Inr session, s) \<Rightarrow> (Inr (us_totalChunks session, getReceivedChunks sid s), s))"

text \<open>The route of the chunks: its part is filtered before the handler sees it.\<close>

definition chunk_route ::
  "upload_env \<Rightarrow> time \<Rightarrow> ident \<Rightarrow> int \<Rightarrow> string \<Rightarrow> string \<Rightarrow> string \<Rightarrow> bytes \<Rightarrow> ident \<Rightarrow> upload_state
   \<Rightarrow> (app_error + chunk_result) \<times> upload_state" where
  "chunk_route env now sid index checksum partName partType buffer ownerId s =
     (case evidenceFileFilter partName partType of
        Inl e \<Rightarrow> (Inl e, s)
      | Inr u \<Rightarrow>
          if buffer = [] then (Inl (AppException BAD_REQUEST 400 ''No chunk data uploaded''), s)
          else if index < 0 then (Inl (AppException BAD_REQUEST 400 ''index must be a non-negative integer''), s)
          else uploadChunk env now sid index checksum buffer ownerId s)"

section \<open>What may happen\<close>

definition forget_session :: "ident \<Rightarrow> upload_state \<Rightarrow> upload_state" where
  "forget_session i s = s\<lparr>up_cache := (up_cache s)\<lparr>ca_sessions := drop_key i (ca_sessions (up_cache s))\<rparr>\<rparr>"

definition forget_chunk :: "ident \<Rightarrow> int \<Rightarrow> upload_state \<Rightarrow> upload_state" where
  "forget_chunk i index s = s\<lparr>up_cache := (up_cache s)\<lparr>ca_chunks := drop_key (i, index) (ca_chunks (up_cache s))\<rparr>\<rparr>"

definition forget_received :: "ident \<Rightarrow> upload_state \<Rightarrow> upload_state" where
  "forget_received i s = s\<lparr>up_cache := (up_cache s)\<lparr>ca_received := drop_key i (ca_received (up_cache s))\<rparr>\<rparr>"

inductive upload_step :: "upload_env \<Rightarrow> upload_state \<Rightarrow> upload_state \<Rightarrow> bool" for env where
  creates: "dto_valid dto \<Longrightarrow> newId \<notin> us_id ` set (up_sessions s) \<Longrightarrow>
    create_upload_session now newId dto owner org s = (r, t) \<Longrightarrow> upload_step env s t"
| receives: "chunk_route env now sid index checksum name mime buffer owner s = (r, t) \<Longrightarrow> upload_step env s t"
| finalizes: "newFile \<notin> fst ` set (up_files s) \<Longrightarrow> length iv = IV_GCM_BYTES \<Longrightarrow>
    finalize_upload env now iv newId newFile sid owner s = (r, t) \<Longrightarrow> upload_step env s t"
| reads: "upload_get_status now sid owner s = (r, t) \<Longrightarrow> upload_step env s t"
| forgets_session: "upload_step env s (forget_session i s)"
| forgets_chunk: "upload_step env s (forget_chunk i index s)"
| forgets_received: "upload_step env s (forget_received i s)"

inductive_cases upload_stepE: "upload_step env s t"

end
