(* ===== verification/UploadFlow.thy ===== *)
theory UploadFlow
  imports UploadSession
begin

text \<open>
  What the chunked uploads of the theory \<open>UploadSession\<close> guarantee: what is in the evidence queue, what
  a finalised session delivers, which uploads succeed, and what a lost chunk does to a session.
\<close>

section \<open>The invariant\<close>

text \<open>What is relied on of SHA-256 and the ciphers: no empty digest, and \<open>sound_suite\<close>.\<close>

definition upload_env_ok :: "upload_env \<Rightarrow> bool" where
  "upload_env_ok env \<longleftrightarrow> sound_suite (ue_suite env) \<and> (\<forall>b. ue_sha256 env b \<noteq> [])"

definition session_wf :: "upload_row \<Rightarrow> bool" where
  "session_wf r \<longleftrightarrow> 1 \<le> us_totalSize r \<and> 1 \<le> us_chunkSize r \<and>
     us_totalChunks r = - ((- us_totalSize r) div us_chunkSize r)"

definition sessions_inv :: "upload_state \<Rightarrow> bool" where
  "sessions_inv s \<longleftrightarrow> distinct (map us_id (up_sessions s)) \<and> (\<forall>r \<in> set (up_sessions s). session_wf r) \<and>
     (\<forall>i r. map_of (ca_sessions (up_cache s)) i = Some r \<longrightarrow> r \<in> set (up_sessions s) \<and> us_id r = i)"

definition chunk_in_session :: "upload_state \<Rightarrow> chunk_row \<Rightarrow> bool" where
  "chunk_in_session s c \<longleftrightarrow> (\<exists>r \<in> set (up_sessions s). us_id r = uc_sessionId c \<and> 0 \<le> uc_index c \<and>
     uc_index c < us_totalChunks r \<and> uc_size c = expected_size r (uc_index c))"

definition chunks_inv :: "upload_env \<Rightarrow> upload_state \<Rightarrow> bool" where
  "chunks_inv env s \<longleftrightarrow> distinct (map (\<lambda>c. (uc_sessionId c, uc_index c)) (up_chunks s)) \<and>
     (\<forall>c \<in> set (up_chunks s). chunk_in_session s c \<and> uc_checksum c \<noteq> []) \<and>
     (\<forall>i index b. map_of (ca_chunks (up_cache s)) (i, index) = Some b \<longrightarrow>
        (\<exists>c \<in> set (up_chunks s). chunk_key i index c \<and> uc_checksum c = ue_sha256 env b \<and> uc_size c = int (length b)))"

definition received_inv :: "upload_state \<Rightarrow> bool" where
  "received_inv s \<longleftrightarrow> (\<forall>i xs. map_of (ca_received (up_cache s)) i = Some xs \<longrightarrow> distinct xs \<and>
     (\<forall>index \<in> set xs. \<exists>c \<in> set (up_chunks s). chunk_key i index c))"

text \<open>An item is genuine: its file opens to bytes of its size, hash and type.\<close>

definition genuine :: "upload_env \<Rightarrow> upload_state \<Rightarrow> evidence_row \<Rightarrow> bool" where
  "genuine env s e \<longleftrightarrow> (\<exists>file b. map_of (up_files s) (eq_filePath e) = Some file \<and>
     decryptBuffer (ue_suite env) (ue_keys env) file = Inr b \<and> eq_fileHash e = ue_sha256 env b \<and>
     eq_size e = int (length b) \<and> b \<noteq> [] \<and> eq_size e \<le> MAX_FILE_SIZE \<and> content_type b = Some (eq_mimeType e))"

definition evidence_inv :: "upload_env \<Rightarrow> upload_state \<Rightarrow> bool" where
  "evidence_inv env s \<longleftrightarrow> distinct (map eq_fileHash (up_evidence s)) \<and> (\<forall>e \<in> set (up_evidence s). genuine env s e)"

definition upload_inv :: "upload_env \<Rightarrow> upload_state \<Rightarrow> bool" where
  "upload_inv env s \<longleftrightarrow> sessions_inv s \<and> chunks_inv env s \<and> received_inv s \<and> evidence_inv env s"

lemmas upload_inv_defs = upload_inv_def sessions_inv_def chunks_inv_def received_inv_def evidence_inv_def

subsection \<open>Primitive changes\<close>

text \<open>What reads only fields a change leaves alone.\<close>

lemma same_genuine: "up_files t = up_files s \<Longrightarrow> genuine env t e = genuine env s e"
  by (simp add: genuine_def)

lemma same_chunk_session: "up_sessions t = up_sessions s \<Longrightarrow> chunk_in_session t c = chunk_in_session s c"
  by (simp add: chunk_in_session_def)

lemma inv_cache: "upload_inv env s \<Longrightarrow> r \<in> set (up_sessions s) \<Longrightarrow> upload_inv env (cache_session r s)"
  by (auto simp: upload_inv_defs cache_session_def kv.look_put genuine_def chunk_in_session_def split: if_splits)

lemma inv_audit: "upload_inv env s \<Longrightarrow> upload_inv env (session_audit a i act m s)"
  by (simp add: upload_inv_defs session_audit_def genuine_def chunk_in_session_def)

lemma expected_status [simp]: "expected_size (r\<lparr>us_status := st\<rparr>) i = expected_size r i"
  by (simp add: expected_size_def)

lemma status_chunk:
  assumes "chunk_in_session s c"
  shows "chunk_in_session (updateSessionStatus i st s) c"
proof -
  obtain r where r: "r \<in> set (up_sessions s)" "us_id r = uc_sessionId c" "0 \<le> uc_index c" "uc_index c < us_totalChunks r"
    "uc_size c = expected_size r (uc_index c)" using assms unfolding chunk_in_session_def by blast
  define r' where "r' = (if us_id r = i then r\<lparr>us_status := st\<rparr> else r)"
  have "r' \<in> set (up_sessions (updateSessionStatus i st s))"
    using r(1) by (auto simp: r'_def updateSessionStatus_def set_update_where)
  moreover have "us_id r' = us_id r" "us_totalChunks r' = us_totalChunks r" "expected_size r' (uc_index c) = expected_size r (uc_index c)"
    by (simp_all add: r'_def)
  ultimately show ?thesis using r unfolding chunk_in_session_def by metis
qed

lemma inv_status:
  assumes "upload_inv env s"
  shows "upload_inv env (updateSessionStatus i st s)"
proof -
  let ?t = "updateSessionStatus i st s"
  note inv = assms [unfolded upload_inv_def]
  have "map us_id (up_sessions ?t) = map us_id (up_sessions s)"
    by (simp add: updateSessionStatus_def map_update_where)
  moreover have "session_wf r" if "r \<in> set (up_sessions ?t)" for r
    using that inv by (auto simp: sessions_inv_def updateSessionStatus_def set_update_where session_wf_def)
  moreover have "r \<in> set (up_sessions ?t) \<and> us_id r = k" if "map_of (ca_sessions (up_cache ?t)) k = Some r" for k r
    using that inv by (auto simp: sessions_inv_def updateSessionStatus_def kv.look_del in_update_where_kept split: if_splits)
  ultimately have "sessions_inv ?t" using inv by (simp add: sessions_inv_def)
  moreover have "up_chunks ?t = up_chunks s" "ca_chunks (up_cache ?t) = ca_chunks (up_cache s)"
    "ca_received (up_cache ?t) = ca_received (up_cache s)" "up_evidence ?t = up_evidence s" "up_files ?t = up_files s"
    by (simp_all add: updateSessionStatus_def)
  ultimately show ?thesis
    using inv status_chunk [of s] same_genuine [of ?t s env]
    by (simp add: upload_inv_def chunks_inv_def received_inv_def evidence_inv_def)
qed

text \<open>A cache that holds less.\<close>

lemma inv_shrink:
  assumes "upload_inv env s" and "up_sessions t = up_sessions s" "up_chunks t = up_chunks s" "up_evidence t = up_evidence s"
      "up_files t = up_files s"
    and "\<And>k r. map_of (ca_sessions (up_cache t)) k = Some r \<Longrightarrow> map_of (ca_sessions (up_cache s)) k = Some r"
    and "\<And>k b. map_of (ca_chunks (up_cache t)) k = Some b \<Longrightarrow> map_of (ca_chunks (up_cache s)) k = Some b"
    and "\<And>k xs. map_of (ca_received (up_cache t)) k = Some xs \<Longrightarrow> map_of (ca_received (up_cache s)) k = Some xs"
  shows "upload_inv env t"
proof -
  note inv = assms(1) [unfolded upload_inv_def]
  have "sessions_inv t" using inv assms(2,6) unfolding sessions_inv_def by simp blast
  moreover have "chunks_inv env t"
    using inv assms(3,7) same_chunk_session [OF assms(2)] by (simp add: chunks_inv_def)
  moreover have "received_inv t" using inv assms(3,8) unfolding received_inv_def by simp blast
  moreover have "evidence_inv env t"
    using inv assms(4) same_genuine [OF assms(5)] by (simp add: evidence_inv_def)
  ultimately show ?thesis by (simp add: upload_inv_def)
qed

lemma inv_forget:
  assumes "upload_inv env s"
  shows "upload_inv env (forget_session i s)" "upload_inv env (forget_chunk i index s)" "upload_inv env (forget_received i s)"
    "upload_inv env (cleanupSession i n s)"
  by (rule inv_shrink [OF assms];
      simp add: forget_session_def forget_chunk_def forget_received_def cleanupSession_def kv.look_del kv.look_dels
      split: if_split_asm)+

lemma inv_close: "upload_inv env s \<Longrightarrow> upload_inv env (close_session i n st s)"
  by (simp add: close_session_def inv_forget inv_status)

subsection \<open>The requests\<close>

text \<open>\<open>store_getSession\<close> finds a row of the table and changes the cache at most.\<close>

lemma store_getSession_Some:
  assumes "store_getSession now sid s = (Some (r, cached), t)" and "sessions_inv s"
  shows "r \<in> set (up_sessions s) \<and> us_id r = sid \<and> (t = s \<or> t = cache_session r s)"
proof (cases "map_of (ca_sessions (up_cache s)) sid")
  case None
  then have f: "find_row (\<lambda>r. us_id r = sid) (up_sessions s) = Some r" and t: "t = s \<or> t = cache_session r s"
    using assms(1) by (simp_all add: store_getSession_def split: option.splits if_splits)
  from find_row_SomeD [OF f] t show ?thesis by simp
next
  case (Some r')
  with assms show ?thesis by (simp add: store_getSession_def sessions_inv_def)
qed

lemma store_getSession_None: "store_getSession now sid s = (None, t) \<Longrightarrow> t = s"
  by (simp add: store_getSession_def split: option.splits)

lemma active_session:
  assumes "getActiveSession now sid owner s = (Inr r, t)" and "sessions_inv s"
  shows "r \<in> set (up_sessions s) \<and> us_id r = sid \<and> us_ownerId r = owner \<and> us_status r = UP_active \<and>
    (t = s \<or> t = cache_session r s)"
proof -
  obtain cached where g: "store_getSession now sid s = (Some (r, cached), t)" and "us_ownerId r = owner" "us_status r = UP_active"
    using assms(1) by (auto simp: getActiveSession_def split: prod.splits option.splits if_splits)
  with store_getSession_Some [OF g assms(2)] show ?thesis by simp
qed

lemma inactive_session:
  assumes "getActiveSession now sid owner s = (Inl e, t)" and "sessions_inv s"
  shows "\<exists>u. (u = s \<or> (\<exists>r \<in> set (up_sessions s). u = cache_session r s)) \<and> (t = u \<or> t = updateSessionStatus sid UP_expired u)"
proof (cases "store_getSession now sid s")
  case (Pair x u)
  then have t: "t = u \<or> t = updateSessionStatus sid UP_expired u"
    using assms(1) by (auto simp: getActiveSession_def split: option.splits prod.splits if_splits)
  have "u = s \<or> (\<exists>r \<in> set (up_sessions s). u = cache_session r s)"
    using Pair store_getSession_None [of now sid s u] store_getSession_Some [OF _ assms(2), of now sid _ _ u] by (cases x) auto
  with t show ?thesis by blast
qed

lemma inv_active:
  assumes "getActiveSession now sid owner s = (x, t)" and "upload_inv env s"
  shows "upload_inv env t"
proof -
  note c = inv_cache [OF assms(2)]
  have si: "sessions_inv s" using assms(2) by (simp add: upload_inv_def)
  show ?thesis
  proof (cases x)
    case (Inl e)
    from inactive_session [OF assms(1) [unfolded Inl] si] c assms(2) inv_status show ?thesis by blast
  next
    case (Inr r)
    from active_session [OF assms(1) [unfolded Inr] si] c assms(2) show ?thesis by blast
  qed
qed

lemma active_tables:
  assumes "getActiveSession now sid owner s = (Inr r, t)" and "sessions_inv s"
  shows "up_sessions t = up_sessions s \<and> up_chunks t = up_chunks s \<and> ca_chunks (up_cache t) = ca_chunks (up_cache s) \<and>
    ca_received (up_cache t) = ca_received (up_cache s) \<and> up_files t = up_files s \<and> up_evidence t = up_evidence s \<and>
    up_audit t = up_audit s"
  using active_session [OF assms] by (auto simp: cache_session_def)

lemma no_row: "find_row (chunk_key sid i) cs = None \<Longrightarrow> c \<in> set cs \<Longrightarrow> \<not> chunk_key sid i c"
  by (simp add: find_row_None_iff)

lemma inv_receive:
  assumes "upload_inv env s" and "r \<in> set (up_sessions s)" "us_id r = sid" and "0 \<le> i" "i < us_totalChunks r"
    and "int (length buffer) = expected_size r i" and "find_row (chunk_key sid i) (up_chunks s) = None"
    and "ue_sha256 env buffer \<noteq> []"
  shows "upload_inv env (addReceivedChunk sid i (int (length buffer)) (ue_sha256 env buffer) path (storeChunk sid i buffer s))"
    (is "upload_inv env ?t")
proof -
  note inv = assms(1) [unfolded upload_inv_def] and none = no_row [OF assms(7)]
  define c where "c = \<lparr>uc_sessionId = sid, uc_index = i, uc_size = int (length buffer), uc_checksum = ue_sha256 env buffer,
    uc_filePath = path\<rparr>"
  have rs: "received_set sid (storeChunk sid i buffer s) = received_set sid s" by (simp add: received_set_def storeChunk_def)
  have t: "up_sessions ?t = up_sessions s" "up_chunks ?t = up_chunks s @ [c]" "ca_sessions (up_cache ?t) = ca_sessions (up_cache s)"
    "ca_chunks (up_cache ?t) = put_key (sid, i) buffer (ca_chunks (up_cache s))"
    "ca_received (up_cache ?t) = put_key sid (if i \<in> set (received_set sid s) then received_set sid s else received_set sid s @ [i])
       (ca_received (up_cache s))"
    "up_files ?t = up_files s" "up_evidence ?t = up_evidence s"
    using assms(7) rs by (simp_all add: addReceivedChunk_def Let_def c_def) (simp_all add: storeChunk_def)
  have "chunk_in_session s c" using assms(2-6) unfolding chunk_in_session_def by (intro bexI [of _ r]) (simp_all add: c_def)
  moreover have "(uc_sessionId d, uc_index d) \<noteq> (sid, i)" if "d \<in> set (up_chunks s)" for d
    using none [OF that] by (simp add: chunk_key_def)
  ultimately have "chunks_inv env ?t"
    using inv assms(8) same_chunk_session [OF t(1)] unfolding chunks_inv_def t
    by (auto simp: kv.look_put c_def chunk_key_def split: if_splits)
  moreover have "received_inv ?t"
    using inv unfolding received_inv_def t
    by (auto simp: kv.look_put received_set_def c_def chunk_key_def split: if_splits option.splits)
  moreover have "sessions_inv ?t" using inv unfolding sessions_inv_def t by simp
  moreover have "evidence_inv env ?t" using inv same_genuine [OF t(6)] unfolding evidence_inv_def t by simp
  ultimately show ?thesis by (simp add: upload_inv_def)
qed

text \<open>What an upload of a chunk does beyond the cache: nothing, or the chunk is new and recorded.\<close>

lemma checksum_truthy:
  assumes "chunks_inv env s"
  shows "truthy (getExistingChunkChecksum sid i s) \<longleftrightarrow> find_row (chunk_key sid i) (up_chunks s) \<noteq> None"
  using assms find_row_SomeD [of "chunk_key sid i" "up_chunks s"]
  by (cases "find_row (chunk_key sid i) (up_chunks s)") (auto simp: truthy_def getExistingChunkChecksum_def chunks_inv_def)

lemma uploadChunk_cases:
  assumes "uploadChunk env now sid i checksum buffer owner s = (x, t)" and "upload_inv env s"
  obtains (refused) y u where "getActiveSession now sid owner s = (y, u)" "t = u" "\<And>v. x = Inr v \<Longrightarrow> cr_duplicate v"
  | (stored) r u where "getActiveSession now sid owner s = (Inr r, u)" "0 \<le> i" "i < us_totalChunks r"
    "int (length buffer) = expected_size r i" "find_row (chunk_key sid i) (up_chunks u) = None" "checksum = ue_sha256 env buffer"
    "t = addReceivedChunk sid i (int (length buffer)) checksum (''redis:chunk:'' @ sid @ '':'' @ show_int i) (storeChunk sid i buffer u)"
    "x = Inr \<lparr>cr_sessionId = sid, cr_index = i, cr_received = True, cr_duplicate = False\<rparr>"
proof -
  obtain y u where y: "getActiveSession now sid owner s = (y, u)" by (cases "getActiveSession now sid owner s")
  have "chunks_inv env u" using inv_active [OF y assms(2)] by (simp add: upload_inv_def)
  note known = checksum_truthy [OF this, of sid i]
  show ?thesis
  proof (cases y)
    case (Inl e)
    with assms(1) y have "t = u" "x = Inl e" by (simp_all add: uploadChunk_def)
    then show ?thesis by (intro refused [OF y]) simp_all
  next
    case (Inr r)
    show ?thesis
    proof (cases "0 \<le> i \<and> i < us_totalChunks r \<and> find_row (chunk_key sid i) (up_chunks u) = None \<and>
        int (length buffer) = expected_size r i \<and> ue_sha256 env buffer = checksum")
      case True
      with assms(1) y Inr known show ?thesis
        by (intro stored [of r u]) (simp_all add: uploadChunk_def not_le)
    next
      case False
      with assms(1) y Inr known have "t = u \<and> (\<forall>v. x = Inr v \<longrightarrow> cr_duplicate v)"
        by (auto simp: uploadChunk_def not_less not_le split: if_splits)
      then show ?thesis by (intro refused [OF y]) simp_all
    qed
  qed
qed

lemma inv_upload:
  assumes "uploadChunk env now sid i checksum buffer owner s = (x, t)" and "upload_inv env s" and "upload_env_ok env"
  shows "upload_inv env t"
  using assms(1,2)
proof (cases rule: uploadChunk_cases)
  case (refused y u)
  with inv_active assms(2) show ?thesis by blast
next
  case (stored r u)
  have "upload_inv env u" using inv_active [OF stored(1) assms(2)] .
  moreover have "r \<in> set (up_sessions u)" "us_id r = sid"
    using active_session [OF stored(1)] active_tables [OF stored(1)] assms(2) by (simp_all add: upload_inv_def)
  ultimately show ?thesis using inv_receive [of env u r sid i buffer] stored assms(3) by (simp add: upload_env_ok_def)
qed

subsection \<open>Creation\<close>

lemma dto_wf: "dto_valid dto \<Longrightarrow> 1 \<le> cd_totalSize dto \<and> 1 \<le> cd_chunkSize dto"
  by (simp add: dto_valid_def MIN_CHUNK_SIZE_def)

lemma inv_create:
  assumes "create_upload_session now newId dto owner org s = (x, t)" and "dto_valid dto"
    and "newId \<notin> us_id ` set (up_sessions s)" and "upload_inv env s"
  shows "upload_inv env t"
proof (cases x)
  case (Inl e)
  with assms(1,4) show ?thesis by (auto simp: create_upload_session_def Let_def split: if_splits sum.splits)
next
  case (Inr r)
  define s1 where "s1 = s\<lparr>up_sessions := up_sessions s @ [r]\<rparr>"
  have r: "us_id r = newId" "session_wf r" and t: "\<exists>a act m. t = session_audit a newId act m (create_session_row r 86400 s)"
    using assms(1) Inr dto_wf [OF assms(2)]
    by (auto simp: create_upload_session_def Let_def session_wf_def SESSION_TTL_MS_def split: if_splits sum.splits)
  note inv = assms(4) [unfolded upload_inv_def]
  have "sessions_inv s1" using inv r assms(3) by (auto simp: sessions_inv_def s1_def)
  moreover have "chunk_in_session s1 c" if "chunk_in_session s c" for c
    using that by (auto simp: chunk_in_session_def s1_def)
  then have "chunks_inv env s1" using inv by (auto simp: chunks_inv_def s1_def)
  moreover have "received_inv s1" "evidence_inv env s1"
    using inv by (auto simp: received_inv_def evidence_inv_def genuine_def s1_def)
  ultimately have "upload_inv env s1" by (simp add: upload_inv_def)
  then have "upload_inv env (cache_session r s1)" by (rule inv_cache) (simp add: s1_def)
  with t inv_audit show ?thesis by (auto simp: create_session_row_def Let_def s1_def)
qed

subsection \<open>The end of a session\<close>

lemma read_chunks_Inr:
  assumes "read_chunks sid is s = Inr bufs"
  shows "length bufs = length is \<and> (\<forall>k < length is. map_of (ca_chunks (up_cache s)) (sid, is ! k) = Some (bufs ! k))"
  using assms
proof (induction "is" arbitrary: bufs)
  case (Cons i rest)
  then obtain buf bufs' where "map_of (ca_chunks (up_cache s)) (sid, i) = Some buf" "read_chunks sid rest s = Inr bufs'"
    "bufs = buf # bufs'"
    by (auto split: option.splits sum.splits)
  with Cons.IH show ?case by (auto simp: less_Suc_eq_0_disj)
qed simp

lemma all_chunks_Inr:
  assumes "getAllChunks sid n s = Inr parts"
  shows "length parts = nat n \<and> (\<forall>k < nat n. map_of (ca_chunks (up_cache s)) (sid, int k) = Some (parts ! k))"
  using read_chunks_Inr [OF assms [unfolded getAllChunks_def]] by simp

text \<open>The sizes of the chunks add up to that of the file.\<close>

lemma concat_length: "length (concat xs) = (\<Sum>k < length xs. length (xs ! k))"
  by (induction xs) (simp_all add: sum.lessThan_Suc_shift del: sum.lessThan_Suc)

lemma total_chunks: "session_wf r \<Longrightarrow> 1 \<le> us_totalChunks r \<and> us_chunkSize r * (us_totalChunks r - 1) < us_totalSize r \<and>
    us_totalSize r \<le> us_chunkSize r * us_totalChunks r"
proof -
  assume wf: "session_wf r"
  define q where "q = - us_totalSize r div us_chunkSize r"
  have c: "1 \<le> us_chunkSize r" "1 \<le> us_totalSize r" "us_totalChunks r = - q" using wf by (simp_all add: session_wf_def q_def)
  define m where "m = (- us_totalSize r) mod us_chunkSize r"
  have m: "us_chunkSize r * q + m = - us_totalSize r" unfolding q_def m_def by simp
  have b: "0 \<le> m" "m < us_chunkSize r" using c by (simp_all add: m_def)
  have "q < 0"
  proof (rule ccontr)
    assume "\<not> q < 0"
    with c have "0 \<le> us_chunkSize r * q" by simp
    with m b c show False by linarith
  qed
  then show ?thesis using m b c by (simp add: algebra_simps)
qed

lemma sizes_add_up:
  assumes "session_wf r" and "length parts = nat (us_totalChunks r)"
    and "\<And>k. k < length parts \<Longrightarrow> int (length (parts ! k)) = expected_size r (int k)"
  shows "int (length (concat parts)) = us_totalSize r"
proof -
  define n where "n = nat (us_totalChunks r - 1)"
  have n: "length parts = Suc n" "us_totalChunks r = int n + 1"
    using total_chunks [OF assms(1)] assms(2) by (auto simp: n_def)
  have "expected_size r (int k) = us_chunkSize r" if "k < n" for k
    using that n(2) by (simp add: expected_size_def)
  then have "(\<Sum>k < n. expected_size r (int k)) = us_chunkSize r * int n" by simp
  moreover have "int (length (concat parts)) = (\<Sum>k < Suc n. expected_size r (int k))"
    using assms(3) n(1) by (simp add: concat_length)
  ultimately have "int (length (concat parts)) = us_chunkSize r * int n + (us_totalSize r - us_chunkSize r * int n)"
    by (simp add: expected_size_def n(2))
  then show ?thesis by simp
qed

lemma genuine_mono:
  assumes "genuine env s e" and "\<And>p f. map_of (up_files s) p = Some f \<Longrightarrow> map_of (up_files t) p = Some f"
  shows "genuine env t e"
  using assms unfolding genuine_def by blast

text \<open>The files of evidence stay when a new name is written, and when it is removed again.\<close>

lemma inv_files:
  assumes "upload_inv env s" and "newFile \<notin> fst ` set (up_files s)"
  shows "upload_inv env (s\<lparr>up_files := put_key newFile f (up_files s)\<rparr>)"
    "upload_inv env (s\<lparr>up_files := drop_key newFile (put_key newFile f (up_files s))\<rparr>)"
proof -
  have new: "map_of (up_files s) newFile = None" using assms(2) by (simp add: map_of_eq_None_iff)
  have *: "upload_inv env (s\<lparr>up_files := fs\<rparr>)" if "\<And>p g. map_of (up_files s) p = Some g \<Longrightarrow> map_of fs p = Some g" for fs
  proof -
    have "genuine env (s\<lparr>up_files := fs\<rparr>) e" if "genuine env s e" for e
      by (rule genuine_mono [OF that]) (simp add: \<open>\<And>p g. map_of (up_files s) p = Some g \<Longrightarrow> map_of fs p = Some g\<close>)
    with assms(1) show ?thesis by (simp add: upload_inv_defs chunk_in_session_def)
  qed
  show "upload_inv env (s\<lparr>up_files := put_key newFile f (up_files s)\<rparr>)"
    by (rule *) (use new in \<open>auto simp: kv.look_put\<close>)
  show "upload_inv env (s\<lparr>up_files := drop_key newFile (put_key newFile f (up_files s))\<rparr>)"
    by (rule *) (use new in \<open>auto simp: kv.look_put kv.look_del\<close>)
qed

lemma inv_new_evidence:
  assumes "upload_inv env s" and "genuine env s e" and "eq_fileHash e \<notin> eq_fileHash ` set (up_evidence s)"
  shows "upload_inv env (s\<lparr>up_evidence := up_evidence s @ [e]\<rparr>)"
proof -
  have "genuine env (s\<lparr>up_evidence := up_evidence s @ [e]\<rparr>) x = genuine env s x" for x by (rule same_genuine) simp
  with assms show ?thesis by (simp add: upload_inv_defs chunk_in_session_def)
qed

lemma sealed_file:
  assumes "upload_env_ok env" and "length iv = IV_GCM_BYTES"
  shows "decryptBuffer (ue_suite env) (ue_keys env) (encryptBuffer (ue_suite env) (ue_keys env) iv b) = Inr b"
  using buffer_roundtrip assms by (simp add: upload_env_ok_def)

lemma store_evidence_cases:
  assumes "store_evidence env iv newId newFile r b owner s = (x, t)" and "upload_inv env s" and "upload_env_ok env"
    and "length iv = IV_GCM_BYTES" and "newFile \<notin> fst ` set (up_files s)"
    and valid: "validateFileContent (us_fileName r) (us_mimeType r) (int (length b)) b = Inr v"
  shows "upload_inv env t \<and> (\<forall>item. x = Inr item \<longrightarrow> up_evidence t = up_evidence s @ [item] \<and>
      ue_sha256 env b \<notin> eq_fileHash ` set (up_evidence s) \<and> eq_fileHash item = ue_sha256 env b \<and>
      eq_size item = int (length b) \<and> eq_mimeType item = us_mimeType r \<and> eq_fileName item = us_fileName r \<and>
      eq_ownerId item = owner \<and> map_of (up_files t) (eq_filePath item) = Some (encryptBuffer (ue_suite env) (ue_keys env) iv b))"
proof -
  define f where "f = encryptBuffer (ue_suite env) (ue_keys env) iv b"
  define s1 where "s1 = s\<lparr>up_files := put_key newFile f (up_files s)\<rparr>"
  have s1: "upload_inv env s1" and s2: "upload_inv env (s\<lparr>up_files := drop_key newFile (put_key newFile f (up_files s))\<rparr>)"
    unfolding s1_def by (rule inv_files [OF assms(2,5)])+
  define item where "item = \<lparr>eq_id = newId, eq_fileName = us_fileName r, eq_filePath = newFile, eq_fileHash = ue_sha256 env b,
    eq_mimeType = us_mimeType r, eq_size = int (length b), eq_ownerId = owner, eq_orgId = us_orgId r\<rparr>"
  have "\<exists>v. validateFileContent (us_fileName r) (us_mimeType r) (int (length b)) b = Inr v" using valid by blast
  then have "b \<noteq> []" "int (length b) \<le> MAX_FILE_SIZE" "content_type b = Some (us_mimeType r)"
    unfolding accepted_iff by simp_all
  then have g: "genuine env s1 item"
    using sealed_file [OF assms(3,4), of b] by (simp add: genuine_def s1_def item_def f_def)
  show ?thesis
  proof (cases "find_row (\<lambda>e. eq_fileHash e = ue_sha256 env b) (up_evidence s)")
    case None
    then have n: "ue_sha256 env b \<notin> eq_fileHash ` set (up_evidence s)" by (force simp: find_row_None_iff)
    then have "find_row (same_evidence (ue_sha256 env b) (us_orgId r)) (up_evidence s) = None"
      by (force simp: find_row_None_iff same_evidence_def)
    with None assms(1) have x: "x = Inr item" "t = session_audit owner (us_id r) ''session_finalized''
        [(''evidenceId'', MStr newId), (''fileName'', MStr (us_fileName r))]
        (close_session (us_id r) (us_totalChunks r) UP_completed (s1\<lparr>up_evidence := up_evidence s1 @ [item]\<rparr>))"
      by (simp_all add: store_evidence_def Let_def s1_def item_def f_def)
    have "upload_inv env (s1\<lparr>up_evidence := up_evidence s1 @ [item]\<rparr>)"
      using inv_new_evidence [OF s1 g] n by (simp add: item_def s1_def)
    then have "upload_inv env t" unfolding x(2) by (intro inv_audit inv_close)
    moreover have "up_evidence t = up_evidence s @ [item]" "map_of (up_files t) newFile = Some f"
      using x(2) by (auto simp: session_audit_def close_session_def cleanupSession_def updateSessionStatus_def s1_def)
    ultimately show ?thesis using x(1) n by (auto simp: item_def f_def)
  next
    case (Some e)
    show ?thesis
    proof (cases "find_row (same_evidence (ue_sha256 env b) (us_orgId r)) (up_evidence s)")
      case None
      with Some assms(1) have "t = s1" "\<exists>m. x = Inl m" by (auto simp: store_evidence_def Let_def s1_def f_def)
      with s1 show ?thesis by auto
    next
      case (Some e')
      with assms(1) have "t = close_session (us_id r) (us_totalChunks r) UP_completed
          (s\<lparr>up_files := drop_key newFile (put_key newFile f (up_files s))\<rparr>)" "\<exists>m. x = Inl m"
        by (auto simp: store_evidence_def Let_def f_def)
      with inv_close [OF s2] show ?thesis by auto
    qed
  qed
qed

text \<open>A finalisation: refused without a trace, rejected with the session closed, or stored.\<close>

lemma finalize_cases:
  assumes "finalize_upload env now iv newId newFile sid owner s = (x, t)"
  obtains (refused) y e where "getActiveSession now sid owner s = (y, t)" "x = Inl e"
  | (rejected) y u e a i act m j n st where "getActiveSession now sid owner s = (y, u)" "x = Inl e"
      "t = session_audit a i act m (close_session j n st u)"
  | (stored) r u parts v where "getActiveSession now sid owner s = (Inr r, u)" "getAllChunks sid (us_totalChunks r) u = Inr parts"
      "validateFileContent (us_fileName r) (us_mimeType r) (int (length (concat parts))) (concat parts) = Inr v"
      "store_evidence env iv newId newFile r (concat parts) owner u = (x, t)"
proof -
  obtain y u where y: "getActiveSession now sid owner s = (y, u)" by (cases "getActiveSession now sid owner s")
  show ?thesis
  proof (cases y)
    case (Inl e)
    with assms y show ?thesis by (intro refused [of y e]) (simp_all add: finalize_upload_def)
  next
    case (Inr r)
    note r = y [unfolded Inr]
    show ?thesis
    proof (cases "int (length (getReceivedChunks sid u)) = us_totalChunks r")
      case False
      with assms r show ?thesis by (intro refused [of "Inr r"]) (auto simp: finalize_upload_def Let_def)
    next
      case all: True
      show ?thesis
      proof (cases "getAllChunks sid (us_totalChunks r) u")
        case (Inl e)
        with assms r all show ?thesis by (intro refused [of "Inr r" e]) (auto simp: finalize_upload_def Let_def)
      next
        case (Inr parts)
        note parts = this
        show ?thesis
        proof (cases "validateFileContent (us_fileName r) (us_mimeType r) (int (length (concat parts))) (concat parts)")
          case (Inl e)
          with assms r all parts show ?thesis by (intro rejected) (auto simp: finalize_upload_def Let_def)
        next
          case (Inr v)
          with assms r all parts show ?thesis by (intro stored [of r u parts v]) (simp_all add: finalize_upload_def Let_def)
        qed
      qed
    qed
  qed
qed

lemma inv_finalize:
  assumes "finalize_upload env now iv newId newFile sid owner s = (x, t)" and "upload_inv env s" and "upload_env_ok env"
    and "length iv = IV_GCM_BYTES" and "newFile \<notin> fst ` set (up_files s)"
  shows "upload_inv env t"
  using assms(1)
proof (cases rule: finalize_cases)
  case (refused y e)
  from inv_active [OF refused(1) assms(2)] show ?thesis .
next
  case (rejected y u)
  from inv_active [OF rejected(1) assms(2)] show ?thesis unfolding rejected(3) by (intro inv_audit inv_close)
next
  case (stored r u parts v)
  have "newFile \<notin> fst ` set (up_files u)"
    using active_tables [OF stored(1)] assms(2,5) by (simp add: upload_inv_def)
  from store_evidence_cases [OF stored(4) inv_active [OF stored(1) assms(2)] assms(3,4) this stored(3)] show ?thesis by blast
qed

lemma inv_route:
  assumes "chunk_route env now sid i checksum name mime buffer owner s = (x, t)" and "upload_inv env s" and "upload_env_ok env"
  shows "upload_inv env t"
  using assms(1) inv_upload [OF _ assms(2,3), of now sid i checksum buffer owner] assms(2)
  by (auto simp: chunk_route_def split: sum.splits if_splits)

lemma inv_reads:
  assumes "upload_get_status now sid owner s = (x, t)" and "upload_inv env s"
  shows "upload_inv env t"
proof -
  obtain y where "getActiveSession now sid owner s = (y, t)"
    using assms(1) by (auto simp: upload_get_status_def split: prod.splits sum.splits)
  then show ?thesis using inv_active assms(2) by blast
qed

lemma step_keeps_uploads:
  assumes "upload_env_ok env" and "upload_step env s t" and "upload_inv env s"
  shows "upload_inv env t"
  using assms(2)
proof (cases rule: upload_step.cases)
  case (creates dto newId now owner org r)
  with inv_create [OF creates(3,1,2) assms(3)] show ?thesis by simp
next
  case (receives now sid index checksum name mime buffer owner r)
  then show ?thesis using inv_route assms by blast
next
  case (finalizes newFile iv now newId sid owner r)
  then show ?thesis using inv_finalize assms by blast
next
  case (reads now sid owner r)
  then show ?thesis using inv_reads assms by blast
qed (auto intro: inv_forget assms(3))

text \<open>The invariant as an instance of the systems of steps: an environment that is not sound does nothing.\<close>

interpretation uploads: inv_system "\<lambda>s t. upload_env_ok env \<and> upload_step env s t" "upload_inv env" for env
  by unfold_locales (auto intro: step_keeps_uploads)

definition no_uploads :: upload_state where
  "no_uploads = \<lparr>up_sessions = [], up_chunks = [], up_cache = \<lparr>ca_sessions = [], ca_chunks = [], ca_received = []\<rparr>,
     up_files = [], up_evidence = [], up_audit = []\<rparr>"

lemma inv_none: "upload_inv env no_uploads"
  by (simp add: upload_inv_defs no_uploads_def)

lemma uploads_reach_inv:
  assumes "upload_env_ok env" and "(upload_step env)\<^sup>*\<^sup>* no_uploads s"
  shows "upload_inv env s"
  using assms uploads.run_keeps [OF _ inv_none] by simp

section \<open>What is in the evidence queue\<close>


text \<open>
  C10. A finalised upload is the file that was announced: the item \<open>finalize\<close> returns has the size, the
  type and the name its session was created with, its file decrypts to the chunks in their order, each
  with the checksum its upload gave, its hash is that of those bytes, and it is the only item with it.
\<close>

theorem finalize_delivers:
  assumes "upload_env_ok env" and "(upload_step env)\<^sup>*\<^sup>* no_uploads s"
    and "length iv = IV_GCM_BYTES" and "newFile \<notin> fst ` set (up_files s)"
    and "finalize_upload env now iv newId newFile sid owner s = (Inr item, t)"
  shows "\<exists>r parts. r \<in> set (up_sessions s) \<and> us_id r = sid \<and> us_ownerId r = owner \<and> us_status r = UP_active \<and>
    int (length parts) = us_totalChunks r \<and>
    (\<forall>k < length parts. \<exists>c \<in> set (up_chunks s). chunk_key sid (int k) c \<and> uc_checksum c = ue_sha256 env (parts ! k)) \<and>
    eq_size item = us_totalSize r \<and> eq_mimeType item = us_mimeType r \<and> eq_fileName item = us_fileName r \<and>
    eq_fileHash item = ue_sha256 env (concat parts) \<and> up_evidence t = up_evidence s @ [item] \<and>
    eq_fileHash item \<notin> eq_fileHash ` set (up_evidence s) \<and>
    (\<exists>file. map_of (up_files t) (eq_filePath item) = Some file \<and>
      decryptBuffer (ue_suite env) (ue_keys env) file = Inr (concat parts))"
proof -
  have inv: "upload_inv env s" by (rule uploads_reach_inv [OF assms(1,2)])
  then have si: "sessions_inv s" by (simp add: upload_inv_def)
  from assms(5) show ?thesis
  proof (cases rule: finalize_cases)
    case (stored r u parts v)
    note tab = active_tables [OF stored(1) si] and act = active_session [OF stored(1) si]
    have wf: "session_wf r" using act si by (simp add: sessions_inv_def)
    have len: "length parts = nat (us_totalChunks r)"
      and at: "\<And>k. k < length parts \<Longrightarrow> map_of (ca_chunks (up_cache s)) (sid, int k) = Some (parts ! k)"
      using all_chunks_Inr [OF stored(2)] tab by simp_all
    have row: "\<exists>c \<in> set (up_chunks s). chunk_key sid (int k) c \<and> uc_checksum c = ue_sha256 env (parts ! k) \<and>
        uc_size c = int (length (parts ! k)) \<and> uc_size c = expected_size r (int k)" if "k < length parts" for k
    proof -
      from inv at [OF that] obtain c where c: "c \<in> set (up_chunks s)" "chunk_key sid (int k) c"
        "uc_checksum c = ue_sha256 env (parts ! k)" "uc_size c = int (length (parts ! k))" "chunk_in_session s c"
        unfolding upload_inv_def chunks_inv_def by blast
      then obtain r' where "r' \<in> set (up_sessions s)" "us_id r' = sid" "uc_size c = expected_size r' (int k)"
        unfolding chunk_in_session_def chunk_key_def by auto
      moreover have "r' = r" if "r' \<in> set (up_sessions s)" "us_id r' = sid" for r'
        using key_unique [of us_id "up_sessions s" r' r] that act si by (simp add: sessions_inv_def)
      ultimately show ?thesis using c by blast
    qed
    then have size: "int (length (concat parts)) = us_totalSize r" by (intro sizes_add_up [OF wf len]) metis
    have "newFile \<notin> fst ` set (up_files u)" using tab assms(4) by simp
    from store_evidence_cases [OF stored(4) inv_active [OF stored(1) inv] assms(1,3) this stored(3)]
    have e: "up_evidence t = up_evidence s @ [item]" "ue_sha256 env (concat parts) \<notin> eq_fileHash ` set (up_evidence s)"
      "eq_fileHash item = ue_sha256 env (concat parts)" "eq_size item = us_totalSize r" "eq_mimeType item = us_mimeType r"
      "eq_fileName item = us_fileName r"
      "map_of (up_files t) (eq_filePath item) = Some (encryptBuffer (ue_suite env) (ue_keys env) iv (concat parts))"
      using tab size by simp_all
    have "int (length parts) = us_totalChunks r" using len total_chunks [OF wf] by simp
    with act row e sealed_file [OF assms(1,3)] show ?thesis by metis
  qed simp_all
qed

section \<open>What stays\<close>

text \<open>
  Rows of chunks stay, and once the row of a chunk is there its bytes can only disappear.
\<close>

definition chunks_stay :: "upload_state \<Rightarrow> upload_state \<Rightarrow> bool" where
  "chunks_stay s t \<longleftrightarrow> set (up_chunks s) \<subseteq> set (up_chunks t) \<and>
     (\<forall>c \<in> set (up_chunks s). \<forall>b. map_of (ca_chunks (up_cache t)) (uc_sessionId c, uc_index c) = Some b \<longrightarrow>
        map_of (ca_chunks (up_cache s)) (uc_sessionId c, uc_index c) = Some b)"

lemma chunks_stay_refl: "chunks_stay s s"
  by (simp add: chunks_stay_def)

lemma chunks_stay_trans: "chunks_stay s t \<Longrightarrow> chunks_stay t u \<Longrightarrow> chunks_stay s u"
  unfolding chunks_stay_def by blast

lemma stay_shrink:
  assumes "up_chunks t = up_chunks s"
    and "\<And>k b. map_of (ca_chunks (up_cache t)) k = Some b \<Longrightarrow> map_of (ca_chunks (up_cache s)) k = Some b"
  shows "chunks_stay s t"
  using assms by (simp add: chunks_stay_def)

lemma active_chunks:
  assumes "getActiveSession now sid owner s = (y, u)"
  shows "up_chunks u = up_chunks s \<and> ca_chunks (up_cache u) = ca_chunks (up_cache s)"
proof -
  obtain x v where v: "store_getSession now sid s = (x, v)" by (cases "store_getSession now sid s")
  then have "up_chunks v = up_chunks s \<and> ca_chunks (up_cache v) = ca_chunks (up_cache s)"
    by (auto simp: store_getSession_def cache_session_def split: option.splits if_splits)
  moreover have "u = v \<or> u = updateSessionStatus sid UP_expired v"
    using assms v by (auto simp: getActiveSession_def split: option.splits prod.splits if_splits)
  ultimately show ?thesis by (auto simp: updateSessionStatus_def)
qed

lemma stay_active: "getActiveSession now sid owner s = (y, u) \<Longrightarrow> chunks_stay s u"
  by (drule active_chunks) (auto intro: stay_shrink)

lemma stay_close: "chunks_stay s (session_audit a i act m (close_session j n st s))"
  by (rule stay_shrink)
    (simp_all add: session_audit_def close_session_def cleanupSession_def updateSessionStatus_def kv.look_dels split: if_split_asm)

lemma stay_upload:
  assumes "uploadChunk env now sid i checksum buffer owner s = (x, t)" and "upload_inv env s"
  shows "chunks_stay s t"
  using assms
proof (cases rule: uploadChunk_cases)
  case (refused y u)
  with stay_active show ?thesis by blast
next
  case (stored r u)
  have "chunks_stay u t"
    using no_row [OF stored(5)] stored(5) unfolding stored(7) chunks_stay_def
    by (auto simp: addReceivedChunk_def storeChunk_def Let_def kv.look_put chunk_key_def split: if_splits)
  with stay_active [OF stored(1)] show ?thesis by (rule chunks_stay_trans)
qed

lemma stay_store:
  assumes "store_evidence env iv newId newFile r b owner s = (x, t)"
  shows "chunks_stay s t"
  using assms
  by (intro stay_shrink)
    (auto simp: store_evidence_def Let_def session_audit_def close_session_def cleanupSession_def updateSessionStatus_def
      kv.look_dels split: if_splits)

lemma stay_finalize:
  assumes "finalize_upload env now iv newId newFile sid owner s = (x, t)"
  shows "chunks_stay s t"
  using assms
proof (cases rule: finalize_cases)
  case (refused y e)
  from stay_active [OF refused(1)] show ?thesis .
next
  case (rejected y u)
  from chunks_stay_trans [OF stay_active [OF rejected(1)] stay_close] show ?thesis unfolding rejected(3) .
next
  case (stored r u parts v)
  from chunks_stay_trans [OF stay_active [OF stored(1)] stay_store [OF stored(4)]] show ?thesis .
qed

lemma step_chunks_stay:
  assumes "upload_step env s t" and "upload_inv env s"
  shows "chunks_stay s t"
  using assms(1)
proof (cases rule: upload_step.cases)
  case (creates dto newId now owner org r)
  have "up_chunks t = up_chunks s \<and> ca_chunks (up_cache t) = ca_chunks (up_cache s)"
    using creates(3) by (auto simp: create_upload_session_def Let_def session_audit_def create_session_row_def cache_session_def
        split: if_splits sum.splits)
  then show ?thesis by (intro stay_shrink) simp_all
next
  case (receives now sid index checksum name mime buffer owner r)
  then have "t = s \<or> uploadChunk env now sid index checksum buffer owner s = (r, t)"
    by (auto simp: chunk_route_def split: sum.splits if_splits)
  then show ?thesis using stay_upload assms(2) chunks_stay_refl by blast
next
  case (finalizes newFile iv now newId sid owner r)
  from stay_finalize [OF finalizes(3)] show ?thesis .
next
  case (reads now sid owner r)
  then obtain y where "getActiveSession now sid owner s = (y, t)"
    by (auto simp: upload_get_status_def split: prod.splits sum.splits)
  then show ?thesis by (rule stay_active)
qed (auto intro!: stay_shrink simp: forget_session_def forget_chunk_def forget_received_def kv.look_del split: if_split_asm)

interpretation uploads_grow: mono_system "\<lambda>s t. upload_env_ok env \<and> upload_step env s t" "upload_inv env" chunks_stay for env
  by unfold_locales (auto intro: chunks_stay_refl chunks_stay_trans step_chunks_stay)

lemma run_chunks_stay:
  assumes "upload_env_ok env" and "(upload_step env)\<^sup>*\<^sup>* s t" and "upload_inv env s"
  shows "chunks_stay s t" "upload_inv env t"
  using assms uploads_grow.run_le [of env s t] uploads.run_keeps [of env s t] by simp_all

lemma run_on: "(upload_step env)\<^sup>*\<^sup>* no_uploads s \<Longrightarrow> upload_env_ok env \<Longrightarrow> (upload_step env)\<^sup>*\<^sup>* s t \<Longrightarrow>
    upload_inv env s \<and> chunks_stay s t \<and> upload_inv env t"
  using uploads_reach_inv run_chunks_stay by blast

section \<open>Chunks sent twice, chunks lost\<close>

lemma known_chunk:
  assumes "upload_inv env s" and "c \<in> set (up_chunks s)"
  shows "find_row (chunk_key (uc_sessionId c) (uc_index c)) (up_chunks s) = Some c"
proof -
  have "chunk_key (uc_sessionId c) (uc_index c) = (\<lambda>d. (uc_sessionId d, uc_index d) = (uc_sessionId c, uc_index c))"
    by (auto simp: chunk_key_def fun_eq_iff)
  with find_row_key [of "\<lambda>c. (uc_sessionId c, uc_index c)" "up_chunks s" c] assms show ?thesis
    by (simp add: upload_inv_def chunks_inv_def)
qed

text \<open>After a chunk was accepted its row has the checksum.\<close>

lemma accepted_row:
  assumes "uploadChunk env now sid i checksum buffer owner s = (Inr v, t)" and "upload_inv env s" and "checksum \<noteq> []"
  shows "\<exists>c \<in> set (up_chunks t). chunk_key sid i c \<and> uc_checksum c = checksum"
  using assms(1,2)
proof (cases rule: uploadChunk_cases)
  case (refused y u)
  then have u: "cr_duplicate v" "t = u" "chunks_inv env u"
    using inv_active [OF refused(1) assms(2)] by (simp_all add: upload_inv_def)
  then have "getExistingChunkChecksum sid i u = Some checksum"
    using assms(1) refused(1) by (auto simp: uploadChunk_def truthy_def split: sum.splits if_splits)
  then obtain c where "find_row (chunk_key sid i) (up_chunks u) = Some c" "uc_checksum c = checksum"
    by (auto simp: getExistingChunkChecksum_def)
  with find_row_SomeD [of "chunk_key sid i" "up_chunks u" c] u show ?thesis by blast
next
  case (stored r u)
  then show ?thesis by (auto simp: addReceivedChunk_def storeChunk_def Let_def chunk_key_def)
qed

text \<open>
  Sending a chunk again is harmless: once a chunk was accepted, then in every later state in which
  its session is open, the same checksum is answered as a duplicate and any other one with a conflict,
  and nothing is stored, whatever bytes come with it.
\<close>

theorem chunk_resend_safe:
  assumes "upload_env_ok env" and "(upload_step env)\<^sup>*\<^sup>* no_uploads s" and "checksum \<noteq> []"
    and "uploadChunk env now sid i checksum buffer owner s = (Inr v, s1)" and "(upload_step env)\<^sup>*\<^sup>* s1 t"
    and "getActiveSession now' sid owner t = (Inr r, u)"
  shows "uploadChunk env now' sid i checksum' buffer' owner t =
     (if checksum' = checksum then Inr \<lparr>cr_sessionId = sid, cr_index = i, cr_received = True, cr_duplicate = True\<rparr>
      else Inl (AppException CONFLICT 409 (''Chunk '' @ show_int i @ '' already uploaded with a different checksum'')), u) \<and>
    up_chunks u = up_chunks t \<and> ca_chunks (up_cache u) = ca_chunks (up_cache t)"
proof -
  have inv: "upload_inv env s" by (rule uploads_reach_inv [OF assms(1,2)])
  then have s1: "upload_inv env s1" using inv_upload [OF assms(4) _ assms(1)] by simp
  obtain c where c: "c \<in> set (up_chunks s1)" "chunk_key sid i c" "uc_checksum c = checksum"
    using accepted_row [OF assms(4) inv assms(3)] by blast
  have t: "upload_inv env t" "c \<in> set (up_chunks t)"
    using run_chunks_stay [OF assms(1,5) s1] c(1) by (auto simp: chunks_stay_def)
  note u = active_chunks [OF assms(6)]
  have iu: "upload_inv env u" by (rule inv_active [OF assms(6) t(1)])
  with t(2) u have "find_row (chunk_key sid i) (up_chunks u) = Some c"
    using known_chunk [of env u c] c(2) by (simp add: chunk_key_def)
  then have sum: "getExistingChunkChecksum sid i u = Some checksum" using c(3) by (simp add: getExistingChunkChecksum_def)
  obtain r' where r': "r' \<in> set (up_sessions t)" "us_id r' = sid" "0 \<le> i" "i < us_totalChunks r'"
    using t c(2) unfolding upload_inv_def chunks_inv_def chunk_in_session_def chunk_key_def by auto
  have "sessions_inv t" using t(1) by (simp add: upload_inv_def)
  with active_session [OF assms(6)] r' have "r' = r"
    using key_unique [of us_id "up_sessions t" r' r] by (simp add: sessions_inv_def)
  with r' sum assms(3,6) u show ?thesis by (simp add: uploadChunk_def truthy_def)
qed

text \<open>
  A lost chunk cannot be replaced: once the bytes of an accepted chunk are gone from the cache, no
  sequence of requests makes its session deliver, since the chunk is still known and its bytes are not
  taken a second time.
\<close>

theorem lost_chunk_is_final:
  assumes "upload_env_ok env" and "(upload_step env)\<^sup>*\<^sup>* no_uploads s" and "c \<in> set (up_chunks s)"
    and "map_of (ca_chunks (up_cache s)) (uc_sessionId c, uc_index c) = None" and "(upload_step env)\<^sup>*\<^sup>* s t"
  shows "\<exists>e. fst (finalize_upload env now iv newId newFile (uc_sessionId c) owner t) = Inl e"
proof -
  obtain x u where x: "finalize_upload env now iv newId newFile (uc_sessionId c) owner t = (x, u)" by fastforce
  have "upload_inv env s" by (rule uploads_reach_inv [OF assms(1,2)])
  note run = run_chunks_stay [OF assms(1,5) this]
  have row: "c \<in> set (up_chunks t)" using run(1) assms(3) by (auto simp: chunks_stay_def)
  have gone: "map_of (ca_chunks (up_cache t)) (uc_sessionId c, uc_index c) = None"
    using run(1) assms(3,4) unfolding chunks_stay_def by (metis not_None_eq)
  have si: "sessions_inv t" using run(2) by (simp add: upload_inv_def)
  from x show ?thesis
  proof (cases rule: finalize_cases)
    case (stored r v parts w)
    obtain r' where r': "r' \<in> set (up_sessions t)" "us_id r' = uc_sessionId c" "0 \<le> uc_index c" "uc_index c < us_totalChunks r'"
      using run(2) row unfolding upload_inv_def chunks_inv_def chunk_in_session_def by auto
    with active_session [OF stored(1) si] si have "r' = r"
      using key_unique [of us_id "up_sessions t" r' r] by (simp add: sessions_inv_def)
    with all_chunks_Inr [OF stored(2)] r' active_tables [OF stored(1) si] gone show ?thesis
      by (auto dest!: spec [of _ "nat (uc_index c)"])
  qed (use x in simp_all)
qed

section \<open>An upload that succeeds\<close>

text \<open>The client: it cuts the file into chunks and sends those of the list \<open>ks\<close>, with their checksums.\<close>

definition piece :: "int \<Rightarrow> bytes \<Rightarrow> nat \<Rightarrow> bytes" where
  "piece chunkSize b k = take (nat chunkSize) (drop (k * nat chunkSize) b)"

fun upload_each ::
  "upload_env \<Rightarrow> time \<Rightarrow> ident \<Rightarrow> ident \<Rightarrow> string \<Rightarrow> string \<Rightarrow> int \<Rightarrow> bytes \<Rightarrow> nat list \<Rightarrow> upload_state
   \<Rightarrow> app_error option \<times> upload_state" where
  "upload_each env now sid owner name mime chunkSize b [] s = (None, s)"
| "upload_each env now sid owner name mime chunkSize b (k # ks) s =
     (case chunk_route env now sid (int k) (ue_sha256 env (piece chunkSize b k)) name mime (piece chunkSize b k) owner s of
        (Inl e, t) \<Rightarrow> (Some e, t)
      | (Inr v, t) \<Rightarrow> upload_each env now sid owner name mime chunkSize b ks t)"

text \<open>How far the client is: the chunks \<open>D\<close> are in.\<close>

definition holding :: "upload_env \<Rightarrow> upload_row \<Rightarrow> bytes \<Rightarrow> nat set \<Rightarrow> upload_state \<Rightarrow> bool" where
  "holding env r b D s \<longleftrightarrow> upload_inv env s \<and> map_of (ca_sessions (up_cache s)) (us_id r) = Some r \<and>
     (\<forall>c \<in> set (up_chunks s). uc_sessionId c = us_id r \<longrightarrow> nat (uc_index c) \<in> D \<and>
       uc_checksum c = ue_sha256 env (piece (us_chunkSize r) b (nat (uc_index c)))) \<and>
     (\<forall>k \<in> D. (\<exists>c \<in> set (up_chunks s). chunk_key (us_id r) (int k) c) \<and>
       map_of (ca_chunks (up_cache s)) (us_id r, int k) = Some (piece (us_chunkSize r) b k)) \<and>
     set (received_set (us_id r) s) = int ` D"

lemma piece_length:
  assumes "session_wf r" and "int (length b) = us_totalSize r" and "int k < us_totalChunks r"
  shows "int (length (piece (us_chunkSize r) b k)) = expected_size r (int k)"
proof -
  note t = total_chunks [OF assms(1)]
  have c: "1 \<le> us_chunkSize r" using assms(1) by (simp add: session_wf_def)
  define m where "m = us_chunkSize r * int k"
  have len: "int (length (piece (us_chunkSize r) b k)) = min (max 0 (us_totalSize r - m)) (us_chunkSize r)"
  proof -
    have "length (piece (us_chunkSize r) b k) = min (nat (us_chunkSize r)) (length b - k * nat (us_chunkSize r))"
      by (simp add: piece_def min.commute)
    moreover have "m = int (k * nat (us_chunkSize r))" "us_chunkSize r = int (nat (us_chunkSize r))"
      using c by (simp_all add: m_def)
    ultimately show ?thesis using assms(2) by linarith
  qed
  show ?thesis
  proof (cases "int k = us_totalChunks r - 1")
    case True
    then have "us_totalChunks r = int k + 1" by simp
    with t have "m < us_totalSize r" "us_totalSize r \<le> m + us_chunkSize r" by (simp_all add: m_def algebra_simps)
    with True show ?thesis unfolding len by (simp add: expected_size_def m_def)
  next
    case False
    then have "us_chunkSize r * (int k + 1) \<le> us_chunkSize r * (us_totalChunks r - 1)"
      using c assms(3) by (intro mult_left_mono) auto
    with t have "m + us_chunkSize r \<le> us_totalSize r" by (simp add: m_def algebra_simps)
    with False c show ?thesis unfolding len by (simp add: expected_size_def)
  qed
qed

lemma pieces_concat: "concat (map (piece cs b) [0..<n]) = take (n * nat cs) b"
proof (induction n)
  case (Suc n)
  have "Suc n * nat cs = n * nat cs + nat cs" by simp
  with Suc show ?case by (simp only: take_add) (simp add: piece_def)
qed simp

lemma holding_open:
  assumes "holding env r b D s" and "us_status r = UP_active"
  shows "getActiveSession now (us_id r) (us_ownerId r) s = (Inr r, s)"
  using assms by (simp add: holding_def getActiveSession_def store_getSession_def)

lemma receive_piece:
  assumes "holding env r b D s" and "us_status r = UP_active" and "session_wf r" "int (length b) = us_totalSize r"
    and "upload_env_ok env" and "int k < us_totalChunks r"
  shows "\<exists>v t. uploadChunk env now (us_id r) (int k) (ue_sha256 env (piece (us_chunkSize r) b k)) (piece (us_chunkSize r) b k)
      (us_ownerId r) s = (Inr v, t) \<and> holding env r b (insert k D) t \<and> up_evidence t = up_evidence s \<and> up_files t = up_files s"
proof -
  let ?p = "piece (us_chunkSize r) b k"
  note opens = holding_open [OF assms(1,2), of now] and h = assms(1) [unfolded holding_def]
  have inv: "upload_inv env s" using h by blast
  have sha: "ue_sha256 env ?p \<noteq> []" using assms(5) by (simp add: upload_env_ok_def)
  show ?thesis
  proof (cases "find_row (chunk_key (us_id r) (int k)) (up_chunks s)")
    case (Some c)
    then have c: "c \<in> set (up_chunks s)" "uc_sessionId c = us_id r" "uc_index c = int k"
      using find_row_SomeD [OF Some] by (simp_all add: chunk_key_def)
    with h have "uc_checksum c = ue_sha256 env ?p" "k \<in> D" by auto
    with Some sha assms(6) opens assms(1) show ?thesis
      by (simp add: uploadChunk_def getExistingChunkChecksum_def truthy_def insert_absorb)
  next
    case None
    let ?t = "addReceivedChunk (us_id r) (int k) (int (length ?p)) (ue_sha256 env ?p)
      (''redis:chunk:'' @ us_id r @ '':'' @ show_int (int k)) (storeChunk (us_id r) (int k) ?p s)"
    have sz: "int (length ?p) = expected_size r (int k)" by (rule piece_length [OF assms(3,4,6)])
    have up: "\<exists>v. uploadChunk env now (us_id r) (int k) (ue_sha256 env ?p) ?p (us_ownerId r) s = (Inr v, ?t)"
      using opens None sz assms(6) by (simp add: uploadChunk_def getExistingChunkChecksum_def truthy_def)
    then have "upload_inv env ?t" using inv_upload inv assms(5) by blast
    moreover have "set (received_set (us_id r) ?t) = int ` insert k D"
      using h by (auto simp: addReceivedChunk_def storeChunk_def received_set_def Let_def kv.look_put)
    moreover have "k \<notin> D" using h no_row [OF None] by blast
    moreover have "up_chunks ?t = up_chunks s @ [\<lparr>uc_sessionId = us_id r, uc_index = int k, uc_size = int (length ?p),
        uc_checksum = ue_sha256 env ?p, uc_filePath = ''redis:chunk:'' @ us_id r @ '':'' @ show_int (int k)\<rparr>]"
      "ca_chunks (up_cache ?t) = put_key (us_id r, int k) ?p (ca_chunks (up_cache s))"
      "ca_sessions (up_cache ?t) = ca_sessions (up_cache s)"
      "up_evidence ?t = up_evidence s" "up_files ?t = up_files s"
      using None by (simp_all add: addReceivedChunk_def storeChunk_def Let_def)
    ultimately have "holding env r b (insert k D) ?t" "up_evidence ?t = up_evidence s" "up_files ?t = up_files s"
      using h unfolding holding_def by (auto simp: kv.look_put chunk_key_def)
    with up show ?thesis by blast
  qed
qed

lemma upload_each_ok:
  assumes "holding env r b D s" and "us_status r = UP_active" and "session_wf r" "int (length b) = us_totalSize r"
    and "upload_env_ok env" and "\<forall>k \<in> set ks. int k < us_totalChunks r" and "evidenceFileFilter name mime = Inr ()"
  shows "\<exists>t. upload_each env now (us_id r) (us_ownerId r) name mime (us_chunkSize r) b ks s = (None, t) \<and>
    holding env r b (D \<union> set ks) t \<and> up_evidence t = up_evidence s \<and> up_files t = up_files s"
  using assms(1,6)
proof (induction ks arbitrary: D s)
  case (Cons k ks)
  have k: "int k < us_totalChunks r" using Cons.prems(2) by simp
  from receive_piece [OF Cons.prems(1) assms(2-5) k, of now] obtain v t where t:
    "uploadChunk env now (us_id r) (int k) (ue_sha256 env (piece (us_chunkSize r) b k)) (piece (us_chunkSize r) b k)
      (us_ownerId r) s = (Inr v, t)" "holding env r b (insert k D) t" "up_evidence t = up_evidence s" "up_files t = up_files s"
    by blast
  have "piece (us_chunkSize r) b k \<noteq> []"
    using piece_length [OF assms(3,4) k] total_chunks [OF assms(3)] assms(3)
    by (auto simp: expected_size_def session_wf_def split: if_splits)
  with t(1) assms(7) have "chunk_route env now (us_id r) (int k) (ue_sha256 env (piece (us_chunkSize r) b k)) name mime
      (piece (us_chunkSize r) b k) (us_ownerId r) s = (Inr v, t)"
    by (simp add: chunk_route_def)
  with Cons.IH [OF t(2)] Cons.prems(2) t(3,4) show ?case by simp
qed simp

lemma finalize_holding:
  assumes "holding env r b {..<nat (us_totalChunks r)} s" and "us_status r = UP_active" and "session_wf r"
    and "int (length b) = us_totalSize r" and "validateFileContent (us_fileName r) (us_mimeType r) (us_totalSize r) b = Inr v"
    and "ue_sha256 env b \<notin> eq_fileHash ` set (up_evidence s)"
  shows "\<exists>item t. finalize_upload env now iv newId newFile (us_id r) (us_ownerId r) s = (Inr item, t) \<and>
    eq_id item = newId \<and> eq_fileHash item = ue_sha256 env b \<and> up_evidence t = up_evidence s @ [item]"
proof -
  note h = assms(1) [unfolded holding_def]
  define n where "n = nat (us_totalChunks r)"
  have n: "us_totalChunks r = int n" "n \<noteq> 0" using total_chunks [OF assms(3)] by (simp_all add: n_def)
  have set: "set (received_set (us_id r) s) = int ` {..<n}" using h by (simp add: n_def)
  have "distinct (received_set (us_id r) s)"
    using h by (auto simp: upload_inv_def received_inv_def received_set_def split: option.splits)
  then have "length (received_set (us_id r) s) = n"
    using set by (metis card_image card_lessThan distinct_card inj_on_of_nat)
  then have len: "int (length (getReceivedChunks (us_id r) s)) = us_totalChunks r"
    using n by (auto simp: getReceivedChunks_def Let_def)
  have idx: "[0..us_totalChunks r - 1] = map int [0..<n]"
    using n by (intro nth_equalityI) simp_all
  have "read_chunks (us_id r) (map int ks) s = Inr (map (piece (us_chunkSize r) b) ks)" if "set ks \<subseteq> {..<n}" for ks
    using that h by (induction ks) (simp_all add: n_def)
  then have parts: "getAllChunks (us_id r) (us_totalChunks r) s = Inr (map (piece (us_chunkSize r) b) [0..<n])"
    unfolding getAllChunks_def idx by (simp add: atLeast0LessThan)
  have "int (length b) \<le> int (n * nat (us_chunkSize r))"
    using total_chunks [OF assms(3)] assms(3,4) n by (simp add: session_wf_def mult.commute)
  then have "length b \<le> n * nat (us_chunkSize r)" by (simp only: of_nat_le_iff)
  then have all: "concat (map (piece (us_chunkSize r) b) [0..<n]) = b" by (simp add: pieces_concat)
  have "find_row (\<lambda>e. eq_fileHash e = ue_sha256 env b) (up_evidence s) = None"
    "find_row (same_evidence (ue_sha256 env b) (us_orgId r)) (up_evidence s) = None"
    using assms(6) by (force simp: find_row_None_iff same_evidence_def)+
  then show ?thesis
    using holding_open [OF assms(1,2), of now] len parts all assms(4,5)
    by (simp add: finalize_upload_def store_evidence_def Let_def session_audit_def close_session_def cleanupSession_def
        updateSessionStatus_def)
qed

lemma create_holding:
  assumes "upload_inv env s" and "dto_valid dto" and "newId \<notin> us_id ` set (up_sessions s)"
    and "validateFileContent (cd_fileName dto) (cd_mimeType dto) (cd_totalSize dto) b = Inr v"
  shows "\<exists>r t. create_upload_session now newId dto owner org s = (Inr r, t) \<and> holding env r b {} t \<and> us_id r = newId \<and>
    us_ownerId r = owner \<and> us_status r = UP_active \<and> session_wf r \<and> us_fileName r = cd_fileName dto \<and>
    us_mimeType r = cd_mimeType dto \<and> us_totalSize r = cd_totalSize dto \<and> us_chunkSize r = cd_chunkSize dto \<and>
    us_totalChunks r = - ((- cd_totalSize dto) div cd_chunkSize dto) \<and>
    up_evidence t = up_evidence s \<and> up_files t = up_files s"
proof -
  have "\<exists>v. validateFileContent (cd_fileName dto) (cd_mimeType dto) (cd_totalSize dto) b = Inr v" using assms(4) by blast
  then have ok: "isSafeFilename (cd_fileName dto)" "cd_mimeType dto \<in> set ALLOWED_MIME_TYPES" "cd_totalSize dto \<le> MAX_FILE_SIZE"
    "\<exists>ext. validateExtensionForMime (cd_fileName dto) (cd_mimeType dto) = Inr ext"
    using assms(2) unfolding accepted_iff dto_valid_def by (simp_all add: extension_iff)
  then obtain r t where c: "create_upload_session now newId dto owner org s = (Inr r, t)"
    by (auto simp: create_upload_session_def Let_def not_less)
  have inv: "upload_inv env t" by (rule inv_create [OF c assms(2,3,1)])
  have r: "us_id r = newId" "us_ownerId r = owner" "us_status r = UP_active" "us_fileName r = cd_fileName dto"
    "us_mimeType r = cd_mimeType dto" "us_totalSize r = cd_totalSize dto" "us_chunkSize r = cd_chunkSize dto"
    "us_totalChunks r = - ((- cd_totalSize dto) div cd_chunkSize dto)"
    and t: "map_of (ca_sessions (up_cache t)) newId = Some r" "up_chunks t = up_chunks s"
      "ca_received (up_cache t) = ca_received (up_cache s)" "up_evidence t = up_evidence s" "up_files t = up_files s"
    using c by (auto simp: create_upload_session_def Let_def session_audit_def create_session_row_def cache_session_def
        SESSION_TTL_MS_def split: if_splits sum.splits)
  have none: "uc_sessionId c \<noteq> newId" if "c \<in> set (up_chunks s)" for c
    using that assms(1,3) unfolding upload_inv_def chunks_inv_def chunk_in_session_def by force
  then have "set (received_set newId t) = {}"
    using assms(1) t(3) unfolding upload_inv_def received_inv_def received_set_def chunk_key_def
    by (force split: option.splits)
  then have "holding env r b {} t" using inv none r(1) t(1,2) by (simp add: holding_def)
  with c r t(4,5) dto_wf [OF assms(2)] show ?thesis by (simp add: session_wf_def)
qed

lemma accepted_part:
  assumes "validateFileContent name mime sz b = Inr v"
  shows "evidenceFileFilter name mime = Inr ()"
proof -
  have "\<exists>v. validateFileContent name mime sz b = Inr v" using assms by blast
  then have *: "isSafeFilename name" "toLowerCase (extname name) \<in> set ALLOWED_EXTENSIONS"
    "mime = declared_type (toLowerCase (extname name))" unfolding accepted_iff by simp_all
  moreover from declared_map [of "toLowerCase (extname name)"] * have "mime \<in> set ALLOWED_MIME_TYPES" by blast
  ultimately show ?thesis by (auto simp: evidenceFileFilter_def Let_def ALLOWED_EXTENSIONS_def)
qed

text \<open>One small upload, for the witnesses.\<close>

definition demo_up :: upload_env where
  "demo_up = \<lparr>ue_sha256 = (\<lambda>b. ''h'' @ hex_text b), ue_suite = demo_suite, ue_keys = encryption_service demo_suite None\<rparr>"

definition demo_upload_dto :: create_upload_dto where
  "demo_upload_dto = \<lparr>cd_fileName = ''a.txt'', cd_mimeType = ''text/plain'', cd_totalSize = 3, cd_chunkSize = 65536\<rparr>"

lemma demo_up_ok: "upload_env_ok demo_up"
  by (simp add: upload_env_ok_def demo_up_def demo_suite_sound)

lemma demo_upload_valid:
  "dto_valid demo_upload_dto"
  "validateFileContent (cd_fileName demo_upload_dto) (cd_mimeType demo_upload_dto) (cd_totalSize demo_upload_dto) [104, 105, 33] =
     Inr \<lparr>vf_filename = ''a.txt'', vf_size = 3, vf_mimetype = ''text/plain'', vf_extension = ''.txt''\<rparr>"
  by code_simp+

lemma demo_upload:
  "\<exists>s1 s2 v item t. (upload_step demo_up)\<^sup>*\<^sup>* no_uploads s1 \<and>
     uploadChunk demo_up 2 ''s1'' 0 ''h686921'' [104, 105, 33] ''op'' s1 = (Inr v, s2) \<and>
     (upload_step demo_up)\<^sup>*\<^sup>* no_uploads s2 \<and> up_files s2 = [] \<and>
     finalize_upload demo_up 3 (replicate 12 0) ''e1'' ''f1'' ''s1'' ''op'' s2 = (Inr item, t) \<and>
     (upload_step demo_up)\<^sup>*\<^sup>* no_uploads t \<and> up_evidence t = [item]"
proof -
  from create_holding [OF inv_none demo_upload_valid(1) _ demo_upload_valid(2), of "''s1''" 1 "''op''" None demo_up] obtain r s1 where
    c: "create_upload_session 1 ''s1'' demo_upload_dto ''op'' None no_uploads = (Inr r, s1)" "holding demo_up r [104, 105, 33] {} s1"
    and r: "us_id r = ''s1''" "us_ownerId r = ''op''" "us_status r = UP_active" "session_wf r" "us_fileName r = ''a.txt''"
      "us_mimeType r = ''text/plain''" "us_totalSize r = 3" "us_chunkSize r = 65536" "us_totalChunks r = 1"
    and s1: "up_evidence s1 = []" "up_files s1 = []"
    by (auto simp: no_uploads_def demo_upload_dto_def)
  have p: "piece 65536 [104, 105, 33] 0 = [104, 105, 33]" by (simp add: piece_def)
  have h: "ue_sha256 demo_up [104, 105, 33] = ''h686921''" unfolding demo_up_def by code_simp
  obtain v s2 where u: "uploadChunk demo_up 2 ''s1'' 0 ''h686921'' [104, 105, 33] ''op'' s1 = (Inr v, s2)"
    and s2: "holding demo_up r [104, 105, 33] {0} s2" "up_evidence s2 = []" "up_files s2 = []"
    using receive_piece [OF c(2) r(3,4) _ demo_up_ok, of 0 2] r s1 p h by auto
  have "{..<nat (us_totalChunks r)} = {0}" using r(9) by auto
  from finalize_holding [OF s2(1) [folded this] r(3,4), of _ 3 "replicate 12 0" "''e1''" "''f1''"] demo_upload_valid(2) r s2(2)
  obtain item t where f: "finalize_upload demo_up 3 (replicate 12 0) ''e1'' ''f1'' ''s1'' ''op'' s2 = (Inr item, t)" "up_evidence t = [item]"
    by (auto simp: demo_upload_dto_def)
  have "upload_step demo_up no_uploads s1"
    using c(1) demo_upload_valid(1) by (intro creates) (simp_all add: no_uploads_def)
  moreover have "chunk_route demo_up 2 ''s1'' 0 ''h686921'' ''a.txt'' ''text/plain'' [104, 105, 33] ''op'' s1 = (Inr v, s2)"
    using u accepted_part [OF demo_upload_valid(2)] by (simp add: chunk_route_def demo_upload_dto_def)
  then have "upload_step demo_up s1 s2" by (rule receives)
  moreover have "upload_step demo_up s2 t" using f(1) s2(3) by (intro finalizes) (simp_all add: IV_GCM_BYTES_def)
  ultimately show ?thesis using u f s2(3) by (meson rtranclp.rtrancl_into_rtrancl rtranclp.rtrancl_refl)
qed

text \<open>
  C15. A proper upload succeeds: a client that announces a genuine file that is not in the queue yet,
  and sends every one of its chunks, in any order and as often as it likes, under the name and type of
  the file, is never refused, and \<open>finalize\<close> then puts the file into the queue; if nothing else runs in between and no
  chunk leaves the cache (\<open>lost_chunk_is_final\<close>). The app's own uploads declare another type for their parts and are
  refused (\<open>octet_stream_refused\<close>).
\<close>

theorem upload_succeeds:
  assumes "upload_env_ok env" and "(upload_step env)\<^sup>*\<^sup>* no_uploads s"
    and "dto_valid dto" and "newId \<notin> us_id ` set (up_sessions s)"
    and "validateFileContent (cd_fileName dto) (cd_mimeType dto) (cd_totalSize dto) b = Inr v"
    and "int (length b) = cd_totalSize dto" and "ue_sha256 env b \<notin> eq_fileHash ` set (up_evidence s)"
    and "set ks = {k. int k < - ((- cd_totalSize dto) div cd_chunkSize dto)}"
  shows "\<exists>r s1 s2 item t. create_upload_session now newId dto owner org s = (Inr r, s1) \<and>
    upload_each env now' newId owner (cd_fileName dto) (cd_mimeType dto) (cd_chunkSize dto) b ks s1 = (None, s2) \<and>
    finalize_upload env now'' iv newItem newFile newId owner s2 = (Inr item, t) \<and>
    eq_fileHash item = ue_sha256 env b \<and> up_evidence t = up_evidence s @ [item]"
proof -
  have inv: "upload_inv env s" by (rule uploads_reach_inv [OF assms(1,2)])
  from create_holding [OF inv assms(3,4,5), of now owner org] obtain r s1 where
    c: "create_upload_session now newId dto owner org s = (Inr r, s1)" "holding env r b {} s1" and
    r: "us_id r = newId" "us_ownerId r = owner" "us_status r = UP_active" "session_wf r" "us_fileName r = cd_fileName dto"
      "us_mimeType r = cd_mimeType dto" "us_totalSize r = cd_totalSize dto" "us_chunkSize r = cd_chunkSize dto"
      "us_totalChunks r = - ((- cd_totalSize dto) div cd_chunkSize dto)" and
    s1: "up_evidence s1 = up_evidence s" by blast
  have b: "int (length b) = us_totalSize r" "\<forall>k \<in> set ks. int k < us_totalChunks r" using assms(6,8) r(7,9) by simp_all
  from upload_each_ok [OF c(2) r(3,4) b(1) assms(1) b(2) accepted_part [OF assms(5)], of now'] obtain s2 where
    s2: "upload_each env now' newId owner (cd_fileName dto) (cd_mimeType dto) (cd_chunkSize dto) b ks s1 = (None, s2)"
      "holding env r b (set ks) s2" "up_evidence s2 = up_evidence s"
    using s1 r by auto
  have "set ks = {..<nat (us_totalChunks r)}" using assms(8) r(9) by auto
  with finalize_holding [of env r b s2 v now'' iv newItem newFile] s2 r b(1) assms(5,7) c(1) show ?thesis by auto
qed

theorem upload_succeeds_witness:
  "\<exists>s1 s2 item t. upload_each demo_up 2 ''s1'' ''op'' ''a.txt'' ''text/plain'' 65536 [104, 105, 33] [0] s1 = (None, s2) \<and>
     finalize_upload demo_up 3 (replicate 12 0) ''e1'' ''f1'' ''s1'' ''op'' s2 = (Inr item, t) \<and> up_evidence t = [item]"
  using upload_succeeds [OF demo_up_ok rtranclp.rtrancl_refl demo_upload_valid(1) _ demo_upload_valid(2), of "''s1''" "[0]" 1 "''op''" None 2 3
      "replicate 12 0" "''e1''" "''f1''"]
  by (auto simp: no_uploads_def demo_upload_dto_def)


theorem finalize_delivers_witness:
  "\<exists>s item t parts. finalize_upload demo_up 3 (replicate 12 0) ''e1'' ''f1'' ''s1'' ''op'' s = (Inr item, t) \<and>
     eq_fileHash item = ue_sha256 demo_up (concat parts) \<and> up_evidence t = up_evidence s @ [item]"
proof -
  obtain s item t where s: "(upload_step demo_up)\<^sup>*\<^sup>* no_uploads s" "up_files s = []"
    "finalize_upload demo_up 3 (replicate 12 0) ''e1'' ''f1'' ''s1'' ''op'' s = (Inr item, t)" using demo_upload by blast
  with finalize_delivers [OF demo_up_ok s(1) _ _ s(3)] show ?thesis by (auto simp: IV_GCM_BYTES_def)
qed

theorem chunk_resend_safe_witness:
  "\<exists>s u. uploadChunk demo_up 3 ''s1'' 0 ''h686921'' [1] ''op'' s =
     (Inr \<lparr>cr_sessionId = ''s1'', cr_index = 0, cr_received = True, cr_duplicate = True\<rparr>, u)"
proof -
  obtain s1 s2 v item t where s: "(upload_step demo_up)\<^sup>*\<^sup>* no_uploads s1"
    "uploadChunk demo_up 2 ''s1'' 0 ''h686921'' [104, 105, 33] ''op'' s1 = (Inr v, s2)"
    "finalize_upload demo_up 3 (replicate 12 0) ''e1'' ''f1'' ''s1'' ''op'' s2 = (Inr item, t)" using demo_upload by blast
  obtain r u where "getActiveSession 3 ''s1'' ''op'' s2 = (Inr r, u)"
    using s(3) by (cases rule: finalize_cases) blast+
  from chunk_resend_safe [OF demo_up_ok s(1) _ s(2) rtranclp.rtrancl_refl this, of "''h686921''" "[1]"] show ?thesis by auto
qed

theorem lost_chunk_is_final_witness:
  "\<exists>s e. fst (finalize_upload demo_up 9 [] ''e2'' ''f2'' ''s1'' ''op'' (forget_chunk ''s1'' 0 s)) = Inl e"
proof -
  obtain s1 s v where s: "(upload_step demo_up)\<^sup>*\<^sup>* no_uploads s1"
    "uploadChunk demo_up 2 ''s1'' 0 ''h686921'' [104, 105, 33] ''op'' s1 = (Inr v, s)"
    "(upload_step demo_up)\<^sup>*\<^sup>* no_uploads s" using demo_upload by blast
  obtain c where c: "c \<in> set (up_chunks s)" "uc_sessionId c = ''s1''" "uc_index c = 0"
    using accepted_row [OF s(2) uploads_reach_inv [OF demo_up_ok s(1)]] by (auto simp: chunk_key_def)
  have f: "(upload_step demo_up)\<^sup>*\<^sup>* no_uploads (forget_chunk ''s1'' 0 s)"
    using s(3) forgets_chunk by (rule rtranclp.rtrancl_into_rtrancl)
  have "c \<in> set (up_chunks (forget_chunk ''s1'' 0 s))"
    "map_of (ca_chunks (up_cache (forget_chunk ''s1'' 0 s))) (uc_sessionId c, uc_index c) = None"
    using c by (simp_all add: forget_chunk_def kv.look_del)
  from lost_chunk_is_final [OF demo_up_ok f this rtranclp.rtrancl_refl, of 9 "[]" "''e2''" "''f2''" "''op''"] c(2)
  show ?thesis by auto
qed

end
