(* ===== verification/ApiKeys.thy ===== *)
theory ApiKeys
  imports JsonText
begin

text \<open>
  The API keys of the backend: \<open>api-keys/api-keys.service.ts\<close> (creation, listing, revocation, rotation
  with an overlap, expiry reminders). The state is the table of keys and the audit log. A raw key and
  the id of a new row are arguments, SHA-256 and \<open>Date.parse\<close> are parameters, and a setting is the
  number the configured text stands for, if any. The readings of the clock of an operation are
  \<open>clk 0\<close>, \<open>clk 1\<close>, ...
\<close>

section \<open>Data\<close>

datatype app_role = Role_admin | Role_operator | Role_client | Role_ngo

fun role_name :: "app_role \<Rightarrow> string" where
  "role_name Role_admin = ''admin''"
| "role_name Role_operator = ''operator''"
| "role_name Role_client = ''client''"
| "role_name Role_ngo = ''ngo''"

datatype key_status = Key_active | Key_expiring | Key_expired | Key_revoked | Key_grace | Key_rotated

fun key_status_name :: "key_status \<Rightarrow> string" where
  "key_status_name Key_active = ''active''"
| "key_status_name Key_expiring = ''expiring_soon''"
| "key_status_name Key_expired = ''expired''"
| "key_status_name Key_revoked = ''revoked''"
| "key_status_name Key_grace = ''grace''"
| "key_status_name Key_rotated = ''rotated''"

text \<open>A row; \<open>ak_key\<close> is the legacy plaintext column, \<open>ak_scopes\<close> the JSON text of the scopes.
  \<open>orgId\<close> and \<open>updatedAt\<close>, which nothing here reads, are left out.\<close>

record api_key_row =
  ak_id :: ident
  ak_key :: "string option"
  ak_keyHash :: "string option"
  ak_keyPreview :: "string option"
  ak_role :: app_role
  ak_scopes :: string
  ak_ngoId :: "ident option"
  ak_description :: "string option"
  ak_createdAt :: time
  ak_lastUsedAt :: "time option"
  ak_createdBy :: "string option"
  ak_revokedAt :: "time option"
  ak_revokedBy :: "string option"
  ak_revokedReason :: "string option"
  ak_replacedById :: "ident option"
  ak_expiresAt :: "time option"
  ak_graceExpiresAt :: "time option"
  ak_lastRemindedAt :: "time option"

record keys_state =
  ks_keys :: "api_key_row list"
  ks_audit :: "audit_params list"

record keys_env =
  ke_sha256 :: "string \<Rightarrow> string"
  ke_readNumber :: "string \<Rightarrow> rat option"
  ke_dateParse :: "string \<Rightarrow> time option"
  ke_reminderDays :: "rat option"
  ke_cooldownHours :: "rat option"
  ke_graceHours :: "rat option"
  ke_envKey :: "string option"

text \<open>Who asks: \<open>request.user\<close>.\<close>

record key_actor =
  ka_apiKeyId :: "ident option"
  ka_authType :: "string option"
  ka_role :: "app_role option"

definition MS_PER_DAY :: int where "MS_PER_DAY = 24 * 60 * 60 * 1000"
definition DEFAULT_API_KEY_REMINDER_WINDOW_DAYS :: int where "DEFAULT_API_KEY_REMINDER_WINDOW_DAYS = 14"
definition DEFAULT_API_KEY_REMINDER_COOLDOWN_HOURS :: int where "DEFAULT_API_KEY_REMINDER_COOLDOWN_HOURS = 24"
definition DEFAULT_API_KEY_ROTATION_GRACE_HOURS :: int where "DEFAULT_API_KEY_ROTATION_GRACE_HOURS = 24"

section \<open>Scopes\<close>

text \<open>A scope is its name; a member of a stored list that is no text is kept as the empty name.\<close>

definition defaultScopes :: "string list" where "defaultScopes = [''admin'']"

definition parseScopes :: "(string \<Rightarrow> rat option) \<Rightarrow> string option \<Rightarrow> string list" where
  "parseScopes rd raw =
     (if \<not> truthy raw then defaultScopes
      else case json_parse rd (the raw) of
          Some (JArr vs) \<Rightarrow> map (\<lambda>v. case v of JStr s \<Rightarrow> s | _ \<Rightarrow> []) vs
        | _ \<Rightarrow> defaultScopes)"

definition serializeScopes :: "string list \<Rightarrow> string" where
  "serializeScopes scopes = stringify_strings scopes"

definition maskPreview :: "string \<Rightarrow> string" where
  "maskPreview rawKey = take 6 rawKey @ ''...'' @ drop (length rawKey - 4) rawKey"

definition isHighRiskApiKey :: "app_role \<Rightarrow> string list \<Rightarrow> bool" where
  "isHighRiskApiKey role scopes \<longleftrightarrow> role = Role_admin \<or> ''admin'' \<in> set scopes"

section \<open>The status of a key\<close>

definition daysUntil :: "time \<Rightarrow> time \<Rightarrow> int" where
  "daysUntil date now = - ((now - date) div MS_PER_DAY)"

definition buildRotationGuidance :: "ident \<Rightarrow> key_status \<Rightarrow> bool \<Rightarrow> int option \<Rightarrow> string option" where
  "buildRotationGuidance i status isHighRisk days =
     (if status = Key_expired then
        Some (if isHighRisk then ''High-risk key '' @ i @ '' has expired. Rotate immediately via POST /api/v1/api-keys/'' @ i @ ''/rotate or revoke it.''
              else ''Key '' @ i @ '' has expired. Rotate via POST /api/v1/api-keys/'' @ i @ ''/rotate or revoke it.'')
      else if status = Key_expiring then
        let d = (case days of None \<Rightarrow> 0 | Some d \<Rightarrow> d)
        in Some (if isHighRisk then ''High-risk key '' @ i @ '' expires in '' @ show_int d @ '' day(s). Rotate before expiry via POST /api/v1/api-keys/'' @ i @ ''/rotate.''
                 else ''Key '' @ i @ '' expires in '' @ show_int d @ '' day(s). Plan rotation via POST /api/v1/api-keys/'' @ i @ ''/rotate.'')
      else if status = Key_active \<and> isHighRisk then
        Some (''High-risk key '' @ i @ '': rotate on a fixed schedule and set expiresAt so reminders can fire.'')
      else None)"

record rotation_status =
  rs_status :: key_status
  rs_daysUntilExpiry :: "int option"
  rs_isHighRisk :: bool
  rs_guidance :: "string option"

definition deriveRotationStatus :: "api_key_row \<Rightarrow> string list \<Rightarrow> time \<Rightarrow> int \<Rightarrow> rotation_status" where
  "deriveRotationStatus row scopes now windowDays =
     (let highRisk = isHighRiskApiKey (ak_role row) scopes;
          plain = (\<lambda>st. \<lparr>rs_status = st, rs_daysUntilExpiry = None, rs_isHighRisk = highRisk, rs_guidance = None\<rparr>);
          guided = (\<lambda>st days. \<lparr>rs_status = st, rs_daysUntilExpiry = days, rs_isHighRisk = highRisk,
            rs_guidance = buildRotationGuidance (ak_id row) st highRisk days\<rparr>)
      in if truthy (ak_replacedById row) \<or> ak_revokedReason row = Some ''rotated'' then
           (case ak_graceExpiresAt row of
              Some g \<Rightarrow>
                if ak_revokedAt row = None \<and> now < g then
                  \<lparr>rs_status = Key_grace, rs_daysUntilExpiry = Some (daysUntil g now), rs_isHighRisk = highRisk,
                   rs_guidance = Some (''Key '' @ ak_id row @ '' is in its rotation overlap window. Stop using it before ''
                     @ toISOString g @ ''.'')\<rparr>
                else plain Key_rotated
            | None \<Rightarrow> plain Key_rotated)
         else if ak_revokedAt row \<noteq> None then plain Key_revoked
         else case ak_expiresAt row of
             None \<Rightarrow> guided Key_active None
           | Some e \<Rightarrow>
               let remaining = daysUntil e now
               in if e \<le> now then guided Key_expired (Some remaining)
                  else if remaining \<le> windowDays then guided Key_expiring (Some remaining)
                  else guided Key_active (Some remaining))"

record key_view =
  kv_row :: api_key_row
  kv_scopes :: "string list"
  kv_status :: rotation_status

text \<open>The view shows the columns of the row, without the two of the secret, and the derived fields.\<close>

definition toAdminView :: "keys_env \<Rightarrow> api_key_row \<Rightarrow> int \<Rightarrow> time \<Rightarrow> key_view" where
  "toAdminView env row windowDays now =
     (let scopes = parseScopes (ke_readNumber env) (Some (ak_scopes row))
      in \<lparr>kv_row = row\<lparr>ak_key := None, ak_keyHash := None\<rparr>, kv_scopes = scopes,
          kv_status = deriveRotationStatus row scopes now windowDays\<rparr>)"

section \<open>Settings\<close>

definition reminderWindowDays :: "keys_env \<Rightarrow> int" where
  "reminderWindowDays env = (case ke_reminderDays env of
     Some x \<Rightarrow> if 1 \<le> x then \<lfloor>x\<rfloor> else DEFAULT_API_KEY_REMINDER_WINDOW_DAYS
   | None \<Rightarrow> DEFAULT_API_KEY_REMINDER_WINDOW_DAYS)"

definition reminderCooldownMs :: "keys_env \<Rightarrow> int" where
  "reminderCooldownMs env = (case ke_cooldownHours env of
     Some x \<Rightarrow> if 1 \<le> x then \<lfloor>x\<rfloor> else DEFAULT_API_KEY_REMINDER_COOLDOWN_HOURS
   | None \<Rightarrow> DEFAULT_API_KEY_REMINDER_COOLDOWN_HOURS) * 60 * 60 * 1000"

definition rotationGraceHours :: "keys_env \<Rightarrow> int" where
  "rotationGraceHours env = (case ke_graceHours env of
     Some x \<Rightarrow> if 1 \<le> x \<and> x \<le> 720 then \<lfloor>x\<rfloor> else DEFAULT_API_KEY_ROTATION_GRACE_HOURS
   | None \<Rightarrow> DEFAULT_API_KEY_ROTATION_GRACE_HOURS)"

definition actorId :: "key_actor option \<Rightarrow> string" where
  "actorId actor = (case actor of
     None \<Rightarrow> ''unknown''
   | Some a \<Rightarrow>
       if truthy (ka_apiKeyId a) then the (ka_apiKeyId a)
       else if ka_authType a = Some ''envApiKey'' then ''env:API_KEY''
       else (case ka_role a of Some r \<Rightarrow> ''role:'' @ role_name r | None \<Rightarrow> ''unknown''))"

section \<open>Operations\<close>

definition resolveExpiresAt :: "keys_env \<Rightarrow> time \<Rightarrow> string option \<Rightarrow> int option \<Rightarrow> app_error + time option" where
  "resolveExpiresAt env now expiresAt expiresInDays =
     (if expiresAt \<noteq> None \<and> expiresInDays \<noteq> None then
        Inl (AppException BAD_REQUEST 400 ''Provide either expiresAt or expiresInDays, not both'')
      else case expiresAt of
          Some text \<Rightarrow>
            (case ke_dateParse env text of
               None \<Rightarrow> Inl (AppException BAD_REQUEST 400 ''expiresAt must be a valid ISO datetime'')
             | Some e \<Rightarrow> if e \<le> now then Inl (AppException BAD_REQUEST 400 ''expiresAt must be in the future'')
                 else Inr (Some e))
        | None \<Rightarrow> (case expiresInDays of
              Some d \<Rightarrow> Inr (Some (now + d * MS_PER_DAY))
            | None \<Rightarrow> Inr None))"

record create_key_dto =
  ck_role :: app_role
  ck_scopes :: "string list option"
  ck_ngoId :: "ident option"
  ck_description :: "string option"
  ck_expiresAt :: "string option"
  ck_expiresInDays :: "int option"

definition new_key_row ::
  "keys_env \<Rightarrow> time \<Rightarrow> ident \<Rightarrow> string \<Rightarrow> app_role \<Rightarrow> string \<Rightarrow> ident option \<Rightarrow> string option \<Rightarrow> string \<Rightarrow> time option \<Rightarrow> api_key_row" where
  "new_key_row env createdAt newId rawKey role scopes ngoId description createdBy expiresAt =
     \<lparr>ak_id = newId, ak_key = None, ak_keyHash = Some (ke_sha256 env rawKey), ak_keyPreview = Some (maskPreview rawKey),
      ak_role = role, ak_scopes = scopes, ak_ngoId = ngoId, ak_description = description, ak_createdAt = createdAt,
      ak_lastUsedAt = None, ak_createdBy = Some createdBy, ak_revokedAt = None, ak_revokedBy = None, ak_revokedReason = None,
      ak_replacedById = None, ak_expiresAt = expiresAt, ak_graceExpiresAt = None, ak_lastRemindedAt = None\<rparr>"

definition create_key ::
  "keys_env \<Rightarrow> clock \<Rightarrow> ident \<Rightarrow> string \<Rightarrow> create_key_dto \<Rightarrow> key_actor option \<Rightarrow> keys_state \<Rightarrow> (app_error + key_view \<times> string) \<times> keys_state" where
  "create_key env clk newId rawKey dto actor s =
     (if ck_role dto = Role_ngo \<and> \<not> truthy (ck_ngoId dto) then
        (Inl (AppException BAD_REQUEST 400 ''ngoId is required for NGO API keys''), s)
      else case resolveExpiresAt env (clk 0) (ck_expiresAt dto) (ck_expiresInDays dto) of
          Inl e \<Rightarrow> (Inl e, s)
        | Inr expiresAt \<Rightarrow>
            let row = new_key_row env (clk 1) newId rawKey (ck_role dto)
                  (serializeScopes (case ck_scopes dto of None \<Rightarrow> defaultScopes | Some xs \<Rightarrow> xs))
                  (ck_ngoId dto) (ck_description dto) (actorId actor) expiresAt
            in (Inr (toAdminView env row (reminderWindowDays env) (clk 2), rawKey), s\<lparr>ks_keys := ks_keys s @ [row]\<rparr>))"

definition list_keys :: "keys_env \<Rightarrow> time \<Rightarrow> keys_state \<Rightarrow> key_view list" where
  "list_keys env now s =
     map (\<lambda>row. toAdminView env row (reminderWindowDays env) now) (rev (sort_key ak_createdAt (rev (ks_keys s))))"

definition key_by_id :: "ident \<Rightarrow> api_key_row \<Rightarrow> bool" where
  "key_by_id i r \<longleftrightarrow> ak_id r = i"

definition key_audit :: "string \<Rightarrow> ident \<Rightarrow> string \<Rightarrow> (string \<times> meta_value) list \<Rightarrow> keys_state \<Rightarrow> keys_state" where
  "key_audit actor i act meta s = s\<lparr>ks_audit := record_audit
     \<lparr>au_actorId = actor, au_entity = ''ApiKey'', au_entityId = i, au_action = act, au_metadata = meta\<rparr> (ks_audit s)\<rparr>"

definition opt_text :: "string option \<Rightarrow> meta_value" where
  "opt_text x = (case x of None \<Rightarrow> MNull | Some t \<Rightarrow> MStr t)"

definition revoke_key ::
  "keys_env \<Rightarrow> clock \<Rightarrow> ident \<Rightarrow> string option \<Rightarrow> key_actor option \<Rightarrow> keys_state \<Rightarrow> (app_error + key_view) \<times> keys_state" where
  "revoke_key env clk i reason actor s =
     (case find_row (key_by_id i) (ks_keys s) of
        None \<Rightarrow> (Inl (AppException NOT_FOUND 404 ''API key not found''), s)
      | Some existing \<Rightarrow>
          if ak_revokedAt existing \<noteq> None then (Inr (toAdminView env existing (reminderWindowDays env) (clk 0)), s)
          else
            let why = (case reason of None \<Rightarrow> ''revoked'' | Some t \<Rightarrow> t);
                change = (\<lambda>r. r\<lparr>ak_revokedAt := Some (clk 0), ak_revokedBy := Some (actorId actor),
                  ak_revokedReason := Some why, ak_graceExpiresAt := None\<rparr>);
                s1 = s\<lparr>ks_keys := update_where (key_by_id i) change (ks_keys s)\<rparr>
            in (Inr (toAdminView env (change existing) (reminderWindowDays env) (clk 1)),
                key_audit (actorId actor) i ''api_key_revoked''
                  [(''keyPreview'', opt_text (ak_keyPreview existing)), (''reason'', MStr why)] s1))"

record rotate_key_dto =
  rk_expiresAt :: "string option"
  rk_expiresInDays :: "int option"
  rk_gracePeriodHours :: "int option"

record rotate_result =
  rr_replacement :: key_view
  rr_apiKey :: string
  rr_predecessorId :: ident
  rr_validUntil :: time

definition rotate_key ::
  "keys_env \<Rightarrow> clock \<Rightarrow> ident \<Rightarrow> string \<Rightarrow> ident \<Rightarrow> key_actor option \<Rightarrow> rotate_key_dto \<Rightarrow> keys_state
   \<Rightarrow> (app_error + rotate_result) \<times> keys_state" where
  "rotate_key env clk newId rawKey i actor dto s =
     (let gracePeriodHours = (case rk_gracePeriodHours dto of Some h \<Rightarrow> h | None \<Rightarrow> rotationGraceHours env)
      in case find_row (key_by_id i) (ks_keys s) of
           None \<Rightarrow> (Inl (AppException NOT_FOUND 404 ''API key not found''), s)
         | Some existing \<Rightarrow>
             if ak_revokedAt existing \<noteq> None then (Inl (AppException BAD_REQUEST 400 ''Cannot rotate a revoked API key''), s)
             else case (if rk_expiresAt dto \<noteq> None \<or> rk_expiresInDays dto \<noteq> None
                        then resolveExpiresAt env (clk 0) (rk_expiresAt dto) (rk_expiresInDays dto)
                        else Inr (ak_expiresAt existing)) of
                 Inl e \<Rightarrow> (Inl e, s)
               | Inr expiresAt \<Rightarrow>
                   let replacement = new_key_row env (clk 1) newId rawKey (ak_role existing) (ak_scopes existing)
                         (ak_ngoId existing) (ak_description existing) (actorId actor) expiresAt;
                       now = clk 2;
                       graceExpiresAt = now + gracePeriodHours * 60 * 60 * 1000;
                       s1 = s\<lparr>ks_keys := update_where (key_by_id (ak_id existing))
                         (\<lambda>r. r\<lparr>ak_revokedReason := Some ''rotated'', ak_replacedById := Some newId, ak_graceExpiresAt := Some graceExpiresAt\<rparr>)
                         (ks_keys s @ [replacement])\<rparr>
                   in (Inr \<lparr>rr_replacement = toAdminView env replacement (reminderWindowDays env) now, rr_apiKey = rawKey,
                        rr_predecessorId = ak_id existing, rr_validUntil = graceExpiresAt\<rparr>,
                      key_audit (actorId actor) (ak_id existing) ''api_key_rotated''
                        [(''replacedById'', MStr newId), (''predecessorKeyPreview'', opt_text (ak_keyPreview existing)),
                         (''graceExpiresAt'', MTime graceExpiresAt), (''gracePeriodHours'', MInt gracePeriodHours)] s1))"

record expiry_reminder =
  er_id :: ident
  er_keyPreview :: "string option"
  er_role :: app_role
  er_scopes :: "string list"
  er_description :: "string option"
  er_expiresAt :: time
  er_daysUntilExpiry :: int
  er_isHighRisk :: bool
  er_rotationGuidance :: string

definition due_reminder :: "keys_env \<Rightarrow> time \<Rightarrow> api_key_row \<Rightarrow> bool" where
  "due_reminder env now r \<longleftrightarrow> ak_revokedAt r = None \<and> ak_replacedById r = None \<and>
     (case ak_expiresAt r of None \<Rightarrow> False | Some e \<Rightarrow> e \<le> now + reminderWindowDays env * MS_PER_DAY) \<and>
     (case ak_lastRemindedAt r of None \<Rightarrow> True | Some t \<Rightarrow> t \<le> now - reminderCooldownMs env)"

definition reminder_of :: "keys_env \<Rightarrow> time \<Rightarrow> api_key_row \<Rightarrow> time \<Rightarrow> expiry_reminder \<times> key_status" where
  "reminder_of env now row e =
     (let st = kv_status (toAdminView env row (reminderWindowDays env) now);
          guidance = (case rs_guidance st of
              Some g \<Rightarrow> g
            | None \<Rightarrow> (case buildRotationGuidance (ak_id row) (rs_status st) (rs_isHighRisk st) (rs_daysUntilExpiry st) of
                Some g \<Rightarrow> g
              | None \<Rightarrow> ''API key '' @ ak_id row @ '' expires at '' @ toISOString e @ ''. Rotate via POST /api/v1/api-keys/'' @ ak_id row @ ''/rotate.''))
      in (\<lparr>er_id = ak_id row, er_keyPreview = ak_keyPreview row, er_role = ak_role row,
           er_scopes = parseScopes (ke_readNumber env) (Some (ak_scopes row)), er_description = ak_description row,
           er_expiresAt = e, er_daysUntilExpiry = (case rs_daysUntilExpiry st of Some d \<Rightarrow> d | None \<Rightarrow> daysUntil e now),
           er_isHighRisk = rs_isHighRisk st, er_rotationGuidance = guidance\<rparr>, rs_status st))"

definition remind :: "keys_env \<Rightarrow> time \<Rightarrow> api_key_row \<Rightarrow> expiry_reminder list \<times> keys_state \<Rightarrow> expiry_reminder list \<times> keys_state" where
  "remind env now row st =
     (case ak_expiresAt row of
        None \<Rightarrow> st
      | Some e \<Rightarrow> (case reminder_of env now row e of (r, status) \<Rightarrow> case st of (rs, s) \<Rightarrow>
          let s1 = key_audit ''system:api-key-expiry'' (er_id r) ''expiry_reminder''
                [(''keyPreview'', opt_text (er_keyPreview r)), (''expiresAt'', MTime (er_expiresAt r)),
                 (''daysUntilExpiry'', MInt (er_daysUntilExpiry r)), (''isHighRisk'', MBool (er_isHighRisk r)),
                 (''rotationStatus'', MStr (key_status_name status)), (''rotationGuidance'', MStr (er_rotationGuidance r))] s
          in (rs @ [r], s1\<lparr>ks_keys := update_where (key_by_id (ak_id row)) (\<lambda>r. r\<lparr>ak_lastRemindedAt := Some now\<rparr>) (ks_keys s1)\<rparr>)))"

definition surfaceUpcomingExpirations :: "keys_env \<Rightarrow> time \<Rightarrow> keys_state \<Rightarrow> expiry_reminder list \<times> keys_state" where
  "surfaceUpcomingExpirations env now s =
     fold (remind env now) (sort_key (\<lambda>r. the (ak_expiresAt r)) (filter (due_reminder env now) (ks_keys s))) ([], s)"

section \<open>The guard\<close>

text \<open>\<open>ApiKeyGuard\<close> of \<open>common/guards/api-key.guard.ts\<close>: the request and the user it sets.\<close>

record guarded_request =
  gr_public :: bool
  gr_apiKey :: "string option"

record guard_user =
  gu_role :: app_role
  gu_ngoId :: "ident option"
  gu_apiKeyId :: "ident option"
  gu_authType :: string
  gu_scopes :: "string list"

definition credential_of :: "keys_env \<Rightarrow> string \<Rightarrow> api_key_row \<Rightarrow> bool" where
  "credential_of env apiKey r \<longleftrightarrow> ak_keyHash r = Some (ke_sha256 env apiKey) \<or> ak_key r = Some apiKey"

definition past :: "time option \<Rightarrow> time \<Rightarrow> bool" where
  "past x now \<longleftrightarrow> (case x of None \<Rightarrow> False | Some t \<Rightarrow> t \<le> now)"

text \<open>Why a row is refused.\<close>

definition key_refusal :: "api_key_row \<Rightarrow> time \<Rightarrow> string option" where
  "key_refusal r now =
     (if past (ak_revokedAt r) now then Some ''API key has been revoked''
      else if past (ak_expiresAt r) now then Some ''API key has expired''
      else if past (ak_graceExpiresAt r) now \<and> truthy (ak_replacedById r) then
        Some ''API key has been rotated and its grace period has ended''
      else None)"

definition api_key_guard ::
  "keys_env \<Rightarrow> clock \<Rightarrow> guarded_request \<Rightarrow> keys_state \<Rightarrow> (app_error + guard_user option) \<times> keys_state" where
  "api_key_guard env clk req s =
     (if gr_public req then (Inr None, s)
      else if \<not> truthy (gr_apiKey req) then (Inl (AppException UNAUTHORIZED 401 ''Invalid or missing API key''), s)
      else let apiKey = the (gr_apiKey req) in
        case find_row (credential_of env apiKey) (ks_keys s) of
          Some r \<Rightarrow>
            (case key_refusal r (clk 0) of
               Some m \<Rightarrow> (Inl (AppException UNAUTHORIZED 401 m), s)
             | None \<Rightarrow>
                 (Inr (Some \<lparr>gu_role = ak_role r, gu_ngoId = ak_ngoId r, gu_apiKeyId = Some (ak_id r), gu_authType = ''apiKey'',
                    gu_scopes = parseScopes (ke_readNumber env) (Some (ak_scopes r))\<rparr>),
                  s\<lparr>ks_keys := update_where (key_by_id (ak_id r)) (\<lambda>r. r\<lparr>ak_lastUsedAt := Some (clk 1)\<rparr>) (ks_keys s)\<rparr>))
        | None \<Rightarrow>
            if ke_envKey env = Some apiKey then
              (Inr (Some \<lparr>gu_role = Role_admin, gu_ngoId = None, gu_apiKeyId = None, gu_authType = ''envApiKey'', gu_scopes = [''admin'']\<rparr>), s)
            else (Inl (AppException UNAUTHORIZED 401 ''Invalid or missing API key''), s))"

section \<open>What may happen\<close>

text \<open>
  A new raw key is one nobody has: its digest is not in the table and is not that of a legacy key. A
  reading of the clock is not before the instants the clock gave earlier.
\<close>

definition fresh_raw :: "keys_env \<Rightarrow> string \<Rightarrow> keys_state \<Rightarrow> bool" where
  "fresh_raw env rawKey s \<longleftrightarrow> (\<forall>r \<in> set (ks_keys s). ak_keyHash r \<noteq> Some (ke_sha256 env rawKey) \<and>
     (\<forall>k. ak_key r = Some k \<longrightarrow> ke_sha256 env k \<noteq> ke_sha256 env rawKey))"

inductive key_step :: "keys_env \<Rightarrow> keys_state \<Rightarrow> keys_state \<Rightarrow> bool" for env where
  creates_key: "newId \<notin> ak_id ` set (ks_keys s) \<Longrightarrow> newId \<noteq> [] \<Longrightarrow> fresh_raw env rawKey s \<Longrightarrow>
    create_key env clk newId rawKey dto actor s = (x, t) \<Longrightarrow> key_step env s t"
| revokes_key: "revoke_key env clk i reason actor s = (x, t) \<Longrightarrow> key_step env s t"
| rotates_key: "newId \<notin> ak_id ` set (ks_keys s) \<Longrightarrow> newId \<noteq> [] \<Longrightarrow> fresh_raw env rawKey s \<Longrightarrow>
    rotate_key env clk newId rawKey i actor dto s = (x, t) \<Longrightarrow> key_step env s t"
| reminds: "surfaceUpcomingExpirations env now s = (rs, t) \<Longrightarrow> key_step env s t"
| guards: "api_key_guard env clk req s = (x, t) \<Longrightarrow> key_step env s t"

inductive_cases key_stepE: "key_step env s t"

end
