(* ===== verification/ApiKeyRules.thy ===== *)
theory ApiKeyRules
  imports ApiKeys
begin

text \<open>
  What the API keys of the theory \<open>ApiKeys\<close> guarantee: which keys open the door, now and after any
  further requests, what a rotation does, and what the status shown to an administrator means.
\<close>

section \<open>The invariant\<close>

text \<open>
  Every row has its own id and its own credential; a row that was rotated has either a grace period
  or a revocation.
\<close>

definition rotation_wf :: "api_key_row \<Rightarrow> bool" where
  "rotation_wf r \<longleftrightarrow>
     (truthy (ak_replacedById r) \<longrightarrow> ak_revokedAt r \<noteq> None \<or> ak_graceExpiresAt r \<noteq> None) \<and>
     (ak_revokedReason r = Some ''rotated'' \<and> ak_revokedAt r = None \<longrightarrow> truthy (ak_replacedById r)) \<and>
     (ak_graceExpiresAt r \<noteq> None \<longrightarrow> truthy (ak_replacedById r))"

definition one_owner :: "keys_env \<Rightarrow> api_key_row list \<Rightarrow> bool" where
  "one_owner env rows \<longleftrightarrow> (\<forall>r \<in> set rows. \<forall>r' \<in> set rows. \<forall>k.
     credential_of env k r \<and> credential_of env k r' \<longrightarrow> ak_id r = ak_id r')"

definition keys_inv :: "keys_env \<Rightarrow> keys_state \<Rightarrow> bool" where
  "keys_inv env s \<longleftrightarrow> distinct (map ak_id (ks_keys s)) \<and> [] \<notin> ak_id ` set (ks_keys s) \<and>
     one_owner env (ks_keys s) \<and> (\<forall>r \<in> set (ks_keys s). rotation_wf r)"

text \<open>What a row keeps: its credential and what it grants; and a revocation.\<close>

definition key_kept :: "api_key_row \<Rightarrow> api_key_row \<Rightarrow> bool" where
  "key_kept r r' \<longleftrightarrow> ak_id r' = ak_id r \<and> ak_keyHash r' = ak_keyHash r \<and> ak_key r' = ak_key r \<and> ak_role r' = ak_role r \<and>
     ak_scopes r' = ak_scopes r \<and> ak_ngoId r' = ak_ngoId r \<and> ak_expiresAt r' = ak_expiresAt r \<and>
     (ak_revokedAt r \<noteq> None \<longrightarrow> ak_revokedAt r' = ak_revokedAt r)"

definition keys_le :: "keys_state \<Rightarrow> keys_state \<Rightarrow> bool" where
  "keys_le s t \<longleftrightarrow> (\<forall>r \<in> set (ks_keys s). \<exists>r' \<in> set (ks_keys t). key_kept r r')"

lemma key_kept_refl [simp]: "key_kept r r"
  by (simp add: key_kept_def)

lemma key_kept_trans: "key_kept r r' \<Longrightarrow> key_kept r' r'' \<Longrightarrow> key_kept r r''"
  by (auto simp: key_kept_def)

lemma keys_le_refl: "keys_le s s"
  by (auto simp: keys_le_def intro: key_kept_refl)

lemma keys_le_trans: "keys_le s t \<Longrightarrow> keys_le t u \<Longrightarrow> keys_le s u"
  unfolding keys_le_def by (meson key_kept_trans)

lemma kept_credential: "key_kept r r' \<Longrightarrow> credential_of env k r' = credential_of env k r"
  by (simp add: key_kept_def credential_of_def)

subsection \<open>Changes of rows\<close>

lemma inv_change:
  assumes "keys_inv env s" and "ks_keys t = update_where p f (ks_keys s)"
    and "\<And>r. p r \<Longrightarrow> r \<in> set (ks_keys s) \<Longrightarrow> key_kept r (f r) \<and> rotation_wf (f r)"
  shows "keys_inv env t" and "keys_le s t"
proof -
  define g where "g = (\<lambda>r. if p r then f r else r)"
  have rows: "set (ks_keys t) = g ` set (ks_keys s)" unfolding assms(2) set_update_where g_def ..
  have kept: "key_kept r (g r)" and wf: "rotation_wf (g r)" if "r \<in> set (ks_keys s)" for r
    using assms(1,3) that by (auto simp: g_def keys_inv_def)
  have "map ak_id (ks_keys t) = map ak_id (ks_keys s)"
    unfolding assms(2) update_where_def using kept by (auto simp: g_def key_kept_def)
  moreover from this have "ak_id ` set (ks_keys t) = ak_id ` set (ks_keys s)" by (metis image_set)
  moreover have "one_owner env (ks_keys t)"
  proof -
    have "credential_of env k (g r) = credential_of env k r" "ak_id (g r) = ak_id r" if "r \<in> set (ks_keys s)" for r k
      using kept_credential [OF kept [OF that]] kept [OF that] by (simp_all add: key_kept_def)
    with assms(1) show ?thesis unfolding keys_inv_def one_owner_def rows by auto
  qed
  ultimately show "keys_inv env t" using assms(1) wf unfolding keys_inv_def by (auto simp: rows)
  show "keys_le s t" unfolding keys_le_def rows using kept by blast
qed

lemma inv_new_key:
  assumes "keys_inv env s" and "newId \<notin> ak_id ` set (ks_keys s)" and "newId \<noteq> []" and "fresh_raw env rawKey s"
    and "row = new_key_row env now newId rawKey role scopes ngo desc creator expires"
    and "ks_keys t = ks_keys s @ [row]"
  shows "keys_inv env t" and "keys_le s t"
proof -
  have row: "ak_id row = newId" "rotation_wf row" "\<And>k. credential_of env k row \<longleftrightarrow> ke_sha256 env k = ke_sha256 env rawKey"
    unfolding assms(5) by (auto simp: new_key_row_def rotation_wf_def truthy_def credential_of_def)
  have "\<not> credential_of env k r" if "r \<in> set (ks_keys s)" "ke_sha256 env k = ke_sha256 env rawKey" for r k
    using assms(4) that by (auto simp: fresh_raw_def credential_of_def)
  then have "one_owner env (ks_keys t)"
    using assms(1) unfolding keys_inv_def one_owner_def assms(6) by (auto simp: row(1,3))
  with assms(1,2,3) row(1,2) show "keys_inv env t" unfolding keys_inv_def assms(6) by auto
  show "keys_le s t" unfolding keys_le_def assms(6) by (auto intro: key_kept_refl)
qed

subsection \<open>The requests\<close>

lemma key_audit_keys [simp]: "ks_keys (key_audit a i act m s) = ks_keys s"
  by (simp add: key_audit_def)

lemma inv_same: "ks_keys t = ks_keys s \<Longrightarrow> keys_inv env s \<Longrightarrow> keys_inv env t \<and> keys_le s t"
  by (auto simp: keys_inv_def keys_le_def intro: key_kept_refl)

lemma step_create:
  assumes "create_key env clk newId rawKey dto actor s = (x, t)" and "keys_inv env s"
    and "newId \<notin> ak_id ` set (ks_keys s)" "newId \<noteq> []" "fresh_raw env rawKey s"
  shows "keys_inv env t \<and> keys_le s t"
proof (cases x)
  case (Inl e)
  with assms(1) have "t = s" by (auto simp: create_key_def Let_def split: if_splits sum.splits)
  with assms(2) keys_le_refl show ?thesis by simp
next
  case (Inr v)
  then obtain now role scopes ngo desc creator expires where
    "ks_keys t = ks_keys s @ [new_key_row env now newId rawKey role scopes ngo desc creator expires]"
    using assms(1) by (auto simp: create_key_def Let_def split: if_splits sum.splits)
  from inv_new_key [OF assms(2-5) refl this] show ?thesis by simp
qed

lemma step_revoke:
  assumes "revoke_key env clk i reason actor s = (x, t)" and "keys_inv env s"
  shows "keys_inv env t \<and> keys_le s t"
proof (cases "find_row (key_by_id i) (ks_keys s)")
  case None
  with assms show ?thesis by (auto simp: revoke_key_def keys_le_refl)
next
  case (Some r)
  show ?thesis
  proof (cases "ak_revokedAt r")
    case None
    let ?f = "\<lambda>r. r\<lparr>ak_revokedAt := Some (clk 0), ak_revokedBy := Some (actorId actor),
      ak_revokedReason := Some (case reason of None \<Rightarrow> ''revoked'' | Some t \<Rightarrow> t), ak_graceExpiresAt := None\<rparr>"
    have t: "ks_keys t = update_where (key_by_id i) ?f (ks_keys s)"
      using assms(1) Some None by (auto simp: revoke_key_def Let_def)
    have "r' = r" if "r' \<in> set (ks_keys s)" "key_by_id i r'" for r'
      using find_row_SomeD [OF Some] that assms(2) key_unique [of ak_id "ks_keys s" r' r]
      by (simp add: key_by_id_def keys_inv_def)
    with None have "key_kept r' (?f r') \<and> rotation_wf (?f r')" if "key_by_id i r'" "r' \<in> set (ks_keys s)" for r'
      using that assms(2) by (auto simp: key_kept_def rotation_wf_def keys_inv_def)
    from inv_change [OF assms(2) t this] show ?thesis by simp
  next
    case (Some t0)
    with \<open>find_row (key_by_id i) (ks_keys s) = Some r\<close> assms have "t = s" by (auto simp: revoke_key_def)
    with assms(2) keys_le_refl show ?thesis by simp
  qed
qed

text \<open>A rotation that succeeds: the row with its replacement.\<close>

lemma rotate_rows:
  assumes "rotate_key env clk newId rawKey i actor dto s = (Inr res, t)"
  shows "\<exists>r expires. find_row (key_by_id i) (ks_keys s) = Some r \<and> ak_revokedAt r = None \<and> rr_apiKey res = rawKey \<and>
    ks_keys t = update_where (key_by_id i)
      (\<lambda>r. r\<lparr>ak_revokedReason := Some ''rotated'', ak_replacedById := Some newId, ak_graceExpiresAt := Some (rr_validUntil res)\<rparr>)
      (ks_keys s @ [new_key_row env (clk 1) newId rawKey (ak_role r) (ak_scopes r) (ak_ngoId r) (ak_description r)
        (actorId actor) expires]) \<and>
    kv_row (rr_replacement res) = (new_key_row env (clk 1) newId rawKey (ak_role r) (ak_scopes r) (ak_ngoId r) (ak_description r)
        (actorId actor) expires)\<lparr>ak_keyHash := None\<rparr>"
proof -
  obtain r where r: "find_row (key_by_id i) (ks_keys s) = Some r"
    using assms by (auto simp: rotate_key_def Let_def split: option.splits)
  then have "ak_id r = i" using find_row_SomeD [OF r] by (simp add: key_by_id_def)
  with assms r show ?thesis
    by (auto simp: rotate_key_def Let_def toAdminView_def new_key_row_def split: if_splits sum.splits)
qed

lemma step_rotate:
  assumes "rotate_key env clk newId rawKey i actor dto s = (x, t)" and "keys_inv env s"
    and "newId \<notin> ak_id ` set (ks_keys s)" "newId \<noteq> []" "fresh_raw env rawKey s"
  shows "keys_inv env t \<and> keys_le s t"
proof (cases x)
  case (Inl e)
  with assms(1) have "t = s" by (auto simp: rotate_key_def Let_def split: if_splits sum.splits option.splits)
  with assms(2) keys_le_refl show ?thesis by simp
next
  case (Inr res)
  from rotate_rows [OF assms(1) [unfolded Inr]] obtain r expires where
    r: "find_row (key_by_id i) (ks_keys s) = Some r" and
    t: "ks_keys t = update_where (key_by_id i)
      (\<lambda>r. r\<lparr>ak_revokedReason := Some ''rotated'', ak_replacedById := Some newId, ak_graceExpiresAt := Some (rr_validUntil res)\<rparr>)
      (ks_keys s @ [new_key_row env (clk 1) newId rawKey (ak_role r) (ak_scopes r) (ak_ngoId r) (ak_description r)
        (actorId actor) expires])" by blast
  define u where "u = s\<lparr>ks_keys := ks_keys s @ [new_key_row env (clk 1) newId rawKey (ak_role r) (ak_scopes r) (ak_ngoId r)
    (ak_description r) (actorId actor) expires]\<rparr>"
  have u: "keys_inv env u" "keys_le s u"
    using inv_new_key [OF assms(2-5) refl, of u] by (simp_all add: u_def)
  have "key_kept r' (r'\<lparr>ak_revokedReason := Some ''rotated'', ak_replacedById := Some newId, ak_graceExpiresAt := Some g\<rparr>) \<and>
      rotation_wf (r'\<lparr>ak_revokedReason := Some ''rotated'', ak_replacedById := Some newId, ak_graceExpiresAt := Some g\<rparr>)" for r' g
    using assms(4) by (simp add: key_kept_def rotation_wf_def truthy_def)
  with inv_change [OF u(1), of t] t u(2) keys_le_trans show ?thesis by (simp add: u_def)
qed

lemma inv_touch:
  assumes "keys_inv env s" and "ks_keys t = update_where p f (ks_keys s)"
    and "\<And>r. key_kept r (f r)" "\<And>r. rotation_wf (f r) = rotation_wf r"
  shows "keys_inv env t \<and> keys_le s t"
proof -
  have "key_kept r (f r) \<and> rotation_wf (f r)" if "r \<in> set (ks_keys s)" for r
    using assms that by (simp add: keys_inv_def)
  with inv_change [OF assms(1,2)] show ?thesis by blast
qed

lemma step_remind:
  assumes "keys_inv env (snd st)"
  shows "keys_inv env (snd (fold (remind env now) rows st)) \<and> keys_le (snd st) (snd (fold (remind env now) rows st))"
  using assms
proof (induction rows arbitrary: st)
  case Nil
  then show ?case by (simp add: keys_le_refl)
next
  case (Cons row rows)
  obtain rs s where st: "st = (rs, s)" by (cases st)
  have one: "keys_inv env (snd (remind env now row st)) \<and> keys_le s (snd (remind env now row st))"
  proof (cases "ak_expiresAt row")
    case None
    with Cons.prems st show ?thesis by (simp add: remind_def keys_le_refl)
  next
    case (Some e)
    then have "ks_keys (snd (remind env now row st)) =
        update_where (key_by_id (ak_id row)) (\<lambda>r. r\<lparr>ak_lastRemindedAt := Some now\<rparr>) (ks_keys s)"
      by (simp add: remind_def st Let_def split: prod.split)
    from inv_touch [OF _ this] Cons.prems st show ?thesis by (simp add: key_kept_def rotation_wf_def)
  qed
  from Cons.IH [OF conjunct1 [OF one]] one st keys_le_trans show ?case by (simp add: o_def) blast
qed

lemma guard_rows:
  assumes "api_key_guard env clk req s = (x, t)"
  shows "t = s \<or> (\<exists>i. ks_keys t = update_where (key_by_id i) (\<lambda>r. r\<lparr>ak_lastUsedAt := Some (clk 1)\<rparr>) (ks_keys s))"
  using assms by (auto simp: api_key_guard_def Let_def split: if_splits option.splits)

lemma key_step_keeps:
  assumes "key_step env s t" and "keys_inv env s"
  shows "keys_inv env t \<and> keys_le s t"
  using assms(1)
proof (cases rule: key_step.cases)
  case (creates_key newId rawKey clk dto actor x)
  then show ?thesis using step_create assms(2) by blast
next
  case (revokes_key clk i reason actor x)
  then show ?thesis using step_revoke assms(2) by blast
next
  case (rotates_key newId rawKey clk i actor dto x)
  then show ?thesis using step_rotate assms(2) by blast
next
  case (reminds now rs)
  then show ?thesis
    using step_remind [of env "([], s)" now] assms(2) by (metis snd_conv surfaceUpcomingExpirations_def)
next
  case (guards clk req x)
  from guard_rows [OF guards] show ?thesis
  proof
    assume "t = s"
    with assms(2) keys_le_refl show ?thesis by simp
  next
    assume "\<exists>i. ks_keys t = update_where (key_by_id i) (\<lambda>r. r\<lparr>ak_lastUsedAt := Some (clk 1)\<rparr>) (ks_keys s)"
    then show ?thesis using inv_touch [OF assms(2)] by (auto simp: key_kept_def rotation_wf_def)
  qed
qed

interpretation api_keys: mono_system "key_step env" "keys_inv env" keys_le for env
  by unfold_locales (auto dest: key_step_keeps intro: keys_le_refl keys_le_trans)

section \<open>Who is let in\<close>

lemma owner_found:
  assumes "keys_inv env s" and "r \<in> set (ks_keys s)" and "credential_of env k r"
  shows "find_row (credential_of env k) (ks_keys s) = Some r"
proof -
  obtain r' where r': "find_row (credential_of env k) (ks_keys s) = Some r'"
    using find_row_exists [of r "ks_keys s" "credential_of env k"] assms(2,3) by blast
  with find_row_SomeD [OF r'] assms have "ak_id r' = ak_id r" unfolding keys_inv_def one_owner_def by blast
  with find_row_SomeD [OF r'] assms r' key_unique [of ak_id "ks_keys s" r' r] show ?thesis by (simp add: keys_inv_def)
qed

definition key_request :: "string \<Rightarrow> guarded_request" where
  "key_request k = \<lparr>gr_public = False, gr_apiKey = Some k\<rparr>"

definition key_user :: "keys_env \<Rightarrow> api_key_row \<Rightarrow> guard_user" where
  "key_user env r = \<lparr>gu_role = ak_role r, gu_ngoId = ak_ngoId r, gu_apiKeyId = Some (ak_id r), gu_authType = ''apiKey'',
     gu_scopes = parseScopes (ke_readNumber env) (Some (ak_scopes r))\<rparr>"

lemma guard_owner:
  assumes "keys_inv env s" and "r \<in> set (ks_keys s)" and "credential_of env k r" and "k \<noteq> []"
  shows "fst (api_key_guard env clk (key_request k) s) =
    (case key_refusal r (clk 0) of Some m \<Rightarrow> Inl (AppException UNAUTHORIZED 401 m) | None \<Rightarrow> Inr (Some (key_user env r)))"
  using owner_found [OF assms(1-3)] assms(4)
  by (auto simp: api_key_guard_def key_request_def truthy_def Let_def key_user_def split: option.split)

text \<open>Whom the guard lets in on a route that is not public.\<close>

lemma guard_lets_in:
  assumes "api_key_guard env clk req s = (Inr user, t)" and "\<not> gr_public req"
  shows "\<exists>u k. user = Some u \<and> gr_apiKey req = Some k \<and> k \<noteq> [] \<and>
    ((\<exists>r \<in> set (ks_keys s). credential_of env k r \<and> key_refusal r (clk 0) = None \<and> u = key_user env r) \<or>
     ke_envKey env = Some k \<and> gu_role u = Role_admin \<and> gu_scopes u = [''admin''])"
proof -
  obtain k where k: "gr_apiKey req = Some k" "k \<noteq> []"
    using assms by (auto simp: api_key_guard_def truthy_def split: if_splits option.splits)
  show ?thesis
  proof (cases "find_row (credential_of env k) (ks_keys s)")
    case None
    with assms k show ?thesis by (auto simp: api_key_guard_def truthy_def split: if_splits)
  next
    case (Some r)
    with find_row_SomeD [OF Some] assms k show ?thesis
      by (auto simp: api_key_guard_def truthy_def key_user_def Let_def split: option.splits)
  qed
qed

text \<open>
  C19. A revoked key is dead: whatever happens after a key was revoked, a request with it is refused as
  revoked, from the instant of the revocation on.
\<close>

theorem revoked_key_refused:
  assumes "keys_inv env s" and "r \<in> set (ks_keys s)" "ak_revokedAt r = Some t0" and "credential_of env k r" "k \<noteq> []"
    and "(key_step env)\<^sup>*\<^sup>* s t" and "t0 \<le> clk 0"
  shows "fst (api_key_guard env clk (key_request k) t) = Inl (AppException UNAUTHORIZED 401 ''API key has been revoked'')"
proof -
  have inv: "keys_inv env t" by (rule api_keys.run_keeps [OF assms(6,1)])
  obtain r' where r': "r' \<in> set (ks_keys t)" "key_kept r r'"
    using api_keys.run_le [OF assms(6,1)] assms(2) unfolding keys_le_def by blast
  then have "ak_revokedAt r' = Some t0" "credential_of env k r'"
    using assms(3,4) kept_credential [OF r'(2)] by (simp_all add: key_kept_def)
  with guard_owner [OF inv r'(1) _ assms(5)] assms(7) show ?thesis by (simp add: key_refusal_def past_def)
qed

lemma rotated_pair:
  assumes "keys_inv env s" and "newId \<notin> ak_id ` set (ks_keys s)" "newId \<noteq> []" "fresh_raw env rawKey s"
    and "rotate_key env clk newId rawKey i actor dto s = (Inr res, t)" and "r \<in> set (ks_keys s)" "ak_id r = i"
  shows "keys_inv env t \<and> ak_revokedAt r = None \<and>
    r\<lparr>ak_revokedReason := Some ''rotated'', ak_replacedById := Some newId, ak_graceExpiresAt := Some (rr_validUntil res)\<rparr> \<in> set (ks_keys t) \<and>
    (\<exists>r' \<in> set (ks_keys t). credential_of env rawKey r' \<and> ak_role r' = ak_role r \<and> ak_scopes r' = ak_scopes r \<and>
      ak_ngoId r' = ak_ngoId r \<and> ak_id r' = newId \<and> ak_revokedAt r' = None \<and> ak_graceExpiresAt r' = None \<and>
      ak_expiresAt r' = ak_expiresAt (kv_row (rr_replacement res)))"
proof -
  let ?old = "r\<lparr>ak_revokedReason := Some ''rotated'', ak_replacedById := Some newId, ak_graceExpiresAt := Some (rr_validUntil res)\<rparr>"
  from rotate_rows [OF assms(5)] obtain r0 expires where
    r0: "find_row (key_by_id i) (ks_keys s) = Some r0" "ak_revokedAt r0 = None" and
    t: "ks_keys t = update_where (key_by_id i)
      (\<lambda>r. r\<lparr>ak_revokedReason := Some ''rotated'', ak_replacedById := Some newId, ak_graceExpiresAt := Some (rr_validUntil res)\<rparr>)
      (ks_keys s @ [new_key_row env (clk 1) newId rawKey (ak_role r0) (ak_scopes r0) (ak_ngoId r0) (ak_description r0)
        (actorId actor) expires])" and
    v: "kv_row (rr_replacement res) = (new_key_row env (clk 1) newId rawKey (ak_role r0) (ak_scopes r0) (ak_ngoId r0) (ak_description r0)
        (actorId actor) expires)\<lparr>ak_keyHash := None\<rparr>" by blast
  have "r0 = r" using find_row_SomeD [OF r0(1)] assms(1,6,7) key_unique [of ak_id "ks_keys s" r0 r]
    by (simp add: key_by_id_def keys_inv_def)
  moreover have "keys_inv env t" using step_rotate [OF assms(5,1-4)] by simp
  moreover have "newId \<noteq> i" using assms(2,6,7) by blast
  moreover have "?old \<in> set (ks_keys t)" unfolding t
    by (rule in_update_where_changed [where r = r and f = "\<lambda>r. r\<lparr>ak_revokedReason := Some ''rotated'',
        ak_replacedById := Some newId, ak_graceExpiresAt := Some (rr_validUntil res)\<rparr>"])
      (use assms(6,7) in \<open>simp_all add: key_by_id_def\<close>)
  ultimately show ?thesis using r0(2) v
    unfolding t by (auto simp: key_by_id_def new_key_row_def credential_of_def)
qed

text \<open>
  C27. A rotation is without a gap: in the state it leaves, the old key opens as before until the
  announced instant, if it does not expire earlier, and not from then on; the new key opens, with the
  same role, organisation and scopes, unless its own expiry has come. (A second rotation of the old key opens
  it again: \<open>rotated_key_revived\<close>.)
\<close>

theorem rotation_overlap:
  assumes "keys_inv env s" and "newId \<notin> ak_id ` set (ks_keys s)" "newId \<noteq> []" "fresh_raw env rawKey s" "rawKey \<noteq> []"
    and "rotate_key env clk newId rawKey i actor dto s = (Inr res, t)"
    and "r \<in> set (ks_keys s)" "ak_id r = i" and "credential_of env k r" "k \<noteq> []"
  shows "(now 0 < rr_validUntil res \<and> \<not> past (ak_expiresAt r) (now 0) \<longrightarrow>
      fst (api_key_guard env now (key_request k) t) = Inr (Some (key_user env r))) \<and>
    (rr_validUntil res \<le> now 0 \<longrightarrow> (\<exists>e. fst (api_key_guard env now (key_request k) t) = Inl e)) \<and>
    (\<not> past (ak_expiresAt (kv_row (rr_replacement res))) (now 0) \<longrightarrow>
      fst (api_key_guard env now (key_request rawKey) t) = Inr (Some ((key_user env r)\<lparr>gu_apiKeyId := Some newId\<rparr>)))"
proof -
  let ?old = "r\<lparr>ak_revokedReason := Some ''rotated'', ak_replacedById := Some newId, ak_graceExpiresAt := Some (rr_validUntil res)\<rparr>"
  from rotated_pair [OF assms(1-4,6-8)] obtain r' where
    inv: "keys_inv env t" and old: "ak_revokedAt r = None" "?old \<in> set (ks_keys t)" and
    r': "r' \<in> set (ks_keys t)" "credential_of env rawKey r'" "ak_role r' = ak_role r" "ak_scopes r' = ak_scopes r"
      "ak_ngoId r' = ak_ngoId r" "ak_id r' = newId" "ak_revokedAt r' = None" "ak_graceExpiresAt r' = None"
      "ak_expiresAt r' = ak_expiresAt (kv_row (rr_replacement res))" by blast
  have "credential_of env k ?old" using assms(9) by (simp add: credential_of_def)
  note o = guard_owner [OF inv old(2) this assms(10), of now] and n = guard_owner [OF inv r'(1,2) assms(5), of now]
  from o n old(1) r'(3-9) assms(3) show ?thesis
    by (auto simp: key_refusal_def past_def key_user_def truthy_def split: option.splits)
qed

text \<open>
  The status tells who is let in: a key opens exactly when its status is active, expiring soon or
  grace, save that a rotated key within its grace period no longer opens once it has expired.
\<close>

theorem status_tells_access:
  assumes "keys_inv env s" and "r \<in> set (ks_keys s)" and "credential_of env k r" "k \<noteq> []"
    and "\<forall>t0. ak_revokedAt r = Some t0 \<longrightarrow> t0 \<le> clk 0"
  shows "fst (api_key_guard env clk (key_request k) s) = Inr (Some (key_user env r)) \<longleftrightarrow>
    (let st = rs_status (kv_status (toAdminView env r days (clk 0)))
     in st \<in> {Key_active, Key_expiring} \<or> st = Key_grace \<and> \<not> past (ak_expiresAt r) (clk 0))"
proof -
  have wf: "rotation_wf r" using assms(1,2) by (simp add: keys_inv_def)
  have "key_refusal r (clk 0) = None \<longleftrightarrow>
    (let st = rs_status (kv_status (toAdminView env r days (clk 0)))
     in st \<in> {Key_active, Key_expiring} \<or> st = Key_grace \<and> \<not> past (ak_expiresAt r) (clk 0))"
    using wf assms(5)
    by (auto simp: key_refusal_def past_def toAdminView_def deriveRotationStatus_def Let_def rotation_wf_def
        split: option.splits if_splits)
  then show ?thesis unfolding guard_owner [OF assms(1-4)] by (auto split: option.splits)
qed

text \<open>
  A rotated key can be brought back: a key whose grace period is over is refused, but rotating it
  once more, which only the revoked ones are protected from, lets it in again.
\<close>

theorem rotated_key_revived:
  assumes "keys_inv env s" and "newId \<notin> ak_id ` set (ks_keys s)" "newId \<noteq> []" "fresh_raw env rawKey s"
    and "r \<in> set (ks_keys s)" and "credential_of env k r" "k \<noteq> []"
    and "fst (api_key_guard env clk (key_request k) s) =
      Inl (AppException UNAUTHORIZED 401 ''API key has been rotated and its grace period has ended'')"
    and "\<forall>t0. ak_revokedAt r = Some t0 \<longrightarrow> t0 \<le> clk 0"
  shows "\<exists>res t. rotate_key env clk newId rawKey (ak_id r) actor \<lparr>rk_expiresAt = None, rk_expiresInDays = None, rk_gracePeriodHours = None\<rparr> s
      = (Inr res, t) \<and> rr_validUntil res = clk 2 + rotationGraceHours env * 3600000 \<and>
    (\<forall>now. now 0 < rr_validUntil res \<and> \<not> past (ak_expiresAt r) (now 0) \<longrightarrow>
      fst (api_key_guard env now (key_request k) t) = Inr (Some (key_user env r)))"
proof -
  let ?dto = "\<lparr>rk_expiresAt = None, rk_expiresInDays = None, rk_gracePeriodHours = None\<rparr>"
  have "key_refusal r (clk 0) \<noteq> Some ''API key has been revoked''"
    using assms(8) unfolding guard_owner [OF assms(1,5,6,7)] by (auto split: option.splits)
  then have live: "ak_revokedAt r = None" using assms(9) by (auto simp: key_refusal_def past_def split: option.splits)
  have f: "find_row (key_by_id (ak_id r)) (ks_keys s) = Some r"
    using find_row_key [of ak_id "ks_keys s" r] assms(1,5) by (simp add: keys_inv_def key_by_id_def [abs_def])
  obtain res t where res: "rotate_key env clk newId rawKey (ak_id r) actor ?dto s = (Inr res, t)"
    "rr_validUntil res = clk 2 + rotationGraceHours env * 3600000"
    using f live by (simp add: rotate_key_def Let_def)
  from rotated_pair [OF assms(1-4) res(1) assms(5) refl] have inv: "keys_inv env t" and
    old: "r\<lparr>ak_revokedReason := Some ''rotated'', ak_replacedById := Some newId, ak_graceExpiresAt := Some (rr_validUntil res)\<rparr>
      \<in> set (ks_keys t)" by auto
  have "credential_of env k (r\<lparr>ak_revokedReason := Some ''rotated'', ak_replacedById := Some newId,
      ak_graceExpiresAt := Some (rr_validUntil res)\<rparr>)" using assms(6) by (simp add: credential_of_def)
  from guard_owner [OF inv old this assms(7)] live res show ?thesis
    by (auto simp: key_refusal_def past_def key_user_def split: option.splits)
qed

section \<open>Witnesses\<close>

definition demo_keys :: keys_env where
  "demo_keys = \<lparr>ke_sha256 = (\<lambda>k. ''h'' @ k), ke_readNumber = (\<lambda>_. None), ke_dateParse = (\<lambda>_. None), ke_reminderDays = None,
     ke_cooldownHours = None, ke_graceHours = None, ke_envKey = None\<rparr>"

definition demo_key :: api_key_row where
  "demo_key = new_key_row demo_keys 0 ''k1'' ''raw1'' Role_operator (serializeScopes [''read'']) None None ''unknown'' None"

definition demo_rotated :: api_key_row where
  "demo_rotated = demo_key\<lparr>ak_revokedReason := Some ''rotated'', ak_replacedById := Some ''k2'', ak_graceExpiresAt := Some 10\<rparr>"

definition key_table :: "api_key_row \<Rightarrow> keys_state" where
  "key_table r = \<lparr>ks_keys = [r], ks_audit = []\<rparr>"

lemmas demo_key_simps = demo_key_def demo_rotated_def key_table_def new_key_row_def demo_keys_def

lemma demo_key_inv: "keys_inv demo_keys (key_table demo_key)" "keys_inv demo_keys (key_table demo_rotated)"
    "keys_inv demo_keys (key_table (demo_key\<lparr>ak_revokedAt := Some 5\<rparr>))"
  by (simp_all add: keys_inv_def one_owner_def rotation_wf_def truthy_def demo_key_simps)

lemma demo_credential: "credential_of demo_keys ''raw1'' demo_key" "credential_of demo_keys ''raw1'' demo_rotated"
    "credential_of demo_keys ''raw1'' (demo_key\<lparr>ak_revokedAt := Some 5\<rparr>)"
  by (simp_all add: credential_of_def demo_key_simps)

lemma demo_fresh_raw: "fresh_raw demo_keys ''raw2'' (key_table demo_key)" "fresh_raw demo_keys ''raw2'' (key_table demo_rotated)"
  by (simp_all add: fresh_raw_def demo_key_simps)

lemma demo_table: "set (ks_keys (key_table r)) = {r}" "ak_id demo_key = ''k1''" "ak_id demo_rotated = ''k1''"
    "ak_expiresAt demo_key = None" "ak_revokedAt demo_key = None" "ak_revokedAt demo_rotated = None" "ak_expiresAt demo_rotated = None"
  by (simp_all add: demo_key_simps)

theorem revoked_key_refused_witness:
  "fst (api_key_guard demo_keys (\<lambda>n. 9) (key_request ''raw1'') (key_table (demo_key\<lparr>ak_revokedAt := Some 5\<rparr>))) =
     Inl (AppException UNAUTHORIZED 401 ''API key has been revoked'')"
  using revoked_key_refused [OF demo_key_inv(3) _ _ demo_credential(3) _ rtranclp.rtrancl_refl, of 5 "\<lambda>n. 9"] demo_table(1)
  by simp

theorem rotation_overlap_witness:
  "\<exists>res t. rotate_key demo_keys (\<lambda>n. 7) ''k2'' ''raw2'' ''k1'' None
       \<lparr>rk_expiresAt = None, rk_expiresInDays = None, rk_gracePeriodHours = None\<rparr> (key_table demo_key) = (Inr res, t) \<and>
     fst (api_key_guard demo_keys (\<lambda>n. 8) (key_request ''raw1'') t) = Inr (Some (key_user demo_keys demo_key)) \<and>
     (\<exists>e. fst (api_key_guard demo_keys (\<lambda>n. rr_validUntil res) (key_request ''raw1'') t) = Inl e)"
proof -
  let ?dto = "\<lparr>rk_expiresAt = None, rk_expiresInDays = None, rk_gracePeriodHours = None\<rparr>"
  obtain res t where r: "rotate_key demo_keys (\<lambda>n. 7) ''k2'' ''raw2'' ''k1'' None ?dto (key_table demo_key) = (Inr res, t)"
    "rr_validUntil res = 7 + 24 * 3600000"
    by (simp add: rotate_key_def Let_def find_row_Cons key_by_id_def demo_key_simps rotationGraceHours_def
        DEFAULT_API_KEY_ROTATION_GRACE_HOURS_def)
  note o = rotation_overlap [OF demo_key_inv(1) _ _ demo_fresh_raw(1) _ r(1) _ _ demo_credential(1)]
  from o [of "\<lambda>n. 8"] o [of "\<lambda>n. rr_validUntil res"] r demo_table show ?thesis by (auto simp: past_def)
qed

theorem status_tells_access_witness:
  "fst (api_key_guard demo_keys (\<lambda>n. 9) (key_request ''raw1'') (key_table demo_key)) = Inr (Some (key_user demo_keys demo_key))"
proof -
  have "rs_status (kv_status (toAdminView demo_keys demo_key 14 9)) = Key_active"
    by (simp add: toAdminView_def deriveRotationStatus_def demo_key_simps truthy_def Let_def)
  with status_tells_access [OF demo_key_inv(1) _ demo_credential(1), of "\<lambda>n. 9" 14] demo_table show ?thesis by simp
qed

theorem rotated_key_revived_witness:
  "\<exists>res t. rotate_key demo_keys (\<lambda>n. 20) ''k3'' ''raw2'' ''k1'' None
       \<lparr>rk_expiresAt = None, rk_expiresInDays = None, rk_gracePeriodHours = None\<rparr> (key_table demo_rotated) = (Inr res, t) \<and>
     fst (api_key_guard demo_keys (\<lambda>n. 21) (key_request ''raw1'') t) = Inr (Some (key_user demo_keys demo_rotated))"
proof -
  have "key_refusal demo_rotated 20 = Some ''API key has been rotated and its grace period has ended''"
    by (simp add: key_refusal_def past_def truthy_def demo_key_simps)
  then have "fst (api_key_guard demo_keys (\<lambda>n. 20) (key_request ''raw1'') (key_table demo_rotated)) =
      Inl (AppException UNAUTHORIZED 401 ''API key has been rotated and its grace period has ended'')"
    using guard_owner [OF demo_key_inv(2) _ demo_credential(2), of "\<lambda>n. 20"] demo_table by simp
  from rotated_key_revived [OF demo_key_inv(2) _ _ demo_fresh_raw(2) _ demo_credential(2) _ this, of "''k3''" None] demo_table
  obtain res t where r: "rotate_key demo_keys (\<lambda>n. 20) ''k3'' ''raw2'' ''k1'' None
      \<lparr>rk_expiresAt = None, rk_expiresInDays = None, rk_gracePeriodHours = None\<rparr> (key_table demo_rotated) = (Inr res, t)"
    "rr_validUntil res = 20 + rotationGraceHours demo_keys * 3600000"
    "\<And>now. now 0 < rr_validUntil res \<Longrightarrow> fst (api_key_guard demo_keys now (key_request ''raw1'') t) = Inr (Some (key_user demo_keys demo_rotated))"
    by (auto simp: past_def)
  have "21 < rr_validUntil res"
    using r(2) by (simp add: rotationGraceHours_def demo_keys_def DEFAULT_API_KEY_ROTATION_GRACE_HOURS_def)
  with r(1) r(3) [of "\<lambda>n. 21"] show ?thesis by auto
qed

end
