(* ===== verification/RequestGuards.thy ===== *)
theory RequestGuards
  imports ApiKeyRules
begin

text \<open>
  What a request passes before its handler runs, in the order of \<open>app.module.ts\<close>: \<open>ApiKeyGuard\<close> (the
  theory \<open>ApiKeys\<close>), \<open>auth/roles.guard.ts\<close>, \<open>api-keys/scopes.guard.ts\<close>,
  \<open>common/guards/api-key-rate-limit.guard.ts\<close> and \<open>common/guards/adaptive-rate-limit.guard.ts\<close> with the
  policies of \<open>config/rate-limit.config.ts\<close>. What the decorators of a route say is an argument, so are the settings and
  the environment variables. Redis is a table of counters with the instant each one ends. The response
  headers, metrics and log lines are left out, and so is the last guard, the throttler of a package.
\<close>

section \<open>Roles and scopes\<close>

definition roles_guard :: "app_role list option \<Rightarrow> guard_user option \<Rightarrow> app_error + unit" where
  "roles_guard requiredRoles user =
     (case requiredRoles of
        None \<Rightarrow> Inr ()
      | Some roles \<Rightarrow>
          (case user of
             Some u \<Rightarrow> if gu_role u \<in> set roles then Inr () else Inl (AppException FORBIDDEN 403 ''Access denied: insufficient role'')
           | None \<Rightarrow> Inl (AppException FORBIDDEN 403 ''Access denied: insufficient role'')))"

definition SCOPE_HIERARCHY :: "string \<Rightarrow> nat" where
  "SCOPE_HIERARCHY s = (if s = ''read'' then 1 else if s = ''write'' then 2 else if s = ''admin'' then 3
     else if s = ''webhook'' then 4 else 0)"

fun check_scopes :: "string list \<Rightarrow> nat \<Rightarrow> string list \<Rightarrow> app_error + unit" where
  "check_scopes granted maxGrantedLevel [] = Inr ()"
| "check_scopes granted maxGrantedLevel (required # rest) =
     (if required = ''webhook'' then
        (if ''webhook'' \<notin> set granted then Inl (AppException FORBIDDEN 403 ''Access denied: webhook scope required'')
         else check_scopes granted maxGrantedLevel rest)
      else if maxGrantedLevel < SCOPE_HIERARCHY required then
        Inl (AppException FORBIDDEN 403 ''Access denied: insufficient API key scope'')
      else check_scopes granted maxGrantedLevel rest)"

definition scopes_guard :: "string list \<Rightarrow> guard_user option \<Rightarrow> app_error + unit" where
  "scopes_guard requiredScopes user =
     (if requiredScopes = [] then Inr ()
      else case user of
          None \<Rightarrow> Inl (AppException FORBIDDEN 403 ''Access denied: no authenticated user'')
        | Some u \<Rightarrow>
            if gu_scopes u = [] then Inl (AppException FORBIDDEN 403 ''Access denied: no API key scopes'')
            else check_scopes (gu_scopes u) (foldr max (map SCOPE_HIERARCHY (gu_scopes u)) 0) requiredScopes)"

section \<open>Counters\<close>

record rate_counter =
  rc_count :: nat
  rc_endsAt :: "time option"

type_synonym counters = "string \<rightharpoonup> rate_counter"

definition live_counter :: "time \<Rightarrow> string \<Rightarrow> counters \<Rightarrow> rate_counter option" where
  "live_counter now key m = (case m key of
     None \<Rightarrow> None
   | Some c \<Rightarrow> (case rc_endsAt c of None \<Rightarrow> Some c | Some e \<Rightarrow> if e \<le> now then None else Some c))"

definition incr :: "time \<Rightarrow> string \<Rightarrow> counters \<Rightarrow> nat \<times> counters" where
  "incr now key m = (case live_counter now key m of
     None \<Rightarrow> (1, m(key \<mapsto> \<lparr>rc_count = 1, rc_endsAt = None\<rparr>))
   | Some c \<Rightarrow> (rc_count c + 1, m(key \<mapsto> c\<lparr>rc_count := rc_count c + 1\<rparr>)))"

definition expire_in :: "time \<Rightarrow> string \<Rightarrow> int \<Rightarrow> counters \<Rightarrow> counters" where
  "expire_in now key seconds m = (case live_counter now key m of
     None \<Rightarrow> m | Some c \<Rightarrow> m(key \<mapsto> c\<lparr>rc_endsAt := Some (now + seconds * 1000)\<rparr>))"

section \<open>The limit of a key\<close>

definition upper_char :: "char \<Rightarrow> char" where
  "upper_char c = (if 97 \<le> (of_char c :: nat) \<and> (of_char c :: nat) \<le> 122 then char_of ((of_char c :: nat) - 32) else c)"

definition DEFAULT_SCOPE_LIMITS :: "string \<Rightarrow> int \<times> int" where
  "DEFAULT_SCOPE_LIMITS s = (if s = ''read'' then (200, 60) else if s = ''write'' then (100, 60)
     else if s = ''admin'' then (300, 60) else if s = ''webhook'' then (500, 60) else (100, 60))"

definition parsePositive :: "string option \<Rightarrow> int \<Rightarrow> int" where
  "parsePositive raw fallback = (case raw of
     None \<Rightarrow> fallback
   | Some t \<Rightarrow> (case parse_int t of Some n \<Rightarrow> if 0 < n then n else fallback | None \<Rightarrow> fallback))"

definition getScopeLimitConfig :: "(string \<Rightarrow> string option) \<Rightarrow> string \<Rightarrow> int \<times> int" where
  "getScopeLimitConfig config scope =
     (let envPrefix = ''RATE_LIMIT_SCOPE_'' @ map upper_char scope
      in (parsePositive (config (envPrefix @ ''_LIMIT'')) (fst (DEFAULT_SCOPE_LIMITS scope)),
          parsePositive (config (envPrefix @ ''_WINDOW'')) (snd (DEFAULT_SCOPE_LIMITS scope))))"

text \<open>The lowest limit of the scopes; \<open>None\<close> stands for \<open>Infinity\<close>.\<close>

fun lowest_limit :: "(string \<Rightarrow> string option) \<Rightarrow> string list \<Rightarrow> (int \<times> int) option \<Rightarrow> (int \<times> int) option" where
  "lowest_limit config [] best = best"
| "lowest_limit config (s # ss) best =
     lowest_limit config ss (case best of
         None \<Rightarrow> Some (getScopeLimitConfig config s)
       | Some b \<Rightarrow> if fst (getScopeLimitConfig config s) < fst b then Some (getScopeLimitConfig config s) else Some b)"

definition resolveLimit :: "(string \<Rightarrow> string option) \<Rightarrow> string list \<Rightarrow> int \<times> int" where
  "resolveLimit config scopes = (case lowest_limit config scopes None of None \<Rightarrow> (100, 60) | Some b \<Rightarrow> b)"

definition perkey :: "guard_user \<Rightarrow> string" where
  "perkey u = ''ratelimit:perkey:'' @ the (gu_apiKeyId u)"

definition key_rate_guard ::
  "(string \<Rightarrow> string option) \<Rightarrow> bool \<Rightarrow> bool \<Rightarrow> time \<Rightarrow> guard_user option \<Rightarrow> counters \<Rightarrow> (app_error + unit) \<times> counters" where
  "key_rate_guard config isPublic skipThrottle now user m =
     (if isPublic \<or> skipThrottle then (Inr (), m)
      else case user of
          None \<Rightarrow> (Inr (), m)
        | Some u \<Rightarrow>
            if \<not> truthy (gu_apiKeyId u) \<or> (gu_authType u \<noteq> ''apiKey'' \<and> gu_authType u \<noteq> ''envApiKey'') then (Inr (), m)
            else
              let (limit, windowSec) = resolveLimit config (gu_scopes u);
                  key = perkey u;
                  (current, m1) = incr now key m;
                  m2 = (if current = 1 then expire_in now key windowSec m1 else m1)
              in (if limit < int current then
                    Inl (AppException API_KEY_RATE_LIMIT_EXCEEDED 429 ''API key rate limit exceeded. Please try again later.'')
                  else Inr (), m2))"

section \<open>The limit of a caller\<close>

record rate_policy =
  rp_limit :: int
  rp_window :: int
  rp_keyPrefix :: string
  rp_enabled :: bool

datatype policy_name = P_default | P_public | P_auth | P_apiKey | P_admin | P_webhook | P_search | P_health

fun policy_key :: "policy_name \<Rightarrow> string" where
  "policy_key P_default = ''default''"
| "policy_key P_public = ''public''"
| "policy_key P_auth = ''auth''"
| "policy_key P_apiKey = ''apiKey''"
| "policy_key P_admin = ''admin''"
| "policy_key P_webhook = ''webhook''"
| "policy_key P_search = ''search''"
| "policy_key P_health = ''health''"

fun env_prefix :: "policy_name \<Rightarrow> string" where
  "env_prefix P_default = ''RATE_LIMIT_DEFAULT''"
| "env_prefix P_public = ''RATE_LIMIT_PUBLIC''"
| "env_prefix P_auth = ''RATE_LIMIT_AUTH''"
| "env_prefix P_apiKey = ''RATE_LIMIT_API_KEY''"
| "env_prefix P_admin = ''RATE_LIMIT_ADMIN''"
| "env_prefix P_webhook = ''RATE_LIMIT_WEBHOOK''"
| "env_prefix P_search = ''RATE_LIMIT_SEARCH''"
| "env_prefix P_health = ''RATE_LIMIT_HEALTH''"

text \<open>A policy as the configuration is put together: any of its members may be missing.\<close>

record partial_policy =
  pp_limit :: "int option"
  pp_window :: "int option"
  pp_keyPrefix :: "string option"
  pp_enabled :: "bool option"

definition DEFAULT_POLICIES :: "policy_name \<Rightarrow> partial_policy" where
  "DEFAULT_POLICIES p =
     (let pol = (\<lambda>l k. \<lparr>pp_limit = Some l, pp_window = Some 60, pp_keyPrefix = k, pp_enabled = Some True\<rparr>)
      in case p of P_default \<Rightarrow> pol 10 None | P_public \<Rightarrow> pol 10 (Some ''public'') | P_auth \<Rightarrow> pol 30 (Some ''auth'')
         | P_apiKey \<Rightarrow> pol 100 (Some ''apikey'') | P_admin \<Rightarrow> pol 200 (Some ''admin'') | P_webhook \<Rightarrow> pol 500 (Some ''webhook'')
         | P_search \<Rightarrow> pol 20 (Some ''search'') | P_health \<Rightarrow> pol 1000 (Some ''health''))"

definition mode_limit :: "string \<Rightarrow> policy_name \<Rightarrow> int option" where
  "mode_limit mode p =
     (if mode = ''development'' \<or> mode = ''test'' then
        (case p of P_default \<Rightarrow> Some 20 | P_public \<Rightarrow> Some 20 | P_auth \<Rightarrow> Some 50 | P_apiKey \<Rightarrow> Some 200 | P_admin \<Rightarrow> Some 500 | _ \<Rightarrow> None)
      else if mode = ''production'' then
        (case p of P_default \<Rightarrow> Some 5 | P_public \<Rightarrow> Some 5 | P_auth \<Rightarrow> Some 20 | P_apiKey \<Rightarrow> Some 50 | P_admin \<Rightarrow> Some 100
         | P_webhook \<Rightarrow> Some 200 | _ \<Rightarrow> None)
      else None)"

definition getEnvOverrides :: "(string \<Rightarrow> string option) \<Rightarrow> policy_name \<Rightarrow> partial_policy option" where
  "getEnvOverrides env p =
     (let mode = (if truthy (env ''NODE_ENV'') then the (env ''NODE_ENV'') else ''development'');
          number = (\<lambda>n. case env n of None \<Rightarrow> None | Some t \<Rightarrow> parse_int t);
          limit = number (env_prefix p @ ''_LIMIT'');
          window = number (env_prefix p @ ''_WINDOW'');
          enabled = env (env_prefix p @ ''_ENABLED'')
      in if limit \<noteq> None \<or> window \<noteq> None \<or> enabled \<noteq> None then
           Some \<lparr>pp_limit = limit, pp_window = window, pp_keyPrefix = None, pp_enabled = map_option (\<lambda>t. t \<noteq> ''false'') enabled\<rparr>
         else case mode_limit mode p of
             Some l \<Rightarrow> Some \<lparr>pp_limit = Some l, pp_window = Some 60, pp_keyPrefix = None, pp_enabled = None\<rparr>
           | None \<Rightarrow> None)"

definition rate_config :: "(string \<Rightarrow> string option) \<Rightarrow> policy_name \<Rightarrow> rate_policy" where
  "rate_config env p =
     (let merged = (case getEnvOverrides env p of None \<Rightarrow> DEFAULT_POLICIES p | Some o' \<Rightarrow> o')
      in \<lparr>rp_limit = (case pp_limit merged of None \<Rightarrow> 10 | Some l \<Rightarrow> l),
          rp_window = (case pp_window merged of None \<Rightarrow> 60 | Some w \<Rightarrow> w),
          rp_keyPrefix = (case pp_keyPrefix merged of None \<Rightarrow> policy_key p | Some k \<Rightarrow> k),
          rp_enabled = (case pp_enabled merged of None \<Rightarrow> True | Some b \<Rightarrow> b)\<rparr>)"

datatype user_type = U_public | U_auth | U_apiKey | U_admin

fun user_type_name :: "user_type \<Rightarrow> string" where
  "user_type_name U_public = ''public''"
| "user_type_name U_auth = ''auth''"
| "user_type_name U_apiKey = ''apiKey''"
| "user_type_name U_admin = ''admin''"

text \<open>No route has a policy of its own: the table \<open>endpoints\<close> is empty.\<close>

definition getRateLimitPolicy :: "(policy_name \<Rightarrow> rate_policy) \<Rightarrow> string \<Rightarrow> user_type \<Rightarrow> rate_policy" where
  "getRateLimitPolicy config path userType =
     (if userType = U_admin then config P_admin
      else if userType = U_apiKey then config P_apiKey
      else if userType = U_auth then config P_auth
      else if str_includes path ''/search'' then config P_search
      else if str_includes path ''/health'' then config P_health
      else if str_includes path ''/webhooks'' then config P_webhook
      else config P_public)"

definition getUserType :: "guard_user option \<Rightarrow> user_type" where
  "getUserType user = (case user of
     None \<Rightarrow> U_public
   | Some u \<Rightarrow> if gu_role u = Role_admin then U_admin
       else if gu_authType u = ''apiKey'' \<or> gu_authType u = ''envApiKey'' then U_apiKey
       else if gu_authType u = ''jwt'' \<or> gu_authType u = ''wallet'' then U_auth
       else U_public)"

definition getPolicyForRequest :: "(policy_name \<Rightarrow> rate_policy) \<Rightarrow> string \<Rightarrow> user_type \<Rightarrow> rate_policy" where
  "getPolicyForRequest config path userType =
     (if str_includes path ''/search'' then config P_search else getRateLimitPolicy config path userType)"

record caller_address =
  ca_forwardedFor :: "string option"
  ca_ips :: "string list"
  ca_ip :: "string option"

fun first_part :: "string \<Rightarrow> string" where
  "first_part [] = []"
| "first_part (c # cs) = (if c = CHR '','' then [] else c # first_part cs)"

definition address_id :: "caller_address \<Rightarrow> string" where
  "address_id addr =
     (let forwarded = (case ca_forwardedFor addr of None \<Rightarrow> [] | Some f \<Rightarrow> trim (first_part f))
      in if forwarded \<noteq> [] then ''ip:'' @ forwarded
         else if ca_ips addr \<noteq> [] then ''ip:'' @ hd (ca_ips addr)
         else if truthy (ca_ip addr) then ''ip:'' @ the (ca_ip addr)
         else ''ip:anonymous'')"

text \<open>The guards before it set no user id, so a caller is known by its key or its address.\<close>

definition getIdentifier :: "caller_address \<Rightarrow> guard_user option \<Rightarrow> string" where
  "getIdentifier addr user = (case user of
     None \<Rightarrow> address_id addr
   | Some u \<Rightarrow> if truthy (gu_apiKeyId u) then ''apikey:'' @ the (gu_apiKeyId u) else address_id addr)"

definition caller_rate_guard ::
  "(policy_name \<Rightarrow> rate_policy) \<Rightarrow> time \<Rightarrow> string \<Rightarrow> caller_address \<Rightarrow> guard_user option \<Rightarrow> counters
   \<Rightarrow> (app_error + unit) \<times> counters" where
  "caller_rate_guard config now path addr user m =
     (let userType = getUserType user; policy = getPolicyForRequest config path userType
      in if \<not> rp_enabled policy then (Inr (), m)
         else
           let key = ''ratelimit:'' @ (if rp_keyPrefix policy \<noteq> [] then rp_keyPrefix policy else user_type_name userType)
                 @ '':'' @ getIdentifier addr user;
               (current, m1) = incr now key m;
               m2 = (if current = 1 then expire_in now key (rp_window policy) m1 else m1)
           in (if rp_limit policy < int current then
                 Inl (AppException RATE_LIMIT_EXCEEDED 429 ''Too many requests, please try again later.'')
               else Inr (), m2))"

section \<open>The guards in a row\<close>

record route_info =
  rt_public :: bool
  rt_skipThrottle :: bool
  rt_roles :: "app_role list option"
  rt_scopes :: "string list"
  rt_path :: string

record guards_env =
  ge_keys :: keys_env
  ge_config :: "string \<Rightarrow> string option"
  ge_environment :: "string \<Rightarrow> string option"

record door_state =
  do_keys :: keys_state
  do_counters :: counters

definition admit ::
  "guards_env \<Rightarrow> clock \<Rightarrow> route_info \<Rightarrow> string option \<Rightarrow> caller_address \<Rightarrow> door_state \<Rightarrow> (app_error + guard_user option) \<times> door_state" where
  "admit env clk route apiKey addr s =
     (case api_key_guard (ge_keys env) clk \<lparr>gr_public = rt_public route, gr_apiKey = apiKey\<rparr> (do_keys s) of
        (Inl e, ks) \<Rightarrow> (Inl e, s\<lparr>do_keys := ks\<rparr>)
      | (Inr user, ks) \<Rightarrow>
          (case roles_guard (rt_roles route) user of
             Inl e \<Rightarrow> (Inl e, s\<lparr>do_keys := ks\<rparr>)
           | Inr u1 \<Rightarrow>
               (case scopes_guard (rt_scopes route) user of
                  Inl e \<Rightarrow> (Inl e, s\<lparr>do_keys := ks\<rparr>)
                | Inr u2 \<Rightarrow>
                    (case key_rate_guard (ge_config env) (rt_public route) (rt_skipThrottle route) (clk 2) user (do_counters s) of
                       (Inl e, m1) \<Rightarrow> (Inl e, s\<lparr>do_keys := ks, do_counters := m1\<rparr>)
                     | (Inr u3, m1) \<Rightarrow>
                         (case caller_rate_guard (rate_config (ge_environment env)) (clk 3) (rt_path route) addr user m1 of
                            (Inl e, m2) \<Rightarrow> (Inl e, s\<lparr>do_keys := ks, do_counters := m2\<rparr>)
                          | (Inr u4, m2) \<Rightarrow> (Inr user, s\<lparr>do_keys := ks, do_counters := m2\<rparr>))))))"

section \<open>Scopes\<close>

lemma foldr_max_ge: "(\<exists>x \<in> set xs. k \<le> f x) \<or> k = 0 \<longleftrightarrow> k \<le> foldr max (map f xs) (0 :: nat)"
  by (induction xs) (auto simp: le_max_iff_disj)

lemma check_scopes_iff:
  "check_scopes granted lvl required = Inr () \<longleftrightarrow>
     (\<forall>r \<in> set required. if r = ''webhook'' then ''webhook'' \<in> set granted else SCOPE_HIERARCHY r \<le> lvl)"
  by (induction required) auto

text \<open>
  Which scopes open a required one, written out. The webhook scope is in every row: the guard ranks it above the
  admin scope. A scope that is none of the four asks for nothing but some scope.
\<close>

definition sufficient_scopes :: "(string \<times> string list) list" where
  "sufficient_scopes =
     [(''read'', [''read'', ''write'', ''admin'', ''webhook'']),
      (''write'', [''write'', ''admin'', ''webhook'']),
      (''admin'', [''admin'', ''webhook'']),
      (''webhook'', [''webhook''])]"

definition scopes_cover :: "string list \<Rightarrow> string list \<Rightarrow> bool" where
  "scopes_cover granted required \<longleftrightarrow> required = [] \<or> granted \<noteq> [] \<and>
     (\<forall>r \<in> set required. \<forall>sufficient. map_of sufficient_scopes r = Some sufficient \<longrightarrow> set granted \<inter> set sufficient \<noteq> {})"

lemma sufficient_iff:
  "(\<forall>sufficient. map_of sufficient_scopes r = Some sufficient \<longrightarrow> set granted \<inter> set sufficient \<noteq> {}) \<longleftrightarrow>
     (if r = ''webhook'' then ''webhook'' \<in> set granted
      else SCOPE_HIERARCHY r = 0 \<or> (\<exists>g \<in> set granted. SCOPE_HIERARCHY r \<le> SCOPE_HIERARCHY g))"
  by (auto simp: sufficient_scopes_def SCOPE_HIERARCHY_def split: if_splits)

lemma scopes_open_iff: "scopes_guard required (Some u) = Inr () \<longleftrightarrow> scopes_cover (gu_scopes u) required"
  using foldr_max_ge [of "gu_scopes u" _ SCOPE_HIERARCHY]
  by (auto simp: scopes_guard_def check_scopes_iff scopes_cover_def sufficient_iff)

text \<open>
  The webhook scope opens everything: it ranks above the admin scope, so a key that was given it
  alone passes the scope check of every route.
\<close>

theorem webhook_scope_opens_all:
  assumes "''webhook'' \<in> set (gu_scopes u)"
  shows "scopes_guard required (Some u) = Inr ()"
proof -
  have "SCOPE_HIERARCHY r \<le> SCOPE_HIERARCHY ''webhook''" for r by (simp add: SCOPE_HIERARCHY_def)
  then have "SCOPE_HIERARCHY r \<le> foldr max (map SCOPE_HIERARCHY (gu_scopes u)) 0" for r
    using foldr_max_ge [of "gu_scopes u" "SCOPE_HIERARCHY r" SCOPE_HIERARCHY] assms by blast
  with assms show ?thesis by (auto simp: scopes_guard_def check_scopes_iff)
qed

definition webhook_user :: guard_user where
  "webhook_user = \<lparr>gu_role = Role_admin, gu_ngoId = None, gu_apiKeyId = Some ''k1'', gu_authType = ''apiKey'', gu_scopes = [''webhook'']\<rparr>"

theorem webhook_scope_opens_all_witness: "scopes_guard [''admin''] (Some webhook_user) = Inr ()"
  using webhook_scope_opens_all [of webhook_user] by (simp add: webhook_user_def)

section \<open>Rates\<close>

text \<open>One counter: the count of a request at \<open>t\<close>, and the counter after it.\<close>

definition counts_on :: "time \<Rightarrow> rate_counter option \<Rightarrow> bool" where
  "counts_on t co \<longleftrightarrow> (case co of None \<Rightarrow> False
     | Some c \<Rightarrow> (case rc_endsAt c of None \<Rightarrow> True | Some e \<Rightarrow> t < e) \<and> rc_count c \<noteq> 0)"

definition tick :: "int \<Rightarrow> time \<Rightarrow> rate_counter option \<Rightarrow> rate_counter" where
  "tick seconds t co =
     (if counts_on t co then (the co)\<lparr>rc_count := rc_count (the co) + 1\<rparr>
      else \<lparr>rc_count = 1, rc_endsAt = Some (t + seconds * 1000)\<rparr>)"

lemma count_request:
  "(let (current, m1) = incr t key m; m2 = (if current = 1 then expire_in t key seconds m1 else m1) in (current, m2)) =
     (rc_count (tick seconds t (m key)), m(key \<mapsto> tick seconds t (m key)))"
proof (cases "live_counter t key m")
  case None
  then show ?thesis
    by (auto simp: incr_def expire_in_def tick_def counts_on_def Let_def live_counter_def split: option.splits if_splits)
next
  case (Some c)
  then show ?thesis
    by (auto simp: incr_def expire_in_def tick_def counts_on_def Let_def live_counter_def split: option.splits if_splits)
qed

text \<open>The instants at which the requests of one key are let through.\<close>

fun let_through :: "(string \<Rightarrow> string option) \<Rightarrow> guard_user \<Rightarrow> time list \<Rightarrow> counters \<Rightarrow> time list" where
  "let_through config u [] m = []"
| "let_through config u (t # ts) m =
     (case key_rate_guard config False False t (Some u) m of
        (Inr x, m1) \<Rightarrow> t # let_through config u ts m1
      | (Inl e, m1) \<Rightarrow> let_through config u ts m1)"

fun ticks_through :: "int \<Rightarrow> int \<Rightarrow> time list \<Rightarrow> rate_counter option \<Rightarrow> time list" where
  "ticks_through limit seconds [] co = []"
| "ticks_through limit seconds (t # ts) co =
     (let c = tick seconds t co
      in if limit < int (rc_count c) then ticks_through limit seconds ts (Some c) else t # ticks_through limit seconds ts (Some c))"

definition keyed :: "guard_user \<Rightarrow> bool" where
  "keyed u \<longleftrightarrow> truthy (gu_apiKeyId u) \<and> (gu_authType u = ''apiKey'' \<or> gu_authType u = ''envApiKey'')"

lemma let_through_ticks:
  assumes "keyed u"
  shows "let_through config u ts m = ticks_through (fst (resolveLimit config (gu_scopes u))) (snd (resolveLimit config (gu_scopes u)))
    ts (m (perkey u))"
proof (induction ts arbitrary: m)
  case (Cons t ts)
  let ?l = "fst (resolveLimit config (gu_scopes u))" and ?w = "snd (resolveLimit config (gu_scopes u))"
    and ?k = "perkey u"
  let ?c = "tick ?w t (m ?k)"
  have "key_rate_guard config False False t (Some u) m = (if ?l < int (rc_count ?c)
      then Inl (AppException API_KEY_RATE_LIMIT_EXCEEDED 429 ''API key rate limit exceeded. Please try again later.'') else Inr (),
      m(?k \<mapsto> ?c))"
    using assms count_request [of t ?k m ?w]
    by (auto simp: key_rate_guard_def keyed_def Let_def split: prod.splits)
  moreover have "let_through config u ts (m(?k \<mapsto> ?c)) = ticks_through ?l ?w ts (Some ?c)"
    using Cons [of "m(?k \<mapsto> ?c)"] by (simp only: fun_upd_same)
  ultimately show ?case by (simp add: Let_def)
qed simp

lemma ticks_sub: "set (ticks_through l w ts co) \<subseteq> set ts"
  by (induction ts arbitrary: co) (auto simp: Let_def)

fun ticks_after :: "int \<Rightarrow> time list \<Rightarrow> rate_counter option \<Rightarrow> rate_counter option" where
  "ticks_after w [] co = co"
| "ticks_after w (t # ts) co = ticks_after w ts (Some (tick w t co))"

lemma ticks_append: "ticks_through l w (ts @ us) co = ticks_through l w ts co @ ticks_through l w us (ticks_after w ts co)"
  by (induction ts arbitrary: co) (auto simp: Let_def)

text \<open>While a counter lives, it lets through what is left of the limit.\<close>

lemma one_life:
  assumes "\<And>t. t \<in> set ts \<Longrightarrow> case rc_endsAt c of None \<Rightarrow> True | Some e \<Rightarrow> t < e" and "rc_count c \<noteq> 0"
  shows "length (ticks_through l w ts (Some c)) \<le> nat l - rc_count c"
  using assms
proof (induction ts arbitrary: c)
  case (Cons t ts)
  have t: "tick w t (Some c) = c\<lparr>rc_count := rc_count c + 1\<rparr>"
    using Cons.prems(1) [of t] Cons.prems(2) by (simp add: tick_def counts_on_def)
  have "length (ticks_through l w ts (Some (c\<lparr>rc_count := rc_count c + 1\<rparr>))) \<le> nat l - (rc_count c + 1)"
    using Cons.IH [of "c\<lparr>rc_count := rc_count c + 1\<rparr>"] Cons.prems(1) by simp
  with t show ?case by (auto simp: Let_def)
qed simp

text \<open>An interval as long as a window sees the end of one life and the beginning of one more.\<close>

lemma new_life:
  assumes "\<And>t. t \<in> set ts \<Longrightarrow> t < t0 + w * 1000"
  shows "length (ticks_through l w ts (Some \<lparr>rc_count = 1, rc_endsAt = Some (t0 + w * 1000)\<rparr>)) \<le> nat l - 1"
  using one_life [of ts "\<lparr>rc_count = 1, rc_endsAt = Some (t0 + w * 1000)\<rparr>" l w] assms by simp

lemma two_lives:
  assumes "\<And>t. t \<in> set ts \<Longrightarrow> a \<le> t \<and> t < a + w * 1000"
  shows "length (ticks_through l w ts co) \<le> nat l + (nat l - (case co of None \<Rightarrow> 0 | Some c \<Rightarrow> rc_count c))"
  using assms
proof (induction ts arbitrary: co)
  case (Cons t ts)
  show ?case
  proof (cases "counts_on t co")
    case True
    then obtain c where c: "co = Some c" by (auto simp: counts_on_def split: option.splits)
    with True have "tick w t co = c\<lparr>rc_count := rc_count c + 1\<rparr>" by (simp add: tick_def)
    with Cons.IH [of "Some (c\<lparr>rc_count := rc_count c + 1\<rparr>)"] Cons.prems c show ?thesis by (auto simp: Let_def)
  next
    case False
    then have t: "tick w t co = \<lparr>rc_count = 1, rc_endsAt = Some (t + w * 1000)\<rparr>" by (simp add: tick_def)
    have "u < t + w * 1000" if "u \<in> set ts" for u using Cons.prems [of u] Cons.prems [of t] that by simp
    then have "length (ticks_through l w ts (Some \<lparr>rc_count = 1, rc_endsAt = Some (t + w * 1000)\<rparr>)) \<le> nat l - 1"
      by (rule new_life)
    with t show ?thesis by (auto simp: Let_def)
  qed
qed simp

lemma sorted_split: "sorted ts \<Longrightarrow> ts = filter (\<lambda>t. t < a) ts @ filter (\<lambda>t. \<not> t < a) (ts :: int list)"
proof (induction ts)
  case (Cons t ts)
  have "filter (\<lambda>u. u < a) ts = []" if "\<not> t < a" using Cons.prems that by (auto simp: filter_empty_conv)
  with Cons show ?case by auto
qed simp

text \<open>
  C40. A key is limited: in any stretch of time as long as the window, at most twice the limit of
  requests is let through, whatever came before. (The counter is one of fixed windows: twice the
  limit is reached around the end of a window.)
\<close>

theorem key_rate_limited:
  assumes "sorted ts" and "keyed u" and "w = snd (resolveLimit config (gu_scopes u)) * 1000"
  shows "length (filter (\<lambda>t. a \<le> t \<and> t < a + w) (let_through config u ts m))
    \<le> 2 * nat (fst (resolveLimit config (gu_scopes u)))"
proof -
  let ?l = "fst (resolveLimit config (gu_scopes u))" and ?s = "snd (resolveLimit config (gu_scopes u))"
  define before where "before = filter (\<lambda>t. t < a) ts"
  define rest where "rest = filter (\<lambda>t. \<not> t < a) ts"
  define inside where "inside = filter (\<lambda>t. t < a + w) rest"
  define later where "later = filter (\<lambda>t. \<not> t < a + w) rest"
  have "ts = before @ inside @ later"
    using sorted_split [OF assms(1), of a] sorted_split [OF sorted_wrt_filter [OF assms(1), of "\<lambda>t. \<not> t < a"], of "a + w"]
    by (simp only: before_def inside_def later_def rest_def)
  then obtain co co' where "let_through config u ts m = ticks_through ?l ?s before (m (perkey u))
      @ ticks_through ?l ?s inside co @ ticks_through ?l ?s later co'"
    using let_through_ticks [OF assms(2)] by (metis ticks_append)
  moreover have "filter (\<lambda>t. a \<le> t \<and> t < a + w) (ticks_through ?l ?s before co0) = []"
    "filter (\<lambda>t. a \<le> t \<and> t < a + w) (ticks_through ?l ?s later co0) = []" for co0
    using ticks_sub [of ?l ?s before co0] ticks_sub [of ?l ?s later co0]
    by (auto simp: filter_empty_conv before_def later_def rest_def)
  moreover have "length (ticks_through ?l ?s inside co) \<le> nat ?l + (nat ?l - (case co of None \<Rightarrow> 0 | Some c \<Rightarrow> rc_count c))"
    by (rule two_lives [where a = a]) (simp add: inside_def rest_def assms(3))
  then have "length (ticks_through ?l ?s inside co) \<le> 2 * nat ?l" by simp
  then have "length (filter (\<lambda>t. a \<le> t \<and> t < a + w) (ticks_through ?l ?s inside co)) \<le> 2 * nat ?l"
    using length_filter_le order.trans by blast
  ultimately show ?thesis by simp
qed

text \<open>
  C16. Whoever is let in is entitled to it: a request admitted on a route that is not public carried
  the key of a row that is neither revoked nor expired nor rotated out, or the one of the environment,
  which counts as an administrator with the admin scope; its role is one of the route's, and for each scope
  the route requires it has a sufficient one: read is opened by read, write, admin and webhook, write by write,
  admin and webhook, admin by admin and webhook, and webhook by webhook. (That webhook opens everything is the
  guard's ranking, \<open>webhook_scope_opens_all\<close>.)
\<close>

theorem admitted_are_entitled:
  assumes "admit env clk route apiKey addr s = (Inr user, t)" and "\<not> rt_public route"
  shows "\<exists>u k. user = Some u \<and> apiKey = Some k \<and> k \<noteq> [] \<and>
    ((\<exists>r \<in> set (ks_keys (do_keys s)). credential_of (ge_keys env) k r \<and> key_refusal r (clk 0) = None \<and> u = key_user (ge_keys env) r) \<or>
     ke_envKey (ge_keys env) = Some k \<and> gu_role u = Role_admin \<and> gu_scopes u = [''admin'']) \<and>
    (\<forall>roles. rt_roles route = Some roles \<longrightarrow> gu_role u \<in> set roles) \<and> scopes_cover (gu_scopes u) (rt_scopes route)"
proof -
  let ?req = "\<lparr>gr_public = rt_public route, gr_apiKey = apiKey\<rparr>"
  obtain ks where g: "api_key_guard (ge_keys env) clk ?req (do_keys s) = (Inr user, ks)"
    and r: "roles_guard (rt_roles route) user = Inr ()" and sc: "scopes_guard (rt_scopes route) user = Inr ()"
    using assms(1) by (auto simp: admit_def split: prod.splits sum.splits)
  from guard_lets_in [OF g] assms(2) obtain u k where u: "user = Some u" "apiKey = Some k" "k \<noteq> []"
    "(\<exists>r \<in> set (ks_keys (do_keys s)). credential_of (ge_keys env) k r \<and> key_refusal r (clk 0) = None \<and> u = key_user (ge_keys env) r) \<or>
     ke_envKey (ge_keys env) = Some k \<and> gu_role u = Role_admin \<and> gu_scopes u = [''admin'']" by auto
  moreover have "gu_role u \<in> set roles" if "rt_roles route = Some roles" for roles
    using r that u(1) by (auto simp: roles_guard_def split: if_splits)
  moreover have "scopes_cover (gu_scopes u) (rt_scopes route)" using sc u(1) by (simp add: scopes_open_iff)
  ultimately show ?thesis by blast
qed

section \<open>Witnesses\<close>

lemma parse_positive: "0 < fallback \<Longrightarrow> 0 < parsePositive raw fallback"
  by (simp add: parsePositive_def split: option.split)

lemma limit_positive: "0 < fst (resolveLimit config scopes)"
proof -
  have one: "0 < fst (getScopeLimitConfig config s)" for s
    unfolding getScopeLimitConfig_def Let_def fst_conv by (rule parse_positive) (simp add: DEFAULT_SCOPE_LIMITS_def)
  define pos where "pos = (\<lambda>x. case x of None \<Rightarrow> True | Some b \<Rightarrow> 0 < fst (b :: int \<times> int))"
  have "pos best \<Longrightarrow> pos (lowest_limit config scopes best)" for best
  proof (induction scopes arbitrary: best)
    case (Cons s ss)
    have "pos (case best of None \<Rightarrow> Some (getScopeLimitConfig config s)
      | Some b \<Rightarrow> if fst (getScopeLimitConfig config s) < fst b then Some (getScopeLimitConfig config s) else Some b)"
      using Cons.prems one [of s] by (cases best) (simp_all add: pos_def)
    from Cons.IH [OF this] show ?case by simp
  qed simp
  from this [of None] show ?thesis by (auto simp: pos_def resolveLimit_def split: option.splits)
qed

theorem key_rate_limited_witness:
  "length (filter (\<lambda>t. 0 \<le> t \<and> t < 60000) (let_through (\<lambda>_. None) webhook_user [1, 2, 70000] Map.empty)) \<le> 1000"
proof -
  have "resolveLimit (\<lambda>_. None) (gu_scopes webhook_user) = (500, 60)"
    by (simp add: resolveLimit_def webhook_user_def getScopeLimitConfig_def parsePositive_def DEFAULT_SCOPE_LIMITS_def Let_def)
  with key_rate_limited [of "[1, 2, 70000]" webhook_user 60000 "\<lambda>_. None" 0 Map.empty] show ?thesis
    by (simp add: keyed_def webhook_user_def truthy_def)
qed

definition read_route :: route_info where
  "read_route = \<lparr>rt_public = False, rt_skipThrottle = False, rt_roles = Some [Role_operator], rt_scopes = [], rt_path = ''/claims''\<rparr>"

definition door_of :: "api_key_row \<Rightarrow> door_state" where
  "door_of r = \<lparr>do_keys = key_table r, do_counters = Map.empty\<rparr>"

theorem admitted_are_entitled_witness:
  "\<exists>t. admit \<lparr>ge_keys = demo_keys, ge_config = (\<lambda>_. None), ge_environment = (\<lambda>_. None)\<rparr> (\<lambda>_. 9) read_route (Some ''raw1'')
      \<lparr>ca_forwardedFor = None, ca_ips = [], ca_ip = None\<rparr> (door_of demo_key) = (Inr (Some (key_user demo_keys demo_key)), t) \<and>
    Role_operator \<in> set [gu_role (key_user demo_keys demo_key)]"
proof -
  let ?env = "\<lparr>ge_keys = demo_keys, ge_config = (\<lambda>_. None), ge_environment = (\<lambda>_. None)\<rparr>"
    and ?addr = "\<lparr>ca_forwardedFor = None, ca_ips = [], ca_ip = None\<rparr>"
  have "find_row (credential_of demo_keys ''raw1'') [demo_key] = Some demo_key" "key_refusal demo_key 9 = None"
    using demo_credential(1) demo_table by (simp_all add: find_row_Cons key_refusal_def past_def demo_key_simps)
  then obtain ks where "api_key_guard demo_keys (\<lambda>_. 9) \<lparr>gr_public = False, gr_apiKey = Some ''raw1''\<rparr> (key_table demo_key) =
      (Inr (Some (key_user demo_keys demo_key)), ks)"
    by (simp add: api_key_guard_def key_table_def truthy_def key_user_def Let_def)
  moreover obtain m where m: "key_rate_guard (\<lambda>_. None) False False 9 (Some (key_user demo_keys demo_key)) Map.empty = (Inr (), m)"
    "m ''ratelimit:apiKey:apikey:k1'' = None"
    using limit_positive [of "\<lambda>_. None" "gu_scopes (key_user demo_keys demo_key)"]
    by (cases "resolveLimit (\<lambda>_. None) (gu_scopes (key_user demo_keys demo_key))")
      (auto simp: key_rate_guard_def incr_def live_counter_def expire_in_def perkey_def Let_def key_user_def demo_key_simps truthy_def)
  moreover have "rate_config (\<lambda>_. None) P_apiKey = \<lparr>rp_limit = 200, rp_window = 60, rp_keyPrefix = ''apiKey'', rp_enabled = True\<rparr>"
    by (simp add: rate_config_def getEnvOverrides_def mode_limit_def truthy_def Let_def)
  then obtain m2 where "caller_rate_guard (rate_config (\<lambda>_. None)) 9 ''/claims'' ?addr (Some (key_user demo_keys demo_key)) m = (Inr (), m2)"
    using m(2) by (simp add: caller_rate_guard_def getUserType_def key_user_def demo_key_simps getPolicyForRequest_def
        getRateLimitPolicy_def getIdentifier_def truthy_def incr_def live_counter_def Let_def)
  moreover have "gu_role (key_user demo_keys demo_key) = Role_operator" by (simp add: key_user_def demo_key_simps)
  ultimately obtain t where t: "admit ?env (\<lambda>_. 9) read_route (Some ''raw1'') ?addr (door_of demo_key) =
      (Inr (Some (key_user demo_keys demo_key)), t)"
    by (simp add: admit_def read_route_def door_of_def roles_guard_def scopes_guard_def)
  from admitted_are_entitled [OF this] t show ?thesis by (auto simp: read_route_def)
qed

end
