(* ===== verification/RecipientImport.thy ===== *)
theory RecipientImport
  imports ClaimLedger CsvStream
begin

text \<open>
  The import of recipients from a CSV file: \<open>recipient-import/recipient-import.service.ts\<close>, its
  processor and its controller. An upload stores the file and queues a job; the worker reads the file
  (\<open>parseCsv\<close> of the theory \<open>CsvStream\<close>), creates one claim per row (theory \<open>ClaimLedger\<close>) and writes a
  checkpoint after each row, so that it can be stopped at any point and taken up again. The state is
  the table of jobs, the uploaded files, the queue and the claims with their audit log. The column
  \<open>errors\<close>, a JSON text, is the list it stands for. Log lines and the progress shown by the queue are
  left out.
\<close>

section \<open>Data\<close>

datatype import_status = Imp_pending | Imp_processing | Imp_completed | Imp_failed | Imp_cancelled

fun import_status_name :: "import_status \<Rightarrow> string" where
  "import_status_name Imp_pending = ''pending''"
| "import_status_name Imp_processing = ''processing''"
| "import_status_name Imp_completed = ''completed''"
| "import_status_name Imp_failed = ''failed''"
| "import_status_name Imp_cancelled = ''cancelled''"

record import_error =
  ie_row :: int
  ie_field :: string
  ie_message :: string
  ie_value :: "string option"

record import_job =
  ij_id :: ident
  ij_status :: import_status
  ij_campaignId :: ident
  ij_totalRows :: int
  ij_processedRows :: int
  ij_errorRows :: int
  ij_errors :: "import_error list"
  ij_reportUrl :: "string option"
  ij_fileName :: string
  ij_filePath :: "string option"
  ij_checkpointRow :: int
  ij_createdAt :: time
  ij_startedAt :: "time option"
  ij_completedAt :: "time option"
  ij_cancelledAt :: "time option"

record import_state =
  im_jobs :: "import_job list"
  im_files :: "string \<rightharpoonup> string"
  im_queue :: "ident list"
  im_claims :: claims_state

definition find_job :: "ident \<Rightarrow> import_state \<Rightarrow> import_job option" where
  "find_job j s = find_row (\<lambda>x. ij_id x = j) (im_jobs s)"

definition update_job :: "ident \<Rightarrow> (import_job \<Rightarrow> import_job) \<Rightarrow> import_state \<Rightarrow> import_state" where
  "update_job j f s = s\<lparr>im_jobs := update_where (\<lambda>x. ij_id x = j) f (im_jobs s)\<rparr>"

definition import_audit :: "time \<Rightarrow> ident \<Rightarrow> string \<Rightarrow> (string \<times> meta_value) list \<Rightarrow> import_state \<Rightarrow> import_state" where
  "import_audit now j act meta s = s\<lparr>im_claims := log_audit now
     \<lparr>au_actorId = ''system'', au_entity = ''ImportJob'', au_entityId = j, au_action = act, au_metadata = meta\<rparr>
     (im_claims s)\<rparr>"

definition job_missing :: "ident \<Rightarrow> app_error" where
  "job_missing j = not_found (''Import job '' @ j @ '' not found'')"

text \<open>The queue knows a job by its id: adding one that is waiting already does nothing.\<close>

definition queue_import :: "ident \<Rightarrow> import_state \<Rightarrow> import_state" where
  "queue_import j s = (if j \<in> set (im_queue s) then s else s\<lparr>im_queue := im_queue s @ [j]\<rparr>)"

section \<open>Rows\<close>

text \<open>
  \<open>parseFloat\<close>: blanks, a sign, digits with a point, an exponent, and whatever follows. The value is
  exact, the rounding to a double is left out; the text Infinity, an amount no budget allows, is
  taken for no number.
\<close>

definition split_sign :: "string \<Rightarrow> bool \<times> string" where
  "split_sign t = (if t \<noteq> [] \<and> (hd t = CHR ''-'' \<or> hd t = CHR ''+'') then (hd t = CHR ''-'', tl t) else (False, t))"

definition read_exponent :: "string \<Rightarrow> int" where
  "read_exponent t =
     (if t \<noteq> [] \<and> (hd t = CHR ''e'' \<or> hd t = CHR ''E'') then
        let (neg, u) = split_sign (tl t); n = digits_value (takeWhile is_digit u) in if neg then - n else n
      else 0)"

definition ten_to :: "int \<Rightarrow> rat" where
  "ten_to k = (if 0 \<le> k then 10 ^ nat k else 1 / 10 ^ nat (- k))"

definition parseFloat :: "string \<Rightarrow> rat option" where
  "parseFloat s =
     (let (neg, u) = split_sign (dropWhile js_space s);
          whole = takeWhile is_digit u; r = dropWhile is_digit u;
          point = (r \<noteq> [] \<and> hd r = CHR ''.'');
          frac = (if point then takeWhile is_digit (tl r) else []);
          e = read_exponent (if point then dropWhile is_digit (tl r) else r)
      in if whole = [] \<and> frac = [] then None
         else let v = of_int (digits_value (whole @ frac)) * ten_to (e - int (length frac))
              in Some (if neg then - v else v))"

text \<open>The \<open>Map\<close> from the headers to their columns: the last of equal headers counts.\<close>

definition header_index :: "string list \<Rightarrow> string \<Rightarrow> nat option" where
  "header_index headers name =
     find_row (\<lambda>i. trim (toLowerCase (headers ! i)) = name) (rev [0..<length headers])"

definition cell :: "string list \<Rightarrow> nat \<Rightarrow> string option" where
  "cell row i = (if i < length row then Some (trim (row ! i)) else None)"

record row_check =
  vr_valid :: bool
  vr_recipientRef :: "string option"
  vr_amount :: "rat option"
  vr_evidenceRef :: "string option"
  vr_errors :: "import_error list"

text \<open>What the source returns last, a row without errors and without an amount, is never reached.\<close>

definition validateRow :: "string list \<Rightarrow> string list \<Rightarrow> int \<Rightarrow> row_check" where
  "validateRow row headers rowIndex =
     (let ref = Option.bind (header_index headers ''recipientref'') (cell row);
          refErrors = (if truthy ref then [] else
            [\<lparr>ie_row = rowIndex, ie_field = ''recipientRef'', ie_message = ''Missing or empty recipientRef'', ie_value = None\<rparr>]);
          invalid = (\<lambda>es. \<lparr>vr_valid = False, vr_recipientRef = None, vr_amount = None, vr_evidenceRef = None, vr_errors = es\<rparr>)
      in case header_index headers ''amount'' of
           None \<Rightarrow> invalid (refErrors @
             [\<lparr>ie_row = rowIndex, ie_field = ''amount'', ie_message = ''Missing amount column'', ie_value = None\<rparr>])
         | Some amountIdx \<Rightarrow>
             let amountStr = cell row amountIdx;
                 bad = invalid (refErrors @ [\<lparr>ie_row = rowIndex, ie_field = ''amount'',
                   ie_message = ''Invalid or non-positive amount'', ie_value = amountStr\<rparr>])
             in case parseFloat (case amountStr of None \<Rightarrow> [] | Some t \<Rightarrow> t) of
                  None \<Rightarrow> bad
                | Some amount \<Rightarrow>
                    if amount \<le> 0 then bad
                    else \<lparr>vr_valid = (refErrors = []), vr_recipientRef = ref, vr_amount = Some amount,
                      vr_evidenceRef = Option.bind (header_index headers ''evidenceref'') (cell row), vr_errors = refErrors\<rparr>)"

section \<open>The service\<close>

definition new_job :: "time \<Rightarrow> ident \<Rightarrow> ident \<Rightarrow> string \<Rightarrow> string \<Rightarrow> int \<Rightarrow> import_job" where
  "new_job now newId campaignId fileName filePath totalRows =
     \<lparr>ij_id = newId, ij_status = Imp_pending, ij_campaignId = campaignId, ij_totalRows = totalRows, ij_processedRows = 0,
      ij_errorRows = 0, ij_errors = [], ij_reportUrl = None, ij_fileName = fileName, ij_filePath = Some filePath,
      ij_checkpointRow = 0, ij_createdAt = now, ij_startedAt = None, ij_completedAt = None, ij_cancelledAt = None\<rparr>"

definition createJob ::
  "time \<Rightarrow> ident \<Rightarrow> ident \<Rightarrow> string \<Rightarrow> string \<Rightarrow> int \<Rightarrow> import_state \<Rightarrow> (app_error + ident \<times> int) \<times> import_state" where
  "createJob now newId campaignId fileName filePath totalRows s =
     (if find_campaign campaignId (im_claims s) = None then (Inl (bad_request ''Campaign not found''), s)
      else if totalRows \<le> 0 then (Inl (bad_request ''CSV file contains no data rows''), s)
      else (Inr (newId, totalRows),
        import_audit now newId ''created''
          [(''campaignId'', MStr campaignId), (''fileName'', MStr fileName), (''totalRows'', MInt totalRows)]
          (queue_import newId (s\<lparr>im_jobs := im_jobs s @ [new_job now newId campaignId fileName filePath totalRows]\<rparr>))))"

text \<open>The route of the upload: the file is stored under the time and its name, then counted.\<close>

definition ends_with :: "string \<Rightarrow> string \<Rightarrow> bool" where
  "ends_with s suffix \<longleftrightarrow> length suffix \<le> length s \<and> drop (length s - length suffix) s = suffix"

definition upload_path :: "time \<Rightarrow> string \<Rightarrow> string" where
  "upload_path now name = ''soter-imports/'' @ show_int now @ ''-'' @ name"

definition upload ::
  "time \<Rightarrow> ident \<Rightarrow> (string \<times> string) option \<Rightarrow> string option \<Rightarrow> import_state \<Rightarrow> (app_error + ident \<times> int) \<times> import_state" where
  "upload now newId file campaignId s =
     (case file of
        None \<Rightarrow> (Inl (bad_request ''No file uploaded''), s)
      | Some (name, content) \<Rightarrow>
          if \<not> truthy campaignId then (Inl (bad_request ''campaignId is required''), s)
          else if \<not> ends_with name ''.csv'' then (Inl (bad_request ''Only CSV files are accepted''), s)
          else
            let s1 = s\<lparr>im_files := (im_files s)(upload_path now name \<mapsto> content)\<rparr>
            in case parseCsv content of
                 Inl e \<Rightarrow> (Inl e, s1)
               | Inr (headers, rows) \<Rightarrow>
                   createJob now newId (the campaignId) name (upload_path now name) (int (length rows)) s1)"

record job_view =
  jv_job :: import_job
  jv_errors :: "import_error list option"
  jv_progress :: int

definition getJobStatus :: "ident \<Rightarrow> import_state \<Rightarrow> app_error + job_view" where
  "getJobStatus j s = (case find_job j s of
     None \<Rightarrow> Inl (job_missing j)
   | Some job \<Rightarrow> Inr \<lparr>jv_job = job, jv_errors = (if ij_errors job = [] then None else Some (ij_errors job)),
       jv_progress = (if 0 < ij_totalRows job
         then \<lfloor>of_int (ij_processedRows job) / of_int (ij_totalRows job) * 100 + 1 / (2 :: rat)\<rfloor> else 0)\<rparr>)"

definition updateJobProgress :: "ident \<Rightarrow> int \<Rightarrow> int \<Rightarrow> import_error list \<Rightarrow> import_state \<Rightarrow> import_state" where
  "updateJobProgress j processedRows errorRows errors s =
     update_job j (\<lambda>x. x\<lparr>ij_processedRows := processedRows, ij_errorRows := errorRows, ij_checkpointRow := processedRows,
       ij_errors := errors\<rparr>) s"

definition completeJob ::
  "time \<Rightarrow> ident \<Rightarrow> int \<Rightarrow> int \<Rightarrow> import_error list \<Rightarrow> string option \<Rightarrow> import_status option \<Rightarrow> import_state \<Rightarrow> import_state" where
  "completeJob now j processedRows errorRows errors reportUrl statusOverride s =
     (let status = (case statusOverride of Some st \<Rightarrow> st | None \<Rightarrow> if 0 < errorRows then Imp_failed else Imp_completed)
      in import_audit now j ''completed''
           [(''status'', MStr (import_status_name status)), (''processedRows'', MInt processedRows),
            (''errorRows'', MInt errorRows), (''reportUrl'', (case reportUrl of None \<Rightarrow> MNull | Some u \<Rightarrow> MStr u))]
           (update_job j (\<lambda>x. x\<lparr>ij_status := status, ij_processedRows := processedRows, ij_errorRows := errorRows,
              ij_checkpointRow := processedRows, ij_errors := errors, ij_reportUrl := reportUrl, ij_completedAt := Some now\<rparr>) s))"

definition setJobProcessing :: "time \<Rightarrow> ident \<Rightarrow> import_state \<Rightarrow> bool \<times> import_state" where
  "setJobProcessing now j s =
     (let p = (\<lambda>x. ij_id x = j \<and> ij_status x \<noteq> Imp_cancelled)
      in (0 < count_where p (im_jobs s),
          s\<lparr>im_jobs := update_where p (\<lambda>x. x\<lparr>ij_status := Imp_processing, ij_startedAt := Some now\<rparr>) (im_jobs s)\<rparr>))"

definition hasImportedRow :: "ident \<Rightarrow> int \<Rightarrow> import_state \<Rightarrow> bool" where
  "hasImportedRow j rowNumber s \<longleftrightarrow>
     find_row (\<lambda>c. cl_importJobId c = Some j \<and> cl_importRowNumber c = Some rowNumber) (cs_claims (im_claims s)) \<noteq> None"

definition isCancellationRequested :: "ident \<Rightarrow> import_state \<Rightarrow> bool" where
  "isCancellationRequested j s \<longleftrightarrow> map_option ij_status (find_job j s) = Some Imp_cancelled"

definition cancelJob :: "time \<Rightarrow> ident \<Rightarrow> import_state \<Rightarrow> (app_error + job_view) \<times> import_state" where
  "cancelJob now j s =
     (case find_job j s of
        None \<Rightarrow> (Inl (job_missing j), s)
      | Some job \<Rightarrow>
          let s1 = (if ij_status job \<notin> {Imp_completed, Imp_failed, Imp_cancelled} then
                import_audit now j ''cancelled''
                  [(''processedRows'', MInt (ij_processedRows job)), (''errorRows'', MInt (ij_errorRows job)),
                   (''checkpointRow'', MInt (ij_checkpointRow job))]
                  (update_job j (\<lambda>x. x\<lparr>ij_status := Imp_cancelled, ij_cancelledAt := Some now, ij_completedAt := Some now\<rparr>)
                    (s\<lparr>im_queue := filter (\<lambda>i. i \<noteq> j) (im_queue s)\<rparr>))
              else s)
          in (getJobStatus j s1, s1))"

definition resumeInterruptedJobs :: "import_state \<Rightarrow> import_state" where
  "resumeInterruptedJobs s =
     fold (\<lambda>job t. if truthy (ij_filePath job) then queue_import (ij_id job) t else t)
       (filter (\<lambda>job. ij_status job = Imp_processing) (im_jobs s)) s"

text \<open>The report: one quoted line per error.\<close>

definition report_line :: "import_error \<Rightarrow> string" where
  "report_line e = show_int (ie_row e) @ '','' @ join '','' (map (\<lambda>t. DQUOTE # double_quotes t @ [DQUOTE])
     [ie_field e, ie_message e, (case ie_value e of None \<Rightarrow> [] | Some v \<Rightarrow> v)])"

definition generateReportCsv :: "ident \<Rightarrow> import_state \<Rightarrow> app_error + string" where
  "generateReportCsv j s = (case find_job j s of
     None \<Rightarrow> Inl (job_missing j)
   | Some job \<Rightarrow> Inr (if ij_errors job = [] then ''row,field,message,value'' @ [LF] @ ''No errors found for this import.''
       else ''row,field,message,value'' @ [LF] @ join [LF] (map report_line (ij_errors job))))"

section \<open>The worker\<close>

text \<open>
  A run of the processor: the table it read, the row it is at and what it has counted. Between the
  actions on the state that can be told apart from outside it is at a row, about to create a claim
  for a valid row, or about to write the checkpoint of a row. (The batches of 100 rows only nest the
  loop.)
\<close>

record import_run =
  ir_headers :: "string list"
  ir_rows :: "string list list"
  ir_at :: nat
  ir_processed :: int
  ir_errorRows :: int
  ir_errors :: "import_error list"

datatype worker = Resting | At_row import_run | Creating import_run row_check | Saving import_run

definition IMPORT_TOKEN :: string where
  "IMPORT_TOKEN = ''GATEMHCCKCY67ZUCKTROYN24ZYT5GK4EQZ5LKG3FZTSZ3NYNEJBBENSN''"

definition isDuplicateImportedRow :: "app_error \<Rightarrow> bool" where
  "isDuplicateImportedRow e \<longleftrightarrow> e = PlainError ''Unique constraint failed''"

text \<open>Up to the loop; a file that cannot be read or has no lines fails the job.\<close>

definition start_import :: "time \<Rightarrow> ident \<Rightarrow> import_state \<Rightarrow> worker \<times> import_state" where
  "start_import now j s =
     (let (started, s1) = setJobProcessing now j s
      in if \<not> started then (Resting, s1)
         else case find_job j s1 of
             None \<Rightarrow> (Resting, s1)
           | Some job \<Rightarrow>
               (case map_option parseCsv (Option.bind (ij_filePath job) (im_files s1)) of
                  Some (Inr (headers, rows)) \<Rightarrow>
                    (At_row \<lparr>ir_headers = headers, ir_rows = rows, ir_at = nat (ij_checkpointRow job),
                       ir_processed = ij_processedRows job, ir_errorRows = ij_errorRows job, ir_errors = ij_errors job\<rparr>, s1)
                | _ \<Rightarrow> (Resting, completeJob now j (ij_processedRows job) (ij_errorRows job) (ij_errors job) None (Some Imp_failed) s1)))"

definition row_failed :: "import_error list \<Rightarrow> import_run \<Rightarrow> import_run" where
  "row_failed es r = r\<lparr>ir_errors := ir_errors r @ es, ir_errorRows := ir_errorRows r + 1, ir_processed := ir_processed r + 1\<rparr>"

definition claim_of_row :: "ident \<Rightarrow> ident \<Rightarrow> int \<Rightarrow> row_check \<Rightarrow> create_claim_dto" where
  "claim_of_row campaignId j rowIndex v =
     \<lparr>dt_campaignId = campaignId, dt_amount = the (vr_amount v), dt_recipientRef = the (vr_recipientRef v),
      dt_tokenAddress = IMPORT_TOKEN, dt_evidenceRef = vr_evidenceRef v, dt_expiresAt = None,
      dt_importJobId = Some j, dt_importRowNumber = Some rowIndex\<rparr>"

fun work :: "claims_env \<Rightarrow> time \<Rightarrow> ident \<Rightarrow> ident \<Rightarrow> ident \<Rightarrow> worker \<Rightarrow> import_state \<Rightarrow> worker \<times> import_state" where
  "work env now newId campaignId j Resting s = (Resting, s)"
| "work env now newId campaignId j (At_row r) s =
     (if length (ir_rows r) \<le> ir_at r then
        (Resting, completeJob now j (ir_processed r) (ir_errorRows r) (ir_errors r)
           (if ir_errors r \<noteq> [] then Some (''/recipient-import/'' @ j @ ''/report'') else None) None s)
      else if isCancellationRequested j s then (Resting, s)
      else
        let rowIndex = int (ir_at r) + 2; rowOffset = int (ir_at r) + 1
        in if hasImportedRow j rowIndex s then (Saving (r\<lparr>ir_processed := max (ir_processed r) rowOffset\<rparr>), s)
           else
             let validation = validateRow (ir_rows r ! ir_at r) (ir_headers r) rowIndex
             in if \<not> vr_valid validation then (Saving (row_failed (vr_errors validation) r), s)
                else (Creating r validation, s))"
| "work env now newId campaignId j (Creating r validation) s =
     (let rowIndex = int (ir_at r) + 2;
          (result, cs) = create env now newId (claim_of_row campaignId j rowIndex validation) (im_claims s)
      in (case result of
            Inr c \<Rightarrow> Saving (r\<lparr>ir_processed := ir_processed r + 1\<rparr>)
          | Inl e \<Rightarrow>
              if isDuplicateImportedRow e then Saving (r\<lparr>ir_processed := ir_processed r + 1\<rparr>)
              else Saving (row_failed [\<lparr>ie_row = rowIndex, ie_field = ''claim'', ie_message = error_message e, ie_value = None\<rparr>] r),
          s\<lparr>im_claims := cs\<rparr>))"
| "work env now newId campaignId j (Saving r) s =
     (At_row (r\<lparr>ir_at := ir_at r + 1\<rparr>), updateJobProgress j (ir_processed r) (ir_errorRows r) (ir_errors r) s)"

text \<open>A run that nothing interrupts.\<close>

fun work_on :: "nat \<Rightarrow> claims_env \<Rightarrow> (nat \<Rightarrow> time) \<Rightarrow> (nat \<Rightarrow> ident) \<Rightarrow> ident \<Rightarrow> ident \<Rightarrow> worker \<Rightarrow> import_state
    \<Rightarrow> worker \<times> import_state" where
  "work_on 0 env clk ids campaignId j w s = (w, s)"
| "work_on (Suc n) env clk ids campaignId j w s =
     (case work env (clk n) (ids n) campaignId j w s of (w1, s1) \<Rightarrow> work_on n env clk ids campaignId j w1 s1)"

section \<open>What may happen\<close>

text \<open>
  Every job has its own worker, resting or at work. The queue may deliver a job whenever its worker
  rests, also one that is done (\<open>delivers\<close>), and a worker may be lost at any point (\<open>stops\<close>). The other requests on
  claims go on in between. A request to create a claim may name any import and row (the public request takes both),
  also an import that does not exist, but not the id of a job there is: a claim made under that would pass for one of
  its rows. An upload gets a new id, under which no claim was made, and a new path.
\<close>

inductive import_step :: "claims_env \<Rightarrow> (ident \<Rightarrow> worker) \<times> import_state \<Rightarrow> (ident \<Rightarrow> worker) \<times> import_state \<Rightarrow> bool" for env where
  uploads: "newId \<notin> ij_id ` set (im_jobs s) \<Longrightarrow>
    Some newId \<notin> cl_importJobId ` set (cs_claims (im_claims s)) \<Longrightarrow>
    (\<forall>name content. file = Some (name, content) \<longrightarrow> im_files s (upload_path now name) = None) \<Longrightarrow>
    upload now newId file campaignId s = (x, t) \<Longrightarrow> import_step env (w, s) (w, t)"
| delivers: "w j = Resting \<Longrightarrow> start_import now j s = (w1, t) \<Longrightarrow>
    import_step env (w, s) (w(j := w1), t\<lparr>im_queue := filter (\<lambda>i. i \<noteq> j) (im_queue t)\<rparr>)"
| works: "find_job j s = Some job \<Longrightarrow> newId \<notin> cl_id ` set (cs_claims (im_claims s)) \<Longrightarrow> newId \<noteq> [] \<Longrightarrow>
    work env now newId (ij_campaignId job) j (w j) s = (w1, t) \<Longrightarrow> import_step env (w, s) (w(j := w1), t)"
| stops: "import_step env (w, s) (w(j := Resting), s)"
| resumes: "import_step env (w, s) (w, resumeInterruptedJobs s)"
| cancels: "cancelJob now j s = (x, t) \<Longrightarrow> import_step env (w, s) (w, t)"
| other_requests: "claim_step env reissuing (im_claims s) cs \<Longrightarrow>
    \<forall>c \<in> set (drop (length (cs_claims (im_claims s))) (cs_claims cs)). cl_importJobId c \<notin> Some ` ij_id ` set (im_jobs s) \<Longrightarrow>
    import_step env (w, s) (w, s\<lparr>im_claims := cs\<rparr>)"

inductive_cases import_stepE: "import_step env ws wt"

end
