(* ===== verification/ImportRules.thy ===== *)
theory ImportRules
  imports RecipientImport ClaimColumns
begin

text \<open>
  What the recipient import of the theory \<open>RecipientImport\<close> guarantees, however often its worker is lost, the job
  delivered again, and whatever else happens to the claims: every row of the file ends as exactly one
  claim or as an error, an uninterrupted run ends, and a cancelled job stops.
\<close>

section \<open>The claims of a job\<close>

text \<open>What identifies an imported claim and what the row says; nothing changes it later.\<close>

type_synonym import_columns = "ident option \<times> int option \<times> ident \<times> rat \<times> string \<times> string option"

definition import_key :: "claim \<Rightarrow> import_columns" where
  "import_key c = (cl_importJobId c, cl_importRowNumber c, cl_campaignId c, cl_amount c, cl_recipientRef c, cl_evidenceRef c)"

interpretation import_keys: stable_column import_key
  by unfold_locales (simp_all add: import_key_def cancel_row_def)

definition job_keys :: "ident \<Rightarrow> claims_state \<Rightarrow> import_columns list" where
  "job_keys j cs = filter (\<lambda>k. fst k = Some j) (map import_key (cs_claims cs))"

lemma job_keys_audit [simp]: "job_keys j (log_audit now a cs) = job_keys j cs"
  by (simp add: job_keys_def log_audit_def)

lemma other_requests_keys:
  assumes "claim_step env reissuing cs cs'"
    and "\<forall>c \<in> set (drop (length (cs_claims cs)) (cs_claims cs')). cl_importJobId c \<noteq> Some j"
  shows "job_keys j cs' = job_keys j cs"
  using import_keys.column_step [OF assms(1)]
proof
  assume "map import_key (cs_claims cs') = map import_key (cs_claims cs)"
  then show ?thesis by (simp add: job_keys_def)
next
  assume "\<exists>c. map import_key (cs_claims cs') = map import_key (cs_claims cs) @ [import_key c] \<and>
    cl_id c \<notin> cl_id ` set (cs_claims cs) \<and> cl_id c \<noteq> [] \<and>
    (cl_reissuedFromId c = None \<or> (\<exists>c0 \<in> set (cs_claims cs). cl_reissuedFromId c = Some (cl_id c0)))"
  then obtain c where c: "map import_key (cs_claims cs') = map import_key (cs_claims cs) @ [import_key c]" by blast
  have "map import_key (drop (length (cs_claims cs)) (cs_claims cs')) = [import_key c]"
    unfolding drop_map [symmetric] c by simp
  then obtain d where "drop (length (cs_claims cs)) (cs_claims cs') = [d]" "import_key d = import_key c" by blast
  with assms(2) have "cl_importJobId c \<noteq> Some j" by (auto simp: import_key_def)
  with c show ?thesis by (simp add: job_keys_def import_key_def)
qed

lemma create_import:
  assumes "create env now newId dto cs = (res, cs')"
  shows "case res of
      Inl e \<Rightarrow> cs_claims cs' = cs_claims cs
    | Inr c \<Rightarrow> map import_key (cs_claims cs') = map import_key (cs_claims cs) @
        [(dt_importJobId dto, dt_importRowNumber dto, dt_campaignId dto, dt_amount dto, ce_encrypt env (dt_recipientRef dto), dt_evidenceRef dto)]"
  using assms
  by (auto simp: create_def create_transaction_def enqueueVerificationForClaim_def Let_def import_key_def split: option.splits sum.splits if_splits)

definition has_row :: "import_columns list \<Rightarrow> nat \<Rightarrow> bool" where
  "has_row ks i \<longleftrightarrow> (\<exists>k \<in> set ks. fst (snd k) = Some (int i + 2))"

definition has_error :: "import_error list \<Rightarrow> nat \<Rightarrow> bool" where
  "has_error es i \<longleftrightarrow> (\<exists>e \<in> set es. ie_row e = int i + 2)"

lemma imported_row: "hasImportedRow j (int i + 2) s \<longleftrightarrow> has_row (job_keys j (im_claims s)) i"
  by (auto simp: hasImportedRow_def has_row_def job_keys_def import_key_def find_row_None_iff)

section \<open>Rows that are accounted for\<close>

text \<open>
  The first \<open>k\<close> rows of a job: each has a claim or an error, and not both; \<open>n\<close> of them have no claim.
\<close>

definition accounted :: "import_columns list \<Rightarrow> nat \<Rightarrow> import_error list \<Rightarrow> int \<Rightarrow> bool" where
  "accounted ks k es n \<longleftrightarrow> (\<forall>i < k. has_row ks i \<noteq> has_error es i) \<and> (\<forall>e \<in> set es. \<exists>i < k. ie_row e = int i + 2) \<and>
     n = int (card {i. i < k \<and> \<not> has_row ks i})"

lemma accounted_new:
  assumes "accounted ks k es n" and "fst (snd x) = Some (int k + 2)"
  shows "accounted (ks @ [x]) k es n"
proof -
  have "has_row (ks @ [x]) i = has_row ks i" if "i < k" for i using assms(2) that by (auto simp: has_row_def)
  then have "{i. i < k \<and> \<not> has_row (ks @ [x]) i} = {i. i < k \<and> \<not> has_row ks i}" by auto
  with assms(1) \<open>\<And>i. i < k \<Longrightarrow> has_row (ks @ [x]) i = has_row ks i\<close> show ?thesis by (simp add: accounted_def)
qed

lemma accounted_claim:
  assumes "accounted ks k es n" and "has_row ks k"
  shows "accounted ks (Suc k) es n"
proof -
  have "\<not> has_error es k" using assms(1) by (fastforce simp: accounted_def has_error_def)
  moreover have "{i. i < Suc k \<and> \<not> has_row ks i} = {i. i < k \<and> \<not> has_row ks i}" using assms(2) by (auto simp: less_Suc_eq)
  ultimately show ?thesis using assms unfolding accounted_def by (auto simp: less_Suc_eq)
qed

lemma accounted_error:
  assumes "accounted ks k es n" and "\<not> has_row ks k" and "new \<noteq> []" "\<And>e. e \<in> set new \<Longrightarrow> ie_row e = int k + 2"
  shows "accounted ks (Suc k) (es @ new) (n + 1)"
proof -
  have "has_error (es @ new) i = has_error es i" if "i < k" for i using assms(4) that by (fastforce simp: has_error_def)
  moreover have "has_error (es @ new) k" using assms(3,4) by (cases new) (auto simp: has_error_def)
  moreover have "{i. i < Suc k \<and> \<not> has_row ks i} = insert k {i. i < k \<and> \<not> has_row ks i}" using assms(2) by (auto simp: less_Suc_eq)
  ultimately show ?thesis using assms unfolding accounted_def by (auto simp: less_Suc_eq)
qed

lemma invalid_row_errors:
  assumes "\<not> vr_valid (validateRow row headers n)"
  shows "vr_errors (validateRow row headers n) \<noteq> []" and "\<forall>e \<in> set (vr_errors (validateRow row headers n)). ie_row e = n"
  using assms by (auto simp: validateRow_def Let_def split: option.split if_split)

section \<open>The invariant\<close>

definition row_key :: "claims_env \<Rightarrow> ident \<Rightarrow> ident \<Rightarrow> string list \<Rightarrow> string list \<Rightarrow> nat \<Rightarrow> import_columns" where
  "row_key env camp j headers row i =
     (let v = validateRow row headers (int i + 2)
      in (Some j, Some (int i + 2), camp, the (vr_amount v), ce_encrypt env (the (vr_recipientRef v)), vr_evidenceRef v))"

definition keys_ok :: "claims_env \<Rightarrow> ident \<Rightarrow> ident \<Rightarrow> string list \<Rightarrow> string list list \<Rightarrow> import_columns list \<Rightarrow> bool" where
  "keys_ok env camp j headers rows ks \<longleftrightarrow> distinct (map (\<lambda>k. fst (snd k)) ks) \<and>
     (\<forall>x \<in> set ks. \<exists>i < length rows. vr_valid (validateRow (rows ! i) headers (int i + 2)) \<and> x = row_key env camp j headers (rows ! i) i)"

definition run_at :: "string list \<Rightarrow> string list list \<Rightarrow> nat \<Rightarrow> import_job \<Rightarrow> import_run" where
  "run_at headers rows k job = \<lparr>ir_headers = headers, ir_rows = rows, ir_at = k, ir_processed = int k,
     ir_errorRows = ij_errorRows job, ir_errors = ij_errors job\<rparr>"

fun worker_ok :: "import_columns list \<Rightarrow> string list \<Rightarrow> string list list \<Rightarrow> nat \<Rightarrow> import_job \<Rightarrow> worker \<Rightarrow> bool" where
  "worker_ok ks headers rows k job Resting \<longleftrightarrow> True"
| "worker_ok ks headers rows k job (At_row r) \<longleftrightarrow> r = run_at headers rows k job"
| "worker_ok ks headers rows k job (Creating r v) \<longleftrightarrow> r = run_at headers rows k job \<and> k < length rows \<and>
     v = validateRow (rows ! k) headers (int k + 2) \<and> vr_valid v \<and> \<not> has_row ks k"
| "worker_ok ks headers rows k job (Saving r) \<longleftrightarrow> ir_headers r = headers \<and> ir_rows r = rows \<and> ir_at r = k \<and> k < length rows \<and>
     ir_processed r = int k + 1 \<and> accounted ks (Suc k) (ir_errors r) (ir_errorRows r)"

definition job_ok :: "claims_env \<Rightarrow> import_columns list \<Rightarrow> string list \<Rightarrow> string list list \<Rightarrow> nat \<Rightarrow> import_job \<Rightarrow> worker \<Rightarrow> bool" where
  "job_ok env ks headers rows k job w \<longleftrightarrow>
     ij_totalRows job = int (length rows) \<and> keys_ok env (ij_campaignId job) (ij_id job) headers rows ks \<and>
     k \<le> length rows \<and> ij_processedRows job = int k \<and> ij_checkpointRow job = int k \<and>
     accounted ks k (ij_errors job) (ij_errorRows job) \<and>
     (ij_status job \<in> {Imp_completed, Imp_failed} \<longrightarrow> k = length rows \<and> (ij_status job = Imp_completed \<longleftrightarrow> ij_errorRows job = 0)) \<and>
     worker_ok ks headers rows k job w"

definition job_table :: "(string \<rightharpoonup> string) \<Rightarrow> import_job \<Rightarrow> (string list \<times> string list list) option" where
  "job_table files job = (case map_option parseCsv (Option.bind (ij_filePath job) files) of Some (Inr t) \<Rightarrow> Some t | _ \<Rightarrow> None)"

definition job_inv :: "claims_env \<Rightarrow> (string \<rightharpoonup> string) \<Rightarrow> import_columns list \<Rightarrow> import_job \<Rightarrow> worker \<Rightarrow> bool" where
  "job_inv env files ks job w \<longleftrightarrow> (\<exists>headers rows k. job_table files job = Some (headers, rows) \<and> job_ok env ks headers rows k job w)"

definition imp_inv :: "claims_env \<Rightarrow> (ident \<Rightarrow> worker) \<times> import_state \<Rightarrow> bool" where
  "imp_inv env ws \<longleftrightarrow> (case ws of (w, s) \<Rightarrow> distinct (map ij_id (im_jobs s)) \<and>
     (\<forall>j. j \<notin> ij_id ` set (im_jobs s) \<longrightarrow> w j = Resting) \<and>
     (\<forall>job \<in> set (im_jobs s). job_inv env (im_files s) (job_keys (ij_id job) (im_claims s)) job (w (ij_id job))))"

lemma update_where_id [simp]: "update_where p (\<lambda>x. x) rows = rows"
  by (simp add: update_where_def)

text \<open>A step that concerns one job only.\<close>

lemma inv_one:
  assumes "imp_inv env (w, s)" and "im_files t = im_files s"
    and "\<And>i. i \<noteq> j \<Longrightarrow> job_keys i (im_claims t) = job_keys i (im_claims s)"
    and "im_jobs t = update_where (\<lambda>x. ij_id x = j) f (im_jobs s)" and "\<And>x. ij_id (f x) = ij_id x"
    and "\<And>job. job \<in> set (im_jobs s) \<Longrightarrow> ij_id job = j \<Longrightarrow> job_inv env (im_files s) (job_keys j (im_claims t)) (f job) w'"
    and "j \<notin> ij_id ` set (im_jobs s) \<Longrightarrow> w' = Resting"
  shows "imp_inv env (w(j := w'), t)"
proof -
  have ids: "map ij_id (im_jobs t) = map ij_id (im_jobs s)" unfolding assms(4) by (rule map_update_where) (rule assms(5))
  then have "ij_id ` set (im_jobs t) = ij_id ` set (im_jobs s)" by (metis image_set)
  moreover have "job_inv env (im_files t) (job_keys (ij_id x) (im_claims t)) x ((w(j := w')) (ij_id x))" if "x \<in> set (im_jobs t)" for x
    using that [unfolded assms(4)]
  proof (cases rule: in_update_whereE)
    case kept
    with assms(1,2,3) show ?thesis by (simp add: imp_inv_def)
  next
    case (changed r)
    with assms(2,5,6) show ?thesis by simp
  qed
  ultimately show ?thesis using assms(1,7) ids by (simp add: imp_inv_def)
qed

section \<open>Every step keeps it\<close>

lemma job_invI: "job_table files job = Some (headers, rows) \<Longrightarrow> job_ok env ks headers rows k job w \<Longrightarrow> job_inv env files ks job w"
  unfolding job_inv_def by blast

lemma imp_invD:
  assumes "imp_inv env (w, s)" and "job \<in> set (im_jobs s)"
  obtains headers rows k where "job_table (im_files s) job = Some (headers, rows)"
    "job_ok env (job_keys (ij_id job) (im_claims s)) headers rows k job (w (ij_id job))"
  using assms by (auto simp: imp_inv_def job_inv_def)

lemma found_job:
  assumes "imp_inv env (w, s)" and "find_job j s = Some job" and "job' \<in> set (im_jobs s)" "ij_id job' = j"
  shows "job' = job"
  using assms find_row_SomeD [OF assms(2) [unfolded find_job_def]] key_unique [of ij_id "im_jobs s" job' job]
  by (simp add: imp_inv_def)

text \<open>Changes of a job that leave its progress alone.\<close>

lemma job_ok_status:
  assumes "job_ok env ks headers rows k job w" and "ij_status (f job) \<notin> {Imp_completed, Imp_failed}"
    and "ij_totalRows (f job) = ij_totalRows job" "ij_campaignId (f job) = ij_campaignId job" "ij_id (f job) = ij_id job"
      "ij_processedRows (f job) = ij_processedRows job" "ij_checkpointRow (f job) = ij_checkpointRow job"
      "ij_errors (f job) = ij_errors job" "ij_errorRows (f job) = ij_errorRows job"
  shows "job_ok env ks headers rows k (f job) w"
proof -
  have "run_at headers rows k (f job) = run_at headers rows k job" using assms by (simp add: run_at_def)
  then have "worker_ok ks headers rows k (f job) w = worker_ok ks headers rows k job w" by (cases w) simp_all
  with assms show ?thesis by (simp add: job_ok_def)
qed

lemma inv_stop: "imp_inv env (w, s) \<Longrightarrow> imp_inv env (w(j := Resting), s)"
  by (rule inv_one [where f = "\<lambda>x. x" and s = s]) (auto simp: job_inv_def job_ok_def elim!: imp_invD)

lemma duplicate_import:
  assumes "create env now newId dto cs = (Inl e, cs')" and "isDuplicateImportedRow e"
  shows "import_row_taken dto cs"
  using assms
  by (auto simp: create_def create_transaction_def reserveBudget_def not_found_def bad_request_def isDuplicateImportedRow_def Let_def
      split: option.splits sum.splits if_splits)

text \<open>One action of the worker of a job, on that job: what it does to the row, and to the claims.\<close>

definition advanced :: "claims_env \<Rightarrow> ident \<Rightarrow> string list \<Rightarrow> string list list \<Rightarrow> import_job \<Rightarrow> worker \<Rightarrow> import_state \<Rightarrow> import_state \<Rightarrow> bool" where
  "advanced env j headers rows job w1 s t \<longleftrightarrow> (\<exists>f k. im_files t = im_files s \<and>
     im_jobs t = update_where (\<lambda>x. ij_id x = j) f (im_jobs s) \<and> (\<forall>x. ij_id (f x) = ij_id x \<and> ij_filePath (f x) = ij_filePath x) \<and>
     (\<forall>i. i \<noteq> j \<longrightarrow> job_keys i (im_claims t) = job_keys i (im_claims s)) \<and>
     job_ok env (job_keys j (im_claims t)) headers rows k (f job) w1)"

lemma advancedI:
  assumes "im_files t = im_files s" and "im_jobs t = update_where (\<lambda>x. ij_id x = j) f (im_jobs s)"
    and "\<And>x. ij_id (f x) = ij_id x \<and> ij_filePath (f x) = ij_filePath x"
    and "\<And>i. i \<noteq> j \<Longrightarrow> job_keys i (im_claims t) = job_keys i (im_claims s)"
    and "job_ok env (job_keys j (im_claims t)) headers rows k (f job) w1"
  shows "advanced env j headers rows job w1 s t"
  unfolding advanced_def by (intro exI [of _ f] exI [of _ k]) (use assms in blast)

lemma advanced_same: "job_ok env (job_keys j (im_claims s)) headers rows k job w1 \<Longrightarrow> advanced env j headers rows job w1 s s"
  by (rule advancedI [where f = "\<lambda>x. x"]) simp_all

lemma at_row_advances:
  assumes "job_ok env (job_keys j (im_claims s)) headers rows k job (At_row r)"
    and "work env now newId camp j (At_row r) s = (w1, t)"
  shows "advanced env j headers rows job w1 s t"
proof -
  let ?ks = "job_keys j (im_claims s)"
  let ?v = "validateRow (rows ! k) headers (int k + 2)"
  have ok: "r = run_at headers rows k job" "accounted ?ks k (ij_errors job) (ij_errorRows job)" "k \<le> length rows"
    using assms(1) by (simp_all add: job_ok_def)
  have rest: "job_ok env ?ks headers rows k job w'" if "worker_ok ?ks headers rows k job w'" for w'
    using assms(1) that by (simp add: job_ok_def)
  consider "length rows \<le> k" | "k < length rows" "isCancellationRequested j s"
    | "k < length rows" "\<not> isCancellationRequested j s" "has_row ?ks k"
    | "k < length rows" "\<not> isCancellationRequested j s" "\<not> has_row ?ks k" "\<not> vr_valid ?v"
    | "k < length rows" "\<not> isCancellationRequested j s" "\<not> has_row ?ks k" "vr_valid ?v" by linarith
  then show ?thesis
  proof cases
    case 1
    with assms(2) ok have w1: "w1 = Resting" and t: "t = completeJob now j (int k) (ij_errorRows job) (ij_errors job)
        (if ij_errors job \<noteq> [] then Some (''/recipient-import/'' @ j @ ''/report'') else None) None s"
      by (auto simp: run_at_def)
    let ?f = "\<lambda>x. x\<lparr>ij_status := if 0 < ij_errorRows job then Imp_failed else Imp_completed, ij_processedRows := int k,
      ij_errorRows := ij_errorRows job, ij_checkpointRow := int k, ij_errors := ij_errors job,
      ij_reportUrl := if ij_errors job \<noteq> [] then Some (''/recipient-import/'' @ j @ ''/report'') else None, ij_completedAt := Some now\<rparr>"
    have "0 \<le> ij_errorRows job" using ok(2) by (simp add: accounted_def)
    with assms(1) 1 ok(3) have "job_ok env ?ks headers rows k (?f job) w1" by (simp add: w1 job_ok_def)
    then show ?thesis
      by (intro advancedI [where f = ?f and k = k]) (simp_all add: t completeJob_def import_audit_def update_job_def Let_def)
  next
    case 2
    with assms(2) ok have "w1 = Resting" "t = s" by (simp_all add: run_at_def)
    with rest [of w1] show ?thesis by (simp add: advanced_same [where k = k])
  next
    case 3
    then have "w1 = Saving (r\<lparr>ir_processed := max (int k) (int k + 1)\<rparr>)" "t = s"
      using assms(2) ok imported_row [of j k s] by (simp_all add: run_at_def add.commute)
    moreover have "accounted ?ks (Suc k) (ij_errors job) (ij_errorRows job)" by (rule accounted_claim [OF ok(2) 3(3)])
    ultimately show ?thesis using rest [of w1] 3(1) ok(1) by (simp add: advanced_same [where k = k] run_at_def)
  next
    case 4
    then have "w1 = Saving (row_failed (vr_errors ?v) r)" "t = s"
      using assms(2) ok imported_row [of j k s] by (simp_all add: run_at_def add.commute)
    moreover have "accounted ?ks (Suc k) (ij_errors job @ vr_errors ?v) (ij_errorRows job + 1)"
      using accounted_error [OF ok(2) 4(3)] invalid_row_errors [OF 4(4)] by blast
    ultimately show ?thesis using rest [of w1] 4(1) ok(1) by (simp add: advanced_same [where k = k] run_at_def row_failed_def)
  next
    case 5
    then have "w1 = Creating r ?v" "t = s"
      using assms(2) ok imported_row [of j k s] by (simp_all add: run_at_def add.commute)
    with 5 rest [of w1] ok(1) show ?thesis by (simp add: advanced_same [where k = k])
  qed
qed

lemma creating_advances:
  assumes "job_ok env (job_keys j (im_claims s)) headers rows k job (Creating r v)" and "ij_id job = j"
    and "work env now newId (ij_campaignId job) j (Creating r v) s = (w1, t)"
  shows "advanced env j headers rows job w1 s t"
proof -
  let ?ks = "job_keys j (im_claims s)" and ?dto = "claim_of_row (ij_campaignId job) j (int k + 2) v"
  obtain res cs where c: "create env now newId ?dto (im_claims s) = (res, cs)" by fastforce
  have ok: "r = run_at headers rows k job" "k < length rows" "v = validateRow (rows ! k) headers (int k + 2)" "vr_valid v"
    "\<not> has_row ?ks k" "accounted ?ks k (ij_errors job) (ij_errorRows job)"
    using assms(1) by (auto simp: job_ok_def)
  have t: "t = s\<lparr>im_claims := cs\<rparr>" using assms(3) c ok(1) by (simp add: run_at_def Let_def)
  show ?thesis
  proof (cases res)
    case (Inl e)
    have keys: "job_keys i cs = job_keys i (im_claims s)" for i
      using create_import [OF c] Inl by (simp add: job_keys_def)
    have "\<not> isDuplicateImportedRow e"
    proof
      assume "isDuplicateImportedRow e"
      with c Inl have "import_row_taken ?dto (im_claims s)" using duplicate_import by blast
      then have "has_row ?ks k"
        by (auto simp: import_row_taken_def claim_of_row_def has_row_def job_keys_def import_key_def)
      with ok(5) show False by simp
    qed
    then have "w1 = Saving (row_failed [\<lparr>ie_row = int k + 2, ie_field = ''claim'', ie_message = error_message e, ie_value = None\<rparr>] r)"
      using assms(3) c ok(1) Inl by (simp add: run_at_def Let_def)
    moreover have "accounted ?ks (Suc k)
        (ij_errors job @ [\<lparr>ie_row = int k + 2, ie_field = ''claim'', ie_message = error_message e, ie_value = None\<rparr>]) (ij_errorRows job + 1)"
      by (rule accounted_error [OF ok(6,5)]) simp_all
    ultimately have "job_ok env ?ks headers rows k job w1"
      using assms(1) ok(1,2) by (simp add: job_ok_def run_at_def row_failed_def)
    then show ?thesis by (intro advancedI [where f = "\<lambda>x. x" and k = k]) (simp_all add: t keys)
  next
    case (Inr c')
    let ?x = "row_key env (ij_campaignId job) j headers (rows ! k) k"
    have x: "fst (snd ?x) = Some (int k + 2)" "fst ?x = Some j" by (simp_all add: row_key_def Let_def)
    have "map import_key (cs_claims cs) = map import_key (cs_claims (im_claims s)) @ [?x]"
      using create_import [OF c] Inr ok(3) by (simp add: claim_of_row_def row_key_def Let_def)
    then have keys: "job_keys i cs = (if i = j then ?ks @ [?x] else job_keys i (im_claims s))" for i
      using x(2) by (simp add: job_keys_def)
    have "w1 = Saving (r\<lparr>ir_processed := int k + 1\<rparr>)" using assms(3) c ok(1) Inr by (simp add: run_at_def Let_def)
    moreover have new: "accounted (?ks @ [?x]) k (ij_errors job) (ij_errorRows job)" by (rule accounted_new [OF ok(6) x(1)])
    moreover have "accounted (?ks @ [?x]) (Suc k) (ij_errors job) (ij_errorRows job)"
      by (rule accounted_claim [OF new]) (simp add: has_row_def x(1))
    moreover have "Some (int k + 2) \<notin> (\<lambda>k. fst (snd k)) ` set ?ks" using ok(5) by (force simp: has_row_def)
    then have "keys_ok env (ij_campaignId job) (ij_id job) headers rows (?ks @ [?x])"
      using assms(1,2) x(1) ok(2,3,4) by (auto simp: job_ok_def keys_ok_def)
    ultimately have "job_ok env (?ks @ [?x]) headers rows k job w1"
      using assms(1) ok(1,2) by (simp add: job_ok_def run_at_def)
    then show ?thesis by (intro advancedI [where f = "\<lambda>x. x" and k = k]) (simp_all add: t keys)
  qed
qed

lemma saving_advances:
  assumes "job_ok env (job_keys j (im_claims s)) headers rows k job (Saving r)"
    and "work env now newId camp j (Saving r) s = (w1, t)"
  shows "advanced env j headers rows job w1 s t"
proof -
  let ?f = "\<lambda>x. x\<lparr>ij_processedRows := ir_processed r, ij_errorRows := ir_errorRows r, ij_checkpointRow := ir_processed r, ij_errors := ir_errors r\<rparr>"
  have r: "ir_headers r = headers" "ir_rows r = rows" "ir_at r = k" "k < length rows" "ir_processed r = int k + 1"
    "accounted (job_keys j (im_claims s)) (Suc k) (ir_errors r) (ir_errorRows r)" using assms(1) by (simp_all add: job_ok_def)
  have w1: "w1 = At_row (r\<lparr>ir_at := Suc k\<rparr>)" and t: "t = updateJobProgress j (ir_processed r) (ir_errorRows r) (ir_errors r) s"
    using assms(2) r(3) by simp_all
  have "r\<lparr>ir_at := Suc k\<rparr> = run_at headers rows (Suc k) (?f job)" using r by (simp add: run_at_def)
  then have "job_ok env (job_keys j (im_claims s)) headers rows (Suc k) (?f job) w1"
    using assms(1) r by (auto simp: job_ok_def w1)
  then show ?thesis
    by (intro advancedI [where f = ?f and k = "Suc k"]) (simp_all add: t updateJobProgress_def update_job_def)
qed

lemma work_advances:
  assumes "job_ok env (job_keys j (im_claims s)) headers rows k job w" and "ij_id job = j"
    and "work env now newId (ij_campaignId job) j w s = (w1, t)"
  shows "advanced env j headers rows job w1 s t"
proof (cases w)
  case Resting
  with assms show ?thesis by (simp add: advanced_same [where k = k])
next
  case (At_row r)
  with assms at_row_advances show ?thesis by blast
next
  case (Creating r v)
  with assms creating_advances show ?thesis by blast
next
  case (Saving r)
  with assms saving_advances show ?thesis by blast
qed

lemma inv_work:
  assumes "imp_inv env (w, s)" and "find_job j s = Some job"
    and "work env now newId (ij_campaignId job) j (w j) s = (w1, t)"
  shows "imp_inv env (w(j := w1), t)"
proof -
  have job: "job \<in> set (im_jobs s)" "ij_id job = j" using find_row_SomeD [OF assms(2) [unfolded find_job_def]] by simp_all
  obtain headers rows k where table: "job_table (im_files s) job = Some (headers, rows)"
    and ok: "job_ok env (job_keys j (im_claims s)) headers rows k job (w j)"
    using imp_invD [OF assms(1) job(1)] job(2) by metis
  from work_advances [OF ok job(2) assms(3)] obtain f k' where
    t: "im_files t = im_files s" "im_jobs t = update_where (\<lambda>x. ij_id x = j) f (im_jobs s)"
      "\<And>x. ij_id (f x) = ij_id x" "\<And>x. ij_filePath (f x) = ij_filePath x"
      "\<And>i. i \<noteq> j \<Longrightarrow> job_keys i (im_claims t) = job_keys i (im_claims s)"
      "job_ok env (job_keys j (im_claims t)) headers rows k' (f job) w1"
    unfolding advanced_def by blast
  have "job_table (im_files s) (f job) = Some (headers, rows)" using table t(4) by (simp add: job_table_def)
  with t(6) have "job_inv env (im_files s) (job_keys j (im_claims t)) (f job) w1" by (rule job_invI [rotated])
  then show ?thesis
    using inv_one [OF assms(1) t(1) t(5) t(2,3), of w1] found_job [OF assms(1,2)] job by blast
qed

lemma count_where_pos: "0 < count_where p rows \<longleftrightarrow> (\<exists>r \<in> set rows. p r)"
  by (auto simp: count_where_def filter_empty_conv)

text \<open>A delivery marks the job as processing, unless it was cancelled, and starts at its checkpoint.\<close>

definition mark_started :: "time \<Rightarrow> import_job \<Rightarrow> import_job" where
  "mark_started now x = (if ij_status x = Imp_cancelled then x else x\<lparr>ij_status := Imp_processing, ij_startedAt := Some now\<rparr>)"

lemma mark_started_fields [simp]:
  "ij_id (mark_started now x) = ij_id x" "ij_filePath (mark_started now x) = ij_filePath x"
  "ij_totalRows (mark_started now x) = ij_totalRows x" "ij_campaignId (mark_started now x) = ij_campaignId x"
  "ij_processedRows (mark_started now x) = ij_processedRows x" "ij_checkpointRow (mark_started now x) = ij_checkpointRow x"
  "ij_errors (mark_started now x) = ij_errors x" "ij_errorRows (mark_started now x) = ij_errorRows x"
  "ij_status (mark_started now x) = (if ij_status x = Imp_cancelled then Imp_cancelled else Imp_processing)"
  by (simp_all add: mark_started_def)

lemma start_found:
  assumes "find_job j s = Some job" and "imp_inv env (w, s)"
    and "job_table (im_files s) job = Some (headers, rows)" "ij_processedRows job = int k" "ij_checkpointRow job = int k"
  shows "start_import now j s =
    (if ij_status job = Imp_cancelled then Resting else At_row (run_at headers rows k job),
     s\<lparr>im_jobs := update_where (\<lambda>x. ij_id x = j) (mark_started now) (im_jobs s)\<rparr>)"
proof -
  let ?s1 = "s\<lparr>im_jobs := update_where (\<lambda>x. ij_id x = j) (mark_started now) (im_jobs s)\<rparr>"
  have job: "job \<in> set (im_jobs s)" "ij_id job = j" using find_row_SomeD [OF assms(1) [unfolded find_job_def]] by simp_all
  have same: "update_where (\<lambda>x. ij_id x = j \<and> ij_status x \<noteq> Imp_cancelled)
      (\<lambda>x. x\<lparr>ij_status := Imp_processing, ij_startedAt := Some now\<rparr>) rows = update_where (\<lambda>x. ij_id x = j) (mark_started now) rows" for rows
    by (simp add: update_where_def mark_started_def)
  have "0 < count_where (\<lambda>x. ij_id x = j \<and> ij_status x \<noteq> Imp_cancelled) (im_jobs s) \<longleftrightarrow> ij_status job \<noteq> Imp_cancelled"
    unfolding count_where_pos using job found_job [OF assms(2,1)] by blast
  then have start: "setJobProcessing now j s = (ij_status job \<noteq> Imp_cancelled, ?s1)" by (simp add: setJobProcessing_def Let_def same)
  have f1: "find_job j ?s1 = Some (mark_started now job)"
    using find_row_update_where [of "\<lambda>x. ij_id x = j" "mark_started now" "\<lambda>x. ij_id x = j" "im_jobs s"] assms(1) job(2)
    by (simp add: find_job_def)
  have "map_option parseCsv (Option.bind (ij_filePath (mark_started now job)) (im_files s)) = Some (Inr (headers, rows))"
    using assms(3) by (auto simp: job_table_def split: option.splits sum.splits)
  with start f1 assms(4,5) show ?thesis by (auto simp: start_import_def Let_def run_at_def)
qed

lemma inv_deliver:
  assumes "imp_inv env (w, s)" and "w j = Resting" and "start_import now j s = (w1, t)"
  shows "imp_inv env (w(j := w1), t\<lparr>im_queue := q\<rparr>)"
proof (cases "find_job j s")
  case None
  then have "count_where (\<lambda>x. ij_id x = j \<and> ij_status x \<noteq> Imp_cancelled) (im_jobs s) = 0" and
    no: "j \<notin> ij_id ` set (im_jobs s)" by (auto simp: count_where_0_iff find_job_def find_row_None_iff)
  moreover from no have "update_where (\<lambda>x. ij_id x = j \<and> ij_status x \<noteq> Imp_cancelled) g (im_jobs s) = im_jobs s" for g
    by (intro update_where_ident) auto
  ultimately have "w1 = Resting" "im_jobs t = im_jobs s" "im_files t = im_files s" "im_claims t = im_claims s"
    using assms(3) by (auto simp: start_import_def setJobProcessing_def Let_def)
  then show ?thesis using inv_stop [OF assms(1), of j] by (simp add: imp_inv_def)
next
  case (Some job)
  have job: "job \<in> set (im_jobs s)" "ij_id job = j" using find_row_SomeD [OF Some [unfolded find_job_def]] by simp_all
  obtain headers rows k where table: "job_table (im_files s) job = Some (headers, rows)"
    and ok: "job_ok env (job_keys j (im_claims s)) headers rows k job (w j)"
    using imp_invD [OF assms(1) job(1)] job(2) by metis
  then have "ij_processedRows job = int k" "ij_checkpointRow job = int k" by (simp_all add: job_ok_def)
  from start_found [OF Some assms(1) table this, of now] assms(3)
  have t: "t = s\<lparr>im_jobs := update_where (\<lambda>x. ij_id x = j) (mark_started now) (im_jobs s)\<rparr>"
    and w1: "w1 = (if ij_status job = Imp_cancelled then Resting else At_row (run_at headers rows k job))" by simp_all
  have "job_ok env (job_keys j (im_claims s)) headers rows k job w1" using ok by (simp add: job_ok_def w1)
  then have "job_ok env (job_keys j (im_claims s)) headers rows k (mark_started now job) w1"
    by (rule job_ok_status) simp_all
  moreover have "job_table (im_files s) (mark_started now job) = Some (headers, rows)" using table by (simp add: job_table_def)
  ultimately have "job_inv env (im_files s) (job_keys j (im_claims s)) (mark_started now job) w1" by (rule job_invI [rotated])
  then have here: "job_inv env (im_files s) (job_keys j (im_claims s)) (mark_started now x) w1"
    if "x \<in> set (im_jobs s)" "ij_id x = j" for x
    unfolding found_job [OF assms(1) Some that] .
  show ?thesis
  proof (rule inv_one [OF assms(1), where f = "mark_started now"])
    show "j \<notin> ij_id ` set (im_jobs s) \<Longrightarrow> w1 = Resting" using job by blast
  qed (simp_all add: t here)
qed

lemma inv_cancel:
  assumes "imp_inv env (w, s)" and "cancelJob now j s = (x, t)"
  shows "imp_inv env (w, t)"
proof (cases "\<exists>job. find_job j s = Some job \<and> ij_status job \<notin> {Imp_completed, Imp_failed, Imp_cancelled}")
  case False
  then have "t = s" using assms(2) by (auto simp: cancelJob_def Let_def split: option.splits if_splits)
  with assms(1) show ?thesis by simp
next
  case True
  then obtain job where f: "find_job j s = Some job" "ij_status job \<notin> {Imp_completed, Imp_failed, Imp_cancelled}" by blast
  let ?g = "\<lambda>x. x\<lparr>ij_status := Imp_cancelled, ij_cancelledAt := Some now, ij_completedAt := Some now\<rparr>"
  have t: "im_jobs t = update_where (\<lambda>x. ij_id x = j) ?g (im_jobs s)" "im_files t = im_files s" "job_keys i (im_claims t) = job_keys i (im_claims s)" for i
    using assms(2) f by (auto simp: cancelJob_def Let_def import_audit_def update_job_def)
  have "imp_inv env (w(j := w j), t)"
  proof (rule inv_one [OF assms(1) t(2,3,1)])
    fix job' assume job': "job' \<in> set (im_jobs s)" "ij_id job' = j"
    obtain headers rows k where table: "job_table (im_files s) job' = Some (headers, rows)"
      and ok: "job_ok env (job_keys j (im_claims s)) headers rows k job' (w j)"
      using imp_invD [OF assms(1) job'(1)] job'(2) by metis
    have "job_ok env (job_keys j (im_claims s)) headers rows k (?g job') (w j)" by (rule job_ok_status [OF ok]) simp_all
    moreover have "job_table (im_files s) (?g job') = Some (headers, rows)" using table by (simp add: job_table_def)
    ultimately show "job_inv env (im_files s) (job_keys j (im_claims t)) (?g job') (w j)" unfolding t(3) by (rule job_invI [rotated])
  qed (use assms(1) in \<open>simp_all add: imp_inv_def\<close>)
  then show ?thesis by simp
qed

lemma queue_same [simp]:
  "im_jobs (queue_import j s) = im_jobs s" "im_files (queue_import j s) = im_files s" "im_claims (queue_import j s) = im_claims s"
  by (simp_all add: queue_import_def)

lemma resume_same:
  "im_jobs (resumeInterruptedJobs s) = im_jobs s \<and> im_files (resumeInterruptedJobs s) = im_files s \<and>
   im_claims (resumeInterruptedJobs s) = im_claims s"
proof -
  have "im_jobs (fold (\<lambda>job t. if truthy (ij_filePath job) then queue_import (ij_id job) t else t) jobs s) = im_jobs s \<and>
    im_files (fold (\<lambda>job t. if truthy (ij_filePath job) then queue_import (ij_id job) t else t) jobs s) = im_files s \<and>
    im_claims (fold (\<lambda>job t. if truthy (ij_filePath job) then queue_import (ij_id job) t else t) jobs s) = im_claims s" for jobs
    by (induction jobs arbitrary: s) simp_all
  then show ?thesis by (simp add: resumeInterruptedJobs_def)
qed

lemma table_more: "job_table files job = Some x \<Longrightarrow> files \<subseteq>\<^sub>m files' \<Longrightarrow> job_table files' job = Some x"
  by (auto simp: job_table_def map_le_def dom_def split: option.splits sum.splits Option.bind_splits)

lemma inv_new_upload:
  assumes "imp_inv env (w, s)" and "newId \<notin> ij_id ` set (im_jobs s)" and "job_keys newId (im_claims s) = []"
    and "\<And>name content. file = Some (name, content) \<Longrightarrow> im_files s (upload_path now name) = None"
    and "upload now newId file campaignId s = (x, t)"
  shows "imp_inv env (w, t)"
proof -
  have jobs: "im_jobs t = im_jobs s \<and> im_files s \<subseteq>\<^sub>m im_files t \<and> (\<forall>j. job_keys j (im_claims t) = job_keys j (im_claims s)) \<or>
    (\<exists>name content headers rows camp. im_files t = (im_files s)(upload_path now name \<mapsto> content) \<and> im_files s \<subseteq>\<^sub>m im_files t \<and>
       parseCsv content = Inr (headers, rows) \<and> (\<forall>j. job_keys j (im_claims t) = job_keys j (im_claims s)) \<and>
       im_jobs t = im_jobs s @ [new_job now newId camp name (upload_path now name) (int (length rows))])"
  proof (cases "file")
    case None
    with assms(5) show ?thesis by (simp add: upload_def)
  next
    case (Some p)
    then obtain name content where p: "file = Some (name, content)" by (cases p) auto
    have more: "im_files s \<subseteq>\<^sub>m (im_files s)(upload_path now name \<mapsto> content)" using assms(4) [OF p] by (auto simp: map_le_def)
    show ?thesis
    proof (cases "truthy campaignId \<and> ends_with name ''.csv'' \<and> find_campaign (the campaignId) (im_claims s) \<noteq> None \<and>
        (\<exists>headers rows. parseCsv content = Inr (headers, rows) \<and> rows \<noteq> [])")
      case True
      then obtain headers rows where parse: "parseCsv content = Inr (headers, rows)" "rows \<noteq> []" by blast
      with True assms(5) p have "im_files t = (im_files s)(upload_path now name \<mapsto> content) \<and>
          (\<forall>j. job_keys j (im_claims t) = job_keys j (im_claims s)) \<and>
          im_jobs t = im_jobs s @ [new_job now newId (the campaignId) name (upload_path now name) (int (length rows))]"
        by (auto simp: upload_def createJob_def import_audit_def Let_def)
      with parse more show ?thesis
        by (intro disjI2 exI [of _ name] exI [of _ content] exI [of _ headers] exI [of _ rows] exI [of _ "the campaignId"]) simp
    next
      case False
      with assms(5) p more show ?thesis
        by (intro disjI1) (auto simp: upload_def createJob_def Let_def split: if_splits sum.splits)
    qed
  qed
  have keep: "job_inv env (im_files t) (job_keys (ij_id job) (im_claims t)) job (w (ij_id job))" if old: "job \<in> set (im_jobs s)" for job
  proof -
    obtain headers rows k where table: "job_table (im_files s) job = Some (headers, rows)"
      and ok: "job_ok env (job_keys (ij_id job) (im_claims s)) headers rows k job (w (ij_id job))"
      using imp_invD [OF assms(1) old] by metis
    from jobs have more: "im_files s \<subseteq>\<^sub>m im_files t" and keys: "job_keys (ij_id job) (im_claims t) = job_keys (ij_id job) (im_claims s)"
      by blast+
    show ?thesis unfolding keys by (rule job_invI [OF table_more [OF table more] ok])
  qed
  from jobs show ?thesis
  proof
    assume "im_jobs t = im_jobs s \<and> im_files s \<subseteq>\<^sub>m im_files t \<and> (\<forall>j. job_keys j (im_claims t) = job_keys j (im_claims s))"
    with assms(1) keep show ?thesis by (simp add: imp_inv_def)
  next
    assume "\<exists>name content headers rows camp. im_files t = (im_files s)(upload_path now name \<mapsto> content) \<and> im_files s \<subseteq>\<^sub>m im_files t \<and>
       parseCsv content = Inr (headers, rows) \<and> (\<forall>j. job_keys j (im_claims t) = job_keys j (im_claims s)) \<and>
       im_jobs t = im_jobs s @ [new_job now newId camp name (upload_path now name) (int (length rows))]"
    then obtain name content headers rows camp where t: "im_files t = (im_files s)(upload_path now name \<mapsto> content)"
      "parseCsv content = Inr (headers, rows)" "\<And>j. job_keys j (im_claims t) = job_keys j (im_claims s)"
      "im_jobs t = im_jobs s @ [new_job now newId camp name (upload_path now name) (int (length rows))]" by blast
    let ?new = "new_job now newId camp name (upload_path now name) (int (length rows))"
    have "job_table (im_files t) ?new = Some (headers, rows)" using t(1,2) by (simp add: job_table_def new_job_def)
    moreover have "job_ok env [] headers rows 0 ?new Resting"
      by (simp add: job_ok_def new_job_def keys_ok_def accounted_def)
    ultimately have "job_inv env (im_files t) [] ?new Resting" by (rule job_invI)
    then show ?thesis using assms(1,2,3) keep t(3,4) by (auto simp: imp_inv_def new_job_def)
  qed
qed

lemma import_step_inv:
  assumes "import_step env ws wt" and "imp_inv env ws"
  shows "imp_inv env wt"
  using assms(1)
proof (cases rule: import_step.cases)
  case (uploads newId s upl now campaignId x t w)
  have "job_keys newId (im_claims s) = []"
    using uploads(4) by (auto simp: job_keys_def filter_empty_conv import_key_def image_iff)
  with uploads inv_new_upload assms(2) show ?thesis by blast
next
  case (delivers w j now s w1 t)
  with inv_deliver assms(2) show ?thesis by blast
next
  case (works j s job newId now w w1 t)
  with inv_work assms(2) show ?thesis by blast
next
  case (stops w s j)
  with inv_stop assms(2) show ?thesis by blast
next
  case (resumes w s)
  with assms(2) resume_same [of s] show ?thesis by (simp add: imp_inv_def)
next
  case (cancels now j s x t w)
  with inv_cancel assms(2) show ?thesis by blast
next
  case (other_requests reissuing s cs w)
  have "job_keys (ij_id job) cs = job_keys (ij_id job) (im_claims s)" if "job \<in> set (im_jobs s)" for job
    by (rule other_requests_keys [OF other_requests(3)]) (use other_requests(4) that in blast)
  with other_requests assms(2) show ?thesis by (simp add: imp_inv_def)
qed

interpretation imp_runs: inv_system "import_step env" "imp_inv env" for env
  by unfold_locales (rule import_step_inv)

section \<open>Every row is accounted for\<close>

definition claims_of_row :: "ident \<Rightarrow> int \<Rightarrow> import_state \<Rightarrow> claim list" where
  "claims_of_row j n s = filter (\<lambda>c. cl_importJobId c = Some j \<and> cl_importRowNumber c = Some n) (cs_claims (im_claims s))"

text \<open>A row that was imported: one claim, for the campaign of the job, with what the row says.\<close>

definition imported_as_said :: "claims_env \<Rightarrow> import_job \<Rightarrow> string list \<Rightarrow> string list \<Rightarrow> int \<Rightarrow> import_state \<Rightarrow> bool" where
  "imported_as_said env job headers row n s \<longleftrightarrow> (\<exists>c. claims_of_row (ij_id job) n s = [c] \<and>
     (let v = validateRow row headers n
      in vr_valid v \<and> cl_campaignId c = ij_campaignId job \<and> cl_amount c = the (vr_amount v) \<and>
         cl_recipientRef c = ce_encrypt env (the (vr_recipientRef v)) \<and> cl_evidenceRef c = vr_evidenceRef v))"

lemma row_keys_filter: "map import_key (claims_of_row j n s) = filter (\<lambda>k. fst (snd k) = Some n) (job_keys j (im_claims s))"
  by (simp add: claims_of_row_def job_keys_def filter_map o_def import_key_def conj_commute)

lemma no_row_claims: "claims_of_row j (int i + 2) s = [] \<longleftrightarrow> \<not> has_row (job_keys j (im_claims s)) i"
proof -
  have "claims_of_row j (int i + 2) s = [] \<longleftrightarrow> map import_key (claims_of_row j (int i + 2) s) = []" by simp
  then show ?thesis unfolding row_keys_filter by (auto simp: filter_empty_conv has_row_def)
qed

lemma imported_row_claim:
  assumes "keys_ok env (ij_campaignId job) (ij_id job) headers rows (job_keys (ij_id job) (im_claims s))"
    and "has_row (job_keys (ij_id job) (im_claims s)) i"
  shows "imported_as_said env job headers (rows ! i) (int i + 2) s"
proof -
  let ?ks = "job_keys (ij_id job) (im_claims s)"
  obtain x where x: "x \<in> set ?ks" "fst (snd x) = Some (int i + 2)" using assms(2) by (auto simp: has_row_def)
  then obtain i' where "vr_valid (validateRow (rows ! i') headers (int i' + 2))"
    "x = row_key env (ij_campaignId job) (ij_id job) headers (rows ! i') i'"
    using assms(1) by (auto simp: keys_ok_def)
  with x(2) have v: "vr_valid (validateRow (rows ! i) headers (int i + 2))"
    "x = row_key env (ij_campaignId job) (ij_id job) headers (rows ! i) i" by (auto simp: row_key_def Let_def)
  have "map import_key (claims_of_row (ij_id job) (int i + 2) s) = [x]"
    unfolding row_keys_filter using assms(1) x filter_key_single [of "\<lambda>k. fst (snd k)" ?ks x "Some (int i + 2)"]
    by (simp add: keys_ok_def)
  then obtain c where "claims_of_row (ij_id job) (int i + 2) s = [c]" "import_key c = x" by blast
  with v show ?thesis by (auto simp: imported_as_said_def import_key_def row_key_def Let_def)
qed

text \<open>
  C11. An import loses no row and imports none twice, as long as no client creates a claim under the id of an import
  there is (the public request lets one do so). Once a job has ended, however often its worker was lost and started
  again, every row of its file either has exactly one claim, which says what the
  row says, or an error, and not both; the counters tell how many, and the job is completed exactly if
  every row has its claim.
\<close>

theorem import_accounts_for_rows:
  assumes "(import_step env)\<^sup>*\<^sup>* (\<lambda>_. Resting, s0) (w, s)" and "im_jobs s0 = []"
    and "job \<in> set (im_jobs s)" "ij_status job \<in> {Imp_completed, Imp_failed}"
  shows "\<exists>headers rows. job_table (im_files s) job = Some (headers, rows) \<and>
    ij_totalRows job = int (length rows) \<and> ij_processedRows job = int (length rows) \<and>
    (\<forall>i < length rows. if claims_of_row (ij_id job) (int i + 2) s = [] then has_error (ij_errors job) i
       else imported_as_said env job headers (rows ! i) (int i + 2) s \<and> \<not> has_error (ij_errors job) i) \<and>
    ij_errorRows job = int (length (filter (\<lambda>i. claims_of_row (ij_id job) (int i + 2) s = []) [0..<length rows])) \<and>
    (ij_status job = Imp_completed \<longleftrightarrow> ij_errorRows job = 0)"
proof -
  have "imp_inv env (w, s)" by (rule imp_runs.run_keeps [OF assms(1)]) (simp add: imp_inv_def assms(2))
  from imp_invD [OF this assms(3)] obtain headers rows k where table: "job_table (im_files s) job = Some (headers, rows)"
    and ok: "job_ok env (job_keys (ij_id job) (im_claims s)) headers rows k job (w (ij_id job))" by metis
  let ?ks = "job_keys (ij_id job) (im_claims s)"
  have acc: "accounted ?ks (length rows) (ij_errors job) (ij_errorRows job)"
    and keys: "keys_ok env (ij_campaignId job) (ij_id job) headers rows ?ks"
    and counts: "ij_totalRows job = int (length rows)" "ij_processedRows job = int (length rows)"
      "ij_status job = Imp_completed \<longleftrightarrow> ij_errorRows job = 0"
    using ok assms(4) by (auto simp: job_ok_def)
  have "length (filter (\<lambda>i. claims_of_row (ij_id job) (int i + 2) s = []) [0..<length rows]) = card {i. i < length rows \<and> \<not> has_row ?ks i}"
    by (simp add: length_filter_conv_card no_row_claims cong: conj_cong)
  with table counts acc imported_row_claim [OF keys] show ?thesis
    unfolding accounted_def no_row_claims by (intro exI [of _ headers] exI [of _ rows]) auto
qed

section \<open>A run ends\<close>

fun steps_left :: "worker \<Rightarrow> nat" where
  "steps_left Resting = 0"
| "steps_left (At_row r) = 3 * (length (ir_rows r) - ir_at r) + 1"
| "steps_left (Creating r v) = 3 * (length (ir_rows r) - ir_at r)"
| "steps_left (Saving r) = 3 * (length (ir_rows r) - ir_at r) - 1"

fun within_rows :: "worker \<Rightarrow> bool" where
  "within_rows (Creating r v) \<longleftrightarrow> ir_at r < length (ir_rows r)"
| "within_rows (Saving r) \<longleftrightarrow> ir_at r < length (ir_rows r)"
| "within_rows w \<longleftrightarrow> True"

definition job_status :: "ident \<Rightarrow> import_state \<Rightarrow> import_status option" where
  "job_status j s = map_option ij_status (find_job j s)"

lemma status_update:
  assumes "\<And>x. ij_id (f x) = ij_id x"
  shows "job_status j (update_job i f s) = (if i = j then map_option (\<lambda>x. ij_status (f x)) (find_job j s) else job_status j s)"
proof -
  have f: "find_job j (update_job i f s) = map_option (\<lambda>x. if ij_id x = i then f x else x) (find_job j s)"
    unfolding find_job_def update_job_def by (simp add: find_row_update_where assms)
  show ?thesis
  proof (cases "find_job j s")
    case (Some x)
    then have "ij_id x = j" unfolding find_job_def by (rule find_row_SomeD)
    with f Some show ?thesis by (auto simp: job_status_def)
  qed (simp add: f job_status_def)
qed

lemma status_audit [simp]: "job_status j (import_audit now i act m s) = job_status j s" "job_status j (s\<lparr>im_claims := cs\<rparr>) = job_status j s"
  by (simp_all add: job_status_def find_job_def import_audit_def)

lemma progress_status: "job_status j (updateJobProgress j p n es s) = job_status j s"
  unfolding updateJobProgress_def by (subst status_update) (simp_all add: job_status_def)

lemma complete_status:
  assumes "job_status j s = Some st"
  shows "job_status j (completeJob now j p n es url None s) \<in> {Some Imp_completed, Some Imp_failed}"
proof -
  obtain job where "find_job j s = Some job" using assms by (auto simp: job_status_def)
  then show ?thesis unfolding completeJob_def Let_def status_audit by (subst status_update) simp_all
qed

lemma work_progress:
  assumes "work env now newId camp j w s = (w1, t)" and "within_rows w" "w \<noteq> Resting"
    and "job_status j s = Some st" "st \<noteq> Imp_cancelled"
  shows "w1 = Resting \<and> job_status j t \<in> {Some Imp_completed, Some Imp_failed} \<or>
    w1 \<noteq> Resting \<and> within_rows w1 \<and> steps_left w1 < steps_left w \<and> job_status j t = Some st"
proof (cases w)
  case (At_row r)
  show ?thesis
  proof (cases "length (ir_rows r) \<le> ir_at r")
    case True
    then have "w1 = Resting" "t = completeJob now j (ir_processed r) (ir_errorRows r) (ir_errors r)
        (if ir_errors r \<noteq> [] then Some (''/recipient-import/'' @ j @ ''/report'') else None) None s"
      using assms(1) At_row by simp_all
    then show ?thesis using complete_status [OF assms(4)] by blast
  next
    case False
    moreover have "\<not> isCancellationRequested j s" using assms(4,5) by (auto simp: isCancellationRequested_def job_status_def)
    ultimately show ?thesis using assms(1,4) At_row by (auto simp: Let_def row_failed_def split: if_splits)
  qed
next
  case (Creating r v)
  then show ?thesis using assms(1,2,4) by (auto simp: Let_def row_failed_def split: prod.splits sum.splits if_splits)
next
  case (Saving r)
  then show ?thesis using assms(1,2,4) progress_status by auto
qed (use assms(3) in simp)

lemma work_on_resting: "work_on n env clk ids camp j Resting s = (Resting, s)"
  by (induction n) simp_all

lemma work_on_ends:
  assumes "within_rows w" "w \<noteq> Resting" and "job_status j s = Some st" "st \<noteq> Imp_cancelled" and "steps_left w \<le> n"
  shows "\<exists>t. work_on n env clk ids camp j w s = (Resting, t) \<and> job_status j t \<in> {Some Imp_completed, Some Imp_failed}"
  using assms
proof (induction n arbitrary: w s)
  case 0
  then show ?case by (cases w) auto
next
  case (Suc n)
  obtain w1 s1 where w1: "work env (clk n) (ids n) camp j w s = (w1, s1)" by fastforce
  from work_progress [OF w1 Suc.prems(1-4)] show ?case
  proof
    assume "w1 = Resting \<and> job_status j s1 \<in> {Some Imp_completed, Some Imp_failed}"
    with w1 show ?thesis by (simp add: work_on_resting)
  next
    assume "w1 \<noteq> Resting \<and> within_rows w1 \<and> steps_left w1 < steps_left w \<and> job_status j s1 = Some st"
    with Suc.IH [of w1 s1] Suc.prems(4,5) w1 show ?thesis by simp
  qed
qed

text \<open>
  C32. A run that nothing interrupts ends: whatever state earlier runs left a job in, unless it was
  cancelled, delivering it once more and working on for three actions per row brings it to its end.
\<close>

theorem import_finishes:
  assumes "(import_step env)\<^sup>*\<^sup>* (\<lambda>_. Resting, s0) (w, s)" and "im_jobs s0 = []"
    and "find_job j s = Some job" "ij_status job \<noteq> Imp_cancelled"
  shows "\<exists>w1 s1 t job'. start_import now j s = (w1, s1) \<and>
    work_on (3 * nat (ij_totalRows job) + 1) env clk ids (ij_campaignId job) j w1 s1 = (Resting, t) \<and>
    find_job j t = Some job' \<and> ij_status job' \<in> {Imp_completed, Imp_failed}"
proof -
  have inv: "imp_inv env (w, s)" by (rule imp_runs.run_keeps [OF assms(1)]) (simp add: imp_inv_def assms(2))
  have job: "job \<in> set (im_jobs s)" "ij_id job = j" using find_row_SomeD [OF assms(3) [unfolded find_job_def]] by simp_all
  from imp_invD [OF inv job(1)] obtain headers rows k where table: "job_table (im_files s) job = Some (headers, rows)"
    and ok: "job_ok env (job_keys (ij_id job) (im_claims s)) headers rows k job (w (ij_id job))" by metis
  let ?w = "At_row (run_at headers rows k job)"
    and ?s = "s\<lparr>im_jobs := update_where (\<lambda>x. ij_id x = j) (mark_started now) (im_jobs s)\<rparr>"
  have total: "nat (ij_totalRows job) = length rows" using ok by (simp add: job_ok_def)
  have start: "start_import now j s = (?w, ?s)"
    using start_found [OF assms(3) inv table, of k now] ok assms(4) by (simp add: job_ok_def)
  have "job_status j ?s = Some Imp_processing"
    using status_update [of "mark_started now" j j s] assms(3,4) by (simp add: update_job_def)
  from work_on_ends [OF _ _ this, of ?w "3 * nat (ij_totalRows job) + 1" env clk ids "ij_campaignId job"] obtain t where
    t: "work_on (3 * nat (ij_totalRows job) + 1) env clk ids (ij_campaignId job) j ?w ?s = (Resting, t)"
    "job_status j t \<in> {Some Imp_completed, Some Imp_failed}"
    by (auto simp: run_at_def total)
  then obtain job' where "find_job j t = Some job'" "ij_status job' \<in> {Imp_completed, Imp_failed}"
    by (auto simp: job_status_def)
  with start t(1) show ?thesis by blast
qed

section \<open>Cancellation\<close>

text \<open>A job with nothing left to import: cancelled, or past its last row.\<close>

definition halted :: "ident \<Rightarrow> import_state \<Rightarrow> bool" where
  "halted j s \<longleftrightarrow> (\<exists>job. find_job j s = Some job \<and> (ij_status job = Imp_cancelled \<or> ij_checkpointRow job = ij_totalRows job))"

fun pending :: "worker \<Rightarrow> nat" where
  "pending (Creating r v) = 1"
| "pending w = 0"

definition imports_due :: "ident \<Rightarrow> (ident \<Rightarrow> worker) \<times> import_state \<Rightarrow> nat" where
  "imports_due j ws = (case ws of (w, s) \<Rightarrow> length (job_keys j (im_claims s)) + pending (w j))"

lemma find_job_change:
  assumes "im_jobs t = update_where (\<lambda>x. ij_id x = i) f (im_jobs s)" and "\<And>x. ij_id (f x) = ij_id x"
  shows "find_job j t = map_option (\<lambda>x. if i = j then f x else x) (find_job j s)"
proof -
  have f: "find_job j t = map_option (\<lambda>x. if ij_id x = i then f x else x) (find_job j s)"
    unfolding find_job_def assms(1) by (rule find_row_update_where) (simp add: assms(2))
  show ?thesis
  proof (cases "find_job j s")
    case (Some x)
    then have "ij_id x = j" unfolding find_job_def by (rule find_row_SomeD)
    with f Some show ?thesis by auto
  qed (simp add: f)
qed

lemma halted_change:
  assumes "halted j s" and "im_jobs t = update_where (\<lambda>x. ij_id x = i) f (im_jobs s)" "\<And>x. ij_id (f x) = ij_id x"
    and "\<And>x. i = j \<Longrightarrow> find_job j s = Some x \<Longrightarrow> ij_status x = Imp_cancelled \<or> ij_checkpointRow x = ij_totalRows x \<Longrightarrow>
      ij_status (f x) = Imp_cancelled \<or> ij_checkpointRow (f x) = ij_totalRows (f x)"
  shows "halted j t"
proof -
  obtain job where job: "find_job j s = Some job" "ij_status job = Imp_cancelled \<or> ij_checkpointRow job = ij_totalRows job"
    using assms(1) by (auto simp: halted_def)
  with find_job_change [OF assms(2,3), of j] have "find_job j t = Some (if i = j then f job else job)" by simp
  with job assms(4) [of job] show ?thesis unfolding halted_def by auto
qed

lemma halted_same: "im_jobs t = im_jobs s \<Longrightarrow> halted j s \<Longrightarrow> halted j t"
  by (simp add: halted_def find_job_def)

lemma create_one_import:
  assumes "work env now newId camp j (Creating r v) s = (w1, t)"
  shows "length (job_keys j (im_claims t)) \<le> length (job_keys j (im_claims s)) + 1 \<and> pending w1 = 0 \<and> im_jobs t = im_jobs s"
proof -
  obtain res cs where c: "create env now newId (claim_of_row camp j (int (ir_at r) + 2) v) (im_claims s) = (res, cs)" by fastforce
  have "length (job_keys j cs) \<le> length (job_keys j (im_claims s)) + 1"
    using create_import [OF c] by (cases res) (simp_all add: job_keys_def del: filter_map)
  then show ?thesis using assms c by (auto simp: Let_def split: sum.splits if_splits)
qed

lemma work_halted:
  assumes "job_ok env (job_keys j (im_claims s)) headers rows k job w" and "find_job j s = Some job" and "halted j s"
    and "work env now newId camp j w s = (w1, t)"
  shows "halted j t \<and> length (job_keys j (im_claims t)) + pending w1 \<le> length (job_keys j (im_claims s)) + pending w"
proof -
  have stop: "k < length rows \<Longrightarrow> ij_status job = Imp_cancelled"
    using assms(1,2,3) by (auto simp: halted_def job_ok_def)
  show ?thesis
  proof (cases w)
    case Resting
    with assms show ?thesis by simp
  next
    case (At_row r)
    then have r: "r = run_at headers rows k job" using assms(1) by (simp add: job_ok_def)
    show ?thesis
    proof (cases "k < length rows")
      case True
      then have "isCancellationRequested j s" using stop assms(2) by (simp add: isCancellationRequested_def)
      with At_row r True assms(3,4) show ?thesis by (simp add: run_at_def)
    next
      case False
      then have w1: "w1 = Resting" and t: "t = completeJob now j (int k) (ij_errorRows job) (ij_errors job)
          (if ij_errors job \<noteq> [] then Some (''/recipient-import/'' @ j @ ''/report'') else None) None s"
        using assms(4) At_row r by (simp_all add: run_at_def)
      have "im_jobs t = update_where (\<lambda>x. ij_id x = j) (\<lambda>x. x\<lparr>ij_status := if 0 < ij_errorRows job then Imp_failed else Imp_completed,
          ij_processedRows := int k, ij_errorRows := ij_errorRows job, ij_checkpointRow := int k, ij_errors := ij_errors job,
          ij_reportUrl := if ij_errors job \<noteq> [] then Some (''/recipient-import/'' @ j @ ''/report'') else None,
          ij_completedAt := Some now\<rparr>) (im_jobs s)"
        by (simp add: t completeJob_def import_audit_def update_job_def Let_def)
      from halted_change [OF assms(3) this] have "halted j t" using assms(1,2) False by (simp add: job_ok_def)
      then show ?thesis using At_row w1 by (simp add: t completeJob_def import_audit_def update_job_def Let_def)
    qed
  next
    case (Creating r v)
    with create_one_import assms(3,4) halted_same show ?thesis by fastforce
  next
    case (Saving r)
    then have "k < length rows" using assms(1) by (simp add: job_ok_def)
    with stop have c: "ij_status job = Imp_cancelled" by simp
    have t: "t = updateJobProgress j (ir_processed r) (ir_errorRows r) (ir_errors r) s" "w1 = At_row (r\<lparr>ir_at := ir_at r + 1\<rparr>)"
      using assms(4) Saving by simp_all
    have "im_jobs t = update_where (\<lambda>x. ij_id x = j) (\<lambda>x. x\<lparr>ij_processedRows := ir_processed r, ij_errorRows := ir_errorRows r,
        ij_checkpointRow := ir_processed r, ij_errors := ir_errors r\<rparr>) (im_jobs s)"
      by (simp add: t updateJobProgress_def update_job_def)
    from halted_change [OF assms(3) this] have "halted j t" using assms(2) c by simp
    then show ?thesis using t Saving by (simp add: updateJobProgress_def update_job_def)
  qed
qed

lemma work_other:
  assumes "work env now newId camp i w s = (w1, t)" and "i \<noteq> j" and "halted j s"
  shows "halted j t \<and> job_keys j (im_claims t) = job_keys j (im_claims s)"
proof (cases w)
  case Resting
  with assms show ?thesis by simp
next
  case (At_row r)
  show ?thesis
  proof (cases "length (ir_rows r) \<le> ir_at r")
    case True
    then have t: "t = completeJob now i (ir_processed r) (ir_errorRows r) (ir_errors r)
        (if ir_errors r \<noteq> [] then Some (''/recipient-import/'' @ i @ ''/report'') else None) None s"
      using assms(1) At_row by simp
    have "im_jobs t = update_where (\<lambda>x. ij_id x = i) (\<lambda>x. x\<lparr>ij_status := if 0 < ir_errorRows r then Imp_failed else Imp_completed,
        ij_processedRows := ir_processed r, ij_errorRows := ir_errorRows r, ij_checkpointRow := ir_processed r, ij_errors := ir_errors r,
        ij_reportUrl := if ir_errors r \<noteq> [] then Some (''/recipient-import/'' @ i @ ''/report'') else None,
        ij_completedAt := Some now\<rparr>) (im_jobs s)"
      by (simp add: t completeJob_def import_audit_def update_job_def Let_def)
    from halted_change [OF assms(3) this] have "halted j t" using assms(2) by simp
    then show ?thesis by (simp add: t completeJob_def import_audit_def update_job_def Let_def)
  next
    case False
    then have "t = s" using assms(1) At_row by (auto simp: Let_def split: if_splits)
    with assms(3) show ?thesis by simp
  qed
next
  case (Creating r v)
  obtain res cs where c: "create env now newId (claim_of_row camp i (int (ir_at r) + 2) v) (im_claims s) = (res, cs)" by fastforce
  have "job_keys j cs = job_keys j (im_claims s)"
    using create_import [OF c] assms(2) by (cases res) (simp_all add: job_keys_def claim_of_row_def del: filter_map)
  then show ?thesis using assms c Creating halted_same [of t s] by (auto simp: Let_def)
next
  case (Saving r)
  then have t: "t = updateJobProgress i (ir_processed r) (ir_errorRows r) (ir_errors r) s" using assms(1) by simp
  have "im_jobs t = update_where (\<lambda>x. ij_id x = i) (\<lambda>x. x\<lparr>ij_processedRows := ir_processed r, ij_errorRows := ir_errorRows r,
      ij_checkpointRow := ir_processed r, ij_errors := ir_errors r\<rparr>) (im_jobs s)"
    by (simp add: t updateJobProgress_def update_job_def)
  from halted_change [OF assms(3) this] have "halted j t" using assms(2) by simp
  then show ?thesis by (simp add: t updateJobProgress_def update_job_def)
qed

lemma step_halted:
  assumes "import_step env (w, s) (w', t)" and "imp_inv env (w, s)" and "halted j s"
  shows "halted j t \<and> imports_due j (w', t) \<le> imports_due j (w, s)"
  using assms(1)
proof (cases rule: import_step.cases)
  case (uploads newId upl now campaignId x)
  obtain job where "find_job j s = Some job" using assms(3) by (auto simp: halted_def)
  then have "find_job j t = find_job j s" if "im_jobs t = im_jobs s \<or> (\<exists>new. im_jobs t = im_jobs s @ [new])"
    using that by (auto simp: find_job_def find_row_append)
  moreover have "im_jobs t = im_jobs s \<or> (\<exists>new. im_jobs t = im_jobs s @ [new])" "job_keys j (im_claims t) = job_keys j (im_claims s)"
    using uploads(5) by (auto simp: upload_def createJob_def import_audit_def Let_def split: option.splits prod.splits if_splits sum.splits)
  ultimately show ?thesis using assms(3) uploads(1) by (simp add: halted_def imports_due_def)
next
  case (delivers i now w1 t0)
  have t: "find_job j t = find_job j t0" "im_claims t = im_claims t0" "im_jobs t = im_jobs t0"
    using delivers(2) by (simp_all add: find_job_def)
  show ?thesis
  proof (cases "find_job i s")
    case None
    then have "\<forall>x \<in> set (im_jobs s). ij_id x \<noteq> i" by (simp add: find_job_def find_row_None_iff)
    then have "count_where (\<lambda>x. ij_id x = i \<and> ij_status x \<noteq> Imp_cancelled) (im_jobs s) = 0"
      "update_where (\<lambda>x. ij_id x = i \<and> ij_status x \<noteq> Imp_cancelled) g (im_jobs s) = im_jobs s" for g
      by (auto simp: count_where_0_iff intro: update_where_ident)
    then have "w1 = Resting" "im_jobs t0 = im_jobs s" "im_claims t0 = im_claims s"
      using delivers(4) by (auto simp: start_import_def setJobProcessing_def Let_def)
    then show ?thesis using assms(3) delivers(1,3) t by (auto simp: halted_same [of t s] imports_due_def)
  next
    case (Some job)
    have job: "job \<in> set (im_jobs s)" using find_row_SomeD [OF Some [unfolded find_job_def]] by simp
    from imp_invD [OF assms(2) job] obtain headers rows k where table: "job_table (im_files s) job = Some (headers, rows)"
      and ok: "job_ok env (job_keys (ij_id job) (im_claims s)) headers rows k job (w (ij_id job))" by metis
    have "start_import now i s = (if ij_status job = Imp_cancelled then Resting else At_row (run_at headers rows k job),
        s\<lparr>im_jobs := update_where (\<lambda>x. ij_id x = i) (mark_started now) (im_jobs s)\<rparr>)"
      using start_found [OF Some assms(2) table] ok by (simp add: job_ok_def)
    then have "t0 = s\<lparr>im_jobs := update_where (\<lambda>x. ij_id x = i) (mark_started now) (im_jobs s)\<rparr>" "pending w1 = 0"
      using delivers(4) by (auto split: if_splits)
    moreover have "halted j (s\<lparr>im_jobs := update_where (\<lambda>x. ij_id x = i) (mark_started now) (im_jobs s)\<rparr>)"
      by (rule halted_change [OF assms(3), where f = "mark_started now" and i = i]) auto
    ultimately show ?thesis using delivers(1) t by (auto simp: halted_def find_job_def imports_due_def)
  qed
next
  case (works i job newId now w1)
  show ?thesis
  proof (cases "i = j")
    case True
    have job: "job \<in> set (im_jobs s)" "ij_id job = i" using find_row_SomeD [OF works(2) [unfolded find_job_def]] by simp_all
    from imp_invD [OF assms(2) job(1)] obtain headers rows k where
      ok: "job_ok env (job_keys (ij_id job) (im_claims s)) headers rows k job (w (ij_id job))" by metis
    with work_halted [OF _ _ assms(3), of env headers rows k job "w j" now newId "ij_campaignId job" w1 t] works True job(2)
    show ?thesis by (simp add: imports_due_def)
  next
    case False
    from work_other [OF works(5) False assms(3)] False works(1) show ?thesis by (simp add: imports_due_def)
  qed
next
  case (stops i)
  with assms(3) show ?thesis by (simp add: imports_due_def)
next
  case resumes
  with assms(3) resume_same [of s] halted_same [of t s] show ?thesis by (simp add: imports_due_def)
next
  case (cancels now i x)
  show ?thesis
  proof (cases "t = s")
    case False
    have "im_jobs t = update_where (\<lambda>x. ij_id x = i) (\<lambda>x. x\<lparr>ij_status := Imp_cancelled, ij_cancelledAt := Some now,
        ij_completedAt := Some now\<rparr>) (im_jobs s) \<and> im_claims t = log_audit now
        \<lparr>au_actorId = ''system'', au_entity = ''ImportJob'', au_entityId = i, au_action = ''cancelled'',
         au_metadata = [(''processedRows'', MInt (ij_processedRows (the (find_job i s)))),
           (''errorRows'', MInt (ij_errorRows (the (find_job i s)))), (''checkpointRow'', MInt (ij_checkpointRow (the (find_job i s))))]\<rparr>
        (im_claims s)"
      using cancels(2) False
      by (auto simp: cancelJob_def Let_def import_audit_def update_job_def split: option.splits if_splits)
    then show ?thesis using halted_change [OF assms(3), of t i] cancels(1) by (simp add: imports_due_def)
  qed (use assms(3) cancels(1) in \<open>simp add: imports_due_def\<close>)
next
  case (other_requests reissuing cs)
  have "j \<in> ij_id ` set (im_jobs s)"
    using assms(3) by (auto simp: halted_def find_job_def dest: find_row_SomeD)
  then have "job_keys j cs = job_keys j (im_claims s)"
    by (intro other_requests_keys [OF other_requests(3)]) (use other_requests(4) in blast)
  with other_requests assms(3) halted_same [of t s] show ?thesis by (simp add: imports_due_def)
qed

text \<open>
  C20. Cancelling stops an import: after a job was cancelled, whatever happens, at most the row its
  worker was creating a claim for is still imported, and nothing if no worker was at that point.
\<close>

theorem cancelled_import_stops:
  assumes "(import_step env)\<^sup>*\<^sup>* (\<lambda>_. Resting, s0) (w, s)" and "im_jobs s0 = []"
    and "find_job j s = Some job" "ij_status job = Imp_cancelled" and "(import_step env)\<^sup>*\<^sup>* (w, s) (w', t)"
  shows "count_where (\<lambda>c. cl_importJobId c = Some j) (cs_claims (im_claims t))
    \<le> count_where (\<lambda>c. cl_importJobId c = Some j) (cs_claims (im_claims s)) + pending (w j)"
proof -
  have inv: "imp_inv env (w, s)" by (rule imp_runs.run_keeps [OF assms(1)]) (simp add: imp_inv_def assms(2))
  have count: "count_where (\<lambda>c. cl_importJobId c = Some j) (cs_claims cs) = length (job_keys j cs)" for cs
    by (simp add: count_where_def job_keys_def filter_map o_def import_key_def)
  have "imp_inv env (w', t) \<and> halted j t \<and> imports_due j (w', t) \<le> imports_due j (w, s)"
    using assms(5)
  proof (induction rule: rtranclp_induct2)
    case refl
    with inv assms(3,4) show ?case by (simp add: halted_def)
  next
    case (step w1 s1 w2 s2)
    then show ?case using step_halted import_step_inv by (meson order_trans)
  qed
  then show ?thesis unfolding count by (simp add: imports_due_def)
qed

section \<open>Witnesses\<close>

definition demo_csv :: string where "demo_csv = ''recipientref,amount'' @ [LF] @ ''r,5''"

definition no_imports :: import_state where
  "no_imports = \<lparr>im_jobs = [], im_files = Map.empty, im_queue = [], im_claims = demo_books\<rparr>"

definition demo_uploaded :: import_state where
  "demo_uploaded = snd (upload 0 ''j'' (Some (''a.csv'', demo_csv)) (Some ''k'') no_imports)"

text \<open>The worker of the one job after so many actions: at its row, creating the claim, saving, at the end, done.\<close>

fun demo_work :: "nat \<Rightarrow> worker \<times> import_state" where
  "demo_work 0 = (case start_import 1 ''j'' demo_uploaded of (w, s) \<Rightarrow> (w, s\<lparr>im_queue := filter (\<lambda>i. i \<noteq> ''j'') (im_queue s)\<rparr>))"
| "demo_work (Suc n) = (case demo_work n of (w, s) \<Rightarrow> work demo_env 1 (if n < 2 then ''c1'' else ''c2'') ''k'' ''j'' w s)"

lemma demo_job:
  "map_option ij_campaignId (find_job ''j'' (snd (demo_work 0))) = Some ''k''"
  "map_option ij_campaignId (find_job ''j'' (snd (demo_work 1))) = Some ''k''"
  "map_option ij_campaignId (find_job ''j'' (snd (demo_work 2))) = Some ''k''"
  "map_option ij_campaignId (find_job ''j'' (snd (demo_work 3))) = Some ''k''"
  by code_simp+

lemma demo_ids:
  "map cl_id (cs_claims (im_claims (snd (demo_work 0)))) = []" "map cl_id (cs_claims (im_claims (snd (demo_work 1)))) = []"
  "map cl_id (cs_claims (im_claims (snd (demo_work 2)))) = [''c1'']" "map cl_id (cs_claims (im_claims (snd (demo_work 3)))) = [''c1'']"
  by code_simp+

lemma demo_end:
  "fst (demo_work 4) = Resting" "map_option ij_status (find_job ''j'' (snd (demo_work 4))) = Some Imp_completed"
  "map cl_amount (cs_claims (im_claims (snd (demo_work 4)))) = [5]"
  by code_simp+

definition demo_at :: "nat \<Rightarrow> (ident \<Rightarrow> worker) \<times> import_state" where
  "demo_at n = ((\<lambda>_. Resting)(''j'' := fst (demo_work n)), snd (demo_work n))"

lemma demo_step:
  assumes "map_option ij_campaignId (find_job ''j'' (snd (demo_work n))) = Some ''k''"
    and "(if n < 2 then ''c1'' else ''c2'') \<notin> set (map cl_id (cs_claims (im_claims (snd (demo_work n)))))"
  shows "import_step demo_env (demo_at n) (demo_at (Suc n))"
proof -
  obtain job where job: "find_job ''j'' (snd (demo_work n)) = Some job" "ij_campaignId job = ''k''" using assms(1) by auto
  have "import_step demo_env (demo_at n)
      (((\<lambda>_. Resting)(''j'' := fst (demo_work n)))(''j'' := fst (demo_work (Suc n))), snd (demo_work (Suc n)))"
    unfolding demo_at_def
    by (rule works [OF job(1), of "if n < 2 then ''c1'' else ''c2''" _ 1])
      (use assms(2) in \<open>simp_all add: job(2) split: prod.split\<close>)
  then show ?thesis by (simp add: demo_at_def)
qed

lemma demo_reached: "(import_step demo_env)\<^sup>*\<^sup>* (\<lambda>_. Resting, no_imports) (demo_at 0)" (is ?zero)
    "(import_step demo_env)\<^sup>*\<^sup>* (demo_at 0) (demo_at 4)" (is ?four)
proof -
  have "import_step demo_env (\<lambda>_. Resting, no_imports) (\<lambda>_. Resting, demo_uploaded)"
    unfolding demo_uploaded_def
    by (rule uploads [where newId = "''j''" and now = 0 and campaignId = "Some ''k''"])
      (auto simp: no_imports_def demo_books_def intro: prod.collapse [symmetric])
  moreover obtain w1 t0 where "start_import 1 ''j'' demo_uploaded = (w1, t0)" by fastforce
  then have "import_step demo_env (\<lambda>_. Resting, demo_uploaded) (demo_at 0)"
    using delivers [of "\<lambda>_. Resting" "''j''" 1 demo_uploaded "fst (start_import 1 ''j'' demo_uploaded)" "snd (start_import 1 ''j'' demo_uploaded)" demo_env]
    by (simp add: demo_at_def)
  ultimately show ?zero by (rule converse_rtranclp_into_rtranclp [OF _ r_into_rtranclp])
  have "import_step demo_env (demo_at 0) (demo_at 1)" "import_step demo_env (demo_at 1) (demo_at 2)"
    "import_step demo_env (demo_at 2) (demo_at 3)" "import_step demo_env (demo_at 3) (demo_at 4)"
    using demo_step [of 0] demo_step [of 1] demo_step [of 2] demo_step [of 3] demo_job demo_ids
    by (simp_all add: eval_nat_numeral del: demo_work.simps set_map)
  then show ?four by (meson converse_rtranclp_into_rtranclp r_into_rtranclp)
qed

theorem import_accounts_for_rows_witness:
  "\<exists>job. find_job ''j'' (snd (demo_work 4)) = Some job \<and> ij_errorRows job = 0 \<and> ij_processedRows job = ij_totalRows job"
proof -
  obtain job where job: "find_job ''j'' (snd (demo_work 4)) = Some job" "ij_status job = Imp_completed" using demo_end(2) by auto
  have "job \<in> set (im_jobs (snd (demo_work 4)))" using find_row_SomeD(1) [OF job(1) [unfolded find_job_def]] .
  moreover have "(import_step demo_env)\<^sup>*\<^sup>* (\<lambda>_. Resting, no_imports) (fst (demo_at 4), snd (demo_work 4))"
    using rtranclp_trans [OF demo_reached] by (simp add: demo_at_def)
  moreover have "im_jobs no_imports = []" by (simp add: no_imports_def)
  ultimately have "ij_errorRows job = 0 \<and> ij_processedRows job = ij_totalRows job"
    using import_accounts_for_rows [of demo_env no_imports "fst (demo_at 4)" "snd (demo_work 4)" job] job(2) by force
  with job(1) show ?thesis by blast
qed

theorem import_finishes_witness:
  "\<exists>w1 s1 t job'. start_import 2 ''j'' (snd (demo_work 0)) = (w1, s1) \<and>
    work_on (3 * nat (ij_totalRows (the (find_job ''j'' (snd (demo_work 0))))) + 1) demo_env (\<lambda>_. 2) (\<lambda>_. ''c1'') ''k'' ''j'' w1 s1 = (Resting, t) \<and>
    find_job ''j'' t = Some job' \<and> ij_status job' \<in> {Imp_completed, Imp_failed}"
proof -
  obtain job where job: "find_job ''j'' (snd (demo_work 0)) = Some job" "ij_campaignId job = ''k''" using demo_job(1) by auto
  have "map_option ij_status (find_job ''j'' (snd (demo_work 0))) = Some Imp_processing" by code_simp
  with job(1) have "ij_status job \<noteq> Imp_cancelled" by simp
  moreover have "(import_step demo_env)\<^sup>*\<^sup>* (\<lambda>_. Resting, no_imports) (fst (demo_at 0), snd (demo_work 0))"
    using demo_reached(1) by (simp add: demo_at_def del: demo_work.simps)
  moreover have "im_jobs no_imports = []" by (simp add: no_imports_def)
  ultimately show ?thesis
    using import_finishes [of demo_env no_imports _ "snd (demo_work 0)" "''j''" job 2 "\<lambda>_. 2" "\<lambda>_. ''c1''"] job by simp
qed

theorem cancelled_import_stops_witness:
  "count_where (\<lambda>c. cl_importJobId c = Some ''j'') (cs_claims (im_claims
     (snd (work demo_env 1 ''c1'' ''k'' ''j'' (fst (demo_work 1)) (snd (cancelJob 3 ''j'' (snd (demo_work 1)))))))) \<le> 1"
proof -
  let ?s = "snd (cancelJob 3 ''j'' (snd (demo_work 1)))" and ?w = "fst (demo_at 1)"
  let ?x = "work demo_env 1 ''c1'' ''k'' ''j'' (fst (demo_work 1)) ?s"
  have "import_step demo_env (?w, snd (demo_work 1)) (?w, ?s)" by (rule cancels [of 3 "''j''"]) (simp add: prod_eq_iff)
  moreover have "(import_step demo_env)\<^sup>*\<^sup>* (\<lambda>_. Resting, no_imports) (?w, snd (demo_work 1))"
    using rtranclp.rtrancl_into_rtrancl [OF demo_reached(1) demo_step [of 0]] demo_job(1) demo_ids(1)
    by (simp add: demo_at_def del: demo_work.simps)
  ultimately have run: "(import_step demo_env)\<^sup>*\<^sup>* (\<lambda>_. Resting, no_imports) (?w, ?s)" by (rule rtranclp.rtrancl_into_rtrancl [rotated])
  have s: "map_option ij_status (find_job ''j'' ?s) = Some Imp_cancelled" "map_option ij_campaignId (find_job ''j'' ?s) = Some ''k''"
    "map cl_id (cs_claims (im_claims ?s)) = []" "pending (fst (demo_work 1)) = 1" by code_simp+
  then obtain job where job: "find_job ''j'' ?s = Some job" "ij_status job = Imp_cancelled" "ij_campaignId job = ''k''" by auto
  have "import_step demo_env (?w, ?s) (?w(''j'' := fst ?x), snd ?x)"
    by (rule works [OF job(1), of "''c1''" _ 1]) (use s(3) in \<open>simp_all add: job(3) demo_at_def del: demo_work.simps\<close>)
  then have "(import_step demo_env)\<^sup>*\<^sup>* (?w, ?s) (?w(''j'' := fst ?x), snd ?x)" by (rule r_into_rtranclp)
  from cancelled_import_stops [OF run _ job(1,2) this] s(3,4) show ?thesis
    by (simp add: no_imports_def demo_at_def count_where_def del: demo_work.simps)
qed

end
