(* ===== verification/CircuitBreaker.thy ===== *)
theory CircuitBreaker
  imports Prelude
begin

text \<open>
  The circuit breaker of \<open>common/utils/circuit-breaker.util.ts\<close>: after a number of failures in a row
  the service behind it is left alone for a while. A call is two steps, since others may be under
  way in between: \<open>breaker_admit\<close> before the action, \<open>settle\<close> with its outcome; \<open>fire\<close> is one call on its own.
\<close>

section \<open>The breaker\<close>

datatype breaker_mode = Br_closed | Br_open | Br_half_open

record breaker_options =
  bo_failureThreshold :: int
  bo_resetTimeout :: int

record breaker =
  br_state :: breaker_mode
  br_failureCount :: int
  br_nextAttempt :: time

definition new_breaker :: "time \<Rightarrow> breaker" where
  "new_breaker now = \<lparr>br_state = Br_closed, br_failureCount = 0, br_nextAttempt = now\<rparr>"

definition onSuccess :: "breaker \<Rightarrow> breaker" where
  "onSuccess b = b\<lparr>br_state := Br_closed, br_failureCount := 0\<rparr>"

definition onFailure :: "breaker_options \<Rightarrow> time \<Rightarrow> breaker \<Rightarrow> breaker" where
  "onFailure opts now b =
     (let b1 = b\<lparr>br_failureCount := br_failureCount b + 1\<rparr>
      in if br_state b1 = Br_half_open \<or> bo_failureThreshold opts \<le> br_failureCount b1
         then b1\<lparr>br_state := Br_open, br_nextAttempt := now + bo_resetTimeout opts\<rparr>
         else b1)"

text \<open>\<open>None\<close>: the breaker is open and throws.\<close>

definition breaker_admit :: "time \<Rightarrow> breaker \<Rightarrow> breaker option" where
  "breaker_admit now b =
     (if br_state b = Br_open then
        if br_nextAttempt b \<le> now then Some (b\<lparr>br_state := Br_half_open\<rparr>) else None
      else Some b)"

definition settle :: "breaker_options \<Rightarrow> time \<Rightarrow> bool \<Rightarrow> breaker \<Rightarrow> breaker" where
  "settle opts now success b = (if success then onSuccess b else onFailure opts now b)"

definition BREAKER_OPEN :: string where
  "BREAKER_OPEN = ''CircuitBreaker is OPEN''"

text \<open>
  \<open>outcome\<close> is what the action gives if it is called, \<open>refused\<close> the breaker's own error; readings 0 and 1
  of the clock.
\<close>

definition fire ::
  "breaker_options \<Rightarrow> clock \<Rightarrow> 'e \<Rightarrow> ('e + 'a) \<Rightarrow> breaker \<Rightarrow> ('e + 'a) \<times> breaker" where
  "fire opts clk refused outcome b =
     (case breaker_admit (clk 0) b of
        None \<Rightarrow> (Inl refused, b)
      | Some b1 \<Rightarrow> (outcome, settle opts (clk 1) (\<not> isl outcome) b1))"

section \<open>Calls of several workers\<close>

datatype breaker_event = Calls time | Ends time bool

text \<open>The breaker and the number of calls under way; a call that is refused is over at once.\<close>

fun breaker_do :: "breaker_options \<Rightarrow> breaker_event \<Rightarrow> breaker \<times> nat \<Rightarrow> breaker \<times> nat" where
  "breaker_do opts (Calls now) (b, n) = (case breaker_admit now b of None \<Rightarrow> (b, n) | Some b1 \<Rightarrow> (b1, n + 1))"
| "breaker_do opts (Ends now success) (b, n) = (settle opts now success b, n - 1)"

text \<open>A call ends only if one is under way, and at most \<open>w\<close> are.\<close>

fun breaker_can :: "nat \<Rightarrow> breaker_event \<Rightarrow> breaker \<times> nat \<Rightarrow> bool" where
  "breaker_can w (Calls now) (b, n) = (n < w)"
| "breaker_can w (Ends now success) (b, n) = (0 < n)"

fun breaker_trace :: "breaker_options \<Rightarrow> nat \<Rightarrow> breaker_event list \<Rightarrow> breaker \<times> nat \<Rightarrow> bool" where
  "breaker_trace opts w [] s = True"
| "breaker_trace opts w (e # es) s = (breaker_can w e s \<and> breaker_trace opts w es (breaker_do opts e s))"

definition breaker_run :: "breaker_options \<Rightarrow> breaker_event list \<Rightarrow> breaker \<times> nat \<Rightarrow> breaker \<times> nat" where
  "breaker_run opts es s = fold (breaker_do opts) es s"

definition is_failure :: "breaker_event \<Rightarrow> bool" where
  "is_failure e = (case e of Ends now success \<Rightarrow> \<not> success | Calls now \<Rightarrow> False)"

definition is_success :: "breaker_event \<Rightarrow> bool" where
  "is_success e = (case e of Ends now success \<Rightarrow> success | Calls now \<Rightarrow> False)"

fun event_time :: "breaker_event \<Rightarrow> time" where
  "event_time (Calls now) = now"
| "event_time (Ends now success) = now"

lemmas breaker_simps = breaker_admit_def settle_def onSuccess_def onFailure_def is_failure_def is_success_def Let_def

text \<open>A breaker that is not closed has counted enough failures, and counts are not negative.\<close>

definition breaker_inv :: "breaker_options \<Rightarrow> nat \<Rightarrow> breaker \<times> nat \<Rightarrow> bool" where
  "breaker_inv opts w = (\<lambda>(b, n). n \<le> w \<and> 0 \<le> br_failureCount b \<and>
     (br_state b = Br_closed \<or> bo_failureThreshold opts \<le> br_failureCount b))"

definition breaker_step :: "breaker_options \<Rightarrow> nat \<Rightarrow> breaker \<times> nat \<Rightarrow> breaker \<times> nat \<Rightarrow> bool" where
  "breaker_step opts w s t \<longleftrightarrow> (\<exists>e. breaker_can w e s \<and> t = breaker_do opts e s)"

lemma breaker_do_inv:
  assumes "breaker_can w e s" and "breaker_inv opts w s"
  shows "breaker_inv opts w (breaker_do opts e s)"
proof (cases s)
  case (Pair b n)
  then show ?thesis
    using assms by (cases e; cases "br_state b") (auto simp: breaker_inv_def breaker_simps)
qed

interpretation breakers: inv_system "breaker_step opts w" "breaker_inv opts w" for opts w
  by unfold_locales (auto simp: breaker_step_def intro: breaker_do_inv)

lemma new_breaker_inv: "breaker_inv opts w (new_breaker t, 0)"
  by (simp add: breaker_inv_def new_breaker_def)

text \<open>
  How many more calls can fail before the instant \<open>until\<close>, if none succeeds: those under way when
  the breaker stays open that long, else one failure per missing count, and the others under way.
\<close>

definition failures_left :: "breaker_options \<Rightarrow> nat \<Rightarrow> time \<Rightarrow> breaker \<times> nat \<Rightarrow> int" where
  "failures_left opts w until = (\<lambda>(b, n).
     if br_state b = Br_open \<and> until \<le> br_nextAttempt b then int n
     else max 1 (bo_failureThreshold opts - br_failureCount b) + max 0 (int w - 1))"

lemma failures_left_step:
  assumes "breaker_can w e (b, n)" and "breaker_inv opts w (b, n)"
    and "\<not> is_success e" and "event_time e < until" and "until \<le> event_time e + bo_resetTimeout opts"
  shows "failures_left opts w until (breaker_do opts e (b, n)) + (if is_failure e then 1 else 0)
    \<le> failures_left opts w until (b, n)"
proof (cases e)
  case (Calls now)
  with assms show ?thesis
    by (cases "br_state b") (auto simp: failures_left_def breaker_simps)
next
  case (Ends now success)
  with assms(1,2) have n: "0 < n" "n \<le> w" by (simp_all add: breaker_inv_def)
  from assms(3) Ends have "\<not> success" by (simp add: is_success_def)
  with Ends assms n show ?thesis
    by (cases "br_state b") (auto simp: failures_left_def breaker_simps breaker_inv_def)
qed

lemma failures_bounded:
  assumes "breaker_trace opts w es s" and "breaker_inv opts w s"
    and "\<And>e. e \<in> set es \<Longrightarrow> \<not> is_success e \<and> event_time e < until \<and> until \<le> event_time e + bo_resetTimeout opts"
  shows "int (count_where is_failure es) \<le> failures_left opts w until s"
  using assms
proof (induction es arbitrary: s)
  case Nil
  show ?case by (cases s) (simp add: count_where_def failures_left_def)
next
  case (Cons e es)
  obtain b n where s: "s = (b, n)" by (cases s)
  have can: "breaker_can w e (b, n)" using Cons.prems(1) s by simp
  have "int (count_where is_failure es) \<le> failures_left opts w until (breaker_do opts e (b, n))"
  proof (rule Cons.IH)
    show "breaker_trace opts w es (breaker_do opts e (b, n))" using Cons.prems(1) s by simp
    show "breaker_inv opts w (breaker_do opts e (b, n))"
      using breaker_do_inv [OF can] Cons.prems(2) s by simp
  qed (use Cons.prems(3) in auto)
  moreover have "failures_left opts w until (breaker_do opts e (b, n)) + (if is_failure e then 1 else 0)
      \<le> failures_left opts w until (b, n)"
    using failures_left_step [OF can] Cons.prems(2,3) s by simp
  ultimately show ?case using s by (cases "is_failure e") (simp_all add: count_where_def)
qed

section \<open>Properties\<close>

text \<open>
  C33. A failing service is left alone. Whatever the calls of up to \<open>w\<close> concurrent workers did before, in a stretch of time
  no longer than the reset timeout in which no call succeeds, at most as many calls fail as the threshold
  says, besides the others that were under way.
\<close>

theorem breaker_bounds_failures:
  assumes "(breaker_step opts w)\<^sup>*\<^sup>* (new_breaker t0, 0) s" and "breaker_trace opts w es s" and "0 < w"
    and "\<And>e. e \<in> set es \<Longrightarrow> \<not> is_success e \<and> start \<le> event_time e \<and> event_time e < start + bo_resetTimeout opts"
  shows "int (count_where is_failure es) \<le> max 1 (bo_failureThreshold opts) + int w - 1"
proof -
  have inv: "breaker_inv opts w s"
    using breakers.run_keeps [OF assms(1) new_breaker_inv] .
  obtain b n where s: "s = (b, n)" by (cases s)
  have "int (count_where is_failure es) \<le> failures_left opts w (start + bo_resetTimeout opts) s"
    by (rule failures_bounded [OF assms(2) inv]) (use assms(4) in force)
  also have "\<dots> \<le> max 1 (bo_failureThreshold opts) + int w - 1"
    using inv assms(3) by (auto simp: s failures_left_def breaker_inv_def)
  finally show ?thesis .
qed

definition demo_breaker :: breaker_options where
  "demo_breaker = \<lparr>bo_failureThreshold = 2, bo_resetTimeout = 100\<rparr>"

theorem breaker_bounds_failures_witness:
  "int (count_where is_failure [Calls 1, Ends 2 False, Calls 3, Ends 4 False, Calls 5, Calls 90]) \<le> 2 \<and>
   fst (breaker_run demo_breaker [Calls 1, Ends 2 False, Calls 3, Ends 4 False, Calls 5, Calls 90] (new_breaker 0, 0))
     = \<lparr>br_state = Br_open, br_failureCount = 2, br_nextAttempt = 104\<rparr>"
proof -
  have "breaker_trace demo_breaker 1 [Calls 1, Ends 2 False, Calls 3, Ends 4 False, Calls 5, Calls 90] (new_breaker 0, 0)"
    by (simp add: breaker_simps demo_breaker_def new_breaker_def)
  then have "int (count_where is_failure [Calls 1, Ends 2 False, Calls 3, Ends 4 False, Calls 5, Calls 90])
      \<le> max 1 (bo_failureThreshold demo_breaker) + int 1 - 1"
    by (rule breaker_bounds_failures [OF rtranclp.rtrancl_refl, where start = 0 and w = 1])
      (auto simp: demo_breaker_def is_success_def)
  then show ?thesis
    by (simp add: demo_breaker_def) (simp add: breaker_run_def breaker_simps new_breaker_def)
qed

end
