(* ===== verification/ResultMetadata.thy ===== *)
theory ResultMetadata
  imports ClaimLedger
begin

text \<open>
  The metadata that ties a verification result to the contract, \<open>verification/metadata.service.ts\<close>:
  generation, validation, the check of a webhook payload, extraction and merging. The deployments the
  registry knows for the network are an argument, an error where reading them fails; so are the two
  settings. \<open>body[field]\<close> reads a member, \<open>None\<close> where it is undefined.
\<close>

section \<open>Values\<close>

fun json_truthy :: "json option \<Rightarrow> bool" where
  "json_truthy None = False"
| "json_truthy (Some JNull) = False"
| "json_truthy (Some (JBool b)) = b"
| "json_truthy (Some (JNum n)) = (n \<noteq> 0)"
| "json_truthy (Some (JStr s)) = (s \<noteq> [])"
| "json_truthy (Some v) = True"

text \<open>\<open>a ?? b\<close>\<close>

definition nullish :: "json option \<Rightarrow> json option \<Rightarrow> json option" where
  "nullish a b = (if a = None \<or> a = Some JNull then b else a)"

definition isValidUUID :: "string \<Rightarrow> bool" where
  "isValidUUID uuid \<longleftrightarrow> length uuid = 36 \<and>
     (\<forall>i < 36. if i \<in> {8, 13, 18, 23} then uuid ! i = CHR ''-'' else hex_digit_value (uuid ! i) \<noteq> None)"

section \<open>Generation\<close>

record deployment =
  dm_contractName :: string
  dm_contractId :: string
  dm_commitSha :: "string option"
  dm_transactionHash :: "string option"

record contract_metadata =
  md_campaignId :: ident
  md_claimId :: ident
  md_packageId :: json
  md_contractId :: "string option"
  md_transactionHash :: "string option"
  md_contractAddress :: "string option"
  md_chainId :: string
  md_network :: string
  md_version :: "string option"
  md_timestamp :: time

record metadata_settings =
  ms_network :: "string option"
  ms_chainId :: "string option"

text \<open>\<open>setting || fallback\<close>\<close>

definition or_default :: "string option \<Rightarrow> string \<Rightarrow> string" where
  "or_default x d = (if truthy x then the x else d)"

definition generatePackageId :: "time \<Rightarrow> ident \<Rightarrow> string" where
  "generatePackageId now claimId =
     (if claimId = [] then ''pkg_'' @ show_int now else ''pkg_'' @ take 8 claimId)"

definition readAnchorMetadata :: "json option \<Rightarrow> (string \<times> json) list" where
  "readAnchorMetadata v = (case v of Some (JObj m) \<Rightarrow> m | _ \<Rightarrow> [])"

definition pick_deployment :: "string + deployment list \<Rightarrow> deployment option" where
  "pick_deployment found =
     (case found of
        Inl e \<Rightarrow> None
      | Inr [] \<Rightarrow> None
      | Inr (d # ds) \<Rightarrow>
          (case find_row (\<lambda>x. dm_contractName x = ''aid_escrow'') (d # ds) of
             Some x \<Rightarrow> Some x
           | None \<Rightarrow> Some d))"

text \<open>A claim that is not there is an error the function catches itself.\<close>

definition generateMetadata ::
  "metadata_settings \<Rightarrow> string + deployment list \<Rightarrow> claims_state \<Rightarrow> time \<Rightarrow> ident \<Rightarrow> ident \<Rightarrow> contract_metadata" where
  "generateMetadata cfg found s now claimId campaignId =
     (let network = or_default (ms_network cfg) ''testnet'';
          chainId = or_default (ms_chainId cfg) ''testnet'';
          minimal = \<lparr>md_campaignId = campaignId, md_claimId = claimId,
             md_packageId = JStr (generatePackageId now claimId), md_contractId = None,
             md_transactionHash = None, md_contractAddress = None, md_chainId = chainId,
             md_network = network, md_version = None, md_timestamp = now\<rparr>
      in case find_claim claimId s of
           None \<Rightarrow> minimal
         | Some claim \<Rightarrow>
             let d = pick_deployment found;
                 anchor = readAnchorMetadata (cl_anchorMetadata claim);
                 packageId = nullish (map_of anchor ''packageId'') (nullish (map_of anchor ''package_id'')
                    (Some (JStr (generatePackageId now claimId))));
                 contractId = map_option dm_contractId d;
                 hash = Option.bind d dm_transactionHash
             in minimal\<lparr>md_packageId := the packageId, md_contractId := contractId,
                  md_version := Some (if truthy (Option.bind d dm_commitSha)
                    then ''v'' @ take 8 (the (Option.bind d dm_commitSha)) else ''1.0.0''),
                  md_contractAddress := (if truthy contractId then contractId else None),
                  md_transactionHash := (if truthy hash then hash else None)\<rparr>)"

section \<open>Validation\<close>

definition NETWORKS :: "string list" where
  "NETWORKS = [''testnet'', ''mainnet'', ''public'']"

definition id_errors :: "string \<Rightarrow> ident \<Rightarrow> string list" where
  "id_errors name i =
     (if i = [] then [name @ '' is required'']
      else if \<not> isValidUUID i then [name @ '' must be a valid UUID''] else [])"

definition package_errors :: "contract_metadata \<Rightarrow> string list" where
  "package_errors m =
     (let p = md_packageId m;
          is_text = (\<lambda>x. truthy x \<and> p = JStr (the x))
      in if \<not> json_truthy (Some p) then [''packageId is required'']
         else if (case p of JStr s \<Rightarrow> length s < 3 | _ \<Rightarrow> True) then
           [''packageId must be a valid string with minimum length 3'']
         else if is_text (md_contractAddress m) \<or> is_text (md_contractId m) then
           [''packageId must not be equal to contractAddress or contractId (cannot overload contract ID as package ID)'']
         else [])"

text \<open>The chain id and the version are strings by their type; their checks never fail.\<close>

definition validateMetadata :: "contract_metadata \<Rightarrow> string list" where
  "validateMetadata m =
     id_errors ''campaignId'' (md_campaignId m) @ id_errors ''claimId'' (md_claimId m) @ package_errors m
     @ (if md_network m \<noteq> [] \<and> md_network m \<notin> set NETWORKS
        then [''network must be one of: testnet, mainnet, public''] else [])"

record 'r enhanced =
  en_result :: 'r
  en_metadata :: contract_metadata
  en_warnings :: "string list"
  en_validationErrors :: "string list option"

text \<open>A result comes without warnings of its own.\<close>

definition enhanceWithMetadata ::
  "metadata_settings \<Rightarrow> string + deployment list \<Rightarrow> claims_state \<Rightarrow> time \<Rightarrow> 'r \<Rightarrow> ident \<Rightarrow> ident \<Rightarrow> 'r enhanced" where
  "enhanceWithMetadata cfg found s now result claimId campaignId =
     (let metadata = generateMetadata cfg found s now claimId campaignId;
          errors = validateMetadata metadata
      in \<lparr>en_result = result, en_metadata = metadata,
          en_warnings = (if errors \<noteq> [] then [''Metadata validation warnings: '' @ join '', '' errors] else []),
          en_validationErrors = (if errors \<noteq> [] then Some errors else None)\<rparr>)"

section \<open>Payloads of a webhook\<close>

definition unit_number :: "json option \<Rightarrow> bool" where
  "unit_number v = (case v of Some (JNum n) \<Rightarrow> 0 \<le> n \<and> n \<le> 1 | _ \<Rightarrow> False)"

definition result_errors :: "json option \<Rightarrow> string list" where
  "result_errors v =
     (if \<not> json_truthy v then [''result is required'']
      else case asRecord v of
        None \<Rightarrow> [''result must be an object'']
      | Some r \<Rightarrow>
          (if \<not> unit_number (map_of r ''score'') then [''result.score must be a number between 0 and 1''] else []) @
          (if \<not> unit_number (map_of r ''confidence'')
           then [''result.confidence must be a number between 0 and 1''] else []) @
          (if json_truthy (map_of r ''details'') \<and> asRecord (map_of r ''details'') = None
           then [''result.details must be an object''] else []))"

definition uuid_error :: "string \<Rightarrow> json option \<Rightarrow> string list" where
  "uuid_error name v =
     (if json_truthy v \<and> (case v of Some (JStr s) \<Rightarrow> \<not> isValidUUID s | _ \<Rightarrow> True)
      then [name @ '' must be a valid UUID''] else [])"

definition validateWebhookPayload :: "json \<Rightarrow> bool \<times> string list" where
  "validateWebhookPayload payload =
     (case asRecord (Some payload) of
        None \<Rightarrow> (False, [''Invalid payload: must be an object''])
      | Some body \<Rightarrow>
          let errors =
            concat (map (\<lambda>field. if \<not> json_truthy (map_of body field)
                 then [''Missing required field: '' @ field] else []) [''claimId'', ''campaignId'', ''packageId''])
            @ uuid_error ''claimId'' (map_of body ''claimId'')
            @ uuid_error ''campaignId'' (map_of body ''campaignId'')
            @ result_errors (map_of body ''result'')
            @ (case map_of body ''network'' of
                 Some (JStr n) \<Rightarrow> if n \<notin> set NETWORKS then [''network must be one of: testnet, mainnet, public''] else []
               | _ \<Rightarrow> [])
          in (errors = [], errors))"

definition METADATA_FIELDS :: "string list" where
  "METADATA_FIELDS = [''claimId'', ''campaignId'', ''packageId'', ''transactionHash'', ''contractAddress'',
     ''contractId'', ''network'', ''chainId'', ''version'']"

definition extractMetadataFromPayload :: "json \<Rightarrow> (string \<times> string) list option" where
  "extractMetadataFromPayload payload =
     (case asRecord (Some payload) of
        None \<Rightarrow> None
      | Some body \<Rightarrow>
          let found = List.map_filter (\<lambda>f. case map_of body f of
                Some (JStr v) \<Rightarrow> if v \<noteq> [] then Some (f, v) else None | _ \<Rightarrow> None) METADATA_FIELDS
          in if found \<noteq> [] then Some found else None)"

definition normalizeNetwork :: "string \<Rightarrow> string" where
  "normalizeNetwork network =
     (let n = trim (toLowerCase network)
      in if n = ''mainnet'' \<or> n = ''public'' then ''mainnet''
         else if n = ''testnet'' \<or> n = ''test'' then ''testnet'' else n)"

text \<open>
  A partial metadata: its members, each a text or a date; a member that is \<open>undefined\<close> or \<open>null\<close> is
  \<open>Absent\<close>. \<open>new Date(text)\<close> is the parameter \<open>date\<close> (\<open>None\<close>: an invalid date).
\<close>

datatype partial_value = Text string | Date_value "time option" | Absent

definition merge_member ::
  "(string \<Rightarrow> time option) \<Rightarrow> string \<times> partial_value \<Rightarrow> (string \<times> partial_value) list \<Rightarrow> (string \<times> partial_value) list" where
  "merge_member date = (\<lambda>(key, v) result.
     if map_of result key \<noteq> None \<or> v = Absent then result
     else if key = ''timestamp'' then
       (case v of
          Text t \<Rightarrow> result @ [(key, Date_value (date t))]
        | _ \<Rightarrow> result @ [(key, v)])
     else result @ [(key, v)])"

definition mergeMetadata ::
  "(string \<Rightarrow> time option) \<Rightarrow> (string \<times> partial_value) list option list \<Rightarrow> (string \<times> partial_value) list" where
  "mergeMetadata date sources =
     fold (\<lambda>source result. case source of None \<Rightarrow> result | Some m \<Rightarrow> fold (merge_member date) m result) sources []"

definition isMetadataComplete :: "(string \<times> partial_value) list option \<Rightarrow> bool" where
  "isMetadataComplete m =
     (case m of
        None \<Rightarrow> False
      | Some ms \<Rightarrow> (\<forall>k \<in> {''campaignId'', ''claimId'', ''packageId''}.
          case map_of ms k of None \<Rightarrow> False | Some Absent \<Rightarrow> False | Some (Text t) \<Rightarrow> t \<noteq> [] | Some (Date_value d) \<Rightarrow> True))"

section \<open>Lemmas\<close>

lemma id_errors_iff: "id_errors name i = [] \<longleftrightarrow> isValidUUID i"
  by (auto simp: id_errors_def isValidUUID_def)

lemma validateMetadata_iff:
  "validateMetadata m = [] \<longleftrightarrow> isValidUUID (md_campaignId m) \<and> isValidUUID (md_claimId m) \<and>
     package_errors m = [] \<and> (md_network m = [] \<or> md_network m \<in> set NETWORKS)"
  by (auto simp: validateMetadata_def id_errors_iff)

lemma generated_ids [simp]:
  "md_claimId (generateMetadata cfg found s now i c) = i" "md_campaignId (generateMetadata cfg found s now i c) = c"
  by (simp_all add: generateMetadata_def Let_def split: option.split)

lemma enhanced_result [simp]: "en_result (enhanceWithMetadata cfg found s now r i c) = r"
  by (simp add: enhanceWithMetadata_def Let_def)

text \<open>
  The ids of the database are cuids, 25 characters that begin with a \<open>c\<close>, and no UUID: every enhanced
  result carries validation errors, and no payload that names a claim of the database is valid.
\<close>

theorem cuid_is_refused:
  assumes "length i = 25"
  shows "en_validationErrors (enhanceWithMetadata cfg found s now r i c) \<noteq> None \<and>
    (map_of body ''claimId'' = Some (JStr i) \<longrightarrow> \<not> fst (validateWebhookPayload (JObj body)))"
proof -
  have no: "\<not> isValidUUID i" using assms by (simp add: isValidUUID_def)
  then have "validateMetadata (generateMetadata cfg found s now i c) \<noteq> []"
    unfolding validateMetadata_iff by simp
  moreover have "uuid_error ''claimId'' (Some (JStr i)) \<noteq> []"
    using no assms by (auto simp: uuid_error_def)
  ultimately show ?thesis
    by (auto simp: enhanceWithMetadata_def Let_def validateWebhookPayload_def)
qed

text \<open>Merging: the first source that gives a member a value decides.\<close>

definition as_member :: "(string \<Rightarrow> time option) \<Rightarrow> string \<Rightarrow> partial_value \<Rightarrow> partial_value" where
  "as_member date k v = (if k = ''timestamp'' then (case v of Text t \<Rightarrow> Date_value (date t) | _ \<Rightarrow> v) else v)"

lemma merge_one:
  "map_of (merge_member date (k, v) result) x =
     (if x = k \<and> map_of result k = None \<and> v \<noteq> Absent then Some (as_member date k v) else map_of result x)"
  by (cases v) (auto simp: merge_member_def as_member_def map_add_def split: option.split)

lemma merge_members:
  "map_of (fold (merge_member date) m result) x =
     (case map_of result x of
        Some v \<Rightarrow> Some v
      | None \<Rightarrow> map_option (as_member date x) (map_of (filter (\<lambda>(k, v). v \<noteq> Absent) m) x))"
proof (induction m arbitrary: result)
  case (Cons kv m)
  obtain k v where kv: "kv = (k, v)" by (cases kv)
  show ?case
    by (simp add: Cons kv merge_one split: option.split)
qed (simp split: option.split)

theorem merge_first_wins:
  "map_of (mergeMetadata date sources) x =
     map_option (as_member date x)
       (map_of (filter (\<lambda>(k, v). v \<noteq> Absent) (concat (map (\<lambda>m. case m of None \<Rightarrow> [] | Some m \<Rightarrow> m) sources))) x)"
proof -
  have fold_sources: "fold (\<lambda>source result. case source of None \<Rightarrow> result | Some m \<Rightarrow> fold (merge_member date) m result) ss r =
      fold (merge_member date) (concat (map (\<lambda>m. case m of None \<Rightarrow> [] | Some m \<Rightarrow> m) ss)) r" for ss r
    by (induction ss arbitrary: r) (simp_all split: option.split)
  show ?thesis unfolding mergeMetadata_def fold_sources merge_members by simp
qed

end
