(* ===== verification/VerificationService.thy ===== *)
theory VerificationService
  imports ResultMetadata CircuitBreaker JsonText
begin

text \<open>
  The verification of claims, \<open>verification/verification.service.ts\<close> with its worker
  \<open>verification.processor.ts\<close>: a claim is enqueued, a worker scores its evidence (with the OCR and the
  language model services behind circuit breakers, or from fixtures), adds the metadata and writes the
  outcome on the claim. The state is that of the claims, the queued jobs, the jobs a worker has
  read its claim for, the two breakers and the number of calls made so far.

  The two services are functions of what they are sent and of the number of the call; an answer that
  has not the declared shape counts as a failure, since reading it throws where a failure is caught. The
  parameters are collected in \<open>verify_env\<close>; a numeric setting is the number its text stands for. Log
  lines, metrics and the messages of errors that are only logged are left out.
\<close>

section \<open>Data\<close>

record anchor_dto =
  an_campaignRef :: "string option"
  an_claimId :: "string option"
  an_packageId :: "string option"
  an_contractId :: "string option"

record verification_job =
  vj_claimId :: ident
  vj_timestamp :: time
  vj_anchor :: "anchor_dto option"
  vj_priority :: int

record enqueue_dto =
  eq_priority :: "int option"
  eq_anchor :: "anchor_dto option"

text \<open>\<open>VerificationResult\<close> before the metadata; what comes from the model is any JSON.\<close>

record pipeline_result =
  rs_score :: rat
  rs_confidence :: rat
  rs_factors :: "json list"
  rs_riskLevel :: risk_level
  rs_recommendations :: "json option"
  rs_processedAt :: time

record ocr_failure =
  of_status :: "int option"
  of_code :: "string option"
  of_message :: "string option"

record ocr_response =
  oc_success :: bool
  oc_data :: "((string \<times> string \<times> rat) list \<times> string) option"

record verify_env =
  pe_claims :: claims_env
  pe_mode :: "string option"
  pe_threshold :: "rat option"
  pe_openai :: bool
  pe_ocrOptions :: breaker_options
  pe_llmOptions :: breaker_options
  pe_ocr :: "string \<Rightarrow> nat \<Rightarrow> ocr_failure + ocr_response"
  pe_llm :: "string \<Rightarrow> nat \<Rightarrow> string + string option"
  pe_rd :: "string \<Rightarrow> rat option"
  pe_number :: "string \<Rightarrow> rat option"
  pe_fixed1 :: "rat \<Rightarrow> string"
  pe_sha256 :: "string \<Rightarrow> string"
  pe_settings :: metadata_settings
  pe_deployments :: "string + deployment list"

record pipeline =
  pl_claims :: claims_state
  pl_jobs :: "(ident \<times> verification_job) list"
  pl_active :: "(ident \<times> verification_job \<times> claim) list"
  pl_ocr :: breaker
  pl_llm :: breaker
  pl_calls :: nat

definition verification_failed :: "string \<Rightarrow> app_error" where
  "verification_failed msg = AppException AI_VERIFICATION_FAILED 404 msg"

definition verification_threshold :: "verify_env \<Rightarrow> rat" where
  "verification_threshold env =
     (case pe_threshold env of None \<Rightarrow> 7 / 10 | Some t \<Rightarrow> if t = 0 then 7 / 10 else t)"

definition verification_mode :: "verify_env \<Rightarrow> string" where
  "verification_mode env = or_default (pe_mode env) ''mock''"

section \<open>Enqueueing\<close>

definition DEFAULT_VERIFICATION_PRIORITY :: int where
  "DEFAULT_VERIFICATION_PRIORITY = 3"

definition priority_label :: "int \<Rightarrow> string" where
  "priority_label p = (if p = 1 then ''URGENT'' else if p = 2 then ''HIGH'' else if p = 3 then ''NORMAL''
     else if p = 4 then ''LOW'' else show_int p)"

definition anchor_members :: "anchor_dto \<Rightarrow> (string \<times> string option) list" where
  "anchor_members a = [(''campaignRef'', an_campaignRef a), (''claimId'', an_claimId a),
     (''packageId'', an_packageId a), (''contractId'', an_contractId a)]"

text \<open>In the audit log the members that are undefined are left out; in the job they are \<open>null\<close>.\<close>

definition anchor_sent :: "anchor_dto \<Rightarrow> (string \<times> meta_value) list" where
  "anchor_sent a = List.map_filter (\<lambda>(k, v). map_option (\<lambda>x. (k, MStr x)) v) (anchor_members a)"

definition anchor_object :: "anchor_dto \<Rightarrow> (string \<times> json) list" where
  "anchor_object a = map (\<lambda>(k, v). (k, case v of None \<Rightarrow> JNull | Some x \<Rightarrow> JStr x)) (anchor_members a)"

text \<open>Readings 0 and 1 of the clock; \<open>newJobId\<close> is the id the queue gives the job.\<close>

definition enqueueVerification ::
  "clock \<Rightarrow> ident \<Rightarrow> ident \<Rightarrow> enqueue_dto option \<Rightarrow> pipeline \<Rightarrow> (app_error + ident \<times> int) \<times> pipeline" where
  "enqueueVerification clk newJobId claimId dto p =
     (case find_claim claimId (pl_claims p) of
        None \<Rightarrow> (Inl (verification_failed (''Claim with ID '' @ claimId @ '' not found'')), p)
      | Some claim \<Rightarrow>
          if cl_status claim = C_verified then
            (Inr (''already-verified'', DEFAULT_VERIFICATION_PRIORITY), p)
          else
            let priority = (case Option.bind dto eq_priority of None \<Rightarrow> DEFAULT_VERIFICATION_PRIORITY | Some x \<Rightarrow> x);
                anchor = Option.bind dto eq_anchor;
                job = \<lparr>vj_claimId = claimId, vj_timestamp = clk 0, vj_anchor = anchor, vj_priority = priority\<rparr>;
                jobId = (if newJobId = [] then ''unknown'' else newJobId);
                audit = \<lparr>au_actorId = ''system'', au_entity = ''verification'', au_entityId = claimId,
                  au_action = ''enqueue'',
                  au_metadata = [(''jobId'', MStr jobId), (''priority'', MInt priority),
                    (''priorityLabel'', MStr (priority_label priority))]
                    @ (case anchor of None \<Rightarrow> [] | Some a \<Rightarrow> [(''anchorMetadata'', MObj (anchor_sent a))])\<rparr>
            in (Inr (jobId, priority),
                p\<lparr>pl_jobs := pl_jobs p @ [(newJobId, job)],
                  pl_claims := log_audit (clk 1) audit (pl_claims p)\<rparr>))"

section \<open>Scoring\<close>

text \<open>\<open>parseFloat(x.toFixed(3))\<close>\<close>

definition round3 :: "rat \<Rightarrow> rat" where
  "round3 x = of_int \<lfloor>x * 1000 + 1 / 2\<rfloor> / 1000"

definition en_dash :: string where
  "en_dash = [CHR 0xE2, CHR 0x80, CHR 0x93]"

definition buildFallbackResult :: "time \<Rightarrow> string \<Rightarrow> pipeline_result" where
  "buildFallbackResult now reason =
     \<lparr>rs_score = 55 / 100, rs_confidence = 4 / 10, rs_factors = [JStr reason], rs_riskLevel = Risk_medium,
      rs_recommendations = Some (JArr
        [JStr (''AI verification unavailable '' @ en_dash @ '' manual review required''),
         JStr ''Verify applicant identity and evidence independently'']),
      rs_processedAt = now\<rparr>"

subsection \<open>Fixtures and mock scores\<close>

definition mock_risk :: "rat \<Rightarrow> risk_level" where
  "mock_risk score = (if 8 / 10 \<le> score then Risk_low else if 65 / 100 \<le> score then Risk_medium else Risk_high)"

text \<open>\<open>rnd\<close> holds the readings of \<open>Math.random\<close>.\<close>

definition generateMockVerification :: "(nat \<Rightarrow> rat) \<Rightarrow> time \<Rightarrow> pipeline_result" where
  "generateMockVerification rnd now =
     (let score = min (95 / 100) (max (5 / 10) (6 / 10 + rnd 0 * (35 / 100)));
          factors = [''Document authenticity verified'', ''Identity cross-reference passed'',
            ''Historical data consistent'', ''No fraud indicators detected'']
      in \<lparr>rs_score = round3 score, rs_confidence = round3 (85 / 100 + rnd 1 * (1 / 10)),
          rs_factors = map JStr (take (nat (\<lfloor>rnd 2 * 2\<rfloor> + 2)) factors), rs_riskLevel = mock_risk score,
          rs_recommendations = (if mock_risk score \<noteq> Risk_low
            then Some (JArr [JStr ''Manual review recommended'', JStr ''Additional documentation may be required''])
            else None),
          rs_processedAt = now\<rparr>)"

definition fixture :: "rat \<Rightarrow> rat \<Rightarrow> string list \<Rightarrow> risk_level \<Rightarrow> string list option \<Rightarrow> time \<Rightarrow> pipeline_result" where
  "fixture score confidence factors risk recommendations now =
     \<lparr>rs_score = score, rs_confidence = confidence, rs_factors = map JStr factors, rs_riskLevel = risk,
      rs_recommendations = map_option (\<lambda>r. JArr (map JStr r)) recommendations, rs_processedAt = now\<rparr>"

definition fixtures :: "(time \<Rightarrow> pipeline_result) list" where
  "fixtures =
     [fixture (88 / 100) (92 / 100) [''All verification criteria met'', ''Document authenticity confirmed''] Risk_low None,
      fixture (76 / 100) (84 / 100) [''Identity cross-reference passed'', ''No fraud indicators detected''] Risk_low None,
      fixture (62 / 100) (71 / 100)
        [''Partial evidence provided'', ''Additional documentation may strengthen claim''] Risk_medium
        (Some [''Manual review recommended'', ''Request supplementary evidence'']),
      fixture (45 / 100) (65 / 100)
        [''Inconsistent information detected'', ''Claim requires further investigation''] Risk_high
        (Some [''Manual review required'', ''Verify applicant identity independently'']),
      fixture (93 / 100) (95 / 100)
        [''Strong corroborating evidence from multiple sources'', ''Aid amount proportionate to documented need'']
        Risk_low None,
      fixture (55 / 100) (68 / 100)
        [''Insufficient evidence to reach full confidence'', ''Standard review triggered''] Risk_medium
        (Some [''Manual review recommended''])]"

text \<open>The hexadecimal digest is read by \<open>parseInt(text, 16)\<close>.\<close>

definition hex_value :: "string \<Rightarrow> nat" where
  "hex_value s = foldl (\<lambda>n c. 16 * n + (case hex_digit_value c of None \<Rightarrow> 0 | Some d \<Rightarrow> d)) 0 s"

definition generateTestVerification :: "verify_env \<Rightarrow> claim \<Rightarrow> time \<Rightarrow> pipeline_result" where
  "generateTestVerification env claim now =
     (fixtures ! (hex_value (take 8 (pe_sha256 env (cl_id claim))) mod length fixtures)) now"

subsection \<open>Evidence\<close>

definition looksLikeUrl :: "string \<Rightarrow> bool" where
  "looksLikeUrl value =
     (let v = toLowerCase (trim value)
      in take 7 v = ''http://'' \<or> take 8 v = ''https://'')"

text \<open>The message of a failed call; its body in the answer is left out.\<close>

definition ocr_error :: "ocr_failure \<Rightarrow> app_error" where
  "ocr_error err =
     (case of_status err of
        Some st \<Rightarrow> AppException AI_INVALID_RESPONSE 502 (''OCR service returned '' @ show_int st)
      | None \<Rightarrow>
          if of_code err \<in> {Some ''ECONNREFUSED'', Some ''ENOTFOUND''} then
            AppException AI_SERVICE_UNAVAILABLE 503 ''OCR service unavailable''
          else if (case of_message err of None \<Rightarrow> False | Some m \<Rightarrow> str_includes m ''timeout'') \<or>
                  of_code err = Some ''ETIMEDOUT'' then
            AppException AI_SERVICE_TIMEOUT 504 ''OCR service call timed out''
          else AppException AI_SERVICE_UNAVAILABLE 503 ''OCR service call failed'')"

text \<open>One call through the breaker; readings \<open>k\<close> and \<open>k + 1\<close> of the clock.\<close>

definition later_clock :: "nat \<Rightarrow> clock \<Rightarrow> clock" where
  "later_clock k clk = (\<lambda>j. clk (k + j))"

definition callOCRService ::
  "verify_env \<Rightarrow> clock \<Rightarrow> string \<Rightarrow> pipeline \<Rightarrow> (app_error + ocr_response) \<times> pipeline" where
  "callOCRService env clk documentUrl p =
     (case fire (pe_ocrOptions env) clk \<lparr>of_status = None, of_code = None, of_message = Some BREAKER_OPEN\<rparr>
             (pe_ocr env documentUrl (pl_calls p)) (pl_ocr p) of
        (r, b) \<Rightarrow> (map_sum ocr_error id r, p\<lparr>pl_ocr := b, pl_calls := pl_calls p + 1\<rparr>))"

definition field_line :: "verify_env \<Rightarrow> string \<times> string \<times> rat \<Rightarrow> string" where
  "field_line env = (\<lambda>(k, v, c). ''  '' @ map (\<lambda>x. if x = CHR ''_'' then CHR '' '' else x) k @ '': '' @ [DQUOTE] @ v @ [DQUOTE]
     @ '' (confidence: '' @ pe_fixed1 env (c * 100) @ ''%)'')"

definition buildOCRContext :: "verify_env \<Rightarrow> clock \<Rightarrow> string \<Rightarrow> pipeline \<Rightarrow> string \<times> pipeline" where
  "buildOCRContext env clk evidenceRef p =
     (case callOCRService env clk evidenceRef p of
        (Inl e, p1) \<Rightarrow> (''Document URL (OCR service unreachable): '' @ evidenceRef, p1)
      | (Inr r, p1) \<Rightarrow>
          (case (oc_success r, oc_data r) of
             (True, Some (found, raw_text)) \<Rightarrow>
               let fieldLines = join [LF] (map (field_line env) (filter (\<lambda>(k, v, c). v \<noteq> []) found))
               in (join [LF] [''Identity document '' @ en_dash @ '' extracted fields:'',
                     (if fieldLines = [] then ''  (no structured fields extracted)'' else fieldLines), [],
                     ''Full OCR text:'', (if raw_text = [] then ''  (no raw text extracted)'' else raw_text)], p1)
           | _ \<Rightarrow> (''Document URL (OCR failed): '' @ evidenceRef, p1)))"

subsection \<open>The verdict of the model\<close>

text \<open>\<open>resp[key]\<close>; of \<open>null\<close> it throws.\<close>

fun verdict_member :: "json \<Rightarrow> string \<Rightarrow> string + json option" where
  "verdict_member JNull k = Inl ''Cannot read properties of null''"
| "verdict_member (JObj m) k = Inr (map_of m k)"
| "verdict_member v k = Inr None"

text \<open>
  \<open>Number(x)\<close>, as a comparison with a number converts its operand; \<open>None\<close> is \<open>NaN\<close>. An array is converted
  through its text: empty it is 0, with one member it is that of its member's text.
\<close>

fun member_number :: "(string \<Rightarrow> rat option) \<Rightarrow> json \<Rightarrow> rat option" where
  "member_number number JNull = Some 0"
| "member_number number (JBool b) = None"
| "member_number number (JNum n) = Some n"
| "member_number number (JStr s) = number s"
| "member_number number (JArr []) = Some 0"
| "member_number number (JArr [v]) = member_number number v"
| "member_number number (JArr (v # w # vs)) = None"
| "member_number number (JObj m) = None"

definition to_number :: "(string \<Rightarrow> rat option) \<Rightarrow> json \<Rightarrow> rat option" where
  "to_number number v = (case v of JBool b \<Rightarrow> Some (of_bool b) | _ \<Rightarrow> member_number number v)"

definition outside_unit :: "(string \<Rightarrow> rat option) \<Rightarrow> json \<Rightarrow> bool" where
  "outside_unit number v = (case to_number number v of None \<Rightarrow> False | Some x \<Rightarrow> x < 0 \<or> 1 < x)"

definition VERDICT_KEYS :: "string list" where
  "VERDICT_KEYS = [''score'', ''confidence'', ''riskLevel'', ''factors'', ''riskFactors'', ''recommendations'']"

fun require_keys :: "json \<Rightarrow> string list \<Rightarrow> string + unit" where
  "require_keys resp [] = Inr ()"
| "require_keys resp (k # ks) =
     (case verdict_member resp k of
        Inl e \<Rightarrow> Inl e
      | Inr v \<Rightarrow> if v = None \<or> v = Some JNull then Inl (''AI response is missing field '' @ k)
                 else require_keys resp ks)"

definition verdict_of :: "json \<Rightarrow> string \<Rightarrow> json" where
  "verdict_of resp k = (case verdict_member resp k of Inr (Some v) \<Rightarrow> v | _ \<Rightarrow> JNull)"

definition validateAIResponse :: "verify_env \<Rightarrow> json \<Rightarrow> string + unit" where
  "validateAIResponse env resp =
     (case require_keys resp VERDICT_KEYS of
        Inl e \<Rightarrow> Inl e
      | Inr _ \<Rightarrow>
          if outside_unit (pe_number env) (verdict_of resp ''score'') then Inl ''AI score out of range''
          else if outside_unit (pe_number env) (verdict_of resp ''confidence'') then Inl ''AI confidence out of range''
          else if asRiskLevel (Some (verdict_of resp ''riskLevel'')) = None then Inl ''AI riskLevel invalid''
          else Inr ())"

text \<open>What \<open>[...x]\<close> spreads; other values are not iterable.\<close>

fun iterated :: "json \<Rightarrow> json list option" where
  "iterated (JArr vs) = Some vs"
| "iterated (JStr s) = Some (map (\<lambda>c. JStr [c]) s)"
| "iterated v = None"

definition has_length :: "(string \<Rightarrow> rat option) \<Rightarrow> json \<Rightarrow> bool" where
  "has_length number v =
     (case v of
        JArr vs \<Rightarrow> vs \<noteq> []
      | JStr s \<Rightarrow> s \<noteq> []
      | JObj m \<Rightarrow> (case Option.bind (map_of m ''length'') (to_number number) of None \<Rightarrow> False | Some n \<Rightarrow> 0 < n)
      | _ \<Rightarrow> False)"

text \<open>\<open>toFixed\<close> is a method of numbers only.\<close>

definition mapAIResponseToResult :: "verify_env \<Rightarrow> time \<Rightarrow> json \<Rightarrow> string + pipeline_result" where
  "mapAIResponseToResult env now ai =
     (case (verdict_of ai ''score'', verdict_of ai ''confidence'', iterated (verdict_of ai ''factors''),
            iterated (verdict_of ai ''riskFactors''), asRiskLevel (Some (verdict_of ai ''riskLevel''))) of
        (JNum score, JNum confidence, Some factors, Some riskFactors, Some risk) \<Rightarrow>
          Inr \<lparr>rs_score = round3 score, rs_confidence = round3 confidence, rs_factors = factors @ riskFactors,
               rs_riskLevel = risk,
               rs_recommendations = (if has_length (pe_number env) (verdict_of ai ''recommendations'')
                 then Some (verdict_of ai ''recommendations'') else None),
               rs_processedAt = now\<rparr>
      | _ \<Rightarrow> Inl ''TypeError'')"

definition user_prompt :: "verify_env \<Rightarrow> claim \<Rightarrow> string \<Rightarrow> string" where
  "user_prompt env claim evidenceContext =
     trim (join [LF] [[], ''Claim metadata:'', ''- Claim ID      : '' @ cl_id claim,
       ''- Campaign ID   : '' @ cl_campaignId claim, ''- Requested amt : '' @ ce_num (pe_claims env) (cl_amount claim),
       ''- Recipient ref : '' @ cl_recipientRef claim, [], ''Evidence:'', evidenceContext, [],
       ''Assess this claim according to the humanitarian standards above and return only'', ''the JSON verdict.'', []])"

definition callOpenAI ::
  "verify_env \<Rightarrow> clock \<Rightarrow> claim \<Rightarrow> string \<Rightarrow> pipeline \<Rightarrow> (string + json) \<times> pipeline" where
  "callOpenAI env clk claim evidenceContext p =
     (case fire (pe_llmOptions env) clk BREAKER_OPEN
             (pe_llm env (user_prompt env claim evidenceContext) (pl_calls p)) (pl_llm p) of
        (r, b) \<Rightarrow>
          (case r of
             Inl e \<Rightarrow> Inl e
           | Inr content \<Rightarrow>
               (case json_parse (pe_rd env) (case content of None \<Rightarrow> [] | Some c \<Rightarrow> c) of
                  None \<Rightarrow> Inl ''OpenAI returned non-JSON content''
                | Some parsed \<Rightarrow>
                    (case validateAIResponse env parsed of Inl e \<Rightarrow> Inl e | Inr _ \<Rightarrow> Inr parsed)),
           p\<lparr>pl_llm := b, pl_calls := pl_calls p + 1\<rparr>))"

text \<open>Readings 0 and 1 of the clock are those of the OCR call, 2 and 3 those of the model, 4 stamps the result.\<close>

definition evidence_context :: "verify_env \<Rightarrow> clock \<Rightarrow> string \<Rightarrow> pipeline \<Rightarrow> string \<times> pipeline" where
  "evidence_context env clk evidenceRef p =
     (if looksLikeUrl evidenceRef then buildOCRContext env clk evidenceRef p
      else (''Applicant'' @ [CHR 0x27] @ ''s stated need:'' @ [LF] @ evidenceRef, p))"

definition performAIVerification ::
  "verify_env \<Rightarrow> clock \<Rightarrow> claim \<Rightarrow> pipeline \<Rightarrow> pipeline_result \<times> pipeline" where
  "performAIVerification env clk claim p =
     (if \<not> truthy (cl_evidenceRef claim) then
        (buildFallbackResult (clk 4) ''No evidence provided for this claim. Manual review is required.'', p)
      else
        (case evidence_context env clk (the (cl_evidenceRef claim)) p of
           (context, p1) \<Rightarrow>
             if \<not> pe_openai env then
               (buildFallbackResult (clk 4) ''AI service not configured. Fallback scoring applied.'', p1)
             else
               (case callOpenAI env (later_clock 2 clk) claim context p1 of
                  (r, p2) \<Rightarrow>
                    (case Option.bind (case r of Inl e \<Rightarrow> None | Inr ai \<Rightarrow> Some ai)
                            (\<lambda>ai. case mapAIResponseToResult env (clk 4) ai of Inl e \<Rightarrow> None | Inr x \<Rightarrow> Some x) of
                       Some x \<Rightarrow> (x, p2)
                     | None \<Rightarrow> (buildFallbackResult (clk 4)
                         ''AI analysis could not be completed. Manual review is required.'', p2)))))"

definition score_claim ::
  "verify_env \<Rightarrow> clock \<Rightarrow> (nat \<Rightarrow> rat) \<Rightarrow> claim \<Rightarrow> pipeline \<Rightarrow> pipeline_result \<times> pipeline" where
  "score_claim env clk rnd claim p =
     (if verification_mode env = ''test'' then (generateTestVerification env claim (clk 4), p)
      else if verification_mode env = ''mock'' then (generateMockVerification rnd (clk 4), p)
      else performAIVerification env clk claim p)"

section \<open>The outcome\<close>

definition persisted_form :: "pipeline_result \<Rightarrow> verification_result" where
  "persisted_form r = \<lparr>vt_score = rs_score r, vt_confidence = rs_confidence r,
     vt_details = Some \<lparr>vd_factors = asStringArray (Some (JArr (rs_factors r))), vd_riskLevel = rs_riskLevel r,
        vd_recommendations = map_option (\<lambda>v. asStringArray (Some v)) (rs_recommendations r)\<rparr>,
     vt_processedAt = Some (rs_processedAt r)\<rparr>"

text \<open>A JSON value in the metadata of an audit entry; an array is the object of its indices.\<close>

fun meta_json :: "json \<Rightarrow> meta_value" where
  "meta_json JNull = MNull"
| "meta_json (JBool b) = MBool b"
| "meta_json (JNum n) = MNum n"
| "meta_json (JStr s) = MStr s"
| "meta_json (JArr vs) = MObj (zip (map show_nat [0..<length vs]) (map meta_json vs))"
| "meta_json (JObj m) = MObj (map (\<lambda>(k, v). (k, meta_json v)) m)"

definition completion_event :: "claim_status \<Rightarrow> pipeline_result enhanced \<Rightarrow> verification_job \<Rightarrow> audit_params" where
  "completion_event st r job =
     \<lparr>au_actorId = ''system'', au_entity = VERIFICATION_AUDIT_ENTITY, au_entityId = vj_claimId job,
      au_action = VERIFICATION_COMPLETE_ACTION,
      au_metadata = [(''score'', MNum (rs_score (en_result r))), (''status'', MStr (claim_status_name st)),
        (''packageId'', meta_json (md_packageId (en_metadata r))), (''network'', MStr (md_network (en_metadata r))),
        (''anchorMetadata'', (case vj_anchor job of None \<Rightarrow> MNull | Some a \<Rightarrow> meta_json (JObj (anchor_object a))))]\<rparr>"

definition outcome_row ::
  "verify_env \<Rightarrow> verification_job \<Rightarrow> claim \<Rightarrow> pipeline_result \<Rightarrow> claim_status \<Rightarrow> claim \<Rightarrow> claim" where
  "outcome_row env job read r st row =
     row\<lparr>cl_status := st,
         cl_anchorMetadata := Some (JObj (mergeClaimAnchorMetadata (cl_anchorMetadata read)
           (map_option anchor_object (vj_anchor job))
           (toPersistedVerificationResult (rs_processedAt r) (persisted_form r) (verification_threshold env))))\<rparr>"

text \<open>
  What a worker does with the result of a claim it has \<open>read\<close>: readings 5 and 6 of the clock. The claim
  is updated by its id, whatever has become of it since.
\<close>

definition write_outcome ::
  "verify_env \<Rightarrow> clock \<Rightarrow> verification_job \<Rightarrow> claim \<Rightarrow> pipeline_result \<Rightarrow> pipeline
   \<Rightarrow> (app_error + pipeline_result enhanced) \<times> pipeline" where
  "write_outcome env clk job read result p =
     (let s = pl_claims p;
          r = enhanceWithMetadata (pe_settings env) (pe_deployments env) s (clk 5) result (vj_claimId job) (cl_campaignId read);
          st = (if verification_threshold env \<le> rs_score (en_result r) then C_verified else C_requested)
      in if find_claim (vj_claimId job) s = None then
           (Inl (PlainError ''An operation failed because it depends on one or more records that were required but not found.''), p)
         else
           (Inr r, p\<lparr>pl_claims := log_audit (clk 6) (completion_event st r job)
              (update_claim (clk 6) (vj_claimId job) (outcome_row env job read result st) s)\<rparr>))"

definition processVerification ::
  "verify_env \<Rightarrow> clock \<Rightarrow> (nat \<Rightarrow> rat) \<Rightarrow> verification_job \<Rightarrow> pipeline \<Rightarrow> (app_error + pipeline_result enhanced) \<times> pipeline" where
  "processVerification env clk rnd job p =
     (case find_claim (vj_claimId job) (pl_claims p) of
        None \<Rightarrow> (Inl (verification_failed (''Claim with ID '' @ vj_claimId job @ '' not found'')), p)
      | Some claim \<Rightarrow>
          (case score_claim env clk rnd claim p of
             (result, p1) \<Rightarrow> write_outcome env clk job claim result p1))"

section \<open>Queries\<close>

definition verification_findOne :: "ident \<Rightarrow> pipeline \<Rightarrow> app_error + claim" where
  "verification_findOne i p =
     (case find_claim i (pl_claims p) of
        None \<Rightarrow> Inl (verification_failed (''Claim with ID '' @ i @ '' not found''))
      | Some c \<Rightarrow> Inr c)"

definition verification_update :: "time \<Rightarrow> ident \<Rightarrow> (string \<times> meta_value) list \<Rightarrow> pipeline \<Rightarrow> pipeline" where
  "verification_update now i dto p =
     p\<lparr>pl_claims := log_audit now \<lparr>au_actorId = ''system'', au_entity = ''verification'', au_entityId = i,
        au_action = ''update'', au_metadata = dto\<rparr> (pl_claims p)\<rparr>"

text \<open>The waiting jobs by priority: urgent, high, normal, low; another priority is not counted.\<close>

definition priority_breakdown :: "pipeline \<Rightarrow> nat list" where
  "priority_breakdown p = map (\<lambda>k. count_where (\<lambda>(i, j). vj_priority j = k) (pl_jobs p)) [1, 2, 3, 4]"

end
