(* ===== verification/VerificationRules.thy ===== *)
theory VerificationRules
  imports VerificationService
begin

text \<open>
  What the verification of the theory \<open>VerificationService\<close> guarantees: every result is stored and read back
  as it is meant, a claim is verified by the model's verdict only, and, as long as a result is written
  while its claim is still open, the books of the theory \<open>ClaimLedger\<close> stay balanced. The last section shows what
  a result that comes too late does.
\<close>

section \<open>Scores\<close>

definition unit_rat :: "rat \<Rightarrow> bool" where
  "unit_rat x \<longleftrightarrow> 0 \<le> x \<and> x \<le> 1"

lemma round3_unit: "unit_rat x \<Longrightarrow> unit_rat (round3 x)"
proof -
  assume x: "unit_rat x"
  then have "0 \<le> \<lfloor>x * 1000 + 1 / 2\<rfloor>" by (simp add: unit_rat_def)
  moreover have "\<lfloor>x * 1000 + 1 / 2\<rfloor> \<le> 1000" using x by (simp add: unit_rat_def floor_le_iff)
  ultimately have "0 \<le> (of_int \<lfloor>x * 1000 + 1 / 2\<rfloor> :: rat) \<and> (of_int \<lfloor>x * 1000 + 1 / 2\<rfloor> :: rat) \<le> 1000"
    by (metis of_int_0_le_iff of_int_le_iff of_int_numeral)
  then show ?thesis by (simp add: unit_rat_def round3_def)
qed

lemma outside_unit_number [simp]: "outside_unit number (JNum x) \<longleftrightarrow> \<not> unit_rat x"
  by (auto simp: outside_unit_def to_number_def unit_rat_def)

definition in_range :: "pipeline_result \<Rightarrow> bool" where
  "in_range r \<longleftrightarrow> unit_rat (rs_score r) \<and> unit_rat (rs_confidence r)"

lemma fallback_range [simp]: "in_range (buildFallbackResult now reason)"
  by (simp add: in_range_def buildFallbackResult_def unit_rat_def)

lemma mapped_result:
  assumes "mapAIResponseToResult env now ai = Inr r"
  obtains x y where "verdict_of ai ''score'' = JNum x" "verdict_of ai ''confidence'' = JNum y"
    "rs_score r = round3 x" "rs_confidence r = round3 y"
  using assms by (auto simp: mapAIResponseToResult_def split: json.splits option.splits)

lemma validated_range:
  assumes "validateAIResponse env ai = Inr u" and "mapAIResponseToResult env now ai = Inr r"
  shows "in_range r"
  using assms(1) by (rule_tac mapped_result [OF assms(2)])
    (auto simp: in_range_def validateAIResponse_def intro!: round3_unit split: sum.splits if_splits)

lemma mock_range:
  assumes "\<And>k. 0 \<le> rnd k \<and> rnd k < 1"
  shows "in_range (generateMockVerification rnd now)"
proof -
  have "unit_rat (85 / 100 + rnd 1 * (1 / 10))" using assms [of 1] by (simp add: unit_rat_def)
  moreover have "unit_rat (min (95 / 100) (max (5 / 10) (6 / 10 + rnd 0 * (35 / 100))))"
    by (simp add: unit_rat_def le_max_iff_disj min_le_iff_disj)
  ultimately show ?thesis
    using round3_unit by (simp add: in_range_def generateMockVerification_def Let_def)
qed

lemma fixture_range: "f \<in> set fixtures \<Longrightarrow> in_range (f now)"
  by (auto simp: fixtures_def fixture_def in_range_def unit_rat_def)

lemma test_range: "in_range (generateTestVerification env c now)"
proof -
  have "fixtures \<noteq> []" by (simp add: fixtures_def)
  then show ?thesis
    unfolding generateTestVerification_def by (intro fixture_range nth_mem) simp
qed

text \<open>
  Either the model gave a valid verdict or the result is the fallback. \<open>model_answer\<close> is what comes back through the
  breaker when the model is asked about a claim and its evidence: an error unless the breaker lets the call pass and
  the model answers.
\<close>

definition model_answer :: "verify_env \<Rightarrow> clock \<Rightarrow> claim \<Rightarrow> string \<Rightarrow> pipeline \<Rightarrow> string + string option" where
  "model_answer env clk c evidence p = fst (fire (pe_llmOptions env) clk BREAKER_OPEN
     (pe_llm env (user_prompt env c evidence) (pl_calls p)) (pl_llm p))"

lemma model_answer_asked:
  "model_answer env clk c evidence p = Inr content \<Longrightarrow> pe_llm env (user_prompt env c evidence) (pl_calls p) = Inr content"
  by (auto simp: model_answer_def fire_def split: prod.splits sum.splits option.splits)

lemma callOpenAI_valid:
  assumes "callOpenAI env clk c ctx p = (Inr ai, p1)"
  shows "validateAIResponse env ai = Inr ()"
    and "\<exists>content. model_answer env clk c ctx p = Inr content \<and>
      json_parse (pe_rd env) (case content of None \<Rightarrow> [] | Some x \<Rightarrow> x) = Some ai"
  using assms
  by (auto simp: callOpenAI_def model_answer_def split: prod.splits sum.splits option.splits)

lemma performed:
  assumes "performAIVerification env clk c p = (r, p1)"
  shows "(\<exists>reason. r = buildFallbackResult (clk 4) reason) \<or>
    truthy (cl_evidenceRef c) \<and> pe_openai env \<and>
    (\<exists>ctx q content ai. evidence_context env clk (the (cl_evidenceRef c)) p = (ctx, q) \<and>
      model_answer env (later_clock 2 clk) c ctx q = Inr content \<and>
      json_parse (pe_rd env) (case content of None \<Rightarrow> [] | Some x \<Rightarrow> x) = Some ai \<and>
      validateAIResponse env ai = Inr () \<and> mapAIResponseToResult env (clk 4) ai = Inr r)"
proof (cases "truthy (cl_evidenceRef c) \<and> pe_openai env")
  case False
  then show ?thesis using assms by (auto simp: performAIVerification_def split: prod.splits if_splits)
next
  case True
  obtain ctx q where ctx: "evidence_context env clk (the (cl_evidenceRef c)) p = (ctx, q)" by force
  obtain a q1 where call: "callOpenAI env (later_clock 2 clk) c ctx q = (a, q1)" by force
  show ?thesis
  proof (cases a)
    case (Inl e)
    then show ?thesis using assms True ctx call by (auto simp: performAIVerification_def)
  next
    case (Inr ai)
    note valid = callOpenAI_valid [OF call [unfolded Inr]]
    show ?thesis
    proof (cases "mapAIResponseToResult env (clk 4) ai")
      case (Inl e)
      then show ?thesis using assms True ctx call Inr by (auto simp: performAIVerification_def)
    next
      case (Inr x)
      then have "r = x" using assms True ctx call \<open>a = Inr ai\<close> by (auto simp: performAIVerification_def)
      with valid Inr True ctx show ?thesis by blast
    qed
  qed
qed

lemma scored_range:
  assumes "\<And>k. 0 \<le> rnd k \<and> rnd k < 1" and "score_claim env clk rnd c p = (r, p1)"
  shows "in_range r"
proof (cases "verification_mode env \<in> {''test'', ''mock''}")
  case True
  then show ?thesis using assms(2) test_range mock_range [OF assms(1)] by (auto simp: score_claim_def split: if_splits)
next
  case False
  then have "performAIVerification env clk c p = (r, p1)" using assms(2) by (simp add: score_claim_def)
  from performed [OF this] validated_range show ?thesis by auto
qed

lemma context_claims: "pl_claims (snd (evidence_context env clk e p)) = pl_claims p"
  by (auto simp: evidence_context_def buildOCRContext_def callOCRService_def Let_def
      split: prod.splits sum.splits option.splits bool.splits)

lemma call_claims: "pl_claims (snd (callOpenAI env clk c ctx p)) = pl_claims p"
  by (simp add: callOpenAI_def split: prod.split)

lemma scored_claims:
  assumes "score_claim env clk rnd c p = (r, p1)"
  shows "pl_claims p1 = pl_claims p"
proof -
  have "pl_claims (snd (performAIVerification env clk c p)) = pl_claims p"
    using context_claims [of env clk "the (cl_evidenceRef c)" p] call_claims [of env "later_clock 2 clk" c]
    by (auto simp: performAIVerification_def split: prod.split option.split) (metis snd_conv)+
  then show ?thesis using assms by (auto simp: score_claim_def split: if_splits)
qed

section \<open>The write\<close>

lemma find_updated:
  assumes "find_claim i s = Some c" and "cl_id (f c) = cl_id c"
  shows "find_claim i (update_claim now i f s) = Some (f c\<lparr>cl_updatedAt := now\<rparr>)"
proof -
  have "find_row (\<lambda>c. cl_id c = i) rows = Some c \<Longrightarrow>
      find_row (\<lambda>c. cl_id c = i) (update_where (\<lambda>c. cl_id c = i) (\<lambda>c. f c\<lparr>cl_updatedAt := now\<rparr>) rows) =
      Some (f c\<lparr>cl_updatedAt := now\<rparr>)" for rows
    using assms(2) by (induction rows) (auto simp: find_row_Cons split: if_splits)
  then show ?thesis using assms(1) by (simp add: find_claim_def update_claim_def)
qed

lemma find_log [simp]: "find_claim i (log_audit now a s) = find_claim i s"
  by (simp add: find_claim_def log_audit_def)

definition outcome_status :: "verify_env \<Rightarrow> pipeline_result \<Rightarrow> claim_status" where
  "outcome_status env r = (if verification_threshold env \<le> rs_score r then C_verified else C_requested)"

definition outcome_claims ::
  "verify_env \<Rightarrow> clock \<Rightarrow> verification_job \<Rightarrow> claim \<Rightarrow> pipeline_result \<Rightarrow> pipeline \<Rightarrow> claims_state" where
  "outcome_claims env clk job read r p =
     log_audit (clk 6) (completion_event (outcome_status env r)
         (enhanceWithMetadata (pe_settings env) (pe_deployments env) (pl_claims p) (clk 5) r (vj_claimId job) (cl_campaignId read)) job)
       (update_claim (clk 6) (vj_claimId job) (outcome_row env job read r (outcome_status env r)) (pl_claims p))"

lemma write_outcome_Some:
  assumes "find_claim (vj_claimId job) (pl_claims p) = Some c"
  shows "write_outcome env clk job read r p =
    (Inr (enhanceWithMetadata (pe_settings env) (pe_deployments env) (pl_claims p) (clk 5) r (vj_claimId job) (cl_campaignId read)),
     p\<lparr>pl_claims := outcome_claims env clk job read r p\<rparr>)"
  using assms by (simp add: write_outcome_def outcome_claims_def outcome_status_def Let_def)

lemma write_outcome_None:
  "find_claim (vj_claimId job) (pl_claims p) = None \<Longrightarrow> snd (write_outcome env clk job read r p) = p"
  by (simp add: write_outcome_def Let_def)

lemma outcome_found:
  assumes "find_claim (vj_claimId job) (pl_claims p) = Some c"
  shows "find_claim (vj_claimId job) (outcome_claims env clk job read r p) =
    Some (outcome_row env job read r (outcome_status env r) c\<lparr>cl_updatedAt := clk 6\<rparr>)"
  using find_updated [OF assms, of "outcome_row env job read r (outcome_status env r)" "clk 6"]
  by (simp add: outcome_claims_def outcome_row_def)

lemma outcome_read_back:
  "\<exists>pv. readPersistedVerificationResult (cl_anchorMetadata (outcome_row env job read r st c)) = Some pv \<and>
     pv_passed pv = (verification_threshold env \<le> rs_score r) \<and> pv_score pv = rs_score r \<and>
     pv_confidence pv = rs_confidence r \<and> pv_riskLevel pv = Some (rs_riskLevel r) \<and>
     pv_threshold pv = verification_threshold env"
  using verification_outcome_roundtrip [of "cl_anchorMetadata read" "map_option anchor_object (vj_anchor job)"
    "rs_processedAt r" "persisted_form r" "verification_threshold env"]
  by (simp add: outcome_row_def persisted_form_def Let_def)

text \<open>The log as the service of the verification state reads it.\<close>

definition logged_row :: "time \<times> audit_params \<Rightarrow> verification_audit_row" where
  "logged_row = (\<lambda>(t, a). \<lparr>va_entity = au_entity a, va_entityId = au_entityId a, va_action = au_action a,
     va_metadata = Some (json_of_meta (MObj (au_metadata a))), va_timestamp = t, va_deletedAt = None\<rparr>)"

definition logged_rows :: "claims_state \<Rightarrow> verification_audit_row list" where
  "logged_rows s = map logged_row (cs_audit s)"

definition claim_statuses :: "claims_state \<Rightarrow> (ident \<times> claim_status) list" where
  "claim_statuses s = map (\<lambda>c. (cl_id c, cl_status c)) (cs_claims s)"

lemma find_status: "find_claim i s = Some c \<Longrightarrow> find_row (\<lambda>c. fst c = i) (claim_statuses s) = Some (i, cl_status c)"
proof -
  have "find_row (\<lambda>c. cl_id c = i) rows = Some c \<Longrightarrow>
      find_row (\<lambda>c. fst c = i) (map (\<lambda>c. (cl_id c, cl_status c)) rows) = Some (i, cl_status c)" for rows
    by (induction rows) (auto simp: find_row_Cons split: if_splits)
  then show "find_claim i s = Some c \<Longrightarrow> find_row (\<lambda>c. fst c = i) (claim_statuses s) = Some (i, cl_status c)"
    by (simp add: find_claim_def claim_statuses_def)
qed

text \<open>A row later than all others is the latest one.\<close>

lemma latest_is_last:
  assumes "\<And>r. r \<in> set rows \<Longrightarrow> va_timestamp r < va_timestamp x"
  shows "latest_first (rows @ [x]) = x # latest_first rows"
proof -
  have "foldr (insort_key (\<lambda>r. - va_timestamp r)) rows [x] = x # foldr (insort_key (\<lambda>r. - va_timestamp r)) rows []"
    using assms by (induction rows) force+
  then show ?thesis by (simp add: latest_first_def sort_key_def)
qed

lemma state_after_outcome:
  assumes "find_claim (vj_claimId job) (pl_claims p) = Some c"
    and "\<And>t a. (t, a) \<in> set (cs_audit (pl_claims p)) \<Longrightarrow> t < clk 6"
  shows "\<exists>st. getState (verification_threshold env) (logged_rows (outcome_claims env clk job read r p))
      (claim_statuses (outcome_claims env clk job read r p)) (vj_claimId job) = Some st \<and>
    vs_complete st = (verification_threshold env \<le> rs_score r) \<and> vs_drift st = None"
proof -
  let ?i = "vj_claimId job" and ?th = "verification_threshold env" and ?s = "outcome_claims env clk job read r p"
  define ev where "ev = completion_event (outcome_status env r)
      (enhanceWithMetadata (pe_settings env) (pe_deployments env) (pl_claims p) (clk 5) r ?i (cl_campaignId read)) job"
  have log: "logged_rows ?s = logged_rows (pl_claims p) @ [logged_row (clk 6, ev)]"
    by (simp add: logged_rows_def outcome_claims_def log_audit_def update_claim_def ev_def)
  have own: "completion_row (\<lambda>j. j = ?i) (logged_row (clk 6, ev))"
    by (simp add: completion_row_def logged_row_def ev_def completion_event_def)
  have last: "latest_first (filter (completion_row (\<lambda>j. j = ?i)) (logged_rows ?s)) = logged_row (clk 6, ev) #
      latest_first (filter (completion_row (\<lambda>j. j = ?i)) (logged_rows (pl_claims p)))"
    unfolding log filter_append using own
    by (simp, intro latest_is_last) (use assms(2) in \<open>auto simp: logged_rows_def logged_row_def\<close>)
  have "findRecord ?th (logged_rows ?s) ?i = Some (toRecord ?th ?i
      (va_metadata (logged_row (clk 6, ev))) (clk 6))"
    unfolding findRecord_def last by (simp add: logged_row_def ev_def completion_event_def)
  moreover have "vc_passed (toRecord ?th ?i (va_metadata (logged_row (clk 6, ev))) (clk 6)) = (?th \<le> rs_score r)"
    by (simp add: toRecord_def logged_row_def ev_def completion_event_def outcome_status_def Let_def)
  moreover have "find_row (\<lambda>c. fst c = ?i) (claim_statuses ?s) = Some (?i, outcome_status env r)"
    using find_status [OF outcome_found [OF assms(1)]] by (simp add: outcome_row_def)
  ultimately show ?thesis
    by (simp add: getState_def buildState_def detectDrift_def outcome_status_def VERIFICATION_REQUIRED_STATUSES_def Let_def)
qed

section \<open>Properties of one verification\<close>

text \<open>
  C13. A completed verification lands. For a claim that exists, processing its job succeeds whatever the OCR
  service, the model and the deployment registry answer: the score and the confidence lie between 0 and 1, the claim
  is verified exactly when the score reaches the threshold and requested otherwise, the outcome is read back
  from the claim as it was computed, the manual verification of the claim goes through exactly when it
  passed, and the state derived from the audit log agrees with the claim.
\<close>

theorem verification_lands:
  assumes "find_claim (vj_claimId job) (pl_claims p) = Some c" and "cl_deletedAt c = None"
    and "\<And>k. 0 \<le> rnd k \<and> rnd k < 1"
    and "\<forall>e \<in> set (cs_audit (pl_claims p)). fst e < clk 6"
  shows "\<exists>r p' c' pv st. processVerification env clk rnd job p = (Inr r, p') \<and>
    unit_rat (rs_score (en_result r)) \<and> unit_rat (rs_confidence (en_result r)) \<and>
    find_claim (vj_claimId job) (pl_claims p') = Some c' \<and>
    cl_status c' = (if verification_threshold env \<le> rs_score (en_result r) then C_verified else C_requested) \<and>
    readPersistedVerificationResult (cl_anchorMetadata c') = Some pv \<and>
    pv_passed pv = (verification_threshold env \<le> rs_score (en_result r)) \<and>
    pv_score pv = rs_score (en_result r) \<and> pv_confidence pv = rs_confidence (en_result r) \<and>
    isl (fst (verify (pe_claims env) now (vj_claimId job) (pl_claims p'))) = (\<not> pv_passed pv) \<and>
    getState (verification_threshold env) (logged_rows (pl_claims p')) (claim_statuses (pl_claims p')) (vj_claimId job)
      = Some st \<and> vs_complete st = pv_passed pv \<and> vs_drift st = None"
proof -
  obtain r p1 where sc: "score_claim env clk rnd c p = (r, p1)" by force
  have p1: "pl_claims p1 = pl_claims p" by (rule scored_claims [OF sc])
  let ?s = "outcome_claims env clk job c r p1"
  let ?c = "outcome_row env job c r (outcome_status env r) c\<lparr>cl_updatedAt := clk 6\<rparr>"
  have found: "find_claim (vj_claimId job) ?s = Some ?c"
    by (rule outcome_found) (simp add: p1 assms(1))
  have ran: "processVerification env clk rnd job p =
      (Inr (enhanceWithMetadata (pe_settings env) (pe_deployments env) (pl_claims p1) (clk 5) r (vj_claimId job) (cl_campaignId c)),
       p1\<lparr>pl_claims := ?s\<rparr>)"
    using write_outcome_Some [of job p1 c] by (simp add: processVerification_def assms(1) sc p1)
  obtain pv where pv: "readPersistedVerificationResult (cl_anchorMetadata ?c) = Some pv"
    "pv_passed pv = (verification_threshold env \<le> rs_score r)" "pv_score pv = rs_score r" "pv_confidence pv = rs_confidence r"
    using outcome_read_back [of env job c r "outcome_status env r" c] by auto
  obtain st where st: "getState (verification_threshold env) (logged_rows ?s) (claim_statuses ?s) (vj_claimId job) = Some st"
    "vs_complete st = (verification_threshold env \<le> rs_score r)" "vs_drift st = None"
    using state_after_outcome [of job p1 c clk env c r] p1 assms(1,4) by fastforce
  have status: "cl_status ?c = outcome_status env r" "cl_deletedAt ?c = None"
    using assms(2) by (simp_all add: outcome_row_def)
  have "isl (fst (verify (pe_claims env) now (vj_claimId job) ?s)) = (\<not> pv_passed pv)"
    using found pv(1,2) status by (auto simp: verify_def findOne_def outcome_status_def)
  then show ?thesis
    using ran found pv st status(1) scored_range [OF assms(3) sc]
    by (intro exI [of _ "enhanceWithMetadata (pe_settings env) (pe_deployments env) (pl_claims p1) (clk 5) r (vj_claimId job) (cl_campaignId c)"]
        exI [of _ "p1\<lparr>pl_claims := ?s\<rparr>"] exI [of _ ?c] exI [of _ pv] exI [of _ st])
      (simp add: in_range_def outcome_status_def)
qed

text \<open>
  C12. A claim is verified by the model only. With a live model and a threshold above 0.55, the score of the fallback, a
  claim comes out of its processing as requested, or as verified. In the second case the claim has evidence, the model
  is configured and was asked about this claim and its evidence, the breaker let the call pass, and the answer was a
  complete, valid JSON verdict whose score, a number up to 1, reaches the threshold. So every failure on the way (no
  evidence, no key, a service down, an open breaker, an answer that is not JSON or incomplete) leaves it requested.
\<close>

theorem verified_needs_verdict:
  assumes "processVerification env clk rnd job p = (Inr r, p')" and "find_claim (vj_claimId job) (pl_claims p) = Some c"
    and "verification_mode env \<notin> {''test'', ''mock''}" and "55 / 100 < verification_threshold env"
    and "find_claim (vj_claimId job) (pl_claims p') = Some c'"
  shows "cl_status c' = C_requested \<or> cl_status c' = C_verified \<and>
    truthy (cl_evidenceRef c) \<and> pe_openai env \<and>
    (\<exists>evidence q content m x. evidence_context env clk (the (cl_evidenceRef c)) p = (evidence, q) \<and>
      model_answer env (later_clock 2 clk) c evidence q = Inr content \<and>
      json_parse (pe_rd env) (case content of None \<Rightarrow> [] | Some t \<Rightarrow> t) = Some (JObj m) \<and>
      validateAIResponse env (JObj m) = Inr () \<and>
      map_of m ''score'' = Some (JNum x) \<and> unit_rat x \<and> verification_threshold env \<le> round3 x)"
proof -
  obtain res p1 where sc: "score_claim env clk rnd c p = (res, p1)" by force
  have p1: "find_claim (vj_claimId job) (pl_claims p1) = Some c"
    using scored_claims [OF sc] assms(2) by simp
  have p': "pl_claims p' = outcome_claims env clk job c res p1"
    using assms(1,2) sc write_outcome_Some [OF p1] by (auto simp: processVerification_def)
  from assms(5) have status: "cl_status c' = C_requested \<or> cl_status c' = C_verified \<and> verification_threshold env \<le> rs_score res"
    unfolding p' outcome_found [OF p1] by (auto simp: outcome_row_def outcome_status_def split: if_splits)
  have "performAIVerification env clk c p = (res, p1)" using sc assms(3) by (simp add: score_claim_def)
  from performed [OF this] show ?thesis
  proof (elim disjE exE conjE)
    fix reason assume "res = buildFallbackResult (clk 4) reason"
    with status assms(4) show ?thesis by (simp add: buildFallbackResult_def)
  next
    fix ctx q content ai
    assume llm: "truthy (cl_evidenceRef c)" "pe_openai env" "evidence_context env clk (the (cl_evidenceRef c)) p = (ctx, q)"
      "model_answer env (later_clock 2 clk) c ctx q = Inr content"
      "json_parse (pe_rd env) (case content of None \<Rightarrow> [] | Some x \<Rightarrow> x) = Some ai"
      and valid: "validateAIResponse env ai = Inr ()" and res: "mapAIResponseToResult env (clk 4) ai = Inr res"
    from res obtain x where x: "verdict_of ai ''score'' = JNum x" "rs_score res = round3 x" by (rule mapped_result)
    then obtain m where m: "ai = JObj m" "map_of m ''score'' = Some (JNum x)"
      by (cases ai) (auto simp: verdict_of_def split: option.splits)
    have "unit_rat x" using valid x(1) by (auto simp: validateAIResponse_def split: sum.splits if_splits)
    with valid llm m x(2) have "\<exists>content m x. model_answer env (later_clock 2 clk) c ctx q = Inr content \<and>
        json_parse (pe_rd env) (case content of None \<Rightarrow> [] | Some t \<Rightarrow> t) = Some (JObj m) \<and>
        validateAIResponse env (JObj m) = Inr () \<and>
        map_of m ''score'' = Some (JNum x) \<and> unit_rat x \<and> verification_threshold env \<le> round3 x"
      if "verification_threshold env \<le> rs_score res"
      using that by (intro exI [of _ content] exI [of _ m] exI [of _ x]) simp
    with status llm(1-3) show ?thesis by blast
  qed
qed

section \<open>Claims and their verification together\<close>

text \<open>
  One step is a request of the theory \<open>ClaimLedger\<close>, the hand-over of a new claim, a request to enqueue, a worker
  taking a job (it reads the claim), dropping one without a claim, writing a result, or losing its job
  to the queue. With \<open>careful\<close> a result is written only while the claim is requested or verified.
\<close>

definition still_open :: "ident \<Rightarrow> pipeline \<Rightarrow> bool" where
  "still_open i p \<longleftrightarrow> (case find_claim i (pl_claims p) of
     None \<Rightarrow> False | Some c \<Rightarrow> cl_status c = C_requested \<or> cl_status c = C_verified)"

definition hand_over :: "clock \<Rightarrow> ident \<Rightarrow> pipeline \<Rightarrow> pipeline" where
  "hand_over clk newJobId p =
     (case cs_verifyQueue (pl_claims p) of
        [] \<Rightarrow> p
      | i # q \<Rightarrow> snd (enqueueVerification clk newJobId i None (p\<lparr>pl_claims := (pl_claims p)\<lparr>cs_verifyQueue := q\<rparr>\<rparr>)))"

inductive pipeline_step :: "verify_env \<Rightarrow> bool \<Rightarrow> pipeline \<Rightarrow> pipeline \<Rightarrow> bool" for env careful where
  requesting: "claim_step (pe_claims env) True (pl_claims p) s \<Longrightarrow> pipeline_step env careful p (p\<lparr>pl_claims := s\<rparr>)"
| handing: "pipeline_step env careful p (hand_over clk newJobId p)"
| enqueueing: "pipeline_step env careful p (snd (enqueueVerification clk newJobId i dto p))"
| taking: "(k, job) \<in> set (pl_jobs p) \<Longrightarrow> find_claim (vj_claimId job) (pl_claims p) = Some c \<Longrightarrow>
    pipeline_step env careful p (p\<lparr>pl_jobs := remove1 (k, job) (pl_jobs p), pl_active := pl_active p @ [(k, job, c)]\<rparr>)"
| dropping: "find_claim (vj_claimId job) (pl_claims p) = None \<Longrightarrow>
    pipeline_step env careful p (p\<lparr>pl_jobs := remove1 (k, job) (pl_jobs p)\<rparr>)"
| finishing: "(k, job, c) \<in> set (pl_active p) \<Longrightarrow> careful \<longrightarrow> still_open (vj_claimId job) p \<Longrightarrow>
    score_claim env clk rnd c p = (r, p1) \<Longrightarrow>
    pipeline_step env careful p
      ((snd (write_outcome env clk job c r p1))\<lparr>pl_active := remove1 (k, job, c) (pl_active p)\<rparr>)"
| losing: "(k, job, c) \<in> set (pl_active p) \<Longrightarrow>
    pipeline_step env careful p (p\<lparr>pl_active := remove1 (k, job, c) (pl_active p), pl_jobs := pl_jobs p @ [(k, job)]\<rparr>)"

inductive_cases pipeline_stepE: "pipeline_step env careful p q"

text \<open>A verification that is not interrupted is a worker taking the job and finishing it.\<close>

lemma process_is_take_finish:
  assumes "find_claim (vj_claimId job) (pl_claims p) = Some c" and "score_claim env clk rnd c p = (r, p1)"
  shows "processVerification env clk rnd job p = write_outcome env clk job c r p1"
  using assms by (simp add: processVerification_def)

lemma enqueue_view [simp]: "view (pl_claims (snd (enqueueVerification clk k i dto p))) = view (pl_claims p)"
  by (simp add: enqueueVerification_def Let_def split: option.split)

lemma hand_over_view [simp]: "view (pl_claims (hand_over clk k p)) = view (pl_claims p)"
  by (simp add: hand_over_def split: list.split)

lemma outcome_view:
  "view (outcome_claims env clk job read r p) = view (pl_claims p)\<lparr>lv_claims :=
     update_where (\<lambda>x. ac_id x = vj_claimId job) (ac_status_update (\<lambda>_. outcome_status env r)) (lv_claims (view (pl_claims p)))\<rparr>"
  by (simp add: outcome_claims_def view_def update_claim_def log_audit_def)
    (rule map_update_where_both, simp_all add: abs_claim_of_def outcome_row_def)

lemma outcome_open: "outcome_status env r = C_requested \<or> outcome_status env r = C_verified"
  by (simp add: outcome_status_def)

text \<open>What is decided about a claim stands: it only moves forward from there.\<close>

definition undecided :: "claim_status \<Rightarrow> bool" where
  "undecided st \<longleftrightarrow> st = C_requested \<or> st = C_verified"

definition settled_le :: "ledger_view \<Rightarrow> ledger_view \<Rightarrow> bool" where
  "settled_le v v' \<longleftrightarrow> (\<forall>c \<in> set (lv_claims v). \<exists>c' \<in> set (lv_claims v'). ac_id c' = ac_id c \<and>
     ac_campaign c' = ac_campaign c \<and> ac_amount c' = ac_amount c \<and>
     (undecided (ac_status c) \<or> reaches (ac_status c) (ac_status c')))"

lemma settled_reaches: "\<not> undecided a \<Longrightarrow> reaches a b \<Longrightarrow> \<not> undecided b"
  by (cases a; cases b) (simp_all add: undecided_def reaches_def)

lemma settled_le_trans:
  assumes "settled_le u v" and "settled_le v w"
  shows "settled_le u w"
  unfolding settled_le_def
proof
  fix c assume "c \<in> set (lv_claims u)"
  with assms(1) obtain c1 where c1: "c1 \<in> set (lv_claims v)" "ac_id c1 = ac_id c" "ac_campaign c1 = ac_campaign c"
    "ac_amount c1 = ac_amount c" "undecided (ac_status c) \<or> reaches (ac_status c) (ac_status c1)"
    unfolding settled_le_def by blast
  from assms(2) c1(1) obtain c2 where c2: "c2 \<in> set (lv_claims w)" "ac_id c2 = ac_id c1" "ac_campaign c2 = ac_campaign c1"
    "ac_amount c2 = ac_amount c1" "undecided (ac_status c1) \<or> reaches (ac_status c1) (ac_status c2)"
    unfolding settled_le_def by blast
  have "undecided (ac_status c) \<or> reaches (ac_status c) (ac_status c2)"
    using c1(5) c2(5) settled_reaches reaches_trans by blast
  with c1 c2 show "\<exists>c' \<in> set (lv_claims w). ac_id c' = ac_id c \<and> ac_campaign c' = ac_campaign c \<and>
      ac_amount c' = ac_amount c \<and> (undecided (ac_status c) \<or> reaches (ac_status c) (ac_status c'))"
    by (intro bexI [of _ c2]) simp_all
qed

lemma ledger_le_settled: "ledger_le v v' \<Longrightarrow> settled_le v v'"
  unfolding ledger_le_def settled_le_def by blast

lemma settled_le_refl: "settled_le v v"
  unfolding settled_le_def by force

definition pipeline_inv :: "pipeline \<Rightarrow> bool" where
  "pipeline_inv p \<longleftrightarrow> ledger_inv (view (pl_claims p))"

definition pipeline_le :: "pipeline \<Rightarrow> pipeline \<Rightarrow> bool" where
  "pipeline_le p q \<longleftrightarrow> settled_le (view (pl_claims p)) (view (pl_claims q))"

lemma open_outcome:
  assumes "find_claim (vj_claimId job) (pl_claims p) = Some c" and "undecided (cl_status c)"
    and "ledger_inv (view (pl_claims p))"
  shows "ledger_inv (view (outcome_claims env clk job read r p)) \<and>
    settled_le (view (pl_claims p)) (view (outcome_claims env clk job read r p))"
proof -
  let ?v = "view (pl_claims p)" and ?i = "vj_claimId job"
  have ids: "distinct (map ac_id (lv_claims ?v))" using assms(3) by (simp add: ledger_inv_def)
  note c = view_find [OF assms(1)]
  have row: "x = abs_claim_of c" if "x \<in> set (lv_claims ?v)" "ac_id x = ?i" for x
    using key_unique [OF ids that(1) c(1)] that(2) c(2) by simp
  have "sum_list (map (live_amount camp) (update_where (\<lambda>x. ac_id x = ?i)
        (ac_status_update (\<lambda>_. outcome_status env r)) (lv_claims ?v))) = sum_list (map (live_amount camp) (lv_claims ?v))" for camp
  proof (rule sum_list_update_where)
    fix x assume "x \<in> set (lv_claims ?v)" "ac_id x = ?i"
    then have "x = abs_claim_of c" by (rule row)
    with assms(2) outcome_open [of env r]
    show "live_amount camp (ac_status_update (\<lambda>_. outcome_status env r) x) = live_amount camp x"
      by (auto simp: live_amount_def undecided_def)
  qed
  with assms(3) have "ledger_inv (view (outcome_claims env clk job read r p))"
    by (simp add: ledger_inv_def outcome_view)
  moreover have "settled_le ?v (view (outcome_claims env clk job read r p))"
    unfolding settled_le_def
  proof
    fix x assume x: "x \<in> set (lv_claims ?v)"
    show "\<exists>x' \<in> set (lv_claims (view (outcome_claims env clk job read r p))). ac_id x' = ac_id x \<and>
        ac_campaign x' = ac_campaign x \<and> ac_amount x' = ac_amount x \<and>
        (undecided (ac_status x) \<or> reaches (ac_status x) (ac_status x'))"
    proof (cases "ac_id x = ?i")
      case True
      with row [OF x] assms(2) in_update_where_changed [OF x, of "\<lambda>x. ac_id x = ?i" "ac_status_update (\<lambda>_. outcome_status env r)"]
      show ?thesis by (intro bexI [of _ "x\<lparr>ac_status := outcome_status env r\<rparr>"]) (simp_all add: outcome_view)
    next
      case False
      with x show ?thesis by (intro bexI [of _ x]) (simp_all add: outcome_view in_update_where_kept)
    qed
  qed
  ultimately show ?thesis ..
qed

lemma pipeline_step_keeps:
  assumes "pipeline_step env True p q" and "pipeline_inv p"
  shows "pipeline_inv q \<and> pipeline_le p q"
  using assms(1)
proof cases
  case (requesting s)
  have run: "machine_run False (pl_claims p) s"
    using step_refines [OF requesting(2)] assms(2) by (simp add: pipeline_inv_def)
  then show ?thesis
    using requesting(1) run assms(2) machine.run_keeps [of False "view (pl_claims p)" "view s"] machine.run_le [of False "view (pl_claims p)" "view s"]
    by (auto simp: machine_run_def pipeline_inv_def pipeline_le_def intro: ledger_le_settled)
next
  case (finishing k job c clk rnd r p1)
  have p1: "pl_claims p1 = pl_claims p" by (rule scored_claims [OF finishing(4)])
  from finishing(3) obtain d where d: "find_claim (vj_claimId job) (pl_claims p1) = Some d" "undecided (cl_status d)"
    by (auto simp: still_open_def undecided_def p1 split: option.splits)
  then show ?thesis
    using open_outcome [OF d, of env clk c r] write_outcome_Some [OF d(1), of env clk c r] assms(2) finishing(1)
    by (simp add: pipeline_inv_def pipeline_le_def p1)
qed (use assms(2) in \<open>simp_all add: pipeline_inv_def pipeline_le_def settled_le_refl\<close>)

interpretation verified_books: mono_system "pipeline_step env True" pipeline_inv pipeline_le for env
proof
  show "pipeline_inv q" if "pipeline_step env True p q" "pipeline_inv p" for p q
    using pipeline_step_keeps [OF that] by simp
  show "pipeline_le p q" if "pipeline_step env True p q" "pipeline_inv p" for p q
    using pipeline_step_keeps [OF that] by simp
  show "pipeline_le p p" for p by (simp add: pipeline_le_def settled_le_refl)
  show "pipeline_le p r" if "pipeline_le p q" "pipeline_le q r" for p q r
    using that settled_le_trans by (auto simp: pipeline_le_def)
qed

text \<open>
  C9. Claims and their verification together keep the books. Whatever is requested, enqueued, taken up and lost, as long
  as results are written only while their claim is requested or verified, the locked amount of a campaign is
  the sum of its claims that are not cancelled, and a claim that was once approved, paid, archived or
  cancelled keeps its amount and only moves forward.
\<close>

theorem pipeline_keeps_books:
  assumes "fresh_books (pl_claims p0)" and "(pipeline_step env True)\<^sup>*\<^sup>* p0 p" and "(pipeline_step env True)\<^sup>*\<^sup>* p q"
    and "getCampaignBalance camp (pl_claims q) = Inr b"
  shows "cb_lockedAmount b = sum_list (map cl_amount
      (filter (\<lambda>c. cl_campaignId c = camp \<and> cl_status c \<noteq> C_cancelled) (cs_claims (pl_claims q)))) \<and>
    (\<forall>c \<in> set (cs_claims (pl_claims p)). \<exists>c' \<in> set (cs_claims (pl_claims q)). cl_id c' = cl_id c \<and>
      cl_amount c' = cl_amount c \<and> (undecided (cl_status c) \<or> reaches (cl_status c) (cl_status c')))"
proof -
  have p: "pipeline_inv p"
    using verified_books.run_keeps [OF assms(2)] fresh_invs(1) [OF assms(1)] by (simp add: pipeline_inv_def)
  have "pipeline_inv q" by (rule verified_books.run_keeps [OF assms(3) p])
  then have "cb_lockedAmount b = sum_list (map cl_amount
      (filter (\<lambda>c. cl_campaignId c = camp \<and> cl_status c \<noteq> C_cancelled) (cs_claims (pl_claims q))))"
    using inv_balance [OF _ assms(4)] by (simp add: pipeline_inv_def)
  moreover have "\<exists>c' \<in> set (cs_claims (pl_claims q)). cl_id c' = cl_id c \<and>
      cl_amount c' = cl_amount c \<and> (undecided (cl_status c) \<or> reaches (cl_status c) (cl_status c'))"
    if c: "c \<in> set (cs_claims (pl_claims p))" for c
  proof -
    have "abs_claim_of c \<in> set (lv_claims (view (pl_claims p)))" using c by (simp add: view_def)
    with verified_books.run_le [OF assms(3) p] obtain a where a: "a \<in> set (lv_claims (view (pl_claims q)))"
      "ac_id a = cl_id c" "ac_amount a = cl_amount c" "undecided (cl_status c) \<or> reaches (cl_status c) (ac_status a)"
      unfolding pipeline_le_def settled_le_def by force
    from a(1) obtain c' where "c' \<in> set (cs_claims (pl_claims q))" "a = abs_claim_of c'" by (auto simp: view_def)
    with a show ?thesis by (intro bexI [of _ c']) simp_all
  qed
  ultimately show ?thesis by blast
qed

section \<open>Results that come too late\<close>

text \<open>
  The write has no condition on the status, and the route that enqueues accepts any claim that is not
  verified. A cancelled claim whose verification ends afterwards is open again though its amount was
  unlocked, so the books fall short by its amount; a claim that was paid and passes once more can be approved
  and disbursed again.
\<close>

theorem late_outcome_unbalances:
  assumes "ledger_inv (view (pl_claims p))" and "find_claim (vj_claimId job) (pl_claims p) = Some c"
    and "cl_status c = C_cancelled"
    and "getCampaignBalance (cl_campaignId c) (outcome_claims env clk job read r p) = Inr b"
  shows "cb_lockedAmount b = sum_list (map (live_amount (cl_campaignId c))
     (lv_claims (view (outcome_claims env clk job read r p)))) - cl_amount c"
proof -
  let ?v = "view (pl_claims p)"
  have ids: "distinct (map ac_id (lv_claims ?v))" using assms(1) by (simp add: ledger_inv_def)
  note row = view_find [OF assms(2)]
  have "sum_list (map (live_amount (cl_campaignId c)) (update_where (\<lambda>x. ac_id x = ac_id (abs_claim_of c))
        (ac_status_update (\<lambda>_. outcome_status env r)) (lv_claims ?v))) =
      sum_list (map (live_amount (cl_campaignId c)) (lv_claims ?v)) + cl_amount c"
    using sum_list_update_key [OF ids row(1), of "live_amount (cl_campaignId c)"] assms(3) outcome_open [of env r]
    by (auto simp: live_amount_def)
  moreover have "event_total {Lock, Unlock} (cl_campaignId c) (view (outcome_claims env clk job read r p)) =
      sum_list (map (live_amount (cl_campaignId c)) (lv_claims ?v))"
    using assms(1) by (simp add: outcome_view ledger_inv_def)
  ultimately show ?thesis using balance_totals(1) [OF assms(4)] row(2) by (simp add: outcome_view)
qed

theorem paid_claim_payable_again:
  assumes "find_claim (vj_claimId job) (pl_claims p) = Some c" and "cl_status c = C_disbursed"
    and "verification_threshold env \<le> rs_score r"
  shows "\<exists>c1 s1 c2. approve_claim t (vj_claimId job) (outcome_claims env clk job read r p) = (Inr c1, s1) \<and>
    fst (disburse cenv clk' newTxId ambient (vj_claimId job) ptr cid s1) = Inr c2"
proof -
  let ?i = "vj_claimId job"
  let ?s = "outcome_claims env clk job read r p"
  let ?d = "outcome_row env job read r (outcome_status env r) c\<lparr>cl_updatedAt := clk 6\<rparr>"
  have found: "find_claim ?i ?s = Some ?d" "cl_status ?d = C_verified"
    using outcome_found [OF assms(1)] assms(3) by (simp_all add: outcome_row_def outcome_status_def)
  let ?s1 = "update_claim t ?i (cl_status_update (\<lambda>_. C_approved)) ?s"
  have one: "approve_claim t ?i ?s = (Inr (?d\<lparr>cl_status := C_approved, cl_updatedAt := t\<rparr>), ?s1)"
    unfolding approve_claim_def transitionStatus_def found(1) option.case using found(2) by simp
  have s1: "find_claim ?i ?s1 = Some (?d\<lparr>cl_status := C_approved, cl_updatedAt := t\<rparr>)"
    using find_updated [OF found(1), of "cl_status_update (\<lambda>_. C_approved)" t] by simp
  define s2 where "s2 = (if truthy ptr then update_claim (clk' 0) ?i (cl_receiptPointer_update (\<lambda>_. ptr)) ?s1 else ?s1)"
  have "\<exists>e. find_claim ?i s2 = Some e \<and> cl_status e = C_approved"
    using s1 find_updated [OF s1, of "cl_receiptPointer_update (\<lambda>_. ptr)" "clk' 0"]
    by (cases "truthy ptr") (simp_all add: s2_def)
  then obtain e where e: "find_claim ?i s2 = Some e" "cl_status e = C_approved" by blast
  have "cs_claims (disburse_onchain cenv clk' newTxId ambient x ptr cid s2) = cs_claims s2" for x
    by (simp add: disburse_onchain_def Let_def case_prod_unfold split: sum.split)
  then have "find_claim ?i (disburse_onchain cenv clk' newTxId ambient x ptr cid s2) = Some e" for x
    using e(1) by (simp add: find_claim_def)
  then have "\<exists>c2. fst (disburse cenv clk' newTxId ambient ?i ptr cid ?s1) = Inr c2"
    unfolding disburse_def s1 option.case using e(2) by (simp add: Let_def s2_def [symmetric] transitionStatus_def)
  with one show ?thesis by blast
qed

section \<open>Witnesses\<close>

definition demo_verdict :: json where
  "demo_verdict = JObj [(''score'', JNum 1), (''confidence'', JNum 1), (''riskLevel'', JStr ''low''),
     (''factors'', JArr []), (''riskFactors'', JArr []), (''recommendations'', JArr [])]"

definition demo_verify :: verify_env where
  "demo_verify = \<lparr>pe_claims = demo_env, pe_mode = None, pe_threshold = None, pe_openai = True,
     pe_ocrOptions = demo_breaker, pe_llmOptions = demo_breaker,
     pe_ocr = (\<lambda>_ _. Inr \<lparr>oc_success = False, oc_data = None\<rparr>),
     pe_llm = (\<lambda>_ _. Inr (Some (stringify (\<lambda>_. ''1'') [] demo_verdict))),
     pe_rd = (\<lambda>_. Some 1), pe_number = (\<lambda>_. None), pe_fixed1 = (\<lambda>_. ''1.0''), pe_sha256 = (\<lambda>_. ''0''),
     pe_settings = \<lparr>ms_network = None, ms_chainId = None\<rparr>, pe_deployments = Inr []\<rparr>"

definition demo_verify_job :: verification_job where
  "demo_verify_job = \<lparr>vj_claimId = ''c1'', vj_timestamp = 0, vj_anchor = None, vj_priority = 3\<rparr>"

definition demo_pipe :: "claims_state \<Rightarrow> pipeline" where
  "demo_pipe s = \<lparr>pl_claims = s, pl_jobs = [], pl_active = [], pl_ocr = new_breaker 0, pl_llm = new_breaker 0, pl_calls = 0\<rparr>"

definition demo_pipe_claim :: claim where
  "demo_pipe_claim = hd (cs_claims demo_claimed)"

lemma demo_pipe_claim: "find_claim ''c1'' demo_claimed = Some demo_pipe_claim" "cl_deletedAt demo_pipe_claim = None"
  "cl_status demo_pipe_claim = C_requested" "cl_id demo_pipe_claim = ''c1''" "cs_audit demo_claimed = []"
  by (simp_all add: demo_pipe_claim_def demo_simps find_claim_def)

theorem verification_lands_witness:
  "\<exists>r p' c'. processVerification demo_verify (\<lambda>_. 1) (\<lambda>_. 1 / 2) demo_verify_job (demo_pipe demo_claimed) = (Inr r, p') \<and>
     unit_rat (rs_score (en_result r)) \<and> find_claim ''c1'' (pl_claims p') = Some c' \<and>
     cl_status c' = (if verification_threshold demo_verify \<le> rs_score (en_result r) then C_verified else C_requested)"
proof -
  have i: "vj_claimId demo_verify_job = ''c1''" by (simp add: demo_verify_job_def)
  have p: "pl_claims (demo_pipe demo_claimed) = demo_claimed" by (simp add: demo_pipe_def)
  have rnd: "0 \<le> (1 / 2 :: rat) \<and> (1 / 2 :: rat) < 1" by simp
  have early: "\<forall>e \<in> set (cs_audit (pl_claims (demo_pipe demo_claimed))). fst e < 1"
    by (simp add: p demo_pipe_claim(5))
  have found: "find_claim (vj_claimId demo_verify_job) (pl_claims (demo_pipe demo_claimed)) = Some demo_pipe_claim"
    unfolding i p by (rule demo_pipe_claim(1))
  from verification_lands [where env = demo_verify and clk = "\<lambda>_. 1" and rnd = "\<lambda>_. 1 / 2" and now = 0,
    OF found demo_pipe_claim(2) rnd early] show ?thesis unfolding i by blast
qed

definition demo_needy :: claims_state where
  "demo_needy = demo_claimed\<lparr>cs_claims := [demo_pipe_claim\<lparr>cl_evidenceRef := Some ''flood''\<rparr>]\<rparr>"

lemma demo_parse: "json_parse (\<lambda>_. Some 1) (stringify (\<lambda>_. ''1'') [] demo_verdict) = Some demo_verdict"
  by (rule parse_stringify) (simp_all add: demo_verdict_def reads_back_def js_object_def is_index_def number_char_def)

lemma demo_scored:
  "fst (score_claim (demo_verify\<lparr>pe_mode := Some ''live''\<rparr>) (\<lambda>_. 1) rnd (demo_pipe_claim\<lparr>cl_evidenceRef := Some ''flood''\<rparr>)
     (demo_pipe demo_needy)) = \<lparr>rs_score = 1, rs_confidence = 1, rs_factors = [], rs_riskLevel = Risk_low,
       rs_recommendations = None, rs_processedAt = 1\<rparr>"
proof -
  have url: "\<not> looksLikeUrl ''flood''" by code_simp
  have r1: "round3 1 = 1" by (simp add: round3_def floor_eq_iff)
  have valid: "validateAIResponse env demo_verdict = Inr ()" for env
    by (simp add: validateAIResponse_def VERDICT_KEYS_def demo_verdict_def verdict_of_def asRiskLevel_def unit_rat_def)
  have result: "mapAIResponseToResult env now demo_verdict = Inr \<lparr>rs_score = 1, rs_confidence = 1, rs_factors = [],
      rs_riskLevel = Risk_low, rs_recommendations = None, rs_processedAt = now\<rparr>" for env now
    by (simp add: mapAIResponseToResult_def demo_verdict_def verdict_of_def asRiskLevel_def r1 has_length_def)
  show ?thesis
    by (simp add: score_claim_def performAIVerification_def verification_mode_def or_default_def truthy_def
        evidence_context_def url callOpenAI_def fire_def breaker_admit_def new_breaker_def demo_pipe_def demo_verify_def
        later_clock_def demo_parse valid result)
qed

theorem verified_needs_verdict_witness:
  "\<exists>evidence q content m x.
    evidence_context (demo_verify\<lparr>pe_mode := Some ''live''\<rparr>) (\<lambda>_. 1) ''flood'' (demo_pipe demo_needy) = (evidence, q) \<and>
    model_answer (demo_verify\<lparr>pe_mode := Some ''live''\<rparr>) (later_clock 2 (\<lambda>_. 1)) (demo_pipe_claim\<lparr>cl_evidenceRef := Some ''flood''\<rparr>) evidence q
      = Inr content \<and>
    json_parse (\<lambda>_. Some 1) (case content of None \<Rightarrow> [] | Some t \<Rightarrow> t) = Some (JObj m) \<and>
    map_of m ''score'' = Some (JNum x) \<and> 7 / 10 \<le> round3 x"
proof -
  let ?env = "demo_verify\<lparr>pe_mode := Some ''live''\<rparr>" and ?c = "demo_pipe_claim\<lparr>cl_evidenceRef := Some ''flood''\<rparr>"
  have found: "find_claim (vj_claimId demo_verify_job) (pl_claims (demo_pipe demo_needy)) = Some ?c"
    by (simp add: demo_pipe_def demo_needy_def demo_verify_job_def find_claim_def find_row_Cons demo_pipe_claim)
  have th: "verification_threshold ?env = 7 / 10" "verification_mode ?env = ''live''" "pe_rd ?env = (\<lambda>_. Some 1)"
    by (simp_all add: verification_threshold_def verification_mode_def or_default_def truthy_def demo_verify_def)
  obtain r p1 where sc: "score_claim ?env (\<lambda>_. 1) (\<lambda>_. 0) ?c (demo_pipe demo_needy) = (r, p1)" by force
  have r: "rs_score r = 1" using demo_scored [of "\<lambda>_. 0"] sc by simp
  have found1: "find_claim (vj_claimId demo_verify_job) (pl_claims p1) = Some ?c" using scored_claims [OF sc] found by simp
  note ran = process_is_take_finish [OF found sc, unfolded write_outcome_Some [OF found1]]
  have status: "cl_status (outcome_row ?env demo_verify_job ?c r (outcome_status ?env r) ?c\<lparr>cl_updatedAt := 1\<rparr>) = C_verified"
    by (simp add: outcome_row_def outcome_status_def r th)
  have "find_claim (vj_claimId demo_verify_job) (pl_claims (p1\<lparr>pl_claims := outcome_claims ?env (\<lambda>_. 1) demo_verify_job ?c r p1\<rparr>)) =
      Some (outcome_row ?env demo_verify_job ?c r (outcome_status ?env r) ?c\<lparr>cl_updatedAt := 1\<rparr>)"
    using outcome_found [OF found1, of ?env "\<lambda>_. 1" ?c r] by simp
  moreover have "verification_mode ?env \<notin> {''test'', ''mock''}" "55 / 100 < verification_threshold ?env"
    unfolding th by simp_all
  ultimately show ?thesis
    using verified_needs_verdict [OF ran found] status unfolding th by fastforce
qed

lemma demo_mock: "rs_score (fst (score_claim demo_verify clk (\<lambda>_. 1 / 2) c p)) = 775 / 1000"
proof -
  have "min (95 / 100) (max (5 / 10) (6 / 10 + 1 / 2 * (35 / 100))) = (775 / 1000 :: rat)" by simp
  moreover have "round3 (775 / 1000) = 775 / 1000" by (simp add: round3_def floor_eq_iff)
  ultimately show ?thesis
    unfolding score_claim_def generateMockVerification_def Let_def
    by (simp add: verification_mode_def or_default_def truthy_def demo_verify_def)
qed

theorem pipeline_keeps_books_witness:
  "\<exists>q b. (pipeline_step demo_verify True)\<^sup>*\<^sup>* (demo_pipe demo_books) q \<and>
     getCampaignBalance ''k'' (pl_claims q) = Inr b \<and> cb_lockedAmount b = sum_list (map cl_amount
       (filter (\<lambda>c. cl_campaignId c = ''k'' \<and> cl_status c \<noteq> C_cancelled) (cs_claims (pl_claims q)))) \<and>
     map cl_status (cs_claims (pl_claims q)) = [C_verified]"
proof -
  let ?p1 = "demo_pipe demo_claimed"
  define e1 where "e1 = snd (enqueueVerification (\<lambda>_. 0) ''j'' ''c1'' None ?p1)"
  have e1: "pl_active e1 = []" "pl_jobs e1 = [(''j'', demo_verify_job)]" "find_claim ''c1'' (pl_claims e1) = Some demo_pipe_claim"
    "cs_claims (pl_claims e1) = cs_claims demo_claimed" "cs_campaigns (pl_claims e1) = cs_campaigns demo_claimed"
    by (simp_all add: e1_def enqueueVerification_def demo_pipe_def demo_pipe_claim demo_verify_job_def DEFAULT_VERIFICATION_PRIORITY_def
        Let_def) (simp_all add: log_audit_def)
  define e2 where "e2 = e1\<lparr>pl_jobs := remove1 (''j'', demo_verify_job) (pl_jobs e1), pl_active := pl_active e1 @ [(''j'', demo_verify_job, demo_pipe_claim)]\<rparr>"
  obtain r p1 where sc: "score_claim demo_verify (\<lambda>_. 1) (\<lambda>_. 1 / 2) demo_pipe_claim e2 = (r, p1)" by force
  have r: "verification_threshold demo_verify \<le> rs_score r"
    using demo_mock [of "\<lambda>_. 1" demo_pipe_claim e2] sc by (simp add: verification_threshold_def demo_verify_def)
  define q where "q = (snd (write_outcome demo_verify (\<lambda>_. 1) demo_verify_job demo_pipe_claim r p1))\<lparr>pl_active := remove1 (''j'', demo_verify_job, demo_pipe_claim) (pl_active e2)\<rparr>"
  have p1: "find_claim (vj_claimId demo_verify_job) (pl_claims p1) = Some demo_pipe_claim"
    using scored_claims [OF sc] e1(3) by (simp add: demo_verify_job_def e2_def)
  have s0: "pipeline_step demo_verify True (demo_pipe demo_books) ?p1"
  proof -
    have "claim_step (pe_claims demo_verify) True (pl_claims (demo_pipe demo_books)) demo_claimed"
      unfolding demo_claimed_def by (simp add: demo_verify_def demo_pipe_def, rule creating) (simp_all add: demo_books_def)
    from requesting [OF this, where careful = True] show ?thesis by (simp add: demo_pipe_def)
  qed
  have s1: "pipeline_step demo_verify True ?p1 e1" unfolding e1_def by (rule enqueueing)
  have s2: "pipeline_step demo_verify True e1 e2"
    unfolding e2_def by (rule taking) (simp_all add: e1(2,3), simp add: e1(3) demo_verify_job_def)
  have s3: "pipeline_step demo_verify True e2 q"
  proof -
    have "(''j'', demo_verify_job, demo_pipe_claim) \<in> set (pl_active e2)" by (simp add: e2_def)
    moreover have "still_open (vj_claimId demo_verify_job) e2"
      by (simp add: still_open_def e2_def demo_verify_job_def e1(3) demo_pipe_claim(3))
    ultimately show ?thesis unfolding q_def by (intro finishing [OF _ _ sc]) simp_all
  qed
  have run: "(pipeline_step demo_verify True)\<^sup>*\<^sup>* (demo_pipe demo_books) q"
    by (rule rtranclp.rtrancl_into_rtrancl [OF rtranclp.rtrancl_into_rtrancl [OF
          rtranclp.rtrancl_into_rtrancl [OF r_into_rtranclp [of "pipeline_step demo_verify True", OF s0] s1] s2] s3])
  have q: "pl_claims q = outcome_claims demo_verify (\<lambda>_. 1) demo_verify_job demo_pipe_claim r p1"
    using write_outcome_Some [OF p1] by (simp add: q_def)
  have rows: "cs_claims (pl_claims p1) = [demo_pipe_claim]" "cs_campaigns (pl_claims p1) = cs_campaigns demo_books"
    using scored_claims [OF sc] e1(4,5) by (simp_all add: e2_def demo_pipe_claim_def demo_simps)
  have "cs_campaigns (pl_claims q) = cs_campaigns demo_books"
    unfolding q by (simp add: outcome_claims_def log_audit_def update_claim_def rows)
  then obtain b where b: "getCampaignBalance ''k'' (pl_claims q) = Inr b"
    by (simp add: getCampaignBalance_def find_campaign_def demo_books_def find_row_Cons case_prod_unfold Let_def)
  have "map cl_status (cs_claims (pl_claims q)) = [C_verified]"
    unfolding q using r by (simp add: outcome_claims_def log_audit_def update_claim_def rows outcome_row_def
        outcome_status_def demo_verify_job_def demo_pipe_claim(4))
  moreover have "fresh_books (pl_claims (demo_pipe demo_books))" using demo_fresh by (simp add: demo_pipe_def)
  ultimately show ?thesis
    using conjunct1 [OF pipeline_keeps_books [OF _ run rtranclp.rtrancl_refl b]] run b
    by (intro exI [of _ q] exI [of _ b] conjI)
qed

end
