(* ===== verification/ReviewQueue.thy ===== *)
theory ReviewQueue
  imports JsonText ClaimLedger Base64 "HOL-Library.Product_Lexorder"
begin

text \<open>
  The review queue of claims: \<open>getReviewQueue\<close> of \<open>verification/verification.service.ts\<close> with its filters and
  cursors, and the query of \<open>dto/review-queue-query.dto.ts\<close>. A page is asked for by its number or by the
  cursor the previous answer gave, the base64url text of a JSON object. A text is the list of its UTF-8 bytes.
  \<open>date\<close> is \<open>Date.parse\<close>.
\<close>

section \<open>base64url\<close>

definition url_chars :: string where
  "url_chars = ''ABCDEFGHIJKLMNOPQRSTUVWXYZabcdefghijklmnopqrstuvwxyz0123456789-_''"

definition url_char :: "8 word \<Rightarrow> char" where
  "url_char x = url_chars ! unat x"

text \<open>\<open>toString('base64url')\<close>, without padding.\<close>

fun url_encode :: "bytes \<Rightarrow> string" where
  "url_encode [] = []"
| "url_encode [a] = [url_char (drop_bit 2 a), url_char (push_bit 4 (and a 3))]"
| "url_encode [a, b] = [url_char (drop_bit 2 a), url_char (or (push_bit 4 (and a 3)) (drop_bit 4 b)),
     url_char (push_bit 2 (and b 15))]"
| "url_encode (a # b # c # bs) = url_char (drop_bit 2 a) # url_char (or (push_bit 4 (and a 3)) (drop_bit 4 b)) #
     url_char (or (push_bit 2 (and b 15)) (drop_bit 6 c)) # url_char (and c 63) # url_encode bs"

text \<open>
  \<open>Buffer.from(text, 'base64url')\<close>: both alphabets are read, the text ends at a padding character,
  other characters are skipped, and what remains at the end gives the bytes it is enough for.
\<close>

definition url_sextet :: "char \<Rightarrow> 8 word option" where
  "url_sextet c =
     (if c \<in> set url_chars then Some (of_nat (index_of c 0 url_chars))
      else if c = CHR ''+'' then Some 62 else if c = CHR ''/'' then Some 63 else None)"

fun sextet_bytes :: "8 word list \<Rightarrow> bytes" where
  "sextet_bytes (w # x # y # z # r) =
     value_byte 16 (sextet_value w x y z) # value_byte 8 (sextet_value w x y z) # value_byte 0 (sextet_value w x y z)
       # sextet_bytes r"
| "sextet_bytes [w, x, y] = [value_byte 16 (sextet_value w x y 0), value_byte 8 (sextet_value w x y 0)]"
| "sextet_bytes [w, x] = [value_byte 16 (sextet_value w x 0 0)]"
| "sextet_bytes [w] = []"
| "sextet_bytes [] = []"

definition url_decode :: "string \<Rightarrow> bytes" where
  "url_decode s = sextet_bytes (List.map_filter url_sextet (takeWhile (\<lambda>c. c \<noteq> CHR ''='') s))"

definition text_bytes :: "string \<Rightarrow> bytes" where
  "text_bytes s = map (\<lambda>c. of_nat (of_char c)) s"

definition bytes_text :: "bytes \<Rightarrow> string" where
  "bytes_text bs = map (\<lambda>b. char_of (unat b)) bs"

section \<open>The query\<close>

datatype queue_mode = Page_mode | Cursor_mode

record queue_query =
  qq_mode :: "queue_mode option"
  qq_status :: "claim_status list option"
  qq_campaignId :: "ident option"
  qq_fromDate :: "string option"
  qq_toDate :: "string option"
  qq_page :: "nat option"
  qq_limit :: "nat option"
  qq_cursor :: "string option"

definition getPaginationMode :: "queue_query \<Rightarrow> queue_mode" where
  "getPaginationMode q =
     (case qq_mode q of
        Some m \<Rightarrow> m
      | None \<Rightarrow> if truthy (qq_cursor q) then Cursor_mode else Page_mode)"

text \<open>The status parameter, given once or several times.\<close>

definition normalizeStatusFilter :: "string list option \<Rightarrow> string list option" where
  "normalizeStatusFilter v =
     (case v of
        None \<Rightarrow> None
      | Some vs \<Rightarrow>
          let normalized = filter (\<lambda>e. e \<noteq> []) (map trim (concat (map (split_char (CHR '','')) vs)))
          in if normalized \<noteq> [] then Some normalized else None)"

definition pagination_mode_ok :: "queue_query \<Rightarrow> bool" where
  "pagination_mode_ok q \<longleftrightarrow> (if getPaginationMode q = Cursor_mode then qq_page q = None else qq_cursor q = None)"

definition date_range_ok :: "(string \<Rightarrow> time option) \<Rightarrow> queue_query \<Rightarrow> bool" where
  "date_range_ok date q \<longleftrightarrow>
     (if truthy (qq_fromDate q) \<and> truthy (qq_toDate q) then
        (case (date (the (qq_fromDate q)), date (the (qq_toDate q))) of
           (Some a, Some b) \<Rightarrow> a \<le> b | _ \<Rightarrow> False)
      else True)"

section \<open>Filters and cursors\<close>

text \<open>A date that cannot be read makes the database refuse the query, here a filter nothing matches.\<close>

definition buildReviewQueueFilters :: "(string \<Rightarrow> time option) \<Rightarrow> queue_query \<Rightarrow> claim \<Rightarrow> bool" where
  "buildReviewQueueFilters date q c \<longleftrightarrow>
     (case qq_status q of None \<Rightarrow> True | Some [] \<Rightarrow> True | Some sts \<Rightarrow> cl_status c \<in> set sts) \<and>
     (truthy (qq_campaignId q) \<longrightarrow> cl_campaignId c = the (qq_campaignId q)) \<and>
     (truthy (qq_fromDate q) \<longrightarrow> (case date (the (qq_fromDate q)) of None \<Rightarrow> False | Some t \<Rightarrow> t \<le> cl_createdAt c)) \<and>
     (truthy (qq_toDate q) \<longrightarrow> (case date (the (qq_toDate q)) of None \<Rightarrow> False | Some t \<Rightarrow> cl_createdAt c \<le> t))"

record applied_filters =
  af_status :: "claim_status list option"
  af_campaignId :: "ident option"
  af_fromDate :: "string option"
  af_toDate :: "string option"

definition keep_truthy :: "string option \<Rightarrow> string option" where
  "keep_truthy x = (if truthy x then x else None)"

definition buildAppliedFilters :: "queue_query \<Rightarrow> applied_filters" where
  "buildAppliedFilters q = \<lparr>af_status = (if qq_status q = Some [] then None else qq_status q),
     af_campaignId = keep_truthy (qq_campaignId q), af_fromDate = keep_truthy (qq_fromDate q),
     af_toDate = keep_truthy (qq_toDate q)\<rparr>"

definition cursor_json :: "claim \<Rightarrow> string" where
  "cursor_json c = ''{'' @ json_quote ''createdAt'' @ '':'' @ json_quote (toISOString (cl_createdAt c)) @ '',''
     @ json_quote ''id'' @ '':'' @ json_quote (cl_id c) @ ''}''"

definition encodeReviewQueueCursor :: "claim \<Rightarrow> string" where
  "encodeReviewQueueCursor c = url_encode (text_bytes (cursor_json c))"

definition INVALID_CURSOR :: app_error where
  "INVALID_CURSOR = AppException AI_VERIFICATION_FAILED 400 ''Invalid review queue cursor''"

definition decodeReviewQueueCursor ::
  "(string \<Rightarrow> rat option) \<Rightarrow> (string \<Rightarrow> time option) \<Rightarrow> string \<Rightarrow> app_error + string \<times> ident" where
  "decodeReviewQueueCursor rd date cursor =
     (case json_parse rd (bytes_text (url_decode cursor)) of
        Some (JObj m) \<Rightarrow>
          (case (map_of m ''createdAt'', map_of m ''id'') of
             (Some (JStr createdAt), Some (JStr i)) \<Rightarrow>
               (case date createdAt of
                  None \<Rightarrow> Inl INVALID_CURSOR
                | Some t \<Rightarrow> Inr (toISOString t, i))
           | _ \<Rightarrow> Inl INVALID_CURSOR)
      | _ \<Rightarrow> Inl INVALID_CURSOR)"

definition buildCursorFilter :: "(string \<Rightarrow> time option) \<Rightarrow> string \<times> ident \<Rightarrow> claim \<Rightarrow> bool" where
  "buildCursorFilter date cursor c \<longleftrightarrow>
     (case date (fst cursor) of
        None \<Rightarrow> False
      | Some t \<Rightarrow> cl_createdAt c < t \<or> cl_createdAt c = t \<and> cl_id c < snd cursor)"

section \<open>The queue\<close>

definition queue_key :: "claim \<Rightarrow> time \<times> ident" where
  "queue_key c = (cl_createdAt c, cl_id c)"

text \<open>\<open>orderBy: [{ createdAt: 'desc' }, { id: 'desc' }]\<close>\<close>

definition queue_order :: "claim list \<Rightarrow> claim list" where
  "queue_order rows = rev (sort_key queue_key rows)"

datatype pagination =
    Page_info nat nat nat nat bool
  | Cursor_info nat "string option" bool

record queue_response =
  qr_items :: "claim list"
  qr_pagination :: pagination
  qr_filters :: applied_filters

definition cursor_queue ::
  "(string \<Rightarrow> time option) \<Rightarrow> queue_query \<Rightarrow> (string \<times> ident) option \<Rightarrow> claims_state \<Rightarrow> claim list \<times> string option \<times> bool" where
  "cursor_queue date q cursor s =
     (let limit = (case qq_limit q of None \<Rightarrow> 20 | Some l \<Rightarrow> l);
          rows = filter (\<lambda>c. buildReviewQueueFilters date q c \<and>
            (case cursor of None \<Rightarrow> True | Some k \<Rightarrow> buildCursorFilter date k c)) (cs_claims s);
          items = take (limit + 1) (queue_order rows);
          hasNextPage = (limit < length items);
          pageItems = take limit items;
          nextCursor = (if hasNextPage \<and> pageItems \<noteq> [] then Some (encodeReviewQueueCursor (last pageItems)) else None)
      in (pageItems, nextCursor, hasNextPage))"

definition page_queue ::
  "(string \<Rightarrow> time option) \<Rightarrow> queue_query \<Rightarrow> claims_state \<Rightarrow> claim list \<times> pagination" where
  "page_queue date q s =
     (let limit = (case qq_limit q of None \<Rightarrow> 20 | Some l \<Rightarrow> l);
          page = (case qq_page q of None \<Rightarrow> 1 | Some n \<Rightarrow> n);
          skip = (page - 1) * limit;
          rows = queue_order (filter (buildReviewQueueFilters date q) (cs_claims s));
          items = take limit (drop skip rows);
          totalItems = length rows
      in (items, Page_info page limit totalItems
            (if totalItems = 0 then 0 else (totalItems + limit - 1) div limit) (skip + length items < totalItems)))"

definition getReviewQueue ::
  "(string \<Rightarrow> rat option) \<Rightarrow> (string \<Rightarrow> time option) \<Rightarrow> queue_query \<Rightarrow> claims_state \<Rightarrow> app_error + queue_response" where
  "getReviewQueue rd date q s =
     (if getPaginationMode q = Cursor_mode then
        (case (if truthy (qq_cursor q) then map_sum id Some (decodeReviewQueueCursor rd date (the (qq_cursor q))) else Inr None) of
           Inl e \<Rightarrow> Inl e
         | Inr cursor \<Rightarrow>
             (case cursor_queue date q cursor s of
                (items, nextCursor, hasNextPage) \<Rightarrow>
                  Inr \<lparr>qr_items = items,
                       qr_pagination = Cursor_info (case qq_limit q of None \<Rightarrow> 20 | Some l \<Rightarrow> l) nextCursor hasNextPage,
                       qr_filters = buildAppliedFilters q\<rparr>))
      else
        (case page_queue date q s of
           (items, info) \<Rightarrow> Inr \<lparr>qr_items = items, qr_pagination = info, qr_filters = buildAppliedFilters q\<rparr>))"

section \<open>A cursor is read back\<close>

lemma url_index: "k < 64 \<Longrightarrow> index_of (url_chars ! k) 0 url_chars = k"
proof -
  assume "k < 64"
  moreover have "list_all (\<lambda>k. index_of (url_chars ! k) 0 url_chars = k) [0..<64]" by code_simp
  ultimately show ?thesis by (simp add: list_all_iff)
qed

lemma url_length: "length url_chars = 64"
  by code_simp

lemma url_in: "unat x < 64 \<Longrightarrow> url_char x \<in> set url_chars"
  unfolding url_char_def by (rule nth_mem) (simp only: url_length)

lemma url_sextet_char:
  assumes "unat x < 64"
  shows "url_sextet (url_char x) = Some x"
proof -
  have "index_of (url_char x) 0 url_chars = unat x" using url_index [OF assms] by (simp only: url_char_def)
  then show ?thesis using url_in [OF assms] by (simp only: url_sextet_def if_True of_nat_unat ucast_id)
qed

lemma url_no_pad: "unat x < 64 \<Longrightarrow> url_char x \<noteq> CHR ''=''"
proof
  assume "unat x < 64" and "url_char x = CHR ''=''"
  then have "CHR ''='' \<in> set url_chars" using url_in [of x] by (simp only:)
  then show False by (simp add: url_chars_def)
qed

lemmas url_facts = url_sextet_char url_no_pad sextets

lemma url_read:
  "takeWhile (\<lambda>c. c \<noteq> CHR ''='') (url_encode bs) = url_encode bs \<and>
   sextet_bytes (List.map_filter url_sextet (url_encode bs)) = bs"
proof (induction bs rule: url_encode.induct)
  case (2 a)
  then show ?case
    using bytes_back(1) [of a 0 0] sextets(1) [of a] sextets(2) [of a 0]
    by (simp add: url_sextet_char url_no_pad map_filter_simps)
next
  case (3 a b)
  then show ?case
    using bytes_back(1,2) [of a b 0] sextets(1) [of a] sextets(2) [of a b] sextets(3) [of b 0]
    by (simp add: url_sextet_char url_no_pad map_filter_simps)
next
  case (4 a b c bs)
  then show ?case
    using bytes_back [of a b c] sextets(1) [of a] sextets(2) [of a b] sextets(3) [of b c] sextets(4) [of c]
    by (simp add: url_sextet_char url_no_pad map_filter_simps)
qed (simp add: map_filter_simps)

lemma url_decode_encode: "url_decode (url_encode bs) = bs"
  unfolding url_decode_def conjunct1 [OF url_read] by (rule conjunct2 [OF url_read])

lemma bytes_text_back: "bytes_text (text_bytes s) = s"
proof -
  have "char_of (unat (of_nat (of_char c) :: 8 word)) = c" for c :: char
  proof -
    have "(of_char c :: nat) < 256" by (rule nat_of_char_less_256)
    then show ?thesis by (simp add: unat_of_nat take_bit_nat_eq_self)
  qed
  then show ?thesis by (simp add: bytes_text_def text_bytes_def comp_def)
qed

lemma parse_pair:
  "json_parse rd (''{'' @ json_quote k1 @ '':'' @ json_quote v1 @ '','' @ json_quote k2 @ '':'' @ json_quote v2 @ ''}'') =
     Some (JObj (js_object (spread [(k1, JStr v1), (k2, JStr v2)] [])))"
proof -
  have quoted: "parse_chars (concat (map quote_char s) @ DQUOTE # rest) = Some (s, rest)" for s rest
    by (rule parse_quoted_chars)
  let ?t = "json_quote k1 @ '':'' @ json_quote v1 @ '','' @ json_quote k2 @ '':'' @ json_quote v2 @ ''}''"
  have text1: "parse_value rd (Suc n) (json_quote s @ rest) = Some (JStr s, rest)" for n s rest
    by (simp add: json_quote_def quoted skip_ws_def)
  have last: "parse_members rd (Suc (Suc n)) (json_quote k2 @ '':'' @ json_quote v2 @ ''}'') = Some ([(k2, JStr v2)], [])" for n
    using text1 [of n v2 "''}''"] by (simp add: json_quote_def quoted skip_ws_def)
  have both: "parse_members rd (Suc (Suc (Suc n))) ?t = Some ([(k1, JStr v1), (k2, JStr v2)], [])" for n
    using text1 [of "Suc n" v1] last [of n]
    by (simp add: json_quote_def quoted skip_ws_def)
  have "parse_value rd (Suc (Suc (Suc (Suc n)))) (''{'' @ ?t) = Some (JObj (js_object (spread [(k1, JStr v1), (k2, JStr v2)] [])), [])" for n
    using both [of n] by (simp add: skip_ws_def) (simp add: json_quote_def)
  moreover obtain n where "2 * length (''{'' @ ?t) + 2 = Suc (Suc (Suc (Suc n)))"
    by (simp add: json_quote_def)
  ultimately show ?thesis unfolding json_parse_def by (simp only: option.case prod.case) (simp add: skip_ws_def)
qed

lemma cursor_back:
  assumes "date (toISOString (cl_createdAt c)) = Some (cl_createdAt c)"
  shows "decodeReviewQueueCursor rd date (encodeReviewQueueCursor c) = Inr (toISOString (cl_createdAt c), cl_id c)"
proof -
  have "js_object (spread [(''createdAt'', JStr a), (''id'', JStr b)] []) = [(''createdAt'', JStr a), (''id'', JStr b)]" for a b
    by (simp add: spread_def js_object_def is_index_def)
  then show ?thesis
    using assms parse_pair [of rd "''createdAt''" "toISOString (cl_createdAt c)" "''id''" "cl_id c"]
    by (simp only: decodeReviewQueueCursor_def encodeReviewQueueCursor_def url_decode_encode bytes_text_back cursor_json_def)
      simp
qed

section \<open>Walking through the queue\<close>

text \<open>
  A client that follows the cursors: one table per request, since claims come, go and change in
  between. Whether the walk came to its end is the second part of the result.
\<close>

fun queue_walk ::
  "(string \<Rightarrow> rat option) \<Rightarrow> (string \<Rightarrow> time option) \<Rightarrow> queue_query \<Rightarrow> string option \<Rightarrow> claims_state list \<Rightarrow> claim list \<times> bool" where
  "queue_walk rd date q cursor [] = ([], False)"
| "queue_walk rd date q cursor (s # ss) =
     (case getReviewQueue rd date (q\<lparr>qq_cursor := cursor\<rparr>) s of
        Inl e \<Rightarrow> ([], False)
      | Inr r \<Rightarrow>
          (case qr_pagination r of
             Cursor_info l (Some c) hasNext \<Rightarrow>
               (case queue_walk rd date q (Some c) ss of (items, ended) \<Rightarrow> (qr_items r @ items, ended))
           | _ \<Rightarrow> (qr_items r, True)))"

definition readable_dates :: "(string \<Rightarrow> time option) \<Rightarrow> claims_state \<Rightarrow> bool" where
  "readable_dates date s \<longleftrightarrow> (\<forall>c \<in> set (cs_claims s). date (toISOString (cl_createdAt c)) = Some (cl_createdAt c))"

definition queue_limit :: "queue_query \<Rightarrow> nat" where
  "queue_limit q = (case qq_limit q of None \<Rightarrow> 20 | Some l \<Rightarrow> l)"

text \<open>What is left of the queue below a key.\<close>

definition below :: "(time \<times> ident) option \<Rightarrow> claim \<Rightarrow> bool" where
  "below b c \<longleftrightarrow> (case b of None \<Rightarrow> True | Some k \<Rightarrow> queue_key c < k)"

definition queue_rows :: "(string \<Rightarrow> time option) \<Rightarrow> queue_query \<Rightarrow> (time \<times> ident) option \<Rightarrow> claims_state \<Rightarrow> claim list" where
  "queue_rows date q b s = queue_order (filter (\<lambda>c. buildReviewQueueFilters date q c \<and> below b c) (cs_claims s))"

lemma set_queue_order [simp]: "set (queue_order rows) = set rows"
  by (simp add: queue_order_def)

lemma length_queue_order [simp]: "length (queue_order rows) = length rows"
  by (simp add: queue_order_def)

lemma queue_order_filter: "queue_order (filter p rows) = filter p (queue_order rows)"
  by (simp add: queue_order_def filter_sort rev_filter [symmetric])

lemma queue_rows_descend:
  assumes "distinct (map cl_id (cs_claims s))"
  shows "sorted_wrt (\<lambda>a b. queue_key b < queue_key a) (queue_rows date q b s)"
proof -
  let ?rows = "filter (\<lambda>c. buildReviewQueueFilters date q c \<and> below b c) (cs_claims s)"
  have "distinct (map cl_id ?rows)" using assms by (rule distinct_map_filter)
  then have "inj_on cl_id (set ?rows)" "distinct ?rows" by (simp_all add: distinct_map)
  then have "distinct (map queue_key (sort_key queue_key ?rows))"
    by (auto simp: distinct_map inj_on_def queue_key_def)
  moreover have "sorted (map queue_key (sort_key queue_key ?rows))" by simp
  ultimately have "sorted_wrt (<) (map queue_key (sort_key queue_key ?rows))"
    by (simp add: strict_sorted_iff)
  then show ?thesis by (simp add: queue_rows_def queue_order_def sorted_wrt_rev sorted_wrt_map)
qed

definition cursor_means :: "(string \<Rightarrow> time option) \<Rightarrow> string option \<Rightarrow> (time \<times> ident) option \<Rightarrow> bool" where
  "cursor_means date cursor b \<longleftrightarrow> cursor = None \<and> b = None \<or>
     (\<exists>c. cursor = Some (encodeReviewQueueCursor c) \<and> b = Some (queue_key c) \<and>
        date (toISOString (cl_createdAt c)) = Some (cl_createdAt c))"

lemma encode_truthy: "truthy (Some (encodeReviewQueueCursor c))"
proof -
  have "url_encode bs = [] \<longleftrightarrow> bs = []" for bs by (cases bs rule: url_encode.cases) simp_all
  then show ?thesis by (simp add: truthy_def encodeReviewQueueCursor_def cursor_json_def text_bytes_def)
qed

lemma filters_cursor [simp]: "buildReviewQueueFilters date (q\<lparr>qq_cursor := c\<rparr>) = buildReviewQueueFilters date q"
  by (rule ext) (simp add: buildReviewQueueFilters_def)

lemma cursor_filter_key:
  assumes "date t = Some x"
  shows "buildCursorFilter date (t, i) c \<longleftrightarrow> queue_key c < (x, i)"
  using assms by (auto simp: buildCursorFilter_def queue_key_def less_prod_def')

lemma queue_request:
  assumes "qq_mode q = Some Cursor_mode" and "cursor_means date cursor b" and "0 < queue_limit q"
  shows "getReviewQueue rd date (q\<lparr>qq_cursor := cursor\<rparr>) s =
    Inr \<lparr>qr_items = take (queue_limit q) (queue_rows date q b s),
         qr_pagination = Cursor_info (queue_limit q)
           (if queue_limit q < length (queue_rows date q b s)
            then Some (encodeReviewQueueCursor (last (take (queue_limit q) (queue_rows date q b s)))) else None)
           (queue_limit q < length (queue_rows date q b s)),
         qr_filters = buildAppliedFilters q\<rparr>"
proof -
  have page: "cursor_queue date (q\<lparr>qq_cursor := cursor\<rparr>) k s =
      (take (queue_limit q) (queue_rows date q b s),
       (if queue_limit q < length (queue_rows date q b s)
        then Some (encodeReviewQueueCursor (last (take (queue_limit q) (queue_rows date q b s)))) else None),
       queue_limit q < length (queue_rows date q b s))"
    if "\<And>c. (case k of None \<Rightarrow> True | Some k \<Rightarrow> buildCursorFilter date k c) = below b c" for k
    using assms(3)
    by (auto simp: cursor_queue_def Let_def queue_limit_def [symmetric] that queue_rows_def [symmetric] min_def simp del: length_queue_order)
  have mode: "getPaginationMode (q\<lparr>qq_cursor := cursor\<rparr>) = Cursor_mode"
    using assms(1) by (simp add: getPaginationMode_def)
  have applied: "buildAppliedFilters (q\<lparr>qq_cursor := cursor\<rparr>) = buildAppliedFilters q"
    by (simp add: buildAppliedFilters_def)
  from assms(2) consider (first) "cursor = None" "b = None"
    | (later) c where "cursor = Some (encodeReviewQueueCursor c)" "b = Some (queue_key c)"
        "date (toISOString (cl_createdAt c)) = Some (cl_createdAt c)"
    by (auto simp: cursor_means_def)
  then show ?thesis
  proof cases
    case first
    then have "below b c \<longleftrightarrow> True" for c by (simp add: below_def)
    with page [of None] mode applied first show ?thesis
      by (simp add: getReviewQueue_def truthy_def queue_limit_def [symmetric])
  next
    case later
    have "(case Some (toISOString (cl_createdAt c), cl_id c) of None \<Rightarrow> True | Some k \<Rightarrow> buildCursorFilter date k d) = below b d" for d
      using cursor_filter_key [of date _ _ "cl_id c" d, OF later(3)] later(2) by (simp add: below_def queue_key_def)
    with page [of "Some (toISOString (cl_createdAt c), cl_id c)"] mode applied later(1) cursor_back [of date c rd, OF later(3)]
      encode_truthy [of c]
    show ?thesis by (simp add: getReviewQueue_def queue_limit_def [symmetric])
  qed
qed

lemma walk_step:
  assumes "qq_mode q = Some Cursor_mode" and "cursor_means date cursor b" and "0 < queue_limit q"
  shows "queue_walk rd date q cursor (s # ss) =
    (if queue_limit q < length (queue_rows date q b s) then
       (case queue_walk rd date q (Some (encodeReviewQueueCursor (last (take (queue_limit q) (queue_rows date q b s))))) ss of
          (items, ended) \<Rightarrow> (take (queue_limit q) (queue_rows date q b s) @ items, ended))
     else (queue_rows date q b s, True))"
  by (simp add: queue_request [OF assms])

lemma walked:
  assumes "qq_mode q = Some Cursor_mode" and "0 < queue_limit q"
    and "\<forall>s \<in> set ss. distinct (map cl_id (cs_claims s)) \<and> readable_dates date s"
    and "cursor_means date cursor b" and "queue_walk rd date q cursor ss = (items, ended)"
  shows "sorted_wrt (\<lambda>x y. queue_key y < queue_key x) items \<and> (\<forall>c \<in> set items. below b c \<and> buildReviewQueueFilters date q c) \<and>
    (ended \<longrightarrow> (\<forall>k. (\<forall>s \<in> set ss. \<exists>c \<in> set (queue_rows date q b s). queue_key c = k) \<longrightarrow> ss \<noteq> [] \<longrightarrow> k \<in> queue_key ` set items))"
  using assms(3-5)
proof (induction ss arbitrary: cursor b items)
  case Nil
  then show ?case by simp
next
  case (Cons s ss)
  let ?l = "queue_limit q" and ?rows = "queue_rows date q b s"
  have desc: "sorted_wrt (\<lambda>x y. queue_key y < queue_key x) ?rows"
    using queue_rows_descend Cons.prems(1) by simp
  have rows: "\<forall>c \<in> set ?rows. below b c \<and> buildReviewQueueFilters date q c"
    by (simp add: queue_rows_def)
  show ?case
  proof (cases "?l < length ?rows")
    case False
    then have "items = ?rows" using Cons.prems(3) walk_step [OF assms(1) Cons.prems(2) assms(2)] by simp
    with desc rows show ?thesis by (auto intro: rev_image_eqI)
  next
    case True
    let ?page = "take ?l ?rows"
    have page: "?page \<noteq> []" using True assms(2) by auto
    obtain rest where rest: "queue_walk rd date q (Some (encodeReviewQueueCursor (last ?page))) ss = (rest, ended)"
      and items: "items = ?page @ rest"
      using Cons.prems(3) True unfolding walk_step [OF assms(1) Cons.prems(2) assms(2)] by (auto split: prod.splits)
    have "last ?page \<in> set ?page" using page by (rule last_in_set)
    then have "last ?page \<in> set ?rows" by (rule in_set_takeD)
    then have "last ?page \<in> set (cs_claims s)" by (simp add: queue_rows_def)
    with Cons.prems(1) have means: "cursor_means date (Some (encodeReviewQueueCursor (last ?page))) (Some (queue_key (last ?page)))"
      by (auto simp: cursor_means_def readable_dates_def)
    have IH: "sorted_wrt (\<lambda>x y. queue_key y < queue_key x) rest"
      "\<forall>c \<in> set rest. queue_key c < queue_key (last ?page) \<and> buildReviewQueueFilters date q c"
      "ended \<longrightarrow> (\<forall>k. (\<forall>s \<in> set ss. \<exists>c \<in> set (queue_rows date q (Some (queue_key (last ?page))) s). queue_key c = k) \<longrightarrow>
         ss \<noteq> [] \<longrightarrow> k \<in> queue_key ` set rest)"
      using Cons.IH [OF _ means rest] Cons.prems(1) by (simp_all add: below_def)
    have parts: "?rows = butlast ?page @ [last ?page] @ drop ?l ?rows"
      using append_take_drop_id [of ?l ?rows] page by (metis append.assoc append_butlast_last_id)
    then have order: "\<forall>x \<in> set ?page. queue_key (last ?page) \<le> queue_key x"
      "\<forall>x \<in> set (drop ?l ?rows). queue_key x < queue_key (last ?page)"
    proof -
      have whole: "sorted_wrt (\<lambda>x y. queue_key y < queue_key x) (butlast ?page @ [last ?page] @ drop ?l ?rows)"
        using desc parts by simp
      then show "\<forall>x \<in> set (drop ?l ?rows). queue_key x < queue_key (last ?page)"
        unfolding sorted_wrt_append by simp
      have "\<forall>x \<in> set (butlast ?page). queue_key (last ?page) < queue_key x"
        using whole unfolding sorted_wrt_append by simp
      moreover have "set ?page = insert (last ?page) (set (butlast ?page))"
        using page by (metis append_butlast_last_id list.simps(15) rotate1.simps(2) set_rotate1)
      ultimately show "\<forall>x \<in> set ?page. queue_key (last ?page) \<le> queue_key x" by auto
    qed
    have sorted: "sorted_wrt (\<lambda>x y. queue_key y < queue_key x) items"
      unfolding items sorted_wrt_append
      using IH(1,2) order(1) sorted_wrt_take [OF desc, of ?l] by (meson less_le_trans)
    have under: "below b c" if "c \<in> set rest" for c
    proof -
      have "below b (last ?page)" using rows \<open>last ?page \<in> set ?rows\<close> by blast
      with IH(2) that show ?thesis by (auto simp: below_def split: option.splits)
    qed
    have all: "k \<in> queue_key ` set items"
      if "ended" and every: "\<forall>s \<in> set (s # ss). \<exists>c \<in> set (queue_rows date q b s). queue_key c = k" for k
    proof -
      from every obtain c where c: "c \<in> set ?rows" "queue_key c = k" by auto
      show ?thesis
      proof (cases "c \<in> set ?page")
        case True
        with c items show ?thesis by auto
      next
        case False
        with c(1) have "c \<in> set (drop ?l ?rows)" by (metis UnE append_take_drop_id set_append)
        with order(2) c(2) have "k < queue_key (last ?page)" by auto
        with every have "\<forall>s \<in> set ss. \<exists>c \<in> set (queue_rows date q (Some (queue_key (last ?page))) s). queue_key c = k"
          by (force simp: queue_rows_def below_def)
        moreover have "ss \<noteq> []" using rest \<open>ended\<close> by auto
        ultimately have "k \<in> queue_key ` set rest" using IH(3) \<open>ended\<close> by blast
        then show ?thesis by (simp add: items image_Un)
      qed
    qed
    have "\<forall>c \<in> set items. below b c \<and> buildReviewQueueFilters date q c"
      using rows IH(2) under by (auto simp: items dest: in_set_takeD)
    with sorted all show ?thesis by blast
  qed
qed

text \<open>Over one table: the rows below a page are those after it.\<close>

lemma rows_after_page:
  assumes "distinct (map cl_id (cs_claims s))" and "0 < l" and "l < length (queue_rows date q b s)"
  shows "queue_rows date q (Some (queue_key (last (take l (queue_rows date q b s))))) s = drop l (queue_rows date q b s)"
proof -
  let ?rows = "queue_rows date q b s"
  let ?k = "queue_key (last (take l ?rows))"
  have desc: "sorted_wrt (\<lambda>x y. queue_key y < queue_key x) ?rows" by (rule queue_rows_descend [OF assms(1)])
  have page: "last (take l ?rows) = ?rows ! (l - 1)" using assms(2,3) by (subst last_conv_nth) auto
  have nth: "queue_key (?rows ! j) < ?k \<longleftrightarrow> l \<le> j" if "j < length ?rows" for j
  proof (cases "l \<le> j")
    case True
    then show ?thesis using sorted_wrt_nth_less [OF desc, of "l - 1" j] assms(2) that page by simp
  next
    case False
    then consider "j = l - 1" | "j < l - 1" by linarith
    then show ?thesis
    proof cases
      case 2
      then have "?k < queue_key (?rows ! j)"
        using sorted_wrt_nth_less [OF desc, of j "l - 1"] assms(2,3) page by simp
      with False show ?thesis by auto
    qed (use assms(2) False page in simp)
  qed
  have "below b (?rows ! (l - 1))" using nth_mem [of "l - 1" ?rows] assms(2,3) by (simp add: queue_rows_def)
  then have "below (Some ?k) c \<longrightarrow> below b c" for c
    by (auto simp: below_def page split: option.splits)
  then have "filter (\<lambda>c. buildReviewQueueFilters date q c \<and> below (Some ?k) c) rows = filter (below (Some ?k))
      (filter (\<lambda>c. buildReviewQueueFilters date q c \<and> below b c) rows)" for rows
    by (induction rows) auto
  then have "queue_rows date q (Some ?k) s = queue_order (filter (below (Some ?k))
      (filter (\<lambda>c. buildReviewQueueFilters date q c \<and> below b c) (cs_claims s)))"
    by (simp only: queue_rows_def)
  also have "\<dots> = filter (below (Some ?k)) ?rows"
    unfolding queue_rows_def by (rule queue_order_filter)
  also have "\<dots> = filter (below (Some ?k)) (take l ?rows) @ filter (below (Some ?k)) (drop l ?rows)"
    by (metis append_take_drop_id filter_append)
  also have "filter (below (Some ?k)) (take l ?rows) = []"
    using nth assms(3) by (auto simp: filter_empty_conv in_set_conv_nth below_def)
  also have "filter (below (Some ?k)) (drop l ?rows) = drop l ?rows"
    using nth by (auto simp: filter_id_conv in_set_conv_nth below_def)
  finally show ?thesis by simp
qed

lemma still_walk:
  assumes "qq_mode q = Some Cursor_mode" and "0 < queue_limit q"
    and "distinct (map cl_id (cs_claims s))" and "readable_dates date s" and "cursor_means date cursor b"
    and "length (queue_rows date q b s) < n * queue_limit q"
  shows "queue_walk rd date q cursor (replicate n s) = (queue_rows date q b s, True)"
  using assms(5,6)
proof (induction n arbitrary: cursor b)
  case (Suc n)
  let ?l = "queue_limit q" and ?rows = "queue_rows date q b s"
  show ?case
  proof (cases "?l < length ?rows")
    case True
    let ?c = "last (take ?l ?rows)"
    have "take ?l ?rows \<noteq> []" using True assms(2) by auto
    then have "?c \<in> set ?rows" by (meson in_set_takeD last_in_set)
    then have "?c \<in> set (cs_claims s)" by (simp add: queue_rows_def)
    with assms(4) have means: "cursor_means date (Some (encodeReviewQueueCursor ?c)) (Some (queue_key ?c))"
      by (auto simp: cursor_means_def readable_dates_def)
    note after = rows_after_page [OF assms(3,2) True]
    have "queue_walk rd date q (Some (encodeReviewQueueCursor ?c)) (replicate n s) = (drop ?l ?rows, True)"
      using Suc.IH [OF means] Suc.prems(2) unfolding after by (simp add: less_diff_conv2 True less_imp_le add.commute)
    then show ?thesis using walk_step [OF assms(1) Suc.prems(1) assms(2)] True by simp
  next
    case False
    then show ?thesis using walk_step [OF assms(1) Suc.prems(1) assms(2)] by simp
  qed
qed simp

section \<open>Properties\<close>

text \<open>
  C22. The queue can be read while it changes. A client that follows the cursors, over tables in which
  claims come, go and change between two requests, gets claims of the filter in strictly descending order,
  so none twice; and when it reaches the end, every claim that was there and matched all the time was among
  them. Over a table that stays as it is the walk ends, with as many requests as it has full pages and one more, and
  gives the filtered queue in its order.
\<close>

theorem queue_walk_exact:
  assumes "qq_mode q = Some Cursor_mode" and "0 < queue_limit q"
    and "\<forall>s \<in> set ss. distinct (map cl_id (cs_claims s)) \<and> readable_dates date s"
    and "queue_walk rd date q None ss = (items, ended)"
  shows "sorted_wrt (\<lambda>x y. queue_key y < queue_key x) items \<and> (\<forall>c \<in> set items. buildReviewQueueFilters date q c) \<and>
    (ended \<longrightarrow> (\<forall>k. (\<forall>s \<in> set ss. \<exists>c \<in> set (cs_claims s). buildReviewQueueFilters date q c \<and> queue_key c = k) \<longrightarrow>
      ss \<noteq> [] \<longrightarrow> k \<in> queue_key ` set items)) \<and>
    (\<forall>s n. ss = replicate n s \<longrightarrow> length (filter (buildReviewQueueFilters date q) (cs_claims s)) < n * queue_limit q \<longrightarrow>
      ended \<and> items = queue_order (filter (buildReviewQueueFilters date q) (cs_claims s)))"
proof -
  have start: "cursor_means date None None" by (simp add: cursor_means_def)
  note W = walked [OF assms(1-3) start assms(4)]
  have whole: "queue_rows date q None s = queue_order (filter (buildReviewQueueFilters date q) (cs_claims s))" for s
    by (simp add: queue_rows_def below_def)
  have all: "\<forall>k. (\<forall>s \<in> set ss. \<exists>c \<in> set (cs_claims s). buildReviewQueueFilters date q c \<and> queue_key c = k) \<longrightarrow>
      ss \<noteq> [] \<longrightarrow> k \<in> queue_key ` set items" if ended
  proof (intro allI impI)
    fix k assume "\<forall>s \<in> set ss. \<exists>c \<in> set (cs_claims s). buildReviewQueueFilters date q c \<and> queue_key c = k" and "ss \<noteq> []"
    then have "\<forall>s \<in> set ss. \<exists>c \<in> set (queue_rows date q None s). queue_key c = k"
      by (fastforce simp: whole)
    with W that \<open>ss \<noteq> []\<close> show "k \<in> queue_key ` set items" by blast
  qed
  have still: "ended \<and> items = queue_order (filter (buildReviewQueueFilters date q) (cs_claims s))"
    if "ss = replicate n s" and "length (filter (buildReviewQueueFilters date q) (cs_claims s)) < n * queue_limit q" for n s
  proof -
    have "0 < n" using that(2) by (cases n) auto
    with assms(3) that(1) have s: "distinct (map cl_id (cs_claims s))" "readable_dates date s" by auto
    have "queue_walk rd date q None (replicate n s) = (queue_rows date q None s, True)"
      using still_walk [OF assms(1,2) s start, of n rd] that(2) by (simp add: whole)
    with assms(4) that(1) show ?thesis by (simp add: whole)
  qed
  from W all still show ?thesis by blast
qed

definition demo_second :: claim where
  "demo_second = hd (cs_claims demo_claimed)\<lparr>cl_id := ''c2''\<rparr>"

definition demo_review_queue :: claims_state where
  "demo_review_queue = demo_claimed\<lparr>cs_claims := [hd (cs_claims demo_claimed), demo_second]\<rparr>"

definition demo_queue_query :: queue_query where
  "demo_queue_query = \<lparr>qq_mode = Some Cursor_mode, qq_status = None, qq_campaignId = Some ''k'', qq_fromDate = None,
     qq_toDate = None, qq_page = None, qq_limit = Some 1, qq_cursor = None\<rparr>"

theorem queue_walk_exact_witness:
  "queue_walk (\<lambda>_. None) (\<lambda>_. Some 0) demo_queue_query None (replicate 3 demo_review_queue) =
     ([demo_second, hd (cs_claims demo_claimed)], True)"
proof -
  have claims: "cs_claims demo_review_queue = [hd (cs_claims demo_claimed), demo_second]" by (simp add: demo_review_queue_def)
  have rows: "cl_id (hd (cs_claims demo_claimed)) = ''c1''" "cl_createdAt (hd (cs_claims demo_claimed)) = 0"
    "cl_campaignId (hd (cs_claims demo_claimed)) = ''k''"
    by (simp_all add: demo_simps)
  have second: "cl_id demo_second = ''c2''" "cl_createdAt demo_second = 0" "cl_campaignId demo_second = ''k''"
    using rows by (simp_all add: demo_second_def)
  have matching: "filter (buildReviewQueueFilters (\<lambda>_. Some 0) demo_queue_query) (cs_claims demo_review_queue) =
      [hd (cs_claims demo_claimed), demo_second]"
    by (simp add: claims buildReviewQueueFilters_def demo_queue_query_def truthy_def rows second)
  have order: "queue_order [hd (cs_claims demo_claimed), demo_second] = [demo_second, hd (cs_claims demo_claimed)]"
    by (simp add: queue_order_def queue_key_def rows second less_eq_prod_def less_char_def Cons_less_Cons)
  obtain items ended where walk: "queue_walk (\<lambda>_. None) (\<lambda>_. Some 0) demo_queue_query None (replicate 3 demo_review_queue) = (items, ended)"
    by force
  have "\<forall>s \<in> set (replicate 3 demo_review_queue). distinct (map cl_id (cs_claims s)) \<and> readable_dates (\<lambda>_. Some 0) s"
    by (simp add: claims rows second readable_dates_def)
  moreover have "qq_mode demo_queue_query = Some Cursor_mode" "queue_limit demo_queue_query = 1"
    by (simp_all add: demo_queue_query_def queue_limit_def)
  ultimately have "ended \<and> items = queue_order (filter (buildReviewQueueFilters (\<lambda>_. Some 0) demo_queue_query) (cs_claims demo_review_queue))"
    using queue_walk_exact [of demo_queue_query "replicate 3 demo_review_queue" "\<lambda>_. Some 0" "\<lambda>_. None" items ended, OF _ _ _ walk] matching
    by simp
  then show ?thesis using walk by (simp only: matching order)
qed

end
