(* ===== verification/EventCorrelation.thy ===== *)
theory EventCorrelation
  imports ResultMetadata
begin

text \<open>
  How events of the contract are tied to records, \<open>onchain/soroban-event-correlation.service.ts\<close>, when that is
  meant to happen, \<open>soroban-event-correlation.scheduler.ts\<close>, and the worker of the queue the jobs go to,
  \<open>onchain.processor.ts\<close>. The state is the table of correlations and the queue. The chain is a parameter: a
  function from the request to an error or the events (with its retries), topics and payloads as the
  native values the Stellar package makes of them, taken to be JSON. \<open>num\<close> renders a number, \<open>claims\<close> are the
  ids of the table of claims. Metrics and log lines are left out.
\<close>

section \<open>Data\<close>

record soroban_event =
  se_topic :: string
  se_payload :: json
  se_txHash :: string
  se_ledger :: int
  se_eventIndex :: int

record correlation =
  cr_eventTopic :: string
  cr_txHash :: string
  cr_ledger :: int
  cr_eventIndex :: int
  cr_claimId :: "ident option"
  cr_packageId :: "string option"
  cr_aidPackageId :: "ident option"
  cr_payload :: json
  cr_source :: string
  cr_createdAt :: time

record correlation_detail =
  dd_txHash :: string
  dd_eventIndex :: int
  dd_eventTopic :: string
  dd_claimId :: "ident option"
  dd_packageId :: "string option"
  dd_success :: bool
  dd_error :: "string option"

record correlation_result =
  rr_correlated :: nat
  rr_skipped :: nat
  rr_errors :: nat
  rr_details :: "correlation_detail list"

definition CORRELATED_TOPICS :: "string list" where
  "CORRELATED_TOPICS = [''package_created'', ''package_claimed'', ''package_disbursed'', ''package_cancelled'',
     ''package_expired'', ''package_refunded'', ''package_revoked'', ''claim_created'', ''claim_verified'',
     ''claim_approved'', ''claim_disbursed'', ''claim_cancelled'', ''claim_archived'', ''escrow_initialized'',
     ''config_updated'', ''admin_updated'', ''tokens_allowed'', ''tokens_removed'']"

definition EVENT_TOPICS :: "string list" where
  "EVENT_TOPICS = [''package_created'', ''package_claimed'', ''package_disbursed'', ''package_cancelled'',
     ''package_expired'', ''package_refunded'', ''package_revoked'', ''claim_created'', ''claim_verified'',
     ''claim_approved'', ''claim_disbursed'', ''claim_cancelled'', ''claim_archived'', ''escrow_initialized'',
     ''escrow_funded'', ''batch_created_event'', ''extended_event'', ''surplus_withdrawn_event'',
     ''contract_paused_event'', ''contract_unpaused_event'', ''action_paused_event'', ''action_unpaused_event'',
     ''config_updated'', ''admin_updated'', ''tokens_allowed'', ''tokens_removed'']"

text \<open>The service's map sends every topic of the database's enumeration to itself.\<close>

definition TOPIC_MAP :: "(string \<times> string) list" where
  "TOPIC_MAP = map (\<lambda>t. (t, t)) EVENT_TOPICS"

definition mapped_topic :: "string \<Rightarrow> string" where
  "mapped_topic topic = (if truthy (map_of TOPIC_MAP topic) then the (map_of TOPIC_MAP topic) else topic)"

section \<open>Identifiers in a payload\<close>

fun getNestedValue :: "json \<Rightarrow> string list \<Rightarrow> json option" where
  "getNestedValue v [] = Some v"
| "getNestedValue (JObj m) (k # ks) = Option.bind (map_of m k) (\<lambda>v. getNestedValue v ks)"
| "getNestedValue v (k # ks) = None"

fun first_id :: "(rat \<Rightarrow> string) \<Rightarrow> json \<Rightarrow> string list list \<Rightarrow> string option" where
  "first_id num payload [] = None"
| "first_id num payload (path # paths) =
     (case getNestedValue payload path of
        Some (JStr s) \<Rightarrow> Some s
      | Some (JNum n) \<Rightarrow> Some (num n)
      | _ \<Rightarrow> first_id num payload paths)"

definition extractPackageId :: "(rat \<Rightarrow> string) \<Rightarrow> json \<Rightarrow> string option" where
  "extractPackageId num payload = first_id num payload
     [[''package_id''], [''packageId''], [''id''], [''package''], [''data'', ''package_id''], [''data'', ''id'']]"

definition extractClaimId :: "(rat \<Rightarrow> string) \<Rightarrow> json \<Rightarrow> string option" where
  "extractClaimId num payload = first_id num payload
     [[''claim_id''], [''claimId''], [''claim''], [''data'', ''claim_id''], [''data'', ''claimId''],
      [''metadata'', ''claim_ref'']]"

text \<open>The claim id and the package id.\<close>

definition extractIdentifiers :: "(rat \<Rightarrow> string) \<Rightarrow> json \<Rightarrow> ident option \<times> string option" where
  "extractIdentifiers num payload =
     (if \<not> json_truthy (Some payload) then (None, None)
      else if truthy (extractPackageId num payload) then (None, extractPackageId num payload)
      else if truthy (extractClaimId num payload) then (extractClaimId num payload, None)
      else (None, None))"

section \<open>Correlating\<close>

definition same_key :: "string \<Rightarrow> int \<Rightarrow> correlation \<Rightarrow> bool" where
  "same_key txHash eventIndex r \<longleftrightarrow> cr_txHash r = txHash \<and> cr_eventIndex r = eventIndex"

text \<open>
  The insert with what the table demands: a topic of the enumeration, a payload, a claim that exists, and one row
  per transaction and index.
\<close>

definition insert_correlation :: "ident list \<Rightarrow> correlation \<Rightarrow> correlation list \<Rightarrow> (string + unit) \<times> correlation list" where
  "insert_correlation claims row rows =
     (if cr_eventTopic row \<notin> set EVENT_TOPICS then (Inl ''Invalid value for argument eventTopic'', rows)
      else if cr_payload row = JNull then (Inl ''Argument payload must not be null'', rows)
      else if (case cr_claimId row of None \<Rightarrow> False | Some c \<Rightarrow> c \<notin> set claims) then
        (Inl ''Foreign key constraint failed'', rows)
      else if find_row (same_key (cr_txHash row) (cr_eventIndex row)) rows \<noteq> None then
        (Inl ''Unique constraint failed'', rows)
      else (Inr (), rows @ [row]))"

definition event_row :: "(rat \<Rightarrow> string) \<Rightarrow> time \<Rightarrow> string \<Rightarrow> soroban_event \<Rightarrow> correlation" where
  "event_row num now source e =
     \<lparr>cr_eventTopic = mapped_topic (se_topic e), cr_txHash = se_txHash e, cr_ledger = se_ledger e,
      cr_eventIndex = se_eventIndex e, cr_claimId = fst (extractIdentifiers num (se_payload e)),
      cr_packageId = snd (extractIdentifiers num (se_payload e)), cr_aidPackageId = None, cr_payload = se_payload e,
      cr_source = source, cr_createdAt = now\<rparr>"

definition correlateSingleEvent ::
  "(rat \<Rightarrow> string) \<Rightarrow> ident list \<Rightarrow> time \<Rightarrow> string \<Rightarrow> soroban_event \<Rightarrow> correlation list
   \<Rightarrow> (string + correlation_detail) \<times> correlation list" where
  "correlateSingleEvent num claims now source e rows =
     (if find_row (same_key (se_txHash e) (se_eventIndex e)) rows \<noteq> None then
        (Inr \<lparr>dd_txHash = se_txHash e, dd_eventIndex = se_eventIndex e, dd_eventTopic = se_topic e, dd_claimId = None,
              dd_packageId = None, dd_success = True, dd_error = Some ''Already correlated''\<rparr>, rows)
      else
        let row = event_row num now source e
        in case insert_correlation claims row rows of
             (Inl err, rows') \<Rightarrow> (Inl err, rows')
           | (Inr _, rows') \<Rightarrow>
               (Inr \<lparr>dd_txHash = se_txHash e, dd_eventIndex = se_eventIndex e, dd_eventTopic = cr_eventTopic row,
                     dd_claimId = cr_claimId row, dd_packageId = cr_packageId row, dd_success = True, dd_error = None\<rparr>,
                rows'))"

fun process_loop ::
  "(rat \<Rightarrow> string) \<Rightarrow> ident list \<Rightarrow> time \<Rightarrow> string \<Rightarrow> soroban_event list \<Rightarrow> correlation_result \<Rightarrow> correlation list
   \<Rightarrow> correlation_result \<times> correlation list" where
  "process_loop num claims now source [] result rows = (result, rows)"
| "process_loop num claims now source (e # es) result rows =
     (case correlateSingleEvent num claims now source e rows of
        (Inl err, rows') \<Rightarrow>
          process_loop num claims now source es
            (result\<lparr>rr_errors := rr_errors result + 1,
               rr_details := rr_details result @ [\<lparr>dd_txHash = se_txHash e, dd_eventIndex = se_eventIndex e,
                 dd_eventTopic = se_topic e, dd_claimId = None, dd_packageId = None, dd_success = False,
                 dd_error = Some err\<rparr>]\<rparr>) rows'
      | (Inr d, rows') \<Rightarrow>
          process_loop num claims now source es
            (if dd_success d then result\<lparr>rr_correlated := rr_correlated result + 1, rr_details := rr_details result @ [d]\<rparr>
             else result\<lparr>rr_errors := rr_errors result + 1, rr_details := rr_details result @ [d]\<rparr>) rows')"

definition no_result :: correlation_result where
  "no_result = \<lparr>rr_correlated = 0, rr_skipped = 0, rr_errors = 0, rr_details = []\<rparr>"

definition processEvents ::
  "(rat \<Rightarrow> string) \<Rightarrow> ident list \<Rightarrow> time \<Rightarrow> string \<Rightarrow> soroban_event list \<Rightarrow> correlation list
   \<Rightarrow> correlation_result \<times> correlation list" where
  "processEvents num claims now source events rows = process_loop num claims now source events no_result rows"

section \<open>Events from the chain\<close>

record rpc_event =
  re_topic :: "json list"
  re_value :: "json option"
  re_txHash :: "string option"
  re_ledger :: "int option"
  re_transactionIndex :: "int option"

datatype rpc_request = From_ledger string int int | From_start string

definition extractEventTopic :: "json list \<Rightarrow> string option" where
  "extractEventTopic topic = (case topic of JStr s # _ \<Rightarrow> Some s | _ \<Rightarrow> None)"

definition parseEventPayload :: "json option \<Rightarrow> json" where
  "parseEventPayload v = (case v of None \<Rightarrow> JNull | Some x \<Rightarrow> x)"

definition or_zero :: "int option \<Rightarrow> int" where
  "or_zero x = (case x of None \<Rightarrow> 0 | Some n \<Rightarrow> n)"

definition fetched_event :: "rpc_event \<Rightarrow> soroban_event option" where
  "fetched_event e =
     (if truthy (extractEventTopic (re_topic e)) then
        Some \<lparr>se_topic = the (extractEventTopic (re_topic e)), se_payload = parseEventPayload (re_value e),
              se_txHash = (case re_txHash e of None \<Rightarrow> [] | Some t \<Rightarrow> t), se_ledger = or_zero (re_ledger e),
              se_eventIndex = or_zero (re_transactionIndex e)\<rparr>
      else None)"

definition fetchEvents ::
  "(rpc_request \<Rightarrow> string + rpc_event list) \<Rightarrow> string \<Rightarrow> int option \<Rightarrow> int option \<Rightarrow> string + soroban_event list" where
  "fetchEvents rpc contractId startLedger endLedger =
     map_sum id (List.map_filter fetched_event)
       (rpc (case startLedger of
          None \<Rightarrow> From_start contractId
        | Some s \<Rightarrow> From_ledger contractId s (if endLedger = None \<or> endLedger = Some 0 then s + 1000 else the endLedger)))"

record correlation_job =
  cj_startLedger :: "int option"
  cj_endLedger :: "int option"
  cj_contractId :: "string option"
  cj_source :: string

definition correlateEvents ::
  "(rpc_request \<Rightarrow> string + rpc_event list) \<Rightarrow> string \<Rightarrow> (rat \<Rightarrow> string) \<Rightarrow> ident list \<Rightarrow> time \<Rightarrow> correlation_job
   \<Rightarrow> correlation list \<Rightarrow> (string + correlation_result) \<times> correlation list" where
  "correlateEvents rpc ownContract num claims now data rows =
     (case fetchEvents rpc (if truthy (cj_contractId data) then the (cj_contractId data) else ownContract)
             (cj_startLedger data) (cj_endLedger data) of
        Inl err \<Rightarrow> (Inl err, rows)
      | Inr events \<Rightarrow>
          (case processEvents num claims now (cj_source data)
                  (filter (\<lambda>e. se_topic e \<in> set CORRELATED_TOPICS) events) rows of
             (r, rows') \<Rightarrow> (Inr r, rows')))"

text \<open>A transaction as the chain returns it: whether it succeeded, its ledger and its events.\<close>

record contract_event =
  ce_contractId :: string
  ce_topic :: "json list"
  ce_value :: "json option"

record rpc_transaction =
  rt_status :: string
  rt_ledger :: "int option"
  rt_events :: "contract_event list"

definition transaction_event :: "string \<Rightarrow> int \<Rightarrow> nat \<times> contract_event \<Rightarrow> soroban_event" where
  "transaction_event txHash ledger = (\<lambda>(idx, e).
     \<lparr>se_topic = (case extractEventTopic (ce_topic e) of None \<Rightarrow> [] | Some t \<Rightarrow> t),
      se_payload = parseEventPayload (ce_value e), se_txHash = txHash, se_ledger = ledger, se_eventIndex = int idx\<rparr>)"

definition correlateTransaction ::
  "(string \<Rightarrow> string + rpc_transaction) \<Rightarrow> string \<Rightarrow> (rat \<Rightarrow> string) \<Rightarrow> ident list \<Rightarrow> time \<Rightarrow> string \<Rightarrow> string
   \<Rightarrow> correlation list \<Rightarrow> (string + correlation_result) \<times> correlation list" where
  "correlateTransaction rpc ownContract num claims now txHash source rows =
     (case rpc txHash of
        Inl err \<Rightarrow> (Inl err, rows)
      | Inr t \<Rightarrow>
          if rt_status t \<noteq> ''SUCCESS'' then (Inl (''Transaction '' @ txHash @ '' not successful: '' @ rt_status t), rows)
          else
            let contractEvents = filter (\<lambda>e. ce_contractId e = ownContract) (rt_events t);
                events = filter (\<lambda>e. se_topic e \<noteq> [])
                  (map (transaction_event txHash (or_zero (rt_ledger t))) (enumerate 0 contractEvents))
            in (case processEvents num claims now source events rows of (r, rows') \<Rightarrow> (Inr r, rows')))"

section \<open>Queries\<close>

definition latest_correlations :: "(correlation \<Rightarrow> bool) \<Rightarrow> correlation list \<Rightarrow> correlation list" where
  "latest_correlations p rows = sort_key (\<lambda>r. - cr_createdAt r) (filter p rows)"

definition getCorrelationsForClaim :: "ident \<Rightarrow> correlation list \<Rightarrow> correlation list" where
  "getCorrelationsForClaim i = latest_correlations (\<lambda>r. cr_claimId r = Some i)"

definition getCorrelationsForPackage :: "string \<Rightarrow> correlation list \<Rightarrow> correlation list" where
  "getCorrelationsForPackage i = latest_correlations (\<lambda>r. cr_packageId r = Some i)"

definition getCorrelationsForAidPackage :: "ident \<Rightarrow> correlation list \<Rightarrow> correlation list" where
  "getCorrelationsForAidPackage i = latest_correlations (\<lambda>r. cr_aidPackageId r = Some i)"

record correlation_query =
  cq_page :: "int option"
  cq_limit :: "int option"
  cq_eventTopic :: "string option"
  cq_claimId :: "ident option"
  cq_packageId :: "string option"
  cq_startLedger :: "int option"
  cq_endLedger :: "int option"

definition nonzero :: "int option \<Rightarrow> int \<Rightarrow> int" where
  "nonzero x d = (case x of None \<Rightarrow> d | Some n \<Rightarrow> if n = 0 then d else n)"

definition correlation_matches :: "correlation_query \<Rightarrow> correlation \<Rightarrow> bool" where
  "correlation_matches q r \<longleftrightarrow>
     (truthy (cq_eventTopic q) \<longrightarrow> Some (cr_eventTopic r) = cq_eventTopic q) \<and>
     (truthy (cq_claimId q) \<longrightarrow> cr_claimId r = cq_claimId q) \<and>
     (truthy (cq_packageId q) \<longrightarrow> cr_packageId r = cq_packageId q) \<and>
     (or_zero (cq_startLedger q) \<noteq> 0 \<longrightarrow> or_zero (cq_startLedger q) \<le> cr_ledger r) \<and>
     (or_zero (cq_endLedger q) \<noteq> 0 \<longrightarrow> cr_ledger r \<le> or_zero (cq_endLedger q))"

text \<open>The rows, their number, the page and the limit.\<close>

definition getAllCorrelations :: "correlation_query \<Rightarrow> correlation list \<Rightarrow> correlation list \<times> nat \<times> int \<times> int" where
  "getAllCorrelations q rows =
     (let page = max 1 (nonzero (cq_page q) 1);
          limit = min 100 (max 1 (nonzero (cq_limit q) 20));
          skip = (page - 1) * limit;
          found = sort_key (\<lambda>r. - cr_ledger r) (filter (correlation_matches q) rows)
      in (take (nat limit) (drop (nat skip) found), length found, page, limit))"

section \<open>Scheduling and the worker\<close>

text \<open>
  A job of the \<open>onchain\<close> queue: \<open>data.type\<close> and \<open>data.params\<close> (the members of a range, and \<open>txHash\<close>), which the
  worker reads, and the members the scheduler puts beside them.
\<close>

record onchain_job =
  oj_name :: string
  oj_type :: "string option"
  oj_params :: "(correlation_job \<times> string option) option"
  oj_txHash :: "string option"
  oj_data :: "correlation_job option"

record correlation_scheduler =
  sd_isProcessing :: bool
  sd_lastProcessedLedger :: "int option"
  sd_queue :: "onchain_job list"

definition getLatestLedger :: "time \<Rightarrow> int" where
  "getLatestLedger now = now div 5000 * 5000"

definition queued :: "string \<Rightarrow> correlation_job \<Rightarrow> string option \<Rightarrow> onchain_job" where
  "queued name data txHash = \<lparr>oj_name = name, oj_type = None, oj_params = None, oj_txHash = txHash, oj_data = Some data\<rparr>"

text \<open>\<open>full\<close>: the queue refuses the job.\<close>

definition scheduledCorrelation :: "time \<Rightarrow> bool \<Rightarrow> correlation_scheduler \<Rightarrow> correlation_scheduler" where
  "scheduledCorrelation now full s =
     (if sd_isProcessing s then s
      else
        let endLedger = getLatestLedger now;
            startLedger = (case sd_lastProcessedLedger s of
                None \<Rightarrow> endLedger - 100
              | Some l \<Rightarrow> if l = 0 then endLedger - 100 else l + 1)
        in if endLedger < startLedger \<or> full then s
           else s\<lparr>sd_queue := sd_queue s @ [queued ''event-correlation''
                    \<lparr>cj_startLedger = Some startLedger, cj_endLedger = Some endLedger, cj_contractId = None,
                     cj_source = ''scheduled''\<rparr> None],
                  sd_lastProcessedLedger := Some endLedger\<rparr>)"

definition triggerCorrelation :: "int \<Rightarrow> int \<Rightarrow> string option \<Rightarrow> string option \<Rightarrow> correlation_scheduler \<Rightarrow> correlation_scheduler" where
  "triggerCorrelation startLedger endLedger contractId source s =
     s\<lparr>sd_queue := sd_queue s @ [queued ''event-correlation''
         \<lparr>cj_startLedger = Some startLedger, cj_endLedger = Some endLedger, cj_contractId = contractId,
          cj_source = or_default source ''on_demand''\<rparr> None]\<rparr>"

definition schedule_transaction :: "string \<Rightarrow> correlation_scheduler \<Rightarrow> correlation_scheduler" where
  "schedule_transaction txHash s =
     s\<lparr>sd_queue := sd_queue s @ [queued ''event-correlation-transaction''
         \<lparr>cj_startLedger = None, cj_endLedger = None, cj_contractId = None, cj_source = ''on_demand''\<rparr> (Some txHash)]\<rparr>"

datatype onchain_operation = Init_escrow | Create_claim_op | Disburse_op | Event_correlation | Event_correlation_tx

definition onchain_operation_of :: "string option \<Rightarrow> onchain_operation option" where
  "onchain_operation_of t =
     (if t = Some ''init-escrow'' then Some Init_escrow
      else if t = Some ''create-claim'' then Some Create_claim_op
      else if t = Some ''disburse'' then Some Disburse_op
      else if t = Some ''event-correlation'' then Some Event_correlation
      else if t = Some ''event-correlation-transaction'' then Some Event_correlation_tx
      else None)"

text \<open>
  What the worker calls: the three operations of the adapter, with the \<open>status\<close> of their result, and the two of
  the correlation service.
\<close>

record onchain_calls =
  ok_adapter :: "onchain_operation \<Rightarrow> onchain_job \<Rightarrow> string + string"
  ok_correlate :: "correlation_job \<Rightarrow> correlation list \<Rightarrow> (string + correlation_result) \<times> correlation list"
  ok_correlate_tx :: "string \<Rightarrow> correlation list \<Rightarrow> (string + correlation_result) \<times> correlation list"

definition process_onchain :: "onchain_calls \<Rightarrow> onchain_job \<Rightarrow> correlation list \<Rightarrow> (string + unit) \<times> correlation list" where
  "process_onchain calls job rows =
     (case onchain_operation_of (oj_type job) of
        None \<Rightarrow> (Inl (''Unknown onchain operation type: '' @ (case oj_type job of None \<Rightarrow> ''undefined'' | Some t \<Rightarrow> t)), rows)
      | Some Event_correlation \<Rightarrow>
          (case oj_params job of
             None \<Rightarrow> (Inl ''Cannot destructure property'', rows)
           | Some (data, _) \<Rightarrow> (case ok_correlate calls data rows of (r, rows') \<Rightarrow> (map_sum id (\<lambda>_. ()) r, rows')))
      | Some Event_correlation_tx \<Rightarrow>
          (case oj_params job of
             None \<Rightarrow> (Inl ''Cannot read properties of undefined'', rows)
           | Some (_, txHash) \<Rightarrow>
               (case ok_correlate_tx calls (case txHash of None \<Rightarrow> ''undefined'' | Some t \<Rightarrow> t) rows of
                  (r, rows') \<Rightarrow> (map_sum id (\<lambda>_. ()) r, rows')))
      | Some op \<Rightarrow>
          (case ok_adapter calls op job of
             Inl err \<Rightarrow> (Inl err, rows)
           | Inr status \<Rightarrow>
               if status = ''failed'' then (Inl (''Onchain operation failed: '' @ the (oj_type job)), rows)
               else (Inr (), rows)))"

end
