(* ===== verification/EventRules.thy ===== *)
theory EventRules
  imports EventCorrelation ClaimLedger "HOL-Library.Sublist"
begin

text \<open>
  What the correlation of events guarantees: over any run of correlations the table holds an event once, a
  correlation of a range accounts for each of its events, and repeating it changes nothing. Then what the service
  does not give: the identifiers and the index of an event, and jobs the worker can read.
\<close>

section \<open>One event\<close>

definition correlation_key :: "correlation \<Rightarrow> string \<times> int" where
  "correlation_key r = (cr_txHash r, cr_eventIndex r)"

definition event_key :: "soroban_event \<Rightarrow> string \<times> int" where
  "event_key e = (se_txHash e, se_eventIndex e)"

definition detail_key :: "correlation_detail \<Rightarrow> string \<times> int" where
  "detail_key d = (dd_txHash d, dd_eventIndex d)"

text \<open>What the table accepts of an event, its key apart.\<close>

definition recordable :: "(rat \<Rightarrow> string) \<Rightarrow> ident list \<Rightarrow> soroban_event \<Rightarrow> bool" where
  "recordable num claims e \<longleftrightarrow> mapped_topic (se_topic e) \<in> set EVENT_TOPICS \<and> se_payload e \<noteq> JNull \<and>
     (case fst (extractIdentifiers num (se_payload e)) of None \<Rightarrow> True | Some c \<Rightarrow> c \<in> set claims)"

lemma same_key_iff: "same_key t i r \<longleftrightarrow> correlation_key r = (t, i)"
  by (simp add: same_key_def correlation_key_def)

lemma event_seen_iff: "find_row (same_key (se_txHash e) (se_eventIndex e)) rows \<noteq> None \<longleftrightarrow> event_key e \<in> correlation_key ` set rows"
proof -
  have "find_row (same_key (se_txHash e) (se_eventIndex e)) rows = None \<longleftrightarrow> (\<forall>r \<in> set rows. correlation_key r \<noteq> event_key e)"
    by (simp add: find_row_None_iff same_key_iff event_key_def)
  then show ?thesis by (metis image_iff)
qed

lemma correlation_key_event_row [simp]: "correlation_key (event_row num now source e) = event_key e"
  by (simp add: correlation_key_def event_key_def event_row_def)

lemma event_row_fields [simp]:
  "cr_eventTopic (event_row num now source e) = mapped_topic (se_topic e)"
  "cr_payload (event_row num now source e) = se_payload e"
  "cr_claimId (event_row num now source e) = fst (extractIdentifiers num (se_payload e))"
  "cr_txHash (event_row num now source e) = se_txHash e"
  "cr_eventIndex (event_row num now source e) = se_eventIndex e"
  by (simp_all add: event_row_def)

lemma insert_event:
  assumes "event_key e \<notin> correlation_key ` set rows"
  shows "recordable num claims e \<Longrightarrow>
      insert_correlation claims (event_row num now source e) rows = (Inr (), rows @ [event_row num now source e])"
    and "\<not> recordable num claims e \<Longrightarrow>
      \<exists>err. insert_correlation claims (event_row num now source e) rows = (Inl err, rows)"
  using assms event_seen_iff[of e rows]
  by (auto simp: insert_correlation_def recordable_def split: option.splits)

text \<open>The three outcomes of one event.\<close>

lemma correlate_cases:
  obtains (seen) d where "event_key e \<in> correlation_key ` set rows" "detail_key d = event_key e" "dd_success d"
      "correlateSingleEvent num claims now source e rows = (Inr d, rows)"
  | (stored) d where "event_key e \<notin> correlation_key ` set rows" "recordable num claims e" "detail_key d = event_key e" "dd_success d"
      "correlateSingleEvent num claims now source e rows = (Inr d, rows @ [event_row num now source e])"
  | (refused) err where "event_key e \<notin> correlation_key ` set rows" "\<not> recordable num claims e"
      "correlateSingleEvent num claims now source e rows = (Inl err, rows)"
proof (cases "event_key e \<in> correlation_key ` set rows")
  case True
  have "correlateSingleEvent num claims now source e rows =
      (Inr \<lparr>dd_txHash = se_txHash e, dd_eventIndex = se_eventIndex e, dd_eventTopic = se_topic e, dd_claimId = None,
            dd_packageId = None, dd_success = True, dd_error = Some ''Already correlated''\<rparr>, rows)"
    using True event_seen_iff[of e rows] unfolding correlateSingleEvent_def by (subst if_P) simp_all
  then show thesis by (rule seen[OF True, rotated 2]) (simp_all add: detail_key_def event_key_def)
next
  case new: False
  show thesis
  proof (cases "recordable num claims e")
    case True
    have "correlateSingleEvent num claims now source e rows =
        (Inr \<lparr>dd_txHash = se_txHash e, dd_eventIndex = se_eventIndex e,
              dd_eventTopic = cr_eventTopic (event_row num now source e),
              dd_claimId = cr_claimId (event_row num now source e), dd_packageId = cr_packageId (event_row num now source e),
              dd_success = True, dd_error = None\<rparr>, rows @ [event_row num now source e])"
      using new event_seen_iff[of e rows] insert_event(1)[OF new True, of now source]
      unfolding correlateSingleEvent_def by (subst if_not_P) (simp_all add: Let_def)
    then show thesis by (rule stored[OF new True, rotated 2]) (simp_all add: detail_key_def event_key_def)
  next
    case False
    obtain err where "insert_correlation claims (event_row num now source e) rows = (Inl err, rows)"
      using insert_event(2)[OF new False] by blast
    then have "correlateSingleEvent num claims now source e rows = (Inl err, rows)"
      using new event_seen_iff[of e rows] unfolding correlateSingleEvent_def by (subst if_not_P) (simp_all add: Let_def)
    then show thesis by (rule refused[OF new False])
  qed
qed

section \<open>A list of events\<close>

text \<open>The rows a list of events adds: the first recordable event of each new key.\<close>

fun new_events :: "(rat \<Rightarrow> string) \<Rightarrow> ident list \<Rightarrow> (string \<times> int) set \<Rightarrow> soroban_event list \<Rightarrow> soroban_event list" where
  "new_events num claims seen [] = []"
| "new_events num claims seen (e # es) =
     (if event_key e \<in> seen \<or> \<not> recordable num claims e then new_events num claims seen es
      else e # new_events num claims (insert (event_key e) seen) es)"

lemma process_loop_rows:
  "snd (process_loop num claims now source es r rows) =
     rows @ map (event_row num now source) (new_events num claims (correlation_key ` set rows) es)"
proof (induction es arbitrary: r rows)
  case Nil
  show ?case by simp
next
  case (Cons e es)
  show ?case
  proof (cases rule: correlate_cases[of e rows num claims now source])
    case (seen d)
    then show ?thesis by (simp add: Cons.IH)
  next
    case (stored d)
    then show ?thesis by (simp add: Cons.IH)
  next
    case (refused err)
    then show ?thesis by (simp add: Cons.IH)
  qed
qed

lemma new_events_subseq: "subseq (new_events num claims seen es) es"
  by (induction es arbitrary: seen) auto

lemma new_events_keys:
  "distinct (map event_key (new_events num claims seen es)) \<and> event_key ` set (new_events num claims seen es) \<inter> seen = {}"
proof (induction es arbitrary: seen)
  case Nil
  show ?case by simp
next
  case (Cons e es)
  have "distinct (map event_key (new_events num claims (insert (event_key e) seen) es))"
    and "event_key ` set (new_events num claims (insert (event_key e) seen) es) \<inter> insert (event_key e) seen = {}"
    using Cons.IH by blast+
  moreover from this(2) have "event_key e \<notin> event_key ` set (new_events num claims (insert (event_key e) seen) es)"
    and "event_key ` set (new_events num claims (insert (event_key e) seen) es) \<inter> seen = {}"
    by blast+
  ultimately show ?case using Cons.IH[of seen] by (simp only: new_events.simps) simp
qed

lemma new_events_complete:
  "e \<in> set es \<Longrightarrow> recordable num claims e \<Longrightarrow> event_key e \<in> seen \<union> event_key ` set (new_events num claims seen es)"
  by (induction es arbitrary: seen) auto

lemma no_new_events: "\<forall>e \<in> set es. recordable num claims e \<longrightarrow> event_key e \<in> seen \<Longrightarrow> new_events num claims seen es = []"
  by (induction es arbitrary: seen) auto

text \<open>The report: a detail for each event, in order, and the two counters.\<close>

definition report_ok :: "(soroban_event \<Rightarrow> bool) \<Rightarrow> soroban_event list \<Rightarrow> correlation_result \<Rightarrow> (string \<times> int) set \<Rightarrow> bool" where
  "report_ok p es r keys \<longleftrightarrow> map detail_key (rr_details r) = map event_key es \<and>
     list_all2 (\<lambda>e d. dd_success d \<or> \<not> p e) es (rr_details r) \<and>
     rr_correlated r = length (filter dd_success (rr_details r)) \<and>
     rr_errors r = length (filter (\<lambda>d. \<not> dd_success d) (rr_details r)) \<and>
     detail_key ` set (filter dd_success (rr_details r)) \<subseteq> keys"

lemma process_loop_report:
  assumes "report_ok (recordable num claims) done_es r (correlation_key ` set rows)"
  shows "report_ok (recordable num claims) (done_es @ es) (fst (process_loop num claims now source es r rows))
      (correlation_key ` set (snd (process_loop num claims now source es r rows)))"
  using assms
proof (induction es arbitrary: done_es r rows)
  case Nil
  then show ?case by simp
next
  case (Cons e es)
  show ?case
  proof (cases rule: correlate_cases[of e rows num claims now source])
    case (seen d)
    have "report_ok (recordable num claims) (done_es @ [e]) (r\<lparr>rr_correlated := rr_correlated r + 1, rr_details := rr_details r @ [d]\<rparr>) (correlation_key ` set rows)"
      using Cons.prems seen(1-3) by (simp add: report_ok_def list_all2_appendI)
    from Cons.IH[OF this] show ?thesis using seen by simp
  next
    case (stored d)
    have "report_ok (recordable num claims) (done_es @ [e]) (r\<lparr>rr_correlated := rr_correlated r + 1, rr_details := rr_details r @ [d]\<rparr>)
        (correlation_key ` set (rows @ [event_row num now source e]))"
      using Cons.prems stored(1-4) by (auto simp: report_ok_def list_all2_appendI)
    from Cons.IH[OF this] show ?thesis using stored by simp
  next
    case (refused err)
    have "report_ok (recordable num claims) (done_es @ [e])
        (r\<lparr>rr_errors := rr_errors r + 1,
           rr_details := rr_details r @ [\<lparr>dd_txHash = se_txHash e, dd_eventIndex = se_eventIndex e,
             dd_eventTopic = se_topic e, dd_claimId = None, dd_packageId = None, dd_success = False,
             dd_error = Some err\<rparr>]\<rparr>) (correlation_key ` set rows)"
      using Cons.prems refused(2) by (simp add: report_ok_def detail_key_def event_key_def list_all2_appendI)
    from Cons.IH[OF this] show ?thesis using refused by simp
  qed
qed

lemma processEvents_report:
  "report_ok (recordable num claims) es (fst (processEvents num claims now source es rows))
     (correlation_key ` set (snd (processEvents num claims now source es rows)))"
proof -
  have "report_ok (recordable num claims) [] no_result (correlation_key ` set rows)"
    by (simp add: report_ok_def no_result_def)
  from process_loop_report[OF this] show ?thesis by (simp add: processEvents_def)
qed

lemma processEvents_rows:
  "snd (processEvents num claims now source es rows) =
     rows @ map (event_row num now source) (new_events num claims (correlation_key ` set rows) es)"
  by (simp add: processEvents_def process_loop_rows)

definition keys_once :: "correlation list \<Rightarrow> bool" where
  "keys_once rows \<longleftrightarrow> distinct (map correlation_key rows)"

lemma processEvents_keeps:
  assumes "keys_once rows"
  shows "keys_once (snd (processEvents num claims now source es rows))"
  using assms new_events_keys[of num claims "correlation_key ` set rows" es]
  by (simp add: keys_once_def processEvents_rows comp_def image_image Int_commute)

lemma recordable_has_row:
  assumes "e \<in> set es" and "recordable num claims e"
  shows "event_key e \<in> correlation_key ` set (snd (processEvents num claims now source es rows))"
  using new_events_complete[OF assms, of "correlation_key ` set rows"] by (auto simp: processEvents_rows image_Un image_image)

lemma report_length: "report_ok p es r keys \<Longrightarrow> rr_correlated r + rr_errors r = length es"
  by (metis report_ok_def length_map sum_length_filter_compl)

lemma processEvents_again:
  "snd (processEvents num claims now' source' es (snd (processEvents num claims now source es rows))) =
     snd (processEvents num claims now source es rows)"
proof -
  have "new_events num claims (correlation_key ` set (snd (processEvents num claims now source es rows))) es = []"
    by (intro no_new_events) (simp add: recordable_has_row)
  then show ?thesis by (subst processEvents_rows) simp
qed

section \<open>Runs\<close>

text \<open>The chain and what else the service does not decide, for one request.\<close>

record chain_view =
  vw_events :: "rpc_request \<Rightarrow> string + rpc_event list"
  vw_transaction :: "string \<Rightarrow> string + rpc_transaction"
  vw_contract :: string
  vw_num :: "rat \<Rightarrow> string"
  vw_claims :: "ident list"
  vw_now :: time

definition correlate_range ::
  "chain_view \<Rightarrow> correlation_job \<Rightarrow> correlation list \<Rightarrow> (string + correlation_result) \<times> correlation list" where
  "correlate_range ch data rows =
     correlateEvents (vw_events ch) (vw_contract ch) (vw_num ch) (vw_claims ch) (vw_now ch) data rows"

definition correlate_tx ::
  "chain_view \<Rightarrow> string \<Rightarrow> string \<Rightarrow> correlation list \<Rightarrow> (string + correlation_result) \<times> correlation list" where
  "correlate_tx ch txHash source rows =
     correlateTransaction (vw_transaction ch) (vw_contract ch) (vw_num ch) (vw_claims ch) (vw_now ch) txHash source rows"

inductive correlation_step :: "correlation list \<Rightarrow> correlation list \<Rightarrow> bool" where
  Range_step: "correlation_step rows (snd (correlate_range ch data rows))"
| Tx_step: "correlation_step rows (snd (correlate_tx ch txHash source rows))"

text \<open>The events a correlation of a range works on.\<close>

definition range_events :: "chain_view \<Rightarrow> correlation_job \<Rightarrow> string + soroban_event list" where
  "range_events ch data = map_sum id (filter (\<lambda>e. se_topic e \<in> set CORRELATED_TOPICS))
     (fetchEvents (vw_events ch) (if truthy (cj_contractId data) then the (cj_contractId data) else vw_contract ch)
        (cj_startLedger data) (cj_endLedger data))"

lemma range_events_later: "range_events (ch\<lparr>vw_now := later\<rparr>) data = range_events ch data"
  by (simp add: range_events_def)

lemma correlate_range_eq:
  "correlate_range ch data rows =
     (case range_events ch data of
        Inl err \<Rightarrow> (Inl err, rows)
      | Inr es \<Rightarrow> map_prod Inr id (processEvents (vw_num ch) (vw_claims ch) (vw_now ch) (cj_source data) es rows))"
  by (simp add: correlate_range_def correlateEvents_def range_events_def split: sum.splits prod.splits)

text \<open>The events of one transaction.\<close>

definition tx_events :: "chain_view \<Rightarrow> string \<Rightarrow> string + soroban_event list" where
  "tx_events ch txHash =
     (case vw_transaction ch txHash of
        Inl err \<Rightarrow> Inl err
      | Inr t \<Rightarrow>
          if rt_status t \<noteq> ''SUCCESS'' then Inl (''Transaction '' @ txHash @ '' not successful: '' @ rt_status t)
          else Inr (filter (\<lambda>e. se_topic e \<noteq> []) (map (transaction_event txHash (or_zero (rt_ledger t)))
            (enumerate 0 (filter (\<lambda>e. ce_contractId e = vw_contract ch) (rt_events t))))))"

lemma correlate_tx_eq:
  "correlate_tx ch txHash source rows =
     (case tx_events ch txHash of
        Inl err \<Rightarrow> (Inl err, rows)
      | Inr es \<Rightarrow> map_prod Inr id (processEvents (vw_num ch) (vw_claims ch) (vw_now ch) source es rows))"
proof (cases "vw_transaction ch txHash")
  case (Inl err)
  then show ?thesis by (simp add: correlate_tx_def correlateTransaction_def tx_events_def)
next
  case (Inr t)
  then show ?thesis
    by (cases "rt_status t = ''SUCCESS''")
      (simp_all add: correlate_tx_def correlateTransaction_def tx_events_def Let_def split: prod.split)
qed

text \<open>Either request leaves the table, or what working on some events makes of it.\<close>

lemma correlation_step_cases:
  assumes "correlation_step rows rows'"
  shows "rows' = rows \<or> (\<exists>num claims now source es. rows' = snd (processEvents num claims now source es rows))"
  using assms
proof cases
  case (Range_step ch data)
  then show ?thesis by (cases "range_events ch data") (simp_all add: correlate_range_eq, blast)
next
  case (Tx_step ch txHash source)
  then show ?thesis by (cases "tx_events ch txHash") (simp_all add: correlate_tx_eq, blast)
qed

interpretation correlations: mono_system correlation_step keys_once prefix
proof unfold_locales
  fix rows rows' rows'' :: "correlation list"
  have grows: "prefix rows rows' \<and> (keys_once rows \<longrightarrow> keys_once rows')" if "correlation_step rows rows'"
    using correlation_step_cases[OF that] processEvents_keeps[of rows] by (auto simp: processEvents_rows)
  show "correlation_step rows rows' \<Longrightarrow> keys_once rows \<Longrightarrow> keys_once rows'" using grows by blast
  show "correlation_step rows rows' \<Longrightarrow> keys_once rows \<Longrightarrow> prefix rows rows'" using grows by blast
  show "prefix rows rows" by simp
  show "prefix rows rows' \<Longrightarrow> prefix rows' rows'' \<Longrightarrow> prefix rows rows''" by (rule prefix_order.trans)
qed

text \<open>
  C21. Tying events of the contract to records is exactly-once bookkeeping. Start from the empty table, run any
  requests for ranges and transactions, and then one more over a range. What identifies an event here is what
  identifies it for the service: the hash of its transaction and the index the service assigns, which for a range is the
  index of the transaction in its ledger and for a single transaction the position of the event. (So events of one
  transaction collide, \<open>fetched_events_collide\<close>, and the two kinds of request can give one event two rows,
  \<open>event_recorded_twice\<close>.) No such key has two rows. The old rows are untouched, and each new one is the row of an event of
  the range, in order. Every event the table can take finds a row with its key. The report has one detail per event, in
  order, counted as a success or an error; only an event the table cannot take is an error, and the key of a success has
  a row. The same request later, whatever the clock says, adds nothing.
\<close>

theorem correlations_recorded_once:
  assumes "correlation_step\<^sup>*\<^sup>* [] rows" and "range_events ch data = Inr es"
    and "correlate_range ch data rows = (Inr r, rows')"
  shows "distinct (map (\<lambda>x. (cr_txHash x, cr_eventIndex x)) rows') \<and>
    (\<exists>fresh. rows' = rows @ map (event_row (vw_num ch) (vw_now ch) (cj_source data)) fresh \<and> subseq fresh es) \<and>
    (\<forall>e \<in> set es. recordable (vw_num ch) (vw_claims ch) e \<longrightarrow>
      (\<exists>x \<in> set rows'. same_key (se_txHash e) (se_eventIndex e) x)) \<and>
    map (\<lambda>d. (dd_txHash d, dd_eventIndex d)) (rr_details r) = map (\<lambda>e. (se_txHash e, se_eventIndex e)) es \<and>
    rr_correlated r + rr_errors r = length es \<and>
    list_all2 (\<lambda>e d. dd_success d \<or> \<not> recordable (vw_num ch) (vw_claims ch) e) es (rr_details r) \<and>
    (\<forall>d \<in> set (rr_details r). dd_success d \<longrightarrow> (\<exists>x \<in> set rows'. same_key (dd_txHash d) (dd_eventIndex d) x)) \<and>
    snd (correlate_range (ch\<lparr>vw_now := later\<rparr>) data rows') = rows'"
proof -
  define run where "run = processEvents (vw_num ch) (vw_claims ch) (vw_now ch) (cj_source data) es rows"
  have r: "r = fst run" and rows': "rows' = snd run"
    using assms(2,3) by (simp_all add: correlate_range_eq run_def prod_eq_iff)
  have once: "keys_once rows"
    using correlations.run_keeps[OF assms(1)] by (simp add: keys_once_def)
  from processEvents_keeps[OF this] have once_again: "distinct (map (\<lambda>x. (cr_txHash x, cr_eventIndex x)) rows')"
    by (simp add: rows' run_def keys_once_def correlation_key_def[abs_def])
  have grown: "\<exists>fresh. rows' = rows @ map (event_row (vw_num ch) (vw_now ch) (cj_source data)) fresh \<and> subseq fresh es"
    using new_events_subseq by (auto simp: rows' run_def processEvents_rows)
  have row_for: "\<exists>x \<in> set rows'. same_key (fst k) (snd k) x" if "k \<in> correlation_key ` set rows'" for k
    using that by (auto simp: same_key_iff)
  have complete_rows: "\<forall>e \<in> set es. recordable (vw_num ch) (vw_claims ch) e \<longrightarrow>
      (\<exists>x \<in> set rows'. same_key (se_txHash e) (se_eventIndex e) x)"
  proof (intro ballI impI)
    fix e assume "e \<in> set es" and "recordable (vw_num ch) (vw_claims ch) e"
    from recordable_has_row[OF this] have "event_key e \<in> correlation_key ` set rows'" by (simp add: rows' run_def)
    from row_for[OF this] show "\<exists>x \<in> set rows'. same_key (se_txHash e) (se_eventIndex e) x"
      by (simp add: event_key_def)
  qed
  have report: "report_ok (recordable (vw_num ch) (vw_claims ch)) es r (correlation_key ` set rows')"
    by (simp add: r rows' run_def processEvents_report)
  then have in_order: "map (\<lambda>d. (dd_txHash d, dd_eventIndex d)) (rr_details r) = map (\<lambda>e. (se_txHash e, se_eventIndex e)) es"
    by (simp add: report_ok_def detail_key_def[abs_def] event_key_def[abs_def])
  have counted: "rr_correlated r + rr_errors r = length es" using report by (rule report_length)
  have errors_deserved: "list_all2 (\<lambda>e d. dd_success d \<or> \<not> recordable (vw_num ch) (vw_claims ch) e) es (rr_details r)"
    using report by (simp add: report_ok_def)
  have success_rows: "\<forall>d \<in> set (rr_details r). dd_success d \<longrightarrow> (\<exists>x \<in> set rows'. same_key (dd_txHash d) (dd_eventIndex d) x)"
  proof (intro ballI impI)
    fix d assume "d \<in> set (rr_details r)" and "dd_success d"
    with report have "detail_key d \<in> correlation_key ` set rows'" by (auto simp: report_ok_def)
    from row_for[OF this] show "\<exists>x \<in> set rows'. same_key (dd_txHash d) (dd_eventIndex d) x"
      by (simp add: detail_key_def)
  qed
  have repeated: "snd (correlate_range (ch\<lparr>vw_now := later\<rparr>) data rows') = rows'"
    by (simp add: correlate_range_eq range_events_later assms(2) rows' run_def processEvents_again)
  show ?thesis
    using once_again grown complete_rows in_order counted errors_deserved success_rows repeated by (intro conjI)
qed

text \<open>
  The witness: an event of a known claim, the same event again, and one that names a claim the table of claims does
  not hold.
\<close>

definition demo_event :: "int \<Rightarrow> string \<Rightarrow> rpc_event" where
  "demo_event i c = \<lparr>re_topic = [JStr ''claim_created''], re_value = Some (JObj [(''claim_id'', JStr c)]),
     re_txHash = Some ''t1'', re_ledger = Some 7, re_transactionIndex = Some i\<rparr>"

definition demo_events_chain :: chain_view where
  "demo_events_chain = \<lparr>vw_events = \<lambda>_. Inr [demo_event 1 ''c1'', demo_event 1 ''c1'', demo_event 2 ''zz''],
     vw_transaction = \<lambda>_. Inl ''none'', vw_contract = ''k'', vw_num = \<lambda>_. [], vw_claims = [''c1''], vw_now = 10\<rparr>"

definition demo_range :: correlation_job where
  "demo_range = \<lparr>cj_startLedger = Some 1, cj_endLedger = Some 9, cj_contractId = None, cj_source = ''scheduled''\<rparr>"

definition demo_outcome :: "correlation_result \<times> correlation list" where
  "demo_outcome = (case correlate_range demo_events_chain demo_range [] of (r, rows') \<Rightarrow> (projr r, rows'))"

lemma demo_range_run:
  "map_sum id (map event_key) (range_events demo_events_chain demo_range) = Inr [(''t1'', 1), (''t1'', 1), (''t1'', 2)]"
  "isl (fst (correlate_range demo_events_chain demo_range [])) = False"
  "rr_correlated (fst demo_outcome) = 2" "rr_errors (fst demo_outcome) = 1"
  "map correlation_key (snd demo_outcome) = [(''t1'', 1)]"
  by code_simp+

theorem correlations_recorded_once_witness:
  "snd (correlate_range (demo_events_chain\<lparr>vw_now := 99\<rparr>) demo_range (snd demo_outcome)) = snd demo_outcome \<and>
   map correlation_key (snd demo_outcome) = [(''t1'', 1)] \<and> rr_errors (fst demo_outcome) = 1"
proof -
  obtain es where "range_events demo_events_chain demo_range = Inr es"
    using demo_range_run(1) by (cases "range_events demo_events_chain demo_range") simp_all
  moreover have "correlate_range demo_events_chain demo_range [] = (Inr (fst demo_outcome), snd demo_outcome)"
    using demo_range_run(2) by (cases "correlate_range demo_events_chain demo_range []") (auto simp: demo_outcome_def isl_def split: sum.splits)
  ultimately have "snd (correlate_range (demo_events_chain\<lparr>vw_now := 99\<rparr>) demo_range (snd demo_outcome)) = snd demo_outcome"
    using correlations_recorded_once[OF rtranclp.rtrancl_refl] by blast
  with demo_range_run(4,5) show ?thesis by simp
qed

section \<open>What the projection cannot tell\<close>

text \<open>What the claims service reads of a row.\<close>

definition as_claims_see :: "correlation \<Rightarrow> event_correlation" where
  "as_claims_see x = \<lparr>co_claimId = cr_claimId x, co_eventTopic = cr_eventTopic x, co_packageId = cr_packageId x,
     co_createdAt = cr_createdAt x\<rparr>"

definition one_id :: "correlation \<Rightarrow> bool" where
  "one_id x \<longleftrightarrow> cr_claimId x = None \<or> cr_packageId x = None"

lemma event_row_one_id: "one_id (event_row num now source e)"
  by (simp add: one_id_def event_row_def extractIdentifiers_def)

interpretation projections: inv_system correlation_step "\<lambda>rows. \<forall>x \<in> set rows. one_id x"
proof
  fix rows rows' :: "correlation list"
  assume "correlation_step rows rows'" and "\<forall>x \<in> set rows. one_id x"
  then show "\<forall>x \<in> set rows'. one_id x"
    using correlation_step_cases[of rows rows'] event_row_one_id by (auto simp: processEvents_rows)
qed

text \<open>
  A row never names a claim and a package, but the package of a claim is looked up by its claim: over rows this
  service writes it is never found. A disbursement then schedules no transaction, silently.
\<close>

theorem package_never_found:
  assumes "correlation_step\<^sup>*\<^sup>* [] rows" and "cs_correlations s = map as_claims_see rows"
  shows "getPackageIdForClaim i s = Inl (PlainError (''Package ID not found for claim '' @ i))"
proof -
  define found where "found = sort_key (\<lambda>e. - co_createdAt e)
    (filter (\<lambda>e. co_claimId e = Some i \<and> co_eventTopic e = ''package_created'') (cs_correlations s))"
  have "co_packageId e = None" if "e \<in> set found" for e
    using that projections.run_keeps[OF assms(1)] by (auto simp: found_def assms(2) one_id_def as_claims_see_def)
  then show ?thesis
    by (cases found) (simp_all add: getPackageIdForClaim_def found_def[symmetric] truthy_def)
qed

theorem disbursement_off_chain:
  assumes "correlation_step\<^sup>*\<^sup>* [] rows" and "cs_correlations s = map as_claims_see rows"
  shows "disburse_onchain env clk newTxId ambient c receiptPointer correlationId s = s"
  by (simp add: disburse_onchain_def package_never_found[OF assms] Let_def)

text \<open>
  The index of a fetched event is the index of its transaction in the ledger. Events of one transaction share it,
  so all but the first count as seen.
\<close>

theorem fetched_events_collide:
  assumes "fetched_event a = Some x" and "fetched_event b = Some y"
    and "re_txHash a = re_txHash b" and "re_transactionIndex a = re_transactionIndex b"
  shows "event_key x = event_key y"
  using assms by (auto simp: fetched_event_def event_key_def split: if_splits)

text \<open>
  The two kinds of request number the events of a transaction differently: the first event of a transaction that is
  the second of its ledger gets a row from its range and another one from its transaction.
\<close>

definition demo_transaction :: rpc_transaction where
  "demo_transaction = \<lparr>rt_status = ''SUCCESS'', rt_ledger = Some 7,
     rt_events = [\<lparr>ce_contractId = ''k'', ce_topic = re_topic (demo_event 1 ''c1''), ce_value = re_value (demo_event 1 ''c1'')\<rparr>]\<rparr>"

theorem event_recorded_twice:
  "map (\<lambda>x. (cr_txHash x, cr_eventIndex x, cr_claimId x))
     (snd (correlateTransaction (\<lambda>_. Inr demo_transaction) ''k'' (\<lambda>_. []) [''c1''] 11 ''t1'' ''manual'' (snd demo_outcome))) =
   [(''t1'', 1, Some ''c1''), (''t1'', 0, Some ''c1'')]"
  by code_simp

section \<open>The jobs\<close>

inductive scheduler_step :: "correlation_scheduler \<Rightarrow> correlation_scheduler \<Rightarrow> bool" where
  Cron: "scheduler_step s (scheduledCorrelation now full s)"
| Trigger: "scheduler_step s (triggerCorrelation startLedger endLedger contractId source s)"
| Tx: "scheduler_step s (schedule_transaction txHash s)"

definition typeless :: "correlation_scheduler \<Rightarrow> bool" where
  "typeless s \<longleftrightarrow> (\<forall>job \<in> set (sd_queue s). oj_type job = None)"

interpretation scheduling: inv_system scheduler_step typeless
proof
  fix s t assume "scheduler_step s t" and "typeless s"
  then show "typeless t"
  proof cases
    case (Cron now full)
    with \<open>typeless s\<close> show ?thesis by (simp add: scheduledCorrelation_def typeless_def queued_def Let_def)
  next
    case Trigger
    with \<open>typeless s\<close> show ?thesis by (simp add: triggerCorrelation_def typeless_def queued_def)
  next
    case Tx
    with \<open>typeless s\<close> show ?thesis by (simp add: schedule_transaction_def typeless_def queued_def)
  qed
qed

text \<open>The scheduler's jobs carry no type, so the worker refuses each of them and no event is ever tied to a record.\<close>

theorem scheduled_jobs_refused:
  assumes "scheduler_step\<^sup>*\<^sup>* s t" and "sd_queue s = []" and "job \<in> set (sd_queue t)"
  shows "process_onchain calls job rows = (Inl ''Unknown onchain operation type: undefined'', rows)"
proof -
  have "typeless s" using assms(2) by (simp add: typeless_def)
  with assms(1) have "typeless t" by (rule scheduling.run_keeps)
  with assms(3) have "oj_type job = None" by (simp add: typeless_def)
  then show ?thesis by (simp add: process_onchain_def onchain_operation_of_def)
qed

end
