(* ===== verification/Spec2Isabelle.thy ===== *)
theory Spec2Isabelle
  imports ReviewLock LockOverlap InboxEvents ReviewInbox SorobanTx TxOverlap VerificationRecord ClaimLedger ClaimHistory CsvStream
    ClaimExport JsonText AuditChain AuditIntegrity SessionFlow RequestLayer Base64 SyncQueue SyncFlush FileValidation Bytes Encryption UploadSession UploadFlow ApiKeys ApiKeyRules RequestGuards ClaimColumns RecipientImport ImportRules
    CircuitBreaker ResultMetadata VerificationService VerificationRules ReviewQueue EventCorrelation EventRules
begin

text \<open>
  Soter hands out humanitarian aid over the Stellar network. The repository holds a NestJS backend
  (\<open>src/app/backend\<close>), an offline-capable mobile app (\<open>src/app/mobile\<close>), a web frontend, a Python service
  that scores documents, and the Soroban contracts that hold the money. This development models the
  TypeScript that decides: the services of the backend that keep the state of claims, money, reviews,
  evidence, sessions, keys and the audit log, and the services of the mobile app that queue and send work.
  Paths below are relative to \<open>src/app/backend/src\<close> unless they start with \<open>src\<close>.

  \<^bold>\<open>How the parts interact.\<close> A request passes the guards (API key, role, scope, two rate limits) and reaches
  a handler. A claim is created against the budget of its campaign, one by one or by a recipient import,
  and locks its amount; its verification leaves an outcome on the claim and in the audit log; approval and
  disbursement schedule a transaction that a worker sends to the chain through an adapter; a cancelled claim
  unlocks its amount and can be reissued. Reviewers decide on verification requests under a lease
  (review locks), and every decision is published to the event hub. Evidence arrives in chunks, is checked,
  encrypted and queued. The mobile app queues what a user does offline and flushes it through its request
  layer. What the services do is appended to the audit log, whose rows form a hash chain.

  \<^bold>\<open>Conventions\<close> (theory \<open>Prelude\<close>). A Prisma table is the list of its rows; an instant is its milliseconds,
  and \<open>clk k\<close> is the \<open>k\<close>-th reading of the clock in an operation; a thrown error is the left side of a sum,
  returned with the state the operation leaves behind; ids a library generates are arguments. Code that is
  not in the repository (ciphers and SHA-256, the chain behind its adapter, the network behind \<open>fetch\<close>,
  \<open>Date.parse\<close>, the text of a number) is a parameter; what is relied on is a named predicate on that
  parameter (\<open>sound_suite\<close>, \<open>upload_env_ok\<close>, \<open>response_ok\<close> and the like), shown to be satisfiable by the witness of each property
  that uses it. The locale \<open>inv_system\<close> turns a step that keeps an invariant into an invariant of all runs, and
  \<open>mono_system\<close>, which extends it, does the same for an order along a run; every state machine below
  interprets one of the two, so its properties are about runs of any length.

  \<^bold>\<open>The theories\<close>, in the order they build on each other:

  \<^item> \<open>Prelude\<close>, \<open>Bytes\<close>, \<open>JsonText\<close>: tables, errors, runs; Node's \<open>Buffer\<close>; JSON values with
    \<open>JSON.stringify\<close>, \<open>JSON.parse\<close> and the canonical form of \<open>audit/audit-chain.util.ts\<close>. The parser has fuel,
    twice the length of the text; that it is enough for every text the printer writes is the round trip
    \<open>parse_stringify\<close>, so the fuel shows in no later statement.
  \<^item> \<open>ReviewLock\<close>, \<open>LockOverlap\<close> (\<open>verification/review-lock.service.ts\<close>): acquire, refresh, release, verify and
    expire as steps on the lock table; then the same with every access of a request to the table a step of its own, so
    that requests overlap. An entity has at most as many live locks as acquisitions of it overlap, one if they do not,
    provided that lapsed locks are not refreshed; two runs show that the service alone does not give this. The locale \<open>review_gate\<close> is the contract of a gate
    (who holds it, what a verification means); \<open>lock_gate\<close> interprets it on the service.
  \<^item> \<open>InboxEvents\<close> (\<open>verification/verification-inbox-events.service.ts\<close>): the event hub, its bounded buffer and
    the replay of a reconnecting client.
  \<^item> \<open>ReviewInbox\<close> (\<open>verification/verification-inbox.service.ts\<close> and its controller): queries, decisions, notes.
    The locale \<open>review_desk\<close> extends \<open>review_gate\<close> by the decision handler; \<open>desk\<close> interprets it on the service, so
    that a decision needs the live lock and is final.
  \<^item> \<open>SorobanTx\<close>, \<open>TxOverlap\<close> (\<open>onchain/soroban-transaction-lifecycle.service.ts\<close>, its scheduler and processor): the
    life of a transaction over an arbitrary adapter; dead transactions stay dead. \<open>TxOverlap\<close> takes the parts of an
    execution as steps that interleave and may be lost: recorded attempts are bounded in every run, calls to the chain
    if executions of a transaction do not overlap.
  \<^item> \<open>VerificationRecord\<close> (\<open>verification/verification-result.persistence.ts\<close>,
    \<open>claims/claim-verification-state.service.ts\<close>): the outcome on the claim and the state read from the log.
  \<^item> \<open>ClaimLedger\<close> (\<open>claims/claims.service.ts\<close>, \<open>common/budget/budget.service.ts\<close>,
    \<open>claims/cancel-and-reissue.service.ts\<close>): the life of a claim and the ledger. The specification is the machine
    \<open>ledger_move\<close> (a claim opens, advances, closes); \<open>services_run_ledger_machine\<close> is the refinement, and the
    balance and the budget are invariants of the machine. \<open>ClaimColumns\<close> holds the locale \<open>stable_column\<close> for what no
    request changes, used by \<open>ClaimHistory\<close> (the reissue history, two loops that may not return on a bad table,
    proved to return on every reachable one), \<open>ClaimExport\<close> (the CSV export and receipts) and \<open>ImportRules\<close>.
  \<^item> \<open>CsvStream\<close> (\<open>common/csv/csv.util.ts\<close>, \<open>common/streaming/cursor-paginate.ts\<close>, \<open>parseCsv\<close>): writer, reader and the
    loop over pages; the locale \<open>page_source\<close> is what the loop needs of a table, interpreted on the claims.
  \<^item> \<open>RecipientImport\<close>, \<open>ImportRules\<close> (\<open>recipient-import/\<close>): upload, jobs, the worker with its checkpoints, and what
    holds however often the worker is lost.
  \<^item> \<open>AuditChain\<close>, \<open>AuditIntegrity\<close> (\<open>audit/audit-chain.service.ts\<close>, \<open>audit/audit-chain.util.ts\<close>, the strategies of
    \<open>retention-policy/retention-policy.service.ts\<close> on the log): appends, verification, backfill; honest logs
    verify, and a table that verifies against an anchored head has the anchored entries up to collisions.
  \<^item> \<open>SessionFlow\<close> (\<open>session/session.service.ts\<close>): steps, submissions with client keys, attempts, expiry.
  \<^item> \<open>ApiKeys\<close>, \<open>ApiKeyRules\<close>, \<open>RequestGuards\<close> (\<open>api-keys/\<close>, \<open>common/guards/\<close>, \<open>auth/roles.guard.ts\<close>,
    \<open>config/rate-limit.config.ts\<close>): the life of a key, which keys open, and the guards in their order.
  \<^item> \<open>Encryption\<close>, \<open>FileValidation\<close>, \<open>UploadSession\<close>, \<open>UploadFlow\<close> (\<open>common/encryption/\<close>, \<open>evidence/\<close>): stored fields and
    files, what a file must be, and chunked uploads over a cache that may forget; the locale \<open>key_store\<close> is the
    contract of the cache.
  \<^item> \<open>CircuitBreaker\<close>, \<open>ResultMetadata\<close>, \<open>VerificationService\<close>, \<open>VerificationRules\<close>
    (\<open>common/utils/circuit-breaker.util.ts\<close>, \<open>verification/metadata.service.ts\<close>, \<open>verification/verification.service.ts\<close>
    and its processor): the breaker in front of the AI service, the result metadata, and a claim from the queue to
    its verdict. The verdicts in \<open>claim_step\<close> of \<open>ClaimLedger\<close> are those on a claim that is requested, or that confirm
    its status; \<open>VerificationRules\<close> runs the whole pipeline beside the requests, with the books still in balance as
    long as results are written while their claim is open, and shows what a late one breaks.
  \<^item> \<open>ReviewQueue\<close> (\<open>getReviewQueue\<close> of the verification service, \<open>verification/dto/review-queue-query.dto.ts\<close>): filters, cursor and
    pages of the review queue; one request sees one table, and a walk over an unchanged table is exact.
  \<^item> \<open>EventCorrelation\<close>, \<open>EventRules\<close> (\<open>onchain/soroban-event-correlation.service.ts\<close>, its scheduler,
    \<open>onchain/onchain.processor.ts\<close>): events of the contract tied to records, each once however often a range is
    repeated; and what the claims service can find of them.
  \<^item> \<open>RequestLayer\<close>, \<open>Base64\<close>, \<open>SyncQueue\<close>, \<open>SyncFlush\<close> (\<open>src/app/mobile/src/services\<close>): requests with retries, the
    reader of base64, the offline queue and its flush.

  \<^bold>\<open>Loops.\<close> Loops over a list are structural recursion. Loops that depend on a table or on the network (the
  pages of an export, the two walks of the reissue history, the backfill of the audit log, the retries of a
  request) are \<open>partial_function\<close>s or have a proved measure, and their termination is a property of its own:
  \<open>export_is_the_table\<close>, \<open>reissue_history_complete\<close>, \<open>backfill_seals_all\<close>, \<open>request_bounded\<close>, \<open>import_finishes\<close>.

  \<^bold>\<open>What is idealised.\<close> Amounts are rationals, so the rounding of doubles is not modelled; a string is a list of
  8-bit characters; a database transaction and, unless a theory says otherwise, a handler are one step. Where
  interleaving matters (the review locks in \<open>LockOverlap\<close>, the executions of transactions in \<open>TxOverlap\<close>, the
  worker of the import, the claims created while it runs) the steps are finer, and each theory says which.

  \<^bold>\<open>Not modelled.\<close> The adapters around the Stellar SDK (\<open>onchain/soroban.adapter.ts\<close> and its siblings) translate
  arguments into calls of a package and have no state of their own: the adapter is a parameter of \<open>SorobanTx\<close>.
  Of the verification pipeline the text of the system prompt, the order of priorities in the queue and the OTP
  flow are left out; the AI service and the random generator are parameters.
  The Python service and the Rust contracts are other languages. The screens of the web frontend and the
  mobile app, routing, decorators, dependency injection, metrics and log lines hold no decisions of the
  kind stated here.
\<close>

end
